(* ===== verification/Hk_Prelude.thy ===== *)
theory Hk_Prelude
  imports Main "HOL-Library.Word" "HOL-Library.Monad_Syntax"
begin

text \<open>
  Shared vocabulary of the development: C characters and NUL-terminated strings, the
  standard-library routines the code calls on them (\<open>strchr\<close>, \<open>strrchr\<close>, \<open>strtol\<close>,
  \<open>atoi\<close>, \<open>%d\<close> formatting), table cells updated in place, and the option-valued fold
  that models a loop whose body may fail to return.

  A C \<open>char\<close> is a HOL \<open>char\<close> (one byte). Comparisons such as \<open>*s <= ' '\<close> are on
  the signed value, as gcc makes \<open>char\<close> on the x86 hosts the Makefile builds for by
  default: \<open>cval\<close>.
\<close>

named_theorems hk_defs \<open>definitions unfolded together in component proofs\<close>
named_theorems hk_frame \<open>fields an operation leaves unchanged\<close>
named_theorems hk_inv \<open>preservation of component invariants\<close>

section \<open>Characters\<close>

abbreviation NUL :: char where "NUL \<equiv> CHR 0x00"
abbreviation LF :: char where "LF \<equiv> CHR 0x0A"
abbreviation SP :: char where "SP \<equiv> CHR 0x20"
abbreviation DQUOTE :: char where "DQUOTE \<equiv> CHR 0x22"
abbreviation BSLASH :: char where "BSLASH \<equiv> CHR 0x5C"

definition cval :: "char \<Rightarrow> int" where
  "cval c = (let n = of_char c in if n < 128 then n else n - 256)"

definition is_graph :: "char \<Rightarrow> bool" where
  \<comment> \<open>\<open>*s > ' '\<close>\<close>
  "is_graph c \<longleftrightarrow> cval c > 32"

definition is_blank :: "char \<Rightarrow> bool" where
  \<comment> \<open>\<open>(*s != 0) && (*s <= ' ')\<close>\<close>
  "is_blank c \<longleftrightarrow> c \<noteq> NUL \<and> cval c \<le> 32"

lemma cval_NUL [simp]: "cval NUL = 0"
  by (simp add: cval_def)

lemma is_graph_not_NUL [simp]: "\<not> is_graph NUL" "\<not> is_blank NUL"
  by (simp_all add: is_graph_def is_blank_def)

lemma is_graph_imp_not_NUL: "is_graph c \<Longrightarrow> c \<noteq> NUL"
  by auto

lemma blank_or_graph: "is_blank c \<longleftrightarrow> c \<noteq> NUL \<and> \<not> is_graph c"
  by (auto simp: is_graph_def is_blank_def)

lemma is_graph_SP [simp]: "\<not> is_graph SP" "is_blank SP"
  by (simp_all add: is_graph_def is_blank_def cval_def)

lemma is_graph_LF [simp]: "\<not> is_graph LF" "is_blank LF"
  by (simp_all add: is_graph_def is_blank_def cval_def)

lemma is_graph_quote [simp]: "is_graph DQUOTE" "is_graph BSLASH"
  by (simp_all add: is_graph_def cval_def)

section \<open>NUL-terminated strings in memory\<close>

definition cstr :: "char list \<Rightarrow> string" where
  \<comment> \<open>the C string that starts at the head of a piece of memory\<close>
  "cstr m = takeWhile (\<lambda>c. c \<noteq> NUL) m"

lemma cstr_simps [simp]:
  "cstr [] = []"
  "cstr (c # m) = (if c = NUL then [] else c # cstr m)"
  by (simp_all add: cstr_def)

lemma cstr_append_NUL: "NUL \<notin> set s \<Longrightarrow> cstr (s @ NUL # m) = s"
  by (induction s) auto

lemma cstr_no_NUL: "NUL \<notin> set s \<Longrightarrow> cstr s = s"
  by (induction s) auto

lemma NUL_notin_cstr [simp]: "NUL \<notin> set (cstr m)"
  by (induction m) auto

lemma length_cstr_le: "length (cstr m) \<le> length m"
  by (induction m) auto

section \<open>strchr and strrchr\<close>

primrec strchr :: "string \<Rightarrow> char \<Rightarrow> nat option" where
  "strchr [] c = None"
| "strchr (x # xs) c = (if x = c then Some 0 else map_option Suc (strchr xs c))"

definition strrchr :: "string \<Rightarrow> char \<Rightarrow> nat option" where
  "strrchr s c = map_option (\<lambda>i. length s - Suc i) (strchr (rev s) c)"

lemma strchr_None_iff: "strchr s c = None \<longleftrightarrow> c \<notin> set s"
  by (induction s) auto

lemma strchr_SomeD:
  "strchr s c = Some i \<Longrightarrow> i < length s \<and> s ! i = c \<and> c \<notin> set (take i s)"
  by (induction s arbitrary: i) (auto split: if_splits simp: nth_Cons' take_Cons')

lemma strchr_append: "c \<notin> set s \<Longrightarrow> strchr (s @ c # t) c = Some (length s)"
  by (induction s) auto

lemma strchr_notin [simp]: "c \<notin> set s \<Longrightarrow> strchr s c = None"
  by (simp add: strchr_None_iff)

lemma strrchr_append: "c \<notin> set t \<Longrightarrow> strrchr (s @ c # t) c = Some (length s)"
  using strchr_append [of c "rev t" "rev s"] by (simp add: strrchr_def)

lemma strrchr_notin [simp]: "c \<notin> set s \<Longrightarrow> strrchr s c = None"
  by (simp add: strrchr_def)

section \<open>Numbers in decimal\<close>

definition digit :: "nat \<Rightarrow> char" where
  "digit n = char_of (48 + n)"

fun nat_dec :: "nat \<Rightarrow> string" where
  "nat_dec n = (if n < 10 then [digit n] else nat_dec (n div 10) @ [digit (n mod 10)])"

declare nat_dec.simps [simp del]

definition int_dec :: "int \<Rightarrow> string" where
  \<comment> \<open>\<open>printf ("%d")\<close>\<close>
  "int_dec i = (if i < 0 then CHR ''-'' # nat_dec (nat (- i)) else nat_dec (nat i))"

definition isspace :: "char \<Rightarrow> bool" where
  "isspace c \<longleftrightarrow> c = SP \<or> (of_char c :: nat) \<in> {9..13}"

definition digit_val :: "nat \<Rightarrow> char \<Rightarrow> nat option" where
  \<comment> \<open>value of a digit in the given base, as \<open>strtol\<close> accepts it\<close>
  "digit_val base c =
     (let n = of_char c :: nat;
          v = (if 48 \<le> n \<and> n \<le> 57 then Some (n - 48)
               else if 97 \<le> n \<and> n \<le> 122 then Some (n - 87)
               else if 65 \<le> n \<and> n \<le> 90 then Some (n - 55) else None)
      in case v of None \<Rightarrow> None | Some d \<Rightarrow> if d < base then Some d else None)"

primrec digits_val :: "nat \<Rightarrow> nat \<Rightarrow> string \<Rightarrow> nat" where
  "digits_val base acc [] = acc"
| "digits_val base acc (c # s) =
     (case digit_val base c of
        None \<Rightarrow> acc
      | Some d \<Rightarrow> digits_val base (acc * base + d) s)"

definition signed_part :: "string \<Rightarrow> bool \<times> string" where
  "signed_part s =
     (case dropWhile isspace s of
        [] \<Rightarrow> (False, [])
      | c # t \<Rightarrow> if c = CHR ''-'' then (True, t)
                 else if c = CHR ''+'' then (False, t) else (False, c # t))"

definition clamp_long :: "int \<Rightarrow> int" where
  "clamp_long v = max (- (2 ^ 63)) (min (2 ^ 63 - 1) v)"

definition to_int32 :: "int \<Rightarrow> int" where
  \<comment> \<open>conversion of a \<open>long\<close> to a 32-bit \<open>int\<close>\<close>
  "to_int32 v = (v + 2 ^ 31) mod 2 ^ 32 - 2 ^ 31"

definition apply_sign :: "bool \<Rightarrow> nat \<Rightarrow> int" where
  "apply_sign neg n = (if neg then - int n else int n)"

definition strtol10 :: "string \<Rightarrow> int" where
  "strtol10 s = (let (neg, t) = signed_part s in clamp_long (apply_sign neg (digits_val 10 0 t)))"

definition atoi :: "string \<Rightarrow> int" where
  "atoi s = to_int32 (strtol10 s)"

definition base0_val :: "string \<Rightarrow> nat" where
  \<comment> \<open>the digits of a number whose base comes from its prefix\<close>
  "base0_val t =
     (case t of
        a # b # r \<Rightarrow>
          if a = CHR ''0'' \<and> (b = CHR ''x'' \<or> b = CHR ''X'')
             \<and> (case r of [] \<Rightarrow> False | c # _ \<Rightarrow> digit_val 16 c \<noteq> None)
          then digits_val 16 0 r
          else if a = CHR ''0'' then digits_val 8 0 t
          else digits_val 10 0 t
      | _ \<Rightarrow> digits_val 10 0 t)"

definition strtol0 :: "string \<Rightarrow> int" where
  \<comment> \<open>\<open>strtol (s, NULL, 0)\<close>: base from the prefix\<close>
  "strtol0 s = (let (neg, t) = signed_part s in clamp_long (apply_sign neg (base0_val t)))"

definition strtoull0 :: "string \<Rightarrow> nat" where
  \<comment> \<open>\<open>strtoull (s, NULL, 0)\<close>: a sign negates modulo \<open>2 ^ 64\<close>\<close>
  "strtoull0 s =
     (let (neg, t) = signed_part s; n = base0_val t
      in if 2 ^ 64 \<le> n then 2 ^ 64 - 1 else if neg then (2 ^ 64 - n) mod 2 ^ 64 else n)"

subsection \<open>Formatting and parsing are inverse\<close>

lemma of_char_digit: "n < 10 \<Longrightarrow> (of_char (digit n) :: nat) = 48 + n"
  by (simp add: digit_def)

lemma digit_val_digit [simp]: "n < 10 \<Longrightarrow> digit_val 10 (digit n) = Some n"
  by (simp add: digit_val_def of_char_digit Let_def)

lemma digit_no_sign:
  assumes "n < 10"
  shows "digit n \<noteq> CHR ''-''" "digit n \<noteq> CHR ''+''" "\<not> isspace (digit n)" "digit n \<noteq> NUL"
    "is_graph (digit n)" "digit n \<noteq> DQUOTE" "digit n \<noteq> BSLASH"
proof -
  have d: "(of_char (digit n) :: nat) = 48 + n"
    using assms by (rule of_char_digit)
  have *: "digit n = c \<Longrightarrow> (of_char c :: nat) = 48 + n" for c
    using d by simp
  show "digit n \<noteq> CHR ''-''" "digit n \<noteq> CHR ''+''" "digit n \<noteq> NUL"
    "digit n \<noteq> DQUOTE" "digit n \<noteq> BSLASH"
    using assms by (auto dest: *)
  show "\<not> isspace (digit n)"
    using d assms by (auto simp: isspace_def dest: *)
  have "(of_char (digit n) :: int) = int (of_char (digit n))"
    by (simp add: of_nat_of_char)
  also have "\<dots> = 48 + int n"
    using d by simp
  finally have "(of_char (digit n) :: int) = 48 + int n" .
  then show "is_graph (digit n)"
    using assms by (simp add: is_graph_def cval_def Let_def)
qed

lemma digits_val_append:
  "\<forall>c\<in>set s. digit_val base c \<noteq> None \<Longrightarrow>
   digits_val base acc (s @ t) = digits_val base (digits_val base acc s) t"
  by (induction s arbitrary: acc) auto

lemma nat_dec_digits: "c \<in> set (nat_dec n) \<Longrightarrow> \<exists>d<10. c = digit d"
proof (induction n rule: nat_dec.induct)
  case (1 n)
  show ?case
  proof (cases "n < 10")
    case True
    with 1 show ?thesis by (auto simp: nat_dec.simps [of n])
  next
    case False
    with "1.prems" consider "c \<in> set (nat_dec (n div 10))" | "c = digit (n mod 10)"
      by (auto simp: nat_dec.simps [of n])
    then show ?thesis
    proof cases
      case 1
      with False "1.IH" show ?thesis by simp
    next
      case 2
      moreover have "n mod 10 < 10" by simp
      ultimately show ?thesis by blast
    qed
  qed
qed

lemma nat_dec_chars:
  assumes "c \<in> set (nat_dec n)"
  shows "c \<noteq> CHR ''-'' \<and> c \<noteq> CHR ''+'' \<and> \<not> isspace c \<and> c \<noteq> NUL \<and> is_graph c
    \<and> c \<noteq> DQUOTE \<and> c \<noteq> BSLASH \<and> digit_val 10 c \<noteq> None"
proof -
  obtain d where d: "d < 10" "c = digit d" using nat_dec_digits [OF assms] by auto
  from digit_no_sign [OF d(1)] d show ?thesis by simp
qed

lemma digits_val_nat_dec: "digits_val 10 0 (nat_dec n) = n"
proof (induction n rule: nat_dec.induct)
  case (1 n)
  show ?case
  proof (cases "n < 10")
    case True
    then show ?thesis by (simp add: nat_dec.simps [of n])
  next
    case False
    have "\<forall>c\<in>set (nat_dec (n div 10)). digit_val 10 c \<noteq> None"
      using nat_dec_chars by blast
    with False 1 show ?thesis
      by (simp add: nat_dec.simps [of n] digits_val_append)
  qed
qed

lemma nat_dec_nonempty [simp]: "nat_dec n \<noteq> []"
  by (subst nat_dec.simps) simp

lemma dropWhile_nat_dec [simp]: "dropWhile isspace (nat_dec n) = nat_dec n"
proof -
  obtain c s where s: "nat_dec n = c # s" by (cases "nat_dec n") auto
  then have "c \<in> set (nat_dec n)" by simp
  then have "\<not> isspace c" by (rule nat_dec_chars [THEN conjunct2, THEN conjunct2, THEN conjunct1])
  with s show ?thesis by simp
qed

lemma signed_part_nat_dec: "signed_part (nat_dec n) = (False, nat_dec n)"
proof -
  obtain c s where s: "nat_dec n = c # s" by (cases "nat_dec n") auto
  then have "c \<in> set (nat_dec n)" by simp
  then have "c \<noteq> CHR ''-''" "c \<noteq> CHR ''+''" by (simp_all add: nat_dec_chars)
  with s show ?thesis using dropWhile_nat_dec [of n] by (simp add: signed_part_def)
qed

lemma signed_part_int_dec:
  "signed_part (int_dec i) = (i < 0, nat_dec (nat \<bar>i\<bar>))"
proof (cases "i < 0")
  case True
  then show ?thesis
    by (simp add: int_dec_def signed_part_def isspace_def)
next
  case False
  then show ?thesis by (simp add: int_dec_def signed_part_nat_dec)
qed

lemma to_int32_id: "- (2 ^ 31) \<le> i \<Longrightarrow> i < 2 ^ 31 \<Longrightarrow> to_int32 i = i"
  by (simp add: to_int32_def)

lemma to_int32_range: "- (2 ^ 31) \<le> to_int32 v \<and> to_int32 v < 2 ^ 31"
proof -
  have "0 \<le> (v + 2 ^ 31) mod 2 ^ 32" "(v + 2 ^ 31) mod 2 ^ 32 < 2 ^ 32"
    by (rule pos_mod_sign pos_mod_bound, simp)+
  then show ?thesis by (simp add: to_int32_def)
qed

lemma strtol10_int_dec:
  assumes "- (2 ^ 63) \<le> i" "i < 2 ^ 63"
  shows "strtol10 (int_dec i) = i"
  using assms
  by (auto simp: strtol10_def signed_part_int_dec digits_val_nat_dec apply_sign_def clamp_long_def)

lemma atoi_int_dec:
  assumes "- (2 ^ 31) \<le> i" "i < 2 ^ 31"
  shows "atoi (int_dec i) = i"
proof -
  have "strtol10 (int_dec i) = i"
    using assms by (intro strtol10_int_dec) auto
  with assms show ?thesis by (simp add: atoi_def to_int32_id)
qed

lemma atoi_bits [simp]: "atoi (int_dec 0) = 0" "atoi (int_dec 1) = 1"
  by (simp_all add: atoi_int_dec)

lemma int_dec_chars:
  assumes "c \<in> set (int_dec i)"
  shows "is_graph c \<and> c \<noteq> NUL \<and> c \<noteq> DQUOTE \<and> c \<noteq> BSLASH"
proof (cases "c = CHR ''-''")
  case True
  then show ?thesis by (simp add: is_graph_def cval_def)
next
  case False
  with assms obtain n where "c \<in> set (nat_dec n)"
    by (auto simp: int_dec_def split: if_splits)
  then show ?thesis by (simp add: nat_dec_chars)
qed

section \<open>Table cells updated in place\<close>

definition map_nth :: "nat \<Rightarrow> ('a \<Rightarrow> 'a) \<Rightarrow> 'a list \<Rightarrow> 'a list" where
  "map_nth i f xs = xs[i := f (xs ! i)]"

lemma length_map_nth [simp]: "length (map_nth i f xs) = length xs"
  by (simp add: map_nth_def)

lemma nth_map_nth:
  "j < length xs \<Longrightarrow> map_nth i f xs ! j = (if i = j then f (xs ! j) else xs ! j)"
  by (simp add: map_nth_def nth_list_update)

lemma nth_map_nth_eq [simp]: "i < length xs \<Longrightarrow> map_nth i f xs ! i = f (xs ! i)"
  by (simp add: map_nth_def)

lemma nth_map_nth_neq [simp]: "i \<noteq> j \<Longrightarrow> map_nth i f xs ! j = xs ! j"
  by (simp add: map_nth_def)

lemma map_nth_out [simp]: "length xs \<le> i \<Longrightarrow> map_nth i f xs = xs"
  by (simp add: map_nth_def list_update_beyond)

lemma map_map_nth:
  "(\<And>x. g (f x) = g x) \<Longrightarrow> map g (map_nth i f xs) = map g xs"
  by (rule nth_equalityI) (auto simp: nth_map_nth)

section \<open>Loops that may not return\<close>

text \<open>
  \<open>foldo f s xs\<close> runs the loop body \<open>f\<close> over \<open>xs\<close>, threading the state; \<open>None\<close> from
  a body (a call that does not return within the fuel) makes the loop \<open>None\<close>.
\<close>

primrec foldo :: "('s \<Rightarrow> 'a \<Rightarrow> 's option) \<Rightarrow> 's \<Rightarrow> 'a list \<Rightarrow> 's option" where
  "foldo f s [] = Some s"
| "foldo f s (x # xs) = Option.bind (f s x) (\<lambda>s'. foldo f s' xs)"

lemma foldo_append:
  "foldo f s (xs @ ys) = Option.bind (foldo f s xs) (\<lambda>s'. foldo f s' ys)"
  by (induction xs arbitrary: s) (auto split: Option.bind_splits)

lemma foldo_inv:
  assumes "\<And>s x. I s \<Longrightarrow> x \<in> set xs \<Longrightarrow> \<exists>s'. f s x = Some s' \<and> I s'"
    and "I s"
  shows "\<exists>s'. foldo f s xs = Some s' \<and> I s'"
  using assms
proof (induction xs arbitrary: s)
  case Nil
  then show ?case by simp
next
  case (Cons x xs)
  then obtain s1 where "f s x = Some s1" "I s1" by fastforce
  moreover have "\<exists>s'. foldo f s1 xs = Some s' \<and> I s'"
    using Cons.prems \<open>I s1\<close> by (intro Cons.IH) auto
  ultimately show ?case by auto
qed

lemma foldo_partial_inv:
  assumes "\<And>s x s'. I s \<Longrightarrow> x \<in> set xs \<Longrightarrow> f s x = Some s' \<Longrightarrow> I s'"
    and "I s" and "foldo f s xs = Some t"
  shows "I t"
  using assms
proof (induction xs arbitrary: s)
  case Nil
  then show ?case by simp
next
  case (Cons x xs)
  from Cons.prems(3) obtain s1 where s1: "f s x = Some s1" "foldo f s1 xs = Some t"
    by (auto split: Option.bind_splits)
  have "I s1" using Cons.prems(1) [OF Cons.prems(2) _ s1(1)] by simp
  then show ?case
  proof (rule Cons.IH [rotated 1])
    show "foldo f s1 xs = Some t" by (rule s1(2))
    fix s x s'
    assume "I s" "x \<in> set xs" "f s x = Some s'"
    then show "I s'" using Cons.prems(1) [of s x s'] by simp
  qed
qed

lemma foldo_Some: "foldo (\<lambda>s x. Some (f s x)) s xs = Some (foldl f s xs)"
  by (induction xs arbitrary: s) auto

section \<open>First match in a table\<close>

lemma foldo_mono:
  assumes "\<And>s x s'. f s x = Some s' \<Longrightarrow> g s x = Some s'"
  shows "foldo f s xs = Some t \<Longrightarrow> foldo g s xs = Some t"
  by (induction xs arbitrary: s) (auto split: Option.bind_splits dest: assms)

primrec find_index :: "('a \<Rightarrow> bool) \<Rightarrow> 'a list \<Rightarrow> nat option" where
  "find_index P [] = None"
| "find_index P (x # xs) = (if P x then Some 0 else map_option Suc (find_index P xs))"

lemma find_index_SomeD:
  "find_index P xs = Some i \<Longrightarrow> i < length xs \<and> P (xs ! i) \<and> (\<forall>j<i. \<not> P (xs ! j))"
  by (induction xs arbitrary: i) (auto split: if_splits simp: nth_Cons' less_Suc_eq_0_disj)

lemma find_index_None_iff: "find_index P xs = None \<longleftrightarrow> (\<forall>x\<in>set xs. \<not> P x)"
  by (induction xs) auto

lemma find_index_Some_iff:
  "find_index P xs = Some i \<longleftrightarrow> i < length xs \<and> P (xs ! i) \<and> (\<forall>j<i. \<not> P (xs ! j))"
proof
  assume "find_index P xs = Some i"
  then show "i < length xs \<and> P (xs ! i) \<and> (\<forall>j<i. \<not> P (xs ! j))" by (rule find_index_SomeD)
next
  assume i: "i < length xs \<and> P (xs ! i) \<and> (\<forall>j<i. \<not> P (xs ! j))"
  then have "\<exists>x\<in>set xs. P x" by (meson nth_mem)
  then obtain k where k: "find_index P xs = Some k"
    using find_index_None_iff [of P xs] by fastforce
  from find_index_SomeD [OF k] i have "k = i"
    by (metis linorder_neqE_nat)
  with k show "find_index P xs = Some i" by simp
qed

section \<open>Strings as bytes, and printing into a buffer\<close>

definition bytes_of :: "string \<Rightarrow> 8 word list" where "bytes_of s = map of_char s"
definition text_of :: "8 word list \<Rightarrow> string" where "text_of bs = map (\<lambda>b. char_of (unat b)) bs"

lemma text_of_bytes [simp]: "text_of (bytes_of s) = s"
proof -
  have "char_of (unat (of_char c :: 8 word)) = c" for c
  proof -
    have "(of_char c :: nat) < 256" by (rule nat_of_char_less_256)
    moreover have "(of_char c :: 8 word) = of_nat (of_char c)" by (simp add: of_nat_of_char)
    ultimately have "unat (of_char c :: 8 word) = of_char c" by (simp add: unat_of_nat)
    then show ?thesis by simp
  qed
  then show ?thesis by (simp add: text_of_def bytes_of_def comp_def)
qed

definition snprintf :: "nat \<Rightarrow> string \<Rightarrow> string" where
  \<comment> \<open>the string left in a buffer of \<open>sz > 0\<close> bytes\<close>
  "snprintf sz text = take (sz - 1) text"

end
