(* ===== verification/Hk_Buf.thy ===== *)
theory Hk_Buf
  imports Hk_Prelude
begin

text \<open>
  \<^verbatim>\<open>core/buf.c\<close>: the growable byte buffer behind every message, line and log of the
  program. The block \<open>base\<close> points to is a list of bytes (\<open>None\<close> for NULL); sizes are
  natural numbers, with buffers below \<open>2^31 - 257\<close> bytes so that the C \<open>int\<close>
  arithmetic is exact. The allocator is the parameter \<open>ok\<close>: \<open>ok n\<close> tells whether
  \<open>realloc\<close> grants a block of \<open>n\<close> bytes.

  An operation returns \<open>None\<close> where the C code reads or writes outside a block or
  through NULL, and otherwise \<open>Some\<close> of its return code and the new buffer. The lemmas
  show that on well-formed buffers nothing of the kind happens, that the stored bytes are
  the concatenation of what was appended and stay NUL-terminated, and that the capacity
  invariant survives every operation.
\<close>

section \<open>State and operations\<close>

record buf =
  b_base :: "char list option"
  b_size :: nat
  b_len :: nat

definition CHUNK_SIZE :: nat where "CHUNK_SIZE = 256"

definition CEIL_DIV :: "nat \<Rightarrow> nat \<Rightarrow> nat" where
  "CEIL_DIV x y = (x + y - 1) div y"

definition buf_init :: buf where
  "buf_init = \<lparr>b_base = None, b_size = 0, b_len = 0\<rparr>"

definition buf_cleanup :: "buf \<Rightarrow> buf" where
  \<comment> \<open>the block is wiped and freed, then the descriptor is that of an empty buffer\<close>
  "buf_cleanup b = buf_init"

definition bytes :: "buf \<Rightarrow> char list" where
  "bytes b = (case b_base b of None \<Rightarrow> [] | Some m \<Rightarrow> m)"

definition buf_grow :: "(nat \<Rightarrow> bool) \<Rightarrow> buf \<Rightarrow> nat \<Rightarrow> int \<times> buf" where
  "buf_grow ok b needed =
     (let needed_size = needed + 1
      in if b_size b < b_len b + needed_size then
           let size = CEIL_DIV (b_len b + needed_size) CHUNK_SIZE * CHUNK_SIZE
           in if ok size then
                (0, b\<lparr>b_base := Some (bytes b @ replicate (size - b_size b) NUL),
                     b_size := size\<rparr>)
              else (-1, b\<lparr>b_base := None, b_size := size\<rparr>)
         else (0, b))"

definition poke :: "nat \<Rightarrow> char list \<Rightarrow> char list \<Rightarrow> char list option" where
  \<comment> \<open>\<open>memcpy (m + ofs, s, len)\<close>; \<open>None\<close> when the copy leaves the block\<close>
  "poke ofs s m =
     (if ofs + length s \<le> length m then Some (take ofs m @ s @ drop (ofs + length s) m)
      else None)"

definition buf_store :: "buf \<Rightarrow> nat \<Rightarrow> char list \<Rightarrow> buf option" where
  \<comment> \<open>copy \<open>s\<close> at \<open>ofs\<close>, set \<open>len\<close> behind it and put the extra NUL there\<close>
  "buf_store b ofs s =
     (case b_base b of
        None \<Rightarrow> None
      | Some m \<Rightarrow>
          (case poke ofs (s @ [NUL]) m of
             None \<Rightarrow> None
           | Some m' \<Rightarrow> Some (b\<lparr>b_base := Some m', b_len := ofs + length s\<rparr>)))"

definition buf_append :: "(nat \<Rightarrow> bool) \<Rightarrow> buf \<Rightarrow> char list \<Rightarrow> (int \<times> buf) option" where
  "buf_append ok b s =
     (case buf_grow ok b (length s) of (ret, b1) \<Rightarrow>
        if ret = 0 then map_option (\<lambda>b2. (ret, b2)) (buf_store b1 (b_len b1) s)
        else Some (ret, b1))"

definition buf_append_byte :: "(nat \<Rightarrow> bool) \<Rightarrow> buf \<Rightarrow> char \<Rightarrow> (int \<times> buf) option" where
  "buf_append_byte ok b c = buf_append ok b [c]"

definition buf_append_str :: "(nat \<Rightarrow> bool) \<Rightarrow> buf \<Rightarrow> char list \<Rightarrow> (int \<times> buf) option" where
  "buf_append_str ok b str = buf_append ok b (cstr str)"

definition buf_append_int :: "(nat \<Rightarrow> bool) \<Rightarrow> buf \<Rightarrow> int \<Rightarrow> (int \<times> buf) option" where
  "buf_append_int ok b i = buf_append ok b (int_dec i)"

definition FMT_SIZE :: nat where "FMT_SIZE = 1024"

definition buf_append_fmt :: "(nat \<Rightarrow> bool) \<Rightarrow> buf \<Rightarrow> string \<Rightarrow> (int \<times> buf) option" where
  \<comment> \<open>\<open>text\<close> is the complete formatted output. \<open>vsnprintf\<close> keeps at most 1023 bytes of
     it in \<open>str[1024]\<close> but returns its full length, which is then copied from \<open>str\<close>:
     past 1024 bytes the copy leaves the array.\<close>
  "buf_append_fmt ok b text =
     (let str = take (FMT_SIZE - 1) text @ [NUL]; len = length text
      in if len < FMT_SIZE then buf_append ok b text
         else if len = FMT_SIZE then buf_append ok b str
         else None)"

definition buf_append_zero :: "(nat \<Rightarrow> bool) \<Rightarrow> buf \<Rightarrow> nat \<Rightarrow> int \<times> buf" where
  "buf_append_zero ok b len =
     (case buf_grow ok b len of (ret, b1) \<Rightarrow> (ret, b1\<lparr>b_len := b_len b1 + len\<rparr>))"

definition buf_set :: "(nat \<Rightarrow> bool) \<Rightarrow> buf \<Rightarrow> char list \<Rightarrow> (int \<times> buf) option" where
  "buf_set ok b s =
     (case buf_grow ok b (length s) of (ret, b1) \<Rightarrow>
        if ret = 0 then map_option (\<lambda>b2. (ret, b2)) (buf_store b1 0 s)
        else Some (ret, b1))"

definition buf_set_str :: "(nat \<Rightarrow> bool) \<Rightarrow> buf \<Rightarrow> char list \<Rightarrow> (int \<times> buf) option" where
  "buf_set_str ok b str = buf_set ok b (cstr str)"

definition buf_set_int :: "(nat \<Rightarrow> bool) \<Rightarrow> buf \<Rightarrow> int \<Rightarrow> (int \<times> buf) option" where
  "buf_set_int ok b v = buf_set ok b (int_dec v)"

fun shift_loop :: "nat \<Rightarrow> nat \<Rightarrow> nat \<Rightarrow> char list \<Rightarrow> char list" where
  \<comment> \<open>\<open>for (i = ofs; i < len; i++) base[i-ofs] = base[i]\<close>, \<open>n\<close> iterations left\<close>
  "shift_loop ofs i 0 m = m"
| "shift_loop ofs i (Suc n) m = shift_loop ofs (Suc i) n (m[i - ofs := m ! i])"

definition buf_shift :: "buf \<Rightarrow> int \<Rightarrow> buf" where
  "buf_shift b ofs =
     (if 0 < ofs then
        if ofs < int (b_len b) then
          b\<lparr>b_base := map_option (shift_loop (nat ofs) (nat ofs) (b_len b - nat ofs)) (b_base b),
            b_len := b_len b - nat ofs\<rparr>
        else b\<lparr>b_len := 0\<rparr>
      else b)"

section \<open>The capacity invariant\<close>

definition buf_wf :: "buf \<Rightarrow> bool" where
  "buf_wf b \<longleftrightarrow>
     (case b_base b of
        None \<Rightarrow> b_size b = 0 \<and> b_len b = 0
      | Some m \<Rightarrow> length m = b_size b \<and> b_len b < b_size b)"

definition content :: "buf \<Rightarrow> char list" where
  "content b = take (b_len b) (bytes b)"

definition nul_terminated :: "buf \<Rightarrow> bool" where
  "nul_terminated b \<longleftrightarrow> b_base b \<noteq> None \<and> bytes b ! b_len b = NUL"

lemma CEIL_DIV_bounds:
  "n \<le> CEIL_DIV n CHUNK_SIZE * CHUNK_SIZE" "CEIL_DIV n CHUNK_SIZE * CHUNK_SIZE < n + CHUNK_SIZE"
proof -
  have "(n + 255) div 256 * 256 + (n + 255) mod 256 = n + (255::nat)" by (rule div_mult_mod_eq)
  moreover have "(n + 255) mod 256 < (256::nat)" by simp
  ultimately have "n \<le> (n + 255) div 256 * 256 \<and> (n + 255) div 256 * 256 < n + 256" by linarith
  moreover have "CEIL_DIV n CHUNK_SIZE * CHUNK_SIZE = (n + 255) div 256 * 256"
    by (simp add: CEIL_DIV_def CHUNK_SIZE_def)
  ultimately show "n \<le> CEIL_DIV n CHUNK_SIZE * CHUNK_SIZE"
    "CEIL_DIV n CHUNK_SIZE * CHUNK_SIZE < n + CHUNK_SIZE"
    by (simp_all add: CHUNK_SIZE_def)
qed

lemma buf_wf_init [simp]: "buf_wf buf_init"
  by (simp add: buf_wf_def buf_init_def)

lemma content_init [simp]: "content buf_init = []"
  by (simp add: content_def bytes_def buf_init_def)

lemma length_bytes: "buf_wf b \<Longrightarrow> length (bytes b) = b_size b"
  by (auto simp: buf_wf_def bytes_def split: option.splits)

lemma length_content: "buf_wf b \<Longrightarrow> length (content b) = b_len b"
  by (auto simp: content_def length_bytes buf_wf_def split: option.splits)

lemma buf_grow_ok:
  assumes "buf_wf b" and "fst (buf_grow ok b n) = 0"
  defines "b1 \<equiv> snd (buf_grow ok b n)"
  shows "buf_wf b1" "b_len b1 = b_len b" "content b1 = content b"
    "b_base b1 \<noteq> None" "b_len b + n < b_size b1" "b_size b \<le> b_size b1"
proof -
  have big: "b_len b + (n + 1) \<le> CEIL_DIV (b_len b + (n + 1)) CHUNK_SIZE * CHUNK_SIZE"
    by (rule CEIL_DIV_bounds)
  have lb: "length (bytes b) = b_size b" using assms(1) by (rule length_bytes)
  have le: "b_len b \<le> b_size b"
    using assms(1) by (auto simp: buf_wf_def split: option.splits)
  have base: "b_base b \<noteq> None" if "\<not> b_size b < b_len b + (n + 1)"
    using assms(1) that by (auto simp: buf_wf_def split: option.splits)
  show "buf_wf b1"
    using assms(1,2) big lb le base
    by (auto simp: b1_def buf_grow_def buf_wf_def Let_def split: if_splits option.splits)
  show "b_len b1 = b_len b"
    using assms(2) by (auto simp: b1_def buf_grow_def Let_def split: if_splits)
  show "content b1 = content b"
    using assms(2) lb le
    by (auto simp: b1_def buf_grow_def content_def bytes_def Let_def split: if_splits option.splits)
  show "b_base b1 \<noteq> None"
    using assms(2) base by (auto simp: b1_def buf_grow_def Let_def split: if_splits)
  show "b_len b + n < b_size b1" "b_size b \<le> b_size b1"
    using assms(2) big by (auto simp: b1_def buf_grow_def Let_def split: if_splits)
qed

lemma buf_store_ok:
  assumes "buf_wf b" "b_base b \<noteq> None" "ofs + length s < b_size b"
  shows "\<exists>b2. buf_store b ofs s = Some b2 \<and> buf_wf b2 \<and> nul_terminated b2 \<and>
           content b2 = take ofs (bytes b) @ s \<and> b_len b2 = ofs + length s \<and> b_size b2 = b_size b"
proof -
  obtain m where m: "b_base b = Some m" using assms(2) by auto
  have lm: "length m = b_size b" using assms(1) m by (simp add: buf_wf_def)
  let ?m' = "take ofs m @ (s @ [NUL]) @ drop (ofs + length (s @ [NUL])) m"
  have p: "poke ofs (s @ [NUL]) m = Some ?m'"
    using lm assms(3) by (simp add: poke_def)
  have l1: "length ?m' = b_size b" using lm assms(3) by simp
  have l2: "?m' ! (ofs + length s) = NUL" using lm assms(3) by (simp add: nth_append)
  have l3: "take (ofs + length s) ?m' = take ofs m @ s" using lm assms(3) by simp
  show ?thesis
    using p l1 l2 l3 assms(3)
    by (auto simp: buf_store_def m buf_wf_def nul_terminated_def content_def bytes_def)
qed

lemma buf_append_ok:
  assumes "buf_wf b" and "fst (buf_grow ok b (length s)) = 0"
  shows "\<exists>b'. buf_append ok b s = Some (0, b') \<and> buf_wf b' \<and> nul_terminated b' \<and>
           content b' = content b @ s \<and> b_len b' = b_len b + length s"
proof -
  obtain b1 where b1: "buf_grow ok b (length s) = (0, b1)"
    using assms(2) by (cases "buf_grow ok b (length s)") auto
  note g = buf_grow_ok [OF assms, unfolded b1 snd_conv]
  have sz: "b_len b1 + length s < b_size b1" using g(2,5) by simp
  from buf_store_ok [OF g(1,4) sz] obtain b2 where
    b2: "buf_store b1 (b_len b1) s = Some b2" "buf_wf b2" "nul_terminated b2"
      "content b2 = take (b_len b1) (bytes b1) @ s" "b_len b2 = b_len b1 + length s"
    by blast
  have "content b2 = content b @ s" using b2(4) g(3) by (simp add: content_def)
  with b1 b2 g(2) show ?thesis by (simp add: buf_append_def)
qed

lemma buf_set_ok:
  assumes "buf_wf b" and "fst (buf_grow ok b (length s)) = 0"
  shows "\<exists>b'. buf_set ok b s = Some (0, b') \<and> buf_wf b' \<and> nul_terminated b' \<and>
           content b' = s \<and> b_len b' = length s"
proof -
  obtain b1 where b1: "buf_grow ok b (length s) = (0, b1)"
    using assms(2) by (cases "buf_grow ok b (length s)") auto
  note g = buf_grow_ok [OF assms, unfolded b1 snd_conv]
  have sz: "0 + length s < b_size b1" using g(5) by simp
  from buf_store_ok [OF g(1,4) sz] obtain b2 where
    b2: "buf_store b1 0 s = Some b2" "buf_wf b2" "nul_terminated b2"
      "content b2 = take 0 (bytes b1) @ s" "b_len b2 = 0 + length s"
    by blast
  with b1 show ?thesis by (simp add: buf_set_def)
qed

lemma buf_grow_total: "(\<And>n. ok n) \<Longrightarrow> fst (buf_grow ok b n) = 0"
  by (simp add: buf_grow_def Let_def)

subsection \<open>Shifting\<close>

lemma length_shift_loop [simp]: "length (shift_loop ofs i n m) = length m"
  by (induction n arbitrary: i m) auto

lemma shift_loop_spec:
  assumes "ofs \<le> i" "i + n \<le> length m" "k < length m"
  shows "shift_loop ofs i n m ! k =
           (if i - ofs \<le> k \<and> k < i - ofs + n then m ! (k + ofs) else m ! k)"
  using assms
proof (induction n arbitrary: i m)
  case 0
  then show ?case by auto
next
  case (Suc n)
  show ?case
  proof (cases "ofs = 0")
    case True
    then show ?thesis using Suc by (auto simp: nth_list_update)
  next
    case False
    then show ?thesis using Suc by (auto simp: nth_list_update)
  qed
qed

lemma buf_shift_content:
  assumes "buf_wf b"
  shows "content (buf_shift b ofs) = drop (nat ofs) (content b)" and "buf_wf (buf_shift b ofs)"
proof -
  have len: "b_len b \<le> length (bytes b)"
    using assms by (auto simp: buf_wf_def bytes_def split: option.splits)
  show "buf_wf (buf_shift b ofs)"
    using assms by (auto simp: buf_shift_def buf_wf_def split: option.splits)
  show "content (buf_shift b ofs) = drop (nat ofs) (content b)"
  proof (cases "0 < ofs \<and> ofs < int (b_len b)")
    case False
    then show ?thesis by (auto simp: buf_shift_def content_def bytes_def)
  next
    case True
    then obtain o' where o: "0 < o'" "o' < b_len b" "ofs = int o'"
      by (metis nat_less_iff of_nat_0_less_iff of_nat_less_iff zero_less_imp_eq_int)
    then obtain m where m: "b_base b = Some m"
      using assms by (auto simp: buf_wf_def split: option.splits)
    have lm: "b_len b \<le> length m" using len m by (simp add: bytes_def)
    have "take (b_len b - o') (shift_loop o' o' (b_len b - o') m) = drop o' (take (b_len b) m)"
    proof (rule nth_equalityI)
      fix k assume "k < length (take (b_len b - o') (shift_loop o' o' (b_len b - o') m))"
      then have k: "k < b_len b - o'" using lm by simp
      have "shift_loop o' o' (b_len b - o') m ! k = m ! (k + o')"
        using k lm o by (subst shift_loop_spec) auto
      also have "\<dots> = drop o' (take (b_len b) m) ! k"
        using k lm by (simp add: add.commute less_diff_conv)
      finally show "take (b_len b - o') (shift_loop o' o' (b_len b - o') m) ! k
          = drop o' (take (b_len b) m) ! k"
        using k by simp
    qed (use lm in simp)
    with o m show ?thesis
      by (simp add: buf_shift_def content_def bytes_def)
  qed
qed

section \<open>The interface the clients use\<close>

text \<open>
  Clients of a buffer only append text to it and hand its bytes on. The locale names that
  contract; it is interpreted on the buffer itself, with an allocator that never fails, and
  justifies that the other components represent their output buffers by the text in them.
\<close>

locale text_sink =
  fixes put :: "'b \<Rightarrow> char list \<Rightarrow> 'b"
    and text_of :: "'b \<Rightarrow> char list"
    and good :: "'b \<Rightarrow> bool"
  assumes good_put: "good b \<Longrightarrow> good (put b s)"
    and text_put: "good b \<Longrightarrow> text_of (put b s) = text_of b @ s"
begin

lemma good_puts: "good b \<Longrightarrow> good (foldl put b ss)"
  by (induction ss arbitrary: b) (auto intro: good_put)

lemma text_puts: "good b \<Longrightarrow> text_of (foldl put b ss) = text_of b @ concat ss"
  by (induction ss arbitrary: b) (auto simp: text_put good_put)

lemma puts_regroup:
  "good b \<Longrightarrow> concat ss = concat ts \<Longrightarrow> text_of (foldl put b ss) = text_of (foldl put b ts)"
  by (simp add: text_puts)

end

definition buf_put :: "buf \<Rightarrow> char list \<Rightarrow> buf" where
  "buf_put b s = (case buf_append (\<lambda>_. True) b s of None \<Rightarrow> b | Some (_, b') \<Rightarrow> b')"

lemma buf_put_ok:
  assumes "buf_wf b"
  shows "buf_wf (buf_put b s)" "content (buf_put b s) = content b @ s"
  using buf_append_ok [OF assms buf_grow_total, of "\<lambda>_. True" s]
  by (auto simp: buf_put_def)

interpretation buf_sink: text_sink buf_put content buf_wf
  by unfold_locales (simp_all add: buf_put_ok)

section \<open>Properties\<close>

text \<open>
  C24: Appending to a well-formed buffer, when the allocator grants the block, returns 0,
  never leaves the block, and yields a well-formed NUL-terminated buffer that holds the old
  bytes followed by the new ones; shifting by \<open>ofs\<close> then removes exactly the first
  \<open>ofs\<close> of them, and setting replaces them all.
\<close>

theorem buf_ops_refine_lists:
  assumes "buf_wf b" and "\<And>n. ok n"
  shows "\<exists>b1 b2. buf_append ok b s = Some (0, b1) \<and> buf_wf b1 \<and> nul_terminated b1 \<and>
      content b1 = content b @ s \<and>
      buf_wf (buf_shift b1 ofs) \<and> content (buf_shift b1 ofs) = drop (nat ofs) (content b @ s) \<and>
      buf_set ok b1 t = Some (0, b2) \<and> buf_wf b2 \<and> nul_terminated b2 \<and> content b2 = t"
proof -
  obtain b1 where b1: "buf_append ok b s = Some (0, b1)" "buf_wf b1" "nul_terminated b1"
      "content b1 = content b @ s"
    using buf_append_ok [OF assms(1) buf_grow_total] assms(2) by blast
  obtain b2 where "buf_set ok b1 t = Some (0, b2)" "buf_wf b2" "nul_terminated b2" "content b2 = t"
    using buf_set_ok [OF b1(2) buf_grow_total] assms(2) by blast
  with b1 buf_shift_content [OF b1(2), of ofs] show ?thesis by auto
qed

theorem buf_ops_refine_lists_witness:
  "\<exists>b1 b2. buf_append (\<lambda>_. True) buf_init ''set x'' = Some (0, b1) \<and> buf_wf b1 \<and>
      nul_terminated b1 \<and> content b1 = content buf_init @ ''set x'' \<and>
      buf_wf (buf_shift b1 4) \<and>
      content (buf_shift b1 4) = drop (nat 4) (content buf_init @ ''set x'') \<and>
      buf_set (\<lambda>_. True) b1 ''y'' = Some (0, b2) \<and> buf_wf b2 \<and> nul_terminated b2 \<and>
      content b2 = ''y''"
  by (rule buf_ops_refine_lists) simp_all

text \<open>
  When the allocator refuses the block, the append returns -1 but leaves the recorded
  size at the size it asked for with a NULL block, so the next append that fits in that
  size copies through NULL.
\<close>

theorem buf_append_after_failure:
  assumes "buf_wf b" and "b_size b < b_len b + length s + 1" and "\<And>n. \<not> ok n"
    and "length t \<le> length s"
  shows "\<exists>b1. buf_append ok b s = Some (-1, b1) \<and> b_base b1 = None \<and> buf_append ok b1 t = None"
proof -
  let ?size = "CEIL_DIV (b_len b + (length s + 1)) CHUNK_SIZE * CHUNK_SIZE"
  let ?b1 = "b\<lparr>b_base := None, b_size := ?size\<rparr>"
  have a: "buf_append ok b s = Some (-1, ?b1)"
    using assms(2,3) by (simp add: buf_append_def buf_grow_def Let_def)
  have "b_len b + (length s + 1) \<le> ?size" by (rule CEIL_DIV_bounds)
  with assms(4) have "\<not> ?size < b_len b + (length t + 1)" by simp
  then have "buf_append ok ?b1 t = None"
    by (simp add: buf_append_def buf_grow_def buf_store_def)
  with a show ?thesis by simp
qed

theorem buf_append_after_failure_witness:
  "\<exists>b1. buf_append (\<lambda>_. False) buf_init ''ab'' = Some (-1, b1) \<and> b_base b1 = None \<and>
     buf_append (\<lambda>_. False) b1 ''c'' = None"
  by (rule buf_append_after_failure) (simp_all add: buf_init_def buf_wf_def)

text \<open>
  \<open>buf_append_fmt\<close> appends exactly the formatted text when it is shorter than 1024
  bytes, and reads past the end of its 1024-byte array exactly when the text is longer than
  1024 bytes.
\<close>

theorem buf_append_fmt_bound:
  assumes "buf_wf b" and "\<And>n. ok n"
  shows "(buf_append_fmt ok b text = None \<longleftrightarrow> FMT_SIZE < length text) \<and>
    (length text < FMT_SIZE \<longrightarrow>
       (\<exists>b'. buf_append_fmt ok b text = Some (0, b') \<and> content b' = content b @ text))"
proof -
  have ok: "buf_append ok b t \<noteq> None" for t
    using buf_append_ok [OF assms(1) buf_grow_total, of ok t] assms(2) by auto
  have "\<exists>b'. buf_append ok b text = Some (0, b') \<and> content b' = content b @ text"
    using buf_append_ok [OF assms(1) buf_grow_total, of ok "text"] assms(2) by auto
  with ok show ?thesis by (auto simp: buf_append_fmt_def Let_def)
qed

theorem buf_append_fmt_bound_witness:
  "buf_append_fmt (\<lambda>_. True) buf_init (replicate 1025 CHR ''v'') = None \<and>
   (\<exists>b'. buf_append_fmt (\<lambda>_. True) buf_init ''1,a'' = Some (0, b') \<and> content b' = ''1,a'')"
  using buf_append_fmt_bound [of buf_init "\<lambda>_. True" "replicate 1025 CHR ''v''"]
    buf_append_fmt_bound [of buf_init "\<lambda>_. True" "''1,a''"]
  by (simp add: FMT_SIZE_def)

end
