(* ===== verification/Hk_Prop.thy ===== *)
theory Hk_Prop
  imports Hk_Prelude
begin

text \<open>
  \<^verbatim>\<open>core/tab.c\<close> and \<^verbatim>\<open>core/prop.c\<close>: the table of fixed-size cells and the property
  list of an object, a table of name/value pairs. A table is the list of its cells, in
  memory order; the cell a push returns is the last one, zeroed (\<open>zero\<close> is the zeroed
  cell). The property list is shown to be a finite map in which a name keeps the position
  of its first definition.
\<close>

section \<open>Tables\<close>

definition hk_tab_init :: "'a list" where "hk_tab_init = []"

definition hk_tab_cleanup :: "'a list \<Rightarrow> 'a list" where "hk_tab_cleanup tab = []"

definition hk_tab_push :: "'a \<Rightarrow> 'a list \<Rightarrow> 'a list \<times> nat" where
  \<comment> \<open>the grown table and the index of the new, zeroed cell\<close>
  "hk_tab_push zero tab = (tab @ [zero], length tab)"

fun hk_tab_foreach :: "('s \<Rightarrow> 'a \<Rightarrow> int \<times> 's) \<Rightarrow> 's \<Rightarrow> 'a list \<Rightarrow> 's" where
  \<comment> \<open>stops at the first call that returns 0\<close>
  "hk_tab_foreach func s [] = s"
| "hk_tab_foreach func s (p # tab) =
     (case func s p of (ret, s') \<Rightarrow> if ret = 0 then s' else hk_tab_foreach func s' tab)"

section \<open>Properties of an object\<close>

record hk_prop_entry =
  pe_name :: string
  pe_value :: "string option"

type_synonym hk_prop = "hk_prop_entry list"

definition hk_prop_init :: hk_prop where "hk_prop_init = hk_tab_init"

definition hk_prop_find :: "hk_prop \<Rightarrow> string \<Rightarrow> nat option" where
  "hk_prop_find props name = find_index (\<lambda>e. pe_name e = name) props"

definition hk_prop_set :: "hk_prop \<Rightarrow> string \<Rightarrow> string \<Rightarrow> hk_prop" where
  "hk_prop_set props name value =
     (case hk_prop_find props name of
        None \<Rightarrow>
          (case hk_tab_push \<lparr>pe_name = [], pe_value = None\<rparr> props of (tab, i) \<Rightarrow>
             map_nth i (\<lambda>e. e\<lparr>pe_name := name, pe_value := Some value\<rparr>) tab)
      | Some i \<Rightarrow> map_nth i (\<lambda>e. e\<lparr>pe_value := Some value\<rparr>) props)"

definition hk_prop_get :: "hk_prop \<Rightarrow> string \<Rightarrow> string option" where
  "hk_prop_get props name =
     (case hk_prop_find props name of None \<Rightarrow> None | Some i \<Rightarrow> pe_value (props ! i))"

definition hk_prop_get_int :: "hk_prop \<Rightarrow> string \<Rightarrow> int" where
  "hk_prop_get_int props name =
     (case hk_prop_get props name of None \<Rightarrow> 0 | Some s \<Rightarrow> to_int32 (strtol0 s))"

definition hk_prop_foreach :: "('s \<Rightarrow> string \<Rightarrow> string option \<Rightarrow> int \<times> 's) \<Rightarrow> 's \<Rightarrow> hk_prop \<Rightarrow> 's" where
  "hk_prop_foreach func s props = hk_tab_foreach (\<lambda>s e. func s (pe_name e) (pe_value e)) s props"

definition hk_prop_cleanup :: "hk_prop \<Rightarrow> hk_prop" where
  "hk_prop_cleanup props = hk_tab_cleanup props"

section \<open>Lemmas\<close>

definition prop_wf :: "hk_prop \<Rightarrow> bool" where
  "prop_wf props \<longleftrightarrow> distinct (map pe_name props) \<and> (\<forall>e\<in>set props. pe_value e \<noteq> None)"

lemma prop_wf_init [simp]: "prop_wf hk_prop_init"
  by (simp add: prop_wf_def hk_prop_init_def hk_tab_init_def)

lemma hk_prop_set_absent:
  "hk_prop_find props name = None \<Longrightarrow>
   hk_prop_set props name value = props @ [\<lparr>pe_name = name, pe_value = Some value\<rparr>]"
  by (simp add: hk_prop_set_def hk_tab_push_def map_nth_def)

lemma hk_prop_set_present:
  "hk_prop_find props name = Some i \<Longrightarrow>
   hk_prop_set props name value = map_nth i (\<lambda>e. e\<lparr>pe_value := Some value\<rparr>) props"
  by (simp add: hk_prop_set_def)

lemma hk_prop_find_None: "hk_prop_find props name = None \<longleftrightarrow> name \<notin> pe_name ` set props"
  by (auto simp: hk_prop_find_def find_index_None_iff)

lemma names_hk_prop_set:
  "map pe_name (hk_prop_set props name value) =
     map pe_name props @ (if name \<in> pe_name ` set props then [] else [name])"
proof (cases "hk_prop_find props name")
  case None
  then show ?thesis using hk_prop_find_None [of props name] by (simp add: hk_prop_set_absent)
next
  case (Some i)
  then have "name \<in> pe_name ` set props" using hk_prop_find_None [of props name] by auto
  with Some show ?thesis by (simp add: hk_prop_set_present map_map_nth)
qed

lemma prop_wf_set: "prop_wf props \<Longrightarrow> prop_wf (hk_prop_set props name value)"
proof -
  assume wf: "prop_wf props"
  have "distinct (map pe_name (hk_prop_set props name value))"
    using wf by (auto simp: names_hk_prop_set prop_wf_def)
  moreover have "\<forall>e\<in>set (hk_prop_set props name value). pe_value e \<noteq> None"
  proof (cases "hk_prop_find props name")
    case None
    then show ?thesis using wf by (auto simp: hk_prop_set_absent prop_wf_def)
  next
    case (Some i)
    then show ?thesis
      using wf
      by (auto simp: hk_prop_set_present prop_wf_def map_nth_def
          dest: set_update_subset_insert [THEN subsetD])
  qed
  ultimately show ?thesis by (simp add: prop_wf_def)
qed

lemma find_index_append:
  "find_index P (xs @ ys) =
     (case find_index P xs of
        Some i \<Rightarrow> Some i | None \<Rightarrow> map_option (\<lambda>i. length xs + i) (find_index P ys))"
proof (induction xs)
  case Nil
  then show ?case by (cases "find_index P ys") simp_all
next
  case (Cons x xs)
  then show ?case by (cases "find_index P xs"; cases "find_index P ys") simp_all
qed

lemma find_index_map: "find_index (\<lambda>x. P (f x)) xs = find_index P (map f xs)"
  by (induction xs) auto

lemma hk_prop_find_set_present:
  assumes "hk_prop_find props name = Some i"
  shows "hk_prop_find (hk_prop_set props name value) other = hk_prop_find props other"
proof -
  have "map pe_name (hk_prop_set props name value) = map pe_name props"
    using assms by (simp add: hk_prop_set_present map_map_nth)
  then show ?thesis
    unfolding hk_prop_find_def find_index_map [of "\<lambda>n. n = other" pe_name] by simp
qed

lemma hk_prop_get_set:
  "hk_prop_get (hk_prop_set props name value) other =
     (if other = name then Some value else hk_prop_get props other)"
proof (cases "hk_prop_find props name")
  case None
  then show ?thesis
    by (auto simp: hk_prop_set_absent hk_prop_get_def hk_prop_find_def find_index_append
        nth_append dest: find_index_SomeD split: option.splits)
next
  case (Some i)
  then have i: "i < length props" "pe_name (props ! i) = name"
    using find_index_SomeD by (fastforce simp: hk_prop_find_def)+
  show ?thesis
  proof (cases "other = name")
    case True
    with Some i show ?thesis
      by (simp add: hk_prop_get_def hk_prop_find_set_present [OF Some])
        (simp add: hk_prop_set_present)
  next
    case False
    have "pe_value (hk_prop_set props name value ! j) = pe_value (props ! j)"
      if "hk_prop_find props other = Some j" for j
    proof -
      have "j < length props \<and> pe_name (props ! j) = other"
        using that find_index_SomeD by (fastforce simp: hk_prop_find_def)
      with i False have "i \<noteq> j" by auto
      with Some show ?thesis by (simp add: hk_prop_set_present)
    qed
    with False show ?thesis
      by (auto simp: hk_prop_get_def hk_prop_find_set_present [OF Some] split: option.split)
  qed
qed

section \<open>The store interface\<close>

text \<open>
  Object creation and configuration only rely on these laws of a name/value store.
\<close>

locale name_store =
  fixes store :: "'m \<Rightarrow> 'k \<Rightarrow> 'v \<Rightarrow> 'm"
    and look :: "'m \<Rightarrow> 'k \<Rightarrow> 'v option"
    and good :: "'m \<Rightarrow> bool"
  assumes look_store: "look (store m k v) k' = (if k' = k then Some v else look m k')"
    and good_store: "good m \<Longrightarrow> good (store m k v)"
begin

definition store_all :: "'m \<Rightarrow> ('k \<times> 'v) list \<Rightarrow> 'm" where
  "store_all m kvs = foldl (\<lambda>m (k, v). store m k v) m kvs"

lemma good_store_all: "good m \<Longrightarrow> good (store_all m kvs)"
  unfolding store_all_def
  by (induction kvs arbitrary: m) (auto simp: good_store)

lemma look_store_all:
  "look (store_all m kvs) k = (case map_of (rev kvs) k of Some v \<Rightarrow> Some v | None \<Rightarrow> look m k)"
  unfolding store_all_def
proof (induction kvs arbitrary: m)
  case Nil
  then show ?case by simp
next
  case (Cons kv kvs)
  then show ?case
    by (cases kv) (auto simp: look_store map_add_def split: option.splits)
qed

end

interpretation props: name_store hk_prop_set hk_prop_get prop_wf
  by unfold_locales (simp_all add: hk_prop_get_set prop_wf_set)

section \<open>Properties\<close>

text \<open>
  A property list built by any sequence of \<open>hk_prop_set\<close> calls is the finite map in
  which the last value of each name wins, it has one entry per name, and a further set
  adds a name at the end only if it is new, otherwise leaves the order of names alone.
\<close>

theorem hk_prop_is_finite_map:
  fixes kvs :: "(string \<times> string) list"
  defines "props \<equiv> foldl (\<lambda>m (k, v). hk_prop_set m k v) hk_prop_init kvs"
  shows "hk_prop_get props name = map_of (rev kvs) name \<and>
    distinct (map pe_name props) \<and>
    map pe_name (hk_prop_set props k v) =
      map pe_name props @ (if k \<in> pe_name ` set props then [] else [k])"
proof -
  have p: "props = props.store_all hk_prop_init kvs"
    by (simp add: props_def props.store_all_def)
  have "hk_prop_get hk_prop_init name = None"
    by (simp add: hk_prop_get_def hk_prop_find_def hk_prop_init_def hk_tab_init_def)
  then have "hk_prop_get props name = map_of (rev kvs) name"
    unfolding p props.look_store_all by (simp split: option.split)
  moreover have "prop_wf props"
    unfolding p by (rule props.good_store_all) simp
  ultimately show ?thesis by (simp add: prop_wf_def names_hk_prop_set)
qed

end
