(* ===== verification/Hk_StrArgv.thy ===== *)
theory Hk_StrArgv
  imports Hk_Prelude
begin

text \<open>
  \<^verbatim>\<open>core/str_argv.c\<close>: splitting a command line into arguments, in place. The line is a
  piece of memory, pointers into it are positions, and the functions follow the C code
  statement by statement: quotes and backslashes are removed by shifting the rest of the
  string one byte to the left, and an argument ends by a NUL written over its terminator.

  The abstract tokenizer below it works on the text only. The refinement theorem shows
  that the in-place code computes it, and the tokenizer carries the round trip: quoting a
  list of arguments and splitting the line gives the arguments back.
\<close>

section \<open>The code on memory\<close>

definition char_at :: "char list \<Rightarrow> nat \<Rightarrow> char" where
  "char_at m i = (if i < length m then m ! i else NUL)"

lemma char_at_bound: "char_at m i \<noteq> NUL \<Longrightarrow> i < length m"
  by (auto simp: char_at_def split: if_splits)

function str_shift :: "char list \<Rightarrow> nat \<Rightarrow> char list" where
  "str_shift m s =
     (if char_at m s \<noteq> NUL then str_shift (m[s := char_at m (s + 1)]) (s + 1) else m)"
  by pat_completeness auto
termination
  by (relation "measure (\<lambda>(m, s). length m - s)") (auto dest: char_at_bound)

declare str_shift.simps [simp del]

definition text_at :: "char list \<Rightarrow> nat \<Rightarrow> string" where
  \<comment> \<open>the C string that starts at a position\<close>
  "text_at m i = cstr (drop i m)"

lemma text_at_simps:
  "char_at m i \<noteq> NUL \<Longrightarrow> text_at m i = char_at m i # text_at m (Suc i)"
  "char_at m i = NUL \<Longrightarrow> text_at m i = []"
proof -
  assume a: "char_at m i \<noteq> NUL"
  then have "i < length m" by (rule char_at_bound)
  with a show "text_at m i = char_at m i # text_at m (Suc i)"
    by (simp add: text_at_def char_at_def Cons_nth_drop_Suc [symmetric] del: Cons_nth_drop_Suc)
next
  assume a: "char_at m i = NUL"
  show "text_at m i = []"
  proof (cases "i < length m")
    case True
    with a show ?thesis
      by (simp add: text_at_def char_at_def Cons_nth_drop_Suc [symmetric] del: Cons_nth_drop_Suc)
  qed (simp add: text_at_def)
qed

lemma text_at_Cons_iff:
  "text_at m i = c # t \<longleftrightarrow> c \<noteq> NUL \<and> char_at m i = c \<and> text_at m (Suc i) = t"
  using text_at_simps [of m i] by (cases "char_at m i = NUL") auto

lemma text_at_Nil_iff: "text_at m i = [] \<longleftrightarrow> char_at m i = NUL"
  using text_at_simps [of m i] by (cases "char_at m i = NUL") auto

lemma str_shift_props:
  "length (str_shift m s) = length m \<and> take s (str_shift m s) = take s m \<and>
   text_at (str_shift m s) s = tl (text_at m s)"
proof (induction m s rule: str_shift.induct)
  case (1 m s)
  show ?case
  proof (cases "char_at m s = NUL")
    case True
    then show ?thesis by (simp add: str_shift.simps [of m s] text_at_simps)
  next
    case False
    let ?m1 = "m[s := char_at m (s + 1)]"
    let ?m2 = "str_shift ?m1 (s + 1)"
    have s: "s < length m" using False by (rule char_at_bound)
    have IH: "length ?m2 = length ?m1" "take (s + 1) ?m2 = take (s + 1) ?m1"
      "text_at ?m2 (s + 1) = tl (text_at ?m1 (s + 1))"
      using 1 [OF False] by auto
    have m2: "str_shift m s = ?m2" using False by (simp add: str_shift.simps [of m s])
    have t1: "text_at ?m1 (Suc s) = text_at m (Suc s)" by (simp add: text_at_def)
    have c: "char_at ?m2 s = char_at m (Suc s)"
    proof -
      have "?m2 ! s = take (s + 1) ?m2 ! s" by simp
      also have "\<dots> = take (s + 1) ?m1 ! s" by (simp only: IH)
      also have "\<dots> = char_at m (Suc s)" using s by simp
      finally show ?thesis using s IH(1) by (simp add: char_at_def)
    qed
    have "take s ?m2 = take s (take (s + 1) ?m2)" by (simp add: take_take)
    also have "\<dots> = take s ?m1" by (simp only: IH) (simp add: take_take)
    finally have tk: "take s ?m2 = take s m" by simp
    have "text_at ?m2 s = tl (text_at m s)"
    proof (cases "char_at m (Suc s) = NUL")
      case True
      with c False t1 show ?thesis by (simp add: text_at_simps)
    next
      case nz: False
      have "text_at ?m2 s = char_at m (Suc s) # text_at ?m2 (Suc s)"
        using text_at_simps(1) [of ?m2 s] c nz by simp
      also have "\<dots> = char_at m (Suc s) # tl (text_at m (Suc s))"
        using IH(3) t1 by simp
      also have "\<dots> = text_at m (Suc s)"
        using text_at_simps(1) [OF nz] by simp
      finally show ?thesis using text_at_simps(1) [OF False] by simp
    qed
    with m2 IH(1) tk show ?thesis by simp
  qed
qed

lemmas length_str_shift [simp] = str_shift_props [THEN conjunct1]
lemmas take_str_shift = str_shift_props [THEN conjunct2, THEN conjunct1]
lemmas text_at_str_shift [simp] = str_shift_props [THEN conjunct2, THEN conjunct2]

section \<open>Advancing over the line\<close>

text \<open>
  \<open>advance m i m' j q r\<close>: the pointer went from \<open>i\<close> to \<open>j\<close>, the cells it went over now
  hold \<open>q\<close>, what is left to read is \<open>r\<close>, and nothing before \<open>i\<close> changed.
\<close>

definition advance :: "char list \<Rightarrow> nat \<Rightarrow> char list \<Rightarrow> nat \<Rightarrow> string \<Rightarrow> string \<Rightarrow> bool" where
  "advance m i m' j q r \<longleftrightarrow>
     length m' = length m \<and> j = i + length q \<and> take j m' = take i m @ q \<and> text_at m' j = r"

lemma advance_refl: "text_at m i = r \<Longrightarrow> advance m i m i [] r"
  by (simp add: advance_def)

lemma advance_trans:
  "advance m i m1 j q r \<Longrightarrow> advance m1 j m2 k q' r' \<Longrightarrow> advance m i m2 k (q @ q') r'"
  by (auto simp: advance_def)

lemma advance_text: "advance m i m' j q r \<Longrightarrow> text_at m' j = r"
  by (auto simp: advance_def)

lemma advance_char:
  assumes "text_at m i = c # t"
  shows "advance m i m (i + 1) [c] t"
proof -
  have c: "char_at m i = c" "text_at m (Suc i) = t" "c \<noteq> NUL"
    using assms by (auto simp: text_at_Cons_iff)
  then have "i < length m" by (auto dest: char_at_bound)
  with c show ?thesis by (simp add: advance_def char_at_def take_Suc_conv_app_nth)
qed

lemma advance_shift:
  assumes "text_at m i = c # t"
  shows "advance m i (str_shift m i) i [] t"
  using assms by (simp add: advance_def take_str_shift)

lemma advance_poke:
  assumes "text_at m i = c # t"
  shows "advance m i (m[i := NUL]) (i + 1) [NUL] t"
proof -
  have c: "char_at m i = c" "text_at m (Suc i) = t" "c \<noteq> NUL"
    using assms by (auto simp: text_at_Cons_iff)
  then have i: "i < length m" by (auto dest: char_at_bound)
  have "take (Suc i) (m[i := NUL]) = take i m @ [NUL]"
    using i by (simp add: take_Suc_conv_app_nth)
  moreover have "text_at (m[i := NUL]) (Suc i) = t" using c by (simp add: text_at_def)
  ultimately show ?thesis by (simp add: advance_def)
qed

definition skip_escaped :: "char list \<Rightarrow> nat \<Rightarrow> char list \<times> nat" where
  \<comment> \<open>\<open>str_shift (s2); if (*s2 != 0) s2++;\<close>\<close>
  "skip_escaped m s2 =
     (let m' = str_shift m s2 in (m', if char_at m' s2 \<noteq> NUL then s2 + 1 else s2))"

lemma skip_escaped_advance:
  assumes "text_at m i = c # t"
  shows "advance m i (fst (skip_escaped m i)) (snd (skip_escaped m i)) (take 1 t) (drop 1 t)"
proof -
  have s: "advance m i (str_shift m i) i [] t" using assms by (rule advance_shift)
  show ?thesis
  proof (cases t)
    case Nil
    with s have "char_at (str_shift m i) i = NUL"
      by (auto simp: advance_def text_at_Nil_iff simp del: text_at_str_shift)
    with s Nil show ?thesis by (simp add: skip_escaped_def Let_def)
  next
    case (Cons d u)
    with s have t: "text_at (str_shift m i) i = d # u" by (simp add: advance_def)
    then have "char_at (str_shift m i) i \<noteq> NUL"
      by (auto simp: text_at_Cons_iff simp del: text_at_str_shift)
    with advance_trans [OF s advance_char [OF t]] Cons show ?thesis
      by (simp add: skip_escaped_def Let_def)
  qed
qed

lemma advance_less:
  "advance m i m' j q r \<Longrightarrow> length r < n \<Longrightarrow> length (text_at m' j) < n"
  by (auto simp: advance_def)

lemma skip_escaped_less:
  assumes "char_at m s2 \<noteq> NUL"
  shows "length (text_at (fst (skip_escaped m s2)) (snd (skip_escaped m s2)))
    < length (text_at m s2)"
proof -
  obtain t where t: "text_at m s2 = char_at m s2 # t" using text_at_simps(1) [OF assms] by blast
  from advance_less [OF skip_escaped_advance [OF t]] t show ?thesis by simp
qed

function quoted_loop :: "char list \<Rightarrow> nat \<Rightarrow> char list \<times> nat" where
  "quoted_loop m s2 =
     (if char_at m s2 \<noteq> NUL \<and> char_at m s2 \<noteq> DQUOTE then
        if char_at m s2 = BSLASH then
          quoted_loop (fst (skip_escaped m s2)) (snd (skip_escaped m s2))
        else quoted_loop m (s2 + 1)
      else (m, s2))"
  by pat_completeness auto
termination
proof (relation "measure (\<lambda>(m, s2). length (text_at m s2))", simp_all)
  fix m s2 assume "char_at m s2 = BSLASH"
  then show "(case skip_escaped m s2 of (m, s2) \<Rightarrow> length (text_at m s2)) < length (text_at m s2)"
    using skip_escaped_less [of m s2] by (simp add: case_prod_beta)
next
  fix m s2 assume "char_at m s2 \<noteq> NUL \<and> char_at m s2 \<noteq> DQUOTE"
  then show "length (text_at m (Suc s2)) < length (text_at m s2)" by (simp add: text_at_simps)
qed

declare quoted_loop.simps [simp del]

definition close_quote :: "char list \<Rightarrow> nat \<Rightarrow> char list \<times> nat" where
  \<comment> \<open>\<open>if (*s2 == '"') *(s2++) = 0;\<close>\<close>
  "close_quote m s2 =
     (if char_at m s2 = DQUOTE then (m[s2 := NUL], s2 + 1) else (m, s2))"

definition quoted_part :: "char list \<Rightarrow> nat \<Rightarrow> char list \<times> nat" where
  "quoted_part m s2 =
     (case quoted_loop (str_shift m s2) s2 of (m', s2') \<Rightarrow> close_quote m' s2')"

section \<open>The abstract tokenizer\<close>

text \<open>
  \<open>quoted\<close> and \<open>word\<close> return the bytes of the part they read, without quotes and
  escaping backslashes and with a NUL for a closing quote, and the text behind it. An
  argument is what precedes the first NUL.
\<close>

fun quoted :: "string \<Rightarrow> string \<times> string" where
  "quoted [] = ([], [])"
| "quoted [c] = (if c = DQUOTE then [NUL] else if c = BSLASH then [] else [c], [])"
| "quoted (c # d # s) =
     (if c = DQUOTE then ([NUL], d # s)
      else if c = BSLASH then apfst (Cons d) (quoted s)
      else apfst (Cons c) (quoted (d # s)))"

lemma length_quoted: "length (snd (quoted s)) \<le> length s"
  by (induction s rule: quoted.induct) auto

function word :: "string \<Rightarrow> string \<times> string" where
  "word [] = ([], [])"
| "word (c # s) =
     (if \<not> is_graph c then ([], c # s)
      else if c = BSLASH then apfst (append (take 1 s)) (word (drop 1 s))
      else if c = DQUOTE then apfst (append (fst (quoted s))) (word (snd (quoted s)))
      else apfst (Cons c) (word s))"
  by pat_completeness auto
termination
  by (relation "measure length") (auto simp: less_Suc_eq_le length_quoted)

lemma length_word: "length (snd (word s)) \<le> length s"
proof (induction s rule: word.induct)
  case (2 c s)
  then show ?case
    using length_quoted [of s]
    by (auto intro: le_SucI order_trans)
qed simp

lemma length_word_less: "is_graph c \<Longrightarrow> length (snd (word (c # s))) < length (c # s)"
  using length_word [of "drop 1 s"] length_word [of s] length_word [of "snd (quoted s)"]
    length_quoted [of s]
  by auto

lemma length_word_dropWhile: "length (snd (word (dropWhile is_blank s))) \<le> length s"
  using length_word [of "dropWhile is_blank s"] length_dropWhile_le [of is_blank s] by simp

function args :: "string \<Rightarrow> string list" where
  "args s =
     (if s = [] then []
      else cstr (fst (word (dropWhile is_blank s)))
        # args (drop 1 (snd (word (dropWhile is_blank s)))))"
  by pat_completeness auto
termination
proof (relation "measure length", simp)
  fix s :: string assume "s \<noteq> []"
  then have "length (snd (word (dropWhile is_blank s))) - 1 < length s"
    using length_word_dropWhile [of s] by (cases s) auto
  then show "(drop 1 (snd (word (dropWhile is_blank s))), s) \<in> measure length" by simp
qed

declare args.simps [simp del]

section \<open>The outer loops on memory\<close>

lemma quoted_Cons:
  "quoted (c # s) =
     (if c = DQUOTE then ([NUL], s)
      else if c = BSLASH then apfst (append (take 1 s)) (quoted (drop 1 s))
      else apfst (Cons c) (quoted s))"
  by (cases s) auto

definition advances :: "char list \<Rightarrow> nat \<Rightarrow> char list \<times> nat \<Rightarrow> string \<times> string \<Rightarrow> bool" where
  "advances m i mj qr \<longleftrightarrow> advance m i (fst mj) (snd mj) (fst qr) (snd qr)"

lemma advances_step:
  "advance m i (fst mj) (snd mj) q (text_at (fst mj) (snd mj)) \<Longrightarrow>
   advances (fst mj) (snd mj) mk qr \<Longrightarrow> advances m i mk (apfst (append q) qr)"
  unfolding advances_def by (auto dest: advance_trans)

lemma advances_trans:
  "advances m i mj qr \<Longrightarrow> advances (fst mj) (snd mj) mk qr' \<Longrightarrow>
   advances m i mk (apfst (append (fst qr)) qr')"
  unfolding advances_def by (auto dest: advance_trans)

lemma advances_char:
  assumes "text_at m i = c # t" and "advances m (i + 1) mk qr"
  shows "advances m i mk (apfst (Cons c) qr)"
  using advances_step [of m i "(m, i + 1)" "[c]" mk qr] advance_char [OF assms(1)] assms(2)
  by (auto simp: apfst_def map_prod_def split: prod.splits dest: advance_text)

lemma advances_escaped:
  assumes "text_at m i = c # t"
    and "advances (fst (skip_escaped m i)) (snd (skip_escaped m i)) mk qr"
  shows "advances m i mk (apfst (append (take 1 t)) qr)"
proof -
  note a = skip_escaped_advance [OF assms(1)]
  show ?thesis by (rule advances_step [OF a [folded advance_text [OF a]] assms(2)])
qed

lemma text_skip_escaped:
  "text_at m i = c # t \<Longrightarrow>
   text_at (fst (skip_escaped m i)) (snd (skip_escaped m i)) = drop 1 t"
  by (rule advance_text [OF skip_escaped_advance])

lemma quoted_loop_advances:
  "advances m i (case quoted_loop m i of (m', j) \<Rightarrow> close_quote m' j) (quoted (text_at m i))"
proof (induction m i rule: quoted_loop.induct)
  case (1 m i)
  consider (nul) "char_at m i = NUL" | (quote) "char_at m i = DQUOTE"
    | (esc) "char_at m i = BSLASH"
    | (other) "char_at m i \<noteq> NUL" "char_at m i \<noteq> DQUOTE" "char_at m i \<noteq> BSLASH"
    by blast
  then show ?case
  proof cases
    case nul
    then have "text_at m i = []" by (rule text_at_simps)
    with nul show ?thesis
      by (simp add: quoted_loop.simps [of m i] close_quote_def advances_def advance_refl)
  next
    case quote
    then have t: "text_at m i = DQUOTE # text_at m (Suc i)" using text_at_simps [of m i] by simp
    show ?thesis using advance_poke [OF t] quote
      by (simp add: t quoted_Cons quoted_loop.simps [of m i] close_quote_def advances_def)
  next
    case esc
    then have t: "text_at m i = BSLASH # text_at m (Suc i)" using text_at_simps [of m i] by simp
    show ?thesis
      using advances_escaped [OF t 1(1) [unfolded text_skip_escaped [OF t]]] esc
      by (simp add: t quoted_Cons quoted_loop.simps [of m i])
  next
    case other
    then have t: "text_at m i = char_at m i # text_at m (i + 1)" using text_at_simps by simp
    show ?thesis
      using advances_char [OF t 1(2)] other
      by (subst t, subst quoted_Cons) (simp add: quoted_loop.simps [of m i])
  qed
qed

lemma quoted_part_advances:
  assumes "text_at m i = DQUOTE # t"
  shows "advances m i (quoted_part m i) (quoted t)"
proof -
  note s = advance_shift [OF assms]
  have t: "text_at (str_shift m i) i = t" using s by (rule advance_text)
  show ?thesis
    using advances_step [of m i "(str_shift m i, i)" "[]" "quoted_part m i" "quoted t"] s
      quoted_loop_advances [of "str_shift m i" i, unfolded t] t
    by (simp add: quoted_part_def apfst_def map_prod_def split: prod.splits)
qed

lemma advances_text: "advances m i mj qr \<Longrightarrow> text_at (fst mj) (snd mj) = snd qr"
  unfolding advances_def by (rule advance_text)

function word_loop :: "char list \<Rightarrow> nat \<Rightarrow> char list \<times> nat" where
  "word_loop m s2 =
     (if is_graph (char_at m s2) then
        if char_at m s2 = BSLASH then
          word_loop (fst (skip_escaped m s2)) (snd (skip_escaped m s2))
        else if char_at m s2 = DQUOTE then
          word_loop (fst (quoted_part m s2)) (snd (quoted_part m s2))
        else word_loop m (s2 + 1)
      else (m, s2))"
  by pat_completeness auto
termination
proof (relation "measure (\<lambda>(m, s2). length (text_at m s2))", simp_all)
  fix m s2 assume "char_at m s2 = BSLASH"
  then show "(case skip_escaped m s2 of (m, s2) \<Rightarrow> length (text_at m s2)) < length (text_at m s2)"
    using skip_escaped_less [of m s2] by (simp add: case_prod_beta)
next
  fix m s2 assume "char_at m s2 = DQUOTE"
  then have t: "text_at m s2 = DQUOTE # text_at m (Suc s2)" using text_at_simps [of m s2] by simp
  show "(case quoted_part m s2 of (m, s2) \<Rightarrow> length (text_at m s2)) < length (text_at m s2)"
    using advances_text [OF quoted_part_advances [OF t]] length_quoted [of "text_at m (Suc s2)"] t
    by (simp add: case_prod_beta)
next
  fix m s2 assume "is_graph (char_at m s2)"
  then have "char_at m s2 \<noteq> NUL" by (rule is_graph_imp_not_NUL)
  then show "length (text_at m (Suc s2)) < length (text_at m s2)" by (simp add: text_at_simps)
qed

declare word_loop.simps [simp del]

lemma word_loop_advances: "advances m i (word_loop m i) (word (text_at m i))"
proof (induction m i rule: word_loop.induct)
  case (1 m i)
  show ?case
  proof (cases "is_graph (char_at m i)")
    case False
    have "word (text_at m i) = ([], text_at m i)"
      using False text_at_simps [of m i] by (cases "char_at m i = NUL") auto
    with False show ?thesis
      by (simp add: word_loop.simps [of m i] advances_def advance_refl)
  next
    case g: True
    then have t: "text_at m i = char_at m i # text_at m (i + 1)"
      using text_at_simps(1) [of m i] is_graph_imp_not_NUL by simp
    consider (esc) "char_at m i = BSLASH" | (quote) "char_at m i = DQUOTE"
      | (other) "char_at m i \<noteq> DQUOTE" "char_at m i \<noteq> BSLASH"
      by blast
    then show ?thesis
    proof cases
      case esc
      show ?thesis
        using advances_escaped [OF t 1(1) [unfolded text_skip_escaped [OF t]]] esc g
        by (subst t, subst word.simps) (simp add: word_loop.simps [of m i])
    next
      case quote
      then have t': "text_at m i = DQUOTE # text_at m (i + 1)" using t by simp
      note q = quoted_part_advances [OF t']
      have "word_loop m i = word_loop (fst (quoted_part m i)) (snd (quoted_part m i))"
        using quote g by (simp add: word_loop.simps [of m i])
      then have "advances m i (word_loop m i) (apfst (append (fst (quoted (text_at m (i + 1)))))
              (word (snd (quoted (text_at m (i + 1))))))"
        using advances_trans [OF q 1(2) [unfolded advances_text [OF q]]] quote g by simp
      then show ?thesis using g quote by (subst t, subst word.simps) simp
    next
      case other
      show ?thesis
        using advances_char [OF t 1(3)] other g
        by (subst t, subst word.simps) (simp add: word_loop.simps [of m i])
    qed
  qed
qed

function skip_blanks :: "char list \<Rightarrow> nat \<Rightarrow> nat" where
  "skip_blanks m line = (if is_blank (char_at m line) then skip_blanks m (line + 1) else line)"
  by pat_completeness auto
termination
  by (relation "measure (\<lambda>(m, i). length m - i)")
    (auto simp: is_blank_def intro: diff_less_mono2 dest!: char_at_bound)

declare skip_blanks.simps [simp del]

lemma text_at_skip_blanks: "text_at m (skip_blanks m i) = dropWhile is_blank (text_at m i)"
proof (induction m i rule: skip_blanks.induct)
  case (1 m i)
  show ?case
  proof (cases "is_blank (char_at m i)")
    case True
    then have "char_at m i \<noteq> NUL" by (simp add: is_blank_def)
    with True 1 show ?thesis by (simp add: skip_blanks.simps [of m i] text_at_simps)
  next
    case False
    then show ?thesis
      by (cases "char_at m i = NUL") (auto simp: skip_blanks.simps [of m i] text_at_simps)
  qed
qed

lemma skip_blanks_le: "i \<le> skip_blanks m i"
proof (induction m i rule: skip_blanks.induct)
  case (1 m i)
  then show ?case by (cases "is_blank (char_at m i)") (auto simp: skip_blanks.simps [of m i])
qed

definition mark_end :: "char list \<times> nat \<Rightarrow> char list \<times> nat" where
  \<comment> \<open>\<open>if (*s2 != 0) *(s2++) = 0;\<close>\<close>
  "mark_end ms =
     (case ms of (m, s2) \<Rightarrow> if char_at m s2 \<noteq> NUL then (m[s2 := NUL], s2 + 1) else (m, s2))"

definition next_arg :: "char list \<Rightarrow> nat \<Rightarrow> (char list \<times> nat) \<times> nat" where
  \<comment> \<open>one iteration of the outer loop: the memory and pointer after it, and the argument\<close>
  "next_arg m line = (let line' = skip_blanks m line in (mark_end (word_loop m line'), line'))"

lemma mark_end_advances:
  assumes "text_at m j = r"
  shows "advances m j (mark_end (m, j)) (if r = [] then [] else [NUL], drop 1 r)"
proof (cases r)
  case Nil
  then have "char_at m j = NUL" using assms by (simp add: text_at_Nil_iff)
  with Nil assms show ?thesis by (simp add: mark_end_def advances_def advance_refl)
next
  case (Cons c t)
  with assms have t: "text_at m j = c # t" by simp
  then have "char_at m j \<noteq> NUL" by (auto simp: text_at_Cons_iff)
  with advance_poke [OF t] Cons show ?thesis by (simp add: mark_end_def advances_def)
qed

lemma next_arg_advances:
  fixes m line
  defines "line' \<equiv> snd (next_arg m line)" and "w \<equiv> word (dropWhile is_blank (text_at m line))"
  shows "advances m line' (fst (next_arg m line))
      (fst w @ (if snd w = [] then [] else [NUL]), drop 1 (snd w))" and "line \<le> line'"
proof -
  have l: "line' = skip_blanks m line" by (simp add: line'_def next_arg_def Let_def)
  have w: "advances m line' (word_loop m line') w"
    using word_loop_advances [of m line'] by (simp add: l text_at_skip_blanks w_def)
  have "advances (fst (word_loop m line')) (snd (word_loop m line')) (fst (next_arg m line))
      (if snd w = [] then [] else [NUL], drop 1 (snd w))"
    using mark_end_advances [OF advances_text [OF w]] by (simp add: next_arg_def Let_def l)
  from advances_step [OF w [unfolded advances_def, folded advances_text [OF w]] this]
  show "advances m line' (fst (next_arg m line))
      (fst w @ (if snd w = [] then [] else [NUL]), drop 1 (snd w))"
    by simp
  show "line \<le> line'" by (simp add: l skip_blanks_le)
qed

function argv_loop :: "char list \<Rightarrow> nat \<Rightarrow> char list \<times> nat list" where
  "argv_loop m line =
     (if char_at m line \<noteq> NUL then
        case argv_loop (fst (fst (next_arg m line))) (snd (fst (next_arg m line))) of
          (m', argv) \<Rightarrow> (m', snd (next_arg m line) # argv)
      else (m, []))"
  by pat_completeness auto
termination
proof (relation "measure (\<lambda>(m, i). length (text_at m i))", simp)
  fix m line assume "char_at m line \<noteq> NUL"
  then have "text_at m line \<noteq> []" by (simp add: text_at_Nil_iff)
  then have "length (snd (word (dropWhile is_blank (text_at m line)))) - 1
      < length (text_at m line)"
    using length_word_dropWhile [of "text_at m line"] by (cases "text_at m line") auto
  then show "((fst (fst (next_arg m line)), snd (fst (next_arg m line))), m, line)
      \<in> measure (\<lambda>(m, i). length (text_at m i))"
    using advances_text [OF next_arg_advances(1) [of m line]] by (simp add: case_prod_beta)
qed

declare argv_loop.simps [simp del]

definition str_argv :: "string \<Rightarrow> string list" where
  \<comment> \<open>the strings the pointers of \<open>argv\<close> denote once the line has been split\<close>
  "str_argv line =
     (case argv_loop (line @ [NUL]) 0 of (m, argv) \<Rightarrow> map (text_at m) argv)"

section \<open>The code refines the tokenizer\<close>

lemma cstr_append: "cstr (a @ b) = (if NUL \<in> set a then cstr a else a @ cstr b)"
  by (induction a) auto

lemma text_of_advance:
  assumes a: "advance m i m1 j q r" and t: "take j m' = take j m1" "length m' = length m1"
    and n: "NUL \<in> set q \<or> text_at m' j = []"
  shows "text_at m' i = cstr q"
proof -
  have j: "j = i + length q" and tj: "take j m' = take i m @ q" and lm: "length m' = length m"
    using a t by (auto simp: advance_def)
  have m': "m' = take i m @ q @ drop j m'" using tj append_take_drop_id [of j m'] by simp
  show ?thesis
  proof (cases "i \<le> length m")
    case True
    then have "drop i m' = q @ drop j m'" using m' by (metis append_eq_conv_conj length_take min.absorb2)
    then show ?thesis using n by (auto simp: text_at_def cstr_append cstr_no_NUL)
  next
    case False
    then have "length (take i m @ q) \<le> length m" using tj lm by (metis length_take min.cobounded1)
    with False have "q = []" by simp
    with False lm show ?thesis by (simp add: text_at_def)
  qed
qed

lemma advance_le: "advance m i m1 j q r \<Longrightarrow> i \<le> j"
  by (simp add: advance_def)

lemma advance_frame:
  assumes "advance m i m1 j q r"
  shows "take i m1 = take i m"
proof -
  have j: "j = i + length q" and tj: "take j m1 = take i m @ q" and l: "length m1 = length m"
    using assms by (auto simp: advance_def)
  have "take i m1 = take i (take j m1)" using j by (simp add: min_def)
  also have "\<dots> = take i (take i m @ q)" by (simp only: tj)
  also have "\<dots> = take i m"
  proof (cases "i \<le> length m")
    case False
    then have "length (take i m @ q) \<le> length m" using tj l by (metis length_take min.cobounded1)
    with False show ?thesis by simp
  qed simp
  finally show ?thesis .
qed

lemma take_le: "take j xs = take j ys \<Longrightarrow> i \<le> j \<Longrightarrow> take i xs = take i ys"
  by (metis min.absorb1 take_take)

lemma argv_loop_spec:
  "length (fst (argv_loop m line)) = length m \<and> take line (fst (argv_loop m line)) = take line m \<and>
   map (text_at (fst (argv_loop m line))) (snd (argv_loop m line)) = args (text_at m line)"
proof (induction m line rule: argv_loop.induct)
  case (1 m line)
  show ?case
  proof (cases "char_at m line = NUL")
    case True
    then show ?thesis by (simp add: argv_loop.simps [of m line] text_at_simps args.simps [of "[]"])
  next
    case False
    let ?w = "word (dropWhile is_blank (text_at m line))"
    let ?q = "fst ?w @ (if snd ?w = [] then [] else [NUL])"
    let ?l = "snd (next_arg m line)"
    obtain m1 j where mj: "fst (next_arg m line) = (m1, j)" by (cases "fst (next_arg m line)")
    obtain m' argv where r: "argv_loop m1 j = (m', argv)" by (cases "argv_loop m1 j")
    have loop: "argv_loop m line = (m', ?l # argv)"
      using False mj r by (simp add: argv_loop.simps [of m line])
    have adv: "advance m ?l m1 j ?q (drop 1 (snd ?w))" "line \<le> ?l"
      using next_arg_advances [where m = m and line = line] mj by (simp_all add: advances_def)
    have IH: "length m' = length m1" "take j m' = take j m1"
      "map (text_at m') argv = args (text_at m1 j)"
      using 1 [OF False] mj r by simp_all
    have tx: "text_at m1 j = drop 1 (snd ?w)" using adv(1) by (rule advance_text)
    have "text_at m' ?l = cstr ?q"
    proof (rule text_of_advance [OF adv(1) IH(2,1)])
      show "NUL \<in> set ?q \<or> text_at m' j = []"
      proof (cases "snd ?w = []")
        case True
        with tx have "char_at m1 j = NUL" by (simp add: text_at_Nil_iff)
        with r tx True show ?thesis by (simp add: argv_loop.simps [of m1 j])
      qed simp
    qed
    then have "text_at m' ?l = cstr (fst ?w)" by (simp add: cstr_append cstr_no_NUL)
    moreover have "take line m' = take line m"
    proof -
      have "take ?l m' = take ?l m1" using IH(2) advance_le [OF adv(1)] by (rule take_le)
      also have "\<dots> = take ?l m"
        using adv(1) by (rule advance_frame)
      finally show ?thesis using adv(2) by (rule take_le)
    qed
    moreover have "text_at m line \<noteq> []" using False by (simp add: text_at_Nil_iff)
    moreover have "length m1 = length m" using adv(1) by (simp add: advance_def)
    ultimately show ?thesis
      using IH(1,3) tx by (simp add: loop args.simps [of "text_at m line"])
  qed
qed

lemma str_argv_args:
  assumes "NUL \<notin> set line"
  shows "str_argv line = args line"
proof -
  have "text_at (line @ [NUL]) 0 = line"
    using assms by (simp add: text_at_def cstr_append)
  with argv_loop_spec [of "line @ [NUL]" 0] show ?thesis
    by (simp add: str_argv_def case_prod_beta)
qed

section \<open>Writing a line\<close>

definition plain :: "string \<Rightarrow> bool" where
  \<comment> \<open>needs no quotes\<close>
  "plain a \<longleftrightarrow> a \<noteq> [] \<and> (\<forall>c\<in>set a. is_graph c \<and> c \<noteq> DQUOTE \<and> c \<noteq> BSLASH)"

lemma plain_no_NUL: "plain a \<Longrightarrow> NUL \<notin> set a"
  unfolding plain_def using is_graph_not_NUL(1) by metis

definition escape :: "string \<Rightarrow> string" where
  "escape a = concat (map (\<lambda>c. if c = DQUOTE \<or> c = BSLASH then [BSLASH, c] else [c]) a)"

definition render :: "string \<Rightarrow> string" where
  "render a = (if plain a then a else DQUOTE # escape a @ [DQUOTE])"

fun render_line :: "string list \<Rightarrow> string" where
  "render_line [] = []"
| "render_line [a] = render a"
| "render_line (a # as) = render a @ SP # render_line as"

lemma quoted_escape: "quoted (escape a @ DQUOTE # r) = (a @ [NUL], r)"
  by (induction a) (auto simp: escape_def quoted_Cons)

lemma word_stop: "r = [] \<or> \<not> is_graph (hd r) \<Longrightarrow> word r = ([], r)"
  by (cases r) auto

lemma word_plain:
  assumes "\<forall>c\<in>set a. is_graph c \<and> c \<noteq> DQUOTE \<and> c \<noteq> BSLASH" and "r = [] \<or> \<not> is_graph (hd r)"
  shows "word (a @ r) = (a, r)"
  using assms by (induction a) (auto simp: word_stop)

lemma word_prefix:
  assumes "\<forall>c\<in>set a. is_graph c \<and> c \<noteq> DQUOTE \<and> c \<noteq> BSLASH"
  shows "word (a @ r) = apfst (append a) (word r)"
  using assms by (induction a) (simp_all add: apfst_def map_prod_def split: prod.splits)

lemma word_render:
  assumes "r = [] \<or> \<not> is_graph (hd r)"
  shows "word (render a @ r) = (if plain a then a else a @ [NUL], r)"
proof (cases "plain a")
  case True
  with assms show ?thesis by (simp add: render_def plain_def word_plain)
next
  case False
  with assms show ?thesis by (simp add: render_def quoted_escape word_stop)
qed

lemma hd_render: "render a \<noteq> [] \<and> is_graph (hd (render a))"
  by (cases a) (auto simp: render_def plain_def)

lemma not_blank_graph: "is_graph c \<Longrightarrow> \<not> is_blank c"
  by (simp add: blank_or_graph)

lemma dropWhile_render [simp]: "dropWhile is_blank (render a @ r) = render a @ r"
  using hd_render [of a] not_blank_graph by (cases "render a") auto

lemma args_render:
  assumes "r = [] \<or> \<not> is_graph (hd r)" "NUL \<notin> set a"
  shows "args (render a @ r) = a # args (drop 1 r)"
  using assms hd_render [of a]
  by (simp add: args.simps [of "render a @ r"] word_render cstr_append_NUL cstr_no_NUL)

lemma args_render_line:
  assumes "\<forall>a\<in>set as. NUL \<notin> set a"
  shows "args (render_line as) = as"
  using assms
proof (induction as rule: render_line.induct)
  case 1
  then show ?case by (simp add: args.simps)
next
  case (2 a)
  then show ?case using args_render [of "[]" a] by (simp add: args.simps [of "[]"])
next
  case (3 a b as)
  then show ?case using args_render [of "SP # render_line (b # as)" a] by simp
qed

lemma NUL_render_line: "\<forall>a\<in>set as. NUL \<notin> set a \<Longrightarrow> NUL \<notin> set (render_line as)"
  by (induction as rule: render_line.induct) (auto simp: render_def escape_def)

section \<open>Properties\<close>

text \<open>
  C25: On every line, the in-place code terminates and leaves in \<open>argv\<close> pointers to exactly
  the arguments the abstract tokenizer reads from the text: no later shift or NUL written
  by the code disturbs an argument found before.
\<close>

theorem str_argv_refines_tokenizer: "str_argv line = args (cstr line)"
proof -
  have "text_at (line @ [NUL]) 0 = cstr line"
    by (simp add: text_at_def cstr_append) (simp add: cstr_no_NUL)
  with argv_loop_spec [of "line @ [NUL]" 0] show ?thesis
    by (simp add: str_argv_def case_prod_beta)
qed

text \<open>
  C26: A command line written with quotes and backslash escapes where an argument is empty
  or has blanks, quotes or backslashes in it is split into exactly those arguments.
\<close>

theorem str_argv_roundtrip:
  assumes "\<forall>a\<in>set as. NUL \<notin> set a"
  shows "str_argv (render_line as) = as"
  using args_render_line [OF assms] str_argv_args [OF NUL_render_line [OF assms]] by simp

theorem str_argv_roundtrip_witness:
  "str_argv (render_line [''set'', ''a b'', [], [DQUOTE, BSLASH]])
     = [''set'', ''a b'', [], [DQUOTE, BSLASH]]"
  by (rule str_argv_roundtrip) simp

text \<open>
  Behind a bare word, one trailing blank is the terminator of the argument, but two or
  more give an additional empty argument; and whatever follows the closing quote of a word
  is dropped up to the next blank.
\<close>

theorem str_argv_trailing:
  assumes "plain w" "plain x" "NUL \<notin> set q" "DQUOTE \<notin> set q" "BSLASH \<notin> set q"
  shows "str_argv (w @ replicate (Suc n) SP) = (if n = 0 then [w] else [w, []]) \<and>
    str_argv (w @ DQUOTE # q @ DQUOTE # x) = [w @ q]"
proof -
  have nn: "NUL \<notin> set w" "NUL \<notin> set x" using assms(1,2) by (simp_all add: plain_no_NUL)
  have rw: "render w = w" using assms(1) by (simp add: render_def)
  have bl: "args (replicate n SP) = (if n = 0 then [] else [[]])"
    by (auto simp: args.simps [of "replicate n SP"] dropWhile_replicate args.simps [of "[]"])
  have "args (w @ replicate (Suc n) SP) = w # args (replicate n SP)"
    using args_render [of "SP # replicate n SP" w] nn rw by simp
  moreover have q: "quoted (q @ DQUOTE # x) = (q @ [NUL], x)"
    using assms(4,5) by (induction q) (auto simp: quoted_Cons)
  have wx: "word x = (x, [])" using word_plain [of x "[]"] assms(2) by (simp add: plain_def)
  have "word (w @ DQUOTE # q @ DQUOTE # x) = (w @ q @ NUL # x, [])"
    using assms(1) q wx by (simp add: word_prefix plain_def)
  moreover have "dropWhile is_blank (w @ r) = w @ r" for r
    using dropWhile_render [of w r] rw by simp
  ultimately show ?thesis
    using nn bl assms(3,1)
    by (auto simp: str_argv_args args.simps [of "w @ DQUOTE # q @ DQUOTE # x"] args.simps [of "[]"]
        cstr_append cstr_no_NUL)
qed

theorem str_argv_trailing_witness:
  "str_argv (''get'' @ replicate (Suc 1) SP) = (if (1::nat) = 0 then [''get''] else [''get'', []]) \<and>
    str_argv (''a'' @ DQUOTE # ''b c'' @ DQUOTE # ''d'') = [''a'' @ ''b c'']"
  using str_argv_trailing [of "''get''" "''d''" "''b c''" 1]
    str_argv_trailing [of "''a''" "''d''" "''b c''" 1]
  by (simp add: plain_def is_graph_def cval_def)

end
