(* ===== verification/Hk_Command.thy ===== *)
theory Hk_Command
  imports Hk_StrArgv
begin

text \<open>
  \<^verbatim>\<open>core/command.c\<close>: the line reader of the HKCP clients. Bytes arrive in chunks of any
  size; each complete line is split by \<open>str_argv\<close> and given to the handler. The state is
  the text gathered so far (a buffer, represented by its bytes as Hk_Buf justifies) and the
  world \<open>w\<close> the handler acts on. The handler may be NULL, hence an option; it gets
  \<open>None\<close> for the \<open>argv == NULL\<close> of an end of file.
\<close>

section \<open>State and operations\<close>

record command =
  cmd_line :: string

type_synonym 'w handler = "'w \<Rightarrow> string list option \<Rightarrow> 'w"

definition command_new :: command where
  "command_new = \<lparr>cmd_line = []\<rparr>"

definition command_clear :: "command \<Rightarrow> command" where
  "command_clear cmd = cmd\<lparr>cmd_line := []\<rparr>"

definition command_destroy :: "command \<Rightarrow> command option" where
  \<comment> \<open>the object is freed\<close>
  "command_destroy cmd = None"

definition command_dispatch :: "'w handler option \<Rightarrow> string \<Rightarrow> 'w \<Rightarrow> 'w" where
  \<comment> \<open>what is done with a complete line\<close>
  "command_dispatch h line w =
     (case h of
        None \<Rightarrow> w
      | Some f \<Rightarrow> if 0 < length line then f w (Some (str_argv line)) else w)"

function command_loop :: "'w handler option \<Rightarrow> command \<Rightarrow> 'w \<Rightarrow> char list \<Rightarrow> command \<times> 'w" where
  \<comment> \<open>\<open>rest\<close> is what is left of the chunk, \<open>buf[i..len)\<close>\<close>
  "command_loop h cmd w rest =
     (if rest = [] then (cmd, w)
      else
        let cmd1 = cmd\<lparr>cmd_line := cmd_line cmd @ takeWhile (\<lambda>c. c \<noteq> LF) rest\<rparr>;
            rest1 = dropWhile (\<lambda>c. c \<noteq> LF) rest
        in if rest1 \<noteq> [] then
             command_loop h (cmd1\<lparr>cmd_line := []\<rparr>) (command_dispatch h (cmd_line cmd1) w) (tl rest1)
           else command_loop h cmd1 w rest1)"
  by pat_completeness auto
termination
proof (relation "measure (\<lambda>(h, cmd, w, rest). length rest)", goal_cases)
  case 1
  then show ?case by simp
next
  case (2 h cmd w rest)
  then have "0 < length rest" by simp
  moreover have "length (dropWhile (\<lambda>c. c \<noteq> LF) rest) \<le> length rest" by (rule length_dropWhile_le)
  ultimately have "length (dropWhile (\<lambda>c. c \<noteq> LF) rest) - Suc 0 < length rest" by linarith
  with 2 show ?case by (simp del: dropWhile_eq_Nil_conv)
next
  case (3 h cmd w rest)
  then show ?case by (simp del: dropWhile_eq_Nil_conv)
qed

declare command_loop.simps [simp del]

definition command_recv ::
    "'w handler option \<Rightarrow> command \<Rightarrow> 'w \<Rightarrow> char list option \<Rightarrow> int \<times> command \<times> 'w" where
  "command_recv h cmd w buf =
     (case buf of
        None \<Rightarrow> (0, cmd, case h of None \<Rightarrow> w | Some f \<Rightarrow> f w None)
      | Some bs \<Rightarrow> (1, command_loop h cmd w bs))"

section \<open>Byte by byte\<close>

definition command_byte :: "'w handler option \<Rightarrow> command \<times> 'w \<Rightarrow> char \<Rightarrow> command \<times> 'w" where
  "command_byte h st c =
     (case st of (cmd, w) \<Rightarrow>
        if c = LF then (cmd\<lparr>cmd_line := []\<rparr>, command_dispatch h (cmd_line cmd) w)
        else (cmd\<lparr>cmd_line := cmd_line cmd @ [c]\<rparr>, w))"

lemma command_byte_LF:
  "command_byte h (cmd, w) LF = (cmd\<lparr>cmd_line := []\<rparr>, command_dispatch h (cmd_line cmd) w)"
  by (simp add: command_byte_def)

lemma command_bytes_segment:
  "LF \<notin> set s \<Longrightarrow>
   foldl (command_byte h) (cmd, w) s = (cmd\<lparr>cmd_line := cmd_line cmd @ s\<rparr>, w)"
  by (induction s arbitrary: cmd) (auto simp: command_byte_def)

lemma LF_notin_takeWhile [simp]: "LF \<notin> set (takeWhile (\<lambda>c. c \<noteq> LF) s)"
  by (auto dest: set_takeWhileD)

lemma command_loop_Nil: "command_loop h cmd w [] = (cmd, w)"
  by (subst command_loop.simps) simp

lemma command_loop_bytes: "command_loop h cmd w rest = foldl (command_byte h) (cmd, w) rest"
proof (induction h cmd w rest rule: command_loop.induct)
  case (1 h cmd w rest)
  let ?s = "takeWhile (\<lambda>c. c \<noteq> LF) rest" and ?r = "dropWhile (\<lambda>c. c \<noteq> LF) rest"
  let ?c = "cmd\<lparr>cmd_line := cmd_line cmd @ ?s\<rparr>"
  have split: "foldl (command_byte h) (cmd, w) rest = foldl (command_byte h) (?c, w) ?r"
    using command_bytes_segment [of ?s h cmd w]
    by (subst takeWhile_dropWhile_id [symmetric, of _ "\<lambda>c. c \<noteq> LF"])
      (simp add: foldl_append del: takeWhile_dropWhile_id)
  show ?case
  proof (cases ?r)
    case Nil
    then show ?thesis
      using split
      by (simp add: command_loop.simps [of h cmd w rest] command_loop_Nil Let_def
          del: dropWhile_eq_Nil_conv)
  next
    case (Cons c t)
    then have c: "c = LF" using hd_dropWhile [of "\<lambda>c. c \<noteq> LF" rest] by simp
    have ne: "rest \<noteq> []" using Cons by auto
    show ?thesis
      using 1(1) [OF ne refl refl] split Cons c ne
      by (simp add: command_loop.simps [of h cmd w rest] command_byte_LF Let_def)
  qed
qed

section \<open>The interface of a line reader\<close>

text \<open>
  What the senders rely on: the effect of a stream does not depend on how it was cut, and
  each complete line is dispatched once, in order.
\<close>

locale line_reader =
  fixes recv :: "'st \<Rightarrow> char list \<Rightarrow> 'st"
    and dispatch :: "string \<Rightarrow> 'st \<Rightarrow> 'st"
    and pend :: "'st \<Rightarrow> string"
  assumes recv_append: "recv s (a @ b) = recv (recv s a) b"
    and recv_line: "pend s = [] \<Longrightarrow> LF \<notin> set l \<Longrightarrow> recv s (l @ [LF]) = dispatch l s"
    and pend_dispatch: "pend s = [] \<Longrightarrow> pend (dispatch l s) = []"
begin

lemma recv_chunks: "cs \<noteq> [] \<Longrightarrow> foldl recv s cs = recv s (concat cs)"
proof (induction cs arbitrary: s)
  case Nil
  then show ?case by simp
next
  case (Cons c cs)
  then show ?case by (cases "cs = []") (auto simp: recv_append)
qed

lemma recv_lines:
  assumes "pend s = []" "\<forall>l\<in>set ls. LF \<notin> set l" "ls \<noteq> []"
  shows "recv s (concat (map (\<lambda>l. l @ [LF]) ls)) = foldl (\<lambda>s l. dispatch l s) s ls"
  using assms
proof (induction ls arbitrary: s)
  case Nil
  then show ?case by simp
next
  case (Cons l ls)
  show ?case
  proof (cases "ls = []")
    case True
    with Cons.prems show ?thesis by (simp add: recv_line)
  next
    case False
    have "recv s (concat (map (\<lambda>l. l @ [LF]) (l # ls)))
        = recv (recv s (l @ [LF])) (concat (map (\<lambda>l. l @ [LF]) ls))"
      using recv_append [of s "l @ [LF]" "concat (map (\<lambda>l. l @ [LF]) ls)"]
      by (simp only: list.map concat.simps)
    also have "recv s (l @ [LF]) = dispatch l s" using Cons.prems by (simp add: recv_line)
    finally show ?thesis using Cons.prems False by (simp add: Cons.IH pend_dispatch)
  qed
qed

lemma recv_lines_chunked:
  assumes "pend s = []" "\<forall>l\<in>set ls. LF \<notin> set l" "ls \<noteq> []"
    and "concat cs = concat (map (\<lambda>l. l @ [LF]) ls)"
  shows "foldl recv s cs = foldl (\<lambda>s l. dispatch l s) s ls"
proof -
  have "concat cs \<noteq> []" using assms(3,4) by (cases ls) auto
  then have "cs \<noteq> []" by auto
  then show ?thesis using recv_chunks [of cs s] recv_lines [OF assms(1-3)] assms(4) by simp
qed

end

definition command_feed :: "'w handler option \<Rightarrow> command \<times> 'w \<Rightarrow> char list \<Rightarrow> command \<times> 'w" where
  "command_feed h st bs = snd (command_recv h (fst st) (snd st) (Some bs))"

definition command_line :: "'w handler option \<Rightarrow> string \<Rightarrow> command \<times> 'w \<Rightarrow> command \<times> 'w" where
  "command_line h l st = ((fst st)\<lparr>cmd_line := []\<rparr>, command_dispatch h l (snd st))"

lemma command_feed_bytes: "command_feed h st bs = foldl (command_byte h) st bs"
  by (cases st) (simp add: command_feed_def command_recv_def command_loop_bytes)

interpretation cmd_reader: line_reader "command_feed h" "command_line h" "\<lambda>st. cmd_line (fst st)"
  for h :: "'w handler option"
proof unfold_locales
  fix s :: "command \<times> 'w" and l
  assume "cmd_line (fst s) = []" "LF \<notin> set l"
  then show "command_feed h s (l @ [LF]) = command_line h l s"
    by (cases s) (simp add: command_feed_bytes command_bytes_segment command_byte_def command_line_def)
qed (simp_all add: command_feed_bytes command_line_def)

section \<open>Properties\<close>

text \<open>
  The handler calls caused by a stream of bytes do not depend on how the network cuts
  it into chunks: receiving the chunks one by one leaves the reader and the world as
  receiving the whole text at once, every non-empty line dispatched in order, the rest kept.
\<close>

theorem command_recv_chunking:
  assumes "LF \<notin> set rest" "\<forall>l\<in>set ls. LF \<notin> set l"
    and "concat cs = concat (map (\<lambda>l. l @ [LF]) ls) @ rest"
  shows "foldl (command_feed h) (command_new, w) cs =
    (\<lparr>cmd_line = rest\<rparr>, foldl (\<lambda>w l. command_dispatch h l w) w ls)"
proof -
  have ff: "foldl (command_feed h) st cs = foldl (command_byte h) st (concat cs)" for st
    by (induction cs arbitrary: st) (simp_all add: command_feed_bytes)
  have "foldl (command_byte h) (\<lparr>cmd_line = []\<rparr>, w) (concat (map (\<lambda>l. l @ [LF]) ls))
      = (\<lparr>cmd_line = []\<rparr>, foldl (\<lambda>w l. command_dispatch h l w) w ls)"
    using assms(2)
    by (induction ls arbitrary: w) (simp_all add: command_bytes_segment command_byte_def)
  then show ?thesis
    using assms(1,3) by (simp add: ff command_new_def command_bytes_segment)
qed

theorem command_recv_chunking_witness:
  "foldl (command_feed (Some (\<lambda>w a. w @ [a]))) (command_new, [])
      [''set a'', ''=1'' @ [LF] @ ''g'', ''et'' @ [LF, LF] @ ''st''] =
    (\<lparr>cmd_line = ''st''\<rparr>,
     foldl (\<lambda>w l. command_dispatch (Some (\<lambda>w a. w @ [a])) l w) [] [''set a=1'', ''get'', []])"
  by (rule command_recv_chunking) simp_all

text \<open>
  C29: A sequence of commands written as quoted lines, sent over a stream cut in any way,
  reaches the handler as exactly those argument lists, once each and in order.
\<close>

theorem command_stream_delivers:
  assumes "\<forall>as\<in>set cmds. as \<noteq> [] \<and> (\<forall>a\<in>set as. NUL \<notin> set a \<and> LF \<notin> set a)" "cmds \<noteq> []"
    and "concat cs = concat (map (\<lambda>as. render_line as @ [LF]) cmds)"
  shows "foldl (command_feed (Some f)) (command_new, w) cs =
    (command_new, foldl (\<lambda>w as. f w (Some as)) w cmds)"
proof -
  have lf: "LF \<notin> set (render_line as)" if "\<forall>a\<in>set as. LF \<notin> set a" for as
    using that by (induction as rule: render_line.induct) (auto simp: render_def escape_def)
  have ne: "render_line as \<noteq> []" if "as \<noteq> []" for as
    using that hd_render by (induction as rule: render_line.induct) auto
  have rt: "str_argv (render_line as) = as" if "\<forall>a\<in>set as. NUL \<notin> set a" for as
    using that by (simp add: str_argv_args args_render_line NUL_render_line)
  have "foldl (command_feed (Some f)) (command_new, w) cs =
      foldl (\<lambda>st l. command_line (Some f) l st) (command_new, w) (map render_line cmds)"
    by (rule cmd_reader.recv_lines_chunked)
      (use assms lf in \<open>auto simp: command_new_def comp_def\<close>)
  also have "\<dots> = (command_new, foldl (\<lambda>w as. f w (Some as)) w cmds)"
    using assms(1)
    by (induction cmds arbitrary: w)
      (simp_all add: command_line_def command_new_def command_dispatch_def ne rt)
  finally show ?thesis .
qed

theorem command_stream_delivers_witness:
  "foldl (command_feed (Some (\<lambda>w a. w @ [a]))) (command_new, [])
      [''se'', ''t x=1'' @ [LF] @ ''dum'', ''p'' @ [LF]] =
    (command_new, foldl (\<lambda>w as. (\<lambda>w a. w @ [a]) w (Some as)) [] [[''set'', ''x=1''], [''dump'']])"
  by (rule command_stream_delivers) (simp_all add: render_def plain_def is_graph_def cval_def)

end
