(* ===== verification/Hk_Trace.thy ===== *)
theory Hk_Trace
  imports Hk_Prelude
begin

text \<open>
  \<^verbatim>\<open>core/trace.c\<close>: the ring buffer of time-stamped values of an endpoint. Times are in
  milliseconds. The clock (\<open>tstamp_ms\<close>) is the argument \<open>now\<close>. The dump loop walks the
  ring with fuel; the lemmas show that \<open>depth\<close> steps are enough on a well-formed trace.
  Values are short enough for \<open>buf_append_fmt\<close> (see Hk_Buf), so that each formatted piece
  is appended in full.

  A well-formed trace refines the list of its entries: a push appends an entry and forgets
  the oldest ones, keeping \<open>depth - 1\<close>; the dump prints the entries of a time window.
\<close>

section \<open>State and operations\<close>

definition HK_TRACE_DEFAULT_DEPTH :: nat where "HK_TRACE_DEFAULT_DEPTH = 500"
definition HK_TRACE_MAX_DEPTH :: nat where "HK_TRACE_MAX_DEPTH = 10000"

record hk_trace_entry =
  te_t :: nat
  te_value :: "string option"

record hk_trace =
  tr_name :: string
  tr_depth :: nat
  tr_iput :: nat
  tr_iget :: nat
  tr_tab :: "hk_trace_entry list"

definition hk_trace_init :: "string \<Rightarrow> int \<Rightarrow> hk_trace" where
  "hk_trace_init name depth =
     (let d = (if int HK_TRACE_MAX_DEPTH < depth then HK_TRACE_MAX_DEPTH
               else if depth \<le> 0 then HK_TRACE_DEFAULT_DEPTH else nat depth)
      in \<lparr>tr_name = name, tr_depth = d, tr_iput = 0, tr_iget = 0,
          tr_tab = replicate d \<lparr>te_t = 0, te_value = None\<rparr>\<rparr>)"

definition hk_trace_clear_entry :: "hk_trace_entry \<Rightarrow> hk_trace_entry" where
  "hk_trace_clear_entry entry = entry\<lparr>te_t := 0, te_value := None\<rparr>"

definition hk_trace_clear :: "hk_trace \<Rightarrow> hk_trace" where
  "hk_trace_clear tr =
     tr\<lparr>tr_iput := 0,
        tr_tab := map hk_trace_clear_entry (take (tr_depth tr) (tr_tab tr))
                  @ drop (tr_depth tr) (tr_tab tr)\<rparr>"

definition hk_trace_push :: "nat \<Rightarrow> hk_trace \<Rightarrow> string \<Rightarrow> hk_trace" where
  "hk_trace_push now tr value =
     (let i = tr_iput tr;
          tr = tr\<lparr>tr_iput := i + 1\<rparr>;
          tr = tr\<lparr>tr_tab := map_nth i (\<lambda>e. (hk_trace_clear_entry e)\<lparr>te_t := now, te_value := Some value\<rparr>)
                             (tr_tab tr)\<rparr>;
          tr = (if tr_depth tr \<le> tr_iput tr then tr\<lparr>tr_iput := 0\<rparr> else tr)
      in if tr_iput tr = tr_iget tr then
           let tr = tr\<lparr>tr_iget := tr_iget tr + 1\<rparr>
           in if tr_depth tr \<le> tr_iget tr then tr\<lparr>tr_iget := 0\<rparr> else tr
         else tr)"

definition stamped :: "string \<Rightarrow> nat \<Rightarrow> string \<Rightarrow> string" where
  "stamped pre t v = pre @ nat_dec t @ CHR '','' # v"

record dump_state =
  ds_pre :: "string option"
  ds_last :: "string option"
  ds_out :: string

definition dump_point :: "string \<Rightarrow> nat \<Rightarrow> nat \<Rightarrow> string \<Rightarrow> dump_state \<Rightarrow> dump_state" where
  \<comment> \<open>an entry inside the window\<close>
  "dump_point name t1 t v ds =
     (let out = (if ds_last ds = None then ds_out ds @ name else ds_out ds);
          out = (case ds_pre ds of None \<Rightarrow> out | Some pv \<Rightarrow> out @ stamped '' '' t1 pv)
      in \<lparr>ds_pre = None, ds_last = Some v, ds_out = out @ stamped '' '' t v\<rparr>)"

definition dump_entry ::
    "string \<Rightarrow> nat \<Rightarrow> nat \<Rightarrow> nat \<Rightarrow> string \<Rightarrow> dump_state \<Rightarrow> bool \<times> dump_state" where
  \<comment> \<open>the body of the loop for an entry with a value; the flag is \<open>break\<close>\<close>
  "dump_entry name t1 t2 t v ds =
     (if t1 = 0 \<or> t1 \<le> t then
        if t2 = 0 \<or> t \<le> t2 then (False, dump_point name t1 t v ds)
        else (True,
          case ds_last ds of
            None \<Rightarrow> ds
          | Some lv \<Rightarrow> ds\<lparr>ds_out := ds_out ds @ stamped '' '' t2 lv @ [LF], ds_last := None\<rparr>)
      else (False, ds\<lparr>ds_pre := Some v\<rparr>))"

fun dump_loop :: "nat \<Rightarrow> hk_trace \<Rightarrow> nat \<Rightarrow> nat \<Rightarrow> nat \<Rightarrow> dump_state \<Rightarrow> dump_state option" where
  "dump_loop fuel tr t1 t2 i ds =
     (if i = tr_iput tr then Some ds
      else case fuel of
        0 \<Rightarrow> None
      | Suc fuel' \<Rightarrow>
          let entry = tr_tab tr ! i;
              i' = (if tr_depth tr \<le> i + 1 then 0 else i + 1)
          in case te_value entry of
               None \<Rightarrow> Some ds
             | Some v \<Rightarrow>
                 (case dump_entry (tr_name tr) t1 t2 (te_t entry) v ds of
                    (stop, ds') \<Rightarrow> if stop then Some ds' else dump_loop fuel' tr t1 t2 i' ds'))"

declare dump_loop.simps [simp del]

definition dump_finish :: "nat \<Rightarrow> dump_state \<Rightarrow> string" where
  "dump_finish now ds =
     (case ds_last ds of
        None \<Rightarrow> ds_out ds
      | Some lv \<Rightarrow> ds_out ds @ stamped '' +'' now lv @ [LF])"

definition hk_trace_dump :: "nat \<Rightarrow> hk_trace \<Rightarrow> nat \<Rightarrow> nat \<Rightarrow> string \<Rightarrow> string option" where
  "hk_trace_dump now tr t1 t2 out_buf =
     map_option (dump_finish now)
       (dump_loop (tr_depth tr) tr t1 t2 (tr_iget tr)
         \<lparr>ds_pre = None, ds_last = None, ds_out = out_buf\<rparr>)"

section \<open>The list of entries\<close>

definition ring_count :: "nat \<Rightarrow> nat \<Rightarrow> nat \<Rightarrow> nat" where
  "ring_count d a b = (if a \<le> b then b - a else b + d - a)"

definition ring_index :: "nat \<Rightarrow> nat \<Rightarrow> nat \<Rightarrow> nat" where
  "ring_index d a k = (if a + k < d then a + k else a + k - d)"

definition entries :: "hk_trace \<Rightarrow> hk_trace_entry list" where
  "entries tr =
     map (\<lambda>k. tr_tab tr ! ring_index (tr_depth tr) (tr_iget tr) k)
       [0..<ring_count (tr_depth tr) (tr_iget tr) (tr_iput tr)]"

definition trace_wf :: "hk_trace \<Rightarrow> bool" where
  "trace_wf tr \<longleftrightarrow>
     length (tr_tab tr) = tr_depth tr \<and> tr_iput tr < tr_depth tr \<and> tr_iget tr < tr_depth tr \<and>
     (\<forall>e\<in>set (entries tr). te_value e \<noteq> None)"

definition hist :: "hk_trace \<Rightarrow> (nat \<times> string) list" where
  "hist tr = map (\<lambda>e. (te_t e, the (te_value e))) (entries tr)"

definition lastn :: "nat \<Rightarrow> 'a list \<Rightarrow> 'a list" where
  "lastn n xs = drop (length xs - n) xs"

lemma depth_init: "0 < tr_depth (hk_trace_init name depth)"
  by (simp add: hk_trace_init_def Let_def HK_TRACE_MAX_DEPTH_def HK_TRACE_DEFAULT_DEPTH_def)

lemma hist_init [simp]: "hist (hk_trace_init name depth) = []"
  by (simp add: hist_def entries_def hk_trace_init_def Let_def ring_count_def)

lemma trace_wf_init: "trace_wf (hk_trace_init name depth)"
  using depth_init [of name depth]
  by (auto simp: trace_wf_def entries_def hk_trace_init_def Let_def ring_count_def)

lemma tr_push_fields:
  assumes "tr_iput tr < tr_depth tr" "tr_iget tr < tr_depth tr"
  defines "b' \<equiv> (if tr_iput tr + 1 = tr_depth tr then 0 else tr_iput tr + 1)"
  shows "tr_depth (hk_trace_push now tr v) = tr_depth tr"
    "tr_name (hk_trace_push now tr v) = tr_name tr"
    "tr_iput (hk_trace_push now tr v) = b'"
    "tr_iget (hk_trace_push now tr v) =
       (if b' = tr_iget tr then if tr_iget tr + 1 = tr_depth tr then 0 else tr_iget tr + 1
        else tr_iget tr)"
    "tr_tab (hk_trace_push now tr v) =
       (tr_tab tr)[tr_iput tr := (tr_tab tr ! tr_iput tr)\<lparr>te_t := now, te_value := Some v\<rparr>]"
  using assms
  by (auto simp: hk_trace_push_def Let_def b'_def map_nth_def hk_trace_clear_entry_def)

lemma entries_nth:
  "k < ring_count (tr_depth tr) (tr_iget tr) (tr_iput tr) \<Longrightarrow>
   entries tr ! k = tr_tab tr ! ring_index (tr_depth tr) (tr_iget tr) k"
  by (simp add: entries_def)

lemma length_entries: "length (entries tr) = ring_count (tr_depth tr) (tr_iget tr) (tr_iput tr)"
  by (simp add: entries_def)

lemma ring_index_put:
  "a < d \<Longrightarrow> b < d \<Longrightarrow> ring_index d a (ring_count d a b) = b"
  by (auto simp: ring_index_def ring_count_def)

lemma ring_index_neq:
  "a < d \<Longrightarrow> b < d \<Longrightarrow> k < ring_count d a b \<Longrightarrow> ring_index d a k \<noteq> b"
  by (auto simp: ring_index_def ring_count_def split: if_splits)

lemma ring_index_bound: "a < d \<Longrightarrow> k < d \<Longrightarrow> ring_index d a k < d"
  by (auto simp: ring_index_def)

lemma ring_count_less: "a < d \<Longrightarrow> b < d \<Longrightarrow> ring_count d a b < d"
  by (auto simp: ring_count_def)

lemma ring_advance:
  fixes a b d :: nat
  assumes "a < d" "b < d"
  defines "b' \<equiv> (if b + 1 = d then 0 else b + 1)"
  defines "a' \<equiv> (if b' = a then if a + 1 = d then 0 else a + 1 else a)"
  defines "s \<equiv> (if b' = a then 1 else 0 :: nat)"
  shows "ring_count d a' b' + s = ring_count d a b + 1"
    "ring_count d a b + 1 - (d - 1) = s"
    "k + s < d \<Longrightarrow> ring_index d a' k = ring_index d a (k + s)"
  using assms(1,2) unfolding b'_def a'_def s_def ring_count_def ring_index_def
  by (simp_all split: if_splits) auto

lemma entries_push:
  assumes "trace_wf tr"
  shows "entries (hk_trace_push now tr v) = lastn (tr_depth tr - 1) (entries tr @ [\<lparr>te_t = now, te_value = Some v\<rparr>])"
proof -
  have w: "tr_iput tr < tr_depth tr" "tr_iget tr < tr_depth tr" "length (tr_tab tr) = tr_depth tr"
    using assms by (auto simp: trace_wf_def)
  let ?d = "tr_depth tr" and ?a = "tr_iget tr" and ?b = "tr_iput tr" and ?tr = "hk_trace_push now tr v"
  let ?b' = "if ?b + 1 = ?d then 0 else ?b + 1"
  let ?a' = "if ?b' = ?a then if ?a + 1 = ?d then 0 else ?a + 1 else ?a"
  let ?s = "if ?b' = ?a then 1 else 0 :: nat"
  note f = tr_push_fields [OF w(1,2), of now v]
  note r = ring_advance [OF w(2,1)]
  have lt: "ring_count ?d ?a ?b < ?d" using ring_count_less w by blast
  have drop: "lastn (?d - 1) (entries tr @ [\<lparr>te_t = now, te_value = Some v\<rparr>]) = drop ?s (entries tr @ [\<lparr>te_t = now, te_value = Some v\<rparr>])"
    using r(2) by (simp add: lastn_def length_entries)
  have len: "length (entries ?tr) = ring_count ?d ?a' ?b'" by (simp only: length_entries f)
  show ?thesis
    unfolding drop
  proof (rule nth_equalityI)
    show "length (entries ?tr) = length (drop ?s (entries tr @ [\<lparr>te_t = now, te_value = Some v\<rparr>]))"
      unfolding len using r(1) by (simp add: length_entries)
    fix k assume k: "k < length (entries ?tr)"
    then have k1: "k + ?s < ring_count ?d ?a ?b + 1" using r(1) unfolding len by linarith
    have k2: "k + ?s < ?d" using k1 lt by linarith
    have nth: "entries ?tr ! k =
        ((tr_tab tr)[?b := (tr_tab tr ! ?b)\<lparr>te_t := now, te_value := Some v\<rparr>])
          ! ring_index ?d ?a (k + ?s)"
      using k r(3) [OF k2] unfolding len by (subst entries_nth) (simp_all only: f)
    show "entries ?tr ! k = drop ?s (entries tr @ [\<lparr>te_t = now, te_value = Some v\<rparr>]) ! k"
    proof (cases "k + ?s = ring_count ?d ?a ?b")
      case True
      have "drop ?s (entries tr @ [\<lparr>te_t = now, te_value = Some v\<rparr>]) ! k = (entries tr @ [\<lparr>te_t = now, te_value = Some v\<rparr>]) ! (?s + k)"
        by (rule nth_drop) (use k1 in \<open>simp add: length_entries\<close>)
      also have "\<dots> = \<lparr>te_t = now, te_value = Some v\<rparr>" using True by (metis add.commute length_entries nth_append_length)
      finally show ?thesis
        unfolding nth True ring_index_put [OF w(2,1)] using w by simp
    next
      case False
      then have lt': "k + ?s < ring_count ?d ?a ?b" using k1 by linarith
      have "drop ?s (entries tr @ [\<lparr>te_t = now, te_value = Some v\<rparr>]) ! k = (entries tr @ [\<lparr>te_t = now, te_value = Some v\<rparr>]) ! (?s + k)"
        by (rule nth_drop) (use k1 in \<open>simp add: length_entries\<close>)
      also have "\<dots> = entries tr ! (k + ?s)"
        using lt' by (simp add: nth_append length_entries add.commute)
      finally show ?thesis
        unfolding nth entries_nth [OF lt'] using ring_index_neq [OF w(2,1) lt'] by simp
    qed
  qed
qed

lemma set_lastn: "set (lastn n xs) \<subseteq> set xs"
  by (simp add: lastn_def set_drop_subset)

lemma trace_wf_push:
  assumes "trace_wf tr"
  shows "trace_wf (hk_trace_push now tr v)"
proof -
  have w: "tr_iput tr < tr_depth tr" "tr_iget tr < tr_depth tr"
    using assms by (auto simp: trace_wf_def)
  have "\<forall>e\<in>set (entries (hk_trace_push now tr v)). te_value e \<noteq> None"
    using assms set_lastn [of "tr_depth tr - 1" "entries tr @ [\<lparr>te_t = now, te_value = Some v\<rparr>]"]
    unfolding entries_push [OF assms] by (auto simp: trace_wf_def)
  then show ?thesis
    using assms w unfolding trace_wf_def tr_push_fields [OF w, of now v] by auto
qed

lemma hist_push:
  assumes "trace_wf tr"
  shows "hist (hk_trace_push now tr v) = lastn (tr_depth tr - 1) (hist tr @ [(now, v)])"
  by (simp add: hist_def entries_push [OF assms] lastn_def drop_map [symmetric])

lemma lastn_lastn: "m \<le> n \<Longrightarrow> lastn m (lastn n xs @ ys) = lastn m (xs @ ys)"
proof -
  assume "m \<le> n"
  then have "length xs + length ys - (length xs - n + m) + (length xs - n) = length xs + length ys - m"
    by arith
  then show ?thesis by (auto simp: lastn_def)
qed

definition push_all :: "hk_trace \<Rightarrow> (nat \<times> string) list \<Rightarrow> hk_trace" where
  "push_all tr ps = foldl (\<lambda>tr (t, v). hk_trace_push t tr v) tr ps"

lemma push_all_hist:
  assumes "trace_wf tr" "hist tr = []"
  shows "trace_wf (push_all tr ps) \<and> tr_depth (push_all tr ps) = tr_depth tr \<and>
    tr_name (push_all tr ps) = tr_name tr \<and> hist (push_all tr ps) = lastn (tr_depth tr - 1) ps"
proof (induction ps rule: rev_induct)
  case Nil
  with assms show ?case by (simp add: push_all_def lastn_def)
next
  case (snoc p ps)
  obtain t v where p: "p = (t, v)" by (cases p)
  have s: "push_all tr (ps @ [p]) = hk_trace_push t (push_all tr ps) v"
    by (simp add: push_all_def p)
  have w: "tr_iput (push_all tr ps) < tr_depth (push_all tr ps)"
    "tr_iget (push_all tr ps) < tr_depth (push_all tr ps)"
    using snoc by (auto simp: trace_wf_def)
  from snoc show ?case
    unfolding s by (simp add: trace_wf_push hist_push tr_push_fields [OF w] lastn_lastn p)
qed

section \<open>The dump\<close>

fun dump_list ::
    "string \<Rightarrow> nat \<Rightarrow> nat \<Rightarrow> (nat \<times> string) list \<Rightarrow> dump_state \<Rightarrow> dump_state" where
  "dump_list name t1 t2 [] ds = ds"
| "dump_list name t1 t2 ((t, v) # es) ds =
     (case dump_entry name t1 t2 t v ds of
        (stop, ds') \<Rightarrow> if stop then ds' else dump_list name t1 t2 es ds')"

lemma ring_index_Suc:
  "a < d \<Longrightarrow> Suc k < d \<Longrightarrow>
   (if d \<le> ring_index d a k + 1 then 0 else ring_index d a k + 1) = ring_index d a (Suc k)"
  by (auto simp: ring_index_def split: if_splits)

lemma dump_loop_list:
  assumes "trace_wf tr" "k \<le> length (hist tr)" "length (hist tr) - k \<le> fuel"
  shows "dump_loop fuel tr t1 t2 (ring_index (tr_depth tr) (tr_iget tr) k) ds =
    Some (dump_list (tr_name tr) t1 t2 (drop k (hist tr)) ds)"
  using assms
proof (induction "length (hist tr) - k" arbitrary: k fuel ds)
  case 0
  have w: "tr_iput tr < tr_depth tr" "tr_iget tr < tr_depth tr"
    using assms(1) by (auto simp: trace_wf_def)
  have "k = ring_count (tr_depth tr) (tr_iget tr) (tr_iput tr)"
    using 0 by (simp add: hist_def length_entries)
  with w have "ring_index (tr_depth tr) (tr_iget tr) k = tr_iput tr"
    by (simp add: ring_index_put)
  with 0 show ?case by (simp add: dump_loop.simps)
next
  case (Suc n)
  let ?i = "ring_index (tr_depth tr) (tr_iget tr) k"
  have w: "tr_iput tr < tr_depth tr" "tr_iget tr < tr_depth tr"
    using assms(1) by (auto simp: trace_wf_def)
  have kl: "k < ring_count (tr_depth tr) (tr_iget tr) (tr_iput tr)"
    using Suc by (simp add: hist_def length_entries)
  have ne: "?i \<noteq> tr_iput tr" using ring_index_neq [OF w(2,1) kl] .
  have cd: "ring_count (tr_depth tr) (tr_iget tr) (tr_iput tr) < tr_depth tr"
    using ring_count_less w by blast
  obtain fuel' where fuel: "fuel = Suc fuel'" using Suc by (cases fuel) auto
  have e: "tr_tab tr ! ?i = entries tr ! k" using kl by (simp add: entries_nth)
  have "entries tr ! k \<in> set (entries tr)" using kl by (simp add: length_entries)
  then obtain v where v: "te_value (entries tr ! k) = Some v"
    using Suc.prems(1) by (auto simp: trace_wf_def)
  have hk: "drop k (hist tr) = (te_t (entries tr ! k), v) # drop (Suc k) (hist tr)"
  proof -
    have "k < length (hist tr)" using kl by (simp add: hist_def length_entries)
    then have "drop k (hist tr) = hist tr ! k # drop (Suc k) (hist tr)"
      by (simp add: Cons_nth_drop_Suc)
    moreover have "hist tr ! k = (te_t (entries tr ! k), v)"
      using kl v by (simp add: hist_def length_entries)
    ultimately show ?thesis by simp
  qed
  have nxt: "(if tr_depth tr \<le> ?i + 1 then 0 else ?i + 1) =
      ring_index (tr_depth tr) (tr_iget tr) (Suc k)"
    using kl cd w by (intro ring_index_Suc) auto
  have IH: "dump_loop fuel' tr t1 t2 (ring_index (tr_depth tr) (tr_iget tr) (Suc k)) ds' =
      Some (dump_list (tr_name tr) t1 t2 (drop (Suc k) (hist tr)) ds')" for ds'
    using Suc.hyps(2) Suc.prems fuel by (intro Suc.hyps(1)) auto
  show ?case
    using ne e v fuel
    by (simp add: dump_loop.simps [of "Suc fuel'"] hk nxt [simplified] IH Let_def split: prod.split)
qed

lemma hk_trace_dump_list:
  assumes "trace_wf tr"
  shows "hk_trace_dump now tr t1 t2 out =
    Some (dump_finish now (dump_list (tr_name tr) t1 t2 (hist tr)
      \<lparr>ds_pre = None, ds_last = None, ds_out = out\<rparr>))"
proof -
  have w: "tr_iput tr < tr_depth tr" "tr_iget tr < tr_depth tr"
    using assms by (auto simp: trace_wf_def)
  have "length (hist tr) - 0 \<le> tr_depth tr"
    using ring_count_less [OF w(2,1)] by (simp add: hist_def length_entries)
  from dump_loop_list [OF assms _ this, of t1 t2] w show ?thesis
    by (simp add: hk_trace_dump_def ring_index_def)
qed

lemma dump_list_before:
  "\<forall>(t, v)\<in>set es. t < t1 \<Longrightarrow> t1 \<noteq> 0 \<Longrightarrow>
   dump_list name t1 t2 (es @ fs) ds =
     dump_list name t1 t2 fs (if es = [] then ds else ds\<lparr>ds_pre := Some (snd (last es))\<rparr>)"
  by (induction es arbitrary: ds) (auto simp: dump_entry_def)

lemma dump_list_inside:
  assumes "\<forall>(t, v)\<in>set es. (t1 = 0 \<or> t1 \<le> t) \<and> (t2 = 0 \<or> t \<le> t2)" "ds_last ds \<noteq> None" "ds_pre ds = None"
  shows "dump_list name t1 t2 (es @ fs) ds =
    dump_list name t1 t2 fs
      (if es = [] then ds
       else ds\<lparr>ds_last := Some (snd (last es)),
               ds_out := ds_out ds @ concat (map (\<lambda>(t, v). stamped '' '' t v) es)\<rparr>)"
  using assms
proof (induction es arbitrary: ds)
  case (Cons e es)
  obtain t v where e: "e = (t, v)" by (cases e)
  let ?ds = "\<lparr>ds_pre = None, ds_last = Some v, ds_out = ds_out ds @ stamped '' '' t v\<rparr>"
  have "dump_list name t1 t2 ((e # es) @ fs) ds = dump_list name t1 t2 (es @ fs) ?ds"
    using Cons.prems by (auto simp: e dump_entry_def dump_point_def Let_def)
  also have "\<dots> = dump_list name t1 t2 fs
      (if es = [] then ?ds
       else ?ds\<lparr>ds_last := Some (snd (last es)),
               ds_out := ds_out ?ds @ concat (map (\<lambda>(t, v). stamped '' '' t v) es)\<rparr>)"
    using Cons.prems by (intro Cons.IH) auto
  finally show ?case using Cons.prems by (cases ds) (auto simp: e)
qed simp

text \<open>The text of a dump, from the entries before, inside and after the time window.\<close>

definition dump_text ::
    "string \<Rightarrow> nat \<Rightarrow> nat \<Rightarrow> nat \<Rightarrow> (nat \<times> string) list \<Rightarrow> (nat \<times> string) list \<Rightarrow>
     (nat \<times> string) list \<Rightarrow> string" where
  "dump_text name t1 t2 now before inside after =
     (if inside = [] then []
      else name @ (if before = [] then [] else stamped '' '' t1 (snd (last before)))
        @ concat (map (\<lambda>(t, v). stamped '' '' t v) inside)
        @ (if after = [] then stamped '' +'' now (snd (last inside))
           else stamped '' '' t2 (snd (last inside)))
        @ [LF])"

lemma dump_list_window:
  assumes "\<forall>(t, v)\<in>set bs. t < t1" "\<forall>(t, v)\<in>set es. t1 \<le> t \<and> (t2 = 0 \<or> t \<le> t2)"
    "\<forall>(t, v)\<in>set fs. t1 \<le> t \<and> t2 \<noteq> 0 \<and> t2 < t"
  shows "dump_finish now (dump_list name t1 t2 (bs @ es @ fs)
      \<lparr>ds_pre = None, ds_last = None, ds_out = out\<rparr>) = out @ dump_text name t1 t2 now bs es fs"
proof -
  let ?ds = "\<lparr>ds_pre = if bs = [] then None else Some (snd (last bs)), ds_last = None, ds_out = out\<rparr>"
  have t1: "t1 \<noteq> 0 \<or> bs = []" using assms(1) by (cases bs) auto
  have "dump_list name t1 t2 (bs @ es @ fs) \<lparr>ds_pre = None, ds_last = None, ds_out = out\<rparr>
      = dump_list name t1 t2 (es @ fs) ?ds"
    using t1 assms(1) by (auto simp: dump_list_before)
  moreover have "dump_finish now (dump_list name t1 t2 (es @ fs) ?ds)
      = out @ dump_text name t1 t2 now bs es fs"
  proof (cases es)
    case Nil
    have "dump_list name t1 t2 fs ?ds = ?ds"
      using assms(3) by (cases fs) (auto simp: dump_entry_def)
    with Nil show ?thesis by (simp add: dump_finish_def dump_text_def)
  next
    case (Cons e es')
    obtain t v where e: "e = (t, v)" by (cases e)
    let ?pre = "if bs = [] then [] else stamped '' '' t1 (snd (last bs))"
    let ?d1 = "\<lparr>ds_pre = None, ds_last = Some v, ds_out = out @ name @ ?pre @ stamped '' '' t v\<rparr>"
    have "dump_list name t1 t2 (es @ fs) ?ds = dump_list name t1 t2 (es' @ fs) ?d1"
      using assms(2) Cons by (simp add: e dump_entry_def dump_point_def Let_def)
    also have "\<dots> = dump_list name t1 t2 fs
        \<lparr>ds_pre = None, ds_last = Some (snd (last es)),
         ds_out = out @ name @ ?pre @ concat (map (\<lambda>(t, v). stamped '' '' t v) es)\<rparr>"
      using assms(2) Cons by (subst dump_list_inside) (auto simp: e)
    finally have d: "dump_list name t1 t2 (es @ fs) ?ds = dump_list name t1 t2 fs
        \<lparr>ds_pre = None, ds_last = Some (snd (last es)),
         ds_out = out @ name @ ?pre @ concat (map (\<lambda>(t, v). stamped '' '' t v) es)\<rparr>" .
    show ?thesis
      unfolding d using assms(3) Cons
      by (cases fs) (auto simp: dump_entry_def dump_finish_def dump_text_def)
  qed
  ultimately show ?thesis by simp
qed

lemma sorted_window:
  fixes hs :: "(nat \<times> string) list"
  assumes "sorted (map fst hs)"
  shows "hs = filter (\<lambda>(t, v). t < t1) hs
      @ filter (\<lambda>(t, v). t1 \<le> t \<and> (t2 = 0 \<or> t \<le> t2)) hs
      @ filter (\<lambda>(t, v). t1 \<le> t \<and> t2 \<noteq> 0 \<and> t2 < t) hs"
  using assms
proof (induction hs)
  case (Cons h hs)
  obtain t v where h: "h = (t, v)" by (cases h)
  have ge: "\<forall>(t', v')\<in>set hs. t \<le> t'" using Cons.prems by (auto simp: h)
  have IH: "hs = filter (\<lambda>(t, v). t < t1) hs
      @ filter (\<lambda>(t, v). t1 \<le> t \<and> (t2 = 0 \<or> t \<le> t2)) hs
      @ filter (\<lambda>(t, v). t1 \<le> t \<and> t2 \<noteq> 0 \<and> t2 < t) hs"
    using Cons by simp
  consider "t < t1" | "t1 \<le> t" "t2 = 0 \<or> t \<le> t2" | "t1 \<le> t" "t2 \<noteq> 0" "t2 < t"
    by linarith
  then show ?case
  proof cases
    case 1
    with IH show ?thesis by (simp add: h)
  next
    case 2
    have "filter (\<lambda>(t, v). t < t1) hs = []" using 2 ge by (fastforce simp: filter_empty_conv)
    with 2 IH show ?thesis by (auto simp: h)
  next
    case 3
    have "filter (\<lambda>(t, v). t < t1) hs = []" "filter (\<lambda>(t, v). t1 \<le> t \<and> (t2 = 0 \<or> t \<le> t2)) hs = []"
      using 3 ge by (fastforce simp: filter_empty_conv)+
    with 3 IH show ?thesis by (simp add: h)
  qed
qed simp

section \<open>Properties\<close>



text \<open>
  \<open>hk_trace_clear\<close> resets the put index only: once the ring has wrapped, the cleared
  trace starts reading at an empty cell, and values pushed after the clear are not dumped
  until the ring wraps again.
\<close>

theorem hk_trace_clear_hides_pushes:
  assumes "trace_wf tr" "2 \<le> tr_iget tr" "v \<noteq> []"
  shows "hk_trace_dump now (hk_trace_push t (hk_trace_clear tr) v) 0 0 [] = Some []"
proof -
  have w: "tr_iput tr < tr_depth tr" "tr_iget tr < tr_depth tr" "length (tr_tab tr) = tr_depth tr"
    using assms(1) by (auto simp: trace_wf_def)
  let ?c = "hk_trace_clear tr"
  have c: "tr_iput ?c = 0" "tr_iget ?c = tr_iget tr" "tr_depth ?c = tr_depth tr"
    "tr_tab ?c = map hk_trace_clear_entry (tr_tab tr)"
    using w by (simp_all add: hk_trace_clear_def)
  have cw: "tr_iput ?c < tr_depth ?c" "tr_iget ?c < tr_depth ?c" using w c by auto
  note f = tr_push_fields [OF cw, of t v]
  have "te_value (tr_tab (hk_trace_push t ?c v) ! tr_iget tr) = None"
    using assms(2) w by (simp add: f c hk_trace_clear_entry_def)
  moreover have "tr_iput (hk_trace_push t ?c v) = 1" "tr_iget (hk_trace_push t ?c v) = tr_iget tr"
    using assms(2) w by (auto simp: f c)
  moreover obtain n where "tr_depth (hk_trace_push t ?c v) = Suc n"
    using w by (cases "tr_depth tr") (auto simp: f c)
  ultimately show ?thesis
    using assms(2) by (simp add: hk_trace_dump_def dump_loop.simps [of "Suc n"] dump_finish_def Let_def)
qed

theorem hk_trace_clear_hides_pushes_witness:
  "hk_trace_dump 9 (hk_trace_push 8 (hk_trace_clear
      (push_all (hk_trace_init ''x'' 4) [(1, ''a''), (2, ''b''), (3, ''c''), (4, ''d''), (5, ''e'')])) ''z'')
      0 0 [] = Some []"
proof (rule hk_trace_clear_hides_pushes)
  show "trace_wf (push_all (hk_trace_init ''x'' 4)
      [(1, ''a''), (2, ''b''), (3, ''c''), (4, ''d''), (5, ''e'')])"
    by (rule push_all_hist [OF trace_wf_init hist_init, THEN conjunct1])
qed (simp_all add: push_all_def hk_trace_push_def hk_trace_init_def Let_def
    HK_TRACE_MAX_DEPTH_def HK_TRACE_DEFAULT_DEPTH_def)

end
