(* ===== verification/Hk_Sys.thy ===== *)
theory Hk_Sys
  imports Hk_Prelude
begin

text \<open>
  \<^verbatim>\<open>os/linux/sys.c\<close>: the event loop. A fixed table of 256 sources (timers, file descriptors,
  child processes, quit handlers) identified by 32-bit tags. Callbacks are function names
  \<open>'f\<close> with an argument \<open>'a\<close>; \<open>call f a ev st\<close> is the effect of the callback, which may
  itself use the operations of this theory on \<open>st\<close>. The state record is extensible: the
  components that run on top of the loop extend it with theirs.

  One iteration of \<open>sys_run\<close> is \<open>sys_iterate\<close>; what it gets from the system (clock, results
  of \<open>poll\<close> and \<open>waitpid\<close>, a termination signal) is its input record. The members of the C
  union of a source are separate fields; the code reads a member only under its type.
\<close>

unbundle bit_operations_syntax

section \<open>State\<close>

definition NSOURCES :: nat where "NSOURCES = 256"

datatype sys_type =
  SYS_TYPE_NONE | SYS_TYPE_TIMEOUT | SYS_TYPE_IO | SYS_TYPE_CHILD | SYS_TYPE_QUIT | SYS_TYPE_REMOVED

type_synonym sys_tag = "32 word"
type_synonym events = "16 word"

record pollfd =
  pf_fd :: int
  pf_events :: events
  pf_revents :: events

record ('f, 'a) sys_source =
  s_tag :: sys_tag
  s_func :: "'f option"
  s_wfunc :: "'f option"
  s_arg :: "'a option"
  s_type :: sys_type
  s_pollfd :: pollfd
  s_poll :: bool
  s_delay :: "64 word"
  s_t :: "64 word"
  s_pid :: int
  s_status :: int

record ('f, 'a) sys_state =
  sources :: "('f, 'a) sys_source list"
  last_tag :: sys_tag
  quit_requested :: bool

datatype sys_event = Ev_call | Ev_io int | Ev_poll pollfd | Ev_child int int

definition POLLIN :: events where "POLLIN = 0x001"
definition POLLPRI :: events where "POLLPRI = 0x002"
definition POLLOUT :: events where "POLLOUT = 0x004"
definition POLLERR :: events where "POLLERR = 0x008"
definition POLLHUP :: events where "POLLHUP = 0x010"
definition POLLNVAL :: events where "POLLNVAL = 0x020"
definition POLLRDHUP :: events where "POLLRDHUP = 0x2000"

definition POLL_READ :: events where
  "POLL_READ = POLLIN OR POLLPRI OR POLLRDHUP OR POLLERR OR POLLHUP OR POLLNVAL"

definition sys_source_clear :: "('f, 'a) sys_source" where
  "sys_source_clear =
     \<lparr>s_tag = 0, s_func = None, s_wfunc = None, s_arg = None, s_type = SYS_TYPE_NONE,
      s_pollfd = \<lparr>pf_fd = 0, pf_events = 0, pf_revents = 0\<rparr>, s_poll = False,
      s_delay = 0, s_t = 0, s_pid = 0, s_status = 0\<rparr>"

definition sys_start :: "('f, 'a) sys_state" where
  "sys_start = \<lparr>sources = replicate NSOURCES sys_source_clear, last_tag = 0, quit_requested = False\<rparr>"

type_synonym ('f, 'a, 'z) world = "('f, 'a, 'z) sys_state_scheme"
type_synonym ('f, 'a, 'z) caller =
  "'f \<Rightarrow> 'a option \<Rightarrow> sys_event \<Rightarrow> ('f, 'a, 'z) world \<Rightarrow> int \<times> ('f, 'a, 'z) world"

section \<open>Registration\<close>

definition upd_source ::
    "nat \<Rightarrow> (('f, 'a) sys_source \<Rightarrow> ('f, 'a) sys_source) \<Rightarrow> ('f, 'a, 'z) world \<Rightarrow> ('f, 'a, 'z) world" where
  "upd_source i g st = st\<lparr>sources := map_nth i g (sources st)\<rparr>"

definition sys_source_add ::
    "'f option \<Rightarrow> 'a option \<Rightarrow> ('f, 'a, 'z) world \<Rightarrow> nat option \<times> ('f, 'a, 'z) world" where
  \<comment> \<open>the slot used, \<open>None\<close> when the table is full\<close>
  "sys_source_add func arg st =
     (case find_index (\<lambda>src. s_tag src = 0) (sources st) of
        None \<Rightarrow> (None, st)
      | Some i \<Rightarrow>
          let tag = last_tag st + 1
          in (Some i,
              upd_source i (\<lambda>src. sys_source_clear\<lparr>s_tag := tag, s_func := func, s_arg := arg\<rparr>)
                (st\<lparr>last_tag := tag\<rparr>)))"

definition sys_retrieve :: "sys_tag \<Rightarrow> ('f, 'a, 'z) world \<Rightarrow> nat option" where
  "sys_retrieve tag st = find_index (\<lambda>src. s_tag src = tag) (sources st)"

definition sys_remove :: "sys_tag \<Rightarrow> ('f, 'a, 'z) world \<Rightarrow> ('f, 'a, 'z) world" where
  "sys_remove tag st =
     (case sys_retrieve tag st of
        None \<Rightarrow> st
      | Some i \<Rightarrow> upd_source i (\<lambda>src. src\<lparr>s_type := SYS_TYPE_REMOVED, s_func := None,
                                     s_wfunc := None, s_arg := None\<rparr>) st)"

definition sys_retrieve_fd :: "int \<Rightarrow> ('f, 'a, 'z) world \<Rightarrow> nat option" where
  "sys_retrieve_fd fd st =
     find_index (\<lambda>src. s_type src = SYS_TYPE_IO \<and> pf_fd (s_pollfd src) = fd) (sources st)"

definition sys_remove_fd :: "int \<Rightarrow> ('f, 'a, 'z) world \<Rightarrow> ('f, 'a, 'z) world" where
  "sys_remove_fd fd st =
     (case sys_retrieve_fd fd st of
        None \<Rightarrow> st
      | Some i \<Rightarrow> upd_source i (\<lambda>src. src\<lparr>s_type := SYS_TYPE_REMOVED, s_func := None,
                                     s_arg := None\<rparr>) st)"

definition sys_io_source_add ::
    "int \<Rightarrow> 'f option \<Rightarrow> 'a option \<Rightarrow> ('f, 'a, 'z) world \<Rightarrow> nat option \<times> ('f, 'a, 'z) world" where
  "sys_io_source_add fd func arg st =
     (case sys_retrieve_fd fd st of
        None \<Rightarrow> sys_source_add func arg st
      | Some i \<Rightarrow> (Some i, st))"

definition with_source ::
    "(('f, 'a) sys_source \<Rightarrow> ('f, 'a) sys_source) \<Rightarrow> nat option \<times> ('f, 'a, 'z) world
      \<Rightarrow> sys_tag \<times> ('f, 'a, 'z) world" where
  \<comment> \<open>the common end of the registration functions: 0 without a source, else fill it in and
     return its tag\<close>
  "with_source g r =
     (case r of
        (None, st) \<Rightarrow> (0, st)
      | (Some i, st) \<Rightarrow> (let st' = upd_source i g st in (s_tag (sources st' ! i), st')))"

definition sys_io_watch ::
    "int \<Rightarrow> 'f option \<Rightarrow> 'a option \<Rightarrow> ('f, 'a, 'z) world \<Rightarrow> sys_tag \<times> ('f, 'a, 'z) world" where
  "sys_io_watch fd func arg st =
     with_source (\<lambda>src. src\<lparr>s_type := SYS_TYPE_IO,
         s_pollfd := \<lparr>pf_fd = fd, pf_events = POLL_READ, pf_revents = 0\<rparr>, s_poll := False\<rparr>)
       (sys_io_source_add fd func arg st)"

definition sys_io_write_handler ::
    "sys_tag \<Rightarrow> 'f option \<Rightarrow> ('f, 'a, 'z) world \<Rightarrow> int \<times> ('f, 'a, 'z) world" where
  "sys_io_write_handler tag wfunc st =
     (case sys_retrieve tag st of
        None \<Rightarrow> (-1, st)
      | Some i \<Rightarrow>
          (0, upd_source i (\<lambda>src. src\<lparr>s_pollfd := (s_pollfd src)\<lparr>pf_events :=
                 if wfunc \<noteq> None then pf_events (s_pollfd src) OR POLLOUT
                 else pf_events (s_pollfd src) AND NOT POLLOUT\<rparr>, s_wfunc := wfunc\<rparr>) st))"

definition sys_io_poll ::
    "int \<Rightarrow> events \<Rightarrow> 'f option \<Rightarrow> 'a option \<Rightarrow> ('f, 'a, 'z) world \<Rightarrow> sys_tag \<times> ('f, 'a, 'z) world" where
  "sys_io_poll fd evts func arg st =
     with_source (\<lambda>src. src\<lparr>s_type := SYS_TYPE_IO,
         s_pollfd := \<lparr>pf_fd = fd, pf_events = evts, pf_revents = 0\<rparr>, s_poll := True\<rparr>)
       (sys_io_source_add fd func arg st)"

definition sys_timeout ::
    "64 word \<Rightarrow> 64 word \<Rightarrow> 'f option \<Rightarrow> 'a option \<Rightarrow> ('f, 'a, 'z) world
      \<Rightarrow> sys_tag \<times> ('f, 'a, 'z) world" where
  \<comment> \<open>\<open>now\<close> is what \<open>sys_now\<close> returns\<close>
  "sys_timeout now delay func arg st =
     with_source (\<lambda>src. src\<lparr>s_type := SYS_TYPE_TIMEOUT, s_delay := delay, s_t := delay + now\<rparr>)
       (sys_source_add func arg st)"

definition sys_child_watch ::
    "int \<Rightarrow> 'f option \<Rightarrow> 'a option \<Rightarrow> ('f, 'a, 'z) world \<Rightarrow> sys_tag \<times> ('f, 'a, 'z) world" where
  "sys_child_watch pid func arg st =
     with_source (\<lambda>src. src\<lparr>s_type := SYS_TYPE_CHILD, s_pid := pid\<rparr>) (sys_source_add func arg st)"

definition sys_quit_handler ::
    "'f option \<Rightarrow> 'a option \<Rightarrow> ('f, 'a, 'z) world \<Rightarrow> sys_tag \<times> ('f, 'a, 'z) world" where
  "sys_quit_handler func arg st =
     with_source (\<lambda>src. src\<lparr>s_type := SYS_TYPE_QUIT\<rparr>) (sys_source_add func arg st)"

definition sys_quit :: "('f, 'a, 'z) world \<Rightarrow> ('f, 'a, 'z) world" where
  "sys_quit st = st\<lparr>quit_requested := True\<rparr>"

definition sys_now :: "int \<Rightarrow> int \<Rightarrow> 64 word" where
  \<comment> \<open>from the seconds and microseconds of \<open>gettimeofday\<close>\<close>
  "sys_now sec usec = word_of_int sec * 1000 + word_of_int (usec div 1000)"

section \<open>Calling back\<close>

definition src_at :: "('f, 'a, 'z) world \<Rightarrow> nat \<Rightarrow> ('f, 'a) sys_source" where
  "src_at st i = sources st ! i"

definition sys_call_io ::
    "('f, 'a, 'z) caller \<Rightarrow> nat \<Rightarrow> 'f \<Rightarrow> ('f, 'a, 'z) world \<Rightarrow> int \<times> ('f, 'a, 'z) world" where
  \<comment> \<open>case \<open>SYS_TYPE_IO\<close> without \<open>poll\<close>: the read callback, then the write callback\<close>
  "sys_call_io call i f st =
     (let (ret, st) =
        (if pf_revents (s_pollfd (src_at st i)) AND POLL_READ \<noteq> 0
         then call f (s_arg (src_at st i)) (Ev_io (pf_fd (s_pollfd (src_at st i)))) st
         else (-1, st))
      in if ret \<noteq> 0 then
           (1,
            if pf_revents (s_pollfd (src_at st i)) AND POLLOUT \<noteq> 0 then
              let (cont, st) =
                (case s_wfunc (src_at st i) of
                   None \<Rightarrow> (0, st)
                 | Some wfunc \<Rightarrow> call wfunc (s_arg (src_at st i)) (Ev_io (pf_fd (s_pollfd (src_at st i)))) st)
              in if cont = 0 then
                   upd_source i (\<lambda>src. src\<lparr>s_pollfd := (s_pollfd src)\<lparr>pf_events :=
                     pf_events (s_pollfd src) AND NOT POLLOUT\<rparr>\<rparr>) st
                 else st
            else st)
         else (0, st))"

definition sys_dispatch ::
    "('f, 'a, 'z) caller \<Rightarrow> nat \<Rightarrow> ('f, 'a, 'z) world \<Rightarrow> int \<times> ('f, 'a, 'z) world" where
  \<comment> \<open>the \<open>switch\<close> on the type of the source\<close>
  "sys_dispatch call i st =
     (case s_func (src_at st i) of
        None \<Rightarrow> (-1, st)
      | Some f \<Rightarrow>
          (case s_type (src_at st i) of
             SYS_TYPE_IO \<Rightarrow>
               if s_poll (src_at st i)
               then call f (s_arg (src_at st i)) (Ev_poll (s_pollfd (src_at st i))) st
               else sys_call_io call i f st
           | SYS_TYPE_CHILD \<Rightarrow>
               call f (s_arg (src_at st i)) (Ev_child (s_pid (src_at st i)) (s_status (src_at st i))) st
           | _ \<Rightarrow> call f (s_arg (src_at st i)) Ev_call st))"

definition sys_callback ::
    "('f, 'a, 'z) caller \<Rightarrow> nat \<Rightarrow> ('f, 'a, 'z) world \<Rightarrow> int \<times> ('f, 'a, 'z) world" where
  "sys_callback call i st =
     (let (ret, st) = sys_dispatch call i st
      in (ret, if ret \<le> 0 then upd_source i (\<lambda>_. sys_source_clear) st else st))"

section \<open>The loop\<close>

definition sys_timer_step ::
    "('f, 'a, 'z) caller \<Rightarrow> 64 word \<Rightarrow> ('f, 'a, 'z) world \<Rightarrow> nat \<Rightarrow> ('f, 'a, 'z) world" where
  "sys_timer_step call now st i =
     (if s_type (src_at st i) = SYS_TYPE_TIMEOUT \<and> s_t (src_at st i) \<le> now then
        case sys_callback call i st of (ret, st) \<Rightarrow>
          if ret \<noteq> 0 \<and> s_type (src_at st i) = SYS_TYPE_TIMEOUT then
            upd_source i (\<lambda>src. src\<lparr>s_t := now + s_delay src\<rparr>) st
          else st
      else st)"

record 'w poll_build =
  pb_state :: 'w
  pb_fds :: "pollfd list"
  pb_lookup :: "nat option list"
  pb_timeout :: int

definition sys_poll_step ::
    "64 word \<Rightarrow> ('f, 'a, 'z) world poll_build \<Rightarrow> nat \<Rightarrow> ('f, 'a, 'z) world poll_build" where
  "sys_poll_step now pb i =
     (let st = pb_state pb; src = src_at st i
      in if s_type src = SYS_TYPE_TIMEOUT then
           pb\<lparr>pb_lookup := pb_lookup pb @ [None],
              pb_timeout :=
                (if now < s_t src \<and>
                    (pb_timeout pb < 0 \<or> uint (s_t src - now) < pb_timeout pb)
                 then sint (s_t src - now) else pb_timeout pb)\<rparr>
         else if s_type src = SYS_TYPE_IO then
           let st' = upd_source i (\<lambda>src. src\<lparr>s_pollfd := (s_pollfd src)\<lparr>pf_revents := 0\<rparr>\<rparr>) st
           in pb\<lparr>pb_state := st', pb_lookup := pb_lookup pb @ [Some (length (pb_fds pb))],
                 pb_fds := pb_fds pb @ [s_pollfd (src_at st' i)]\<rparr>
         else if s_type src = SYS_TYPE_REMOVED then
           pb\<lparr>pb_state := upd_source i (\<lambda>_. sys_source_clear) st, pb_lookup := pb_lookup pb @ [None]\<rparr>
         else pb\<lparr>pb_lookup := pb_lookup pb @ [None]\<rparr>)"

definition sys_poll_build :: "64 word \<Rightarrow> ('f, 'a, 'z) world \<Rightarrow> ('f, 'a, 'z) world poll_build" where
  "sys_poll_build now st =
     foldl (sys_poll_step now)
       \<lparr>pb_state = st, pb_fds = [], pb_lookup = [], pb_timeout = -1\<rparr> [0..<NSOURCES]"

definition sys_poll_timeout :: "int \<Rightarrow> int" where
  \<comment> \<open>\<open>poll\<close> takes an \<open>int\<close>, the code passes a \<open>long long\<close>\<close>
  "sys_poll_timeout t = to_int32 t"

definition sys_io_step ::
    "('f, 'a, 'z) caller \<Rightarrow> nat option list \<Rightarrow> (nat \<Rightarrow> events) \<Rightarrow> ('f, 'a, 'z) world \<Rightarrow> nat
      \<Rightarrow> ('f, 'a, 'z) world" where
  \<comment> \<open>\<open>revents k\<close> is what \<open>poll\<close> stored in \<open>fds[k].revents\<close>\<close>
  "sys_io_step call lookup revents st i =
     (case lookup ! i of
        None \<Rightarrow> st
      | Some k \<Rightarrow>
          if s_type (src_at st i) = SYS_TYPE_IO \<and> revents k \<noteq> 0 then
            snd (sys_callback call i
              (upd_source i (\<lambda>src. src\<lparr>s_pollfd := (s_pollfd src)\<lparr>pf_revents := revents k\<rparr>\<rparr>) st))
          else st)"

definition sys_child_step ::
    "('f, 'a, 'z) caller \<Rightarrow> int \<Rightarrow> int \<Rightarrow> ('f, 'a, 'z) world \<Rightarrow> nat \<Rightarrow> ('f, 'a, 'z) world" where
  "sys_child_step call pid status st i =
     (if s_type (src_at st i) = SYS_TYPE_CHILD \<and> s_pid (src_at st i) = pid then
        upd_source i (\<lambda>_. sys_source_clear)
          (snd (sys_callback call i (upd_source i (\<lambda>src. src\<lparr>s_status := status\<rparr>) st)))
      else st)"

definition sys_waitpid ::
    "('f, 'a, 'z) caller \<Rightarrow> (int \<times> int) list \<Rightarrow> ('f, 'a, 'z) world \<Rightarrow> ('f, 'a, 'z) world" where
  \<comment> \<open>\<open>dead\<close>: the children \<open>waitpid\<close> reports, with their exit status\<close>
  "sys_waitpid call dead st =
     foldl (\<lambda>st (pid, status). foldl (sys_child_step call pid status) st [0..<NSOURCES]) st dead"

datatype poll_result = Poll_failed | Poll_interrupted | Poll_done "nat \<Rightarrow> events"

record sys_input =
  in_now :: "64 word"
  in_poll :: poll_result
  in_dead :: "(int \<times> int) list"
  in_signal :: bool

definition sys_timers ::
    "('f, 'a, 'z) caller \<Rightarrow> 64 word \<Rightarrow> ('f, 'a, 'z) world \<Rightarrow> ('f, 'a, 'z) world" where
  "sys_timers call now st = foldl (sys_timer_step call now) st [0..<NSOURCES]"

definition sys_iterate ::
    "('f, 'a, 'z) caller \<Rightarrow> sys_input \<Rightarrow> ('f, 'a, 'z) world \<Rightarrow> bool \<times> ('f, 'a, 'z) world" where
  \<comment> \<open>the body of the loop; the flag is \<open>break\<close>. A signal handler may run while \<open>poll\<close> waits.\<close>
  "sys_iterate call inp st =
     (if in_now inp = 0 then (True, st)
      else
        let st = sys_timers call (in_now inp) st;
            pb = sys_poll_build (in_now inp) st;
            st = (if in_signal inp then sys_quit (pb_state pb) else pb_state pb)
        in case in_poll inp of
             Poll_failed \<Rightarrow> (True, st)
           | Poll_interrupted \<Rightarrow> (False, sys_waitpid call (in_dead inp) st)
           | Poll_done revents \<Rightarrow>
               (False, sys_waitpid call (in_dead inp)
                  (foldl (sys_io_step call (pb_lookup pb) revents) st [0..<NSOURCES])))"

definition sys_quit_step ::
    "('f, 'a, 'z) caller \<Rightarrow> ('f, 'a, 'z) world \<Rightarrow> nat \<Rightarrow> ('f, 'a, 'z) world" where
  "sys_quit_step call st i =
     (if s_type (src_at st i) = SYS_TYPE_QUIT
      then upd_source i (\<lambda>_. sys_source_clear) (snd (sys_callback call i st)) else st)"

definition sys_leave ::
    "('f, 'a, 'z) caller \<Rightarrow> ('f, 'a, 'z) world \<Rightarrow> ('f, 'a, 'z) world" where
  "sys_leave call st =
     (if quit_requested st then foldl (sys_quit_step call) st [0..<NSOURCES] else st)"

fun sys_run ::
    "('f, 'a, 'z) caller \<Rightarrow> sys_input list \<Rightarrow> ('f, 'a, 'z) world \<Rightarrow> bool \<times> ('f, 'a, 'z) world" where
  \<comment> \<open>one input per iteration; the flag tells whether the loop has ended\<close>
  "sys_run call inps st =
     (if quit_requested st then (True, sys_leave call st)
      else case inps of
             [] \<Rightarrow> (False, st)
           | inp # inps' \<Rightarrow>
               (case sys_iterate call inp st of (brk, st') \<Rightarrow>
                  if brk then (True, sys_leave call st') else sys_run call inps' st'))"

declare sys_run.simps [simp del]

section \<open>Steps of a run\<close>

text \<open>
  \<open>sys_steps c n st st'\<close>: \<open>st'\<close> is reached from \<open>st\<close> by operations of this theory, among
  them at most \<open>n\<close> registrations. With \<open>c\<close> the steps include what only the loop itself does
  to a slot: clearing it and updating its poll flags, status or next expiry.
\<close>

inductive sys_steps ::
    "bool \<Rightarrow> nat \<Rightarrow> ('f, 'a, 'z) world \<Rightarrow> ('f, 'a, 'z) world \<Rightarrow> bool" where
  steps_refl: "sys_steps c 0 st st"
| steps_timeout: "sys_steps c n st st1 \<Longrightarrow> sys_steps c (Suc n) st (snd (sys_timeout now d f a st1))"
| steps_child: "sys_steps c n st st1 \<Longrightarrow> sys_steps c (Suc n) st (snd (sys_child_watch pid f a st1))"
| steps_quit_handler: "sys_steps c n st st1 \<Longrightarrow> sys_steps c (Suc n) st (snd (sys_quit_handler f a st1))"
| steps_io_watch: "sys_steps c n st st1 \<Longrightarrow> sys_steps c (Suc n) st (snd (sys_io_watch fd f a st1))"
| steps_io_poll: "sys_steps c n st st1 \<Longrightarrow> sys_steps c (Suc n) st (snd (sys_io_poll fd evts f a st1))"
| steps_write_handler:
    "sys_steps c n st st1 \<Longrightarrow> sys_steps c n st (snd (sys_io_write_handler tag wfun st1))"
| steps_remove: "sys_steps c n st st1 \<Longrightarrow> sys_steps c n st (sys_remove tag st1)"
| steps_remove_fd: "sys_steps c n st st1 \<Longrightarrow> sys_steps c n st (sys_remove_fd fd st1)"
| steps_outside:
    "sys_steps c n st st1 \<Longrightarrow> sources st2 = sources st1 \<Longrightarrow> last_tag st2 = last_tag st1 \<Longrightarrow>
     sys_steps c n st st2"
| steps_clear: "sys_steps True n st st1 \<Longrightarrow> sys_steps True n st (upd_source i (\<lambda>_. sys_source_clear) st1)"
| steps_update:
    "sys_steps True n st st1 \<Longrightarrow>
     (\<And>src. s_tag (g src) = s_tag src \<and> s_type (g src) = s_type src \<and>
            pf_fd (s_pollfd (g src)) = pf_fd (s_pollfd src)) \<Longrightarrow>
     sys_steps True n st (upd_source i g st1)"

definition acts_through_sys :: "('f, 'a, 'z) caller \<Rightarrow> bool" where
  \<comment> \<open>the callbacks touch the sources only by the operations of this theory\<close>
  "acts_through_sys call \<longleftrightarrow> (\<forall>f a ev st. \<exists>n. sys_steps False n st (snd (call f a ev st)))"

lemma sys_steps_trans:
  "sys_steps c n st1 st2 \<Longrightarrow> sys_steps c m st st1 \<Longrightarrow> sys_steps c (m + n) st st2"
  by (induction c n st1 st2 rule: sys_steps.induct) (auto intro: sys_steps.intros)

lemma sys_steps_loop: "sys_steps c n st st' \<Longrightarrow> sys_steps True n st st'"
  by (induction c n st st' rule: sys_steps.induct) (auto intro: sys_steps.intros)

lemmas sys_op_defs = sys_timeout_def sys_child_watch_def sys_quit_handler_def sys_io_watch_def
  sys_io_poll_def

lemma src_at_upd:
  "src_at (upd_source i g st) j = (if i = j \<and> j < length (sources st) then g (src_at st j) else src_at st j)"
  by (cases "i = j") (auto simp: src_at_def upd_source_def map_nth_def list_update_beyond not_less)

lemma src_at_last_tag [simp]: "src_at (st\<lparr>last_tag := t\<rparr>) j = src_at st j"
  by (simp add: src_at_def)

lemma length_upd_source [simp]: "length (sources (upd_source i g st)) = length (sources st)"
  by (simp add: upd_source_def)

lemma last_tag_upd_source [simp]: "last_tag (upd_source i g st) = last_tag st"
  by (simp add: upd_source_def)

lemma sys_source_add_cases:
  obtains (full) "sys_source_add func arg st = (None, st)" "\<forall>src\<in>set (sources st). s_tag src \<noteq> 0"
  | (slot) i where "i < length (sources st)" "s_tag (src_at st i) = 0"
      "sys_source_add func arg st = (Some i, upd_source i
         (\<lambda>_. sys_source_clear\<lparr>s_tag := last_tag st + 1, s_func := func, s_arg := arg\<rparr>)
         (st\<lparr>last_tag := last_tag st + 1\<rparr>))"
proof (cases "find_index (\<lambda>src. s_tag src = 0) (sources st)")
  case None
  then have "\<forall>src\<in>set (sources st). s_tag src \<noteq> 0" by (simp add: find_index_None_iff)
  moreover have "sys_source_add func arg st = (None, st)" using None by (simp add: sys_source_add_def)
  ultimately show ?thesis using full by blast
next
  case (Some i)
  have "i < length (sources st) \<and> s_tag (src_at st i) = 0"
    using find_index_SomeD [OF Some] by (simp add: src_at_def)
  moreover have "sys_source_add func arg st = (Some i, upd_source i
         (\<lambda>_. sys_source_clear\<lparr>s_tag := last_tag st + 1, s_func := func, s_arg := arg\<rparr>)
         (st\<lparr>last_tag := last_tag st + 1\<rparr>))"
    using Some by (simp add: sys_source_add_def Let_def)
  ultimately show ?thesis using slot by blast
qed

text \<open>A registration does nothing, refills the slot of the descriptor, or fills a free slot.\<close>

lemma with_source_add_cases:
  assumes "\<And>src. s_tag (g src) = s_tag src"
  obtains (full) "with_source g (sys_source_add func arg st) = (0, st)"
  | (slot) i where "i < length (sources st)" "s_tag (src_at st i) = 0"
      "with_source g (sys_source_add func arg st) = (last_tag st + 1, upd_source i
         (\<lambda>_. g (sys_source_clear\<lparr>s_tag := last_tag st + 1, s_func := func, s_arg := arg\<rparr>))
         (st\<lparr>last_tag := last_tag st + 1\<rparr>))"
proof (cases rule: sys_source_add_cases [of func arg st])
  case full
  then show ?thesis using that by (simp add: with_source_def)
next
  case (slot i)
  then show ?thesis using that(2) [of i] assms
    by (simp add: with_source_def Let_def) (simp add: upd_source_def map_nth_def)
qed

lemma sys_retrieve_fd_Some:
  "sys_retrieve_fd fd st = Some i \<Longrightarrow>
   i < length (sources st) \<and> s_type (src_at st i) = SYS_TYPE_IO \<and> pf_fd (s_pollfd (src_at st i)) = fd"
  by (auto simp: sys_retrieve_fd_def src_at_def dest: find_index_SomeD)

lemma with_io_source_cases:
  assumes "\<And>src. s_tag (g src) = s_tag src"
  obtains (full) "with_source g (sys_io_source_add fd func arg st) = (0, st)"
  | (known) i where "i < length (sources st)" "s_type (src_at st i) = SYS_TYPE_IO"
      "pf_fd (s_pollfd (src_at st i)) = fd"
      "with_source g (sys_io_source_add fd func arg st) = (s_tag (src_at st i), upd_source i g st)"
  | (slot) i where "i < length (sources st)" "s_tag (src_at st i) = 0"
      "with_source g (sys_io_source_add fd func arg st) = (last_tag st + 1, upd_source i
         (\<lambda>_. g (sys_source_clear\<lparr>s_tag := last_tag st + 1, s_func := func, s_arg := arg\<rparr>))
         (st\<lparr>last_tag := last_tag st + 1\<rparr>))"
proof (cases "sys_retrieve_fd fd st")
  case None
  show ?thesis
    by (rule with_source_add_cases [OF assms, of func arg st])
      (use None that in \<open>simp_all add: sys_io_source_add_def\<close>)
next
  case (Some i)
  with sys_retrieve_fd_Some [OF Some] assms that(2) [of i] show ?thesis
    by (simp add: sys_io_source_add_def with_source_def Let_def)
      (simp add: upd_source_def map_nth_def src_at_def)
qed

section \<open>What callbacks leave alone\<close>

definition slot_kept :: "('f, 'a) sys_source \<Rightarrow> ('f, 'a) sys_source \<Rightarrow> bool" where
  "slot_kept s s' \<longleftrightarrow>
     (s_tag s \<noteq> 0 \<longrightarrow>
        s_tag s' = s_tag s \<and> (s_type s' = s_type s \<or> s_type s' = SYS_TYPE_REMOVED) \<and>
        pf_fd (s_pollfd s') = pf_fd (s_pollfd s))"

lemma slot_kept_refl [simp]: "slot_kept s s"
  by (simp add: slot_kept_def)

lemma slot_kept_trans: "slot_kept s s' \<Longrightarrow> slot_kept s' s'' \<Longrightarrow> slot_kept s s''"
  by (auto simp: slot_kept_def)

definition slots_kept :: "('f, 'a, 'z) world \<Rightarrow> ('f, 'a, 'z) world \<Rightarrow> bool" where
  "slots_kept st st' \<longleftrightarrow>
     length (sources st') = length (sources st) \<and> (\<forall>j. slot_kept (src_at st j) (src_at st' j))"

lemma slots_kept_refl: "slots_kept st st"
  by (simp add: slots_kept_def)

lemma slots_kept_trans: "slots_kept st st1 \<Longrightarrow> slots_kept st1 st2 \<Longrightarrow> slots_kept st st2"
  unfolding slots_kept_def using slot_kept_trans by metis

lemma slots_kept_upd:
  "(slot_kept (src_at st i) (g (src_at st i))) \<Longrightarrow> slots_kept st (upd_source i g st)"
  by (auto simp: slots_kept_def src_at_upd)

lemma slots_kept_add:
  assumes "s_tag (src_at st i) = 0"
  shows "slots_kept st (upd_source i g (st\<lparr>last_tag := t\<rparr>))"
  using assms unfolding slots_kept_def src_at_upd
  by (auto simp: slot_kept_def)

lemma slots_kept_register:
  assumes "\<And>src. s_tag (g src) = s_tag src"
  shows "slots_kept st (snd (with_source g (sys_source_add func arg st)))"
  by (cases rule: with_source_add_cases [of g func arg st, OF assms])
    (auto simp: slots_kept_refl intro: slots_kept_add)

lemma slots_kept_op:
  "slots_kept st (snd (sys_timeout now d func arg st))"
  "slots_kept st (snd (sys_child_watch pid func arg st))"
  "slots_kept st (snd (sys_quit_handler func arg st))"
  by (auto simp: sys_op_defs intro!: slots_kept_register)

lemma slots_kept_register_io:
  assumes "\<And>src. s_tag (g src) = s_tag src \<and> s_type (g src) = SYS_TYPE_IO \<and> pf_fd (s_pollfd (g src)) = fd"
  shows "slots_kept st (snd (with_source g (sys_io_source_add fd func arg st)))"
proof -
  have t: "\<And>src. s_tag (g src) = s_tag src" using assms by simp
  show ?thesis
  proof (cases rule: with_io_source_cases [of g fd func arg st, OF t])
    case 1
    then show ?thesis by (simp add: slots_kept_refl)
  next
    case (2 i)
    with assms show ?thesis by (auto intro!: slots_kept_upd simp: slot_kept_def)
  next
    case (3 i)
    then show ?thesis by (auto intro: slots_kept_add)
  qed
qed

lemma slots_kept_io_op:
  "slots_kept st (snd (sys_io_watch fd func arg st))"
  "slots_kept st (snd (sys_io_poll fd evts func arg st))"
  by (auto simp: sys_op_defs intro!: slots_kept_register_io)

lemma slots_kept_remove: "slots_kept st (sys_remove tag st)" "slots_kept st (sys_remove_fd fd st)"
  "slots_kept st (snd (sys_io_write_handler tag wfun st))"
  by (auto simp: sys_remove_def sys_remove_fd_def sys_io_write_handler_def slots_kept_refl slot_kept_def
      split: option.split intro!: slots_kept_upd)

lemma slots_kept_outside: "sources st2 = sources st1 \<Longrightarrow> slots_kept st1 st2"
  by (simp add: slots_kept_def src_at_def)

lemma client_keeps_slots:
  assumes "sys_steps c n st st'" "\<not> c"
  shows "slots_kept st st'"
  using assms
proof (induction c n st st' rule: sys_steps.induct)
  case (steps_refl c st)
  show ?case by (rule slots_kept_refl)
next
  case (steps_outside c n st st1 st2)
  then show ?case using slots_kept_outside slots_kept_trans by blast
qed (blast intro: slots_kept_trans slots_kept_op slots_kept_io_op slots_kept_remove)+

section \<open>The table of sources stays well-formed\<close>

definition sys_wf :: "nat \<Rightarrow> ('f, 'a, 'z) world \<Rightarrow> bool" where
  \<comment> \<open>after at most \<open>k\<close> registrations\<close>
  "sys_wf k st \<longleftrightarrow>
     length (sources st) = NSOURCES \<and> unat (last_tag st) \<le> k \<and>
     (\<forall>i<NSOURCES. unat (s_tag (src_at st i)) \<le> unat (last_tag st)) \<and>
     (\<forall>i<NSOURCES. \<forall>j<NSOURCES.
        s_tag (src_at st i) \<noteq> 0 \<and> s_tag (src_at st i) = s_tag (src_at st j) \<longrightarrow> i = j) \<and>
     (\<forall>i<NSOURCES. s_tag (src_at st i) = 0 \<longrightarrow>
        s_type (src_at st i) = SYS_TYPE_NONE \<or> s_type (src_at st i) = SYS_TYPE_REMOVED)"

lemma sys_wf_start: "sys_wf 0 sys_start"
  by (simp add: sys_wf_def sys_start_def src_at_def sys_source_clear_def)

lemma sys_wf_mono: "sys_wf k st \<Longrightarrow> k \<le> k' \<Longrightarrow> sys_wf k' st"
  by (auto simp: sys_wf_def)

lemma sys_wf_upd:
  assumes "sys_wf k st"
    and "s_tag (g (src_at st i)) = s_tag (src_at st i) \<or> s_tag (g (src_at st i)) = 0"
    and "s_tag (g (src_at st i)) = 0 \<Longrightarrow>
      s_type (g (src_at st i)) = SYS_TYPE_NONE \<or> s_type (g (src_at st i)) = SYS_TYPE_REMOVED"
  shows "sys_wf k (upd_source i g st)"
  using assms unfolding sys_wf_def src_at_upd length_upd_source last_tag_upd_source
  by (smt (verit, del_insts) unat_0 zero_le)

lemma sys_wf_add:
  assumes w: "sys_wf k st" and k: "Suc k < 2 ^ 32" and i: "i < NSOURCES" "s_tag (src_at st i) = 0"
    and g: "s_tag (g (src_at st i)) = last_tag st + 1"
  shows "sys_wf (Suc k) (upd_source i g (st\<lparr>last_tag := last_tag st + 1\<rparr>))"
proof -
  have lt: "unat (last_tag st) \<le> k" using w by (simp add: sys_wf_def)
  have u: "unat (last_tag st + 1) = unat (last_tag st) + 1"
    using lt k by (subst unat_add_lem [THEN iffD1]) simp_all
  have nz: "last_tag st + 1 \<noteq> 0" using u by (metis add_is_0 unat_0 zero_neq_one)
  have fresh: "s_tag (src_at st j) \<noteq> last_tag st + 1" if "j < NSOURCES" for j
    using w that u by (auto simp: sys_wf_def)
  have le: "unat (s_tag (src_at st j)) \<le> unat (last_tag st) + 1" if "j < NSOURCES" for j
    using w that by (auto simp: sys_wf_def intro: le_SucI)
  show ?thesis
    unfolding sys_wf_def src_at_upd length_upd_source last_tag_upd_source src_at_last_tag
  proof (intro conjI allI impI)
    show "length (sources (st\<lparr>last_tag := last_tag st + 1\<rparr>)) = NSOURCES"
      using w by (simp add: sys_wf_def)
    show "unat (last_tag (st\<lparr>last_tag := last_tag st + 1\<rparr>)) \<le> Suc k" using u lt by simp
  next
    fix j assume "j < NSOURCES"
    then show "unat (s_tag (if i = j \<and> j < length (sources (st\<lparr>last_tag := last_tag st + 1\<rparr>))
          then g (src_at st j) else src_at st j))
        \<le> unat (last_tag (st\<lparr>last_tag := last_tag st + 1\<rparr>))"
      using u le g by auto
  next
    fix j l
    assume "j < NSOURCES" "l < NSOURCES"
      "s_tag (if i = j \<and> j < length (sources (st\<lparr>last_tag := last_tag st + 1\<rparr>))
          then g (src_at st j) else src_at st j) \<noteq> 0 \<and>
       s_tag (if i = j \<and> j < length (sources (st\<lparr>last_tag := last_tag st + 1\<rparr>))
          then g (src_at st j) else src_at st j) =
       s_tag (if i = l \<and> l < length (sources (st\<lparr>last_tag := last_tag st + 1\<rparr>))
          then g (src_at st l) else src_at st l)"
    then show "j = l"
      using w g fresh [of j] fresh [of l] by (auto simp: sys_wf_def split: if_splits)
  next
    fix j
    assume "j < NSOURCES"
      "s_tag (if i = j \<and> j < length (sources (st\<lparr>last_tag := last_tag st + 1\<rparr>))
          then g (src_at st j) else src_at st j) = 0"
    then show "s_type (if i = j \<and> j < length (sources (st\<lparr>last_tag := last_tag st + 1\<rparr>))
          then g (src_at st j) else src_at st j) = SYS_TYPE_NONE \<or>
        s_type (if i = j \<and> j < length (sources (st\<lparr>last_tag := last_tag st + 1\<rparr>))
          then g (src_at st j) else src_at st j) = SYS_TYPE_REMOVED"
      using w g nz by (auto simp: sys_wf_def split: if_splits)
  qed
qed

lemma sys_wf_register:
  assumes "sys_wf k st" "Suc k < 2 ^ 32" "\<And>src. s_tag (g src) = s_tag src"
  shows "sys_wf (Suc k) (snd (with_source g (sys_source_add func arg st)))"
proof (cases rule: with_source_add_cases [of g func arg st, OF assms(3)])
  case 1
  with assms(1) show ?thesis by (auto intro: sys_wf_mono)
next
  case (2 i)
  have "i < NSOURCES" using 2 assms(1) by (simp add: sys_wf_def)
  with 2 show ?thesis using assms by (auto intro!: sys_wf_add)
qed

lemma sys_wf_register_io:
  assumes "sys_wf k st" "Suc k < 2 ^ 32" "\<And>src. s_tag (g src) = s_tag src"
  shows "sys_wf (Suc k) (snd (with_source g (sys_io_source_add fd func arg st)))"
proof (cases rule: with_io_source_cases [of g fd func arg st, OF assms(3)])
  case 1
  with assms(1) show ?thesis by (auto intro: sys_wf_mono)
next
  case (2 i)
  have "s_tag (src_at st i) \<noteq> 0" using 2 assms(1) by (auto simp: sys_wf_def)
  with assms(1,3) have "sys_wf k (upd_source i g st)" by (intro sys_wf_upd) auto
  with 2 show ?thesis by (auto intro: sys_wf_mono)
next
  case (3 i)
  have "i < NSOURCES" using 3 assms(1) by (simp add: sys_wf_def)
  with 3 show ?thesis using assms by (auto intro!: sys_wf_add)
qed

lemma sys_wf_op:
  assumes "sys_wf k st" "Suc k < 2 ^ 32"
  shows "sys_wf (Suc k) (snd (sys_timeout now d func arg st))"
    "sys_wf (Suc k) (snd (sys_child_watch pid func arg st))"
    "sys_wf (Suc k) (snd (sys_quit_handler func arg st))"
    "sys_wf (Suc k) (snd (sys_io_watch fd func arg st))"
    "sys_wf (Suc k) (snd (sys_io_poll fd evts func arg st))"
  using assms by (simp_all add: sys_op_defs sys_wf_register sys_wf_register_io)

lemma sys_wf_remove:
  assumes "sys_wf k st"
  shows "sys_wf k (sys_remove tag st)" "sys_wf k (sys_remove_fd fd st)"
    "sys_wf k (snd (sys_io_write_handler tag wfun st))"
  using assms
  by (auto simp: sys_remove_def sys_remove_fd_def sys_io_write_handler_def sys_wf_def [of k st]
      sys_retrieve_def src_at_def dest!: find_index_SomeD split: option.split intro!: sys_wf_upd)

lemma sys_wf_outside:
  "sys_wf k st1 \<Longrightarrow> sources st2 = sources st1 \<Longrightarrow> last_tag st2 = last_tag st1 \<Longrightarrow> sys_wf k st2"
proof -
  assume w: "sys_wf k st1" and e: "sources st2 = sources st1" "last_tag st2 = last_tag st1"
  have s: "src_at st2 i = src_at st1 i" for i by (simp add: src_at_def e)
  show ?thesis unfolding sys_wf_def s e by (rule w [unfolded sys_wf_def])
qed

lemma sys_wf_update:
  assumes "sys_wf k st" "s_tag (g (src_at st i)) = s_tag (src_at st i)"
    "s_type (g (src_at st i)) = s_type (src_at st i)"
  shows "sys_wf k (upd_source i g st)"
proof (cases "i < NSOURCES")
  case True
  with assms show ?thesis by (intro sys_wf_upd) (auto simp: sys_wf_def)
next
  case False
  with assms(1) have "upd_source i g st = st" by (simp add: upd_source_def sys_wf_def)
  with assms(1) show ?thesis by simp
qed

lemma sys_wf_clear: "sys_wf k st \<Longrightarrow> sys_wf k (upd_source i (\<lambda>_. sys_source_clear) st)"
  by (rule sys_wf_upd) (auto simp: sys_source_clear_def)

lemma sys_steps_wf:
  assumes "sys_steps c n st st'" "sys_wf k st" "k + n < 2 ^ 32"
  shows "sys_wf (k + n) st'"
  using assms
proof (induction c n st st' rule: sys_steps.induct)
  case (steps_update n st st1 g i)
  then show ?case by (intro sys_wf_update) auto
next
  case (steps_outside c n st st1 st2)
  then have "sys_wf (k + n) st1" by blast
  then show ?case using steps_outside(2,3) by (rule sys_wf_outside)
next
  case (steps_timeout c n st st1 now d f a)
  then have "sys_wf (k + n) st1" "Suc (k + n) < 2 ^ 32" by auto
  from sys_wf_op(1) [OF this] show ?case by simp
next
  case (steps_child c n st st1 pid f a)
  then have "sys_wf (k + n) st1" "Suc (k + n) < 2 ^ 32" by auto
  from sys_wf_op(2) [OF this] show ?case by simp
next
  case (steps_quit_handler c n st st1 f a)
  then have "sys_wf (k + n) st1" "Suc (k + n) < 2 ^ 32" by auto
  from sys_wf_op(3) [OF this] show ?case by simp
next
  case (steps_io_watch c n st st1 fd f a)
  then have "sys_wf (k + n) st1" "Suc (k + n) < 2 ^ 32" by auto
  from sys_wf_op(4) [OF this] show ?case by simp
next
  case (steps_io_poll c n st st1 fd evts f a)
  then have "sys_wf (k + n) st1" "Suc (k + n) < 2 ^ 32" by auto
  from sys_wf_op(5) [OF this] show ?case by simp
next
  case (steps_clear n st st1 i)
  then show ?case by (intro sys_wf_clear) blast
next
  case (steps_remove c n st st1 tag)
  then show ?case by (intro sys_wf_remove) blast
next
  case (steps_remove_fd c n st st1 fd)
  then show ?case by (intro sys_wf_remove) blast
next
  case (steps_write_handler c n st st1 tag wfun)
  then show ?case by (intro sys_wf_remove) blast
qed simp

section \<open>The loop runs by steps\<close>

definition sys_reach :: "('f, 'a, 'z) world \<Rightarrow> ('f, 'a, 'z) world \<Rightarrow> bool" where
  "sys_reach st st' \<longleftrightarrow> (\<exists>n. sys_steps True n st st')"

lemma reach_refl: "sys_reach st st"
  unfolding sys_reach_def by (blast intro: steps_refl)

lemma reach_trans [trans]: "sys_reach st st1 \<Longrightarrow> sys_reach st1 st2 \<Longrightarrow> sys_reach st st2"
  unfolding sys_reach_def by (blast intro: sys_steps_trans)

lemma reach_clear: "sys_reach st st1 \<Longrightarrow> sys_reach st (upd_source i (\<lambda>_. sys_source_clear) st1)"
  unfolding sys_reach_def by (blast intro: steps_clear)

lemma reach_update:
  "sys_reach st st1 \<Longrightarrow>
   (\<And>src. s_tag (g src) = s_tag src \<and> s_type (g src) = s_type src \<and>
            pf_fd (s_pollfd (g src)) = pf_fd (s_pollfd src)) \<Longrightarrow>
   sys_reach st (upd_source i g st1)"
  unfolding sys_reach_def by (blast intro: steps_update)

lemma reach_call: "acts_through_sys call \<Longrightarrow> sys_reach st (snd (call f a ev st))"
  unfolding sys_reach_def acts_through_sys_def by (blast intro: sys_steps_loop)

lemma reach_foldl: "(\<And>s x. sys_reach s (f s x)) \<Longrightarrow> sys_reach st (foldl f st xs)"
proof (induction xs arbitrary: st)
  case (Cons x xs)
  have "sys_reach st (f st x)" by (rule Cons.prems)
  also have "sys_reach (f st x) (foldl f (f st x) xs)" by (rule Cons.IH [OF Cons.prems])
  finally show ?case by simp
qed (simp add: reach_refl)

lemma reach_call_io:
  assumes "acts_through_sys call"
  shows "sys_reach st (snd (sys_call_io call i f st))"
proof -
  obtain r1 st1 where c1: "(if pf_revents (s_pollfd (src_at st i)) AND POLL_READ \<noteq> 0
         then call f (s_arg (src_at st i)) (Ev_io (pf_fd (s_pollfd (src_at st i)))) st
         else (-1, st)) = (r1, st1)"
    by fastforce
  have 1: "sys_reach st st1"
    using c1 reach_call [OF assms, of st f "s_arg (src_at st i)" "Ev_io (pf_fd (s_pollfd (src_at st i)))"]
      reach_refl [of st]
    by (auto split: if_splits)
  obtain r2 st2 where c2: "(case s_wfunc (src_at st1 i) of None \<Rightarrow> (0, st1)
      | Some wfunc \<Rightarrow> call wfunc (s_arg (src_at st1 i)) (Ev_io (pf_fd (s_pollfd (src_at st1 i)))) st1)
      = (r2, st2)"
    by fastforce
  have 2: "sys_reach st1 st2"
  proof (cases "s_wfunc (src_at st1 i)")
    case None
    with c2 show ?thesis by (simp add: reach_refl)
  next
    case (Some wfunc)
    with c2 reach_call [OF assms, of st1 wfunc "s_arg (src_at st1 i)"
        "Ev_io (pf_fd (s_pollfd (src_at st1 i)))"]
    show ?thesis by simp
  qed
  note 3 = reach_trans [OF 1 2]
  show ?thesis
    using 1 3 reach_update [OF 3]
    by (simp add: sys_call_io_def c1 c2 Let_def)
qed

lemma reach_callback:
  assumes "acts_through_sys call"
  shows "sys_reach st (snd (sys_callback call i st))"
proof -
  have "sys_reach st (snd (sys_dispatch call i st))"
    using reach_call [OF assms] reach_call_io [OF assms]
    by (auto simp: sys_dispatch_def reach_refl split: option.split sys_type.split)
  then show ?thesis by (cases "sys_dispatch call i st") (simp add: sys_callback_def reach_clear)
qed

lemma reach_timers: "acts_through_sys call \<Longrightarrow> sys_reach st (sys_timers call now st)"
  unfolding sys_timers_def
proof (rule reach_foldl)
  fix s i assume a: "acts_through_sys call"
  note c = reach_callback [OF a, of s i]
  show "sys_reach s (sys_timer_step call now s i)"
    using c reach_update [OF c]
    by (simp add: sys_timer_step_def reach_refl split: prod.split) auto
qed

lemma reach_poll_build: "sys_reach st (pb_state (sys_poll_build now st))"
proof -
  have "sys_reach st (pb_state (foldl (sys_poll_step now) pb is))"
    if "sys_reach st (pb_state pb)" for pb "is"
    using that
  proof (induction "is" arbitrary: pb)
    case (Cons i "is")
    have "sys_reach st (pb_state (sys_poll_step now pb i))"
      using Cons.prems by (simp add: sys_poll_step_def Let_def reach_clear reach_update)
    then show ?case by (simp add: Cons.IH)
  qed simp
  then show ?thesis by (simp add: sys_poll_build_def reach_refl)
qed

lemma reach_io_step:
  assumes "acts_through_sys call"
  shows "sys_reach st (sys_io_step call lookup revents st i)"
proof (cases "lookup ! i")
  case None
  then show ?thesis by (simp add: sys_io_step_def reach_refl)
next
  case (Some k)
  have "sys_reach st (upd_source i
      (\<lambda>src. src\<lparr>s_pollfd := (s_pollfd src)\<lparr>pf_revents := revents k\<rparr>\<rparr>) st)"
    by (rule reach_update [OF reach_refl]) simp
  from reach_trans [OF this reach_callback [OF assms]] Some show ?thesis
    by (simp add: sys_io_step_def reach_refl)
qed

lemma reach_waitpid:
  assumes "acts_through_sys call"
  shows "sys_reach st (sys_waitpid call dead st)"
proof -
  have "sys_reach st (sys_child_step call pid status st i)" for st pid status i
  proof -
    have "sys_reach st (upd_source i (\<lambda>src. src\<lparr>s_status := status\<rparr>) st)"
      by (rule reach_update [OF reach_refl]) simp
    from reach_trans [OF this reach_callback [OF assms]] show ?thesis
      by (simp add: sys_child_step_def reach_refl reach_clear)
  qed
  then show ?thesis
    unfolding sys_waitpid_def by (intro reach_foldl) (auto intro: reach_foldl)
qed

lemma reach_iterate:
  assumes "acts_through_sys call"
  shows "sys_reach st (snd (sys_iterate call inp st))"
proof -
  let ?st1 = "sys_timers call (in_now inp) st"
  let ?pb = "sys_poll_build (in_now inp) ?st1"
  let ?st2 = "if in_signal inp then sys_quit (pb_state ?pb) else pb_state ?pb"
  have q: "sys_reach s (sys_quit s)" for s :: "('a, 'b, 'c) world"
    unfolding sys_reach_def by (auto intro!: exI [of _ 0] steps_outside [OF steps_refl] simp: sys_quit_def)
  have 2: "sys_reach st ?st2"
    using reach_trans [OF reach_timers [OF assms] reach_poll_build]
      reach_trans [OF reach_trans [OF reach_timers [OF assms] reach_poll_build] q]
    by simp
  have 3: "sys_reach st (sys_waitpid call (in_dead inp) ?st2)"
    by (rule reach_trans [OF 2 reach_waitpid [OF assms]])
  have 4: "sys_reach st (sys_waitpid call (in_dead inp)
      (foldl (sys_io_step call (pb_lookup ?pb) revents) ?st2 [0..<NSOURCES]))" for revents
    by (rule reach_trans [OF reach_trans [OF 2] reach_waitpid [OF assms]])
      (rule reach_foldl, rule reach_io_step [OF assms])
  show ?thesis
    using 2 3 4
    by (cases "in_signal inp"; cases "in_poll inp") (simp_all add: sys_iterate_def reach_refl Let_def)
qed

lemma reach_leave:
  assumes "acts_through_sys call"
  shows "sys_reach st (sys_leave call st)"
proof -
  have "sys_reach st (sys_quit_step call st i)" for st i
    using reach_callback [OF assms, of st i]
    by (simp add: sys_quit_step_def reach_refl reach_clear)
  then show ?thesis by (simp add: sys_leave_def reach_refl reach_foldl)
qed

lemma reach_run:
  assumes "acts_through_sys call"
  shows "sys_reach st (snd (sys_run call inps st))"
proof (induction inps arbitrary: st)
  case Nil
  then show ?case using assms by (simp add: sys_run.simps reach_leave reach_refl)
next
  case (Cons inp inps)
  note it = reach_iterate [OF assms, of st inp]
  obtain brk st' where st': "sys_iterate call inp st = (brk, st')" by fastforce
  with it have r: "sys_reach st st'" by simp
  show ?case
    using reach_trans [OF r reach_leave [OF assms]] reach_trans [OF r Cons] assms
    by (simp add: sys_run.simps [of call "inp # inps"] st' reach_leave)
qed

section \<open>The poll set\<close>

definition polled :: "('f, 'a) sys_source \<Rightarrow> pollfd" where
  "polled src = (s_pollfd src)\<lparr>pf_revents := 0\<rparr>"

definition after_build :: "('f, 'a) sys_source \<Rightarrow> ('f, 'a) sys_source" where
  "after_build src =
     (if s_type src = SYS_TYPE_IO then src\<lparr>s_pollfd := polled src\<rparr>
      else if s_type src = SYS_TYPE_REMOVED then sys_source_clear else src)"

definition is_io :: "('f, 'a, 'z) world \<Rightarrow> nat \<Rightarrow> bool" where
  "is_io st i \<longleftrightarrow> s_type (src_at st i) = SYS_TYPE_IO"

definition ahead :: "64 word \<Rightarrow> ('f, 'a, 'z) world \<Rightarrow> nat \<Rightarrow> int list" where
  \<comment> \<open>the delays to the timers of the first \<open>n\<close> slots that expire after \<open>now\<close>\<close>
  "ahead now st n =
     map (\<lambda>i. sint (s_t (src_at st i) - now))
       (filter (\<lambda>i. s_type (src_at st i) = SYS_TYPE_TIMEOUT \<and> now < s_t (src_at st i)) [0..<n])"

definition build_upto :: "64 word \<Rightarrow> ('f, 'a, 'z) world \<Rightarrow> nat \<Rightarrow> ('f, 'a, 'z) world poll_build" where
  "build_upto now st n =
     foldl (sys_poll_step now) \<lparr>pb_state = st, pb_fds = [], pb_lookup = [], pb_timeout = -1\<rparr> [0..<n]"

lemma build_upto_Suc: "build_upto now st (Suc n) = sys_poll_step now (build_upto now st n) n"
  by (simp add: build_upto_def)

lemma build_upto_spec:
  assumes "n \<le> length (sources st)"
  shows "length (sources (pb_state (build_upto now st n))) = length (sources st) \<and>
    (\<forall>i. src_at (pb_state (build_upto now st n)) i =
       (if i < n then after_build (src_at st i) else src_at st i)) \<and>
    pb_fds (build_upto now st n) = map (\<lambda>i. polled (src_at st i)) (filter (is_io st) [0..<n]) \<and>
    pb_lookup (build_upto now st n) =
      map (\<lambda>i. if is_io st i then Some (length (filter (is_io st) [0..<i])) else None) [0..<n]"
  using assms
proof (induction n)
  case 0
  show ?case by (simp add: build_upto_def)
next
  case (Suc n)
  let ?pb = "build_upto now st n"
  have IH: "length (sources (pb_state ?pb)) = length (sources st)"
    "\<And>i. src_at (pb_state ?pb) i = (if i < n then after_build (src_at st i) else src_at st i)"
    "pb_fds ?pb = map (\<lambda>i. polled (src_at st i)) (filter (is_io st) [0..<n])"
    "pb_lookup ?pb =
      map (\<lambda>i. if is_io st i then Some (length (filter (is_io st) [0..<i])) else None) [0..<n]"
    using Suc by auto
  have n: "src_at (pb_state ?pb) n = src_at st n" "n < length (sources st)"
    using IH(2) Suc.prems by auto
  have io: "is_io st n \<longleftrightarrow> s_type (src_at st n) = SYS_TYPE_IO" by (simp add: is_io_def)
  show ?case
    using IH n
    by (cases "s_type (src_at st n)")
      (auto simp: build_upto_Suc sys_poll_step_def Let_def src_at_upd io after_build_def polled_def
        less_Suc_eq)
qed

lemma build_timeout:
  assumes "n \<le> length (sources st)" "\<forall>d\<in>set (ahead now st n). 0 \<le> d"
  shows "pb_timeout (build_upto now st n) =
    (if ahead now st n = [] then -1 else Min (set (ahead now st n)))"
  using assms
proof (induction n)
  case 0
  show ?case by (simp add: build_upto_def ahead_def)
next
  case (Suc n)
  let ?pb = "build_upto now st n" and ?d = "sint (s_t (src_at st n) - now)"
  have n: "src_at (pb_state ?pb) n = src_at st n"
    using build_upto_spec [of n st now] Suc.prems(1) by simp
  show ?case
  proof (cases "s_type (src_at st n) = SYS_TYPE_TIMEOUT \<and> now < s_t (src_at st n)")
    case False
    have "ahead now st (Suc n) = ahead now st n" using False by (auto simp: ahead_def)
    moreover have "pb_timeout (build_upto now st (Suc n)) = pb_timeout ?pb"
      using False by (auto simp: build_upto_Suc sys_poll_step_def Let_def n)
    ultimately show ?thesis using Suc by simp
  next
    case True
    have a: "ahead now st (Suc n) = ahead now st n @ [?d]" using True by (simp add: ahead_def)
    have pos: "0 \<le> ?d" "\<forall>d\<in>set (ahead now st n). 0 \<le> d" using Suc.prems(2) unfolding a by auto
    have u: "uint (s_t (src_at st n) - now) = ?d"
      using pos(1) sint_less [of "s_t (src_at st n) - now"]
      by (simp add: uint_sint take_bit_int_eq_self)
    have t: "pb_timeout (build_upto now st (Suc n)) =
        (if pb_timeout ?pb < 0 \<or> ?d < pb_timeout ?pb then ?d else pb_timeout ?pb)"
      using True by (simp add: build_upto_Suc sys_poll_step_def Let_def n u)
    show ?thesis
    proof (cases "ahead now st n = []")
      case True
      then show ?thesis using Suc pos by (simp add: t a)
    next
      case False
      then have m: "pb_timeout ?pb = Min (set (ahead now st n))" using Suc pos by simp
      have "0 \<le> Min (set (ahead now st n))" using False pos by simp
      moreover have "Min (set (ahead now st n @ [?d])) = min ?d (Min (set (ahead now st n)))"
        using False by simp
      ultimately show ?thesis unfolding t a m by (simp add: min_def)
    qed
  qed
qed

lemma sys_poll_build_upto: "sys_poll_build now st = build_upto now st NSOURCES"
  by (simp add: sys_poll_build_def build_upto_def)

section \<open>Events go to the source they were polled for\<close>

lemma callback_keeps_others:
  assumes "acts_through_sys call" "j \<noteq> i"
  shows "slot_kept (src_at st j) (src_at (snd (sys_callback call i st)) j) \<and>
    length (sources (snd (sys_callback call i st))) = length (sources st)"
proof -
  have k: "slots_kept s (snd (call f a ev s))" for f a ev s
    using assms(1) client_keeps_slots unfolding acts_through_sys_def by blast
  have io: "slot_kept (src_at st j) (src_at (snd (sys_call_io call i f st)) j) \<and>
      length (sources (snd (sys_call_io call i f st))) = length (sources st)" for f
  proof -
    obtain r1 st1 where c1: "(if pf_revents (s_pollfd (src_at st i)) AND POLL_READ \<noteq> 0
         then call f (s_arg (src_at st i)) (Ev_io (pf_fd (s_pollfd (src_at st i)))) st
         else (-1, st)) = (r1, st1)"
      by fastforce
    have 1: "slots_kept st st1"
      using c1 k [of st f "s_arg (src_at st i)" "Ev_io (pf_fd (s_pollfd (src_at st i)))"]
        slots_kept_refl [of st]
      by (auto split: if_splits)
    obtain r2 st2 where c2: "(case s_wfunc (src_at st1 i) of None \<Rightarrow> (0, st1)
        | Some wfunc \<Rightarrow> call wfunc (s_arg (src_at st1 i)) (Ev_io (pf_fd (s_pollfd (src_at st1 i)))) st1)
        = (r2, st2)"
      by fastforce
    have 2: "slots_kept st1 st2"
    proof (cases "s_wfunc (src_at st1 i)")
      case None
      with c2 show ?thesis by (simp add: slots_kept_refl)
    next
      case (Some wfunc)
      with c2 k [of st1 wfunc "s_arg (src_at st1 i)" "Ev_io (pf_fd (s_pollfd (src_at st1 i)))"]
      show ?thesis by simp
    qed
    note 3 = slots_kept_trans [OF 1 2]
    show ?thesis
      using 1 3 assms(2)
      by (auto simp: sys_call_io_def c1 c2 Let_def slots_kept_def src_at_upd)
  qed
  have "slot_kept (src_at st j) (src_at (snd (sys_dispatch call i st)) j) \<and>
      length (sources (snd (sys_dispatch call i st))) = length (sources st)"
    using k io by (auto simp: sys_dispatch_def slots_kept_def split: option.split sys_type.split)
  then show ?thesis using assms(2)
    by (cases "sys_dispatch call i st") (simp add: sys_callback_def src_at_upd)
qed

lemma io_step_keeps_others:
  assumes "acts_through_sys call" "j \<noteq> i"
  shows "slot_kept (src_at st j) (src_at (sys_io_step call lookup revents st i) j) \<and>
    length (sources (sys_io_step call lookup revents st i)) = length (sources st)"
proof (cases "lookup ! i")
  case None
  then show ?thesis by (simp add: sys_io_step_def)
next
  case (Some k)
  let ?st = "upd_source i (\<lambda>src. src\<lparr>s_pollfd := (s_pollfd src)\<lparr>pf_revents := revents k\<rparr>\<rparr>) st"
  have "src_at ?st j = src_at st j" using assms(2) by (simp add: src_at_upd)
  with callback_keeps_others [OF assms, of ?st] Some show ?thesis
    by (simp add: sys_io_step_def)
qed

lemma io_steps_keep_later:
  assumes "acts_through_sys call" "n \<le> j"
  shows "slot_kept (src_at st j) (src_at (foldl (sys_io_step call lookup revents) st [0..<n]) j)"
  using assms(2)
proof (induction n)
  case (Suc n)
  let ?s = "foldl (sys_io_step call lookup revents) st [0..<n]"
  have "slot_kept (src_at st j) (src_at ?s j)" using Suc by simp
  moreover have "slot_kept (src_at ?s j) (src_at (sys_io_step call lookup revents ?s n) j)"
    using io_step_keeps_others [OF assms(1), of j n ?s] Suc.prems by simp
  ultimately show ?case by (auto intro: slot_kept_trans)
qed simp

section \<open>A function no source refers to is not called\<close>

definition quiet :: "'f \<Rightarrow> ('f, 'a, 'z) world \<Rightarrow> bool" where
  "quiet f st \<longleftrightarrow> (\<forall>src\<in>set (sources st). s_func src \<noteq> Some f \<and> s_wfunc src \<noteq> Some f)"

definition same_but :: "'f \<Rightarrow> ('f, 'a, 'z) caller \<Rightarrow> ('f, 'a, 'z) caller \<Rightarrow> bool" where
  \<comment> \<open>the two environments differ in what \<open>f\<close> does only, and no other callback registers it\<close>
  "same_but f call call' \<longleftrightarrow>
     (\<forall>g a ev st. g \<noteq> f \<longrightarrow> call g a ev st = call' g a ev st \<and>
        (quiet f st \<and> length (sources st) = NSOURCES \<longrightarrow>
           quiet f (snd (call g a ev st)) \<and> length (sources (snd (call g a ev st))) = NSOURCES))"

definition calm :: "'f \<Rightarrow> ('f, 'a, 'z) world \<Rightarrow> bool" where
  "calm f st \<longleftrightarrow> quiet f st \<and> length (sources st) = NSOURCES"

lemma quiet_src: "calm f st \<Longrightarrow> i < NSOURCES \<Longrightarrow> s_func (src_at st i) \<noteq> Some f \<and> s_wfunc (src_at st i) \<noteq> Some f"
  by (auto simp: calm_def quiet_def src_at_def)

lemma calm_upd:
  assumes "calm f st"
    "\<And>src. s_func src \<noteq> Some f \<and> s_wfunc src \<noteq> Some f \<Longrightarrow>
       s_func (g src) \<noteq> Some f \<and> s_wfunc (g src) \<noteq> Some f"
  shows "calm f (upd_source i g st)"
proof (cases "i < length (sources st)")
  case True
  then have "sources st ! i \<in> set (sources st)" by simp
  then have "s_func (g (sources st ! i)) \<noteq> Some f \<and> s_wfunc (g (sources st ! i)) \<noteq> Some f"
    using assms by (auto simp: calm_def quiet_def)
  then show ?thesis
    using assms(1) by (auto simp: calm_def quiet_def upd_source_def map_nth_def
        dest!: set_update_subset_insert [THEN subsetD])
next
  case False
  with assms(1) show ?thesis by (simp add: upd_source_def)
qed

lemma calm_clear: "calm f st \<Longrightarrow> calm f (upd_source i (\<lambda>_. sys_source_clear) st)"
  by (rule calm_upd) (auto simp: sys_source_clear_def)

lemma calm_call:
  "same_but f call call' \<Longrightarrow> calm f st \<Longrightarrow> g \<noteq> f \<Longrightarrow>
   call g a ev st = call' g a ev st \<and> calm f (snd (call' g a ev st))"
  unfolding same_but_def calm_def by metis

lemma calm_foldl:
  "(\<And>s x. calm f s \<Longrightarrow> x \<in> set xs \<Longrightarrow> h s x = h' s x \<and> calm f (h' s x)) \<Longrightarrow> calm f st \<Longrightarrow>
   foldl h st xs = foldl h' st xs \<and> calm f (foldl h' st xs)"
  by (induction xs arbitrary: st) auto

lemma calm_call_io:
  assumes "same_but f call call'" "calm f st" "g \<noteq> f" "i < NSOURCES"
  shows "sys_call_io call i g st = sys_call_io call' i g st \<and> calm f (snd (sys_call_io call' i g st))"
proof -
  let ?c = "\<lambda>call. if pf_revents (s_pollfd (src_at st i)) AND POLL_READ \<noteq> 0
         then call g (s_arg (src_at st i)) (Ev_io (pf_fd (s_pollfd (src_at st i)))) st
         else (-1, st)"
  obtain r1 st1 where c1: "?c call' = (r1, st1)" by fastforce
  have 1: "?c call = (r1, st1)" "calm f st1"
    using c1 calm_call [OF assms(1-3)] assms(2) by (auto split: if_splits) (metis snd_conv)
  let ?d = "\<lambda>call. case s_wfunc (src_at st1 i) of None \<Rightarrow> (0, st1)
      | Some wfunc \<Rightarrow> call wfunc (s_arg (src_at st1 i)) (Ev_io (pf_fd (s_pollfd (src_at st1 i)))) st1"
  obtain r2 st2 where c2: "?d call' = (r2, st2)" by fastforce
  have 2: "?d call = (r2, st2)" "calm f st2"
  proof -
    have "?d call = ?d call' \<and> calm f (snd (?d call'))"
    proof (cases "s_wfunc (src_at st1 i)")
      case None
      with 1 show ?thesis by simp
    next
      case (Some wfunc)
      then have "wfunc \<noteq> f" using quiet_src [OF 1(2) assms(4)] by auto
      with Some calm_call [OF assms(1) 1(2)] show ?thesis by simp
    qed
    with c2 show "?d call = (r2, st2)" "calm f st2" by simp_all
  qed
  show ?thesis
    using 1 2 by (auto simp: sys_call_io_def c1 c2 Let_def intro!: calm_upd)
qed

lemma calm_callback:
  assumes "same_but f call call'" "calm f st" "i < NSOURCES"
  shows "sys_callback call i st = sys_callback call' i st \<and> calm f (snd (sys_callback call' i st))"
proof (cases "s_func (src_at st i)")
  case None
  then show ?thesis using assms(2) by (simp add: sys_callback_def sys_dispatch_def calm_clear)
next
  case (Some g)
  then have g: "g \<noteq> f" using quiet_src [OF assms(2,3)] by auto
  note c = calm_call [OF assms(1,2) g] and io = calm_call_io [OF assms(1,2) g assms(3)]
  have "sys_dispatch call i st = sys_dispatch call' i st \<and> calm f (snd (sys_dispatch call' i st))"
    using Some c io by (auto simp: sys_dispatch_def split: sys_type.split)
  then show ?thesis by (cases "sys_dispatch call' i st") (simp add: sys_callback_def calm_clear)
qed

lemma calm_timers:
  fixes f :: 'f and call call' :: "('f, 'a, 'z) caller"
  assumes "same_but f call call'" "calm f st"
  shows "sys_timers call now st = sys_timers call' now st \<and> calm f (sys_timers call' now st)"
  unfolding sys_timers_def
proof (rule calm_foldl [OF _ assms(2)])
  fix s :: "('f, 'a, 'z) world" and i assume s: "calm f s" "i \<in> set [0..<NSOURCES]"
  then have "i < NSOURCES" by simp
  note c = calm_callback [OF assms(1) s(1) this]
  show "sys_timer_step call now s i = sys_timer_step call' now s i \<and> calm f (sys_timer_step call' now s i)"
    using c s(1) by (auto simp: sys_timer_step_def split: prod.split intro!: calm_upd)
qed

lemma calm_poll_build:
  fixes st :: "('f, 'a, 'z) world"
  shows "calm f st \<Longrightarrow> calm f (pb_state (sys_poll_build now st))"
proof -
  have "calm f (pb_state (foldl (sys_poll_step now) pb is))"
    if "calm f (pb_state pb)" for pb :: "('f, 'a, 'z) world poll_build" and "is"
    using that
  proof (induction "is" arbitrary: pb)
    case (Cons i "is")
    have "calm f (pb_state (sys_poll_step now pb i))"
      using Cons.prems by (auto simp: sys_poll_step_def Let_def calm_clear intro!: calm_upd)
    then show ?case by (simp add: Cons.IH)
  qed simp
  then show "calm f st \<Longrightarrow> ?thesis" by (simp add: sys_poll_build_def)
qed

lemma calm_io:
  fixes f :: 'f and call call' :: "('f, 'a, 'z) caller"
  assumes "same_but f call call'" "calm f st"
  shows "foldl (sys_io_step call lookup revents) st [0..<NSOURCES] =
      foldl (sys_io_step call' lookup revents) st [0..<NSOURCES] \<and>
    calm f (foldl (sys_io_step call' lookup revents) st [0..<NSOURCES])"
proof (rule calm_foldl [OF _ assms(2)])
  fix s :: "('f, 'a, 'z) world" and i assume s: "calm f s" "i \<in> set [0..<NSOURCES]"
  show "sys_io_step call lookup revents s i = sys_io_step call' lookup revents s i \<and>
      calm f (sys_io_step call' lookup revents s i)"
  proof (cases "lookup ! i")
    case None
    with s show ?thesis by (simp add: sys_io_step_def)
  next
    case (Some k)
    have "calm f (upd_source i (\<lambda>src. src\<lparr>s_pollfd := (s_pollfd src)\<lparr>pf_revents := revents k\<rparr>\<rparr>) s)"
      using s(1) by (rule calm_upd) simp
    from calm_callback [OF assms(1) this, of i] s Some show ?thesis by (simp add: sys_io_step_def)
  qed
qed

lemma calm_waitpid:
  fixes f :: 'f and call call' :: "('f, 'a, 'z) caller"
  assumes "same_but f call call'" "calm f st"
  shows "sys_waitpid call dead st = sys_waitpid call' dead st \<and> calm f (sys_waitpid call' dead st)"
proof -
  have step: "sys_child_step call pid status s i = sys_child_step call' pid status s i \<and>
      calm f (sys_child_step call' pid status s i)" if "calm f s" "i \<in> set [0..<NSOURCES]"
    for pid status i and s :: "('f, 'a, 'z) world"
  proof -
    have "calm f (upd_source i (\<lambda>src. src\<lparr>s_status := status\<rparr>) s)"
      using that(1) by (rule calm_upd) simp
    from calm_callback [OF assms(1) this, of i] that show ?thesis
      by (simp add: sys_child_step_def calm_clear)
  qed
  have "(case x of (pid, status) \<Rightarrow> foldl (sys_child_step call pid status) s [0..<NSOURCES]) =
      (case x of (pid, status) \<Rightarrow> foldl (sys_child_step call' pid status) s [0..<NSOURCES]) \<and>
     calm f (case x of (pid, status) \<Rightarrow> foldl (sys_child_step call' pid status) s [0..<NSOURCES])"
    if "calm f s" for x and s :: "('f, 'a, 'z) world"
  proof (cases x)
    case (Pair pid status)
    have "foldl (sys_child_step call pid status) s [0..<NSOURCES] =
        foldl (sys_child_step call' pid status) s [0..<NSOURCES] \<and>
      calm f (foldl (sys_child_step call' pid status) s [0..<NSOURCES])"
      by (rule calm_foldl [OF step that])
    with Pair show ?thesis by simp
  qed
  then show ?thesis unfolding sys_waitpid_def by (intro calm_foldl [OF _ assms(2)]) auto
qed

lemma calm_iterate:
  assumes "same_but f call call'" "calm f st"
  shows "sys_iterate call inp st = sys_iterate call' inp st \<and> calm f (snd (sys_iterate call' inp st))"
proof -
  note t = calm_timers [OF assms, of "in_now inp"]
  let ?pb = "sys_poll_build (in_now inp) (sys_timers call' (in_now inp) st)"
  let ?st2 = "if in_signal inp then sys_quit (pb_state ?pb) else pb_state ?pb"
  have 2: "calm f ?st2"
    using calm_poll_build [OF t [THEN conjunct2]] by (simp add: calm_def quiet_def sys_quit_def)
  note w = calm_waitpid [OF assms(1) 2]
  have io: "sys_waitpid call dead (foldl (sys_io_step call lookup revents) ?st2 [0..<NSOURCES]) =
      sys_waitpid call' dead (foldl (sys_io_step call' lookup revents) ?st2 [0..<NSOURCES]) \<and>
      calm f (sys_waitpid call' dead (foldl (sys_io_step call' lookup revents) ?st2 [0..<NSOURCES]))"
    for dead lookup revents
    using calm_io [OF assms(1) 2, of lookup revents]
      calm_waitpid [OF assms(1) calm_io [OF assms(1) 2, of lookup revents, THEN conjunct2]]
    by simp
  show ?thesis
    using 2 w io assms(2) t
    by (cases "in_signal inp"; cases "in_poll inp") (simp_all add: sys_iterate_def Let_def)
qed

lemma calm_leave:
  fixes f :: 'f and call call' :: "('f, 'a, 'z) caller"
  assumes "same_but f call call'" "calm f st"
  shows "sys_leave call st = sys_leave call' st"
proof -
  have "foldl (sys_quit_step call) st [0..<NSOURCES] = foldl (sys_quit_step call') st [0..<NSOURCES] \<and>
      calm f (foldl (sys_quit_step call') st [0..<NSOURCES])"
  proof (rule calm_foldl [OF _ assms(2)])
    fix s :: "('f, 'a, 'z) world" and i assume "calm f s" "i \<in> set [0..<NSOURCES]"
    then show "sys_quit_step call s i = sys_quit_step call' s i \<and> calm f (sys_quit_step call' s i)"
      using calm_callback [OF assms(1), of s i] by (simp add: sys_quit_step_def calm_clear)
  qed
  then show ?thesis by (simp add: sys_leave_def)
qed

lemma calm_run:
  assumes "same_but f call call'" "calm f st"
  shows "sys_run call inps st = sys_run call' inps st"
  using assms(2)
proof (induction inps arbitrary: st)
  case Nil
  then show ?case by (simp add: sys_run.simps calm_leave [OF assms(1)])
next
  case (Cons inp inps)
  note it = calm_iterate [OF assms(1) Cons.prems, of inp]
  obtain brk st' where st': "sys_iterate call' inp st = (brk, st')" by fastforce
  with it have "calm f st'" by simp
  with Cons it st' show ?case
    by (simp add: sys_run.simps [of _ "inp # inps"] calm_leave [OF assms(1)])
qed

section \<open>Properties\<close>


definition rearming :: "(nat, unit, unit) caller" where
  \<comment> \<open>a callback that registers another timer on each call\<close>
  "rearming f a ev st = (1, snd (sys_timeout 5 10 (Some (Suc f)) a st))"

lemma acts_rearming: "acts_through_sys rearming"
  unfolding acts_through_sys_def rearming_def
  using steps_timeout [OF steps_refl] by fastforce


text \<open>
  On a well-formed table, registering a timer either reports 0 and changes nothing,
  because all 256 slots are taken, or returns a tag no source had, under which exactly the
  new source is found, armed at \<open>now + delay\<close>; removing that tag then disarms that source
  and no other.
\<close>

theorem sys_timeout_contract:
  assumes "sys_wf k st" "Suc k < 2 ^ 32"
  shows "case sys_timeout now delay func arg st of (tag, st') \<Rightarrow>
    (tag = 0 \<and> st' = st \<and> (\<forall>src\<in>set (sources st). s_tag src \<noteq> 0)) \<or>
    (tag \<noteq> 0 \<and> tag \<notin> s_tag ` set (sources st) \<and>
     (\<exists>i<NSOURCES. sys_retrieve tag st' = Some i \<and>
        s_type (src_at st' i) = SYS_TYPE_TIMEOUT \<and> s_t (src_at st' i) = now + delay \<and>
        s_func (src_at st' i) = func \<and>
        (\<forall>j. j \<noteq> i \<longrightarrow> src_at st' j = src_at st j) \<and>
        s_func (src_at (sys_remove tag st') i) = None \<and>
        (\<forall>j. j \<noteq> i \<longrightarrow> src_at (sys_remove tag st') j = src_at st j)))"
proof -
  let ?g = "\<lambda>src. src\<lparr>s_type := SYS_TYPE_TIMEOUT, s_delay := delay, s_t := delay + now\<rparr>"
  let ?new = "?g (sys_source_clear\<lparr>s_tag := last_tag st + 1, s_func := func, s_arg := arg\<rparr>)"
  have g: "\<And>src. s_tag (?g src) = s_tag src" by simp
  have "sys_wf (Suc k) (snd (sys_timeout now delay func arg st))"
    using sys_wf_op [OF assms] by blast
  show ?thesis
  proof (cases rule: sys_source_add_cases [of func arg st])
    case full
    then show ?thesis by (simp add: sys_timeout_def with_source_def)
  next
    case (slot i)
    let ?st = "upd_source i (\<lambda>_. ?new) (st\<lparr>last_tag := last_tag st + 1\<rparr>)"
    have r: "sys_timeout now delay func arg st = (last_tag st + 1, ?st)"
      using slot by (simp add: sys_timeout_def with_source_def Let_def)
        (simp add: upd_source_def map_nth_def)
    have i: "i < NSOURCES" using slot(1) assms(1) by (simp add: sys_wf_def)
    have len: "length (sources st) = NSOURCES" "unat (last_tag st) \<le> k"
      using assms(1) by (simp_all add: sys_wf_def)
    have u: "unat (last_tag st + 1) = unat (last_tag st) + 1"
      using len(2) assms(2) by (subst unat_add_lem [THEN iffD1]) simp_all
    have nz: "last_tag st + 1 \<noteq> 0" using u by (metis add_is_0 unat_0 zero_neq_one)
    have fresh: "s_tag (src_at st j) \<noteq> last_tag st + 1" if "j < NSOURCES" for j
      using assms(1) that u by (auto simp: sys_wf_def)
    then have notin: "last_tag st + 1 \<notin> s_tag ` set (sources st)"
      unfolding src_at_def using len(1) by (metis imageE in_set_conv_nth)
    have at: "src_at ?st j = (if j = i then ?new else src_at st j)" for j
      using slot(1) by (simp add: src_at_upd)
    have ret: "sys_retrieve (last_tag st + 1) ?st = Some i"
      unfolding sys_retrieve_def find_index_Some_iff
      using i len(1) fresh at by (auto simp: src_at_def)
    have rm: "src_at (sys_remove (last_tag st + 1) ?st) j =
        (if j = i then ?new\<lparr>s_type := SYS_TYPE_REMOVED, s_func := None, s_wfunc := None, s_arg := None\<rparr>
         else src_at st j)" for j
      using slot(1) by (simp add: sys_remove_def ret src_at_upd)
    show ?thesis
      using i nz notin by (simp add: r ret at rm)
  qed
qed

theorem sys_timeout_contract_witness:
  "case sys_timeout 100 20 (Some ''tick'') (None :: unit option) sys_start of (tag, st') \<Rightarrow>
    (tag = 0 \<and> st' = (sys_start :: (string, unit) sys_state) \<and>
       (\<forall>src\<in>set (sources (sys_start :: (string, unit) sys_state)). s_tag src \<noteq> 0)) \<or>
    (tag \<noteq> 0 \<and> tag \<notin> s_tag ` set (sources (sys_start :: (string, unit) sys_state)) \<and>
     (\<exists>i<NSOURCES. sys_retrieve tag st' = Some i \<and>
        s_type (src_at st' i) = SYS_TYPE_TIMEOUT \<and> s_t (src_at st' i) = 100 + 20 \<and>
        s_func (src_at st' i) = Some ''tick'' \<and>
        (\<forall>j. j \<noteq> i \<longrightarrow> src_at st' j = src_at sys_start j) \<and>
        s_func (src_at (sys_remove tag st') i) = None \<and>
        (\<forall>j. j \<noteq> i \<longrightarrow> src_at (sys_remove tag st') j = src_at sys_start j)))"
  by (rule sys_timeout_contract [OF sys_wf_start]) simp

text \<open>
  C22: Slots are reused while an iteration runs, yet an I/O event is only ever handed to the
  source it was polled for: when slot \<open>i\<close> is examined after \<open>poll\<close>, a source of type I/O
  that has an entry in the poll set still has the tag and the descriptor it had when the
  set was built.
\<close>

theorem sys_io_events_own:
  assumes "acts_through_sys call" "length (sources st) = NSOURCES"
    and "\<forall>i<NSOURCES. s_type (src_at st i) = SYS_TYPE_IO \<longrightarrow> s_tag (src_at st i) \<noteq> 0"
    and "i < NSOURCES"
    and "pb_lookup (sys_poll_build now st) ! i = Some k"
    and "s_type (src_at (foldl (sys_io_step call (pb_lookup (sys_poll_build now st)) revents)
           (pb_state (sys_poll_build now st)) [0..<i]) i) = SYS_TYPE_IO"
  shows "k < length (pb_fds (sys_poll_build now st)) \<and>
    (let src = src_at (foldl (sys_io_step call (pb_lookup (sys_poll_build now st)) revents)
           (pb_state (sys_poll_build now st)) [0..<i]) i
     in s_tag src = s_tag (src_at st i) \<and>
        pf_fd (s_pollfd src) = pf_fd (pb_fds (sys_poll_build now st) ! k))"
proof -
  let ?pb = "sys_poll_build now st"
  note b = build_upto_spec [of NSOURCES st now, folded sys_poll_build_upto]
  have lk: "pb_lookup ?pb ! i = (if is_io st i then Some (length (filter (is_io st) [0..<i])) else None)"
    using b assms(2,4) by simp
  then have io: "is_io st i" and k: "k = length (filter (is_io st) [0..<i])"
    using assms(5) by (auto split: if_splits)
  have split: "filter (is_io st) [0..<NSOURCES] =
      filter (is_io st) [0..<i] @ i # filter (is_io st) [Suc i..<NSOURCES]"
  proof -
    have "[0..<NSOURCES] = [0..<i] @ i # [Suc i..<NSOURCES]"
      using assms(4) upt_add_eq_append [of 0 i "NSOURCES - i"] upt_conv_Cons [of i NSOURCES] by simp
    then show ?thesis using io by simp
  qed
  have fds: "pb_fds ?pb = map (\<lambda>i. polled (src_at st i)) (filter (is_io st) [0..<NSOURCES])"
    using b assms(2) by simp
  have kf: "k < length (pb_fds ?pb)" "pb_fds ?pb ! k = polled (src_at st i)"
    unfolding fds split by (simp_all add: k nth_append)
  have s: "src_at (pb_state ?pb) i = (src_at st i)\<lparr>s_pollfd := polled (src_at st i)\<rparr>"
    using b assms(2,4) io by (simp add: after_build_def is_io_def)
  have "s_tag (src_at st i) \<noteq> 0" using assms(3,4) io by (simp add: is_io_def)
  with io_steps_keep_later [OF assms(1), of i i "pb_state ?pb" "pb_lookup ?pb" revents] kf s
  show ?thesis by (simp add: slot_kept_def polled_def Let_def)
qed

definition socket_source :: "sys_tag \<Rightarrow> int \<Rightarrow> nat \<Rightarrow> (nat, unit) sys_source" where
  "socket_source tag fd f =
     sys_source_clear\<lparr>s_tag := tag, s_func := Some f, s_type := SYS_TYPE_IO,
       s_pollfd := \<lparr>pf_fd = fd, pf_events = POLL_READ, pf_revents = 0\<rparr>\<rparr>"

definition two_sockets :: "(nat, unit) sys_state" where
  "two_sockets =
     \<lparr>sources = socket_source 1 4 0 # socket_source 2 5 1 # replicate 254 sys_source_clear,
      last_tag = 2, quit_requested = False\<rparr>"

lemma two_sockets_sources:
  "src_at two_sockets 0 = socket_source 1 4 0"
  "length (sources two_sockets) = NSOURCES"
  "\<forall>i<NSOURCES. s_type (src_at two_sockets i) = SYS_TYPE_IO \<longrightarrow> s_tag (src_at two_sockets i) \<noteq> 0"
  by (auto simp: src_at_def two_sockets_def NSOURCES_def nth_Cons socket_source_def
      sys_source_clear_def split: nat.split)

theorem sys_io_events_own_witness:
  "0 < length (pb_fds (sys_poll_build 9 two_sockets)) \<and>
    (let src = src_at (foldl (sys_io_step rearming (pb_lookup (sys_poll_build 9 two_sockets)) (\<lambda>_. POLLIN))
           (pb_state (sys_poll_build 9 two_sockets)) [0..<0]) 0
     in s_tag src = s_tag (src_at two_sockets 0) \<and>
        pf_fd (s_pollfd src) = pf_fd (pb_fds (sys_poll_build 9 two_sockets) ! 0))"
proof -
  note b = build_upto_spec [of NSOURCES two_sockets 9, folded sys_poll_build_upto]
  have io: "is_io two_sockets 0" by (simp add: is_io_def two_sockets_sources socket_source_def)
  have lk: "pb_lookup (sys_poll_build 9 two_sockets) ! 0 = Some 0"
    using b io by (simp add: two_sockets_sources(2) NSOURCES_def)
  have ty: "s_type (src_at (foldl (sys_io_step rearming (pb_lookup (sys_poll_build 9 two_sockets)) (\<lambda>_. POLLIN))
           (pb_state (sys_poll_build 9 two_sockets)) [0..<0]) 0) = SYS_TYPE_IO"
    using b by (simp add: two_sockets_sources(1,2) socket_source_def NSOURCES_def after_build_def)
  show ?thesis
    by (rule sys_io_events_own [OF acts_rearming two_sockets_sources(2,3) _ lk ty])
      (simp add: NSOURCES_def)
qed

text \<open>
  The time \<open>poll\<close> is given is the shortest delay to a timer that expires after the
  clock value read at the start of the iteration, and -1 (no limit) when there is none;
  timers that have already expired do not count, so a timer armed with delay 0 by a timer
  callback in a slot already passed leaves the loop sleeping until some I/O happens.
\<close>

theorem sys_poll_timeout_spec:
  assumes "length (sources st) = NSOURCES"
    and "\<forall>i<NSOURCES. s_type (src_at st i) = SYS_TYPE_TIMEOUT \<and> now < s_t (src_at st i) \<longrightarrow>
      unat (s_t (src_at st i) - now) < 2 ^ 31"
  shows "sys_poll_timeout (pb_timeout (sys_poll_build now st)) =
    (let ds = {int (unat (s_t src - now)) | src.
                 src \<in> set (sources st) \<and> s_type src = SYS_TYPE_TIMEOUT \<and> now < s_t src}
     in if ds = {} then -1 else Min ds)"
proof -
  have sint: "sint (s_t (src_at st i) - now) = int (unat (s_t (src_at st i) - now))"
    if "i < NSOURCES" "s_type (src_at st i) = SYS_TYPE_TIMEOUT" "now < s_t (src_at st i)" for i
  proof -
    have "unat (s_t (src_at st i) - now) < 2 ^ 31" using assms(2) that by blast
    then have "int (unat (s_t (src_at st i) - now)) < int (2 ^ 31)"
      by (simp only: of_nat_less_iff)
    then have "uint (s_t (src_at st i) - now) < 2 ^ 31" by simp
    then have "uint (s_t (src_at st i) - now) < 2 ^ (LENGTH(64) - 1)" by simp
    then have "sint (s_t (src_at st i) - now) = uint (s_t (src_at st i) - now)"
      using order_trans [of "- (2 ^ 63)" 0 "uint (s_t (src_at st i) - now)"]
      by (simp add: sint_uint signed_take_bit_int_eq_self)
    then show ?thesis by simp
  qed
  let ?ds = "{int (unat (s_t src - now)) | src.
      src \<in> set (sources st) \<and> s_type src = SYS_TYPE_TIMEOUT \<and> now < s_t src}"
  have ds: "set (ahead now st NSOURCES) = ?ds"
  proof -
    have "set (sources st) = (\<lambda>i. src_at st i) ` {..<NSOURCES}"
      using assms(1) by (auto simp: src_at_def set_conv_nth)
    then have "?ds = (\<lambda>i. int (unat (s_t (src_at st i) - now))) `
        {i. i < NSOURCES \<and> s_type (src_at st i) = SYS_TYPE_TIMEOUT \<and> now < s_t (src_at st i)}"
      by auto
    also have "\<dots> = (\<lambda>i. sint (s_t (src_at st i) - now)) `
        {i. i < NSOURCES \<and> s_type (src_at st i) = SYS_TYPE_TIMEOUT \<and> now < s_t (src_at st i)}"
      by (rule image_cong) (simp_all add: sint)
    also have "\<dots> = set (ahead now st NSOURCES)" by (auto simp: ahead_def)
    finally show ?thesis by simp
  qed
  have pos: "\<forall>d\<in>set (ahead now st NSOURCES). 0 \<le> d" unfolding ds by auto
  have t: "pb_timeout (sys_poll_build now st) =
      (if ahead now st NSOURCES = [] then -1 else Min (set (ahead now st NSOURCES)))"
    using build_timeout [OF _ pos] assms(1) by (simp add: sys_poll_build_upto)
  show ?thesis
  proof (cases "ahead now st NSOURCES = []")
    case True
    then have "?ds = {}" using ds by simp
    with True t show ?thesis by (simp add: Let_def sys_poll_timeout_def to_int32_def)
  next
    case False
    then have ne: "?ds \<noteq> {}" unfolding ds [symmetric] by simp
    have "finite ?ds" unfolding ds [symmetric] by simp
    then have m: "Min ?ds \<in> ?ds" using ne by (rule Min_in)
    then obtain src where src: "Min ?ds = int (unat (s_t src - now))" "src \<in> set (sources st)"
        "s_type src = SYS_TYPE_TIMEOUT" "now < s_t src"
      by blast
    then obtain i where "i < NSOURCES" "src = src_at st i"
      using assms(1) by (metis in_set_conv_nth src_at_def)
    with src assms(2) have "unat (s_t src - now) < 2 ^ 31" by blast
    then have "int (unat (s_t src - now)) < int (2 ^ 31)" by (simp only: of_nat_less_iff)
    then have "0 \<le> Min ?ds \<and> Min ?ds < 2 ^ 31" unfolding src(1) by simp
    then have "sys_poll_timeout (Min ?ds) = Min ?ds"
      unfolding sys_poll_timeout_def by (intro to_int32_id) auto
    moreover have "pb_timeout (sys_poll_build now st) = Min ?ds"
      using False t by (simp only: ds if_False)
    ultimately show ?thesis using ne by (simp only: Let_def if_False)
  qed
qed

definition one_timer :: "64 word \<Rightarrow> (nat, unit) sys_state" where
  "one_timer t =
     \<lparr>sources = sys_source_clear\<lparr>s_tag := 1, s_func := Some 0, s_type := SYS_TYPE_TIMEOUT, s_t := t\<rparr>
                # replicate 255 sys_source_clear,
      last_tag = 1, quit_requested = False\<rparr>"

lemma one_timer_sources:
  "length (sources (one_timer t)) = NSOURCES"
  "s_type (src_at (one_timer t) 0) = SYS_TYPE_TIMEOUT" "s_t (src_at (one_timer t) 0) = t"
  "i < NSOURCES \<Longrightarrow> s_type (src_at (one_timer t) i) = SYS_TYPE_TIMEOUT \<Longrightarrow> i = 0"
  by (auto simp: src_at_def one_timer_def NSOURCES_def nth_Cons sys_source_clear_def
      split: nat.splits)

theorem sys_poll_timeout_spec_witness:
  "sys_poll_timeout (pb_timeout (sys_poll_build 100 (one_timer 150))) =
    (let ds = {int (unat (s_t src - 100)) | src.
                 src \<in> set (sources (one_timer 150)) \<and> s_type src = SYS_TYPE_TIMEOUT \<and> 100 < s_t src}
     in if ds = {} then -1 else Min ds)"
proof (rule sys_poll_timeout_spec)
  show "length (sources (one_timer 150)) = NSOURCES" by (rule one_timer_sources)
  show "\<forall>i<NSOURCES. s_type (src_at (one_timer 150) i) = SYS_TYPE_TIMEOUT \<and>
      100 < s_t (src_at (one_timer 150) i) \<longrightarrow> unat (s_t (src_at (one_timer 150) i) - 100) < 2 ^ 31"
  proof (intro allI impI)
    fix i
    assume "i < NSOURCES" "s_type (src_at (one_timer 150) i) = SYS_TYPE_TIMEOUT \<and>
      100 < s_t (src_at (one_timer 150) i)"
    then have "i = 0" using one_timer_sources(4) by blast
    then show "unat (s_t (src_at (one_timer 150) i) - 100) < 2 ^ 31"
      by (simp add: one_timer_sources(3))
  qed
qed

text \<open>
  C23: After \<open>sys_remove\<close> of the only source that refers to a function, that function is
  never called again by the loop, however long it runs: the run is the same whatever the
  function would do, provided no other callback registers it.
\<close>

theorem sys_remove_stops_calls:
  assumes "same_but f call call'" "length (sources st) = NSOURCES"
    and "\<forall>j<NSOURCES. s_tag (src_at st j) \<noteq> tag \<longrightarrow>
      s_func (src_at st j) \<noteq> Some f \<and> s_wfunc (src_at st j) \<noteq> Some f"
    and "\<forall>i<NSOURCES. \<forall>j<NSOURCES. s_tag (src_at st i) = tag \<and> s_tag (src_at st j) = tag \<longrightarrow> i = j"
  shows "sys_run call inps (sys_remove tag st) = sys_run call' inps (sys_remove tag st)"
proof (rule calm_run [OF assms(1)])
  have q: "s_func (src_at (sys_remove tag st) j) \<noteq> Some f \<and> s_wfunc (src_at (sys_remove tag st) j) \<noteq> Some f"
    if j: "j < NSOURCES" for j
  proof (cases "sys_retrieve tag st")
    case None
    then have "s_tag (src_at st j) \<noteq> tag"
      using j assms(2) by (simp add: sys_retrieve_def find_index_None_iff src_at_def)
    with None assms(3) j show ?thesis by (simp add: sys_remove_def)
  next
    case (Some i)
    then have i: "i < NSOURCES" "s_tag (src_at st i) = tag"
      using assms(2) find_index_SomeD unfolding sys_retrieve_def src_at_def by fastforce+
    show ?thesis
    proof (cases "j = i")
      case True
      with Some j assms(2) show ?thesis by (simp add: sys_remove_def src_at_upd)
    next
      case False
      then have "s_tag (src_at st j) \<noteq> tag" using i j assms(4) by blast
      with False Some j assms(3) show ?thesis by (simp add: sys_remove_def src_at_upd)
    qed
  qed
  have l: "length (sources (sys_remove tag st)) = NSOURCES"
    using assms(2) by (simp add: sys_remove_def split: option.split)
  show "calm f (sys_remove tag st)"
    using q l unfolding calm_def quiet_def src_at_def by (metis in_set_conv_nth)
qed

definition quitting :: "(nat, unit, unit) caller" where
  \<comment> \<open>a callback that asks the program to quit\<close>
  "quitting f a ev st = (1, sys_quit st)"

theorem sys_remove_stops_calls_witness:
  "sys_run quitting [\<lparr>in_now = 200, in_poll = Poll_interrupted, in_dead = [], in_signal = False\<rparr>]
     (sys_remove 1 (one_timer 150)) =
   sys_run (\<lambda>f. if f = 0 then rearming f else quitting f)
     [\<lparr>in_now = 200, in_poll = Poll_interrupted, in_dead = [], in_signal = False\<rparr>]
     (sys_remove 1 (one_timer 150))"
proof (rule sys_remove_stops_calls [where f = 0])
  show "same_but 0 quitting (\<lambda>f. if f = 0 then rearming f else quitting f)"
    by (auto simp: same_but_def quitting_def quiet_def sys_quit_def)
  have at: "src_at (one_timer 150) i = (if i = 0 then sys_source_clear\<lparr>s_tag := 1, s_func := Some 0,
      s_type := SYS_TYPE_TIMEOUT, s_t := 150\<rparr> else sys_source_clear)" if "i < NSOURCES" for i
    using that by (auto simp: src_at_def one_timer_def NSOURCES_def nth_Cons split: nat.split)
  show "\<forall>j<NSOURCES. s_tag (src_at (one_timer 150) j) \<noteq> 1 \<longrightarrow>
      s_func (src_at (one_timer 150) j) \<noteq> Some 0 \<and> s_wfunc (src_at (one_timer 150) j) \<noteq> Some 0"
    by (auto simp: at sys_source_clear_def)
  show "\<forall>i<NSOURCES. \<forall>j<NSOURCES. s_tag (src_at (one_timer 150) i) = 1 \<and>
      s_tag (src_at (one_timer 150) j) = 1 \<longrightarrow> i = j"
    by (auto simp: at sys_source_clear_def split: if_splits)
qed (rule one_timer_sources)

text \<open>
  The registration that wraps the 32-bit tag counter around gets tag 0: the caller is
  told it failed, yet the source is armed, and since its slot counts as free the next
  registration silently replaces it.
\<close>

theorem sys_tag_wraps_to_zero:
  assumes "last_tag st = -1" "find_index (\<lambda>src. s_tag src = 0) (sources st) = Some i"
  shows "case sys_timeout now1 d1 func1 arg1 st of (tag1, st1) \<Rightarrow>
    tag1 = 0 \<and> s_type (src_at st1 i) = SYS_TYPE_TIMEOUT \<and> s_func (src_at st1 i) = func1 \<and>
    (case sys_timeout now2 d2 func2 arg2 st1 of (tag2, st2) \<Rightarrow>
       tag2 = 1 \<and> s_func (src_at st2 i) = func2)"
proof -
  have i: "i < length (sources st)" "\<forall>j<i. s_tag (sources st ! j) \<noteq> 0"
    using find_index_SomeD [OF assms(2)] by auto
  let ?new = "sys_source_clear\<lparr>s_tag := 0, s_func := func1, s_arg := arg1,
      s_type := SYS_TYPE_TIMEOUT, s_delay := d1, s_t := d1 + now1\<rparr>"
  let ?st1 = "upd_source i (\<lambda>_. ?new) (st\<lparr>last_tag := 0\<rparr>)"
  have r1: "sys_timeout now1 d1 func1 arg1 st = (0, ?st1)"
    using i assms by (simp add: sys_timeout_def sys_source_add_def with_source_def Let_def)
      (simp add: upd_source_def map_nth_def)
  have f: "find_index (\<lambda>src. s_tag src = 0) (sources ?st1) = Some i"
    using i by (auto simp: find_index_Some_iff upd_source_def map_nth_def nth_list_update)
  have r2: "fst (sys_timeout now2 d2 func2 arg2 ?st1) = 1"
    "s_func (src_at (snd (sys_timeout now2 d2 func2 arg2 ?st1)) i) = func2"
    using i f by (simp_all add: sys_timeout_def sys_source_add_def with_source_def Let_def)
      (simp_all add: upd_source_def map_nth_def src_at_def)
  from r2 i show ?thesis by (simp add: r1 src_at_upd case_prod_beta)
qed

theorem sys_tag_wraps_to_zero_witness:
  "case sys_timeout 10 20 (Some 3) None ((one_timer 5)\<lparr>last_tag := -1\<rparr>) of (tag1, st1) \<Rightarrow>
    tag1 = 0 \<and> s_type (src_at st1 1) = SYS_TYPE_TIMEOUT \<and> s_func (src_at st1 1) = Some 3 \<and>
    (case sys_timeout 11 30 (Some 4) None st1 of (tag2, st2) \<Rightarrow>
       tag2 = 1 \<and> s_func (src_at st2 1) = Some 4)"
  by (rule sys_tag_wraps_to_zero)
    (simp_all add: one_timer_def sys_source_clear_def replicate_Suc [of 254, simplified])

end
