(* ===== verification/Hk_Mod.thy ===== *)
theory Hk_Mod
  imports Hk_Prop Hk_Sys
begin

text \<open>
  \<^verbatim>\<open>core/mod.c\<close>: classes, pads, nets, objects and tiles. Pads, nets, objects and tiles live
  in stores and are referred to by their number, as the C code refers to them by address;
  the tables of the code are lists of such references in table order. The state extends
  that of the event loop, because classes arm timers; \<open>hk_clock\<close> is what \<open>sys_now\<close>
  returns when they do.

  The methods of a class are functions of the update routine they may call back
  (\<open>hk_pad_update_str\<close>), so that signal propagation is mutually recursive as in C. It
  runs with fuel; \<open>None\<close> is a propagation that does not return (unbounded recursion).
\<close>

section \<open>State\<close>

datatype hk_pad_dir = HK_PAD_IN | HK_PAD_OUT | HK_PAD_IO

record hk_pad =
  p_obj :: nat
  p_dir :: hk_pad_dir
  p_name :: string
  p_value :: "string option" \<comment> \<open>\<open>None\<close>: the buffer has no block yet\<close>
  p_net :: "nat option"
  p_lock :: bool
  p_state :: int

record hk_net =
  n_id :: nat
  n_pads :: "nat list"

record 'c hk_obj =
  o_name :: string
  o_tile :: nat
  o_class :: string
  o_props :: hk_prop
  o_pads :: "nat list"
  o_ctx :: "'c option"

record hk_tile =
  t_dir :: string
  t_name :: string
  t_fname :: string
  t_objs :: "nat list"
  t_nets :: "nat list"

record 'c hk_state = "(string, nat) sys_state" +
  hk_clock :: "64 word"
  classes :: "string list"
  pads :: "hk_pad list"
  nets :: "hk_net list"
  objs :: "'c hk_obj list"
  tiles :: "hk_tile list"
  tile_tab :: "nat option list" \<comment> \<open>the table \<open>tiles\<close>, with its NULL entries\<close>

type_synonym ('c, 'z) hk = "('c, 'z) hk_state_scheme"

type_synonym 'w updater = "nat \<Rightarrow> string \<Rightarrow> 'w \<Rightarrow> 'w option"

record 'w hk_class =
  m_new :: "(nat \<Rightarrow> 'w \<Rightarrow> (int \<times> 'w) option) option"
  m_start :: "(nat \<Rightarrow> 'w \<Rightarrow> 'w option) option"
  m_input :: "(nat \<Rightarrow> string \<Rightarrow> 'w \<Rightarrow> 'w option) option"

type_synonym 'w class_table = "'w updater \<Rightarrow> string \<Rightarrow> 'w hk_class"

abbreviation pad_at :: "('c, 'z) hk \<Rightarrow> nat \<Rightarrow> hk_pad" where "pad_at st p \<equiv> pads st ! p"
abbreviation net_at :: "('c, 'z) hk \<Rightarrow> nat \<Rightarrow> hk_net" where "net_at st n \<equiv> nets st ! n"
abbreviation obj_at :: "('c, 'z) hk \<Rightarrow> nat \<Rightarrow> 'c hk_obj" where "obj_at st j \<equiv> objs st ! j"
abbreviation tile_at :: "('c, 'z) hk \<Rightarrow> nat \<Rightarrow> hk_tile" where "tile_at st t \<equiv> tiles st ! t"

definition upd_pad :: "nat \<Rightarrow> (hk_pad \<Rightarrow> hk_pad) \<Rightarrow> ('c, 'z) hk \<Rightarrow> ('c, 'z) hk" where
  "upd_pad p g st = st\<lparr>pads := map_nth p g (pads st)\<rparr>"

definition upd_net :: "nat \<Rightarrow> (hk_net \<Rightarrow> hk_net) \<Rightarrow> ('c, 'z) hk \<Rightarrow> ('c, 'z) hk" where
  "upd_net n g st = st\<lparr>nets := map_nth n g (nets st)\<rparr>"

definition upd_obj :: "nat \<Rightarrow> ('c hk_obj \<Rightarrow> 'c hk_obj) \<Rightarrow> ('c, 'z) hk \<Rightarrow> ('c, 'z) hk" where
  "upd_obj j g st = st\<lparr>objs := map_nth j g (objs st)\<rparr>"

definition upd_tile :: "nat \<Rightarrow> (hk_tile \<Rightarrow> hk_tile) \<Rightarrow> ('c, 'z) hk \<Rightarrow> ('c, 'z) hk" where
  "upd_tile t g st = st\<lparr>tiles := map_nth t g (tiles st)\<rparr>"

section \<open>Classes\<close>

definition hk_class_find :: "string \<Rightarrow> ('c, 'z) hk \<Rightarrow> string option" where
  "hk_class_find name st = (if name \<in> set (classes st) then Some name else None)"

definition hk_class_register :: "string \<Rightarrow> ('c, 'z) hk \<Rightarrow> int \<times> ('c, 'z) hk" where
  "hk_class_register name st =
     (if hk_class_find name st \<noteq> None then (-1, st)
      else (0, st\<lparr>classes := classes st @ [name]\<rparr>))"

section \<open>Pads\<close>

definition PAD_NAME_SIZE :: nat where "PAD_NAME_SIZE = 64"

definition hk_pad_create :: "nat \<Rightarrow> hk_pad_dir \<Rightarrow> string \<Rightarrow> ('c, 'z) hk \<Rightarrow> nat \<times> ('c, 'z) hk" where
  \<comment> \<open>\<open>text\<close> is the formatted name, cut to \<open>name[64]\<close>\<close>
  "hk_pad_create obj dir text st =
     (let p = length (pads st);
          pad = \<lparr>p_obj = obj, p_dir = dir, p_name = take (PAD_NAME_SIZE - 1) text,
                 p_value = None, p_net = None, p_lock = False, p_state = 0\<rparr>
      in (p, upd_obj obj (\<lambda>ob. ob\<lparr>o_pads := o_pads ob @ [p]\<rparr>) (st\<lparr>pads := pads st @ [pad]\<rparr>)))"

definition find_ref :: "('a \<Rightarrow> bool) \<Rightarrow> (nat \<Rightarrow> 'a) \<Rightarrow> nat list \<Rightarrow> nat option" where
  \<comment> \<open>the first reference of a table whose target matches\<close>
  "find_ref P at refs = map_option (\<lambda>i. refs ! i) (find_index (\<lambda>r. P (at r)) refs)"

definition hk_pad_find :: "nat \<Rightarrow> string \<Rightarrow> ('c, 'z) hk \<Rightarrow> nat option" where
  "hk_pad_find obj name st =
     find_ref (\<lambda>pad. p_name pad = name) (pad_at st) (o_pads (obj_at st obj))"

definition hk_pad_update_input ::
    "(('c, 'z) hk) class_table \<Rightarrow> (('c, 'z) hk) updater \<Rightarrow> nat \<Rightarrow> string \<Rightarrow> ('c, 'z) hk
      \<Rightarrow> (('c, 'z) hk) option" where
  \<comment> \<open>\<open>upd\<close> is the update routine the class may call back\<close>
  "hk_pad_update_input cls upd pad value st =
     (if p_lock (pad_at st pad) then Some st
      else case m_input (cls upd (o_class (obj_at st (p_obj (pad_at st pad))))) of
             None \<Rightarrow> Some st
           | Some f \<Rightarrow>
               map_option (upd_pad pad (\<lambda>p. p\<lparr>p_lock := False\<rparr>))
                 (f pad value (upd_pad pad (\<lambda>p. p\<lparr>p_lock := True\<rparr>) st)))"

definition hk_pad_forward ::
    "(('c, 'z) hk) class_table \<Rightarrow> (('c, 'z) hk) updater \<Rightarrow> nat \<Rightarrow> string \<Rightarrow> ('c, 'z) hk \<Rightarrow> nat
      \<Rightarrow> (('c, 'z) hk) option" where
  \<comment> \<open>the body of the loop over the pads of the net\<close>
  "hk_pad_forward cls upd pad value st pad2 =
     (if pad2 \<noteq> pad \<and> p_dir (pad_at st pad2) \<noteq> HK_PAD_OUT
      then hk_pad_update_input cls upd pad2 value st
      else Some st)"

primrec hk_pad_update_str ::
    "(('c, 'z) hk) class_table \<Rightarrow> nat \<Rightarrow> nat \<Rightarrow> string \<Rightarrow> ('c, 'z) hk \<Rightarrow> (('c, 'z) hk) option" where
  "hk_pad_update_str cls 0 pad value st = None"
| "hk_pad_update_str cls (Suc n) pad value st =
     (let st1 = upd_pad pad (\<lambda>p. p\<lparr>p_value := Some value\<rparr>) st
      in case p_net (pad_at st pad) of
           None \<Rightarrow> Some st1
         | Some net \<Rightarrow>
             map_option (upd_pad pad (\<lambda>p. p\<lparr>p_lock := False\<rparr>))
               (foldo (hk_pad_forward cls (hk_pad_update_str cls n) pad value)
                 (upd_pad pad (\<lambda>p. p\<lparr>p_lock := True\<rparr>) st1) (n_pads (net_at st net))))"

definition hk_pad_update_int :: "'w updater \<Rightarrow> nat \<Rightarrow> int \<Rightarrow> 'w \<Rightarrow> 'w option" where
  \<comment> \<open>\<open>%d\<close> of an \<open>int\<close> fits in \<open>str[20]\<close>\<close>
  "hk_pad_update_int upd pad value st = upd pad (int_dec value) st"

definition hk_pad_is_connected :: "nat \<Rightarrow> ('c, 'z) hk \<Rightarrow> bool" where
  "hk_pad_is_connected pad st \<longleftrightarrow> p_net (pad_at st pad) \<noteq> None"

section \<open>Nets\<close>

definition hk_net_create :: "nat \<Rightarrow> ('c, 'z) hk \<Rightarrow> nat \<times> ('c, 'z) hk" where
  \<comment> \<open>a net with id 0 is recycled; in both cases it is pushed onto the table of the tile\<close>
  "hk_net_create tile st =
     (let tab = t_nets (tile_at st tile);
          (net, st) =
            (case find_index (\<lambda>n. n_id (net_at st n) = 0) tab of
               Some i \<Rightarrow> (tab ! i, upd_net (tab ! i) (\<lambda>n. n\<lparr>n_id := i + 1\<rparr>) st)
             | None \<Rightarrow> (length (nets st),
                         st\<lparr>nets := nets st @ [\<lparr>n_id = length tab + 1, n_pads = []\<rparr>]\<rparr>))
      in (net, upd_tile tile (\<lambda>t. t\<lparr>t_nets := t_nets t @ [net]\<rparr>) st))"

definition hk_net_connect :: "nat \<Rightarrow> nat \<Rightarrow> ('c, 'z) hk \<Rightarrow> int \<times> ('c, 'z) hk" where
  "hk_net_connect net pad st =
     (if p_net (pad_at st pad) \<noteq> None then (0, st)
      else (1, upd_pad pad (\<lambda>p. p\<lparr>p_net := Some net\<rparr>)
                 (upd_net net (\<lambda>n. n\<lparr>n_pads := n_pads n @ [pad]\<rparr>) st)))"

definition hk_net_merge :: "nat \<Rightarrow> nat \<Rightarrow> ('c, 'z) hk \<Rightarrow> ('c, 'z) hk" where
  "hk_net_merge net1 net2 st =
     (if net1 = net2 then st
      else
        let st = foldl (\<lambda>st pad2. snd (hk_net_connect net1 pad2 (upd_pad pad2 (\<lambda>p. p\<lparr>p_net := None\<rparr>) st)))
                   st (n_pads (net_at st net2))
        in upd_net net2 (\<lambda>n. n\<lparr>n_id := 0, n_pads := []\<rparr>) st)"

section \<open>Objects\<close>

definition hk_obj_find :: "nat \<Rightarrow> string \<Rightarrow> ('c, 'z) hk \<Rightarrow> nat option" where
  "hk_obj_find tile name st =
     find_ref (\<lambda>ob. o_name ob = name) (obj_at st) (t_objs (tile_at st tile))"

definition hk_obj_prop_set :: "nat \<Rightarrow> string \<Rightarrow> string \<Rightarrow> ('c, 'z) hk \<Rightarrow> ('c, 'z) hk" where
  "hk_obj_prop_set obj name value st =
     upd_obj obj (\<lambda>ob. ob\<lparr>o_props := hk_prop_set (o_props ob) name value\<rparr>) st"

definition hk_obj_prop_get :: "nat \<Rightarrow> string \<Rightarrow> ('c, 'z) hk \<Rightarrow> string option" where
  "hk_obj_prop_get obj name st = hk_prop_get (o_props (obj_at st obj)) name"

definition hk_obj_prop_get_int :: "nat \<Rightarrow> string \<Rightarrow> ('c, 'z) hk \<Rightarrow> int" where
  "hk_obj_prop_get_int obj name st = hk_prop_get_int (o_props (obj_at st obj)) name"

definition hk_obj_prop_foreach ::
    "nat \<Rightarrow> ('s \<Rightarrow> string \<Rightarrow> string option \<Rightarrow> int \<times> 's) \<Rightarrow> ('c, 'z) hk \<Rightarrow> 's \<Rightarrow> 's" where
  "hk_obj_prop_foreach obj func st s = hk_prop_foreach func s (o_props (obj_at st obj))"

definition split_assign :: "string \<Rightarrow> string \<times> string" where
  \<comment> \<open>an argument \<open>name=value\<close>; the value is empty without \<open>=\<close>\<close>
  "split_assign arg =
     (case strchr arg CHR ''='' of
        None \<Rightarrow> (arg, '''')
      | Some i \<Rightarrow> (take i arg, drop (i + 1) arg))"

definition hk_obj_create ::
    "nat \<Rightarrow> string \<Rightarrow> string \<Rightarrow> string list \<Rightarrow> ('c, 'z) hk \<Rightarrow> nat option \<times> ('c, 'z) hk" where
  "hk_obj_create tile cname name argv st =
     (if hk_obj_find tile name st \<noteq> None then (None, st)
      else
        let obj = length (objs st);
            st = st\<lparr>objs := objs st @ [\<lparr>o_name = name, o_tile = tile, o_class = cname,
                                       o_props = hk_prop_init, o_pads = [], o_ctx = None\<rparr>]\<rparr>;
            st = foldl (\<lambda>st arg. case split_assign arg of (n, v) \<Rightarrow> hk_obj_prop_set obj n v st) st argv
        in (Some obj, upd_tile tile (\<lambda>t. t\<lparr>t_objs := t_objs t @ [obj]\<rparr>) st))"

definition hk_obj_net :: "nat \<Rightarrow> string \<Rightarrow> ('c, 'z) hk \<Rightarrow> int \<times> ('c, 'z) hk" where
  "hk_obj_net pad1 ref st =
     (let tile = o_tile (obj_at st (p_obj (pad_at st pad1)))
      in case strrchr ref CHR ''.'' of
           None \<Rightarrow> (0, st)
         | Some pt \<Rightarrow>
             (case hk_obj_find tile (take pt ref) st of
                None \<Rightarrow> (0, st)
              | Some obj2 \<Rightarrow>
                  (case hk_pad_find obj2 (drop (pt + 1) ref) st of
                     None \<Rightarrow> (0, st)
                   | Some pad2 \<Rightarrow>
                       (1,
                        case p_net (pad_at st pad1) of
                          Some net1 \<Rightarrow>
                            (case p_net (pad_at st pad2) of
                               Some net2 \<Rightarrow> hk_net_merge net1 net2 st
                             | None \<Rightarrow> snd (hk_net_connect net1 pad2 st))
                        | None \<Rightarrow>
                            (case p_net (pad_at st pad2) of
                               Some net2 \<Rightarrow> snd (hk_net_connect net2 pad1 st)
                             | None \<Rightarrow>
                                 (case hk_net_create tile st of (net, st) \<Rightarrow>
                                    snd (hk_net_connect net pad2 (snd (hk_net_connect net pad1 st)))))))))"

definition hk_obj_preset ::
    "(('c, 'z) hk) class_table \<Rightarrow> (('c, 'z) hk) updater \<Rightarrow> nat \<Rightarrow> string \<Rightarrow> ('c, 'z) hk
      \<Rightarrow> (('c, 'z) hk) option" where
  "hk_obj_preset cls upd pad value st =
     (if p_dir (pad_at st pad) = HK_PAD_OUT then upd pad value st
      else hk_pad_update_input cls upd pad value (upd_pad pad (\<lambda>p. p\<lparr>p_value := Some value\<rparr>) st))"

definition hk_obj_setup ::
    "(('c, 'z) hk) class_table \<Rightarrow> (('c, 'z) hk) updater \<Rightarrow> nat \<Rightarrow> ('c, 'z) hk \<Rightarrow> hk_prop_entry
      \<Rightarrow> (('c, 'z) hk) option" where
  \<comment> \<open>called for each property of the object; always goes on to the next\<close>
  "hk_obj_setup cls upd obj st prop =
     (case hk_pad_find obj (pe_name prop) st of
        None \<Rightarrow> Some st
      | Some pad \<Rightarrow>
          (case pe_value prop of
             None \<Rightarrow> Some st
           | Some value \<Rightarrow>
               if value \<noteq> [] \<and> hd value = CHR ''$'' then Some (snd (hk_obj_net pad (tl value) st))
               else hk_obj_preset cls upd pad value st))"

section \<open>Tiles\<close>

definition hk_tile_nmemb :: "('c, 'z) hk \<Rightarrow> nat" where
  "hk_tile_nmemb st = length (tile_tab st)"

fun tile_search :: "string \<Rightarrow> ('c, 'z) hk \<Rightarrow> nat option list \<Rightarrow> nat option option" where
  "tile_search name st [] = Some None"
| "tile_search name st (None # tab) = None"
| "tile_search name st (Some t # tab) =
     (if t_name (tile_at st t) = name then Some (Some t) else tile_search name st tab)"

definition hk_tile_find :: "string \<Rightarrow> ('c, 'z) hk \<Rightarrow> nat option option" where
  \<comment> \<open>\<open>None\<close>: a NULL entry of the table is dereferenced\<close>
  "hk_tile_find name st = tile_search name st (tile_tab st)"

definition hk_pad_get_value :: "nat \<Rightarrow> string \<Rightarrow> ('c, 'z) hk \<Rightarrow> string option option" where
  \<comment> \<open>\<open>[[<tile>.]<obj>.]<pad>\<close>; the outer option as in \<open>hk_tile_find\<close>\<close>
  "hk_pad_get_value obj ref st =
     (let value_of = (\<lambda>obj pad_name. case hk_pad_find obj pad_name st of
                        None \<Rightarrow> None | Some pad \<Rightarrow> p_value (pad_at st pad))
      in case strrchr ref CHR ''.'' of
           None \<Rightarrow> Some (value_of obj ref)
         | Some pt2 \<Rightarrow>
             (let pre = take pt2 ref; pad_name = drop (pt2 + 1) ref;
                  in_tile = (\<lambda>tile obj_name. case hk_obj_find tile obj_name st of
                               None \<Rightarrow> None | Some obj \<Rightarrow> value_of obj pad_name)
              in case strrchr pre CHR ''.'' of
                   None \<Rightarrow> Some (in_tile (o_tile (obj_at st obj)) pre)
                 | Some pt1 \<Rightarrow>
                     (case hk_tile_find (take pt1 pre) st of
                        None \<Rightarrow> None
                      | Some None \<Rightarrow> Some None
                      | Some (Some tile) \<Rightarrow> Some (in_tile tile (drop (pt1 + 1) pre)))))"

definition hk_tile_start ::
    "(('c, 'z) hk) class_table \<Rightarrow> nat \<Rightarrow> nat \<Rightarrow> ('c, 'z) hk \<Rightarrow> (('c, 'z) hk) option" where
  "hk_tile_start cls fuel tile st =
     Option.bind
       (foldo (\<lambda>st obj. foldo (hk_obj_setup cls (hk_pad_update_str cls fuel) obj) st
                          (o_props (obj_at st obj)))
         st (t_objs (tile_at st tile)))
       (\<lambda>st. foldo (\<lambda>st obj. case m_start (cls (hk_pad_update_str cls fuel) (o_class (obj_at st obj))) of
                               None \<Rightarrow> Some st | Some f \<Rightarrow> f obj st)
               st (t_objs (tile_at st tile)))"

definition hk_tile_destroy :: "nat \<Rightarrow> ('c, 'z) hk \<Rightarrow> (('c, 'z) hk) option" where
  \<comment> \<open>the loop over the nets frees entries of the object table as nets: \<open>None\<close> as soon as
     there is a net to destroy\<close>
  "hk_tile_destroy tile st =
     (if t_nets (tile_at st tile) \<noteq> [] then None
      else
        let st = st\<lparr>tile_tab := (case find_index (\<lambda>e. e = Some tile) (tile_tab st) of
                                  None \<Rightarrow> tile_tab st | Some i \<Rightarrow> (tile_tab st)[i := None])\<rparr>
        in Some (upd_tile tile (\<lambda>t. \<lparr>t_dir = [], t_name = [], t_fname = [], t_objs = [], t_nets = []\<rparr>) st))"

definition hk_tile_foreach ::
    "(nat option \<Rightarrow> ('c, 'z) hk \<Rightarrow> ('c, 'z) hk) \<Rightarrow> ('c, 'z) hk \<Rightarrow> ('c, 'z) hk" where
  \<comment> \<open>the function also gets the NULL entries\<close>
  "hk_tile_foreach func st = foldl (\<lambda>st e. func e st) st (tile_tab st)"

subsection \<open>File names (\<open>basename\<close>, \<open>dirname\<close>)\<close>

definition strip_slashes :: "string \<Rightarrow> string" where
  "strip_slashes s = rev (dropWhile (\<lambda>c. c = CHR ''/'') (rev s))"

definition basename :: "string \<Rightarrow> string" where
  "basename s =
     (if s = [] then ''.''
      else let t = strip_slashes s
           in if t = [] then ''/'' else rev (takeWhile (\<lambda>c. c \<noteq> CHR ''/'') (rev t)))"

definition dirname :: "string \<Rightarrow> string" where
  "dirname s =
     (if s = [] then ''.''
      else let t = strip_slashes s;
               d = rev (dropWhile (\<lambda>c. c \<noteq> CHR ''/'') (rev t))
           in if t = [] then ''/''
              else if d = [] then ''.''
              else if strip_slashes d = [] then ''/'' else strip_slashes d)"

definition hk_tile_rootdir :: "nat \<Rightarrow> ('c, 'z) hk \<Rightarrow> string" where
  "hk_tile_rootdir tile st = dirname (t_dir (tile_at st tile))"

record filesystem =
  is_dir :: "string \<Rightarrow> bool"
  is_file :: "string \<Rightarrow> bool"
  realpath :: "string \<Rightarrow> string"

definition tile_paths :: "filesystem \<Rightarrow> string \<Rightarrow> (string \<times> string \<times> string) option" where
  \<comment> \<open>directory, name and tile file for a path without an explicit name\<close>
  "tile_paths fs path =
     (if is_dir fs path then Some (realpath fs path, basename path, path @ ''/tile.hk'')
      else if is_file fs path then
        let base = basename path
        in Some (realpath fs (dirname path),
             (case strrchr base CHR ''.'' of
                None \<Rightarrow> base
              | Some i \<Rightarrow> if drop i base = ''.hk'' then take i base else base),
             path)
      else None)"

definition hk_tile_create :: "filesystem \<Rightarrow> string \<Rightarrow> ('c, 'z) hk \<Rightarrow> (nat option \<times> ('c, 'z) hk) option" where
  \<comment> \<open>\<open>path\<close> may be \<open>name=path\<close>; the outer option as in \<open>hk_tile_find\<close>\<close>
  "hk_tile_create fs path st =
     (let (explicit, path) = (case strchr path CHR ''='' of
            None \<Rightarrow> (None, path)
          | Some i \<Rightarrow> (Some (take i path), drop (i + 1) path))
      in case tile_paths fs path of
           None \<Rightarrow> Some (None, st)
         | Some (dir, name, fname) \<Rightarrow>
             (let name = (case explicit of None \<Rightarrow> name | Some n \<Rightarrow> n)
              in case hk_tile_find name st of
                   None \<Rightarrow> None
                 | Some (Some _) \<Rightarrow> Some (None, st)
                 | Some None \<Rightarrow>
                     (let tile = length (tiles st)
                      in Some (Some tile,
                           st\<lparr>tiles := tiles st @ [\<lparr>t_dir = dir, t_name = name, t_fname = fname,
                                                  t_objs = [], t_nets = []\<rparr>],
                              tile_tab := tile_tab st @ [Some tile]\<rparr>))))"

definition hk_start :: "64 word \<Rightarrow> 'c hk_state" where
  \<comment> \<open>the state of a program that has not loaded anything\<close>
  "hk_start now =
     \<lparr>sources = replicate NSOURCES sys_source_clear, last_tag = 0, quit_requested = False,
      hk_clock = now, classes = [], pads = [], nets = [], objs = [], tiles = [], tile_tab = []\<rparr>"

section \<open>Field lemmas\<close>

lemma upd_pad_simps [simp]:
  "nets (upd_pad p g st) = nets st" "objs (upd_pad p g st) = objs st"
  "tiles (upd_pad p g st) = tiles st" "tile_tab (upd_pad p g st) = tile_tab st"
  "classes (upd_pad p g st) = classes st" "length (pads (upd_pad p g st)) = length (pads st)"
  "sources (upd_pad p g st) = sources st" "hk_clock (upd_pad p g st) = hk_clock st"
  by (simp_all add: upd_pad_def)

lemma upd_net_simps [simp]:
  "pads (upd_net n g st) = pads st" "objs (upd_net n g st) = objs st"
  "tiles (upd_net n g st) = tiles st" "tile_tab (upd_net n g st) = tile_tab st"
  "classes (upd_net n g st) = classes st" "length (nets (upd_net n g st)) = length (nets st)"
  by (simp_all add: upd_net_def)

lemma upd_obj_simps [simp]:
  "pads (upd_obj j g st) = pads st" "nets (upd_obj j g st) = nets st"
  "tiles (upd_obj j g st) = tiles st" "tile_tab (upd_obj j g st) = tile_tab st"
  "classes (upd_obj j g st) = classes st" "length (objs (upd_obj j g st)) = length (objs st)"
  by (simp_all add: upd_obj_def)

lemma upd_tile_simps [simp]:
  "pads (upd_tile t g st) = pads st" "nets (upd_tile t g st) = nets st"
  "objs (upd_tile t g st) = objs st" "tile_tab (upd_tile t g st) = tile_tab st"
  "classes (upd_tile t g st) = classes st" "length (tiles (upd_tile t g st)) = length (tiles st)"
  by (simp_all add: upd_tile_def)

lemma pad_at_upd:
  "pad_at (upd_pad p g st) q = (if p = q \<and> q < length (pads st) then g (pad_at st q) else pad_at st q)"
  by (cases "p = q") (auto simp: upd_pad_def map_nth_def list_update_beyond not_less)

lemma net_at_upd:
  "net_at (upd_net p g st) q = (if p = q \<and> q < length (nets st) then g (net_at st q) else net_at st q)"
  by (cases "p = q") (auto simp: upd_net_def map_nth_def list_update_beyond not_less)

lemma obj_at_upd:
  "obj_at (upd_obj p g st) q = (if p = q \<and> q < length (objs st) then g (obj_at st q) else obj_at st q)"
  by (cases "p = q") (auto simp: upd_obj_def map_nth_def list_update_beyond not_less)

lemma tile_at_upd:
  "tile_at (upd_tile p g st) q = (if p = q \<and> q < length (tiles st) then g (tile_at st q) else tile_at st q)"
  by (cases "p = q") (auto simp: upd_tile_def map_nth_def list_update_beyond not_less)

end
