(* ===== verification/Hk_Net.thy ===== *)
theory Hk_Net
  imports Hk_Mod
begin

text \<open>
  Nets of \<^verbatim>\<open>core/mod.c\<close>: the cross references between pads and nets stay consistent, and
  connecting two pads (\<open>hk_obj_net\<close>, with its four cases and the merge of two nets)
  computes the least equivalence on pads that extends the previous one by the new pair.
\<close>

section \<open>Consistency of pads and nets\<close>

definition net_wf :: "('c, 'z) hk \<Rightarrow> bool" where
  "net_wf st \<longleftrightarrow>
     (\<forall>n<length (nets st). distinct (n_pads (net_at st n)) \<and>
        (\<forall>p\<in>set (n_pads (net_at st n)). p < length (pads st) \<and> p_net (pad_at st p) = Some n) \<and>
        (n_id (net_at st n) = 0 \<longrightarrow> n_pads (net_at st n) = [])) \<and>
     (\<forall>p<length (pads st). \<forall>n. p_net (pad_at st p) = Some n \<longrightarrow>
        n < length (nets st) \<and> p \<in> set (n_pads (net_at st n)))"

definition refs_wf :: "('c, 'z) hk \<Rightarrow> bool" where
  \<comment> \<open>references point into the stores\<close>
  "refs_wf st \<longleftrightarrow>
     (\<forall>ob\<in>set (objs st). set (o_pads ob) \<subseteq> {..<length (pads st)} \<and> o_tile ob < length (tiles st)) \<and>
     (\<forall>pad\<in>set (pads st). p_obj pad < length (objs st)) \<and>
     (\<forall>t\<in>set (tiles st). set (t_objs t) \<subseteq> {..<length (objs st)} \<and> set (t_nets t) \<subseteq> {..<length (nets st)})"

definition conn :: "('c, 'z) hk \<Rightarrow> nat \<Rightarrow> nat \<Rightarrow> bool" where
  "conn st p q \<longleftrightarrow> p = q \<or> (p_net (pad_at st p) \<noteq> None \<and> p_net (pad_at st p) = p_net (pad_at st q))"

lemma net_wfD:
  assumes "net_wf st"
  shows "n < length (nets st) \<Longrightarrow> distinct (n_pads (net_at st n))"
    "n < length (nets st) \<Longrightarrow> p \<in> set (n_pads (net_at st n)) \<Longrightarrow>
       p < length (pads st) \<and> p_net (pad_at st p) = Some n"
    "n < length (nets st) \<Longrightarrow> n_id (net_at st n) = 0 \<Longrightarrow> n_pads (net_at st n) = []"
    "p < length (pads st) \<Longrightarrow> p_net (pad_at st p) = Some n \<Longrightarrow>
       n < length (nets st) \<and> p \<in> set (n_pads (net_at st n))"
  using assms unfolding net_wf_def by blast+

lemma net_wfI:
  assumes "\<And>n. n < length (nets st) \<Longrightarrow> distinct (n_pads (net_at st n))"
    "\<And>n p. n < length (nets st) \<Longrightarrow> p \<in> set (n_pads (net_at st n)) \<Longrightarrow>
       p < length (pads st) \<and> p_net (pad_at st p) = Some n"
    "\<And>n. n < length (nets st) \<Longrightarrow> n_id (net_at st n) = 0 \<Longrightarrow> n_pads (net_at st n) = []"
    "\<And>p n. p < length (pads st) \<Longrightarrow> p_net (pad_at st p) = Some n \<Longrightarrow>
       n < length (nets st) \<and> p \<in> set (n_pads (net_at st n))"
  shows "net_wf st"
  using assms unfolding net_wf_def by blast

lemma net_wf_cong: "pads st' = pads st \<Longrightarrow> nets st' = nets st \<Longrightarrow> net_wf st' = net_wf st"
  by (simp only: net_wf_def)

lemma find_ref_SomeD: "find_ref P at refs = Some r \<Longrightarrow> r \<in> set refs \<and> P (at r)"
  by (auto simp: find_ref_def dest!: find_index_SomeD)

section \<open>Connecting a pad\<close>

lemma hk_net_connect_wf:
  assumes "net_wf st" "net < length (nets st)" "n_id (net_at st net) \<noteq> 0" "pad < length (pads st)"
  shows "net_wf (snd (hk_net_connect net pad st))"
proof (cases "p_net (pad_at st pad)")
  case (Some n)
  with assms show ?thesis by (simp add: hk_net_connect_def)
next
  case None
  have new: "pad \<notin> set (n_pads (net_at st n))" if "n < length (nets st)" for n
    using net_wfD(2) [OF assms(1) that] None by fastforce
  let ?s = "snd (hk_net_connect net pad st)"
  have pd: "pad_at ?s p = (if p = pad then (pad_at st p)\<lparr>p_net := Some net\<rparr> else pad_at st p)" for p
    using None assms(4) by (auto simp: hk_net_connect_def pad_at_upd)
  have nt: "net_at ?s k = (if k = net then (net_at st k)\<lparr>n_pads := n_pads (net_at st k) @ [pad]\<rparr> else net_at st k)" for k
    using None assms(2) by (auto simp: hk_net_connect_def net_at_upd)
  have len: "length (pads ?s) = length (pads st)" "length (nets ?s) = length (nets st)"
    by (simp_all add: hk_net_connect_def)
  show ?thesis
  proof (rule net_wfI; unfold len)
    fix k assume k: "k < length (nets st)"
    show "distinct (n_pads (net_at ?s k))" using net_wfD(1) [OF assms(1) k] new [OF k]
      by (cases "k = net") (simp_all add: nt)
    show "p < length (pads st) \<and> p_net (pad_at ?s p) = Some k" if "p \<in> set (n_pads (net_at ?s k))" for p
      using that net_wfD(2) [OF assms(1) k, of p] new [OF k] assms(4)
      by (cases "k = net"; cases "p = pad") (simp_all add: nt pd)
    show "n_pads (net_at ?s k) = []" if "n_id (net_at ?s k) = 0"
      using that net_wfD(3) [OF assms(1) k] assms(3) by (cases "k = net") (simp_all add: nt)
  next
    fix p k assume p: "p < length (pads st)" "p_net (pad_at ?s p) = Some k"
    show "k < length (nets st) \<and> p \<in> set (n_pads (net_at ?s k))"
    proof (cases "p = pad")
      case True
      with p have "k = net" by (simp add: pd)
      with True assms(2) show ?thesis unfolding nt by simp
    next
      case False
      with p have "p_net (pad_at st p) = Some k" by (simp add: pd)
      from net_wfD(4) [OF assms(1) p(1) this] show ?thesis by (cases "k = net") (simp_all add: nt)
    qed
  qed
qed

lemma hk_net_connect_nets:
  "length (nets (snd (hk_net_connect net pad st))) = length (nets st)"
  "length (pads (snd (hk_net_connect net pad st))) = length (pads st)"
  "objs (snd (hk_net_connect net pad st)) = objs st"
  "tiles (snd (hk_net_connect net pad st)) = tiles st"
  "n_id (net_at (snd (hk_net_connect net pad st)) n) = n_id (net_at st n)"
  by (auto simp: hk_net_connect_def net_at_upd)

lemma hk_net_connect_p_net:
  "p < length (pads st) \<Longrightarrow>
   p_net (pad_at (snd (hk_net_connect net pad st)) p) =
     (if p = pad \<and> p_net (pad_at st pad) = None then Some net else p_net (pad_at st p))"
  by (auto simp: hk_net_connect_def pad_at_upd)

section \<open>Merging two nets\<close>

definition reconnect :: "nat \<Rightarrow> ('c, 'z) hk \<Rightarrow> nat \<Rightarrow> ('c, 'z) hk" where
  "reconnect net1 st pad2 = snd (hk_net_connect net1 pad2 (upd_pad pad2 (\<lambda>p. p\<lparr>p_net := None\<rparr>) st))"

lemma reconnect_fields:
  assumes "pad2 < length (pads st)"
  shows "length (pads (reconnect net1 st pad2)) = length (pads st)"
    "length (nets (reconnect net1 st pad2)) = length (nets st)"
    "objs (reconnect net1 st pad2) = objs st" "tiles (reconnect net1 st pad2) = tiles st"
    "p < length (pads st) \<Longrightarrow>
       pad_at (reconnect net1 st pad2) p =
         (if p = pad2 then (pad_at st p)\<lparr>p_net := Some net1\<rparr> else pad_at st p)"
    "n < length (nets st) \<Longrightarrow>
       net_at (reconnect net1 st pad2) n =
         (if n = net1 then (net_at st n)\<lparr>n_pads := n_pads (net_at st n) @ [pad2]\<rparr> else net_at st n)"
  using assms by (auto simp: reconnect_def hk_net_connect_def pad_at_upd net_at_upd)

lemma foldl_reconnect:
  assumes "set ps \<subseteq> {..<length (pads st)}"
  shows "length (pads (foldl (reconnect net1) st ps)) = length (pads st) \<and>
    length (nets (foldl (reconnect net1) st ps)) = length (nets st) \<and>
    objs (foldl (reconnect net1) st ps) = objs st \<and> tiles (foldl (reconnect net1) st ps) = tiles st \<and>
    (\<forall>p<length (pads st). pad_at (foldl (reconnect net1) st ps) p =
       (if p \<in> set ps then (pad_at st p)\<lparr>p_net := Some net1\<rparr> else pad_at st p)) \<and>
    (\<forall>n<length (nets st). net_at (foldl (reconnect net1) st ps) n =
       (if n = net1 then (net_at st n)\<lparr>n_pads := n_pads (net_at st n) @ ps\<rparr> else net_at st n))"
  using assms
proof (induction ps arbitrary: st)
  case (Cons a ps)
  have a: "a < length (pads st)" using Cons.prems by simp
  note f = reconnect_fields [OF a]
  have "set ps \<subseteq> {..<length (pads (reconnect net1 st a))}" using Cons.prems f(1) by simp
  note IH = Cons.IH [OF this]
  show ?case using IH f by simp
qed simp

lemma hk_net_merge_spec:
  assumes w: "net_wf st" and n: "net1 < length (nets st)" "net2 < length (nets st)" "net1 \<noteq> net2"
    and id: "n_id (net_at st net1) \<noteq> 0"
  shows "net_wf (hk_net_merge net1 net2 st)"
    "length (pads (hk_net_merge net1 net2 st)) = length (pads st)"
    "p < length (pads st) \<Longrightarrow> p_net (pad_at (hk_net_merge net1 net2 st) p) =
       (if p_net (pad_at st p) = Some net2 then Some net1 else p_net (pad_at st p))"
    "objs (hk_net_merge net1 net2 st) = objs st" "tiles (hk_net_merge net1 net2 st) = tiles st"
    "length (nets (hk_net_merge net1 net2 st)) = length (nets st)"
proof -
  let ?ps = "n_pads (net_at st net2)"
  let ?s = "foldl (reconnect net1) st ?ps"
  let ?g = "\<lambda>n. n\<lparr>n_id := 0, n_pads := []\<rparr>"
  have m: "hk_net_merge net1 net2 st = upd_net net2 ?g ?s"
    using n(3) unfolding hk_net_merge_def reconnect_def [abs_def] Let_def by simp
  have ps: "set ?ps \<subseteq> {..<length (pads st)}" using net_wfD(2) [OF w n(2)] by auto
  note F = foldl_reconnect [OF ps, of net1]
  then have lp: "length (pads ?s) = length (pads st)" and ln: "length (nets ?s) = length (nets st)"
    and ob: "objs ?s = objs st" and ti: "tiles ?s = tiles st"
    and pd: "\<And>p. p < length (pads st) \<Longrightarrow>
       pad_at ?s p = (if p \<in> set ?ps then (pad_at st p)\<lparr>p_net := Some net1\<rparr> else pad_at st p)"
    and nt: "\<And>k. k < length (nets st) \<Longrightarrow>
       net_at ?s k = (if k = net1 then (net_at st k)\<lparr>n_pads := n_pads (net_at st k) @ ?ps\<rparr> else net_at st k)"
    by blast+
  have mem: "p \<in> set ?ps \<longleftrightarrow> p_net (pad_at st p) = Some net2" if "p < length (pads st)" for p
    using that net_wfD(2) [OF w n(2)] net_wfD(4) [OF w] by blast
  have pn: "p_net (pad_at ?s p) = (if p_net (pad_at st p) = Some net2 then Some net1 else p_net (pad_at st p))"
    if "p < length (pads st)" for p
    using pd [OF that] mem [OF that] by simp
  have dis: "distinct (n_pads (net_at st net1) @ ?ps)"
    using net_wfD(1) [OF w n(1)] net_wfD(1) [OF w n(2)] net_wfD(2) [OF w n(1)] net_wfD(2) [OF w n(2)] n(3)
    by fastforce
  show "length (pads (hk_net_merge net1 net2 st)) = length (pads st)"
    "objs (hk_net_merge net1 net2 st) = objs st" "tiles (hk_net_merge net1 net2 st) = tiles st"
    "length (nets (hk_net_merge net1 net2 st)) = length (nets st)"
    by (simp_all add: m lp ob ti ln)
  show "p < length (pads st) \<Longrightarrow> p_net (pad_at (hk_net_merge net1 net2 st) p) =
       (if p_net (pad_at st p) = Some net2 then Some net1 else p_net (pad_at st p))"
    by (simp add: m pn)
  have na: "net_at (upd_net net2 ?g ?s) k =
      (if k = net2 then (net_at st k)\<lparr>n_id := 0, n_pads := []\<rparr>
       else if k = net1 then (net_at st k)\<lparr>n_pads := n_pads (net_at st k) @ ?ps\<rparr> else net_at st k)"
    if "k < length (nets st)" for k
    using that n ln nt [OF that] by (simp add: net_at_upd)
  show "net_wf (hk_net_merge net1 net2 st)"
    unfolding m net_wf_def upd_net_simps lp ln
  proof (intro conjI allI impI)
    fix k assume k: "k < length (nets st)"
    show "distinct (n_pads (net_at (upd_net net2 ?g ?s) k))"
      using dis net_wfD(1) [OF w k] by (simp add: na [OF k])
    show "n_pads (net_at (upd_net net2 ?g ?s) k) = []"
      if "n_id (net_at (upd_net net2 ?g ?s) k) = 0"
      using that id net_wfD(3) [OF w k] by (simp add: na [OF k] split: if_splits)
    show "\<forall>p\<in>set (n_pads (net_at (upd_net net2 ?g ?s) k)).
        p < length (pads st) \<and> p_net (pad_at ?s p) = Some k"
      using net_wfD(2) [OF w k] net_wfD(2) [OF w n(2)] pn n(3) by (auto simp: na [OF k] split: if_splits)
  next
    fix p k assume p: "p < length (pads st)" "p_net (pad_at ?s p) = Some k"
    then have e: "(if p_net (pad_at st p) = Some net2 then Some net1 else p_net (pad_at st p)) = Some k"
      using pn by simp
    show k: "k < length (nets st)" using e n net_wfD(4) [OF w p(1)] by (auto split: if_splits)
    show "p \<in> set (n_pads (net_at (upd_net net2 ?g ?s) k))"
      using e net_wfD(4) [OF w p(1)] mem [OF p(1)] n(3) by (auto simp: na [OF k] split: if_splits)
  qed
qed

section \<open>Creating a net\<close>

lemma hk_net_create_spec:
  assumes w: "net_wf st" and t: "tile < length (tiles st)" "set (t_nets (tile_at st tile)) \<subseteq> {..<length (nets st)}"
  shows "net_wf (snd (hk_net_create tile st))"
    "pads (snd (hk_net_create tile st)) = pads st" "objs (snd (hk_net_create tile st)) = objs st"
    "fst (hk_net_create tile st) < length (nets (snd (hk_net_create tile st)))"
    "n_id (net_at (snd (hk_net_create tile st)) (fst (hk_net_create tile st))) \<noteq> 0"
    "n_pads (net_at (snd (hk_net_create tile st)) (fst (hk_net_create tile st))) = []"
    "length (nets st) \<le> length (nets (snd (hk_net_create tile st)))"
    "length (tiles (snd (hk_net_create tile st))) = length (tiles st)"
    "\<And>u. tile_at (snd (hk_net_create tile st)) u =
       (if u = tile then (tile_at st u)\<lparr>t_nets := t_nets (tile_at st u) @ [fst (hk_net_create tile st)]\<rparr>
        else tile_at st u)"
proof -
  let ?tab = "t_nets (tile_at st tile)"
  have "net_wf (snd (hk_net_create tile st)) \<and>
    pads (snd (hk_net_create tile st)) = pads st \<and> objs (snd (hk_net_create tile st)) = objs st \<and>
    fst (hk_net_create tile st) < length (nets (snd (hk_net_create tile st))) \<and>
    n_id (net_at (snd (hk_net_create tile st)) (fst (hk_net_create tile st))) \<noteq> 0 \<and>
    n_pads (net_at (snd (hk_net_create tile st)) (fst (hk_net_create tile st))) = [] \<and>
    length (nets st) \<le> length (nets (snd (hk_net_create tile st))) \<and>
    length (tiles (snd (hk_net_create tile st))) = length (tiles st) \<and>
    (\<forall>u. tile_at (snd (hk_net_create tile st)) u =
       (if u = tile then (tile_at st u)\<lparr>t_nets := t_nets (tile_at st u) @ [fst (hk_net_create tile st)]\<rparr>
        else tile_at st u))"
  proof (cases "find_index (\<lambda>n. n_id (net_at st n) = 0) ?tab")
    case None
    let ?s = "st\<lparr>nets := nets st @ [\<lparr>n_id = length ?tab + 1, n_pads = []\<rparr>]\<rparr>"
    have "net_wf ?s"
    proof (rule net_wfI)
      fix k assume "k < length (nets ?s)"
      then consider "k < length (nets st)" | "k = length (nets st)" by fastforce
      note k = this
      show "distinct (n_pads (net_at ?s k))"
        using k net_wfD(1) [OF w, of k] by cases (simp_all add: nth_append)
      show "p < length (pads ?s) \<and> p_net (pad_at ?s p) = Some k" if "p \<in> set (n_pads (net_at ?s k))" for p
        using k that net_wfD(2) [OF w, of k p] by cases (simp_all add: nth_append)
      show "n_pads (net_at ?s k) = []" if "n_id (net_at ?s k) = 0"
        using k that net_wfD(3) [OF w, of k] by cases (simp_all add: nth_append)
    next
      fix p k assume "p < length (pads ?s)" "p_net (pad_at ?s p) = Some k"
      with net_wfD(4) [OF w, of p k] show "k < length (nets ?s) \<and> p \<in> set (n_pads (net_at ?s k))"
        by (simp add: nth_append)
    qed
    then have "net_wf (upd_tile tile g ?s)" for g
      by (subst net_wf_cong [of _ ?s]) simp_all
    then show ?thesis using None t(1) by (simp add: hk_net_create_def Let_def tile_at_upd)
  next
    case (Some i)
    then have i: "i < length ?tab" "n_id (net_at st (?tab ! i)) = 0"
      by (auto dest: find_index_SomeD)
    let ?n = "?tab ! i"
    have n: "?n < length (nets st)" using i t(2) nth_mem by blast
    have e: "n_pads (net_at st ?n) = []" using net_wfD(3) [OF w n i(2)] .
    let ?s = "upd_net ?n (\<lambda>n. n\<lparr>n_id := i + 1\<rparr>) st"
    have pds: "n_pads (net_at ?s k) = n_pads (net_at st k)" for k by (simp add: net_at_upd)
    have ids: "n_id (net_at ?s k) = 0 \<Longrightarrow> n_id (net_at st k) = 0" if "k < length (nets st)" for k
      using that by (simp add: net_at_upd split: if_splits)
    have "net_wf ?s"
      by (rule net_wfI; unfold upd_net_simps pds)
        (use net_wfD [OF w] ids in blast)+
    then have "net_wf (upd_tile tile g ?s)" for g
      by (subst net_wf_cong [of _ ?s]) simp_all
    then show ?thesis using Some t(1) n e by (simp add: hk_net_create_def Let_def tile_at_upd net_at_upd)
  qed
  then show "net_wf (snd (hk_net_create tile st))"
    "pads (snd (hk_net_create tile st)) = pads st" "objs (snd (hk_net_create tile st)) = objs st"
    "fst (hk_net_create tile st) < length (nets (snd (hk_net_create tile st)))"
    "n_id (net_at (snd (hk_net_create tile st)) (fst (hk_net_create tile st))) \<noteq> 0"
    "n_pads (net_at (snd (hk_net_create tile st)) (fst (hk_net_create tile st))) = []"
    "length (nets st) \<le> length (nets (snd (hk_net_create tile st)))"
    "length (tiles (snd (hk_net_create tile st))) = length (tiles st)"
    "\<And>u. tile_at (snd (hk_net_create tile st)) u =
       (if u = tile then (tile_at st u)\<lparr>t_nets := t_nets (tile_at st u) @ [fst (hk_net_create tile st)]\<rparr>
        else tile_at st u)"
    by blast+
qed

section \<open>Connecting two pads\<close>

lemma refs_wfD:
  assumes "refs_wf st"
  shows "j < length (objs st) \<Longrightarrow> p \<in> set (o_pads (obj_at st j)) \<Longrightarrow> p < length (pads st)"
    "j < length (objs st) \<Longrightarrow> o_tile (obj_at st j) < length (tiles st)"
    "p < length (pads st) \<Longrightarrow> p_obj (pad_at st p) < length (objs st)"
    "t < length (tiles st) \<Longrightarrow> j \<in> set (t_objs (tile_at st t)) \<Longrightarrow> j < length (objs st)"
    "t < length (tiles st) \<Longrightarrow> set (t_nets (tile_at st t)) \<subseteq> {..<length (nets st)}"
  using assms nth_mem unfolding refs_wf_def by blast+

definition joined :: "nat \<Rightarrow> nat \<Rightarrow> (nat \<Rightarrow> nat \<Rightarrow> bool) \<Rightarrow> nat \<Rightarrow> nat \<Rightarrow> bool" where
  \<comment> \<open>the least equivalence that extends the equivalence \<open>R\<close> by \<open>(a, b)\<close>\<close>
  "joined a b R p q \<longleftrightarrow> R p q \<or> (R p a \<and> R b q) \<or> (R p b \<and> R a q)"

lemma joined_least:
  assumes "equivp R"
  shows "equivp (joined a b R)" "joined a b R a b" "R p q \<Longrightarrow> joined a b R p q"
    "equivp S \<Longrightarrow> (\<And>p q. R p q \<Longrightarrow> S p q) \<Longrightarrow> S a b \<Longrightarrow> joined a b R p q \<Longrightarrow> S p q"
proof -
  have r: "\<And>x. R x x" and s: "\<And>x y. R x y \<Longrightarrow> R y x" and t: "\<And>x y z. R x y \<Longrightarrow> R y z \<Longrightarrow> R x z"
    using assms by (auto intro: equivp_reflp equivp_symp equivp_transp)
  show "equivp (joined a b R)"
    by (rule equivpI) (auto simp: reflp_def symp_def transp_def joined_def intro: r s t)
  show "joined a b R a b" "R p q \<Longrightarrow> joined a b R p q" by (auto simp: joined_def r)
  show "equivp S \<Longrightarrow> (\<And>p q. R p q \<Longrightarrow> S p q) \<Longrightarrow> S a b \<Longrightarrow> joined a b R p q \<Longrightarrow> S p q"
    unfolding joined_def by (meson equivp_symp equivp_transp)
qed

lemma equivp_conn: "equivp (conn st)"
  by (rule equivpI) (auto simp: reflp_def symp_def transp_def conn_def)

definition link_pads :: "nat \<Rightarrow> nat \<Rightarrow> nat \<Rightarrow> ('c, 'z) hk \<Rightarrow> ('c, 'z) hk" where
  \<comment> \<open>the four cases of \<open>hk_obj_net\<close>\<close>
  "link_pads tile pad1 pad2 st =
     (case p_net (pad_at st pad1) of
        Some net1 \<Rightarrow>
          (case p_net (pad_at st pad2) of
             Some net2 \<Rightarrow> hk_net_merge net1 net2 st
           | None \<Rightarrow> snd (hk_net_connect net1 pad2 st))
      | None \<Rightarrow>
          (case p_net (pad_at st pad2) of
             Some net2 \<Rightarrow> snd (hk_net_connect net2 pad1 st)
           | None \<Rightarrow>
               (case hk_net_create tile st of (net, st) \<Rightarrow>
                  snd (hk_net_connect net pad2 (snd (hk_net_connect net pad1 st))))))"

lemma live_net:
  "net_wf st \<Longrightarrow> p < length (pads st) \<Longrightarrow> p_net (pad_at st p) = Some n \<Longrightarrow>
   n < length (nets st) \<and> n_id (net_at st n) \<noteq> 0"
  using net_wfD(3,4) by fastforce

lemma link_pads_spec:
  assumes w: "net_wf st" and p: "pad1 < length (pads st)" "pad2 < length (pads st)"
    and t: "tile < length (tiles st)" "set (t_nets (tile_at st tile)) \<subseteq> {..<length (nets st)}"
  shows "net_wf (link_pads tile pad1 pad2 st) \<and>
    length (pads (link_pads tile pad1 pad2 st)) = length (pads st) \<and>
    (\<forall>p<length (pads st). \<forall>q<length (pads st).
       conn (link_pads tile pad1 pad2 st) p q = joined pad1 pad2 (conn st) p q)"
proof (cases "p_net (pad_at st pad1)")
  case n1: (Some net1)
  note l1 = live_net [OF w p(1) n1]
  show ?thesis
  proof (cases "p_net (pad_at st pad2)")
    case n2: (Some net2)
    note l2 = live_net [OF w p(2) n2]
    show ?thesis
    proof (cases "net1 = net2")
      case True
      with n1 n2 w show ?thesis by (auto simp: link_pads_def hk_net_merge_def joined_def conn_def)
    next
      case False
      note m = hk_net_merge_spec [OF w l1 [THEN conjunct1] l2 [THEN conjunct1] False l1 [THEN conjunct2]]
      have e: "link_pads tile pad1 pad2 st = hk_net_merge net1 net2 st"
        using n1 n2 by (simp add: link_pads_def)
      show ?thesis
        unfolding e using m(1,2) False
        by (auto simp: m(3) conn_def joined_def n1 n2)
    qed
  next
    case n2: None
    have e: "link_pads tile pad1 pad2 st = snd (hk_net_connect net1 pad2 st)"
      using n1 n2 by (simp add: link_pads_def)
    have "net_wf (snd (hk_net_connect net1 pad2 st))"
      using hk_net_connect_wf [OF w _ _ p(2)] l1 by blast
    then show ?thesis
      unfolding e using n1 n2
      by (auto simp: hk_net_connect_p_net hk_net_connect_nets conn_def joined_def)
  qed
next
  case n1: None
  show ?thesis
  proof (cases "p_net (pad_at st pad2)")
    case n2: (Some net2)
    note l2 = live_net [OF w p(2) n2]
    have e: "link_pads tile pad1 pad2 st = snd (hk_net_connect net2 pad1 st)"
      using n1 n2 by (simp add: link_pads_def)
    have "net_wf (snd (hk_net_connect net2 pad1 st))"
      using hk_net_connect_wf [OF w _ _ p(1)] l2 by blast
    then show ?thesis
      unfolding e using n1 n2
      by (auto simp: hk_net_connect_p_net hk_net_connect_nets conn_def joined_def)
  next
    case n2: None
    obtain net st1 where c: "hk_net_create tile st = (net, st1)" by fastforce
    note cs = hk_net_create_spec [OF w t, unfolded c fst_conv snd_conv]
    let ?s1 = "snd (hk_net_connect net pad1 st1)"
    have e: "link_pads tile pad1 pad2 st = snd (hk_net_connect net pad2 ?s1)"
      using n1 n2 c by (simp add: link_pads_def)
    have free: "p_net (pad_at st p) \<noteq> Some net" if "p < length (pads st)" for p
      using that net_wfD(4) [OF cs(1), of p net] cs(2,6) by auto
    have w1: "net_wf ?s1" using hk_net_connect_wf [OF cs(1) cs(4,5)] p cs(2) by simp
    have l: "length (pads ?s1) = length (pads st)" by (simp add: hk_net_connect_nets cs(2))
    have w2: "net_wf (snd (hk_net_connect net pad2 ?s1))"
      using hk_net_connect_wf [OF w1] cs(4,5) p(2) l by (simp add: hk_net_connect_nets)
    have pn: "p_net (pad_at (snd (hk_net_connect net pad2 ?s1)) q) =
        (if q = pad1 \<or> q = pad2 then Some net else p_net (pad_at st q))" if "q < length (pads st)" for q
      using that n1 n2 p by (auto simp: hk_net_connect_p_net hk_net_connect_nets cs(2))
    show ?thesis
      unfolding e using w2 n1 n2 free free [THEN not_sym]
      by (auto simp: pn conn_def joined_def hk_net_connect_nets cs(2))
  qed
qed

section \<open>Properties\<close>

text \<open>
  C5: Connecting a pad to the pad a reference \<open>obj.pad\<close> names either fails and changes
  nothing, or keeps pads and nets consistent and makes "on the same net" the least
  equivalence that contains the old one and the new pair, whichever of the two pads were
  already on a net.
\<close>

theorem hk_obj_net_joins:
  assumes "net_wf st" "refs_wf st" "pad1 < length (pads st)"
  shows "case hk_obj_net pad1 ref st of (ret, st') \<Rightarrow>
    (ret = 0 \<and> st' = st) \<or>
    (ret = 1 \<and> net_wf st' \<and> length (pads st') = length (pads st) \<and>
     (\<exists>pt obj2 pad2. strrchr ref CHR ''.'' = Some pt \<and>
        hk_obj_find (o_tile (obj_at st (p_obj (pad_at st pad1)))) (take pt ref) st = Some obj2 \<and>
        hk_pad_find obj2 (drop (pt + 1) ref) st = Some pad2 \<and>
        (\<forall>p<length (pads st). \<forall>q<length (pads st).
           conn st' p q = joined pad1 pad2 (conn st) p q)))"
proof -
  let ?tile = "o_tile (obj_at st (p_obj (pad_at st pad1)))"
  have t: "?tile < length (tiles st)" "set (t_nets (tile_at st ?tile)) \<subseteq> {..<length (nets st)}"
    using refs_wfD [OF assms(2)] assms(3) by blast+
  show ?thesis
  proof (cases "strrchr ref CHR ''.''")
    case None
    then show ?thesis by (simp add: hk_obj_net_def Let_def)
  next
    case pt: (Some pt)
    show ?thesis
    proof (cases "hk_obj_find ?tile (take pt ref) st")
      case None
      with pt show ?thesis by (simp add: hk_obj_net_def Let_def)
    next
      case ob: (Some obj2)
      have o2: "obj2 < length (objs st)"
        using ob t(1) refs_wfD(4) [OF assms(2)] unfolding hk_obj_find_def by (auto dest: find_ref_SomeD)
      show ?thesis
      proof (cases "hk_pad_find obj2 (drop (pt + 1) ref) st")
        case None
        with pt ob show ?thesis by (simp add: hk_obj_net_def Let_def)
      next
        case pd: (Some pad2)
        have p2: "pad2 < length (pads st)"
          using pd o2 refs_wfD(1) [OF assms(2)] unfolding hk_pad_find_def by (auto dest: find_ref_SomeD)
        have "hk_obj_net pad1 ref st = (1, link_pads ?tile pad1 pad2 st)"
          using pt ob pd unfolding hk_obj_net_def link_pads_def Let_def by simp
        with link_pads_spec [OF assms(1,3) p2 t] pt ob pd show ?thesis by auto
      qed
    qed
  qed
qed

definition two_objects :: "unit hk_state" where
  \<comment> \<open>two objects \<open>a\<close> and \<open>b\<close> of a tile, with a pad each and no net\<close>
  "two_objects = (hk_start 1)\<lparr>
     pads := [\<lparr>p_obj = 0, p_dir = HK_PAD_IN, p_name = ''in'', p_value = None, p_net = None,
               p_lock = False, p_state = 0\<rparr>,
              \<lparr>p_obj = 1, p_dir = HK_PAD_OUT, p_name = ''out'', p_value = None, p_net = None,
               p_lock = False, p_state = 0\<rparr>],
     objs := [\<lparr>o_name = ''a'', o_tile = 0, o_class = ''not'', o_props = [], o_pads = [0], o_ctx = None\<rparr>,
              \<lparr>o_name = ''b'', o_tile = 0, o_class = ''not'', o_props = [], o_pads = [1], o_ctx = None\<rparr>],
     tiles := [\<lparr>t_dir = ''/'', t_name = ''t'', t_fname = ''t'', t_objs = [0, 1], t_nets = []\<rparr>],
     tile_tab := [Some 0]\<rparr>"

theorem hk_obj_net_joins_witness:
  "case hk_obj_net 0 ''b.out'' two_objects of (ret, st') \<Rightarrow>
    (ret = 0 \<and> st' = two_objects) \<or>
    (ret = 1 \<and> net_wf st' \<and> length (pads st') = length (pads two_objects) \<and>
     (\<exists>pt obj2 pad2. strrchr ''b.out'' CHR ''.'' = Some pt \<and>
        hk_obj_find (o_tile (obj_at two_objects (p_obj (pad_at two_objects 0)))) (take pt ''b.out'') two_objects
          = Some obj2 \<and>
        hk_pad_find obj2 (drop (pt + 1) ''b.out'') two_objects = Some pad2 \<and>
        (\<forall>p<length (pads two_objects). \<forall>q<length (pads two_objects).
           conn st' p q = joined 0 pad2 (conn two_objects) p q)))"
  by (rule hk_obj_net_joins)
    (auto simp: two_objects_def hk_start_def net_wf_def refs_wf_def less_Suc_eq)

end
