(* ===== verification/Hk_Propagate.thy ===== *)
theory Hk_Propagate
  imports Hk_Net
begin

text \<open>
  Signal propagation (\<open>hk_pad_update_str\<close>) always returns when the classes behave: the
  locale \<open>hk_classes\<close> states what a class may do in its input and start methods (compute,
  change its context, arm timers, and update its own output pads), and the theory proves
  once, for every such set of classes, that the lock of an input pad bounds the recursion
  by the number of unlocked inputs, that all input locks are restored, and that the result
  does not depend on the fuel. It is interpreted on the classes of the program in Hk_Circuit.
\<close>

section \<open>What propagation leaves alone\<close>

definition shape :: "('c, 'z) hk \<Rightarrow>
    (nat \<times> hk_pad_dir \<times> string) list \<times> (string \<times> nat \<times> string \<times> nat list) list" where
  "shape st = (map (\<lambda>pad. (p_obj pad, p_dir pad, p_name pad)) (pads st),
               map (\<lambda>ob. (o_name ob, o_tile ob, o_class ob, o_pads ob)) (objs st))"

definition wiring :: "('c, 'z) hk \<Rightarrow>
    nat option list \<times> hk_net list \<times> hk_tile list \<times> nat option list \<times> string list" where
  "wiring st = (map p_net (pads st), nets st, tiles st, tile_tab st, classes st)"

definition locks :: "('c, 'z) hk \<Rightarrow> bool list" where
  "locks st = map p_lock (pads st)"

definition in_locks :: "('c, 'z) hk \<Rightarrow> bool list" where
  \<comment> \<open>the locks that matter: those of the pads that are not outputs\<close>
  "in_locks st = map (\<lambda>pad. p_dir pad \<noteq> HK_PAD_OUT \<and> p_lock pad) (pads st)"

definition quiet_change :: "('c, 'z) hk \<Rightarrow> ('c, 'z) hk \<Rightarrow> bool" where
  "quiet_change s s' \<longleftrightarrow> shape s' = shape s \<and> wiring s' = wiring s \<and> locks s' = locks s"

definition keeps :: "('c, 'z) hk \<Rightarrow> ('c, 'z) hk \<Rightarrow> bool" where
  "keeps s s' \<longleftrightarrow> shape s' = shape s \<and> wiring s' = wiring s \<and> in_locks s' = in_locks s"

definition ctxs :: "('c, 'z) hk \<Rightarrow> 'c option list" where
  "ctxs st = map o_ctx (objs st)"

definition states :: "('c, 'z) hk \<Rightarrow> int list" where
  "states st = map p_state (pads st)"

definition open_inputs :: "('c, 'z) hk \<Rightarrow> nat" where
  \<comment> \<open>the number of unlocked pads that can receive a value\<close>
  "open_inputs st = length (filter (\<lambda>pad. p_dir pad \<noteq> HK_PAD_OUT \<and> \<not> p_lock pad) (pads st))"

lemma keeps_refl [simp]: "keeps s s"
  by (simp add: keeps_def)

lemma keeps_trans: "keeps s s1 \<Longrightarrow> keeps s1 s2 \<Longrightarrow> keeps s s2"
  by (simp add: keeps_def)

lemma shape_length:
  "shape s' = shape s \<Longrightarrow> length (pads s') = length (pads s) \<and> length (objs s') = length (objs s)"
  by (auto simp: shape_def dest!: map_eq_imp_length_eq)

lemma shape_pad:
  assumes "shape s' = shape s" "p < length (pads s)"
  shows "p_obj (pad_at s' p) = p_obj (pad_at s p)" "p_dir (pad_at s' p) = p_dir (pad_at s p)"
    "p_name (pad_at s' p) = p_name (pad_at s p)"
proof -
  have "map (\<lambda>pad. (p_obj pad, p_dir pad, p_name pad)) (pads s') ! p =
      map (\<lambda>pad. (p_obj pad, p_dir pad, p_name pad)) (pads s) ! p"
    using assms(1) by (simp add: shape_def)
  then show "p_obj (pad_at s' p) = p_obj (pad_at s p)" "p_dir (pad_at s' p) = p_dir (pad_at s p)"
    "p_name (pad_at s' p) = p_name (pad_at s p)"
    using assms(2) shape_length [OF assms(1)] by simp_all
qed

lemma shape_obj:
  assumes "shape s' = shape s" "j < length (objs s)"
  shows "o_name (obj_at s' j) = o_name (obj_at s j)" "o_tile (obj_at s' j) = o_tile (obj_at s j)"
    "o_class (obj_at s' j) = o_class (obj_at s j)" "o_pads (obj_at s' j) = o_pads (obj_at s j)"
proof -
  have "map (\<lambda>ob. (o_name ob, o_tile ob, o_class ob, o_pads ob)) (objs s') ! j =
      map (\<lambda>ob. (o_name ob, o_tile ob, o_class ob, o_pads ob)) (objs s) ! j"
    using assms(1) by (simp add: shape_def)
  then show "o_name (obj_at s' j) = o_name (obj_at s j)" "o_tile (obj_at s' j) = o_tile (obj_at s j)"
    "o_class (obj_at s' j) = o_class (obj_at s j)" "o_pads (obj_at s' j) = o_pads (obj_at s j)"
    using assms(2) shape_length [OF assms(1)] by simp_all
qed

lemma wiring_p_net:
  assumes "wiring s' = wiring s" "p < length (pads s)"
  shows "p_net (pad_at s' p) = p_net (pad_at s p)"
proof -
  have e: "map p_net (pads s') = map p_net (pads s)" using assms(1) by (simp add: wiring_def)
  then have l: "length (pads s') = length (pads s)" by (metis length_map)
  have "map p_net (pads s') ! p = map p_net (pads s) ! p" by (simp only: e)
  with assms(2) l show ?thesis by simp
qed

lemma wiring_nets: "wiring s' = wiring s \<Longrightarrow> nets s' = nets s"
  by (simp add: wiring_def)

lemma in_locks_at:
  assumes "in_locks s' = in_locks s" "p < length (pads s)" "shape s' = shape s"
    "p_dir (pad_at s p) \<noteq> HK_PAD_OUT"
  shows "p_lock (pad_at s' p) = p_lock (pad_at s p)"
proof -
  have "in_locks s' ! p = in_locks s ! p" by (simp only: assms(1))
  then show ?thesis
    using assms shape_length [OF assms(3)] shape_pad [OF assms(3,2)] by (simp add: in_locks_def)
qed

lemma open_inputs_cong:
  fixes s s' :: "('c, 'z) hk"
  assumes "shape s' = shape s" "in_locks s' = in_locks s"
  shows "open_inputs s' = open_inputs s"
proof -
  let ?d = "\<lambda>pads. map (\<lambda>pad. (p_dir pad \<noteq> HK_PAD_OUT, p_dir pad \<noteq> HK_PAD_OUT \<and> p_lock pad)) pads"
  have oi: "open_inputs st = length (filter (\<lambda>(a, b). a \<and> \<not> b) (?d (pads st)))" for st :: "('c, 'z) hk"
    by (simp add: open_inputs_def filter_map comp_def) (meson)
  have l: "length (pads s') = length (pads s)" using assms(1) shape_length by blast
  have "?d (pads s') = ?d (pads s)"
  proof (rule nth_equalityI)
    fix i assume i: "i < length (?d (pads s'))"
    then have i': "i < length (pads s)" using l by simp
    have d: "p_dir (pad_at s' i) = p_dir (pad_at s i)"
      using shape_pad(2) [OF assms(1) i'] .
    have "p_lock (pad_at s' i) = p_lock (pad_at s i)" if "p_dir (pad_at s i) \<noteq> HK_PAD_OUT"
      using in_locks_at [OF assms(2) i' assms(1) that] .
    with d i i' show "?d (pads s') ! i = ?d (pads s) ! i" by auto
  qed (simp add: l)
  then show ?thesis by (simp only: oi)
qed

lemma open_inputs_keeps: "keeps s s' \<Longrightarrow> open_inputs s' = open_inputs s"
  unfolding keeps_def by (elim conjE) (rule open_inputs_cong)

lemma quiet_upd_pad:
  assumes "\<And>x. p_obj (g x) = p_obj x \<and> p_dir (g x) = p_dir x \<and> p_name (g x) = p_name x \<and>
    p_net (g x) = p_net x \<and> p_lock (g x) = p_lock x"
  shows "quiet_change s (upd_pad p g s)" "ctxs (upd_pad p g s) = ctxs s"
  using assms
  by (auto simp: quiet_change_def shape_def wiring_def locks_def ctxs_def upd_pad_def intro!: map_map_nth)

lemma upd_pad_more [simp]: "hk_state.more (upd_pad p g s) = hk_state.more s"
  by (simp add: upd_pad_def)

lemma states_upd_pad:
  "(\<And>x. p_state (g x) = p_state x) \<Longrightarrow> states (upd_pad p g s) = states s"
  by (auto simp: states_def upd_pad_def intro!: map_map_nth)

lemma quiet_upd_obj:
  assumes "\<And>x. o_name (g x) = o_name x \<and> o_tile (g x) = o_tile x \<and> o_class (g x) = o_class x \<and>
    o_pads (g x) = o_pads x"
  shows "quiet_change s (upd_obj j g s)"
  using assms
  by (auto simp: quiet_change_def shape_def wiring_def locks_def upd_obj_def intro!: map_map_nth)

lemma quiet_trans: "quiet_change s s1 \<Longrightarrow> quiet_change s1 s2 \<Longrightarrow> quiet_change s s2"
  by (simp add: quiet_change_def)

lemma quiet_refl [simp]: "quiet_change s s"
  by (simp add: quiet_change_def)

lemma quiet_keeps:
  assumes "quiet_change s s'"
  shows "keeps s s'"
proof -
  have sh: "shape s' = shape s" and lk: "locks s' = locks s" using assms by (auto simp: quiet_change_def)
  have l: "length (pads s') = length (pads s)" using shape_length [OF sh] by simp
  have "in_locks s' = in_locks s"
  proof (rule nth_equalityI)
    fix i assume "i < length (in_locks s')"
    then have i: "i < length (pads s)" using l by (simp add: in_locks_def)
    have "locks s' ! i = locks s ! i" by (simp only: lk)
    then show "in_locks s' ! i = in_locks s ! i"
      using i l shape_pad(2) [OF sh i] by (simp add: in_locks_def locks_def)
  qed (simp add: in_locks_def l)
  with assms show ?thesis by (simp add: keeps_def quiet_change_def)
qed

definition set_lock :: "nat \<Rightarrow> bool \<Rightarrow> ('c, 'z) hk \<Rightarrow> ('c, 'z) hk" where
  "set_lock p b st = upd_pad p (\<lambda>pad. pad\<lparr>p_lock := b\<rparr>) st"

lemma set_lock_shape [simp]: "shape (set_lock p b s) = shape s" "wiring (set_lock p b s) = wiring s"
  "ctxs (set_lock p b s) = ctxs s" "length (pads (set_lock p b s)) = length (pads s)"
  "states (set_lock p b s) = states s" "hk_state.more (set_lock p b s) = hk_state.more s"
  by (auto simp: set_lock_def shape_def wiring_def ctxs_def states_def upd_pad_def intro!: map_map_nth)

lemma set_lock_at:
  "pad_at (set_lock p b s) q =
     (if p = q \<and> q < length (pads s) then (pad_at s q)\<lparr>p_lock := b\<rparr> else pad_at s q)"
  by (simp add: set_lock_def pad_at_upd)

lemma keeps_lock_out:
  assumes "p_dir (pad_at s p) = HK_PAD_OUT" "p < length (pads s)"
  shows "keeps s (set_lock p b s)"
proof -
  have "in_locks (set_lock p b s) = in_locks s"
    by (rule nth_equalityI) (use assms in \<open>auto simp: in_locks_def set_lock_at\<close>)
  then show ?thesis by (simp add: keeps_def)
qed

lemma keeps_unlock:
  \<comment> \<open>locking an open input, something that keeps the locks, and unlocking it again\<close>
  assumes "keeps (set_lock p True s) s'" "p < length (pads s)" "\<not> p_lock (pad_at s p)"
  shows "keeps s (set_lock p False s')"
proof -
  have sh: "shape s' = shape s" and wi: "wiring s' = wiring s"
    and il: "in_locks s' = in_locks (set_lock p True s)"
    using assms(1) by (auto simp: keeps_def)
  have l: "length (pads s') = length (pads s)" using shape_length [OF sh] by simp
  have "in_locks (set_lock p False s') = in_locks s"
  proof (rule nth_equalityI)
    fix i assume "i < length (in_locks (set_lock p False s'))"
    then have i: "i < length (pads s)" using l by (simp add: in_locks_def)
    have "in_locks s' ! i = in_locks (set_lock p True s) ! i" by (simp only: il)
    then show "in_locks (set_lock p False s') ! i = in_locks s ! i"
      using i l assms(3) shape_pad(2) [OF sh i] by (auto simp: in_locks_def set_lock_at split: if_splits)
  qed (simp add: in_locks_def l)
  with sh wi show ?thesis by (simp add: keeps_def)
qed

lemma open_inputs_lock:
  assumes "p < length (pads s)" "p_dir (pad_at s p) \<noteq> HK_PAD_OUT" "\<not> p_lock (pad_at s p)"
  shows "open_inputs s = Suc (open_inputs (set_lock p True s))"
proof -
  let ?P = "\<lambda>pad. p_dir pad \<noteq> HK_PAD_OUT \<and> \<not> p_lock pad"
  have "pads (set_lock p True s) = take p (pads s) @ (pad_at s p)\<lparr>p_lock := True\<rparr> # drop (Suc p) (pads s)"
    using assms(1) by (simp add: set_lock_def upd_pad_def map_nth_def upd_conv_take_nth_drop)
  moreover have "pads s = take p (pads s) @ pad_at s p # drop (Suc p) (pads s)"
    using assms(1) by (rule id_take_nth_drop)
  then have "filter ?P (pads s) = filter ?P (take p (pads s)) @ pad_at s p # filter ?P (drop (Suc p) (pads s))"
    using assms(2,3) by (metis (mono_tags, lifting) filter.simps(2) filter_append)
  ultimately show ?thesis by (simp add: open_inputs_def)
qed

section \<open>Consistency is kept\<close>

lemma net_wf_keeps:
  assumes "net_wf s" "shape s' = shape s" "wiring s' = wiring s"
  shows "net_wf s'"
proof -
  have n: "nets s' = nets s" using assms(3) by (simp add: wiring_def)
  have l: "length (pads s') = length (pads s)" using shape_length [OF assms(2)] by simp
  have pn: "\<And>p. p < length (pads s) \<Longrightarrow> p_net (pad_at s' p) = p_net (pad_at s p)"
    using wiring_p_net [OF assms(3)] .
  show ?thesis
  proof (rule net_wfI; unfold n l)
    fix k assume k: "k < length (nets s)"
    show "distinct (n_pads (net_at s k))" using net_wfD(1) [OF assms(1) k] .
    show "n_id (net_at s k) = 0 \<Longrightarrow> n_pads (net_at s k) = []" using net_wfD(3) [OF assms(1) k] .
    show "p < length (pads s) \<and> p_net (pad_at s' p) = Some k" if "p \<in> set (n_pads (net_at s k))" for p
      using net_wfD(2) [OF assms(1) k that] pn by simp
  next
    fix p k assume "p < length (pads s)" "p_net (pad_at s' p) = Some k"
    then show "k < length (nets s) \<and> p \<in> set (n_pads (net_at s k))"
      using net_wfD(4) [OF assms(1)] pn by simp
  qed
qed

lemma refs_wf_keeps:
  assumes "refs_wf s" "shape s' = shape s" "wiring s' = wiring s"
  shows "refs_wf s'"
proof -
  have t: "tiles s' = tiles s" "nets s' = nets s" using assms(3) by (simp_all add: wiring_def)
  have l: "length (pads s') = length (pads s)" "length (objs s') = length (objs s)"
    using shape_length [OF assms(2)] by simp_all
  have "set (o_pads ob) \<subseteq> {..<length (pads s)} \<and> o_tile ob < length (tiles s)" if ob: "ob \<in> set (objs s')" for ob
  proof -
    obtain j where "j < length (objs s')" and o: "obj_at s' j = ob"
      using ob unfolding in_set_conv_nth by blast
    then have j: "j < length (objs s)" "ob = obj_at s' j" using l by auto
    with assms(1) shape_obj [OF assms(2) j(1)] show ?thesis by (simp add: refs_wf_def)
  qed
  moreover have "p_obj pad < length (objs s)" if pd: "pad \<in> set (pads s')" for pad
  proof -
    obtain p where "p < length (pads s')" and o: "pad_at s' p = pad"
      using pd unfolding in_set_conv_nth by blast
    then have p: "p < length (pads s)" "pad = pad_at s' p" using l by auto
    with assms(1) shape_pad [OF assms(2) p(1)] show ?thesis by (simp add: refs_wf_def)
  qed
  ultimately show ?thesis using assms(1) l t by (auto simp: refs_wf_def)
qed

section \<open>Well-behaved classes\<close>

text \<open>
  \<open>upd_ok I s upd\<close>: in a state with \<open>I\<close>, an update of any output pad returns and
  re-establishes \<open>I\<close>. A class method must return and preserve every \<open>I\<close> that such updates
  and quiet changes of the state preserve.
\<close>

definition wf_state :: "('c, 'z) hk \<Rightarrow> bool" where
  "wf_state s \<longleftrightarrow> net_wf s \<and> refs_wf s"

definition upd_ok :: "(('c, 'z) hk \<Rightarrow> bool) \<Rightarrow> (('c, 'z) hk) updater \<Rightarrow> bool" where
  "upd_ok I upd \<longleftrightarrow>
     (\<forall>q w s. I s \<and> q < length (pads s) \<and> p_dir (pad_at s q) = HK_PAD_OUT \<longrightarrow>
        (\<exists>s'. upd q w s = Some s' \<and> I s'))"

definition quiet_closed :: "(('c, 'z) hk \<Rightarrow> bool) \<Rightarrow> (('c, 'z) hk \<Rightarrow> bool) \<Rightarrow> bool" where
  "quiet_closed wired I \<longleftrightarrow> (\<forall>s s'. I s \<and> quiet_change s s' \<and> wired s' \<longrightarrow> I s')"

definition upd_le :: "(('c, 'z) hk) updater \<Rightarrow> (('c, 'z) hk) updater \<Rightarrow> bool" where
  \<comment> \<open>\<open>upd'\<close> returns whenever \<open>upd\<close> does, with the same result\<close>
  "upd_le upd upd' \<longleftrightarrow> (\<forall>q w s s'. upd q w s = Some s' \<longrightarrow> upd' q w s = Some s')"

locale hk_classes =
  fixes cls :: "(('c, 'z) hk) class_table"
    and wired :: "('c, 'z) hk \<Rightarrow> bool"
  assumes wired_ctx: "wired s \<Longrightarrow> shape s' = shape s \<Longrightarrow> ctxs s' = ctxs s \<Longrightarrow> states s' = states s \<Longrightarrow>
      hk_state.more s' = hk_state.more s \<Longrightarrow> wired s'"
    and input_ok: "m_input (cls upd (o_class (obj_at s (p_obj (pad_at s p))))) = Some f \<Longrightarrow>
      I s \<Longrightarrow> wf_state s \<Longrightarrow> p < length (pads s) \<Longrightarrow> p_dir (pad_at s p) \<noteq> HK_PAD_OUT \<Longrightarrow>
      (\<And>s'. I s' \<Longrightarrow> wired s' \<and> shape s' = shape s) \<Longrightarrow> upd_ok I upd \<Longrightarrow> quiet_closed wired I \<Longrightarrow>
      \<exists>s'. f p v s = Some s' \<and> I s'"
    and start_ok: "m_start (cls upd (o_class (obj_at s j))) = Some g \<Longrightarrow>
      I s \<Longrightarrow> wf_state s \<Longrightarrow> j < length (objs s) \<Longrightarrow>
      (\<And>s'. I s' \<Longrightarrow> wired s' \<and> shape s' = shape s) \<Longrightarrow> upd_ok I upd \<Longrightarrow> quiet_closed wired I \<Longrightarrow>
      \<exists>s'. g j s = Some s' \<and> I s'"
    and input_mono: "upd_le upd upd' \<Longrightarrow> m_input (cls upd c) = Some f \<Longrightarrow>
      \<exists>f'. m_input (cls upd' c) = Some f' \<and> (\<forall>p v s s'. f p v s = Some s' \<longrightarrow> f' p v s = Some s')"
    and input_none: "m_input (cls upd c) = None \<Longrightarrow> m_input (cls upd' c) = None"
begin

text \<open>The invariant that the recursion maintains, relative to the state it started from.\<close>

definition kept :: "('c, 'z) hk \<Rightarrow> ('c, 'z) hk \<Rightarrow> bool" where
  "kept s0 s \<longleftrightarrow> keeps s0 s \<and> wired s"

lemma kept_quiet: "quiet_closed wired (kept s0)"
  unfolding quiet_closed_def kept_def by (blast intro: keeps_trans quiet_keeps)

lemma kept_wf: "kept s0 s \<Longrightarrow> wf_state s0 \<Longrightarrow> wf_state s"
  unfolding kept_def keeps_def wf_state_def by (blast intro: net_wf_keeps refs_wf_keeps)

lemma wired_lock: "wired s \<Longrightarrow> wired (set_lock p b s)"
  by (rule wired_ctx) simp_all

lemma kept_out_lock:
  assumes "kept s0 s" "p_dir (pad_at s p) = HK_PAD_OUT" "p < length (pads s)"
  shows "kept s0 (set_lock p b s)"
  using assms keeps_trans keeps_lock_out wired_lock unfolding kept_def by blast

lemma update_input_returns:
  assumes IH: "\<And>p v s. wf_state s \<Longrightarrow> wired s \<Longrightarrow> p < length (pads s) \<Longrightarrow>
      p_dir (pad_at s p) = HK_PAD_OUT \<Longrightarrow> open_inputs s < n \<Longrightarrow>
      \<exists>s'. hk_pad_update_str cls n p v s = Some s' \<and> kept s s'"
    and s: "wf_state s" "wired s" and q: "q < length (pads s)" "p_dir (pad_at s q) \<noteq> HK_PAD_OUT"
    and le: "open_inputs s \<le> n"
  shows "\<exists>s'. hk_pad_update_input cls (hk_pad_update_str cls n) q v s = Some s' \<and> kept s s'"
proof (cases "p_lock (pad_at s q)")
  case True
  with s show ?thesis by (simp add: hk_pad_update_input_def kept_def)
next
  case unlocked: False
  let ?upd = "hk_pad_update_str cls n"
  let ?s = "set_lock q True s"
  show ?thesis
  proof (cases "m_input (cls ?upd (o_class (obj_at s (p_obj (pad_at s q)))))")
    case None
    with unlocked s show ?thesis by (simp add: hk_pad_update_input_def kept_def)
  next
    case (Some f)
    have wf: "wf_state ?s"
      using s(1) unfolding wf_state_def by (blast intro: net_wf_keeps refs_wf_keeps set_lock_shape)
    have ks: "kept ?s ?s" using s(2) wired_lock by (simp add: kept_def)
    have un: "open_inputs ?s < n" using open_inputs_lock [OF q unlocked] le by linarith
    have uo: "upd_ok (kept ?s) ?upd"
      unfolding upd_ok_def
    proof (intro allI impI, elim conjE)
      fix p w s1 assume k: "kept ?s s1" and p: "p < length (pads s1)" "p_dir (pad_at s1 p) = HK_PAD_OUT"
      have "open_inputs s1 < n" using un open_inputs_keeps k unfolding kept_def by metis
      from IH [OF kept_wf [OF k wf] _ p this, of w] k
      obtain s2 where "?upd p w s1 = Some s2" "kept s1 s2" by (auto simp: kept_def)
      with k show "\<exists>s'. ?upd p w s1 = Some s' \<and> kept ?s s'"
        unfolding kept_def by (blast intro: keeps_trans)
    qed
    have f': "m_input (cls ?upd (o_class (obj_at ?s (p_obj (pad_at ?s q))))) = Some f"
      using Some by (simp add: set_lock_at) (simp add: set_lock_def)
    obtain s1 where s1: "f q v ?s = Some s1" "kept ?s s1"
      using input_ok [OF f' ks wf _ _ _ uo kept_quiet, of v] q
      by (auto simp: set_lock_at kept_def keeps_def)
    have "keeps s (set_lock q False s1)"
      using keeps_unlock [OF _ q(1) unlocked] s1(2) by (simp add: kept_def)
    moreover have "wired (set_lock q False s1)" using s1(2) wired_lock by (simp add: kept_def)
    ultimately show ?thesis
      using unlocked Some s1(1) by (simp add: hk_pad_update_input_def set_lock_def kept_def)
  qed
qed

lemma update_returns:
  "wf_state s \<Longrightarrow> wired s \<Longrightarrow> p < length (pads s) \<Longrightarrow> p_dir (pad_at s p) = HK_PAD_OUT \<Longrightarrow>
   open_inputs s < n \<Longrightarrow> \<exists>s'. hk_pad_update_str cls n p v s = Some s' \<and> kept s s'"
proof (induction n arbitrary: p v s)
  case 0
  then show ?case by simp
next
  case (Suc n)
  let ?s1 = "upd_pad p (\<lambda>x. x\<lparr>p_value := Some v\<rparr>) s"
  have q1: "quiet_change s ?s1" "ctxs ?s1 = ctxs s" "states ?s1 = states s"
    by (simp_all add: quiet_upd_pad states_upd_pad)
  have w1: "wired ?s1" using wired_ctx [OF Suc.prems(2) _ q1(2,3)] q1(1) upd_pad_more by (simp add: quiet_change_def)
  have k1: "kept s ?s1" using quiet_keeps [OF q1(1)] w1 by (simp add: kept_def)
  have p1: "p < length (pads ?s1)" "p_dir (pad_at ?s1 p) = HK_PAD_OUT" "p_net (pad_at ?s1 p) = p_net (pad_at s p)"
    using Suc.prems by (simp_all add: pad_at_upd)
  show ?case
  proof (cases "p_net (pad_at s p)")
    case None
    with k1 show ?thesis by simp
  next
    case (Some net)
    let ?s2 = "set_lock p True ?s1"
    let ?body = "hk_pad_forward cls (hk_pad_update_str cls n) p v"
    have nw: "net_wf s" using Suc.prems(1) by (simp add: wf_state_def)
    have mem: "net < length (nets s)" "p \<in> set (n_pads (net_at s net))"
      using net_wfD(4) [OF nw Suc.prems(3) Some] by auto
    have k2: "kept s ?s2" by (rule kept_out_lock [OF k1 p1(2,1)])
    have body: "\<exists>s'. ?body s3 q = Some s' \<and> kept s s'"
      if k3: "kept s s3" and q: "q \<in> set (n_pads (net_at s net))" for s3 q
    proof -
      have sh: "shape s3 = shape s" using k3 by (simp add: kept_def keeps_def)
      have ql: "q < length (pads s3)" using net_wfD(2) [OF nw mem(1) q] shape_length [OF sh] by simp
      show ?thesis
      proof (cases "q \<noteq> p \<and> p_dir (pad_at s3 q) \<noteq> HK_PAD_OUT")
        case False
        with k3 show ?thesis by (auto simp: hk_pad_forward_def)
      next
        case True
        have le: "open_inputs s3 \<le> n"
          using Suc.prems(5) open_inputs_keeps [of s s3] k3 by (simp add: kept_def)
        have w3: "wired s3" using k3 by (simp add: kept_def)
        from update_input_returns [OF Suc.IH kept_wf [OF k3 Suc.prems(1)] w3 ql _ le, of v] True
        obtain s4 where s4: "hk_pad_update_input cls (hk_pad_update_str cls n) q v s3 = Some s4"
          "kept s3 s4" by blast
        have "kept s s4" using s4(2) k3 unfolding kept_def by (blast intro: keeps_trans)
        with s4(1) True show ?thesis by (simp add: hk_pad_forward_def)
      qed
    qed
    obtain s3 where s3: "foldo ?body ?s2 (n_pads (net_at s net)) = Some s3" "kept s s3"
      using foldo_inv [of "kept s" "n_pads (net_at s net)" ?body ?s2] body k2 by blast
    have sh: "shape s3 = shape s" using s3(2) by (simp add: kept_def keeps_def)
    have "kept s (set_lock p False s3)"
      using kept_out_lock [OF s3(2)] shape_pad(2) [OF sh Suc.prems(3)] shape_length [OF sh] Suc.prems(3,4)
      by simp
    with s3(1) Some show ?thesis by (simp add: set_lock_def Let_def)
  qed
qed

lemma update_mono:
  "n \<le> m \<Longrightarrow> hk_pad_update_str cls n p v s = Some s' \<Longrightarrow> hk_pad_update_str cls m p v s = Some s'"
proof (induction n arbitrary: m p v s s')
  case 0
  then show ?case by simp
next
  case (Suc n)
  then obtain m' where m: "m = Suc m'" "n \<le> m'" by (cases m) auto
  have le: "upd_le (hk_pad_update_str cls n) (hk_pad_update_str cls m')"
    unfolding upd_le_def using Suc.IH [OF m(2)] by blast
  have ui: "hk_pad_update_input cls (hk_pad_update_str cls m') q w t = Some t'"
    if h: "hk_pad_update_input cls (hk_pad_update_str cls n) q w t = Some t'" for q w t t'
  proof (cases "m_input (cls (hk_pad_update_str cls n) (o_class (obj_at t (p_obj (pad_at t q)))))")
    case None
    with h input_none [OF None, of "hk_pad_update_str cls m'"] show ?thesis
      by (simp add: hk_pad_update_input_def split: if_splits)
  next
    case (Some f)
    from input_mono [OF le Some] obtain f' where
      f': "m_input (cls (hk_pad_update_str cls m') (o_class (obj_at t (p_obj (pad_at t q))))) = Some f'"
        "\<And>p v s s'. f p v s = Some s' \<Longrightarrow> f' p v s = Some s'"
      by blast
    show ?thesis
      using h Some f' by (auto simp: hk_pad_update_input_def split: if_splits)
  qed
  have fw: "foldo (hk_pad_forward cls (hk_pad_update_str cls m') p v) t ps = Some t'"
    if "foldo (hk_pad_forward cls (hk_pad_update_str cls n) p v) t ps = Some t'" for t t' ps
    using that
  proof (induction ps arbitrary: t)
    case Nil
    then show ?case by simp
  next
    case (Cons q ps)
    then obtain t1 where t1: "hk_pad_forward cls (hk_pad_update_str cls n) p v t q = Some t1"
      "foldo (hk_pad_forward cls (hk_pad_update_str cls n) p v) t1 ps = Some t'"
      by (auto split: Option.bind_splits)
    have "hk_pad_forward cls (hk_pad_update_str cls m') p v t q = Some t1"
      using t1(1) ui by (auto simp: hk_pad_forward_def split: if_splits)
    with Cons.IH [OF t1(2)] show ?case by simp
  qed
  show ?case
    using Suc.prems(2) fw unfolding m(1)
    by (auto simp: Let_def split: option.splits)
qed

end

end
