(* ===== verification/Hk_Gates.thy ===== *)
theory Hk_Gates
  imports Hk_Mod
begin

text \<open>
  The combinational classes: \<^verbatim>\<open>classes/and\<close>, \<^verbatim>\<open>classes/or\<close>, \<^verbatim>\<open>classes/not\<close>,
  \<^verbatim>\<open>classes/cmp\<close> and \<^verbatim>\<open>classes/mux\<close> (each \<^verbatim>\<open>main.c\<close>). The context a constructor allocates
  is a value of \<open>hk_ctx\<close>, kept in the object; a method that finds no context of its class
  reads through a wrong pointer, modelled by \<open>None\<close>. Integer arithmetic is that of a 32-bit
  \<open>int\<close>.
\<close>

section \<open>Contexts\<close>

record gate_ctx =
  g_inputs :: "nat option list" \<comment> \<open>\<open>inputs\<close>, its length is \<open>ninputs\<close>\<close>
  g_inv :: bool
  g_output :: nat
  g_refresh :: bool

record not_ctx =
  n_input :: nat
  n_output :: nat

record cmp_ctx =
  c_hysteresis :: int
  c_ref :: nat
  c_in :: nat
  c_out :: nat
  c_started :: bool

record mux_ctx =
  m_sel :: nat
  m_inputs :: "nat option list"
  m_output :: nat

record timer_ctx =
  tm_input :: nat
  tm_output :: nat
  tm_delay :: int
  tm_inv :: bool
  tm_tag :: sys_tag

record pulse_ctx = timer_ctx +
  tm_rising :: bool
  tm_falling :: bool
  tm_retrigger :: bool

record clock_ctx =
  ck_enable :: nat
  ck_output :: nat
  ck_period :: int
  ck_delay :: int
  ck_period_tag :: sys_tag
  ck_duty_tag :: sys_tag

record relay_ctx =
  rl_input :: nat
  rl_output0 :: nat
  rl_output1 :: nat
  rl_tag :: sys_tag

datatype 'e hk_ctx =
    And_ctx gate_ctx | Or_ctx gate_ctx | Not_ctx not_ctx | Cmp_ctx cmp_ctx | Mux_ctx mux_ctx
  | Timer_on_ctx timer_ctx | Timer_off_ctx timer_ctx | Pulse_ctx pulse_ctx
  | Clock_ctx clock_ctx | Relay_ctx relay_ctx
  | Other_ctx 'e

type_synonym ('e, 'z) hkw = "('e hk_ctx, 'z) hk"

definition ctx_of :: "nat \<Rightarrow> ('e, 'z) hkw \<Rightarrow> 'e hk_ctx option" where
  "ctx_of obj st = o_ctx (obj_at st obj)"

definition set_ctx :: "nat \<Rightarrow> 'e hk_ctx \<Rightarrow> ('e, 'z) hkw \<Rightarrow> ('e, 'z) hkw" where
  "set_ctx obj c st = upd_obj obj (\<lambda>ob. ob\<lparr>o_ctx := Some c\<rparr>) st"

definition set_state :: "nat \<Rightarrow> int \<Rightarrow> ('c, 'z) hk \<Rightarrow> ('c, 'z) hk" where
  "set_state pad s st = upd_pad pad (\<lambda>p. p\<lparr>p_state := s\<rparr>) st"

definition prop_of :: "nat \<Rightarrow> string \<Rightarrow> ('c, 'z) hk \<Rightarrow> string option" where
  \<comment> \<open>\<open>hk_prop_get (&obj->props, name)\<close>\<close>
  "prop_of obj name st = hk_prop_get (o_props (obj_at st obj)) name"

definition flag_of :: "string \<Rightarrow> int" where
  \<comment> \<open>\<open>atoi (value) ? 1:0\<close>\<close>
  "flag_of value = (if atoi value \<noteq> 0 then 1 else 0)"

section \<open>Input tables\<close>

definition scan_in :: "string \<Rightarrow> int option" where
  \<comment> \<open>\<open>sscanf (name, "in%d", &num)\<close>\<close>
  "scan_in name =
     (if take 2 name = ''in'' then
        (case signed_part (drop 2 name) of (neg, t) \<Rightarrow>
           if t \<noteq> [] \<and> digit_val 10 (hd t) \<noteq> None
           then Some (to_int32 (clamp_long (apply_sign neg (digits_val 10 0 t)))) else None)
      else None)"

definition grow_inputs :: "nat \<Rightarrow> nat option list \<Rightarrow> nat option list" where
  "grow_inputs ninputs2 inputs = inputs @ replicate (ninputs2 - length inputs) None"

definition add_input ::
    "nat \<Rightarrow> nat option list \<times> ('c, 'z) hk \<Rightarrow> hk_prop_entry \<Rightarrow> (nat option list \<times> ('c, 'z) hk) option" where
  \<comment> \<open>the property name is passed as the format of the pad name, so a \<open>%\<close> in it reads
     arguments that are not there\<close>
  "add_input obj s prop =
     (case s of (inputs, st) \<Rightarrow>
        case scan_in (pe_name prop) of
          None \<Rightarrow> Some (inputs, st)
        | Some num \<Rightarrow>
            if num < 0 then Some (inputs, st)
            else if CHR ''%'' \<in> set (pe_name prop) then None
            else (case hk_pad_create obj HK_PAD_IN (pe_name prop) st of (pad, st) \<Rightarrow>
                    Some ((grow_inputs (nat num + 1) inputs)[nat num := Some pad], st)))"

definition add_inputs ::
    "nat \<Rightarrow> ('c, 'z) hk \<Rightarrow> (nat option list \<times> ('c, 'z) hk) option" where
  "add_inputs obj st = foldo (add_input obj) ([], st) (o_props (obj_at st obj))"

section \<open>and, or\<close>

fun and_state :: "('c, 'z) hk \<Rightarrow> nat option list \<Rightarrow> int" where
  \<comment> \<open>the loop of \<open>_update\<close>, left at the first input that is 0\<close>
  "and_state st [] = 1"
| "and_state st (i # inputs) =
     (case i of
        None \<Rightarrow> and_state st inputs
      | Some p \<Rightarrow> if p_state (pad_at st p) = 0 then 0 else and_state st inputs)"

fun or_state :: "('c, 'z) hk \<Rightarrow> nat option list \<Rightarrow> int" where
  "or_state st [] = 0"
| "or_state st (i # inputs) =
     (case i of
        None \<Rightarrow> or_state st inputs
      | Some p \<Rightarrow> if p_state (pad_at st p) \<noteq> 0 then 1 else or_state st inputs)"

definition gate_new ::
    "(gate_ctx \<Rightarrow> 'e hk_ctx) \<Rightarrow> nat \<Rightarrow> ('e, 'z) hkw \<Rightarrow> (int \<times> ('e, 'z) hkw) option" where
  "gate_new mk obj st =
     map_option (\<lambda>(inputs, st).
         case hk_pad_create obj HK_PAD_OUT ''out'' st of (output, st) \<Rightarrow>
           (0, set_ctx obj (mk \<lparr>g_inputs = inputs, g_inv = (prop_of obj ''inv'' st \<noteq> None),
                              g_output = output, g_refresh = True\<rparr>) st))
       (add_inputs obj st)"

definition gate_update ::
    "(gate_ctx \<Rightarrow> 'e hk_ctx) \<Rightarrow> int \<Rightarrow> (('e, 'z) hkw) updater \<Rightarrow> nat \<Rightarrow> gate_ctx \<Rightarrow> ('e, 'z) hkw
      \<Rightarrow> (('e, 'z) hkw) option" where
  \<comment> \<open>\<open>_update\<close> once the loop has computed \<open>out\<close>\<close>
  "gate_update mk out upd obj g st =
     (let out_state = (if g_inv g then out XOR 1 else out)
      in if out_state \<noteq> p_state (pad_at st (g_output g)) \<or> g_refresh g then
           hk_pad_update_int upd (g_output g) out_state
             (set_state (g_output g) out_state (set_ctx obj (mk (g\<lparr>g_refresh := False\<rparr>)) st))
         else Some st)"

definition and_new :: "nat \<Rightarrow> ('e, 'z) hkw \<Rightarrow> (int \<times> ('e, 'z) hkw) option" where
  "and_new = gate_new And_ctx"

definition and_update :: "(('e, 'z) hkw) updater \<Rightarrow> nat \<Rightarrow> ('e, 'z) hkw \<Rightarrow> (('e, 'z) hkw) option" where
  "and_update upd obj st =
     (case ctx_of obj st of
        Some (And_ctx g) \<Rightarrow> gate_update And_ctx (and_state st (g_inputs g)) upd obj g st
      | _ \<Rightarrow> None)"

definition and_input :: "(('e, 'z) hkw) updater \<Rightarrow> nat \<Rightarrow> string \<Rightarrow> ('e, 'z) hkw \<Rightarrow> (('e, 'z) hkw) option" where
  "and_input upd pad value st =
     and_update upd (p_obj (pad_at st pad)) (set_state pad (flag_of value) st)"

definition or_new :: "nat \<Rightarrow> ('e, 'z) hkw \<Rightarrow> (int \<times> ('e, 'z) hkw) option" where
  "or_new = gate_new Or_ctx"

definition or_update :: "(('e, 'z) hkw) updater \<Rightarrow> nat \<Rightarrow> ('e, 'z) hkw \<Rightarrow> (('e, 'z) hkw) option" where
  "or_update upd obj st =
     (case ctx_of obj st of
        Some (Or_ctx g) \<Rightarrow> gate_update Or_ctx (or_state st (g_inputs g)) upd obj g st
      | _ \<Rightarrow> None)"

definition or_input :: "(('e, 'z) hkw) updater \<Rightarrow> nat \<Rightarrow> string \<Rightarrow> ('e, 'z) hkw \<Rightarrow> (('e, 'z) hkw) option" where
  "or_input upd pad value st =
     or_update upd (p_obj (pad_at st pad)) (set_state pad (flag_of value) st)"

section \<open>not\<close>

definition not_new :: "nat \<Rightarrow> ('e, 'z) hkw \<Rightarrow> (int \<times> ('e, 'z) hkw) option" where
  "not_new obj st =
     (case hk_pad_create obj HK_PAD_IN ''in'' st of (input, st) \<Rightarrow>
      case hk_pad_create obj HK_PAD_OUT ''out'' st of (output, st) \<Rightarrow>
        Some (0, set_ctx obj (Not_ctx \<lparr>n_input = input, n_output = output\<rparr>) st))"

definition not_input :: "(('e, 'z) hkw) updater \<Rightarrow> nat \<Rightarrow> string \<Rightarrow> ('e, 'z) hkw \<Rightarrow> (('e, 'z) hkw) option" where
  "not_input upd pad value st =
     (case ctx_of (p_obj (pad_at st pad)) st of
        Some (Not_ctx c) \<Rightarrow>
          let s = (if atoi value \<noteq> 0 then 0 else 1)
          in hk_pad_update_int upd (n_output c) s (set_state pad s st)
      | _ \<Rightarrow> None)"

section \<open>cmp\<close>

definition cmp_new :: "nat \<Rightarrow> ('e, 'z) hkw \<Rightarrow> (int \<times> ('e, 'z) hkw) option" where
  "cmp_new obj st =
     (let hyst = (case prop_of obj ''hysteresis'' st of None \<Rightarrow> 0 | Some str \<Rightarrow> atoi str)
      in case hk_pad_create obj HK_PAD_IN ''ref'' st of (ref, st) \<Rightarrow>
         case hk_pad_create obj HK_PAD_IN ''in'' st of (inp, st) \<Rightarrow>
         case hk_pad_create obj HK_PAD_OUT ''out'' st of (out, st) \<Rightarrow>
           Some (0, set_ctx obj (Cmp_ctx \<lparr>c_hysteresis = hyst, c_ref = ref, c_in = inp, c_out = out,
                                          c_started = False\<rparr>) (set_state out (-1) st)))"

definition cmp_start :: "(('e, 'z) hkw) updater \<Rightarrow> nat \<Rightarrow> ('e, 'z) hkw \<Rightarrow> (('e, 'z) hkw) option" where
  "cmp_start upd obj st =
     (case ctx_of obj st of
        Some (Cmp_ctx c) \<Rightarrow>
          let st = set_ctx obj (Cmp_ctx (c\<lparr>c_started := True\<rparr>)) st
          in if 0 \<le> p_state (pad_at st (c_out c))
             then hk_pad_update_int upd (c_out c) (p_state (pad_at st (c_out c))) st
             else Some st
      | _ \<Rightarrow> None)"

definition cmp_decide :: "int \<Rightarrow> int \<Rightarrow> int \<Rightarrow> int \<Rightarrow> int" where
  \<comment> \<open>the output for an input, a reference, a hysteresis and the output so far\<close>
  "cmp_decide inp ref hyst out =
     (if inp \<le> to_int32 (ref - hyst) then 0
      else if to_int32 (ref + hyst) < inp then 1 else out)"

definition cmp_input :: "(('e, 'z) hkw) updater \<Rightarrow> nat \<Rightarrow> string \<Rightarrow> ('e, 'z) hkw \<Rightarrow> (('e, 'z) hkw) option" where
  "cmp_input upd pad value st =
     (case ctx_of (p_obj (pad_at st pad)) st of
        Some (Cmp_ctx c) \<Rightarrow>
          let old = p_state (pad_at st (c_out c));
              st = set_state pad (atoi value) st;
              out_state = cmp_decide (p_state (pad_at st (c_in c))) (p_state (pad_at st (c_ref c)))
                            (c_hysteresis c) old
          in if out_state \<noteq> p_state (pad_at st (c_out c)) \<or> p_state (pad_at st (c_out c)) < 0 then
               let st = set_state (c_out c) out_state st
               in if c_started c \<and> 0 \<le> p_state (pad_at st (c_out c))
                  then hk_pad_update_int upd (c_out c) out_state st else Some st
             else Some st
      | _ \<Rightarrow> None)"

section \<open>mux\<close>

definition mux_new :: "nat \<Rightarrow> ('e, 'z) hkw \<Rightarrow> (int \<times> ('e, 'z) hkw) option" where
  "mux_new obj st =
     (case hk_pad_create obj HK_PAD_IN ''sel'' st of (sel, st) \<Rightarrow>
        map_option (\<lambda>(inputs, st).
            case hk_pad_create obj HK_PAD_OUT ''out'' st of (output, st) \<Rightarrow>
              (0, set_ctx obj (Mux_ctx \<lparr>m_sel = sel, m_inputs = inputs, m_output = output\<rparr>) st))
          (add_inputs obj st))"

definition mux_update_output ::
    "(('e, 'z) hkw) updater \<Rightarrow> mux_ctx \<Rightarrow> ('e, 'z) hkw \<Rightarrow> (('e, 'z) hkw) option" where
  "mux_update_output upd c st =
     (let sel = p_state (pad_at st (m_sel c))
      in if 0 \<le> sel \<and> sel < int (length (m_inputs c)) then
           (case m_inputs c ! nat sel of
              None \<Rightarrow> Some st
            | Some p \<Rightarrow>
                (case p_value (pad_at st p) of
                   None \<Rightarrow> Some st
                 | Some str \<Rightarrow> upd (m_output c) (cstr str) st))
         else Some st)"

definition mux_input :: "(('e, 'z) hkw) updater \<Rightarrow> nat \<Rightarrow> string \<Rightarrow> ('e, 'z) hkw \<Rightarrow> (('e, 'z) hkw) option" where
  "mux_input upd pad value st =
     (case ctx_of (p_obj (pad_at st pad)) st of
        Some (Mux_ctx c) \<Rightarrow>
          Option.bind
            (if pad = m_sel c then Some (set_state pad (atoi value) st) else upd pad value st)
            (mux_update_output upd c)
      | _ \<Rightarrow> None)"

definition mux_start :: "(('e, 'z) hkw) updater \<Rightarrow> nat \<Rightarrow> ('e, 'z) hkw \<Rightarrow> (('e, 'z) hkw) option" where
  "mux_start upd obj st =
     (case ctx_of obj st of Some (Mux_ctx c) \<Rightarrow> mux_update_output upd c st | _ \<Rightarrow> None)"

end
