(* ===== verification/Hk_Timers.thy ===== *)
theory Hk_Timers
  imports Hk_Gates "HOL-Library.Signed_Division"
begin

text \<open>
  The timed classes: \<^verbatim>\<open>classes/timer-on\<close>, \<^verbatim>\<open>classes/timer-off\<close>,
  \<^verbatim>\<open>classes/timer-pulse\<close>, \<^verbatim>\<open>classes/timer-clock\<close> and \<^verbatim>\<open>classes/relay-bistable\<close> (each
  \<^verbatim>\<open>main.c\<close>). They arm and remove timers of the event loop; a timer callback is named after
  the class and the function and gets the object as its argument.
\<close>

section \<open>Arming timers\<close>

definition arm :: "int \<Rightarrow> string \<Rightarrow> nat \<Rightarrow> ('c, 'z) hk \<Rightarrow> sys_tag \<times> ('c, 'z) hk" where
  \<comment> \<open>\<open>sys_timeout (delay, func, ctx)\<close>, the \<open>int\<close> converted to \<open>unsigned long\<close>\<close>
  "arm delay func obj st = sys_timeout (hk_clock st) (word_of_int delay) (Some func) (Some obj) st"

definition disarm :: "sys_tag \<Rightarrow> ('c, 'z) hk \<Rightarrow> ('c, 'z) hk" where
  \<comment> \<open>\<open>if (tag != 0) sys_remove (tag);\<close>\<close>
  "disarm tag st = (if tag \<noteq> 0 then sys_remove tag st else st)"

definition prop_int :: "nat \<Rightarrow> string \<Rightarrow> ('c, 'z) hk \<Rightarrow> int" where
  "prop_int obj name st = hk_prop_get_int (o_props (obj_at st obj)) name"

definition int_flag :: "bool \<Rightarrow> int" where
  "int_flag b = (if b then 1 else 0)"

section \<open>timer-on, timer-off\<close>

definition timer_new ::
    "(timer_ctx \<Rightarrow> 'e hk_ctx) \<Rightarrow> nat \<Rightarrow> ('e, 'z) hkw \<Rightarrow> (int \<times> ('e, 'z) hkw) option" where
  "timer_new mk obj st =
     (case hk_pad_create obj HK_PAD_IN ''in'' st of (input, st) \<Rightarrow>
      case hk_pad_create obj HK_PAD_OUT ''out'' st of (output, st) \<Rightarrow>
        Some (0, set_ctx obj (mk \<lparr>tm_input = input, tm_output = output,
                                 tm_delay = prop_int obj ''delay'' st,
                                 tm_inv = (prop_of obj ''inv'' st \<noteq> None), tm_tag = 0\<rparr>) st))"

definition timer_set_output ::
    "(('e, 'z) hkw) updater \<Rightarrow> ('t timer_ctx_scheme) \<Rightarrow> ('e, 'z) hkw \<Rightarrow> (('e, 'z) hkw) option" where
  "timer_set_output upd c st =
     hk_pad_update_int upd (tm_output c) (p_state (pad_at st (tm_output c)) XOR int_flag (tm_inv c)) st"

definition timer_on_new :: "nat \<Rightarrow> ('e, 'z) hkw \<Rightarrow> (int \<times> ('e, 'z) hkw) option" where
  "timer_on_new = timer_new Timer_on_ctx"

definition timer_on_start :: "(('e, 'z) hkw) updater \<Rightarrow> nat \<Rightarrow> ('e, 'z) hkw \<Rightarrow> (('e, 'z) hkw) option" where
  "timer_on_start upd obj st =
     (case ctx_of obj st of Some (Timer_on_ctx c) \<Rightarrow> timer_set_output upd c st | _ \<Rightarrow> None)"

definition timer_on_timeout ::
    "(('e, 'z) hkw) updater \<Rightarrow> nat \<Rightarrow> ('e, 'z) hkw \<Rightarrow> (int \<times> ('e, 'z) hkw) option" where
  "timer_on_timeout upd obj st =
     (case ctx_of obj st of
        Some (Timer_on_ctx c) \<Rightarrow>
          map_option (\<lambda>st. (0, st))
            (timer_set_output upd c
              (set_state (tm_output c) 1 (set_ctx obj (Timer_on_ctx (c\<lparr>tm_tag := 0\<rparr>)) st)))
      | _ \<Rightarrow> None)"

definition timer_on_input ::
    "(('e, 'z) hkw) updater \<Rightarrow> nat \<Rightarrow> string \<Rightarrow> ('e, 'z) hkw \<Rightarrow> (('e, 'z) hkw) option" where
  "timer_on_input upd pad value st =
     (let obj = p_obj (pad_at st pad); state0 = p_state (pad_at st pad)
      in case ctx_of obj st of
           Some (Timer_on_ctx c) \<Rightarrow>
             let st = set_state pad (flag_of value) st
             in if p_state (pad_at st pad) \<noteq> 0 then
                  if state0 = 0 then
                    case arm (tm_delay c) ''timer-on:timeout'' obj (disarm (tm_tag c) st) of (tag, st) \<Rightarrow>
                      Some (set_ctx obj (Timer_on_ctx (c\<lparr>tm_tag := tag\<rparr>)) st)
                  else Some st
                else
                  let st = set_ctx obj (Timer_on_ctx (c\<lparr>tm_tag := 0\<rparr>)) (disarm (tm_tag c) st)
                  in if p_state (pad_at st (tm_output c)) \<noteq> 0
                     then timer_set_output upd c (set_state (tm_output c) 0 st) else Some st
         | _ \<Rightarrow> None)"

definition timer_off_new :: "nat \<Rightarrow> ('e, 'z) hkw \<Rightarrow> (int \<times> ('e, 'z) hkw) option" where
  "timer_off_new = timer_new Timer_off_ctx"

definition timer_off_start :: "(('e, 'z) hkw) updater \<Rightarrow> nat \<Rightarrow> ('e, 'z) hkw \<Rightarrow> (('e, 'z) hkw) option" where
  "timer_off_start upd obj st =
     (case ctx_of obj st of Some (Timer_off_ctx c) \<Rightarrow> timer_set_output upd c st | _ \<Rightarrow> None)"

definition timer_off_timeout ::
    "(('e, 'z) hkw) updater \<Rightarrow> nat \<Rightarrow> ('e, 'z) hkw \<Rightarrow> (int \<times> ('e, 'z) hkw) option" where
  "timer_off_timeout upd obj st =
     (case ctx_of obj st of
        Some (Timer_off_ctx c) \<Rightarrow>
          map_option (\<lambda>st. (0, st))
            (timer_set_output upd c
              (set_state (tm_output c) 0 (set_ctx obj (Timer_off_ctx (c\<lparr>tm_tag := 0\<rparr>)) st)))
      | _ \<Rightarrow> None)"

definition timer_off_input ::
    "(('e, 'z) hkw) updater \<Rightarrow> nat \<Rightarrow> string \<Rightarrow> ('e, 'z) hkw \<Rightarrow> (('e, 'z) hkw) option" where
  "timer_off_input upd pad value st =
     (let obj = p_obj (pad_at st pad); state0 = p_state (pad_at st pad)
      in case ctx_of obj st of
           Some (Timer_off_ctx c) \<Rightarrow>
             let st = set_state pad (flag_of value) st
             in if p_state (pad_at st pad) \<noteq> 0 then
                  let st = set_ctx obj (Timer_off_ctx (c\<lparr>tm_tag := 0\<rparr>)) (disarm (tm_tag c) st)
                  in if p_state (pad_at st (tm_output c)) = 0
                     then timer_set_output upd c (set_state (tm_output c) 1 st) else Some st
                else if state0 \<noteq> 0 then
                  case arm (tm_delay c) ''timer-off:timeout'' obj (disarm (tm_tag c) st) of (tag, st) \<Rightarrow>
                    Some (set_ctx obj (Timer_off_ctx (c\<lparr>tm_tag := tag\<rparr>)) st)
                else Some st
         | _ \<Rightarrow> None)"

section \<open>timer-pulse\<close>

definition pulse_new :: "nat \<Rightarrow> ('e, 'z) hkw \<Rightarrow> (int \<times> ('e, 'z) hkw) option" where
  "pulse_new obj st =
     (case hk_pad_create obj HK_PAD_IN ''in'' st of (input, st) \<Rightarrow>
      case hk_pad_create obj HK_PAD_OUT ''out'' st of (output, st) \<Rightarrow>
        let edge = prop_of obj ''edge'' st
        in Some (0, set_ctx obj (Pulse_ctx
             \<lparr>tm_input = input, tm_output = output, tm_delay = prop_int obj ''delay'' st,
              tm_inv = (prop_of obj ''inv'' st \<noteq> None), tm_tag = 0,
              tm_rising = (edge \<noteq> Some ''falling''),
              tm_falling = (edge = Some ''falling'' \<or> edge = Some ''both''),
              tm_retrigger = (prop_of obj ''retrigger'' st \<noteq> None)\<rparr>) st))"

definition pulse_start :: "(('e, 'z) hkw) updater \<Rightarrow> nat \<Rightarrow> ('e, 'z) hkw \<Rightarrow> (('e, 'z) hkw) option" where
  "pulse_start upd obj st =
     (case ctx_of obj st of Some (Pulse_ctx c) \<Rightarrow> timer_set_output upd c st | _ \<Rightarrow> None)"

definition pulse_timeout ::
    "(('e, 'z) hkw) updater \<Rightarrow> nat \<Rightarrow> ('e, 'z) hkw \<Rightarrow> (int \<times> ('e, 'z) hkw) option" where
  "pulse_timeout upd obj st =
     (case ctx_of obj st of
        Some (Pulse_ctx c) \<Rightarrow>
          map_option (\<lambda>st. (0, st))
            (timer_set_output upd c
              (set_state (tm_output c) 0 (set_ctx obj (Pulse_ctx (c\<lparr>tm_tag := 0\<rparr>)) st)))
      | _ \<Rightarrow> None)"

definition pulse_input ::
    "(('e, 'z) hkw) updater \<Rightarrow> nat \<Rightarrow> string \<Rightarrow> ('e, 'z) hkw \<Rightarrow> (('e, 'z) hkw) option" where
  "pulse_input upd pad value st =
     (let obj = p_obj (pad_at st pad); state0 = p_state (pad_at st pad)
      in case ctx_of obj st of
           Some (Pulse_ctx c) \<Rightarrow>
             let st = set_state pad (flag_of value) st; state = p_state (pad_at st pad)
             in if (tm_rising c \<and> state0 = 0 \<and> state = 1) \<or> (tm_falling c \<and> state0 = 1 \<and> state = 0) then
                  if p_state (pad_at st (tm_output c)) = 0 \<or> tm_retrigger c then
                    case arm (tm_delay c) ''timer-pulse:timeout'' obj (disarm (tm_tag c) st) of (tag, st) \<Rightarrow>
                      let st = set_ctx obj (Pulse_ctx (c\<lparr>tm_tag := tag\<rparr>)) st
                      in if p_state (pad_at st (tm_output c)) = 0
                         then timer_set_output upd c (set_state (tm_output c) 1 st) else Some st
                  else Some st
                else Some st
         | _ \<Rightarrow> None)"

section \<open>timer-clock\<close>

definition clock_delay :: "int \<Rightarrow> string option \<Rightarrow> int option" where
  \<comment> \<open>the time the output stays at 1, from the period and the property \<open>duty\<close>; \<open>None\<close> for an
     illegal percentage. The product is that of 32-bit \<open>int\<close>s; \<open>/\<close> rounds toward zero.\<close>
  "clock_delay period duty_str =
     (let raw =
        (case duty_str of
           None \<Rightarrow> Some (period sdiv 2)
         | Some str \<Rightarrow>
             (case strchr str CHR ''%'' of
                Some i \<Rightarrow>
                  let duty = atoi (take i str)
                  in if duty \<le> 0 \<or> 100 \<le> duty then None
                     else Some (to_int32 (period * duty) sdiv 100)
              | None \<Rightarrow> Some (atoi str)))
      in map_option (\<lambda>delay. let delay = (if delay < 1 then 1 else delay)
                             in if period \<le> delay then period - 1 else delay) raw)"

definition clock_new :: "nat \<Rightarrow> ('e, 'z) hkw \<Rightarrow> (int \<times> ('e, 'z) hkw) option" where
  \<comment> \<open>a percentage loses its \<open>%\<close> in the property list\<close>
  "clock_new obj st =
     (case prop_of obj ''period'' st of
        None \<Rightarrow> Some (-1, st)
      | Some str \<Rightarrow>
          (let period = atoi str; duty_str = prop_of obj ''duty'' st
           in if period < 2 then Some (-1, st)
              else
                let st = (case duty_str of
                            None \<Rightarrow> st
                          | Some d \<Rightarrow>
                              (case strchr d CHR ''%'' of
                                 None \<Rightarrow> st | Some i \<Rightarrow> hk_obj_prop_set obj ''duty'' (take i d) st))
                in case clock_delay period duty_str of
                     None \<Rightarrow> Some (-1, st)
                   | Some delay \<Rightarrow>
                       (case hk_pad_create obj HK_PAD_IN ''enable'' st of (en, st) \<Rightarrow>
                        case hk_pad_create obj HK_PAD_OUT ''out'' (set_state en (-1) st) of (output, st) \<Rightarrow>
                          Some (0, set_ctx obj (Clock_ctx
                            \<lparr>ck_enable = en, ck_output = output, ck_period = period, ck_delay = delay,
                             ck_period_tag = 0, ck_duty_tag = 0\<rparr>) st))))"

definition clock_duty_handler ::
    "(('e, 'z) hkw) updater \<Rightarrow> nat \<Rightarrow> ('e, 'z) hkw \<Rightarrow> (int \<times> ('e, 'z) hkw) option" where
  "clock_duty_handler upd obj st =
     (case ctx_of obj st of
        Some (Clock_ctx c) \<Rightarrow>
          map_option (\<lambda>st. (0, st))
            (hk_pad_update_int upd (ck_output c) 0
              (set_state (ck_output c) 0 (set_ctx obj (Clock_ctx (c\<lparr>ck_duty_tag := 0\<rparr>)) st)))
      | _ \<Rightarrow> None)"

definition clock_period_handler ::
    "(('e, 'z) hkw) updater \<Rightarrow> nat \<Rightarrow> ('e, 'z) hkw \<Rightarrow> (int \<times> ('e, 'z) hkw) option" where
  \<comment> \<open>the context is read again after the update, which may have changed it\<close>
  "clock_period_handler upd obj st =
     (case ctx_of obj st of
        Some (Clock_ctx c) \<Rightarrow>
          Option.bind (hk_pad_update_int upd (ck_output c) 1 (set_state (ck_output c) 1 st)) (\<lambda>st.
            case ctx_of obj st of
              Some (Clock_ctx c) \<Rightarrow>
                (case arm (ck_delay c) ''timer-clock:duty_handler'' obj st of (tag, st) \<Rightarrow>
                   Some (1, set_ctx obj (Clock_ctx (c\<lparr>ck_duty_tag := tag\<rparr>)) st))
            | _ \<Rightarrow> None)
      | _ \<Rightarrow> None)"

definition clock_enable ::
    "(('e, 'z) hkw) updater \<Rightarrow> nat \<Rightarrow> ('e, 'z) hkw \<Rightarrow> (('e, 'z) hkw) option" where
  "clock_enable upd obj st =
     (case ctx_of obj st of
        Some (Clock_ctx c) \<Rightarrow>
          let st = (if ck_period_tag c = 0 then
                      case arm (ck_period c) ''timer-clock:period_handler'' obj st of (tag, st) \<Rightarrow>
                        set_ctx obj (Clock_ctx (c\<lparr>ck_period_tag := tag\<rparr>)) st
                    else st)
          in map_option snd (clock_period_handler upd obj st)
      | _ \<Rightarrow> None)"

definition clock_start :: "(('e, 'z) hkw) updater \<Rightarrow> nat \<Rightarrow> ('e, 'z) hkw \<Rightarrow> (('e, 'z) hkw) option" where
  "clock_start upd obj st =
     (case ctx_of obj st of Some (Clock_ctx c) \<Rightarrow> hk_pad_update_int upd (ck_output c) 0 st | _ \<Rightarrow> None)"

definition clock_input ::
    "(('e, 'z) hkw) updater \<Rightarrow> nat \<Rightarrow> string \<Rightarrow> ('e, 'z) hkw \<Rightarrow> (('e, 'z) hkw) option" where
  "clock_input upd pad value st =
     (let obj = p_obj (pad_at st pad); st = set_state pad (flag_of value) st
      in case ctx_of obj st of
           Some (Clock_ctx c) \<Rightarrow>
             let st = set_ctx obj (Clock_ctx (c\<lparr>ck_period_tag := 0, ck_duty_tag := 0\<rparr>))
                        (disarm (ck_duty_tag c) (disarm (ck_period_tag c) st))
             in if p_state (pad_at st pad) \<noteq> 0 then clock_enable upd obj st
                else map_option snd (clock_duty_handler upd obj st)
         | _ \<Rightarrow> None)"

section \<open>relay-bistable\<close>

definition RELAY_PULSE :: int where "RELAY_PULSE = 1000"
definition RELAY_REFRESH :: int where "RELAY_REFRESH = 3600"

definition relay_new :: "nat \<Rightarrow> ('e, 'z) hkw \<Rightarrow> (int \<times> ('e, 'z) hkw) option" where
  "relay_new obj st =
     (case hk_pad_create obj HK_PAD_IN ''in'' st of (input, st) \<Rightarrow>
      case hk_pad_create obj HK_PAD_OUT ''out0'' st of (out0, st) \<Rightarrow>
      case hk_pad_create obj HK_PAD_OUT ''out1'' st of (out1, st) \<Rightarrow>
        Some (0, set_ctx obj (Relay_ctx \<lparr>rl_input = input, rl_output0 = out0, rl_output1 = out1,
                                        rl_tag = 0\<rparr>) st))"

definition relay_drive ::
    "(('e, 'z) hkw) updater \<Rightarrow> nat \<Rightarrow> int \<Rightarrow> nat \<Rightarrow> int \<Rightarrow> ('e, 'z) hkw \<Rightarrow> (('e, 'z) hkw) option" where
  \<comment> \<open>set and send one output, then the other\<close>
  "relay_drive upd p v q w st =
     Option.bind (hk_pad_update_int upd p v (set_state p v st)) (\<lambda>st.
       hk_pad_update_int upd q w (set_state q w st))"

definition relay_rearm ::
    "int \<Rightarrow> string \<Rightarrow> nat \<Rightarrow> ('e, 'z) hkw \<Rightarrow> (('e, 'z) hkw) option" where
  "relay_rearm delay func obj st =
     (case ctx_of obj st of
        Some (Relay_ctx c) \<Rightarrow>
          (case arm delay func obj st of (tag, st) \<Rightarrow>
             Some (set_ctx obj (Relay_ctx (c\<lparr>rl_tag := tag\<rparr>)) st))
      | _ \<Rightarrow> None)"

definition relay_set_output ::
    "(('e, 'z) hkw) updater \<Rightarrow> nat \<Rightarrow> int \<Rightarrow> ('e, 'z) hkw \<Rightarrow> (('e, 'z) hkw) option" where
  "relay_set_output upd obj state st =
     (case ctx_of obj st of
        Some (Relay_ctx c) \<Rightarrow>
          Option.bind
            (if state \<noteq> 0
             then relay_drive upd (rl_output0 c) 0 (rl_output1 c) 1 (disarm (rl_tag c) st)
             else relay_drive upd (rl_output0 c) 1 (rl_output1 c) 0 (disarm (rl_tag c) st))
            (relay_rearm RELAY_PULSE ''relay-bistable:timeout'' obj)
      | _ \<Rightarrow> None)"

definition relay_refresh ::
    "(('e, 'z) hkw) updater \<Rightarrow> nat \<Rightarrow> ('e, 'z) hkw \<Rightarrow> (int \<times> ('e, 'z) hkw) option" where
  "relay_refresh upd obj st =
     (case ctx_of obj st of
        Some (Relay_ctx c) \<Rightarrow>
          map_option (\<lambda>st. (0, st)) (relay_set_output upd obj (p_state (pad_at st (rl_input c))) st)
      | _ \<Rightarrow> None)"

definition relay_timeout ::
    "(('e, 'z) hkw) updater \<Rightarrow> nat \<Rightarrow> ('e, 'z) hkw \<Rightarrow> (int \<times> ('e, 'z) hkw) option" where
  "relay_timeout upd obj st =
     (case ctx_of obj st of
        Some (Relay_ctx c) \<Rightarrow>
          map_option (\<lambda>st. (0, st))
            (Option.bind (relay_drive upd (rl_output0 c) 0 (rl_output1 c) 0 st)
              (relay_rearm (RELAY_REFRESH * 1000) ''relay-bistable:refresh'' obj))
      | _ \<Rightarrow> None)"

definition relay_start :: "(('e, 'z) hkw) updater \<Rightarrow> nat \<Rightarrow> ('e, 'z) hkw \<Rightarrow> (('e, 'z) hkw) option" where
  "relay_start upd obj st = relay_set_output upd obj 0 st"

definition relay_input ::
    "(('e, 'z) hkw) updater \<Rightarrow> nat \<Rightarrow> string \<Rightarrow> ('e, 'z) hkw \<Rightarrow> (('e, 'z) hkw) option" where
  "relay_input upd pad value st =
     (let state0 = p_state (pad_at st pad); st = set_state pad (flag_of value) st
      in if p_state (pad_at st pad) \<noteq> state0
         then relay_set_output upd (p_obj (pad_at st pad)) (p_state (pad_at st pad)) st
         else Some st)"

section \<open>The class tables\<close>

definition circuit_class :: "(('e, 'z) hkw) class_table" where
  \<comment> \<open>the classes of this theory and of Hk_Gates, without \<open>mux\<close>\<close>
  "circuit_class upd name =
     (if name = ''and'' then
        \<lparr>m_new = Some and_new, m_start = Some (and_update upd), m_input = Some (and_input upd)\<rparr>
      else if name = ''or'' then
        \<lparr>m_new = Some or_new, m_start = Some (or_update upd), m_input = Some (or_input upd)\<rparr>
      else if name = ''not'' then
        \<lparr>m_new = Some not_new, m_start = None, m_input = Some (not_input upd)\<rparr>
      else if name = ''cmp'' then
        \<lparr>m_new = Some cmp_new, m_start = Some (cmp_start upd), m_input = Some (cmp_input upd)\<rparr>
      else if name = ''timer-on'' then
        \<lparr>m_new = Some timer_on_new, m_start = Some (timer_on_start upd), m_input = Some (timer_on_input upd)\<rparr>
      else if name = ''timer-off'' then
        \<lparr>m_new = Some timer_off_new, m_start = Some (timer_off_start upd), m_input = Some (timer_off_input upd)\<rparr>
      else if name = ''timer-pulse'' then
        \<lparr>m_new = Some pulse_new, m_start = Some (pulse_start upd), m_input = Some (pulse_input upd)\<rparr>
      else if name = ''timer-clock'' then
        \<lparr>m_new = Some clock_new, m_start = Some (clock_start upd), m_input = Some (clock_input upd)\<rparr>
      else if name = ''relay-bistable'' then
        \<lparr>m_new = Some relay_new, m_start = Some (relay_start upd), m_input = Some (relay_input upd)\<rparr>
      else \<lparr>m_new = None, m_start = None, m_input = None\<rparr>)"

definition mux_class :: "(('e, 'z) hkw) class_table" where
  \<comment> \<open>all classes, \<open>mux\<close> included\<close>
  "mux_class upd name =
     (if name = ''mux'' then
        \<lparr>m_new = Some mux_new, m_start = Some (mux_start upd), m_input = Some (mux_input upd)\<rparr>
      else circuit_class upd name)"

definition timer_callback ::
    "(('e, 'z) hkw) updater \<Rightarrow> string \<Rightarrow> nat \<Rightarrow> ('e, 'z) hkw \<Rightarrow> (int \<times> ('e, 'z) hkw) option" where
  \<comment> \<open>the function behind the name a timer was armed with\<close>
  "timer_callback upd f obj st =
     (if f = ''timer-on:timeout'' then timer_on_timeout upd obj st
      else if f = ''timer-off:timeout'' then timer_off_timeout upd obj st
      else if f = ''timer-pulse:timeout'' then pulse_timeout upd obj st
      else if f = ''timer-clock:duty_handler'' then clock_duty_handler upd obj st
      else if f = ''timer-clock:period_handler'' then clock_period_handler upd obj st
      else if f = ''relay-bistable:timeout'' then relay_timeout upd obj st
      else if f = ''relay-bistable:refresh'' then relay_refresh upd obj st
      else None)"

end
