(* ===== verification/Hk_Wiring.thy ===== *)
theory Hk_Wiring
  imports Hk_Propagate Hk_Timers
begin

text \<open>
  The invariant of the objects of the classes of Hk_Gates and Hk_Timers (without \<open>mux\<close>):
  an object has a context of its class, whose pads it owns, and its pad states cohere with
  its context: a gate that has been started drives the conjunction or disjunction of its
  inputs, a delay timer is armed only while its input waits to be copied to its output.
  A method of an object only touches the object itself (\<open>touches\<close>), so that the invariant
  of the whole state reduces to that of one context (\<open>I_touch\<close>).
\<close>

section \<open>Contexts, their pads and their coherence\<close>

fun ctx_class :: "'e hk_ctx \<Rightarrow> string" where
  "ctx_class (And_ctx g) = ''and''"
| "ctx_class (Or_ctx g) = ''or''"
| "ctx_class (Not_ctx c) = ''not''"
| "ctx_class (Cmp_ctx c) = ''cmp''"
| "ctx_class (Mux_ctx c) = ''mux''"
| "ctx_class (Timer_on_ctx c) = ''timer-on''"
| "ctx_class (Timer_off_ctx c) = ''timer-off''"
| "ctx_class (Pulse_ctx c) = ''timer-pulse''"
| "ctx_class (Clock_ctx c) = ''timer-clock''"
| "ctx_class (Relay_ctx c) = ''relay-bistable''"
| "ctx_class (Other_ctx e) = []"

fun ctx_outputs :: "'e hk_ctx \<Rightarrow> nat list" where
  "ctx_outputs (And_ctx g) = [g_output g]"
| "ctx_outputs (Or_ctx g) = [g_output g]"
| "ctx_outputs (Not_ctx c) = [n_output c]"
| "ctx_outputs (Cmp_ctx c) = [c_out c]"
| "ctx_outputs (Mux_ctx c) = [m_output c]"
| "ctx_outputs (Timer_on_ctx c) = [tm_output c]"
| "ctx_outputs (Timer_off_ctx c) = [tm_output c]"
| "ctx_outputs (Pulse_ctx c) = [tm_output c]"
| "ctx_outputs (Clock_ctx c) = [ck_output c]"
| "ctx_outputs (Relay_ctx c) = [rl_output0 c, rl_output1 c]"
| "ctx_outputs (Other_ctx e) = []"

definition present :: "nat option list \<Rightarrow> nat list" where
  "present inputs = concat (map (\<lambda>i. case i of None \<Rightarrow> [] | Some p \<Rightarrow> [p]) inputs)"

lemma set_present [simp]: "set (present inputs) = {p. Some p \<in> set inputs}"
  by (force simp: present_def split: option.splits)

fun ctx_inputs :: "'e hk_ctx \<Rightarrow> nat list" where
  "ctx_inputs (And_ctx g) = present (g_inputs g)"
| "ctx_inputs (Or_ctx g) = present (g_inputs g)"
| "ctx_inputs (Not_ctx c) = [n_input c]"
| "ctx_inputs (Cmp_ctx c) = [c_ref c, c_in c]"
| "ctx_inputs (Mux_ctx c) = m_sel c # present (m_inputs c)"
| "ctx_inputs (Timer_on_ctx c) = [tm_input c]"
| "ctx_inputs (Timer_off_ctx c) = [tm_input c]"
| "ctx_inputs (Pulse_ctx c) = [tm_input c]"
| "ctx_inputs (Clock_ctx c) = [ck_enable c]"
| "ctx_inputs (Relay_ctx c) = [rl_input c]"
| "ctx_inputs (Other_ctx e) = []"

fun coherent :: "('e, 'z) hkw \<Rightarrow> 'e hk_ctx \<Rightarrow> bool" where
  "coherent st (And_ctx g) \<longleftrightarrow> g_refresh g \<or>
     p_state (pad_at st (g_output g)) =
       (if g_inv g then and_state st (g_inputs g) XOR 1 else and_state st (g_inputs g))"
| "coherent st (Or_ctx g) \<longleftrightarrow> g_refresh g \<or>
     p_state (pad_at st (g_output g)) =
       (if g_inv g then or_state st (g_inputs g) XOR 1 else or_state st (g_inputs g))"
| "coherent st (Timer_on_ctx c) \<longleftrightarrow>
     (p_state (pad_at st (tm_output c)) \<noteq> 0 \<longrightarrow> p_state (pad_at st (tm_input c)) \<noteq> 0) \<and>
     (tm_tag c \<noteq> 0 \<longrightarrow> p_state (pad_at st (tm_input c)) \<noteq> 0 \<and> p_state (pad_at st (tm_output c)) = 0)"
| "coherent st (Timer_off_ctx c) \<longleftrightarrow>
     (p_state (pad_at st (tm_input c)) \<noteq> 0 \<longrightarrow> p_state (pad_at st (tm_output c)) \<noteq> 0) \<and>
     (tm_tag c \<noteq> 0 \<longrightarrow> p_state (pad_at st (tm_input c)) = 0 \<and> p_state (pad_at st (tm_output c)) \<noteq> 0)"
| "coherent st (Pulse_ctx c) \<longleftrightarrow> (tm_tag c \<noteq> 0 \<longrightarrow> p_state (pad_at st (tm_output c)) \<noteq> 0)"
| "coherent st c \<longleftrightarrow> True"

lemma and_state_cong:
  "(\<And>q. Some q \<in> set inputs \<Longrightarrow> p_state (pad_at s' q) = p_state (pad_at s q)) \<Longrightarrow>
   and_state s' inputs = and_state s inputs"
  by (induction inputs) (auto split: option.splits)

lemma or_state_cong:
  "(\<And>q. Some q \<in> set inputs \<Longrightarrow> p_state (pad_at s' q) = p_state (pad_at s q)) \<Longrightarrow>
   or_state s' inputs = or_state s inputs"
  by (induction inputs) (auto split: option.splits)

lemma coherent_cong:
  assumes "\<And>q. q \<in> set (ctx_inputs c) \<union> set (ctx_outputs c) \<Longrightarrow> p_state (pad_at s' q) = p_state (pad_at s q)"
  shows "coherent s' c = coherent s c"
proof (cases c)
  case (And_ctx g)
  then have "and_state s' (g_inputs g) = and_state s (g_inputs g)"
    using assms by (intro and_state_cong) simp
  with And_ctx assms show ?thesis by simp
next
  case (Or_ctx g)
  then have "or_state s' (g_inputs g) = or_state s (g_inputs g)"
    using assms by (intro or_state_cong) simp
  with Or_ctx assms show ?thesis by simp
qed (use assms in simp_all)

definition circuit_names :: "string list" where
  "circuit_names = [''and'', ''or'', ''not'', ''cmp'', ''timer-on'', ''timer-off'', ''timer-pulse'',
     ''timer-clock'', ''relay-bistable'']"

definition owns :: "('c, 'z) hk \<Rightarrow> nat \<Rightarrow> nat \<Rightarrow> bool" where
  "owns st j q \<longleftrightarrow> q < length (pads st) \<and> p_obj (pad_at st q) = j"

definition obj_wired :: "('e, 'z) hkw \<Rightarrow> nat \<Rightarrow> 'e hk_ctx \<Rightarrow> bool" where
  "obj_wired st j c \<longleftrightarrow>
     (\<forall>q\<in>set (ctx_outputs c). owns st j q \<and> p_dir (pad_at st q) = HK_PAD_OUT) \<and>
     (\<forall>q\<in>set (ctx_inputs c). owns st j q \<and> p_dir (pad_at st q) \<noteq> HK_PAD_OUT) \<and>
     (ctx_class c \<notin> {''and'', ''or''} \<longrightarrow>
        (\<forall>q. owns st j q \<and> p_dir (pad_at st q) \<noteq> HK_PAD_OUT \<longrightarrow> q \<in> set (ctx_inputs c))) \<and>
     coherent st c"

definition circuit_wired :: "('e, 'z) hkw \<Rightarrow> bool" where
  "circuit_wired st \<longleftrightarrow>
     (\<forall>j<length (objs st). o_class (obj_at st j) \<in> set circuit_names \<longrightarrow>
        (\<exists>c. ctx_of j st = Some c \<and> ctx_class c = o_class (obj_at st j) \<and> obj_wired st j c))"

lemma circuit_wiredE:
  assumes "circuit_wired s" "j < length (objs s)" "o_class (obj_at s j) = n" "n \<in> set circuit_names"
  obtains c where "ctx_of j s = Some c" "ctx_class c = n" "obj_wired s j c"
  using assms unfolding circuit_wired_def by metis

lemma ctx_class_cases:
  "ctx_class c = ''and'' \<Longrightarrow> \<exists>g. c = And_ctx g"
  "ctx_class c = ''or'' \<Longrightarrow> \<exists>g. c = Or_ctx g"
  "ctx_class c = ''not'' \<Longrightarrow> \<exists>g. c = Not_ctx g"
  "ctx_class c = ''cmp'' \<Longrightarrow> \<exists>g. c = Cmp_ctx g"
  "ctx_class c = ''timer-on'' \<Longrightarrow> \<exists>g. c = Timer_on_ctx g"
  "ctx_class c = ''timer-off'' \<Longrightarrow> \<exists>g. c = Timer_off_ctx g"
  "ctx_class c = ''timer-pulse'' \<Longrightarrow> \<exists>g. c = Pulse_ctx g"
  "ctx_class c = ''timer-clock'' \<Longrightarrow> \<exists>g. c = Clock_ctx g"
  "ctx_class c = ''relay-bistable'' \<Longrightarrow> \<exists>g. c = Relay_ctx g"
  by (cases c; simp)+

section \<open>The invariant depends on shape, contexts and pad states\<close>

lemma owns_shape: "shape s' = shape s \<Longrightarrow> owns s' j q = owns s j q"
  unfolding owns_def using shape_length shape_pad(1) by metis

lemma obj_wired_step:
  assumes "obj_wired s j c" "shape s' = shape s"
    "ctx_class c' = ctx_class c" "ctx_inputs c' = ctx_inputs c" "ctx_outputs c' = ctx_outputs c"
    "coherent s' c'"
  shows "obj_wired s' j c'"
proof -
  have o: "owns s' j q = owns s j q" for q by (rule owns_shape [OF assms(2)])
  have d: "p_dir (pad_at s' q) = p_dir (pad_at s q)" if "owns s j q" for q
    using that shape_pad(2) [OF assms(2)] by (simp add: owns_def)
  show ?thesis using assms(1,6) o d unfolding obj_wired_def assms(3-5) by metis
qed

lemma ctxs_ctx_of: "ctxs s' = ctxs s \<Longrightarrow> j < length (objs s) \<Longrightarrow> ctx_of j s' = ctx_of j s"
proof -
  assume e: "ctxs s' = ctxs s" and j: "j < length (objs s)"
  then have l: "length (objs s') = length (objs s)" unfolding ctxs_def by (metis length_map)
  have "ctxs s' ! j = ctxs s ! j" by (simp only: e)
  with j l show ?thesis by (simp add: ctxs_def ctx_of_def)
qed

lemma states_at: "states s' = states s \<Longrightarrow> q < length (pads s) \<Longrightarrow> p_state (pad_at s' q) = p_state (pad_at s q)"
proof -
  assume e: "states s' = states s" and q: "q < length (pads s)"
  then have l: "length (pads s') = length (pads s)" unfolding states_def by (metis length_map)
  have "states s' ! q = states s ! q" by (simp only: e)
  with q l show ?thesis by (simp add: states_def)
qed

lemma obj_wired_owns:
  "obj_wired s j c \<Longrightarrow> q \<in> set (ctx_inputs c) \<union> set (ctx_outputs c) \<Longrightarrow> owns s j q"
  by (auto simp: obj_wired_def)

lemma obj_wired_coherent: "obj_wired s j c \<Longrightarrow> coherent s c"
  by (simp add: obj_wired_def)

definition touches :: "nat \<Rightarrow> ('e, 'z) hkw \<Rightarrow> ('e, 'z) hkw \<Rightarrow> bool" where
  \<comment> \<open>only the context and the pad states of object \<open>j\<close> differ, and no wiring, lock or shape\<close>
  "touches j s s' \<longleftrightarrow> quiet_change s s' \<and> hk_state.more s' = hk_state.more s \<and>
     (\<forall>i<length (objs s). i \<noteq> j \<longrightarrow> ctx_of i s' = ctx_of i s) \<and>
     (\<forall>q<length (pads s). p_obj (pad_at s q) \<noteq> j \<longrightarrow> p_state (pad_at s' q) = p_state (pad_at s q))"

lemma circuit_wired_touch:
  assumes w: "circuit_wired s" and t: "touches j s s'"
    and own: "\<And>c. ctx_of j s = Some c \<Longrightarrow> j < length (objs s) \<Longrightarrow> obj_wired s j c \<Longrightarrow>
      ctx_class c = o_class (obj_at s j) \<Longrightarrow>
      \<exists>c'. ctx_of j s' = Some c' \<and> ctx_class c' = ctx_class c \<and> obj_wired s' j c'"
  shows "circuit_wired s'"
proof -
  have sh: "shape s' = shape s" using t by (simp add: touches_def quiet_change_def)
  have l: "length (objs s') = length (objs s)" using shape_length [OF sh] by simp
  show ?thesis
    unfolding circuit_wired_def l
  proof (intro allI impI)
    fix i assume i: "i < length (objs s)" and n: "o_class (obj_at s' i) \<in> set circuit_names"
    have cl: "o_class (obj_at s' i) = o_class (obj_at s i)" using shape_obj(3) [OF sh i] .
    obtain c where c: "ctx_of i s = Some c" "ctx_class c = o_class (obj_at s i)" "obj_wired s i c"
      by (rule circuit_wiredE [OF w i refl]) (use n cl in auto)
    show "\<exists>c. ctx_of i s' = Some c \<and> ctx_class c = o_class (obj_at s' i) \<and> obj_wired s' i c"
    proof (cases "i = j")
      case True
      with own c i cl show ?thesis by metis
    next
      case False
      have "coherent s' c = coherent s c"
        using t False obj_wired_owns [OF c(3)] by (intro coherent_cong) (auto simp: touches_def owns_def)
      then have "obj_wired s' i c"
        using obj_wired_step [OF c(3) sh refl refl refl] obj_wired_coherent [OF c(3)] by blast
      moreover have "ctx_of i s' = Some c" using t False i c(1) unfolding touches_def by metis
      ultimately show ?thesis using c(2) cl by (intro exI [of _ c]) simp
    qed
  qed
qed

lemma touches_same:
  "quiet_change s s' \<Longrightarrow> ctxs s' = ctxs s \<Longrightarrow> states s' = states s \<Longrightarrow>
   hk_state.more s' = hk_state.more s \<Longrightarrow> touches j s s'"
  unfolding touches_def by (intro conjI allI impI) (assumption | erule (1) ctxs_ctx_of | erule (1) states_at)+

lemma circuit_wired_same:
  assumes "circuit_wired s" "shape s' = shape s" "ctxs s' = ctxs s" "states s' = states s"
  shows "circuit_wired s'"
  unfolding circuit_wired_def
proof (intro allI impI)
  fix i assume "i < length (objs s')" and n: "o_class (obj_at s' i) \<in> set circuit_names"
  then have i: "i < length (objs s)" using shape_length [OF assms(2)] by simp
  have cl: "o_class (obj_at s' i) = o_class (obj_at s i)" using shape_obj(3) [OF assms(2) i] .
  obtain c where c: "ctx_of i s = Some c" "ctx_class c = o_class (obj_at s i)" "obj_wired s i c"
    by (rule circuit_wiredE [OF assms(1) i refl]) (use n cl in auto)
  have "coherent s' c = coherent s c"
    using obj_wired_owns [OF c(3)] states_at [OF assms(4)] by (intro coherent_cong) (auto simp: owns_def)
  then have "obj_wired s' i c"
    using obj_wired_step [OF c(3) assms(2) refl refl refl] obj_wired_coherent [OF c(3)] by blast
  moreover have "ctx_of i s' = Some c" using ctxs_ctx_of [OF assms(3) i] c(1) by simp
  ultimately show "\<exists>c. ctx_of i s' = Some c \<and> ctx_class c = o_class (obj_at s' i) \<and> obj_wired s' i c"
    using c(2) cl by (intro exI [of _ c]) simp
qed

section \<open>What methods do between updates\<close>

lemma touches_shape:
  assumes "touches j s s'"
  shows "shape s' = shape s" "length (pads s') = length (pads s)" "length (objs s') = length (objs s)"
    "owns s' i q = owns s i q"
    "q < length (pads s) \<Longrightarrow> p_obj (pad_at s' q) = p_obj (pad_at s q)"
  using assms shape_length owns_shape shape_pad(1)
  unfolding touches_def quiet_change_def by blast+

lemma touches_refl [simp]: "touches j s s"
  by (simp add: touches_def)

lemma touches_set_state:
  assumes "touches j s s1" "p_obj (pad_at s p) = j \<or> length (pads s) \<le> p"
  shows "touches j s (set_state p v s1)"
proof -
  have q: "quiet_change s1 (set_state p v s1)" unfolding set_state_def by (rule quiet_upd_pad) simp
  have "ctx_of i (set_state p v s1) = ctx_of i s1" for i by (simp add: ctx_of_def set_state_def)
  moreover have "p_state (pad_at (set_state p v s1) q) = p_state (pad_at s1 q)"
    if "q < length (pads s)" "p_obj (pad_at s q) \<noteq> j" for q
    using that assms(2) by (auto simp: set_state_def pad_at_upd)
  moreover have "hk_state.more (set_state p v s1) = hk_state.more s1" by (simp add: set_state_def)
  ultimately show ?thesis
    using assms(1) quiet_trans [OF _ q] unfolding touches_def by metis
qed

lemma touches_set_ctx:
  assumes "touches j s s1"
  shows "touches j s (set_ctx j c s1)"
proof -
  have q: "quiet_change s1 (set_ctx j c s1)" unfolding set_ctx_def by (rule quiet_upd_obj) simp
  have "ctx_of i (set_ctx j c s1) = ctx_of i s1" if "i \<noteq> j" for i
    using that by (simp add: ctx_of_def set_ctx_def obj_at_upd)
  moreover have "pad_at (set_ctx j c s1) q = pad_at s1 q" for q by (simp add: set_ctx_def)
  moreover have "hk_state.more (set_ctx j c s1) = hk_state.more s1" by (simp add: set_ctx_def upd_obj_def)
  ultimately show ?thesis
    using assms quiet_trans [OF _ q] unfolding touches_def by metis
qed

lemma touches_sources:
  assumes "touches j s s1" "pads s' = pads s1" "objs s' = objs s1" "nets s' = nets s1" "tiles s' = tiles s1"
    "tile_tab s' = tile_tab s1" "classes s' = classes s1" "hk_state.more s' = hk_state.more s1"
  shows "touches j s s'"
  using assms unfolding touches_def quiet_change_def shape_def wiring_def locks_def ctx_of_def by metis

lemma hk_frame_sys:
  "pads (upd_source i g s) = pads s" "objs (upd_source i g s) = objs s"
  "nets (upd_source i g s) = nets s" "tiles (upd_source i g s) = tiles s"
  "tile_tab (upd_source i g s) = tile_tab s" "classes (upd_source i g s) = classes s"
  "hk_state.more (upd_source i g s) = hk_state.more s"
  for s :: "('c, 'z) hk"
  by (simp_all add: upd_source_def)

lemma disarm_fields [simp]:
  "pads (disarm tag s) = pads s" "objs (disarm tag s) = objs s" "nets (disarm tag s) = nets s"
  "tiles (disarm tag s) = tiles s" "tile_tab (disarm tag s) = tile_tab s"
  "classes (disarm tag s) = classes s" "hk_state.more (disarm tag s) = hk_state.more s"
  by (simp_all add: disarm_def sys_remove_def hk_frame_sys split: option.split)

lemma arm_fields:
  "pads (snd (arm delay f obj s)) = pads s" "objs (snd (arm delay f obj s)) = objs s"
  "nets (snd (arm delay f obj s)) = nets s" "tiles (snd (arm delay f obj s)) = tiles s"
  "tile_tab (snd (arm delay f obj s)) = tile_tab s" "classes (snd (arm delay f obj s)) = classes s"
  "hk_state.more (snd (arm delay f obj s)) = hk_state.more s"
  unfolding arm_def sys_timeout_def
  by (rule with_source_add_cases [of "\<lambda>src. src\<lparr>s_type := SYS_TYPE_TIMEOUT,
        s_delay := word_of_int delay, s_t := word_of_int delay + hk_clock s\<rparr>" "Some f" "Some obj" s]; simp;
      simp add: hk_frame_sys)+

lemma arm_E:
  obtains tag s' where "arm delay f obj s = (tag, s')" "pads s' = pads s" "objs s' = objs s"
    "nets s' = nets s" "tiles s' = tiles s" "tile_tab s' = tile_tab s" "classes s' = classes s"
    "hk_state.more s' = hk_state.more s"
proof -
  obtain tag s' where a: "arm delay f obj s = (tag, s')" by fastforce
  show ?thesis
    using that [OF a] arm_fields [of delay f obj s] a by simp
qed

lemma touches_disarm: "touches j s s1 \<Longrightarrow> touches j s (disarm tag s1)"
  by (rule touches_sources) simp_all

end
