(* ===== verification/Hk_Circuit.thy ===== *)
theory Hk_Circuit
  imports Hk_Wiring
begin

text \<open>
  The classes of Hk_Gates and Hk_Timers (without \<open>mux\<close>) satisfy the contract of
  Hk_Propagate: every method keeps to its object between updates and re-establishes the
  invariant of Hk_Wiring before each of them. The theory interprets the locale
  \<open>hk_classes\<close> on the class table of the program.
\<close>

section \<open>The invariant at the updates of a method\<close>

definition extends_wiring :: "(('e, 'z) hkw \<Rightarrow> bool) \<Rightarrow> bool" where
  \<comment> \<open>an invariant that adds to \<open>circuit_wired\<close> nothing about the objects of the classes here\<close>
  "extends_wiring W \<longleftrightarrow>
     (\<forall>s. W s \<longrightarrow> circuit_wired s) \<and>
     (\<forall>s s' j c c'. W s \<and> touches j s s' \<and> circuit_wired s' \<and> ctx_of j s = Some c \<and> ctx_of j s' = Some c' \<and>
        ctx_class c' = ctx_class c \<and> ctx_class c \<noteq> [] \<longrightarrow> W s')"

definition good_inv ::
    "('e, 'z) hkw \<Rightarrow> (('e, 'z) hkw \<Rightarrow> bool) \<Rightarrow> (('e, 'z) hkw) updater \<Rightarrow> bool" where
  "good_inv s0 I upd \<longleftrightarrow>
     (\<exists>W. extends_wiring W \<and> (\<forall>s. I s \<longrightarrow> W s \<and> shape s = shape s0) \<and> upd_ok I upd \<and> quiet_closed W I)"

lemma extends_circuit_wired: "extends_wiring circuit_wired"
  by (simp add: extends_wiring_def)

lemma good_invD:
  assumes "good_inv s0 I upd"
  shows "I s \<Longrightarrow> circuit_wired s" "I s \<Longrightarrow> shape s = shape s0"
    "I s \<Longrightarrow> touches j s s' \<Longrightarrow> circuit_wired s' \<Longrightarrow> ctx_of j s = Some c \<Longrightarrow> ctx_of j s' = Some c' \<Longrightarrow>
       ctx_class c' = ctx_class c \<Longrightarrow> ctx_class c \<noteq> [] \<Longrightarrow> I s'"
    "I s \<Longrightarrow> q < length (pads s) \<Longrightarrow> p_dir (pad_at s q) = HK_PAD_OUT \<Longrightarrow>
       \<exists>s'. upd q w s = Some s' \<and> I s'"
proof -
  obtain W where W: "extends_wiring W" "\<And>s. I s \<Longrightarrow> W s \<and> shape s = shape s0" "upd_ok I upd"
    "quiet_closed W I"
    using assms unfolding good_inv_def by blast
  show "I s \<Longrightarrow> circuit_wired s" "I s \<Longrightarrow> shape s = shape s0"
    using W(1,2) unfolding extends_wiring_def by blast+
  show "\<exists>s'. upd q w s = Some s' \<and> I s'"
    if "I s" "q < length (pads s)" "p_dir (pad_at s q) = HK_PAD_OUT"
    using W(3) that unfolding upd_ok_def by blast
  show "I s'" if h: "I s" "touches j s s'" "circuit_wired s'" "ctx_of j s = Some c" "ctx_of j s' = Some c'"
    "ctx_class c' = ctx_class c" "ctx_class c \<noteq> []"
  proof -
    have "W s'" using W(1,2) h unfolding extends_wiring_def by blast
    moreover have "quiet_change s s'" using h(2) by (simp add: touches_def)
    ultimately show ?thesis using W(4) h(1) unfolding quiet_closed_def by blast
  qed
qed

lemma good_invI:
  "extends_wiring W \<Longrightarrow> (\<And>s'. I s' \<Longrightarrow> W s' \<and> shape s' = shape s) \<Longrightarrow> upd_ok I upd \<Longrightarrow>
   quiet_closed W I \<Longrightarrow> good_inv s I upd"
  unfolding good_inv_def by blast

lemma I_touch:
  assumes "good_inv s0 I upd" "I s" "touches j s s'" "ctx_of j s = Some c" "ctx_of j s' = Some c'"
    "ctx_class c' = ctx_class c" "ctx_inputs c' = ctx_inputs c" "ctx_outputs c' = ctx_outputs c"
    "coherent s' c'" "ctx_class c \<noteq> []"
  shows "I s'"
proof -
  have "circuit_wired s'"
    by (rule circuit_wired_touch [OF good_invD(1) [OF assms(1,2)] assms(3)])
      (use assms(4-9) obj_wired_step [OF _ touches_shape(1) [OF assms(3)] assms(6-9)] in auto)
  then show ?thesis using good_invD(3) [OF assms(1,2,3) _ assms(4,5,6,10)] by blast
qed

definition out_pad :: "('c, 'z) hk \<Rightarrow> nat \<Rightarrow> bool" where
  "out_pad s q \<longleftrightarrow> q < length (pads s) \<and> p_dir (pad_at s q) = HK_PAD_OUT"

lemma out_pad_shape: "shape s = shape s0 \<Longrightarrow> out_pad s q = out_pad s0 q"
  unfolding out_pad_def using shape_length shape_pad(2) by metis

lemma I_upd_int:
  assumes "good_inv s0 I upd" "I s" "out_pad s0 q"
  shows "\<exists>s'. hk_pad_update_int upd q v s = Some s' \<and> I s'"
  using good_invD(4) [OF assms(1,2)] assms(3) out_pad_shape [OF good_invD(2) [OF assms(1,2)]]
  unfolding hk_pad_update_int_def out_pad_def by blast

lemma I_ctx:
  assumes "good_inv s0 I upd" "I s" "j < length (objs s0)" "o_class (obj_at s0 j) = n" "n \<in> set circuit_names"
  obtains c where "ctx_of j s = Some c" "ctx_class c = n" "obj_wired s j c"
    "\<And>q. q \<in> set (ctx_outputs c) \<Longrightarrow> out_pad s0 q" "j < length (objs s)"
proof -
  have sh: "shape s = shape s0" using good_invD(2) [OF assms(1,2)] .
  have l: "j < length (objs s)" using shape_length [OF sh] assms(3) by simp
  have cl: "o_class (obj_at s j) = n" using shape_obj(3) [OF sh assms(3)] assms(4) by simp
  obtain c where c: "ctx_of j s = Some c" "ctx_class c = n" "obj_wired s j c"
    by (rule circuit_wiredE [OF good_invD(1) [OF assms(1,2)] l cl assms(5)])
  have "out_pad s0 q" if "q \<in> set (ctx_outputs c)" for q
  proof -
    have "out_pad s q" using c(3) that by (auto simp: obj_wired_def out_pad_def owns_def)
    then show ?thesis using out_pad_shape [OF sh] by simp
  qed
  with that [OF c _ l] show ?thesis by blast
qed

lemma state_simps [simp]:
  "ctx_of j (set_state p v s) = ctx_of j s"
  "j < length (objs s) \<Longrightarrow> ctx_of j (set_ctx j c s) = Some c"
  "ctx_of j (disarm tag s) = ctx_of j s"
  "objs (set_state p v s) = objs s" "pads (set_ctx j c s) = pads s"
  "length (objs (set_ctx j c s)) = length (objs s)"
  "length (pads (set_state p v s)) = length (pads s)"
  "p_obj (pad_at (set_state p v s) q) = p_obj (pad_at s q)"
  by (auto simp: ctx_of_def set_state_def set_ctx_def obj_at_upd pad_at_upd)

lemma p_state_set:
  "p_state (pad_at (set_state p v s) q) = (if p = q \<and> q < length (pads s) then v else p_state (pad_at s q))"
  by (simp add: set_state_def pad_at_upd)

lemma ctx_of_objs: "objs s' = objs s \<Longrightarrow> ctx_of j s' = ctx_of j s"
  by (simp add: ctx_of_def)

lemma arm_step:
  assumes "touches j s s1"
  obtains tag s2 where "arm delay f obj s1 = (tag, s2)" "touches j s s2" "pads s2 = pads s1" "objs s2 = objs s1"
proof -
  obtain tag s2 where a: "arm delay f obj s1 = (tag, s2)" "pads s2 = pads s1" "objs s2 = objs s1"
    "nets s2 = nets s1" "tiles s2 = tiles s1" "tile_tab s2 = tile_tab s1" "classes s2 = classes s1"
    "hk_state.more s2 = hk_state.more s1"
    by (rule arm_E)
  from that [OF a(1) touches_sources [OF assms a(2-8)] a(2,3)] show ?thesis .
qed

lemma flag_of_cases: "flag_of v = 0 \<or> flag_of v = 1"
  by (simp add: flag_of_def)

section \<open>Gates and comparators\<close>

lemma gate_update_ok:
  \<comment> \<open>\<open>s\<close>: the last state with the invariant; \<open>s1\<close>: the state in which \<open>_update\<close> runs\<close>
  assumes g: "good_inv s0 I upd" "I s" and t: "touches j s s1" and j: "j < length (objs s)"
    and c: "ctx_of j s = Some (mk x)" "ctx_of j s1 = Some (mk x)" "obj_wired s j (mk x)"
      "out_pad s0 (g_output x)"
    and mk: "\<And>y. ctx_class (mk y) = ctx_class (mk x)" "\<And>y. ctx_outputs (mk y) = [g_output y]"
      "\<And>y. ctx_inputs (mk y) = present (g_inputs y)"
      "\<And>y st. coherent st (mk y) \<longleftrightarrow> g_refresh y \<or>
         p_state (pad_at st (g_output y)) = (if g_inv y then f st (g_inputs y) XOR 1 else f st (g_inputs y))"
      "ctx_class (mk x) \<noteq> []"
    and cong: "\<And>st st' inputs. (\<And>q. Some q \<in> set inputs \<Longrightarrow> p_state (pad_at st' q) = p_state (pad_at st q)) \<Longrightarrow>
         f st' inputs = f st inputs"
  shows "\<exists>s'. gate_update mk (f s1 (g_inputs x)) upd j x s1 = Some s' \<and> I s'"
proof -
  let ?out = "if g_inv x then f s1 (g_inputs x) XOR 1 else f s1 (g_inputs x)"
  let ?x = "x\<lparr>g_refresh := False\<rparr>"
  let ?s2 = "set_ctx j (mk ?x) s1"
  let ?s3 = "set_state (g_output x) ?out ?s2"
  have o: "p_obj (pad_at s (g_output x)) = j" "g_output x < length (pads s)"
    "p_dir (pad_at s (g_output x)) = HK_PAD_OUT"
    using c(3) by (auto simp: obj_wired_def mk(2) owns_def)
  have ne: "q \<noteq> g_output x" if "Some q \<in> set (g_inputs x)" for q
    using c(3) that o by (auto simp: obj_wired_def mk(3))
  have t3: "touches j s ?s3" using o(1) by (intro touches_set_state touches_set_ctx t) simp
  have l: "length (objs s1) = length (objs s)" "length (pads s1) = length (pads s)"
    using touches_shape [OF t] by simp_all
  have "f ?s3 (g_inputs x) = f s1 (g_inputs x)" by (rule cong) (auto simp: p_state_set dest: ne)
  then have "coherent ?s3 (mk ?x)" using o l by (cases "g_inv x") (simp_all add: mk(4) p_state_set)
  then have "I ?s3"
    by (intro I_touch [OF g t3 c(1)]) (use j l in \<open>simp_all add: mk(2,3,5) mk(1) [of ?x]\<close>)
  moreover have "I s1" if "\<not> (?out \<noteq> p_state (pad_at s1 (g_output x)) \<or> g_refresh x)"
    using that by (intro I_touch [OF g t c(1,2)]) (auto simp: mk(4,5))
  ultimately show ?thesis
    using I_upd_int [OF g(1) _ c(4)] by (simp add: gate_update_def Let_def del: state_simps)
qed

lemma and_update_ok:
  assumes g: "good_inv s0 I upd" "I s" "j < length (objs s0)" "o_class (obj_at s0 j) = ''and''"
    and t: "touches j s s1" "ctx_of j s1 = ctx_of j s"
  shows "\<exists>s'. and_update upd j s1 = Some s' \<and> I s'"
proof -
  obtain c where c: "ctx_of j s = Some c" "ctx_class c = ''and''" "obj_wired s j c"
    "\<And>q. q \<in> set (ctx_outputs c) \<Longrightarrow> out_pad s0 q" "j < length (objs s)"
    by (rule I_ctx [OF g]) (auto simp: circuit_names_def)
  then obtain x where x: "c = And_ctx x" using ctx_class_cases by blast
  have "\<exists>s'. gate_update And_ctx (and_state s1 (g_inputs x)) upd j x s1 = Some s' \<and> I s'"
    by (rule gate_update_ok [OF g(1,2) t(1) c(5)]) (use c x t in \<open>auto intro: and_state_cong\<close>)
  with c x t show ?thesis by (simp add: and_update_def)
qed

lemma or_update_ok:
  assumes g: "good_inv s0 I upd" "I s" "j < length (objs s0)" "o_class (obj_at s0 j) = ''or''"
    and t: "touches j s s1" "ctx_of j s1 = ctx_of j s"
  shows "\<exists>s'. or_update upd j s1 = Some s' \<and> I s'"
proof -
  obtain c where c: "ctx_of j s = Some c" "ctx_class c = ''or''" "obj_wired s j c"
    "\<And>q. q \<in> set (ctx_outputs c) \<Longrightarrow> out_pad s0 q" "j < length (objs s)"
    by (rule I_ctx [OF g]) (auto simp: circuit_names_def)
  then obtain x where x: "c = Or_ctx x" using ctx_class_cases by blast
  have "\<exists>s'. gate_update Or_ctx (or_state s1 (g_inputs x)) upd j x s1 = Some s' \<and> I s'"
    by (rule gate_update_ok [OF g(1,2) t(1) c(5)]) (use c x t in \<open>auto intro: or_state_cong\<close>)
  with c x t show ?thesis by (simp add: or_update_def)
qed

lemma gate_input_ok:
  assumes g: "good_inv s0 I upd" "I s" "p_obj (pad_at s p) < length (objs s0)"
  shows "o_class (obj_at s0 (p_obj (pad_at s p))) = ''and'' \<Longrightarrow> \<exists>s'. and_input upd p v s = Some s' \<and> I s'"
    "o_class (obj_at s0 (p_obj (pad_at s p))) = ''or'' \<Longrightarrow> \<exists>s'. or_input upd p v s = Some s' \<and> I s'"
  using and_update_ok [OF g _ touches_set_state [OF touches_refl]]
    or_update_ok [OF g _ touches_set_state [OF touches_refl]]
  by (simp_all add: and_input_def or_input_def)

lemma not_input_ok:
  assumes g: "good_inv s0 I upd" "I s" "p_obj (pad_at s p) < length (objs s0)"
    "o_class (obj_at s0 (p_obj (pad_at s p))) = ''not''"
  shows "\<exists>s'. not_input upd p v s = Some s' \<and> I s'"
proof -
  obtain c where c: "ctx_of (p_obj (pad_at s p)) s = Some c" "ctx_class c = ''not''"
    "\<And>q. q \<in> set (ctx_outputs c) \<Longrightarrow> out_pad s0 q"
    by (rule I_ctx [OF g]) (auto simp: circuit_names_def)
  then obtain x where x: "c = Not_ctx x" using ctx_class_cases by blast
  have "I (set_state p w s)" for w
    by (rule I_touch [where c' = c, OF g(1,2) touches_set_state [OF touches_refl] c(1)]) (use c x in simp_all)
  from I_upd_int [OF g(1) this] c x show ?thesis by (simp add: not_input_def Let_def)
qed

lemma cmp_ok:
  assumes g: "good_inv s0 I upd" "I s"
  shows "p_obj (pad_at s p) < length (objs s0) \<Longrightarrow> o_class (obj_at s0 (p_obj (pad_at s p))) = ''cmp'' \<Longrightarrow>
      \<exists>s'. cmp_input upd p v s = Some s' \<and> I s'"
    and "j < length (objs s0) \<Longrightarrow> o_class (obj_at s0 j) = ''cmp'' \<Longrightarrow>
      \<exists>s'. cmp_start upd j s = Some s' \<and> I s'"
proof -
  assume j: "p_obj (pad_at s p) < length (objs s0)" "o_class (obj_at s0 (p_obj (pad_at s p))) = ''cmp''"
  obtain c where c: "ctx_of (p_obj (pad_at s p)) s = Some c" "ctx_class c = ''cmp''"
    "obj_wired s (p_obj (pad_at s p)) c" "\<And>q. q \<in> set (ctx_outputs c) \<Longrightarrow> out_pad s0 q"
    by (rule I_ctx [OF g j]) (auto simp: circuit_names_def)
  then obtain x where x: "c = Cmp_ctx x" using ctx_class_cases by blast
  have o: "out_pad s0 (c_out x)" "p_obj (pad_at s (c_out x)) = p_obj (pad_at s p)"
    using c(3,4) x by (auto simp: obj_wired_def owns_def)
  have t1: "touches (p_obj (pad_at s p)) s (set_state p w s)" for w
    by (rule touches_set_state) simp_all
  have i1: "I (set_state p w s)" for w
    by (rule I_touch [where c' = c, OF g t1 c(1)]) (use c x in simp_all)
  have i2: "I (set_state (c_out x) w' (set_state p w s))" for w w'
    by (rule I_touch [where c' = c, OF g touches_set_state [OF t1] c(1)]) (use c x o in simp_all)
  show "\<exists>s'. cmp_input upd p v s = Some s' \<and> I s'"
    using c x i1 i2 I_upd_int [OF g(1) i2 o(1)] by (simp add: cmp_input_def Let_def)
next
  assume j: "j < length (objs s0)" "o_class (obj_at s0 j) = ''cmp''"
  obtain c where c: "ctx_of j s = Some c" "ctx_class c = ''cmp''"
    "obj_wired s j c" "\<And>q. q \<in> set (ctx_outputs c) \<Longrightarrow> out_pad s0 q" "j < length (objs s)"
    by (rule I_ctx [OF g j]) (auto simp: circuit_names_def)
  then obtain x where x: "c = Cmp_ctx x" using ctx_class_cases by blast
  have o: "out_pad s0 (c_out x)" using c(4) x by simp
  have i: "I (set_ctx j (Cmp_ctx (x\<lparr>c_started := True\<rparr>)) s)"
    by (rule I_touch [where c' = "Cmp_ctx (x\<lparr>c_started := True\<rparr>)", OF g touches_set_ctx [OF touches_refl] c(1)]) (use c x in simp_all)
  show "\<exists>s'. cmp_start upd j s = Some s' \<and> I s'"
    using c x i I_upd_int [OF g(1) i o] by (simp add: cmp_start_def Let_def)
qed

section \<open>Timers\<close>

lemma timer_set_output_ok:
  "good_inv s0 I upd \<Longrightarrow> I s \<Longrightarrow> out_pad s0 (tm_output c) \<Longrightarrow>
   \<exists>s'. timer_set_output upd c s = Some s' \<and> I s'"
  unfolding timer_set_output_def by (rule I_upd_int)

lemma timer_start_ok:
  assumes g: "good_inv s0 I upd" "I s" "j < length (objs s0)"
  shows "o_class (obj_at s0 j) = ''timer-on'' \<Longrightarrow> \<exists>s'. timer_on_start upd j s = Some s' \<and> I s'"
    "o_class (obj_at s0 j) = ''timer-off'' \<Longrightarrow> \<exists>s'. timer_off_start upd j s = Some s' \<and> I s'"
    "o_class (obj_at s0 j) = ''timer-pulse'' \<Longrightarrow> \<exists>s'. pulse_start upd j s = Some s' \<and> I s'"
proof -
  assume n: "o_class (obj_at s0 j) = ''timer-on''"
  obtain c0 where c0: "ctx_of j s = Some c0" "ctx_class c0 = ''timer-on''"
    "\<And>q. q \<in> set (ctx_outputs c0) \<Longrightarrow> out_pad s0 q"
    by (rule I_ctx [OF g n]) (auto simp: circuit_names_def)
  then obtain c where c: "c0 = Timer_on_ctx c" using ctx_class_cases by blast
  with c0 timer_set_output_ok [OF g(1,2), of c] show "\<exists>s'. timer_on_start upd j s = Some s' \<and> I s'"
    by (simp add: timer_on_start_def)
next
  assume n: "o_class (obj_at s0 j) = ''timer-off''"
  obtain c0 where c0: "ctx_of j s = Some c0" "ctx_class c0 = ''timer-off''"
    "\<And>q. q \<in> set (ctx_outputs c0) \<Longrightarrow> out_pad s0 q"
    by (rule I_ctx [OF g n]) (auto simp: circuit_names_def)
  then obtain c where c: "c0 = Timer_off_ctx c" using ctx_class_cases by blast
  with c0 timer_set_output_ok [OF g(1,2), of c] show "\<exists>s'. timer_off_start upd j s = Some s' \<and> I s'"
    by (simp add: timer_off_start_def)
next
  assume n: "o_class (obj_at s0 j) = ''timer-pulse''"
  obtain c0 where c0: "ctx_of j s = Some c0" "ctx_class c0 = ''timer-pulse''"
    "\<And>q. q \<in> set (ctx_outputs c0) \<Longrightarrow> out_pad s0 q"
    by (rule I_ctx [OF g n]) (auto simp: circuit_names_def)
  then obtain c where c: "c0 = Pulse_ctx c" using ctx_class_cases by blast
  with c0 timer_set_output_ok [OF g(1,2), of c] show "\<exists>s'. pulse_start upd j s = Some s' \<and> I s'"
    by (simp add: pulse_start_def)
qed

lemma timer_on_input_ok:
  assumes g: "good_inv s0 I upd" "I s" "p_obj (pad_at s p) < length (objs s0)"
    "o_class (obj_at s0 (p_obj (pad_at s p))) = ''timer-on''"
    and p: "p < length (pads s)" "p_dir (pad_at s p) \<noteq> HK_PAD_OUT"
  shows "\<exists>s'. timer_on_input upd p v s = Some s' \<and> I s'"
proof -
  let ?j = "p_obj (pad_at s p)" and ?s1 = "set_state p (flag_of v) s"
  obtain c0 where c0: "ctx_of ?j s = Some c0" "ctx_class c0 = ''timer-on''" "obj_wired s ?j c0"
    "\<And>q. q \<in> set (ctx_outputs c0) \<Longrightarrow> out_pad s0 q" "?j < length (objs s)"
    by (rule I_ctx [OF g(1-4)]) (auto simp: circuit_names_def)
  then obtain c where c: "c0 = Timer_on_ctx c" using ctx_class_cases by blast
  have q: "tm_input c = p" "p_obj (pad_at s (tm_output c)) = ?j" "tm_output c < length (pads s)"
    "tm_output c \<noteq> p"
    using c0(3) c p by (auto simp: obj_wired_def owns_def)
  have coh: "coherent s c0" using c0(3) by (rule obj_wired_coherent)
  have t1: "touches ?j s ?s1" by (rule touches_set_state) simp_all
  have td: "touches ?j s (disarm (tm_tag c) ?s1)" by (rule touches_disarm [OF t1])
  obtain tag s2 where a: "arm (tm_delay c) ''timer-on:timeout'' ?j (disarm (tm_tag c) ?s1) = (tag, s2)"
    "touches ?j s s2" "pads s2 = pads ?s1" "objs s2 = objs s"
    using arm_step [OF td] by (metis disarm_fields(1,2) state_simps(4))
  let ?c1 = "Timer_on_ctx (c\<lparr>tm_tag := tag\<rparr>)" and ?c2 = "Timer_on_ctx (c\<lparr>tm_tag := 0\<rparr>)"
  let ?s3 = "set_ctx ?j ?c2 (disarm (tm_tag c) ?s1)"
  have armed: "I (set_ctx ?j ?c1 s2)" if "flag_of v \<noteq> 0" "p_state (pad_at s p) = 0"
    by (rule I_touch [where c' = ?c1, OF g(1,2) touches_set_ctx [OF a(2)] c0(1)])
      (use that c0 c q coh a p in \<open>auto simp: p_state_set\<close>)
  have same: "I ?s1" if "flag_of v \<noteq> 0"
    by (rule I_touch [where c' = c0, OF g(1,2) t1 c0(1)]) (use that c0 c q coh p in \<open>auto simp: p_state_set\<close>)
  have off: "I ?s3" if "p_state (pad_at s (tm_output c)) = 0"
    by (rule I_touch [where c' = ?c2, OF g(1,2) touches_set_ctx [OF td] c0(1)])
      (use that c0 c q coh p in \<open>auto simp: p_state_set\<close>)
  have out: "I (set_state (tm_output c) 0 ?s3)"
    by (rule I_touch [where c' = ?c2, OF g(1,2) touches_set_state [OF touches_set_ctx [OF td]] c0(1)])
      (use c0 c q coh p in \<open>auto simp: p_state_set\<close>)
  have "out_pad s0 (tm_output c)" using c0(4) c by simp
  from timer_set_output_ok [OF g(1) out this] show ?thesis
    using c0(1) c a(1) armed same off p q by (auto simp: timer_on_input_def Let_def p_state_set)
qed

lemma timer_off_input_ok:
  assumes g: "good_inv s0 I upd" "I s" "p_obj (pad_at s p) < length (objs s0)"
    "o_class (obj_at s0 (p_obj (pad_at s p))) = ''timer-off''"
    and p: "p < length (pads s)" "p_dir (pad_at s p) \<noteq> HK_PAD_OUT"
  shows "\<exists>s'. timer_off_input upd p v s = Some s' \<and> I s'"
proof -
  let ?j = "p_obj (pad_at s p)" and ?s1 = "set_state p (flag_of v) s"
  obtain c0 where c0: "ctx_of ?j s = Some c0" "ctx_class c0 = ''timer-off''" "obj_wired s ?j c0"
    "\<And>q. q \<in> set (ctx_outputs c0) \<Longrightarrow> out_pad s0 q" "?j < length (objs s)"
    by (rule I_ctx [OF g(1-4)]) (auto simp: circuit_names_def)
  then obtain c where c: "c0 = Timer_off_ctx c" using ctx_class_cases by blast
  have q: "tm_input c = p" "p_obj (pad_at s (tm_output c)) = ?j" "tm_output c < length (pads s)"
    "tm_output c \<noteq> p"
    using c0(3) c p by (auto simp: obj_wired_def owns_def)
  have coh: "coherent s c0" using c0(3) by (rule obj_wired_coherent)
  have t1: "touches ?j s ?s1" by (rule touches_set_state) simp_all
  have td: "touches ?j s (disarm (tm_tag c) ?s1)" by (rule touches_disarm [OF t1])
  obtain tag s2 where a: "arm (tm_delay c) ''timer-off:timeout'' ?j (disarm (tm_tag c) ?s1) = (tag, s2)"
    "touches ?j s s2" "pads s2 = pads ?s1" "objs s2 = objs s"
    using arm_step [OF td] by (metis disarm_fields(1,2) state_simps(4))
  let ?c1 = "Timer_off_ctx (c\<lparr>tm_tag := tag\<rparr>)" and ?c2 = "Timer_off_ctx (c\<lparr>tm_tag := 0\<rparr>)"
  let ?s3 = "set_ctx ?j ?c2 (disarm (tm_tag c) ?s1)"
  have armed: "I (set_ctx ?j ?c1 s2)" if "flag_of v = 0" "p_state (pad_at s p) \<noteq> 0"
    by (rule I_touch [where c' = ?c1, OF g(1,2) touches_set_ctx [OF a(2)] c0(1)])
      (use that c0 c q coh a p in \<open>auto simp: p_state_set\<close>)
  have same: "I ?s1" if "flag_of v = 0"
    by (rule I_touch [where c' = c0, OF g(1,2) t1 c0(1)]) (use that c0 c q coh p in \<open>auto simp: p_state_set\<close>)
  have on: "I ?s3" if "p_state (pad_at s (tm_output c)) \<noteq> 0"
    by (rule I_touch [where c' = ?c2, OF g(1,2) touches_set_ctx [OF td] c0(1)])
      (use that c0 c q coh p in \<open>auto simp: p_state_set\<close>)
  have out: "I (set_state (tm_output c) 1 ?s3)"
    by (rule I_touch [where c' = ?c2, OF g(1,2) touches_set_state [OF touches_set_ctx [OF td]] c0(1)])
      (use c0 c q coh p in \<open>auto simp: p_state_set\<close>)
  have "out_pad s0 (tm_output c)" using c0(4) c by simp
  from timer_set_output_ok [OF g(1) out this] show ?thesis
    using c0(1) c a(1) armed same on p q by (auto simp: timer_off_input_def Let_def p_state_set)
qed

lemma pulse_input_ok:
  assumes g: "good_inv s0 I upd" "I s" "p_obj (pad_at s p) < length (objs s0)"
    "o_class (obj_at s0 (p_obj (pad_at s p))) = ''timer-pulse''"
    and p: "p < length (pads s)" "p_dir (pad_at s p) \<noteq> HK_PAD_OUT"
  shows "\<exists>s'. pulse_input upd p v s = Some s' \<and> I s'"
proof -
  let ?j = "p_obj (pad_at s p)" and ?s1 = "set_state p (flag_of v) s"
  obtain c0 where c0: "ctx_of ?j s = Some c0" "ctx_class c0 = ''timer-pulse''" "obj_wired s ?j c0"
    "\<And>q. q \<in> set (ctx_outputs c0) \<Longrightarrow> out_pad s0 q" "?j < length (objs s)"
    by (rule I_ctx [OF g(1-4)]) (auto simp: circuit_names_def)
  then obtain c where c: "c0 = Pulse_ctx c" using ctx_class_cases by blast
  have q: "p_obj (pad_at s (tm_output c)) = ?j" "tm_output c < length (pads s)" "tm_output c \<noteq> p"
    using c0(3) c p by (auto simp: obj_wired_def owns_def)
  have coh: "coherent s c0" using c0(3) by (rule obj_wired_coherent)
  have t1: "touches ?j s ?s1" by (rule touches_set_state) simp_all
  have td: "touches ?j s (disarm (tm_tag c) ?s1)" by (rule touches_disarm [OF t1])
  obtain tag s2 where a: "arm (tm_delay c) ''timer-pulse:timeout'' ?j (disarm (tm_tag c) ?s1) = (tag, s2)"
    "touches ?j s s2" "pads s2 = pads ?s1" "objs s2 = objs s"
    using arm_step [OF td] by (metis disarm_fields(1,2) state_simps(4))
  let ?c1 = "Pulse_ctx (c\<lparr>tm_tag := tag\<rparr>)"
  have same: "I ?s1"
    by (rule I_touch [where c' = c0, OF g(1,2) t1 c0(1)]) (use c0 c q coh p in \<open>auto simp: p_state_set\<close>)
  have again: "I (set_ctx ?j ?c1 s2)" if "p_state (pad_at s (tm_output c)) \<noteq> 0"
    by (rule I_touch [where c' = ?c1, OF g(1,2) touches_set_ctx [OF a(2)] c0(1)])
      (use that c0 c q coh a p in \<open>auto simp: p_state_set\<close>)
  have out: "I (set_state (tm_output c) 1 (set_ctx ?j ?c1 s2))"
    by (rule I_touch [where c' = ?c1, OF g(1,2) touches_set_state [OF touches_set_ctx [OF a(2)]] c0(1)])
      (use c0 c q coh a p in \<open>auto simp: p_state_set\<close>)
  have o: "out_pad s0 (tm_output c)" using c0(4) c by simp
  have "p_state (pad_at (set_ctx ?j ?c1 s2) (tm_output c)) = p_state (pad_at s (tm_output c))"
    using a(3) q by (simp add: p_state_set)
  with timer_set_output_ok [OF g(1) out, of "c\<lparr>tm_tag := tag\<rparr>"] timer_set_output_ok [OF g(1) out o] o
    show ?thesis
    using c0(1) c a(1) same again by (auto simp: pulse_input_def Let_def)
qed

lemma timer_on_timeout_ok:
  assumes g: "good_inv s0 I upd" "I s" "j < length (objs s0)" "o_class (obj_at s0 j) = ''timer-on''"
    and tag: "ctx_of j s = Some (Timer_on_ctx c)" "tm_tag c \<noteq> 0"
  shows "\<exists>s'. timer_on_timeout upd j s = Some (0, s') \<and> I s'"
proof -
  obtain c0 where c0: "ctx_of j s = Some c0" "obj_wired s j c0"
    "\<And>q. q \<in> set (ctx_outputs c0) \<Longrightarrow> out_pad s0 q" "j < length (objs s)"
    by (rule I_ctx [OF g]) (auto simp: circuit_names_def)
  then have c: "c0 = Timer_on_ctx c" using tag by simp
  have coh: "coherent s c0" using c0(2) by (rule obj_wired_coherent)
  have q: "p_obj (pad_at s (tm_output c)) = j" "tm_output c < length (pads s)" "tm_input c \<noteq> tm_output c"
    using c0(2) c by (auto simp: obj_wired_def owns_def)
  let ?c2 = "Timer_on_ctx (c\<lparr>tm_tag := 0\<rparr>)"
  have "I (set_state (tm_output c) 1 (set_ctx j ?c2 s))"
    by (rule I_touch [where c' = ?c2, OF g(1,2) touches_set_state [OF touches_set_ctx [OF touches_refl]] c0(1)])
      (use tag c0 c coh q in \<open>auto simp: p_state_set\<close>)
  from timer_set_output_ok [OF g(1) this, of c] c0(3) c tag show ?thesis
    by (auto simp: timer_on_timeout_def)
qed

lemma timer_off_timeout_ok:
  assumes g: "good_inv s0 I upd" "I s" "j < length (objs s0)" "o_class (obj_at s0 j) = ''timer-off''"
    and tag: "ctx_of j s = Some (Timer_off_ctx c)" "tm_tag c \<noteq> 0"
  shows "\<exists>s'. timer_off_timeout upd j s = Some (0, s') \<and> I s'"
proof -
  obtain c0 where c0: "ctx_of j s = Some c0" "obj_wired s j c0"
    "\<And>q. q \<in> set (ctx_outputs c0) \<Longrightarrow> out_pad s0 q" "j < length (objs s)"
    by (rule I_ctx [OF g]) (auto simp: circuit_names_def)
  then have c: "c0 = Timer_off_ctx c" using tag by simp
  have coh: "coherent s c0" using c0(2) by (rule obj_wired_coherent)
  have q: "p_obj (pad_at s (tm_output c)) = j" "tm_output c < length (pads s)" "tm_input c \<noteq> tm_output c"
    using c0(2) c by (auto simp: obj_wired_def owns_def)
  let ?c2 = "Timer_off_ctx (c\<lparr>tm_tag := 0\<rparr>)"
  have "I (set_state (tm_output c) 0 (set_ctx j ?c2 s))"
    by (rule I_touch [where c' = ?c2, OF g(1,2) touches_set_state [OF touches_set_ctx [OF touches_refl]] c0(1)])
      (use tag c0 c coh q in \<open>auto simp: p_state_set\<close>)
  from timer_set_output_ok [OF g(1) this, of c] c0(3) c tag show ?thesis
    by (auto simp: timer_off_timeout_def)
qed

lemma pulse_timeout_ok:
  assumes g: "good_inv s0 I upd" "I s" "j < length (objs s0)" "o_class (obj_at s0 j) = ''timer-pulse''"
  shows "\<exists>s'. pulse_timeout upd j s = Some (0, s') \<and> I s'"
proof -
  obtain c0 where c0: "ctx_of j s = Some c0" "ctx_class c0 = ''timer-pulse''" "obj_wired s j c0"
    "\<And>q. q \<in> set (ctx_outputs c0) \<Longrightarrow> out_pad s0 q" "j < length (objs s)"
    by (rule I_ctx [OF g]) (auto simp: circuit_names_def)
  then obtain c where c: "c0 = Pulse_ctx c" using ctx_class_cases by blast
  have q: "p_obj (pad_at s (tm_output c)) = j" "tm_output c < length (pads s)"
    using c0(3) c by (auto simp: obj_wired_def owns_def)
  let ?c2 = "Pulse_ctx (c\<lparr>tm_tag := 0\<rparr>)"
  have "I (set_state (tm_output c) 0 (set_ctx j ?c2 s))"
    by (rule I_touch [where c' = ?c2, OF g(1,2) touches_set_state [OF touches_set_ctx [OF touches_refl]] c0(1)])
      (use c0 c q in \<open>auto simp: p_state_set\<close>)
  from timer_set_output_ok [OF g(1) this, of c] c0(1,4) c show ?thesis
    by (auto simp: pulse_timeout_def)
qed

section \<open>Clocks\<close>

lemma clock_handlers_ok:
  assumes g: "good_inv s0 I upd" "I s" "j < length (objs s0)" "o_class (obj_at s0 j) = ''timer-clock''"
  shows "\<exists>s'. clock_duty_handler upd j s = Some (0, s') \<and> I s'"
    "\<exists>s'. clock_period_handler upd j s = Some (1, s') \<and> I s'"
    "\<exists>s'. clock_start upd j s = Some s' \<and> I s'"
proof -
  obtain c0 where c0: "ctx_of j s = Some c0" "ctx_class c0 = ''timer-clock''" "obj_wired s j c0"
    "\<And>q. q \<in> set (ctx_outputs c0) \<Longrightarrow> out_pad s0 q" "j < length (objs s)"
    by (rule I_ctx [OF g]) (auto simp: circuit_names_def)
  then obtain c where c: "c0 = Clock_ctx c" using ctx_class_cases by blast
  have o: "out_pad s0 (ck_output c)" "p_obj (pad_at s (ck_output c)) = j"
    using c0(3,4) c by (auto simp: obj_wired_def owns_def)
  let ?c1 = "Clock_ctx (c\<lparr>ck_duty_tag := 0\<rparr>)"
  have i1: "I (set_state (ck_output c) 0 (set_ctx j ?c1 s))"
    by (rule I_touch [where c' = ?c1, OF g(1,2) touches_set_state [OF touches_set_ctx [OF touches_refl]] c0(1)])
      (use c0 c o in auto)
  show "\<exists>s'. clock_duty_handler upd j s = Some (0, s') \<and> I s'"
    using c0 c I_upd_int [OF g(1) i1 o(1)] by (auto simp: clock_duty_handler_def)
  show "\<exists>s'. clock_start upd j s = Some s' \<and> I s'"
    using c0 c I_upd_int [OF g(1,2) o(1)] by (simp add: clock_start_def)
  have "I (set_state (ck_output c) 1 s)"
    by (rule I_touch [where c' = c0, OF g(1,2) touches_set_state [OF touches_refl] c0(1)]) (use c0 c o in auto)
  then obtain s1 where s1: "hk_pad_update_int upd (ck_output c) 1 (set_state (ck_output c) 1 s) = Some s1" "I s1"
    using I_upd_int [OF g(1) _ o(1)] by blast
  obtain d0 where d0: "ctx_of j s1 = Some d0" "ctx_class d0 = ''timer-clock''" "j < length (objs s1)"
    by (rule I_ctx [OF g(1) s1(2) g(3,4)]) (auto simp: circuit_names_def)
  then obtain d where d: "d0 = Clock_ctx d" using ctx_class_cases by blast
  obtain tag s2 where a: "arm (ck_delay d) ''timer-clock:duty_handler'' j s1 = (tag, s2)"
    "touches j s1 s2" "pads s2 = pads s1" "objs s2 = objs s1"
    using arm_step [OF touches_refl] by metis
  have "I (set_ctx j (Clock_ctx (d\<lparr>ck_duty_tag := tag\<rparr>)) s2)"
    by (rule I_touch [where c' = "Clock_ctx (d\<lparr>ck_duty_tag := tag\<rparr>)",
          OF g(1) s1(2) touches_set_ctx [OF a(2)] d0(1)]) (use d0 d a in simp_all)
  then show "\<exists>s'. clock_period_handler upd j s = Some (1, s') \<and> I s'"
    using c0 c s1 d0 d a ctx_of_objs [OF a(4), of j] by (simp add: clock_period_handler_def)
qed

lemma clock_input_ok:
  assumes g: "good_inv s0 I upd" "I s" "p_obj (pad_at s p) < length (objs s0)"
    "o_class (obj_at s0 (p_obj (pad_at s p))) = ''timer-clock''"
  shows "\<exists>s'. clock_input upd p v s = Some s' \<and> I s'"
proof -
  let ?j = "p_obj (pad_at s p)" and ?s = "set_state p (flag_of v) s"
  obtain c0 where c0: "ctx_of ?j s = Some c0" "ctx_class c0 = ''timer-clock''" "?j < length (objs s)"
    by (rule I_ctx [OF g]) (auto simp: circuit_names_def)
  then obtain c where c: "c0 = Clock_ctx c" using ctx_class_cases by blast
  let ?c1 = "c\<lparr>ck_period_tag := 0, ck_duty_tag := 0\<rparr>"
  let ?s1 = "disarm (ck_duty_tag c) (disarm (ck_period_tag c) ?s)"
  let ?s2 = "set_ctx ?j (Clock_ctx ?c1) ?s1"
  have t2: "touches ?j s ?s2" by (intro touches_set_ctx touches_disarm touches_set_state) simp_all
  have i2: "I ?s2"
    by (rule I_touch [where c' = "Clock_ctx ?c1", OF g(1,2) t2 c0(1)]) (use c0 c in simp_all)
  obtain tag s3 where a: "arm (ck_period ?c1) ''timer-clock:period_handler'' ?j ?s2 = (tag, s3)"
    "touches ?j s s3" "pads s3 = pads ?s2" "objs s3 = objs ?s2"
    by (rule arm_step [OF t2])
  have ctx2: "ctx_of ?j ?s2 = Some (Clock_ctx ?c1)" using c0(3) by simp
  have i3: "I (set_ctx ?j (Clock_ctx (?c1\<lparr>ck_period_tag := tag\<rparr>)) s3)"
    by (rule I_touch [where c' = "Clock_ctx (?c1\<lparr>ck_period_tag := tag\<rparr>)",
          OF g(1,2) touches_set_ctx [OF a(2)] c0(1)]) (use c0 c a(4) in simp_all)
  have "\<exists>s'. clock_enable upd ?j ?s2 = Some s' \<and> I s'"
    using clock_handlers_ok(2) [OF g(1) i3 g(3,4)] a(1) unfolding clock_enable_def ctx2 by auto
  moreover have "\<exists>s'. map_option snd (clock_duty_handler upd ?j ?s2) = Some s' \<and> I s'"
    using clock_handlers_ok(1) [OF g(1) i2 g(3,4)] by auto
  ultimately show ?thesis using c0 c by (simp add: clock_input_def Let_def)
qed

section \<open>Bistable relays\<close>

lemma relay_parts_ok:
  assumes g: "good_inv s0 I upd" "I s" "j < length (objs s0)" "o_class (obj_at s0 j) = ''relay-bistable''"
  shows "ctx_of j s = Some (Relay_ctx c) \<Longrightarrow>
      \<exists>s'. relay_drive upd (rl_output0 c) v (rl_output1 c) w s = Some s' \<and> I s'"
    "\<exists>s'. relay_rearm d f j s = Some s' \<and> I s'"
    "I (disarm tag s)"
proof -
  obtain c0 where c0: "ctx_of j s = Some c0" "ctx_class c0 = ''relay-bistable''" "obj_wired s j c0"
    "\<And>q. q \<in> set (ctx_outputs c0) \<Longrightarrow> out_pad s0 q" "j < length (objs s)"
    by (rule I_ctx [OF g]) (auto simp: circuit_names_def)
  then obtain e where e: "c0 = Relay_ctx e" using ctx_class_cases by blast
  show "I (disarm tag s)"
    by (rule I_touch [where c' = c0, OF g(1,2) touches_disarm [OF touches_refl] c0(1)]) (use c0 e in simp_all)
  obtain tag s2 where a: "arm d f j s = (tag, s2)" "touches j s s2" "pads s2 = pads s" "objs s2 = objs s"
    using arm_step [OF touches_refl] by metis
  have "I (set_ctx j (Relay_ctx (e\<lparr>rl_tag := tag\<rparr>)) s2)"
    by (rule I_touch [where c' = "Relay_ctx (e\<lparr>rl_tag := tag\<rparr>)", OF g(1,2) touches_set_ctx [OF a(2)] c0(1)])
      (use c0 e a(4) in simp_all)
  then show "\<exists>s'. relay_rearm d f j s = Some s' \<and> I s'"
    using c0(1) e a(1) by (simp add: relay_rearm_def)
  assume "ctx_of j s = Some (Relay_ctx c)"
  then have c: "c0 = Relay_ctx c" using c0(1) by simp
  have o: "out_pad s0 (rl_output0 c)" "out_pad s0 (rl_output1 c)" using c0(4) c by simp_all
  have ob: "p_obj (pad_at s (rl_output0 c)) = j" "p_obj (pad_at s (rl_output1 c)) = j"
    "rl_output1 c < length (pads s)"
    using c0(3) c by (auto simp: obj_wired_def owns_def)
  have i0: "I (set_state (rl_output0 c) v s)"
    by (rule I_touch [where c' = c0, OF g(1,2) touches_set_state [OF touches_refl] c0(1)]) (use c0 c ob in auto)
  obtain s1 where s1: "hk_pad_update_int upd (rl_output0 c) v (set_state (rl_output0 c) v s) = Some s1" "I s1"
    using I_upd_int [OF g(1) i0 o(1)] by blast
  obtain d0 where d0: "ctx_of j s1 = Some d0" "ctx_class d0 = ''relay-bistable''"
    by (rule I_ctx [OF g(1) s1(2) g(3,4)]) (auto simp: circuit_names_def)
  then obtain d' where d': "d0 = Relay_ctx d'" using ctx_class_cases by blast
  have "shape s1 = shape s" using good_invD(2) [OF g(1)] s1(2) g(2) by metis
  then have ob1: "p_obj (pad_at s1 (rl_output1 c)) = j" using shape_pad(1) ob by metis
  have "I (set_state (rl_output1 c) w s1)"
    by (rule I_touch [where c' = d0, OF g(1) s1(2) touches_set_state [OF touches_refl] d0(1)])
      (use d0 d' ob1 in auto)
  from I_upd_int [OF g(1) this o(2)] s1(1)
  show "\<exists>s'. relay_drive upd (rl_output0 c) v (rl_output1 c) w s = Some s' \<and> I s'"
    by (simp add: relay_drive_def)
qed

lemma relay_set_output_ok:
  assumes g: "good_inv s0 I upd" "I s" "j < length (objs s0)" "o_class (obj_at s0 j) = ''relay-bistable''"
  shows "\<exists>s'. relay_set_output upd j state s = Some s' \<and> I s'"
proof -
  obtain c0 where c0: "ctx_of j s = Some c0" "ctx_class c0 = ''relay-bistable''"
    by (rule I_ctx [OF g]) (auto simp: circuit_names_def)
  then obtain c where c: "c0 = Relay_ctx c" using ctx_class_cases by blast
  note parts = relay_parts_ok [OF g(1) _ g(3,4)]
  have drive: "\<exists>s'. relay_drive upd (rl_output0 c) v (rl_output1 c) w (disarm (rl_tag c) s) = Some s' \<and> I s'"
    for v w using parts(1) [OF parts(3) [OF g(2)]] c0(1) c by simp
  show ?thesis
  proof (cases "state \<noteq> 0")
    case True
    obtain s1 where "relay_drive upd (rl_output0 c) 0 (rl_output1 c) 1 (disarm (rl_tag c) s) = Some s1" "I s1"
      using drive by blast
    with parts(2) [of s1] True c0 c show ?thesis by (simp add: relay_set_output_def)
  next
    case False
    obtain s1 where "relay_drive upd (rl_output0 c) 1 (rl_output1 c) 0 (disarm (rl_tag c) s) = Some s1" "I s1"
      using drive by blast
    with parts(2) [of s1] False c0 c show ?thesis by (simp add: relay_set_output_def)
  qed
qed

lemma relay_events_ok:
  assumes g: "good_inv s0 I upd" "I s" "j < length (objs s0)" "o_class (obj_at s0 j) = ''relay-bistable''"
  shows "\<exists>s'. relay_timeout upd j s = Some (0, s') \<and> I s'"
    "\<exists>s'. relay_refresh upd j s = Some (0, s') \<and> I s'"
proof -
  obtain c0 where c0: "ctx_of j s = Some c0" "ctx_class c0 = ''relay-bistable''"
    by (rule I_ctx [OF g]) (auto simp: circuit_names_def)
  then obtain c where c: "c0 = Relay_ctx c" using ctx_class_cases by blast
  obtain s1 where "relay_drive upd (rl_output0 c) 0 (rl_output1 c) 0 s = Some s1" "I s1"
    using relay_parts_ok(1) [OF g] c0(1) c by blast
  with relay_parts_ok(2) [OF g(1) _ g(3,4), of s1] c0 c
  show "\<exists>s'. relay_timeout upd j s = Some (0, s') \<and> I s'" by (fastforce simp: relay_timeout_def)
  show "\<exists>s'. relay_refresh upd j s = Some (0, s') \<and> I s'"
    using relay_set_output_ok [OF g] c0 c by (fastforce simp: relay_refresh_def)
qed

lemma relay_input_ok:
  assumes g: "good_inv s0 I upd" "I s" "p_obj (pad_at s p) < length (objs s0)"
    "o_class (obj_at s0 (p_obj (pad_at s p))) = ''relay-bistable''"
  shows "\<exists>s'. relay_input upd p v s = Some s' \<and> I s'"
proof -
  obtain c0 where c0: "ctx_of (p_obj (pad_at s p)) s = Some c0" "ctx_class c0 = ''relay-bistable''"
    by (rule I_ctx [OF g]) (auto simp: circuit_names_def)
  then obtain c where c: "c0 = Relay_ctx c" using ctx_class_cases by blast
  have i: "I (set_state p w s)" for w
    by (rule I_touch [where c' = c0, OF g(1,2) touches_set_state [OF touches_refl] c0(1)]) (use c0 c in auto)
  show ?thesis
    using relay_set_output_ok [OF g(1) i g(3,4)] i by (simp add: relay_input_def Let_def)
qed

section \<open>The results of the methods grow with the update routine\<close>

lemma upd_leD: "upd_le upd upd' \<Longrightarrow> upd q w s = Some s' \<Longrightarrow> upd' q w s = Some s'"
  by (simp add: upd_le_def)

lemma upd_int_le:
  "upd_le upd upd' \<Longrightarrow> hk_pad_update_int upd q w s = Some s' \<Longrightarrow> hk_pad_update_int upd' q w s = Some s'"
  by (simp add: hk_pad_update_int_def upd_leD)

lemma gate_input_le:
  assumes "upd_le upd upd'"
  shows "and_input upd p v s = Some s' \<Longrightarrow> and_input upd' p v s = Some s'"
    "or_input upd p v s = Some s' \<Longrightarrow> or_input upd' p v s = Some s'"
    "not_input upd p v s = Some s' \<Longrightarrow> not_input upd' p v s = Some s'"
    "cmp_input upd p v s = Some s' \<Longrightarrow> cmp_input upd' p v s = Some s'"
  using upd_int_le [OF assms]
  by (auto simp: and_input_def and_update_def or_input_def or_update_def gate_update_def not_input_def
      cmp_input_def Let_def split: option.splits hk_ctx.splits if_splits)

lemma timer_input_le:
  assumes "upd_le upd upd'"
  shows "timer_on_input upd p v s = Some s' \<Longrightarrow> timer_on_input upd' p v s = Some s'"
    "timer_off_input upd p v s = Some s' \<Longrightarrow> timer_off_input upd' p v s = Some s'"
    "pulse_input upd p v s = Some s' \<Longrightarrow> pulse_input upd' p v s = Some s'"
  using upd_int_le [OF assms]
  by (auto simp: timer_on_input_def timer_off_input_def pulse_input_def timer_set_output_def
      Let_def split: option.splits hk_ctx.splits if_splits prod.splits)

lemma clock_duty_le:
  assumes "upd_le upd upd'"
  shows "clock_duty_handler upd j s = Some r \<Longrightarrow> clock_duty_handler upd' j s = Some r"
  using upd_int_le [OF assms]
  by (auto simp: clock_duty_handler_def split: option.splits hk_ctx.splits)

lemma clock_period_le:
  assumes "upd_le upd upd'"
  shows "clock_period_handler upd j s = Some r \<Longrightarrow> clock_period_handler upd' j s = Some r"
  using upd_int_le [OF assms]
  by (auto simp: clock_period_handler_def split: option.splits hk_ctx.splits Option.bind_splits)

lemma clock_input_le:
  assumes "upd_le upd upd'"
  shows "clock_input upd p v s = Some s' \<Longrightarrow> clock_input upd' p v s = Some s'"
  using clock_duty_le [OF assms] clock_period_le [OF assms]
  by (auto simp: clock_input_def clock_enable_def Let_def split: option.splits hk_ctx.splits if_splits prod.splits)

lemma relay_drive_le:
  assumes "upd_le upd upd'" "relay_drive upd p v q w s = Some s'"
  shows "relay_drive upd' p v q w s = Some s'"
  using assms(2) upd_int_le [OF assms(1)] by (auto simp: relay_drive_def split: Option.bind_splits)

lemma relay_input_le:
  assumes "upd_le upd upd'"
  shows "relay_input upd p v s = Some s' \<Longrightarrow> relay_input upd' p v s = Some s'"
  using relay_drive_le [OF assms]
  by (auto simp: relay_input_def relay_set_output_def Let_def
      split: option.splits hk_ctx.splits if_splits Option.bind_splits)

section \<open>The classes satisfy the contract\<close>

lemma circuit_input_cases:
  assumes "m_input (circuit_class upd n) = Some f"
  shows "n = ''and'' \<and> f = and_input upd \<or> n = ''or'' \<and> f = or_input upd \<or>
    n = ''not'' \<and> f = not_input upd \<or> n = ''cmp'' \<and> f = cmp_input upd \<or>
    n = ''timer-on'' \<and> f = timer_on_input upd \<or> n = ''timer-off'' \<and> f = timer_off_input upd \<or>
    n = ''timer-pulse'' \<and> f = pulse_input upd \<or> n = ''timer-clock'' \<and> f = clock_input upd \<or>
    n = ''relay-bistable'' \<and> f = relay_input upd"
  using assms by (auto simp: circuit_class_def split: if_splits)

lemma circuit_start_cases:
  assumes "m_start (circuit_class upd n) = Some f"
  shows "n = ''and'' \<and> f = and_update upd \<or> n = ''or'' \<and> f = or_update upd \<or>
    n = ''cmp'' \<and> f = cmp_start upd \<or>
    n = ''timer-on'' \<and> f = timer_on_start upd \<or> n = ''timer-off'' \<and> f = timer_off_start upd \<or>
    n = ''timer-pulse'' \<and> f = pulse_start upd \<or> n = ''timer-clock'' \<and> f = clock_start upd \<or>
    n = ''relay-bistable'' \<and> f = relay_start upd"
  using assms by (auto simp: circuit_class_def split: if_splits)

lemma circuit_input_ok:
  assumes "m_input (circuit_class upd (o_class (obj_at s (p_obj (pad_at s p))))) = Some f"
    and g: "good_inv s I upd" "I s" "p_obj (pad_at s p) < length (objs s)"
    and p: "p < length (pads s)" "p_dir (pad_at s p) \<noteq> HK_PAD_OUT"
  shows "\<exists>s'. f p v s = Some s' \<and> I s'"
  using circuit_input_cases [OF assms(1)]
proof (elim disjE conjE)
qed (simp_all add: gate_input_ok [OF g] not_input_ok [OF g] cmp_ok(1) [OF g]
    timer_on_input_ok [OF g _ p] timer_off_input_ok [OF g _ p] pulse_input_ok [OF g _ p]
    clock_input_ok [OF g] relay_input_ok [OF g])

lemma circuit_start_ok:
  assumes "m_start (circuit_class upd (o_class (obj_at s j))) = Some f"
    and g: "good_inv s I upd" "I s" "j < length (objs s)"
  shows "\<exists>s'. f j s = Some s' \<and> I s'"
  using circuit_start_cases [OF assms(1)]
proof (elim disjE conjE)
qed (simp_all add: and_update_ok [OF g] or_update_ok [OF g] cmp_ok(2) [OF g]
    timer_start_ok [OF g] clock_handlers_ok(3) [OF g] relay_set_output_ok [OF g] relay_start_def)

lemma circuit_input_mono:
  assumes "upd_le upd upd'" "m_input (circuit_class upd n) = Some f"
  shows "\<exists>f'. m_input (circuit_class upd' n) = Some f' \<and> (\<forall>p v s s'. f p v s = Some s' \<longrightarrow> f' p v s = Some s')"
  using circuit_input_cases [OF assms(2)] gate_input_le [OF assms(1)] timer_input_le [OF assms(1)]
    clock_input_le [OF assms(1)] relay_input_le [OF assms(1)]
  by (elim disjE) (simp_all add: circuit_class_def)

lemma circuit_input_none:
  "m_input (circuit_class upd n) = None \<Longrightarrow> m_input (circuit_class upd' n) = None"
  by (simp add: circuit_class_def split: if_splits)

interpretation circuit: hk_classes "circuit_class :: (('e, 'z) hkw) class_table" circuit_wired
proof
  fix s s' :: "('e, 'z) hkw"
  show "circuit_wired s \<Longrightarrow> shape s' = shape s \<Longrightarrow> ctxs s' = ctxs s \<Longrightarrow> states s' = states s \<Longrightarrow>
      circuit_wired s'"
    by (rule circuit_wired_same)
next
  fix upd upd' :: "(('e, 'z) hkw) updater" and s :: "('e, 'z) hkw" and p f v I
  assume f: "m_input (circuit_class upd (o_class (obj_at s (p_obj (pad_at s p))))) = Some f" and I: "I s"
    and w: "wf_state s" "p < length (pads s)" and d: "p_dir (pad_at s p) \<noteq> HK_PAD_OUT"
    and inv: "\<And>s'. I s' \<Longrightarrow> circuit_wired s' \<and> shape s' = shape s"
    and u: "upd_ok I upd" "quiet_closed circuit_wired I"
  have "p_obj (pad_at s p) < length (objs s)" using w by (simp add: wf_state_def refs_wf_def)
  moreover have "good_inv s I upd" by (rule good_invI [OF extends_circuit_wired _ u]) (rule inv)
  ultimately show "\<exists>s'. f p v s = Some s' \<and> I s'" using circuit_input_ok [where I = I, OF f _ I _ w(2) d] by blast
next
  fix upd upd' :: "(('e, 'z) hkw) updater" and s :: "('e, 'z) hkw" and j f I
  assume f: "m_start (circuit_class upd (o_class (obj_at s j))) = Some f" and I: "I s"
    and j: "j < length (objs s)"
    and inv: "\<And>s'. I s' \<Longrightarrow> circuit_wired s' \<and> shape s' = shape s"
    and u: "upd_ok I upd" "quiet_closed circuit_wired I"
  have "good_inv s I upd" by (rule good_invI [OF extends_circuit_wired _ u]) (rule inv)
  then show "\<exists>s'. f j s = Some s' \<and> I s'" using circuit_start_ok [where I = I, OF f _ I j] by blast
next
  fix upd upd' :: "(('e, 'z) hkw) updater" and n f
  show "upd_le upd upd' \<Longrightarrow> m_input (circuit_class upd n) = Some f \<Longrightarrow>
      \<exists>f'. m_input (circuit_class upd' n) = Some f' \<and> (\<forall>p v s s'. f p v s = Some s' \<longrightarrow> f' p v s = Some s')"
    by (rule circuit_input_mono)
  show "m_input (circuit_class upd n) = None \<Longrightarrow> m_input (circuit_class upd' n) = None"
    by (rule circuit_input_none)
qed

end
