(* ===== verification/Hk_Start.thy ===== *)
theory Hk_Start
  imports Hk_Circuit
begin

text \<open>
  \<open>hk_tile_start\<close> of \<^verbatim>\<open>core/mod.c\<close>: connecting and presetting the pads of every object, then
  running the start methods, returns for every set of classes with the contract of
  Hk_Propagate. Connecting pads only changes nets and the net of a pad (\<open>relinks\<close>).
\<close>

section \<open>What connecting pads changes\<close>

definition unlinked :: "('c, 'z) hk \<Rightarrow> hk_pad list" where
  "unlinked s = map (\<lambda>p. p\<lparr>p_net := None\<rparr>) (pads s)"

definition nets_ok :: "('c, 'z) hk \<Rightarrow> bool" where
  "nets_ok s \<longleftrightarrow> (\<forall>t\<in>set (tiles s). set (t_nets t) \<subseteq> {..<length (nets s)})"

definition relinks :: "('c, 'z) hk \<Rightarrow> ('c, 'z) hk \<Rightarrow> bool" where
  "relinks s s' \<longleftrightarrow> objs s' = objs s \<and> unlinked s' = unlinked s \<and>
     map t_objs (tiles s') = map t_objs (tiles s) \<and> length (nets s) \<le> length (nets s') \<and>
     classes s' = classes s \<and> hk_state.more s' = hk_state.more s \<and> (nets_ok s \<longrightarrow> nets_ok s')"

lemma relinks_refl [simp]: "relinks s s"
  by (simp add: relinks_def)

lemma relinks_trans: "relinks s s1 \<Longrightarrow> relinks s1 s2 \<Longrightarrow> relinks s s2"
  by (auto simp: relinks_def)

lemma relinks_p_net: "relinks s (upd_pad p (\<lambda>x. x\<lparr>p_net := n\<rparr>) s)"
  by (auto simp: relinks_def unlinked_def nets_ok_def upd_pad_def intro!: map_map_nth)

lemma relinks_upd_net: "relinks s (upd_net n g s)"
  by (simp add: relinks_def unlinked_def nets_ok_def upd_net_def)

lemma relinks_connect: "relinks s (snd (hk_net_connect net p s))"
  by (auto simp: hk_net_connect_def intro: relinks_trans [OF relinks_upd_net relinks_p_net])

lemma relinks_foldl: "(\<And>t x. relinks t (f t x)) \<Longrightarrow> relinks s (foldl f s xs)"
proof (induction xs arbitrary: s)
  case (Cons x xs)
  then show ?case using relinks_trans [of s "f s x"] by simp
qed simp

lemma relinks_merge: "relinks s (hk_net_merge net1 net2 s)"
  unfolding hk_net_merge_def Let_def
  by (auto intro!: relinks_trans [OF _ relinks_upd_net] relinks_foldl relinks_trans [OF relinks_p_net relinks_connect])

lemma nets_ok_add:
  assumes "nets_ok s" "tile < length (tiles s) \<Longrightarrow> net < length (nets s)"
  shows "nets_ok (upd_tile tile (\<lambda>t. t\<lparr>t_nets := t_nets t @ [net]\<rparr>) s)"
  unfolding nets_ok_def
proof
  fix t assume "t \<in> set (tiles (upd_tile tile (\<lambda>t. t\<lparr>t_nets := t_nets t @ [net]\<rparr>) s))"
  then obtain i where i: "i < length (tiles s)" "t = tile_at (upd_tile tile (\<lambda>t. t\<lparr>t_nets := t_nets t @ [net]\<rparr>) s) i"
    unfolding in_set_conv_nth by auto
  have "set (t_nets (tile_at s i)) \<subseteq> {..<length (nets s)}" using assms(1) i(1) by (simp add: nets_ok_def)
  then show "set (t_nets t) \<subseteq> {..<length (nets (upd_tile tile (\<lambda>t. t\<lparr>t_nets := t_nets t @ [net]\<rparr>) s))}"
    using assms(2) i by (auto simp: tile_at_upd split: if_splits)
qed

lemma relinks_upd_tile:
  assumes "tile < length (tiles s) \<Longrightarrow> net < length (nets s)"
  shows "relinks s (upd_tile tile (\<lambda>t. t\<lparr>t_nets := t_nets t @ [net]\<rparr>) s)"
  using nets_ok_add [OF _ assms]
  by (auto simp: relinks_def unlinked_def upd_tile_def intro!: map_map_nth)

lemma relinks_create:
  assumes "nets_ok s"
  shows "relinks s (snd (hk_net_create tile s))"
proof (cases "find_index (\<lambda>n. n_id (net_at s n) = 0) (t_nets (tile_at s tile))")
  case None
  let ?s = "s\<lparr>nets := nets s @ [\<lparr>n_id = length (t_nets (tile_at s tile)) + 1, n_pads = []\<rparr>]\<rparr>"
  have "relinks s ?s" by (fastforce simp: relinks_def unlinked_def nets_ok_def)
  moreover have "relinks ?s (upd_tile tile (\<lambda>t. t\<lparr>t_nets := t_nets t @ [length (nets s)]\<rparr>) ?s)"
    by (rule relinks_upd_tile) simp
  ultimately show ?thesis using None relinks_trans by (simp add: hk_net_create_def Let_def) blast
next
  case (Some i)
  let ?n = "t_nets (tile_at s tile) ! i"
  let ?s = "upd_net ?n (\<lambda>n. n\<lparr>n_id := i + 1\<rparr>) s"
  have "?n \<in> set (t_nets (tile_at s tile))" using find_index_SomeD [OF Some] by simp
  then have "?n < length (nets s)" if "tile < length (tiles s)"
    using assms nth_mem [OF that] unfolding nets_ok_def by blast
  then have "relinks ?s (upd_tile tile (\<lambda>t. t\<lparr>t_nets := t_nets t @ [?n]\<rparr>) ?s)"
    by (intro relinks_upd_tile) simp
  then show ?thesis
    using Some relinks_trans [OF relinks_upd_net] by (simp add: hk_net_create_def Let_def) blast
qed

lemma relinks_link:
  assumes "nets_ok s"
  shows "relinks s (link_pads tile pad1 pad2 s)"
  using relinks_create [OF assms, of tile]
  by (auto simp: link_pads_def relinks_merge relinks_connect split: option.split prod.split
      intro: relinks_trans [OF _ relinks_trans [OF relinks_connect relinks_connect]])

lemma unlinked_map:
  assumes "unlinked s' = unlinked s" "\<And>p. f (p\<lparr>p_net := None\<rparr>) = f p"
  shows "map f (pads s') = map f (pads s)"
proof -
  have "map f (unlinked s') = map f (unlinked s)" using assms(1) by simp
  then show ?thesis using assms(2) by (simp add: unlinked_def comp_def)
qed

lemma relinks_kept:
  assumes "relinks s s'"
  shows "shape s' = shape s" "in_locks s' = in_locks s" "states s' = states s" "ctxs s' = ctxs s"
    "hk_state.more s' = hk_state.more s"
    "length (pads s') = length (pads s)" "length (tiles s') = length (tiles s)"
    "t_objs (tile_at s' t) = t_objs (tile_at s t) \<or> length (tiles s) \<le> t"
proof -
  have u: "unlinked s' = unlinked s" and o: "objs s' = objs s"
    and m: "map t_objs (tiles s') = map t_objs (tiles s)"
    using assms by (auto simp: relinks_def)
  show "hk_state.more s' = hk_state.more s" using assms by (simp add: relinks_def)
  note um = unlinked_map [OF u]
  show "shape s' = shape s" "in_locks s' = in_locks s" "states s' = states s" "ctxs s' = ctxs s"
    unfolding shape_def in_locks_def states_def ctxs_def using o by (auto intro!: um)
  show "length (pads s') = length (pads s)" using arg_cong [OF u, of length] by (simp add: unlinked_def)
  show l: "length (tiles s') = length (tiles s)" using arg_cong [OF m, of length] by simp
  have "map t_objs (tiles s') ! t = map t_objs (tiles s) ! t" by (simp only: m)
  then show "t_objs (tile_at s' t) = t_objs (tile_at s t) \<or> length (tiles s) \<le> t"
    using l by (cases "t < length (tiles s)") simp_all
qed

lemma refs_wf_relinks:
  assumes "refs_wf s" "relinks s s'"
  shows "refs_wf s'"
proof -
  note k = relinks_kept [OF assms(2)]
  have "nets_ok s" using assms(1) by (simp add: refs_wf_def nets_ok_def)
  then have n: "nets_ok s'" and o: "objs s' = objs s" and u: "unlinked s' = unlinked s"
    using assms(2) by (auto simp: relinks_def)
  have "map p_obj (pads s') = map p_obj (pads s)" by (rule unlinked_map [OF u]) simp
  then have "p_obj ` set (pads s') = p_obj ` set (pads s)" by (metis set_map)
  then have "\<forall>pad\<in>set (pads s'). p_obj pad < length (objs s)"
    using assms(1) unfolding refs_wf_def by (metis image_iff)
  moreover have "map t_objs (tiles s') = map t_objs (tiles s)" using assms(2) by (simp add: relinks_def)
  then have "t_objs ` set (tiles s') = t_objs ` set (tiles s)" by (metis set_map)
  then have "\<forall>t\<in>set (tiles s'). set (t_objs t) \<subseteq> {..<length (objs s)}"
    using assms(1) unfolding refs_wf_def by (metis image_iff)
  ultimately show ?thesis
    using assms(1) n o k by (auto simp: refs_wf_def nets_ok_def)
qed

lemma hk_obj_net_cases:
  assumes "wf_state s" "pad1 < length (pads s)"
  obtains "hk_obj_net pad1 ref s = (0, s)"
  | s' where "hk_obj_net pad1 ref s = (1, s')" "relinks s s'" "wf_state s'"
proof -
  let ?tile = "o_tile (obj_at s (p_obj (pad_at s pad1)))"
  have w: "net_wf s" "refs_wf s" using assms(1) by (simp_all add: wf_state_def)
  have t: "?tile < length (tiles s)" "set (t_nets (tile_at s ?tile)) \<subseteq> {..<length (nets s)}"
    using refs_wfD [OF w(2)] assms(2) by blast+
  have "hk_obj_net pad1 ref s = (0, s) \<or>
    (\<exists>pad2<length (pads s). hk_obj_net pad1 ref s = (1, link_pads ?tile pad1 pad2 s))"
  proof (cases "strrchr ref CHR ''.''")
    case None
    then show ?thesis by (simp add: hk_obj_net_def Let_def)
  next
    case pt: (Some pt)
    show ?thesis
    proof (cases "hk_obj_find ?tile (take pt ref) s")
      case None
      with pt show ?thesis by (simp add: hk_obj_net_def Let_def)
    next
      case ob: (Some obj2)
      have o2: "obj2 < length (objs s)"
        using ob t(1) refs_wfD(4) [OF w(2)] unfolding hk_obj_find_def by (auto dest: find_ref_SomeD)
      show ?thesis
      proof (cases "hk_pad_find obj2 (drop (pt + 1) ref) s")
        case None
        with pt ob show ?thesis by (simp add: hk_obj_net_def Let_def)
      next
        case pd: (Some pad2)
        have "pad2 < length (pads s)"
          using pd o2 refs_wfD(1) [OF w(2)] unfolding hk_pad_find_def by (auto dest: find_ref_SomeD)
        moreover have "hk_obj_net pad1 ref s = (1, link_pads ?tile pad1 pad2 s)"
          using pt ob pd unfolding hk_obj_net_def link_pads_def Let_def by simp
        ultimately show ?thesis by blast
      qed
    qed
  qed
  moreover have "relinks s (link_pads ?tile pad1 pad2 s) \<and> wf_state (link_pads ?tile pad1 pad2 s)"
    if "pad2 < length (pads s)" for pad2
  proof -
    have "nets_ok s" using w(2) by (simp add: refs_wf_def nets_ok_def)
    then have "relinks s (link_pads ?tile pad1 pad2 s)" by (rule relinks_link)
    with refs_wf_relinks [OF w(2)] link_pads_spec [OF w(1) assms(2) that t] show ?thesis
      by (simp add: wf_state_def)
  qed
  ultimately show ?thesis using that by blast
qed

section \<open>Starting a tile returns\<close>

context hk_classes begin

definition started_from :: "('c, 'z) hk \<Rightarrow> ('c, 'z) hk \<Rightarrow> bool" where
  "started_from s0 s \<longleftrightarrow> wf_state s \<and> wired s \<and> shape s = shape s0 \<and> in_locks s = in_locks s0 \<and>
     map t_objs (tiles s) = map t_objs (tiles s0)"

lemma started_refl: "wf_state s \<Longrightarrow> wired s \<Longrightarrow> started_from s s"
  by (simp add: started_from_def)

lemma started_trans: "started_from s0 s1 \<Longrightarrow> started_from s1 s2 \<Longrightarrow> started_from s0 s2"
  by (simp add: started_from_def)

lemma started_kept: "started_from s0 s \<Longrightarrow> kept s s' \<Longrightarrow> started_from s0 s'"
  using kept_wf [of s s'] by (auto simp: started_from_def kept_def keeps_def wiring_def)

lemma preset_returns:
  assumes "wf_state s" "wired s" "p < length (pads s)" "open_inputs s < n"
  shows "\<exists>s'. hk_obj_preset cls (hk_pad_update_str cls n) p v s = Some s' \<and> kept s s'"
proof (cases "p_dir (pad_at s p) = HK_PAD_OUT")
  case True
  with update_returns [OF assms(1-3) True assms(4)] show ?thesis by (simp add: hk_obj_preset_def)
next
  case False
  let ?s1 = "upd_pad p (\<lambda>x. x\<lparr>p_value := Some v\<rparr>) s"
  have q1: "quiet_change s ?s1" "ctxs ?s1 = ctxs s" "states ?s1 = states s"
    by (simp_all add: quiet_upd_pad states_upd_pad)
  have w1: "wired ?s1" using wired_ctx [OF assms(2) _ q1(2,3)] q1(1) upd_pad_more by (simp add: quiet_change_def)
  have k1: "kept s ?s1" using quiet_keeps [OF q1(1)] w1 by (simp add: kept_def)
  have le: "open_inputs ?s1 \<le> n" using open_inputs_keeps [OF quiet_keeps [OF q1(1)]] assms(4) by simp
  have "\<exists>s'. hk_pad_update_input cls (hk_pad_update_str cls n) p v ?s1 = Some s' \<and> kept ?s1 s'"
    by (rule update_input_returns [OF update_returns kept_wf [OF k1 assms(1)] w1 _ _ le])
      (use assms False in \<open>simp_all add: pad_at_upd\<close>)
  with False k1 show ?thesis
    unfolding hk_obj_preset_def kept_def by (fastforce intro: keeps_trans)
qed

lemma setup_returns:
  assumes s: "started_from s0 s" and j: "j < length (objs s0)" and n: "open_inputs s0 < n"
  shows "\<exists>s'. hk_obj_setup cls (hk_pad_update_str cls n) j s prop = Some s' \<and> started_from s0 s'"
proof -
  have w: "wf_state s" "wired s" and sh: "shape s = shape s0" and lk: "in_locks s = in_locks s0"
    using s by (simp_all add: started_from_def)
  have j': "j < length (objs s)" using j shape_length [OF sh] by simp
  show ?thesis
  proof (cases "hk_pad_find j (pe_name prop) s")
    case None
    with s show ?thesis by (simp add: hk_obj_setup_def)
  next
    case (Some p)
    have p: "p < length (pads s)"
      using Some j' w(1) refs_wfD(1) unfolding hk_pad_find_def wf_state_def by (blast dest: find_ref_SomeD)
    show ?thesis
    proof (cases "pe_value prop")
      case None
      with Some s show ?thesis by (simp add: hk_obj_setup_def)
    next
      case v: (Some v)
      show ?thesis
      proof (cases "v \<noteq> [] \<and> hd v = CHR ''$''")
        case True
        have "started_from s0 (snd (hk_obj_net p (tl v) s))"
        proof (rule hk_obj_net_cases [OF w(1) p, of "tl v"])
          assume "hk_obj_net p (tl v) s = (0, s)"
          with s show ?thesis by simp
        next
          fix s' assume r: "hk_obj_net p (tl v) s = (1, s')" "relinks s s'" "wf_state s'"
          have "wired s'" by (rule wired_ctx [OF w(2)]) (rule relinks_kept [OF r(2)])+
          with r relinks_kept(1,2) [OF r(2)] s show ?thesis by (simp add: started_from_def relinks_def)
        qed
        with Some v True show ?thesis by (simp add: hk_obj_setup_def)
      next
        case False
        from preset_returns [OF w p, of n v] open_inputs_cong [OF sh lk] n
        obtain s' where "hk_obj_preset cls (hk_pad_update_str cls n) p v s = Some s'" "kept s s'" by auto
        with False Some v started_kept [OF s] show ?thesis by (auto simp: hk_obj_setup_def)
      qed
    qed
  qed
qed

lemma kept_upd_ok:
  assumes w: "wf_state s" and oi: "open_inputs s < n"
  shows "upd_ok (kept s) (hk_pad_update_str cls n)"
  unfolding upd_ok_def
proof (intro allI impI, elim conjE)
  fix q x s1 assume k1: "kept s s1" and q: "q < length (pads s1)" "p_dir (pad_at s1 q) = HK_PAD_OUT"
  have "open_inputs s1 < n" using oi open_inputs_keeps k1 unfolding kept_def by metis
  from update_returns [OF kept_wf [OF k1 w] _ q this, of x] k1
  show "\<exists>s'. hk_pad_update_str cls n q x s1 = Some s' \<and> kept s s'"
    unfolding kept_def by (blast intro: keeps_trans)
qed

lemma method_returns:
  assumes s: "started_from s0 s" and j: "j < length (objs s0)" and n: "open_inputs s0 < n"
    and m: "m_start (cls (hk_pad_update_str cls n) (o_class (obj_at s j))) = Some g"
  shows "\<exists>s'. g j s = Some s' \<and> started_from s0 s'"
proof -
  have w: "wf_state s" "wired s" and sh: "shape s = shape s0" and lk: "in_locks s = in_locks s0"
    using s by (simp_all add: started_from_def)
  have j': "j < length (objs s)" using j shape_length [OF sh] by simp
  have oi: "open_inputs s < n" using open_inputs_cong [OF sh lk] n by simp
  have k: "kept s s" using w(2) by (simp add: kept_def)
  note uo = kept_upd_ok [OF w(1) oi]
  have "\<exists>s'. g j s = Some s' \<and> kept s s'"
    by (rule start_ok [OF m k w(1) j' _ uo kept_quiet]) (simp add: kept_def keeps_def)
  with started_kept [OF s] show ?thesis by blast
qed

lemma tile_start_returns:
  assumes "wf_state s" "wired s" "tile < length (tiles s)" "open_inputs s < n"
  shows "\<exists>s'. hk_tile_start cls n tile s = Some s' \<and> started_from s s'"
proof -
  let ?upd = "hk_pad_update_str cls n"
  have rs: "refs_wf s" using assms(1) by (simp add: wf_state_def)
  have obj: "j < length (objs s)" if "j \<in> set (t_objs (tile_at s tile))" for j
    using refs_wfD(4) [OF rs assms(3) that] .
  have tobjs: "t_objs (tile_at s1 tile) = t_objs (tile_at s tile)" if "started_from s s1" for s1
  proof -
    have m: "map t_objs (tiles s1) = map t_objs (tiles s)" using that by (simp add: started_from_def)
    then have l: "length (tiles s1) = length (tiles s)" by (metis length_map)
    have "map t_objs (tiles s1) ! tile = map t_objs (tiles s) ! tile" by (simp only: m)
    with l assms(3) show ?thesis by simp
  qed
  have props: "\<exists>s2. foldo (hk_obj_setup cls ?upd j) s1 (o_props (obj_at s1 j)) = Some s2 \<and> started_from s s2"
    if "started_from s s1" "j \<in> set (t_objs (tile_at s tile))" for s1 j
    by (rule foldo_inv [where I = "started_from s"])
      (use that setup_returns [OF _ obj [OF that(2)] assms(4)] in blast)+
  obtain s1 where s1: "foldo (\<lambda>st obj. foldo (hk_obj_setup cls ?upd obj) st (o_props (obj_at st obj))) s
      (t_objs (tile_at s tile)) = Some s1" "started_from s s1"
    using foldo_inv [where I = "started_from s" and xs = "t_objs (tile_at s tile)" and s = s
        and f = "\<lambda>st obj. foldo (hk_obj_setup cls ?upd obj) st (o_props (obj_at st obj))"]
      props started_refl [OF assms(1,2)] by blast
  have meth: "\<exists>s3. (case m_start (cls ?upd (o_class (obj_at s2 j))) of None \<Rightarrow> Some s2 | Some f \<Rightarrow> f j s2)
      = Some s3 \<and> started_from s s3"
    if "started_from s s2" "j \<in> set (t_objs (tile_at s tile))" for s2 j
    using that method_returns [OF that(1) obj [OF that(2)] assms(4)]
    by (cases "m_start (cls ?upd (o_class (obj_at s2 j)))") auto
  obtain s2 where "foldo (\<lambda>st obj. case m_start (cls ?upd (o_class (obj_at st obj))) of
      None \<Rightarrow> Some st | Some f \<Rightarrow> f obj st) s1 (t_objs (tile_at s tile)) = Some s2" "started_from s s2"
    using foldo_inv [where I = "started_from s" and xs = "t_objs (tile_at s tile)" and s = s1
        and f = "\<lambda>st obj. case m_start (cls ?upd (o_class (obj_at st obj))) of
          None \<Rightarrow> Some st | Some f \<Rightarrow> f obj st"]
      meth s1(2) by blast
  with s1 tobjs [OF s1(2)] show ?thesis by (auto simp: hk_tile_start_def)
qed

end

end
