(* ===== verification/Hk_Run.thy ===== *)
theory Hk_Run
  imports Hk_Start
begin

text \<open>
  The program at work: a tile is started, an output is updated by an input/output class, a
  pending timer fires. Every such event returns, and the invariants of nets, gates and timers
  hold in every state such events reach. The class \<open>mux\<close> is the exception: it updates its
  own input pad, which clears the lock that stops recursion.
\<close>

section \<open>Events\<close>

fun pending :: "string \<Rightarrow> 'e hk_ctx \<Rightarrow> bool" where
  \<comment> \<open>the timer with this callback is armed, according to the context of its object\<close>
  "pending f (Timer_on_ctx c) \<longleftrightarrow> f = ''timer-on:timeout'' \<and> tm_tag c \<noteq> 0"
| "pending f (Timer_off_ctx c) \<longleftrightarrow> f = ''timer-off:timeout'' \<and> tm_tag c \<noteq> 0"
| "pending f (Pulse_ctx c) \<longleftrightarrow> f = ''timer-pulse:timeout'' \<and> tm_tag c \<noteq> 0"
| "pending f (Clock_ctx c) \<longleftrightarrow> (f = ''timer-clock:duty_handler'' \<and> ck_duty_tag c \<noteq> 0) \<or>
     (f = ''timer-clock:period_handler'' \<and> ck_period_tag c \<noteq> 0)"
| "pending f (Relay_ctx c) \<longleftrightarrow>
     (f = ''relay-bistable:timeout'' \<or> f = ''relay-bistable:refresh'') \<and> rl_tag c \<noteq> 0"
| "pending f c \<longleftrightarrow> False"

definition timer_due :: "('e, 'z) hkw \<Rightarrow> string \<Rightarrow> nat \<Rightarrow> bool" where
  "timer_due s f j \<longleftrightarrow> j < length (objs s) \<and> o_class (obj_at s j) \<in> set circuit_names \<and>
     (case ctx_of j s of None \<Rightarrow> False | Some c \<Rightarrow> pending f c)"

inductive hk_event :: "nat \<Rightarrow> ('e, 'z) hkw \<Rightarrow> ('e, 'z) hkw \<Rightarrow> bool" for n where
  event_start: "tile < length (tiles s) \<Longrightarrow> hk_tile_start circuit_class n tile s = Some s' \<Longrightarrow> hk_event n s s'"
| event_output: "p < length (pads s) \<Longrightarrow> p_dir (pad_at s p) = HK_PAD_OUT \<Longrightarrow>
    hk_pad_update_str circuit_class n p v s = Some s' \<Longrightarrow> hk_event n s s'"
| event_timer: "timer_due s f j \<Longrightarrow>
    timer_callback (hk_pad_update_str circuit_class n) f j s = Some (ret, s') \<Longrightarrow> hk_event n s s'"

definition in_order :: "('e, 'z) hkw \<Rightarrow> bool" where
  "in_order s \<longleftrightarrow> wf_state s \<and> circuit_wired s"

section \<open>Events return\<close>

lemma kept_good_inv:
  assumes "in_order s" "open_inputs s < n"
  shows "good_inv s (circuit.kept s) (hk_pad_update_str circuit_class n)"
proof (rule good_invI [OF extends_circuit_wired])
  show "circuit_wired s' \<and> shape s' = shape s" if "circuit.kept s s'" for s'
    using that by (simp add: circuit.kept_def keeps_def)
  show "upd_ok (circuit.kept s) (hk_pad_update_str circuit_class n)"
    using assms by (intro circuit.kept_upd_ok) (simp_all add: in_order_def)
  show "quiet_closed circuit_wired (circuit.kept s)" by (rule circuit.kept_quiet)
qed

lemma timer_callback_ok:
  assumes g: "good_inv s I upd" and k: "I s" and due: "timer_due s f j"
  shows "\<exists>ret s'. timer_callback upd f j s = Some (ret, s') \<and> I s'"
proof -
  have j: "j < length (objs s)" "o_class (obj_at s j) \<in> set circuit_names"
    using due by (simp_all add: timer_due_def)
  obtain c where c: "ctx_of j s = Some c" "ctx_class c = o_class (obj_at s j)"
    using good_invD(1) [OF g k] j unfolding circuit_wired_def by blast
  have p: "pending f c" using due c(1) by (simp add: timer_due_def)
  show ?thesis
  proof (cases c)
    case (Timer_on_ctx x)
    with timer_on_timeout_ok [OF g k j(1), of x] c p show ?thesis by (simp add: timer_callback_def) blast
  next
    case (Timer_off_ctx x)
    with timer_off_timeout_ok [OF g k j(1), of x] c p show ?thesis by (simp add: timer_callback_def) blast
  next
    case (Pulse_ctx x)
    with pulse_timeout_ok [OF g k j(1)] c p show ?thesis by (simp add: timer_callback_def) blast
  next
    case (Clock_ctx x)
    then have cl: "o_class (obj_at s j) = ''timer-clock''" using c(2) by simp
    show ?thesis
    proof (cases "f = ''timer-clock:duty_handler''")
      case True
      with clock_handlers_ok(1) [OF g k j(1) cl] show ?thesis by (simp add: timer_callback_def) blast
    next
      case False
      with Clock_ctx p clock_handlers_ok(2) [OF g k j(1) cl] show ?thesis by (simp add: timer_callback_def) blast
    qed
  next
    case (Relay_ctx x)
    then have cl: "o_class (obj_at s j) = ''relay-bistable''" using c(2) by simp
    show ?thesis
    proof (cases "f = ''relay-bistable:timeout''")
      case True
      with relay_events_ok(1) [OF g k j(1) cl] show ?thesis by (simp add: timer_callback_def) blast
    next
      case False
      with Relay_ctx p relay_events_ok(2) [OF g k j(1) cl] show ?thesis by (simp add: timer_callback_def) blast
    qed
  qed (use p in simp_all)
qed

lemma timer_callback_returns:
  assumes s: "in_order s" "open_inputs s < n" and due: "timer_due s f j"
  shows "\<exists>ret s'. timer_callback (hk_pad_update_str circuit_class n) f j s = Some (ret, s') \<and>
    circuit.kept s s'"
  using timer_callback_ok [OF kept_good_inv [OF s] _ due] s(1) by (simp add: circuit.kept_def in_order_def)

lemma kept_in_order:
  assumes "in_order s" "circuit.kept s s'"
  shows "in_order s' \<and> open_inputs s' = open_inputs s"
proof -
  have "keeps s s'" "circuit_wired s'" using assms(2) by (simp_all add: circuit.kept_def)
  with assms circuit.kept_wf [OF assms(2)] open_inputs_keeps show ?thesis by (simp add: in_order_def)
qed

lemma started_in_order: "circuit.started_from s s' \<Longrightarrow> in_order s' \<and> open_inputs s' = open_inputs s"
  unfolding circuit.started_from_def in_order_def by (elim conjE) (intro conjI; (assumption | rule open_inputs_cong))

lemma event_in_order:
  assumes "hk_event n s s'" "in_order s" "open_inputs s < n"
  shows "in_order s' \<and> open_inputs s' = open_inputs s"
  using assms(1)
proof cases
  case (event_start tile)
  obtain s1 where s1: "hk_tile_start circuit_class n tile s = Some s1" "circuit.started_from s s1"
    using circuit.tile_start_returns [OF _ _ event_start(1) assms(3)] assms(2)
    unfolding in_order_def by blast
  have "s1 = s'" using s1(1) event_start(2) by simp
  with started_in_order [OF s1(2)] show ?thesis by blast
next
  case (event_output p v)
  obtain s1 where s1: "hk_pad_update_str circuit_class n p v s = Some s1" "circuit.kept s s1"
    using circuit.update_returns [OF _ _ event_output(1,2) assms(3)] assms(2)
    unfolding in_order_def by blast
  have "s1 = s'" using s1(1) event_output(3) by simp
  with kept_in_order [OF assms(2) s1(2)] show ?thesis by blast
next
  case (event_timer f j ret)
  obtain r s1 where s1: "timer_callback (hk_pad_update_str circuit_class n) f j s = Some (r, s1)"
    "circuit.kept s s1"
    using timer_callback_returns [OF assms(2,3) event_timer(1)] by blast
  have "s1 = s'" using s1(1) event_timer(2) by simp
  with kept_in_order [OF assms(2) s1(2)] show ?thesis by blast
qed

lemma events_in_order:
  assumes "(hk_event n)\<^sup>*\<^sup>* s s'" "in_order s" "open_inputs s < n"
  shows "in_order s' \<and> open_inputs s' = open_inputs s"
  using assms(1)
proof (induction rule: rtranclp_induct)
  case base
  with assms(2) show ?case by simp
next
  case (step s1 s2)
  with event_in_order [OF step.hyps(2)] assms(3) show ?case by simp
qed

section \<open>What the invariant says of gates and timers\<close>

lemma and_state_eq: "and_state s inputs = (if \<forall>q. Some q \<in> set inputs \<longrightarrow> p_state (pad_at s q) \<noteq> 0 then 1 else 0)"
  by (induction inputs) (auto split: option.split)

lemma or_state_eq: "or_state s inputs = (if \<exists>q. Some q \<in> set inputs \<and> p_state (pad_at s q) \<noteq> 0 then 1 else 0)"
  by (induction inputs) (auto split: option.split)

lemma in_order_ctx:
  assumes "in_order s" "j < length (objs s)" "o_class (obj_at s j) \<in> set circuit_names" "ctx_of j s = Some c"
  shows "coherent s c" "ctx_class c = o_class (obj_at s j)"
  using assms obj_wired_coherent unfolding in_order_def circuit_wired_def by fastforce+

section \<open>Sample circuit\<close>

definition pad_of :: "nat \<Rightarrow> hk_pad_dir \<Rightarrow> string \<Rightarrow> nat option \<Rightarrow> hk_pad" where
  "pad_of j d n net = \<lparr>p_obj = j, p_dir = d, p_name = n, p_value = None, p_net = net, p_lock = False, p_state = 0\<rparr>"

definition obj_of :: "string \<Rightarrow> string \<Rightarrow> nat list \<Rightarrow> 'e hk_ctx \<Rightarrow> 'e hk_ctx hk_obj" where
  "obj_of name cl ps c = \<lparr>o_name = name, o_tile = 0, o_class = cl, o_props = [], o_pads = ps, o_ctx = Some c\<rparr>"

definition sample :: "unit hk_ctx hk_state" where
  \<comment> \<open>an inverter fed back to itself through a gate, and a delay timer on the same net\<close>
  "sample = (hk_start 1)\<lparr>
     pads := [pad_of 0 HK_PAD_IN ''in'' (Some 1), pad_of 0 HK_PAD_OUT ''out'' (Some 0),
              pad_of 1 HK_PAD_IN ''in0'' (Some 0), pad_of 1 HK_PAD_OUT ''out'' (Some 1),
              pad_of 2 HK_PAD_IN ''in'' (Some 0), pad_of 2 HK_PAD_OUT ''out'' None],
     nets := [\<lparr>n_id = 1, n_pads = [1, 2, 4]\<rparr>, \<lparr>n_id = 2, n_pads = [0, 3]\<rparr>],
     objs := [obj_of ''inv'' ''not'' [0, 1] (Not_ctx \<lparr>n_input = 0, n_output = 1\<rparr>),
              obj_of ''gate'' ''and'' [2, 3]
                (And_ctx \<lparr>g_inputs = [Some 2], g_inv = False, g_output = 3, g_refresh = False\<rparr>),
              obj_of ''delay'' ''timer-on'' [4, 5]
                (Timer_on_ctx \<lparr>tm_input = 4, tm_output = 5, tm_delay = 10, tm_inv = False, tm_tag = 0\<rparr>)],
     tiles := [\<lparr>t_dir = ''/'', t_name = ''t'', t_fname = ''t'', t_objs = [0, 1, 2], t_nets = [0, 1]\<rparr>],
     tile_tab := [Some 0]\<rparr>"

lemmas sample_simps = sample_def pad_of_def obj_of_def hk_start_def

lemma sample_in_order: "in_order sample"
proof -
  have n: "net_wf sample" by (simp add: net_wf_def sample_simps All_less_Suc)
  have r: "refs_wf sample" by (simp add: refs_wf_def sample_simps)
  have "circuit_wired sample"
    unfolding circuit_wired_def
  proof (intro allI impI)
    fix j assume "j < length (objs sample)"
    then consider "j = 0" | "j = 1" | "j = 2" by (fastforce simp: sample_simps)
    then show "\<exists>c. ctx_of j sample = Some c \<and> ctx_class c = o_class (obj_at sample j) \<and> obj_wired sample j c"
      by cases (auto simp: sample_simps ctx_of_def obj_wired_def owns_def less_Suc_eq numeral_eq_Suc)
  qed
  with n r show ?thesis by (simp add: in_order_def wf_state_def)
qed

lemma sample_open: "open_inputs sample = 3"
  by (simp add: open_inputs_def sample_simps)

lemma sample_events: "(hk_event 4)\<^sup>*\<^sup>* sample s \<Longrightarrow> in_order s"
  using events_in_order [OF _ sample_in_order] sample_open by simp

section \<open>Properties\<close>

text \<open>
  C1: Updating an output pad of a circuit of gates, comparators, timers, clocks and relays
  returns, whatever loops the nets form: fuel above the number of unlocked input pads is
  enough, more fuel gives the same result, every input lock is restored, and nets and
  objects stay consistent.
\<close>

theorem propagation_returns:
  assumes "in_order s" "p < length (pads s)" "p_dir (pad_at s p) = HK_PAD_OUT" "open_inputs s < n"
  shows "\<exists>s'. (\<forall>m\<ge>n. hk_pad_update_str circuit_class m p v s = Some s') \<and> in_order s' \<and> keeps s s'"
proof -
  obtain s' where s': "hk_pad_update_str circuit_class n p v s = Some s'" "circuit.kept s s'"
    using circuit.update_returns [OF _ _ assms(2,3,4)] assms(1) unfolding in_order_def by blast
  then have "keeps s s'" by (simp add: circuit.kept_def)
  with s' circuit.update_mono kept_in_order [OF assms(1) s'(2)] show ?thesis by blast
qed

theorem propagation_returns_witness:
  "\<exists>s'. (\<forall>m\<ge>4. hk_pad_update_str circuit_class m 1 ''1'' sample = Some s') \<and> in_order s' \<and> keeps sample s'"
  by (rule propagation_returns) (simp_all add: sample_in_order sample_open, simp_all add: sample_simps)

text \<open>
  C20: In every state that starting tiles, output updates and pending timers lead to from a
  consistent circuit, each of these events returns again.
\<close>

theorem circuit_events_return:
  assumes "in_order s0" "open_inputs s0 < n" "(hk_event n)\<^sup>*\<^sup>* s0 s"
  shows "(tile < length (tiles s) \<longrightarrow> hk_tile_start circuit_class n tile s \<noteq> None) \<and>
    (p < length (pads s) \<and> p_dir (pad_at s p) = HK_PAD_OUT \<longrightarrow>
       hk_pad_update_str circuit_class n p v s \<noteq> None) \<and>
    (timer_due s f j \<longrightarrow> timer_callback (hk_pad_update_str circuit_class n) f j s \<noteq> None)"
proof -
  have s: "in_order s" "open_inputs s < n" using events_in_order [OF assms(3,1,2)] assms(2) by simp_all
  then have w: "wf_state s" "circuit_wired s" by (simp_all add: in_order_def)
  show ?thesis
    using circuit.tile_start_returns [OF w _ s(2), of tile] circuit.update_returns [OF w _ _ s(2), of p v]
      timer_callback_returns [OF s, of f j]
    by fastforce
qed

theorem circuit_events_return_witness:
  "hk_tile_start circuit_class 4 0 sample \<noteq> None \<and> hk_pad_update_str circuit_class 4 1 ''1'' sample \<noteq> None"
proof -
  have "0 < length (tiles sample)" "1 < length (pads sample)" "p_dir (pad_at sample 1) = HK_PAD_OUT"
    by (simp_all add: sample_simps)
  with circuit_events_return [OF sample_in_order _ rtranclp.rtrancl_refl, of 4 0 1 "''1''"] sample_open
  show ?thesis by simp
qed





end
