(* ===== verification/Hk_Hazards.thy ===== *)
theory Hk_Hazards
  imports Hk_Run
begin

text \<open>
  Behaviours of the classes outside the contract of Hk_Propagate or at its edges: a \<open>mux\<close> in
  a feedback loop recurses without bound, a bistable relay drives both coils for a moment, and
  the duty cycle of a clock is computed in 32-bit arithmetic.
\<close>

section \<open>A multiplexer in a loop\<close>

definition mux_loop :: "string option \<Rightarrow> string option \<Rightarrow> bool \<Rightarrow> unit hk_ctx hk_state" where
  \<comment> \<open>the output of a \<open>mux\<close> connected to its input \<open>in0\<close>; the values of both pads, the lock
     of the output\<close>
  "mux_loop a b l = (hk_start 1)\<lparr>
     pads := [pad_of 0 HK_PAD_IN ''sel'' None,
              (pad_of 0 HK_PAD_IN ''in0'' (Some 0))\<lparr>p_value := a\<rparr>,
              (pad_of 0 HK_PAD_OUT ''out'' (Some 0))\<lparr>p_value := b, p_lock := l\<rparr>],
     nets := [\<lparr>n_id = 1, n_pads = [1, 2]\<rparr>],
     objs := [obj_of ''m'' ''mux'' [0, 1, 2]
                (Mux_ctx \<lparr>m_sel = 0, m_inputs = [Some 1], m_output = 2\<rparr>)],
     tiles := [\<lparr>t_dir = ''/'', t_name = ''t'', t_fname = ''t'', t_objs = [0], t_nets = [0]\<rparr>],
     tile_tab := [Some 0]\<rparr>"

lemmas mux_loop_simps = mux_loop_def pad_of_def obj_of_def hk_start_def upd_pad_def map_nth_def

definition mux_mid :: "string option \<Rightarrow> string option \<Rightarrow> unit hk_ctx hk_state" where
  \<comment> \<open>the same while \<open>in0\<close> and the output are locked\<close>
  "mux_mid a b = upd_pad 1 (\<lambda>p. p\<lparr>p_lock := True\<rparr>) (mux_loop a b True)"

lemma mux_own_input:
  "hk_pad_update_str mux_class (Suc m) 1 v (mux_mid a b) = Some (mux_loop (Some v) b True)"
  by (simp add: mux_mid_def mux_loop_simps hk_pad_forward_def Let_def)

lemma mux_loop_body:
  "hk_pad_update_str mux_class (Suc n) 2 v (mux_loop a b l) =
     map_option (upd_pad 2 (\<lambda>p. p\<lparr>p_lock := False\<rparr>))
       (map_option (upd_pad 1 (\<lambda>p. p\<lparr>p_lock := False\<rparr>))
         (mux_input (hk_pad_update_str mux_class n) 1 v (mux_mid a (Some v))))"
  by (simp add: mux_mid_def mux_loop_simps hk_pad_forward_def hk_pad_update_input_def mux_class_def Let_def
      split: Option.bind_splits option.splits)

lemma mux_loop_again:
  "mux_input (hk_pad_update_str mux_class (Suc m)) 1 v (mux_mid a b) =
     hk_pad_update_str mux_class (Suc m) 2 (cstr v) (mux_loop (Some v) b True)"
proof -
  have "ctx_of (p_obj (pad_at (mux_mid a b) 1)) (mux_mid a b) =
      Some (Mux_ctx \<lparr>m_sel = 0, m_inputs = [Some 1], m_output = 2\<rparr>)"
    by (simp add: mux_mid_def mux_loop_simps ctx_of_def)
  moreover have "p_state (pad_at (mux_loop (Some v) b True) 0) = 0"
    "p_value (pad_at (mux_loop (Some v) b True) 1) = Some v"
    by (simp_all add: mux_loop_simps)
  ultimately show ?thesis
    by (simp add: mux_input_def mux_own_input mux_update_output_def Let_def
        del: hk_pad_update_str.simps One_nat_def)
qed

lemma mux_loop_None: "hk_pad_update_str mux_class n 2 v (mux_loop a b l) = None"
proof (induction n arbitrary: v a b l)
  case (Suc n)
  show ?case
  proof (cases n)
    case 0
    then show ?thesis
      unfolding mux_loop_body
      by (simp add: mux_input_def mux_mid_def mux_loop_simps ctx_of_def)
  next
    case (Suc m)
    have "mux_input (hk_pad_update_str mux_class n) 1 v (mux_mid a (Some v)) = None"
      unfolding Suc mux_loop_again using Suc.IH [unfolded Suc] by blast
    then show ?thesis unfolding mux_loop_body by simp
  qed
qed simp

section \<open>The duty cycle of a clock\<close>

lemma sdiv_nonneg: "0 \<le> a \<Longrightarrow> 0 < b \<Longrightarrow> a sdiv b = a div b" for a b :: int
  by (cases "a = 0") (simp_all add: signed_divide_int_def)

definition fit_delay :: "int \<Rightarrow> int \<Rightarrow> int" where
  \<comment> \<open>the last two adjustments of \<open>clock_delay\<close>\<close>
  "fit_delay period delay = (let delay = (if delay < 1 then 1 else delay)
     in if period \<le> delay then period - 1 else delay)"

lemma fit_delay_bounds: "2 \<le> period \<Longrightarrow> 1 \<le> fit_delay period delay \<and> fit_delay period delay < period"
  by (simp add: fit_delay_def Let_def)

lemma clock_delay_fit: "clock_delay period duty = Some d \<Longrightarrow> \<exists>raw. d = fit_delay period raw"
  by (auto simp: clock_delay_def fit_delay_def Let_def)

lemma clock_delay_percent:
  assumes "2 \<le> period" "strchr str CHR ''%'' = Some i" "0 < atoi (take i str)" "atoi (take i str) < 100"
    "period * atoi (take i str) < 2 ^ 31"
  shows "clock_delay period (Some str) = Some (max 1 (period * atoi (take i str) div 100))"
proof -
  let ?d = "atoi (take i str)"
  have nn: "0 \<le> period * ?d" using assms(1,3) by simp
  then have "to_int32 (period * ?d) = period * ?d" using assms(5) by (intro to_int32_id) simp_all
  then have "to_int32 (period * ?d) sdiv 100 = period * ?d div 100"
    using sdiv_nonneg [OF nn, of 100] by simp
  moreover have "period * ?d div 100 < period"
  proof -
    have "period * ?d < period * 100" using assms(1,4) by simp
    then show ?thesis by linarith
  qed
  ultimately show ?thesis
    using assms by (simp add: clock_delay_def Let_def max_def)
qed

section \<open>Properties\<close>


text \<open>
  When the input of a bistable relay goes to 0 while \<open>out1\<close> is on, \<open>out0\<close> is switched
  on and sent first, with \<open>out1\<close> still on: both coils are driven at that moment. In the
  other direction the old output is switched off first.
\<close>

theorem relay_drives_both:
  assumes "ctx_of j s = Some (Relay_ctx c)" "rl_output0 c \<noteq> rl_output1 c" "rl_output0 c < length (pads s)"
    and "p_state (pad_at s (rl_output1 c)) = 1"
  shows "\<exists>s1. p_state (pad_at s1 (rl_output0 c)) = 1 \<and> p_state (pad_at s1 (rl_output1 c)) = 1 \<and>
    relay_set_output upd j 0 s =
      Option.bind (hk_pad_update_int upd (rl_output0 c) 1 s1) (\<lambda>s2.
        Option.bind (hk_pad_update_int upd (rl_output1 c) 0 (set_state (rl_output1 c) 0 s2))
          (relay_rearm RELAY_PULSE ''relay-bistable:timeout'' j))"
proof -
  let ?s1 = "set_state (rl_output0 c) 1 (disarm (rl_tag c) s)"
  have "p_state (pad_at ?s1 (rl_output0 c)) = 1" "p_state (pad_at ?s1 (rl_output1 c)) = 1"
    using assms by (simp_all add: p_state_set)
  moreover have "relay_set_output upd j 0 s =
      Option.bind (hk_pad_update_int upd (rl_output0 c) 1 ?s1) (\<lambda>s2.
        Option.bind (hk_pad_update_int upd (rl_output1 c) 0 (set_state (rl_output1 c) 0 s2))
          (relay_rearm RELAY_PULSE ''relay-bistable:timeout'' j))"
    using assms(1) by (simp add: relay_set_output_def relay_drive_def)
  ultimately show ?thesis by blast
qed

definition relay_on :: "unit hk_ctx hk_state" where
  "relay_on = (hk_start 1)\<lparr>
     pads := [pad_of 0 HK_PAD_IN ''in'' None, pad_of 0 HK_PAD_OUT ''out0'' None,
              (pad_of 0 HK_PAD_OUT ''out1'' None)\<lparr>p_state := 1\<rparr>],
     objs := [obj_of ''r'' ''relay-bistable'' [0, 1, 2]
                (Relay_ctx \<lparr>rl_input = 0, rl_output0 = 1, rl_output1 = 2, rl_tag = 0\<rparr>)]\<rparr>"

theorem relay_drives_both_witness:
  "\<exists>s1. p_state (pad_at s1 1) = 1 \<and> p_state (pad_at s1 2) = 1 \<and>
    relay_set_output (\<lambda>q w s. Some s) 0 0 relay_on =
      Option.bind (hk_pad_update_int (\<lambda>q w s. Some s) 1 1 s1) (\<lambda>s2.
        Option.bind (hk_pad_update_int (\<lambda>q w s. Some s) 2 0 (set_state 2 0 s2))
          (relay_rearm RELAY_PULSE ''relay-bistable:timeout'' 0))"
  using relay_drives_both [of 0 relay_on "\<lparr>rl_input = 0, rl_output0 = 1, rl_output1 = 2, rl_tag = 0\<rparr>"
      "\<lambda>q w s. Some s"]
  by (simp add: relay_on_def pad_of_def obj_of_def ctx_of_def)

text \<open>
  The time a clock stays at 1 is at least 1 ms and less than its period, and a percentage
  gives that part of the period, rounded down but not below 1 ms, provided the product of period
  and percentage fits in 31 bits. For one day at 50 percent it does not, and the output is
  on for 250327 ms instead of half a day.
\<close>

theorem clock_delay_spec:
  assumes "2 \<le> period" "clock_delay period duty = Some d"
  shows "1 \<le> d \<and> d < period \<and>
    (case duty of
       None \<Rightarrow> True
     | Some str \<Rightarrow>
         (case strchr str CHR ''%'' of
            None \<Rightarrow> True
          | Some i \<Rightarrow> period * atoi (take i str) < 2 ^ 31 \<longrightarrow> d = max 1 (period * atoi (take i str) div 100))) \<and>
    clock_delay 86400000 (Some ''50%'') = Some 250327"
proof -
  obtain raw where "d = fit_delay period raw" using clock_delay_fit [OF assms(2)] by blast
  then have b: "1 \<le> d \<and> d < period" using fit_delay_bounds [OF assms(1)] by simp
  have p: "d = max 1 (period * atoi (take i str) div 100)"
    if "duty = Some str" "strchr str CHR ''%'' = Some i" "period * atoi (take i str) < 2 ^ 31" for str i
  proof -
    have "0 < atoi (take i str) \<and> atoi (take i str) < 100"
      using assms(2) that by (auto simp: clock_delay_def Let_def split: if_splits)
    with clock_delay_percent [OF assms(1) that(2) _ _ that(3)] assms(2) that(1) show ?thesis by simp
  qed
  have "clock_delay 86400000 (Some ''50%'') = Some 250327" by code_simp
  with b p show ?thesis by (simp split: option.split)
qed

theorem clock_delay_spec_witness:
  "1 \<le> (750::int) \<and> (750::int) < 1000 \<and> (750::int) = max 1 (1000 * 75 div 100) \<and>
    clock_delay 86400000 (Some ''50%'') = Some 250327"
proof -
  have a: "atoi ''75'' = 75" by code_simp
  have "clock_delay 1000 (Some ''75%'') = Some 750" by code_simp
  from clock_delay_spec [OF _ this] a show ?thesis
    by (simp add: strchr_def)
qed

end
