(* ===== verification/Hk_ModLoad.thy ===== *)
theory Hk_ModLoad
  imports Hk_StrArgv Hk_Start
begin

text \<open>
  \<^verbatim>\<open>core/mod_load.c\<close>: loading a tile file. The file is read in chunks of at most 1023
  bytes; a line goes on in the next one when that begins with a blank; each complete line
  defines an object, a net or a section. The buffer of the loader is represented by its text.
  Line numbers are left out: they only appear in messages, except that the message about an
  unknown section prints the number as if it were a string, which reads through a wrong
  pointer (\<open>None\<close>).
\<close>

section \<open>Lines\<close>

datatype load_section = SECTION_OBJECTS | SECTION_NETS | SECTION_UNKNOWN

record load_ctx =
  ld_tile :: nat
  ld_section :: load_section

definition hk_tile_load_object ::
    "(('c, 'z) hk) class_table \<Rightarrow> (('c, 'z) hk) updater \<Rightarrow> load_ctx \<Rightarrow> string option \<Rightarrow> string list
      \<Rightarrow> ('c, 'z) hk \<Rightarrow> (int \<times> ('c, 'z) hk) option" where
  "hk_tile_load_object cls upd ctx name argv st =
     (if name = None \<or> name = Some [] then Some (-1, st)
      else if argv = [] then Some (-1, st)
      else case hk_class_find (hd argv) st of
             None \<Rightarrow> Some (-1, st)
           | Some cname \<Rightarrow>
               (case hk_obj_create (ld_tile ctx) cname (the name) (tl argv) st of
                  (None, st) \<Rightarrow> Some (-1, st)
                | (Some obj, st) \<Rightarrow>
                    (case m_new (cls upd cname) of
                       None \<Rightarrow> Some (0, st)
                     | Some f \<Rightarrow>
                         map_option (\<lambda>(ret, st). (if ret < 0 then -1 else 0, st)) (f obj st))))"

fun load_pads :: "nat \<Rightarrow> nat \<Rightarrow> string list \<Rightarrow> ('c, 'z) hk \<Rightarrow> int \<times> ('c, 'z) hk" where
  \<comment> \<open>the loop of \<open>hk_tile_load_net\<close>\<close>
  "load_pads tile net [] st = (0, st)"
| "load_pads tile net (a # argv) st =
     (case strchr a CHR ''.'' of
        None \<Rightarrow> (-1, st)
      | Some pt \<Rightarrow>
          (case hk_obj_find tile (take pt a) st of
             None \<Rightarrow> (-1, st)
           | Some obj \<Rightarrow>
               (case hk_pad_find obj (drop (pt + 1) a) st of
                  None \<Rightarrow> (-1, st)
                | Some pad \<Rightarrow> load_pads tile net argv (snd (hk_net_connect net pad st)))))"

definition hk_tile_load_net :: "load_ctx \<Rightarrow> string list \<Rightarrow> ('c, 'z) hk \<Rightarrow> int \<times> ('c, 'z) hk" where
  "hk_tile_load_net ctx argv st =
     (case hk_net_create (ld_tile ctx) st of (net, st) \<Rightarrow> load_pads (ld_tile ctx) net argv st)"

definition split_name :: "string \<Rightarrow> string option \<times> string" where
  \<comment> \<open>the element name before a colon, and the rest\<close>
  "split_name line =
     (let pre = takeWhile (\<lambda>c. is_graph c \<and> c \<noteq> CHR '':'') line;
          rest = dropWhile (\<lambda>c. is_graph c \<and> c \<noteq> CHR '':'') line
      in if rest \<noteq> [] \<and> hd rest = CHR '':'' then (Some pre, tl rest) else (None, line))"

definition hk_tile_load_line ::
    "(('c, 'z) hk) class_table \<Rightarrow> (('c, 'z) hk) updater \<Rightarrow> string \<Rightarrow> load_ctx \<times> ('c, 'z) hk
      \<Rightarrow> (int \<times> load_ctx \<times> ('c, 'z) hk) option" where
  "hk_tile_load_line cls upd text cst =
     (case cst of (ctx, st) \<Rightarrow>
        let line = dropWhile is_blank (cstr text)
        in if line = [] \<or> hd line = CHR '';'' \<or> hd line = CHR ''#'' then Some (0, ctx, st)
           else if hd line = CHR ''['' then
             (if line = ''[objects]'' then Some (0, ctx\<lparr>ld_section := SECTION_OBJECTS\<rparr>, st)
              else if line = ''[nets]'' then Some (0, ctx\<lparr>ld_section := SECTION_NETS\<rparr>, st)
              else None)
           else
             (case split_name line of (name, s) \<Rightarrow>
                (case ld_section ctx of
                   SECTION_OBJECTS \<Rightarrow>
                     map_option (\<lambda>(ret, st). (ret, ctx, st))
                       (hk_tile_load_object cls upd ctx name (str_argv s) st)
                 | SECTION_NETS \<Rightarrow>
                     (case hk_tile_load_net ctx (str_argv s) st of (ret, st) \<Rightarrow> Some (ret, ctx, st))
                 | SECTION_UNKNOWN \<Rightarrow> Some (0, ctx, st))))"

section \<open>The file\<close>

definition CHUNK :: nat where "CHUNK = 1023"

definition sanitize :: "string \<Rightarrow> string" where
  \<comment> \<open>bytes below \<open>' '\<close> as a signed \<open>char\<close>, other than LF, become spaces\<close>
  "sanitize s = map (\<lambda>c. if cval c < cval SP \<and> c \<noteq> LF then SP else c) s"

record 'w load_state =
  l_buf :: string
  l_check :: bool
  l_ret :: int
  l_world :: 'w

definition load_now ::
    "('w \<Rightarrow> (int \<times> 'w) option) \<Rightarrow> 'w load_state \<Rightarrow> 'w load_state option" where
  \<comment> \<open>\<open>ret = hk_tile_load_line (...); buf.len = 0;\<close>\<close>
  "load_now f s = map_option (\<lambda>(ret, w). s\<lparr>l_buf := [], l_ret := ret, l_world := w\<rparr>) (f (l_world s))"

function load_loop ::
    "(string \<Rightarrow> 'w \<Rightarrow> (int \<times> 'w) option) \<Rightarrow> string \<Rightarrow> 'w load_state \<Rightarrow> 'w load_state option" where
  \<comment> \<open>\<open>while (s1 != NULL)\<close>\<close>
  "load_loop line s1 s =
     (case strchr s1 LF of
        None \<Rightarrow> Some (s\<lparr>l_buf := l_buf s @ s1\<rparr>)
      | Some i \<Rightarrow>
          let s' = s\<lparr>l_buf := l_buf s @ take i s1\<rparr>; s2 = drop (i + 1) s1
          in if s2 = [] then load_loop line s2 (s'\<lparr>l_check := True\<rparr>)
             else if hd s2 \<noteq> SP then
               (case load_now (line (l_buf s')) s' of None \<Rightarrow> None | Some s'' \<Rightarrow> load_loop line s2 s'')
             else load_loop line s2 s')"
  by pat_completeness auto
termination
  by (relation "measure (\<lambda>(line, s1, s). length s1)") (auto dest: strchr_SomeD)

definition load_chunk ::
    "(string \<Rightarrow> 'w \<Rightarrow> (int \<times> 'w) option) \<Rightarrow> string \<Rightarrow> 'w load_state \<Rightarrow> 'w load_state option" where
  "load_chunk line chunk s =
     (let str = sanitize chunk; s' = s\<lparr>l_check := False\<rparr>
      in if l_check s \<and> hd str \<noteq> SP
         then Option.bind (load_now (line (l_buf s)) s') (load_loop line str)
         else load_loop line str s')"

fun load_chunks ::
    "(string \<Rightarrow> 'w \<Rightarrow> (int \<times> 'w) option) \<Rightarrow> string list \<Rightarrow> 'w load_state \<Rightarrow> 'w load_state option" where
  \<comment> \<open>\<open>while ((ret == 0) && (!feof (f)))\<close>, one element per read that returns something\<close>
  "load_chunks line [] s = Some s"
| "load_chunks line (c # cs) s =
     (if l_ret s = 0 then Option.bind (load_chunk line c s) (load_chunks line cs) else Some s)"

definition load_end ::
    "(string \<Rightarrow> 'w \<Rightarrow> (int \<times> 'w) option) \<Rightarrow> 'w load_state \<Rightarrow> (int \<times> 'w) option" where
  "load_end line s =
     (if l_ret s = 0 \<and> l_buf s \<noteq> [] then line (l_buf s) (l_world s) else Some (l_ret s, l_world s))"

function fread_chunks :: "string \<Rightarrow> string list" where
  "fread_chunks s = (if s = [] then [] else take CHUNK s # fread_chunks (drop CHUNK s))"
  by pat_completeness auto
termination by (relation "measure length") (auto simp: CHUNK_def)

definition load_begin :: "'w \<Rightarrow> 'w load_state" where
  "load_begin w = \<lparr>l_buf = [], l_check = False, l_ret = 0, l_world = w\<rparr>"

definition hk_tile_load ::
    "(('c, 'z) hk) class_table \<Rightarrow> (('c, 'z) hk) updater \<Rightarrow> (string \<Rightarrow> string option) \<Rightarrow> nat \<Rightarrow> ('c, 'z) hk
      \<Rightarrow> (int \<times> ('c, 'z) hk) option" where
  \<comment> \<open>\<open>read_file\<close>: what \<open>fopen\<close> and \<open>fread\<close> find under a name\<close>
  "hk_tile_load cls upd read_file tile st =
     (case read_file (t_fname (tile_at st tile)) of
        None \<Rightarrow> Some (-1, st)
      | Some text \<Rightarrow>
          map_option (\<lambda>(ret, ctx, st). (ret, st))
            (Option.bind
              (load_chunks (hk_tile_load_line cls upd) (fread_chunks text)
                (load_begin (\<lparr>ld_tile = tile, ld_section = SECTION_OBJECTS\<rparr>, st)))
              (load_end (hk_tile_load_line cls upd))))"

declare load_loop.simps [simp del] fread_chunks.simps [simp del]

section \<open>Chunks do not matter\<close>

definition feed_byte ::
    "(string \<Rightarrow> 'w \<Rightarrow> (int \<times> 'w) option) \<Rightarrow> 'w load_state \<Rightarrow> char \<Rightarrow> 'w load_state option" where
  "feed_byte line s c =
     map_option (\<lambda>s. if c = LF then s\<lparr>l_check := True\<rparr>
                     else s\<lparr>l_check := False, l_buf := l_buf s @ [c]\<rparr>)
       (if l_check s \<and> c \<noteq> SP then load_now (line (l_buf s)) s else Some s)"

lemma load_now_check: "load_now f s = Some s' \<Longrightarrow> l_check s' = l_check s"
  by (auto simp: load_now_def)

lemma load_now_set: "load_now f (s\<lparr>l_check := b\<rparr>) = map_option (l_check_update (\<lambda>_. b)) (load_now f s)"
  by (cases "f (l_world s)") (auto simp: load_now_def)

lemma feed_text:
  "\<not> l_check s \<Longrightarrow> LF \<notin> set t \<Longrightarrow> foldo (feed_byte line) s t = Some (s\<lparr>l_buf := l_buf s @ t\<rparr>)"
  by (induction t arbitrary: s) (auto simp: feed_byte_def)

lemma feed_pending:
  assumes "\<not> l_check s" "t \<noteq> []"
  shows "foldo (feed_byte line) (s\<lparr>l_check := True\<rparr>) t =
    (if hd t \<noteq> SP then Option.bind (load_now (line (l_buf s)) s) (\<lambda>s'. foldo (feed_byte line) s' t)
     else foldo (feed_byte line) s t)"
proof -
  obtain c t' where t: "t = c # t'" using assms(2) by (cases t) auto
  have "l_check_update (\<lambda>_. False) s = s" using assms(1) by (cases s) simp
  with assms(1) t load_now_set [where f = "line (l_buf s)" and s = s and b = True] show ?thesis
    by (cases "load_now (line (l_buf s)) s")
      (auto simp: feed_byte_def dest!: load_now_check split: Option.bind_splits)
qed

lemma load_loop_feed: "\<not> l_check s \<Longrightarrow> load_loop line s1 s = foldo (feed_byte line) s s1"
proof (induction line s1 s rule: load_loop.induct)
  case (1 line s1 s)
  show ?case
  proof (cases "strchr s1 LF")
    case None
    then have "LF \<notin> set s1" by (simp add: strchr_None_iff)
    with None feed_text [OF 1(4)] show ?thesis by (subst load_loop.simps) simp
  next
    case (Some i)
    let ?s' = "s\<lparr>l_buf := l_buf s @ take i s1\<rparr>" and ?s2 = "drop (i + 1) s1"
    have i: "i < length s1" "s1 ! i = LF" "LF \<notin> set (take i s1)" using strchr_SomeD [OF Some] by auto
    have s1: "s1 = take i s1 @ LF # ?s2" using id_take_nth_drop [OF i(1)] i(2) by simp
    have "foldo (feed_byte line) s s1 = Option.bind (feed_byte line ?s' LF) (\<lambda>s. foldo (feed_byte line) s ?s2)"
      by (subst s1) (simp add: foldo_append feed_text [OF 1(4) i(3)])
    also have "feed_byte line ?s' LF = Some (?s'\<lparr>l_check := True\<rparr>)" using 1(4) by (simp add: feed_byte_def)
    finally have e: "foldo (feed_byte line) s s1 = foldo (feed_byte line) (?s'\<lparr>l_check := True\<rparr>) ?s2" by simp
    show ?thesis
    proof (cases "?s2 = []")
      case True
      with Some e show ?thesis by (subst load_loop.simps) (simp add: load_loop.simps)
    next
      case False
      show ?thesis
      proof (cases "hd ?s2 \<noteq> SP")
        case True
        have "\<not> l_check s''" if "load_now (line (l_buf ?s')) ?s' = Some s''" for s''
          using load_now_check [OF that] 1(4) by simp
        with True False Some e feed_pending [of ?s' ?s2 line] 1(2) [OF Some refl refl False True] 1(4)
        show ?thesis by (subst load_loop.simps) (auto simp: Let_def split: option.splits Option.bind_splits)
      next
        case sp: False
        with False Some e feed_pending [of ?s' ?s2 line] 1(3) [OF Some refl refl False] 1(4)
        show ?thesis by (subst load_loop.simps) simp
      qed
    qed
  qed
qed

lemma load_chunk_feed:
  assumes "chunk \<noteq> []"
  shows "load_chunk line chunk s = foldo (feed_byte line) s (sanitize chunk)"
proof (cases "l_check s")
  case False
  then have e: "s\<lparr>l_check := False\<rparr> = s" by (cases s) simp
  show ?thesis unfolding load_chunk_def Let_def e load_loop_feed [OF False] using False by simp
next
  case True
  let ?s = "s\<lparr>l_check := False\<rparr>"
  have s: "?s\<lparr>l_check := True\<rparr> = s" using True by (cases s) simp
  have "sanitize chunk \<noteq> []" using assms by (simp add: sanitize_def)
  from feed_pending [of ?s, OF _ this, of line] s True
  have "foldo (feed_byte line) s (sanitize chunk) =
    (if hd (sanitize chunk) \<noteq> SP
     then Option.bind (load_now (line (l_buf s)) ?s) (\<lambda>s'. foldo (feed_byte line) s' (sanitize chunk))
     else foldo (feed_byte line) ?s (sanitize chunk))" by simp
  moreover have "\<not> l_check s'" if "load_now (line (l_buf s)) ?s = Some s'" for s'
    using load_now_check [OF that] by simp
  ultimately show ?thesis
    using True by (auto simp: load_chunk_def Let_def load_loop_feed split: Option.bind_splits)
qed

section \<open>Logical lines\<close>

fun lines_from :: "string \<Rightarrow> string \<Rightarrow> string list" where
  \<comment> \<open>the lines of a text, a line break before a space removed; \<open>acc\<close> begins the first\<close>
  "lines_from acc [] = (if acc = [] then [] else [acc])"
| "lines_from acc (c # s) =
     (if c = LF then
        (if s = [] then lines_from acc [] else if hd s = SP then lines_from acc s else acc # lines_from [] s)
      else lines_from (acc @ [c]) s)"

fun run_lines :: "(string \<Rightarrow> 'w \<Rightarrow> (int \<times> 'w) option) \<Rightarrow> string list \<Rightarrow> 'w \<Rightarrow> 'w option" where
  \<comment> \<open>all lines in order, each without error\<close>
  "run_lines line [] w = Some w"
| "run_lines line (l # ls) w =
     (case line l w of None \<Rightarrow> None | Some (ret, w') \<Rightarrow> if ret = 0 then run_lines line ls w' else None)"

definition pending_lines :: "'w load_state \<Rightarrow> string \<Rightarrow> string list" where
  \<comment> \<open>what is still to be processed when \<open>t\<close> is left of the text\<close>
  "pending_lines s t =
     (if l_check s \<and> t \<noteq> [] \<and> hd t \<noteq> SP then l_buf s # lines_from [] t else lines_from (l_buf s) t)"

lemma feed_run:
  assumes "run_lines line (pending_lines s (c # t)) (l_world s) = Some w" "l_ret s = 0"
  shows "\<exists>s'. feed_byte line s c = Some s' \<and> l_ret s' = 0 \<and> run_lines line (pending_lines s' t) (l_world s') = Some w"
proof -
  have tail: "lines_from acc (c # t) = pending_lines (if c = LF then s1\<lparr>l_check := True\<rparr>
      else s1\<lparr>l_check := False, l_buf := acc @ [c]\<rparr>) t" if "l_buf s1 = acc" for acc s1
    using that by (auto simp: pending_lines_def)
  show ?thesis
  proof (cases "l_check s \<and> c \<noteq> SP")
    case True
    then obtain w' where w': "line (l_buf s) (l_world s) = Some (0, w')"
      "run_lines line (lines_from [] (c # t)) w' = Some w"
      using assms(1) by (auto simp: pending_lines_def simp del: lines_from.simps split: option.splits if_splits)
    have n: "load_now (line (l_buf s)) s = Some (s\<lparr>l_buf := [], l_ret := 0, l_world := w'\<rparr>)"
      using w'(1) by (simp add: load_now_def)
    let ?s1 = "s\<lparr>l_buf := [], l_ret := 0, l_world := w'\<rparr>"
    let ?s2 = "if c = LF then ?s1\<lparr>l_check := True\<rparr> else ?s1\<lparr>l_check := False, l_buf := [] @ [c]\<rparr>"
    have "feed_byte line s c = Some ?s2" using True unfolding feed_byte_def by (simp add: n)
    moreover have "run_lines line (pending_lines ?s2 t) w' = Some w" using w'(2) tail [of ?s1 "[]"] by simp
    moreover have "l_world ?s2 = w'" "l_ret ?s2 = 0" by simp_all
    ultimately show ?thesis by metis
  next
    case False
    with assms show ?thesis unfolding feed_byte_def
      by (auto simp: pending_lines_def [of s "c # t"] tail [of s] simp del: lines_from.simps)
  qed
qed

lemma foldo_feed_run:
  assumes "run_lines line (pending_lines s (t @ u)) (l_world s) = Some w" "l_ret s = 0"
  shows "\<exists>s'. foldo (feed_byte line) s t = Some s' \<and> l_ret s' = 0 \<and>
    run_lines line (pending_lines s' u) (l_world s') = Some w"
  using assms
proof (induction t arbitrary: s)
  case (Cons c t)
  from feed_run [of line s c "t @ u"] Cons.prems obtain s1 where
    "feed_byte line s c = Some s1" "l_ret s1 = 0" "run_lines line (pending_lines s1 (t @ u)) (l_world s1) = Some w"
    by auto
  with Cons.IH [of s1] show ?case by simp
qed simp

lemma load_chunks_run:
  assumes "run_lines line (pending_lines s (sanitize (concat cs))) (l_world s) = Some w" "l_ret s = 0"
    and "\<And>c. c \<in> set cs \<Longrightarrow> c \<noteq> []"
  shows "\<exists>s'. load_chunks line cs s = Some s' \<and> l_ret s' = 0 \<and>
    run_lines line (pending_lines s' []) (l_world s') = Some w"
  using assms
proof (induction cs arbitrary: s)
  case (Cons c cs)
  have "run_lines line (pending_lines s (sanitize c @ sanitize (concat cs))) (l_world s) = Some w"
    using Cons.prems(1) by (simp add: sanitize_def)
  from foldo_feed_run [OF this Cons.prems(2)] obtain s1 where
    s1: "foldo (feed_byte line) s (sanitize c) = Some s1" "l_ret s1 = 0"
      "run_lines line (pending_lines s1 (sanitize (concat cs))) (l_world s1) = Some w" by blast
  with Cons.IH [OF s1(3,2)] Cons.prems(2,3) load_chunk_feed [of c line s] show ?case by simp
qed (simp add: sanitize_def)

lemma load_text_run:
  assumes "run_lines line (lines_from [] (sanitize (concat cs))) w = Some w'"
    and "\<And>c. c \<in> set cs \<Longrightarrow> c \<noteq> []"
  shows "Option.bind (load_chunks line cs (load_begin w)) (load_end line) = Some (0, w')"
proof -
  have "run_lines line (pending_lines (load_begin w) (sanitize (concat cs))) (l_world (load_begin w)) = Some w'"
    using assms(1) by (simp add: pending_lines_def load_begin_def)
  from load_chunks_run [OF this _ assms(2)] obtain s' where
    s': "load_chunks line cs (load_begin w) = Some s'" "l_ret s' = 0"
      "run_lines line (pending_lines s' []) (l_world s') = Some w'"
    by (auto simp: load_begin_def)
  then show ?thesis
    by (auto simp: load_end_def pending_lines_def split: if_splits option.splits)
qed

lemma fread_chunks_props: "concat (fread_chunks s) = s" "c \<in> set (fread_chunks s) \<Longrightarrow> c \<noteq> []"
proof -
  show "concat (fread_chunks s) = s"
    by (induction s rule: fread_chunks.induct) (subst fread_chunks.simps, simp)
  show "c \<in> set (fread_chunks s) \<Longrightarrow> c \<noteq> []"
    by (induction s rule: fread_chunks.induct) (subst (asm) (2) fread_chunks.simps, auto simp: CHUNK_def split: if_splits)
qed

end
