(* ===== verification/Hk_Load.thy ===== *)
theory Hk_Load
  imports Hk_ModLoad Hk_Run
begin

text \<open>
  A tile file whose lines all load leaves a consistent circuit (\<open>in_order\<close>), so that starting
  it and every later event return. The constructors of the circuit classes only extend the
  object they are called for (\<open>extends\<close>) and leave it wired.
\<close>

section \<open>Extending one object\<close>

definition extends :: "nat \<Rightarrow> ('e, 'z) hkw \<Rightarrow> ('e, 'z) hkw \<Rightarrow> bool" where
  "extends j s s' \<longleftrightarrow>
     nets s' = nets s \<and> tiles s' = tiles s \<and> classes s' = classes s \<and> length (objs s') = length (objs s) \<and>
     (\<forall>i. i \<noteq> j \<longrightarrow> obj_at s' i = obj_at s i) \<and>
     o_class (obj_at s' j) = o_class (obj_at s j) \<and> o_tile (obj_at s' j) = o_tile (obj_at s j) \<and>
     set (o_pads (obj_at s' j)) \<subseteq> set (o_pads (obj_at s j)) \<union> {length (pads s)..<length (pads s')} \<and>
     (\<exists>ps. pads s' = pads s @ ps \<and> (\<forall>p\<in>set ps. p_obj p = j \<and> p_net p = None))"

lemma extends_refl: "extends j s s"
  by (simp add: extends_def)

lemma extends_create:
  assumes "extends j s s1" "j < length (objs s1)"
  shows "extends j s (snd (hk_pad_create j d n s1))"
    "fst (hk_pad_create j d n s1) = length (pads s1)"
    "pads (snd (hk_pad_create j d n s1)) = pads s1 @ [\<lparr>p_obj = j, p_dir = d, p_name = take (PAD_NAME_SIZE - 1) n,
       p_value = None, p_net = None, p_lock = False, p_state = 0\<rparr>]"
    "length (objs (snd (hk_pad_create j d n s1))) = length (objs s1)"
    "o_props (obj_at (snd (hk_pad_create j d n s1)) i) = o_props (obj_at s1 i)"
proof -
  obtain ps where ps: "pads s1 = pads s @ ps" "\<forall>p\<in>set ps. p_obj p = j \<and> p_net p = None"
    using assms(1) by (auto simp: extends_def)
  let ?st = "s1\<lparr>pads := pads s1 @ [\<lparr>p_obj = j, p_dir = d, p_name = take (PAD_NAME_SIZE - 1) n,
       p_value = None, p_net = None, p_lock = False, p_state = 0\<rparr>]\<rparr>"
  have c: "hk_pad_create j d n s1 =
      (length (pads s1), upd_obj j (\<lambda>ob. ob\<lparr>o_pads := o_pads ob @ [length (pads s1)]\<rparr>) ?st)"
    by (simp add: hk_pad_create_def Let_def)
  show "fst (hk_pad_create j d n s1) = length (pads s1)"
    "pads (snd (hk_pad_create j d n s1)) = pads s1 @ [\<lparr>p_obj = j, p_dir = d, p_name = take (PAD_NAME_SIZE - 1) n,
       p_value = None, p_net = None, p_lock = False, p_state = 0\<rparr>]"
    "length (objs (snd (hk_pad_create j d n s1))) = length (objs s1)"
    "o_props (obj_at (snd (hk_pad_create j d n s1)) i) = o_props (obj_at s1 i)"
    by (simp_all add: c obj_at_upd)
  show "extends j s (snd (hk_pad_create j d n s1))"
    using assms ps unfolding extends_def c
    by (auto simp: obj_at_upd)
qed

lemma extends_upd_obj:
  assumes "extends j s s1" "\<And>x. o_class (g x) = o_class x \<and> o_tile (g x) = o_tile x \<and> o_pads (g x) = o_pads x"
  shows "extends j s (upd_obj j g s1)"
  using assms by (auto simp: extends_def obj_at_upd)

lemma extends_set_ctx: "extends j s s1 \<Longrightarrow> extends j s (set_ctx j c s1)"
  unfolding set_ctx_def by (rule extends_upd_obj) simp_all

lemma extends_prop_set: "extends j s s1 \<Longrightarrow> extends j s (hk_obj_prop_set j n v s1)"
  unfolding hk_obj_prop_set_def by (rule extends_upd_obj) simp_all

lemma extends_set_state:
  assumes "extends j s s1" "length (pads s) \<le> p"
  shows "extends j s (set_state p v s1)"
proof -
  obtain ps where ps: "pads s1 = pads s @ ps" "\<forall>p\<in>set ps. p_obj p = j \<and> p_net p = None"
    using assms(1) by (auto simp: extends_def)
  let ?i = "p - length (pads s)" and ?g = "\<lambda>x. x\<lparr>p_state := v\<rparr>"
  have "pads (set_state p v s1) = pads s @ map_nth ?i ?g ps"
    using ps(1) assms(2) by (simp add: set_state_def upd_pad_def map_nth_def list_update_append nth_append)
  moreover have "\<forall>x\<in>set (map_nth ?i ?g ps). p_obj x = j \<and> p_net x = None"
  proof
    fix x assume "x \<in> set (map_nth ?i ?g ps)"
    then obtain k where k: "k < length ps" "x = map_nth ?i ?g ps ! k" unfolding in_set_conv_nth by auto
    with ps(2) show "p_obj x = j \<and> p_net x = None" by (cases "?i = k") auto
  qed
  ultimately show ?thesis
    using assms(1) unfolding extends_def by (auto simp: set_state_def ps(1))
qed

lemma extends_keeps:
  assumes w: "wf_state s" and e: "extends j s s'" and j: "j < length (objs s)"
  shows "wf_state s'"
proof -
  obtain ps where ps: "pads s' = pads s @ ps" "\<forall>p\<in>set ps. p_obj p = j \<and> p_net p = None"
    using e by (auto simp: extends_def)
  have n: "nets s' = nets s" and t: "tiles s' = tiles s" and l: "length (objs s') = length (objs s)"
    using e by (simp_all add: extends_def)
  have nw: "net_wf s" and rw: "refs_wf s" using w by (simp_all add: wf_state_def)
  have old: "pad_at s' p = pad_at s p" if "p < length (pads s)" for p using that ps(1) by (simp add: nth_append)
  have new: "p_net (pad_at s' p) = None" if "\<not> p < length (pads s)" "p < length (pads s')" for p
    using that ps by (simp add: nth_append)
  have "net_wf s'"
  proof (rule net_wfI; unfold n)
    fix k assume k: "k < length (nets s)"
    show "distinct (n_pads (net_at s k))" using net_wfD(1) [OF nw k] .
    show "n_id (net_at s k) = 0 \<Longrightarrow> n_pads (net_at s k) = []" using net_wfD(3) [OF nw k] .
    show "p < length (pads s') \<and> p_net (pad_at s' p) = Some k" if "p \<in> set (n_pads (net_at s k))" for p
      using net_wfD(2) [OF nw k that] old ps(1) by simp
  next
    fix p k assume p: "p < length (pads s')" "p_net (pad_at s' p) = Some k"
    then have "p < length (pads s)" using new by fastforce
    with net_wfD(4) [OF nw this] old p show "k < length (nets s) \<and> p \<in> set (n_pads (net_at s k))" by simp
  qed
  moreover have "refs_wf s'"
    unfolding refs_wf_def t n l
  proof (intro conjI ballI)
    fix ob assume "ob \<in> set (objs s')"
    then obtain i where i: "i < length (objs s)" "ob = obj_at s' i" unfolding in_set_conv_nth using l by auto
    have "set (o_pads (obj_at s i)) \<subseteq> {..<length (pads s)}" "o_tile (obj_at s i) < length (tiles s)"
      using rw i(1) by (simp_all add: refs_wf_def)
    with e i ps(1) show "set (o_pads ob) \<subseteq> {..<length (pads s')}" "o_tile ob < length (tiles s)"
      by (cases "i = j"; fastforce simp: extends_def)+
  next
    fix pad assume "pad \<in> set (pads s')"
    with ps rw j show "p_obj pad < length (objs s)" by (auto simp: refs_wf_def)
  next
    fix t assume "t \<in> set (tiles s)"
    with rw show "set (t_objs t) \<subseteq> {..<length (objs s)}" "set (t_nets t) \<subseteq> {..<length (nets s)}"
      by (auto simp: refs_wf_def)
  qed
  ultimately show ?thesis by (simp add: wf_state_def)
qed

definition wired_below :: "('e, 'z) hkw \<Rightarrow> nat \<Rightarrow> bool" where
  \<comment> \<open>\<open>circuit_wired\<close> as far as the objects before \<open>j\<close> go\<close>
  "wired_below s j \<longleftrightarrow> (\<forall>i<j. o_class (obj_at s i) \<in> set circuit_names \<longrightarrow>
     (\<exists>c. ctx_of i s = Some c \<and> ctx_class c = o_class (obj_at s i) \<and> obj_wired s i c))"

lemma extends_wired:
  assumes "wired_below s j" "extends j s s'" "length (objs s) = Suc j"
    and "ctx_of j s' = Some c" "ctx_class c = o_class (obj_at s j)" "obj_wired s' j c"
  shows "circuit_wired s'"
  unfolding circuit_wired_def
proof (intro allI impI)
  obtain ps where ps: "pads s' = pads s @ ps" "\<forall>p\<in>set ps. p_obj p = j"
    using assms(2) by (auto simp: extends_def)
  fix i assume "i < length (objs s')" and n: "o_class (obj_at s' i) \<in> set circuit_names"
  then have i: "i < Suc j" using assms(2,3) by (simp add: extends_def)
  show "\<exists>c. ctx_of i s' = Some c \<and> ctx_class c = o_class (obj_at s' i) \<and> obj_wired s' i c"
  proof (cases "i = j")
    case True
    with assms show ?thesis by (auto simp: extends_def)
  next
    case False
    then have ob: "obj_at s' i = obj_at s i" and ij: "i < j" using assms(2) i by (auto simp: extends_def)
    obtain d where d: "ctx_of i s = Some d" "ctx_class d = o_class (obj_at s i)" "obj_wired s i d"
      using assms(1) ij n ob unfolding wired_below_def by metis
    have pad: "pad_at s' q = pad_at s q" if "q < length (pads s)" for q using that ps(1) by (simp add: nth_append)
    have own: "owns s' i q \<longleftrightarrow> owns s i q" for q
      using ps False by (auto simp: owns_def nth_append)
    have dir: "p_dir (pad_at s' q) = p_dir (pad_at s q)" if "owns s i q" for q
      using that pad by (simp add: owns_def)
    have "coherent s' d = coherent s d"
      using obj_wired_owns [OF d(3)] pad by (intro coherent_cong) (auto simp: owns_def)
    then have "obj_wired s' i d" using d(3) own dir unfolding obj_wired_def by metis
    moreover have "ctx_of i s' = Some d" using d(1) ob by (simp add: ctx_of_def)
    ultimately show ?thesis using d(2) ob by (intro exI [of _ d]) simp
  qed
qed

section \<open>Constructors\<close>

definition fresh :: "('e, 'z) hkw \<Rightarrow> nat \<Rightarrow> bool" where
  "fresh s j \<longleftrightarrow> j < length (objs s) \<and> (\<forall>p<length (pads s). p_obj (pad_at s p) \<noteq> j)"

lemma extends_obj_wired:
  assumes "extends j s s'" "fresh s j"
    and "\<And>q. q \<in> set (ctx_outputs c) \<Longrightarrow> length (pads s) \<le> q \<and> q < length (pads s') \<and> p_dir (pad_at s' q) = HK_PAD_OUT"
    and "\<And>q. q \<in> set (ctx_inputs c) \<Longrightarrow> length (pads s) \<le> q \<and> q < length (pads s') \<and> p_dir (pad_at s' q) \<noteq> HK_PAD_OUT"
    and "\<And>q. ctx_class c \<notin> {''and'', ''or''} \<Longrightarrow> length (pads s) \<le> q \<Longrightarrow> q < length (pads s') \<Longrightarrow>
           p_dir (pad_at s' q) \<noteq> HK_PAD_OUT \<Longrightarrow> q \<in> set (ctx_inputs c)"
    and "coherent s' c"
  shows "obj_wired s' j c"
proof -
  obtain ps where ps: "pads s' = pads s @ ps" "\<forall>p\<in>set ps. p_obj p = j"
    using assms(1) by (auto simp: extends_def)
  have own: "owns s' j q \<longleftrightarrow> length (pads s) \<le> q \<and> q < length (pads s')" for q
    using ps assms(2) by (auto simp: owns_def fresh_def nth_append)
  show ?thesis
    unfolding obj_wired_def own using assms(3-6) by blast
qed

definition built :: "nat \<Rightarrow> string \<Rightarrow> ('e, 'z) hkw \<Rightarrow> ('e, 'z) hkw \<Rightarrow> bool" where
  "built j n s s' \<longleftrightarrow> extends j s s' \<and> (\<exists>c. ctx_of j s' = Some c \<and> ctx_class c = n \<and> obj_wired s' j c)"

lemma builtI:
  assumes "extends j s s1" "fresh s j"
    and "\<And>q. q \<in> set (ctx_outputs c) \<Longrightarrow> length (pads s) \<le> q \<and> q < length (pads s1) \<and> p_dir (pad_at s1 q) = HK_PAD_OUT"
    and "\<And>q. q \<in> set (ctx_inputs c) \<Longrightarrow> length (pads s) \<le> q \<and> q < length (pads s1) \<and> p_dir (pad_at s1 q) \<noteq> HK_PAD_OUT"
    and "\<And>q. ctx_class c \<notin> {''and'', ''or''} \<Longrightarrow> length (pads s) \<le> q \<Longrightarrow> q < length (pads s1) \<Longrightarrow>
           p_dir (pad_at s1 q) \<noteq> HK_PAD_OUT \<Longrightarrow> q \<in> set (ctx_inputs c)"
    and "coherent (set_ctx j c s1) c" "ctx_class c = n"
  shows "built j n s (set_ctx j c s1)"
proof -
  have e: "extends j s (set_ctx j c s1)" by (rule extends_set_ctx [OF assms(1)])
  have "obj_wired (set_ctx j c s1) j c"
    by (rule extends_obj_wired [OF e assms(2)]) (use assms(3-6) in auto)
  moreover have "ctx_of j (set_ctx j c s1) = Some c"
    using assms(1,2) by (simp add: extends_def fresh_def)
  ultimately show ?thesis using e assms(7) by (auto simp: built_def)
qed

definition new_pad :: "nat \<Rightarrow> hk_pad_dir \<Rightarrow> string \<Rightarrow> hk_pad" where
  "new_pad j d n = \<lparr>p_obj = j, p_dir = d, p_name = take (PAD_NAME_SIZE - 1) n,
       p_value = None, p_net = None, p_lock = False, p_state = 0\<rparr>"

lemma new_pad_simps [simp]:
  "p_obj (new_pad j d n) = j" "p_dir (new_pad j d n) = d" "p_state (new_pad j d n) = 0"
  by (simp_all add: new_pad_def)

lemma create_E:
  assumes "extends j s s1" "fresh s j"
  obtains s2 where "hk_pad_create j d n s1 = (length (pads s1), s2)" "extends j s s2"
    "pads s2 = pads s1 @ [new_pad j d n]"
proof -
  have j: "j < length (objs s1)" using assms by (simp add: fresh_def extends_def)
  note c = extends_create [OF assms(1) j, of d n]
  obtain q s2 where e: "hk_pad_create j d n s1 = (q, s2)" by fastforce
  show ?thesis by (rule that [of s2]) (use c e in \<open>simp_all add: new_pad_def\<close>)
qed

lemma not_new_built:
  assumes "fresh s j" "not_new j s = Some (r, s')"
  shows "built j ''not'' s s'"
proof -
  obtain s0 where s0: "hk_pad_create j HK_PAD_IN ''in'' s = (length (pads s), s0)" "extends j s s0"
    "pads s0 = pads s @ [new_pad j HK_PAD_IN ''in'']"
    by (rule create_E [OF extends_refl assms(1)])
  obtain s1 where s1: "hk_pad_create j HK_PAD_OUT ''out'' s0 = (length (pads s0), s1)" "extends j s s1"
    "pads s1 = pads s0 @ [new_pad j HK_PAD_OUT ''out'']"
    by (rule create_E [OF s0(2) assms(1)])
  let ?c = "Not_ctx \<lparr>n_input = length (pads s), n_output = Suc (length (pads s))\<rparr>"
  have "s' = set_ctx j ?c s1" using assms(2) s0 s1 by (simp add: not_new_def)
  moreover have "built j ''not'' s (set_ctx j ?c s1)"
    by (rule builtI [OF s1(2) assms(1)]) (use s0(3) s1(3) in \<open>auto simp: nth_append less_Suc_eq\<close>)
  ultimately show ?thesis by simp
qed

lemma timer_new_built:
  fixes s :: "('e, 'z) hkw"
  assumes "fresh s j" "timer_new mk j s = Some (r, s')"
    and mk: "\<And>x. ctx_inputs (mk x) = [tm_input x]" "\<And>x. ctx_outputs (mk x) = [tm_output x]"
      "\<And>x. ctx_class (mk x) = n" "n \<notin> {''and'', ''or''}"
    and coh: "\<And>x (st :: ('e, 'z) hkw). tm_tag x = 0 \<Longrightarrow> p_state (pad_at st (tm_input x)) = 0 \<Longrightarrow>
      p_state (pad_at st (tm_output x)) = 0 \<Longrightarrow> coherent st (mk x)"
  shows "built j n s s'"
proof -
  obtain s0 where s0: "hk_pad_create j HK_PAD_IN ''in'' s = (length (pads s), s0)" "extends j s s0"
    "pads s0 = pads s @ [new_pad j HK_PAD_IN ''in'']"
    by (rule create_E [OF extends_refl assms(1)])
  obtain s1 where s1: "hk_pad_create j HK_PAD_OUT ''out'' s0 = (length (pads s0), s1)" "extends j s s1"
    "pads s1 = pads s0 @ [new_pad j HK_PAD_OUT ''out'']"
    by (rule create_E [OF s0(2) assms(1)])
  let ?x = "\<lparr>tm_input = length (pads s), tm_output = Suc (length (pads s)), tm_delay = prop_int j ''delay'' s1,
    tm_inv = (prop_of j ''inv'' s1 \<noteq> None), tm_tag = 0\<rparr>"
  have "s' = set_ctx j (mk ?x) s1" using assms(2) s0 s1 by (simp add: timer_new_def)
  moreover have "built j n s (set_ctx j (mk ?x) s1)"
    by (rule builtI [OF s1(2) assms(1)])
      (use s0(3) s1(3) in \<open>auto simp: mk nth_append less_Suc_eq intro!: coh\<close>)
  ultimately show ?thesis by (simp add: mk)
qed

lemma pulse_new_built:
  assumes "fresh s j" "pulse_new j s = Some (r, s')"
  shows "built j ''timer-pulse'' s s'"
proof -
  obtain s0 where s0: "hk_pad_create j HK_PAD_IN ''in'' s = (length (pads s), s0)" "extends j s s0"
    "pads s0 = pads s @ [new_pad j HK_PAD_IN ''in'']"
    by (rule create_E [OF extends_refl assms(1)])
  obtain s1 where s1: "hk_pad_create j HK_PAD_OUT ''out'' s0 = (length (pads s0), s1)" "extends j s s1"
    "pads s1 = pads s0 @ [new_pad j HK_PAD_OUT ''out'']"
    by (rule create_E [OF s0(2) assms(1)])
  obtain x where x: "s' = set_ctx j (Pulse_ctx x) s1" "tm_input x = length (pads s)"
    "tm_output x = Suc (length (pads s))" "tm_tag x = 0"
    using assms(2) s0 s1 by (auto simp: pulse_new_def Let_def)
  have "built j ''timer-pulse'' s (set_ctx j (Pulse_ctx x) s1)"
    by (rule builtI [OF s1(2) assms(1)]) (use s0(3) s1(3) x in \<open>auto simp: nth_append less_Suc_eq\<close>)
  with x(1) show ?thesis by simp
qed

lemma relay_new_built:
  assumes "fresh s j" "relay_new j s = Some (r, s')"
  shows "built j ''relay-bistable'' s s'"
proof -
  obtain s0 where s0: "hk_pad_create j HK_PAD_IN ''in'' s = (length (pads s), s0)" "extends j s s0"
    "pads s0 = pads s @ [new_pad j HK_PAD_IN ''in'']"
    by (rule create_E [OF extends_refl assms(1)])
  obtain s1 where s1: "hk_pad_create j HK_PAD_OUT ''out0'' s0 = (length (pads s0), s1)" "extends j s s1"
    "pads s1 = pads s0 @ [new_pad j HK_PAD_OUT ''out0'']"
    by (rule create_E [OF s0(2) assms(1)])
  obtain s2 where s2: "hk_pad_create j HK_PAD_OUT ''out1'' s1 = (length (pads s1), s2)" "extends j s s2"
    "pads s2 = pads s1 @ [new_pad j HK_PAD_OUT ''out1'']"
    by (rule create_E [OF s1(2) assms(1)])
  let ?c = "Relay_ctx \<lparr>rl_input = length (pads s), rl_output0 = Suc (length (pads s)),
    rl_output1 = Suc (Suc (length (pads s))), rl_tag = 0\<rparr>"
  have "s' = set_ctx j ?c s2" using assms(2) s0 s1 s2 by (simp add: relay_new_def)
  moreover have "built j ''relay-bistable'' s (set_ctx j ?c s2)"
    by (rule builtI [OF s2(2) assms(1)]) (use s0(3) s1(3) s2(3) in \<open>auto simp: nth_append less_Suc_eq\<close>)
  ultimately show ?thesis by simp
qed

lemma pads_set_state_last: "pads s = ps @ [x] \<Longrightarrow> pads (set_state (length ps) v s) = ps @ [x\<lparr>p_state := v\<rparr>]"
  by (simp add: set_state_def upd_pad_def map_nth_def)

lemma cmp_new_built:
  assumes "fresh s j" "cmp_new j s = Some (r, s')"
  shows "built j ''cmp'' s s'"
proof -
  obtain s0 where s0: "hk_pad_create j HK_PAD_IN ''ref'' s = (length (pads s), s0)" "extends j s s0"
    "pads s0 = pads s @ [new_pad j HK_PAD_IN ''ref'']"
    by (rule create_E [OF extends_refl assms(1)])
  obtain s1 where s1: "hk_pad_create j HK_PAD_IN ''in'' s0 = (length (pads s0), s1)" "extends j s s1"
    "pads s1 = pads s0 @ [new_pad j HK_PAD_IN ''in'']"
    by (rule create_E [OF s0(2) assms(1)])
  obtain s2 where s2: "hk_pad_create j HK_PAD_OUT ''out'' s1 = (length (pads s1), s2)" "extends j s s2"
    "pads s2 = pads s1 @ [new_pad j HK_PAD_OUT ''out'']"
    by (rule create_E [OF s1(2) assms(1)])
  let ?s3 = "set_state (length (pads s1)) (-1) s2"
  have p3: "pads ?s3 = pads s1 @ [(new_pad j HK_PAD_OUT ''out'')\<lparr>p_state := -1\<rparr>]"
    by (rule pads_set_state_last [OF s2(3)])
  have e3: "extends j s ?s3" by (rule extends_set_state [OF s2(2)]) (simp add: s1(3) s0(3))
  obtain x where x: "s' = set_ctx j (Cmp_ctx x) ?s3" "c_ref x = length (pads s)"
    "c_in x = Suc (length (pads s))" "c_out x = Suc (Suc (length (pads s)))"
    using assms(2) s0 s1 s2 by (auto simp: cmp_new_def Let_def)
  have "built j ''cmp'' s (set_ctx j (Cmp_ctx x) ?s3)"
    by (rule builtI [OF e3 assms(1)]) (use s0(3) s1(3) s2(3) p3 x in \<open>auto simp: nth_append less_Suc_eq\<close>)
  with x(1) show ?thesis by simp
qed

lemma clock_new_built:
  assumes "fresh s j" "clock_new j s = Some (r, s')" "0 \<le> r"
  shows "built j ''timer-clock'' s s'"
proof -
  obtain str where str: "prop_of j ''period'' s = Some str"
    using assms(2,3) by (auto simp: clock_new_def split: option.splits)
  let ?du = "prop_of j ''duty'' s"
  obtain st1 where st1: "st1 = (case ?du of None \<Rightarrow> s
      | Some d \<Rightarrow> (case strchr d CHR ''%'' of
           None \<Rightarrow> s | Some i \<Rightarrow> hk_obj_prop_set j ''duty'' (take i d) s))" by simp
  have e1: "extends j s st1" and p1: "pads st1 = pads s"
    unfolding st1
    by (auto simp: extends_refl hk_obj_prop_set_def intro: extends_prop_set [OF extends_refl, unfolded hk_obj_prop_set_def]
        split: option.split)
  obtain s0 where s0: "hk_pad_create j HK_PAD_IN ''enable'' st1 = (length (pads st1), s0)" "extends j s s0"
    "pads s0 = pads st1 @ [new_pad j HK_PAD_IN ''enable'']"
    by (rule create_E [OF e1 assms(1)])
  let ?s3 = "set_state (length (pads st1)) (-1) s0"
  have p3: "pads ?s3 = pads st1 @ [(new_pad j HK_PAD_IN ''enable'')\<lparr>p_state := -1\<rparr>]"
    by (rule pads_set_state_last [OF s0(3)])
  have e3: "extends j s ?s3" by (rule extends_set_state [OF s0(2)]) (simp add: p1)
  obtain s4 where s4: "hk_pad_create j HK_PAD_OUT ''out'' ?s3 = (length (pads ?s3), s4)" "extends j s s4"
    "pads s4 = pads ?s3 @ [new_pad j HK_PAD_OUT ''out'']"
    by (rule create_E [OF e3 assms(1)])
  obtain x where x: "s' = set_ctx j (Clock_ctx x) s4" "ck_enable x = length (pads s)"
    "ck_output x = Suc (length (pads s))"
    using assms(2,3) s0(1,3) s4(1) str p1 unfolding clock_new_def Let_def str st1 [symmetric]
    by (auto split: if_splits option.splits)
  have "built j ''timer-clock'' s (set_ctx j (Clock_ctx x) s4)"
    by (rule builtI [OF s4(2) assms(1)]) (use s0(3) s4(3) p1 p3 x in \<open>auto simp: nth_append less_Suc_eq\<close>)
  with x(1) show ?thesis by simp
qed

definition inputs_ok :: "('e, 'z) hkw \<Rightarrow> ('e, 'z) hkw \<Rightarrow> nat option list \<Rightarrow> bool" where
  "inputs_ok s st inputs \<longleftrightarrow> (\<forall>q. Some q \<in> set inputs \<longrightarrow>
     length (pads s) \<le> q \<and> q < length (pads st) \<and> p_dir (pad_at st q) = HK_PAD_IN)"

lemma add_inputs_extends:
  assumes "fresh s j" "add_inputs j s = Some (inputs, st)"
  shows "extends j s st" "inputs_ok s st inputs"
proof -
  let ?I = "\<lambda>(inputs, st). extends j s st \<and> inputs_ok s st inputs"
  have "?I (inputs, st)"
  proof (rule foldo_partial_inv [where I = ?I])
    show "foldo (add_input j) ([], s) (o_props (obj_at s j)) = Some (inputs, st)"
      using assms(2) by (simp add: add_inputs_def)
    show "?I ([], s)" by (simp add: extends_refl inputs_ok_def)
    fix a x a' assume I: "?I a" and a: "add_input j a x = Some a'"
    obtain inp t where at: "a = (inp, t)" by fastforce
    have e: "extends j s t" and ok: "inputs_ok s t inp" using I at by simp_all
    obtain t' where t': "hk_pad_create j HK_PAD_IN (pe_name x) t = (length (pads t), t')" "extends j s t'"
      "pads t' = pads t @ [new_pad j HK_PAD_IN (pe_name x)]"
      by (rule create_E [OF e assms(1)])
    have le: "length (pads s) \<le> length (pads t)" using e by (auto simp: extends_def)
    show "?I a'"
    proof (cases "a' = a")
      case True
      with I show ?thesis by simp
    next
      case False
      with a at t'(1) obtain num where
        a': "a' = ((grow_inputs (nat num + 1) inp)[nat num := Some (length (pads t))], t')"
        by (auto simp: add_input_def split: option.splits if_splits)
      have "Some q \<in> set inp" if "Some q \<in> set (grow_inputs m inp)" for q m
        using that by (auto simp: grow_inputs_def)
      then have "Some q \<in> set inp \<or> q = length (pads t)"
        if "Some q \<in> set ((grow_inputs (nat num + 1) inp)[nat num := Some (length (pads t))])" for q
        using set_update_subset_insert [of "grow_inputs (nat num + 1) inp"] that by blast
      then have "inputs_ok s t' (fst a')"
        using ok le t'(3) unfolding inputs_ok_def a' by (fastforce simp: nth_append)
      with a' t'(2) show ?thesis by simp
    qed
  qed
  then show "extends j s st" "inputs_ok s st inputs" by simp_all
qed

lemma gate_new_built:
  fixes s :: "('e, 'z) hkw"
  assumes "fresh s j" "gate_new mk j s = Some (r, s')"
    and mk: "\<And>x. ctx_inputs (mk x) = present (g_inputs x)" "\<And>x. ctx_outputs (mk x) = [g_output x]"
      "\<And>x. ctx_class (mk x) = n" "n \<in> {''and'', ''or''}"
    and coh: "\<And>x (st :: ('e, 'z) hkw). g_refresh x \<Longrightarrow> coherent st (mk x)"
  shows "built j n s s'"
proof -
  obtain inputs st where st: "add_inputs j s = Some (inputs, st)"
    using assms(2) by (auto simp: gate_new_def)
  note a = add_inputs_extends [OF assms(1) st]
  obtain s1 where s1: "hk_pad_create j HK_PAD_OUT ''out'' st = (length (pads st), s1)" "extends j s s1"
    "pads s1 = pads st @ [new_pad j HK_PAD_OUT ''out'']"
    by (rule create_E [OF a(1) assms(1)])
  have le: "length (pads s) \<le> length (pads st)" using a(1) by (auto simp: extends_def)
  obtain x where x: "s' = set_ctx j (mk x) s1" "g_inputs x = inputs" "g_output x = length (pads st)" "g_refresh x"
    using assms(2) st s1(1) by (auto simp: gate_new_def)
  have "built j n s (set_ctx j (mk x) s1)"
    by (rule builtI [OF s1(2) assms(1)])
      (use s1(3) a(2) le x mk(3,4) in \<open>auto simp: mk(1,2) inputs_ok_def nth_append intro: coh\<close>)
  with x(1) show ?thesis by simp
qed

lemma circuit_new_built:
  assumes "fresh s j" "m_new (circuit_class upd n) = Some f" "f j s = Some (r, s')" "0 \<le> r"
  shows "built j n s s'"
proof -
  consider "n = ''and''" "f = and_new" | "n = ''or''" "f = or_new" | "n = ''not''" "f = not_new"
    | "n = ''cmp''" "f = cmp_new" | "n = ''timer-on''" "f = timer_on_new" | "n = ''timer-off''" "f = timer_off_new"
    | "n = ''timer-pulse''" "f = pulse_new" | "n = ''timer-clock''" "f = clock_new"
    | "n = ''relay-bistable''" "f = relay_new"
    using assms(2) by (auto simp: circuit_class_def split: if_splits)
  then show ?thesis
  proof cases
    case 1
    with assms(3) have g: "gate_new And_ctx j s = Some (r, s')" by (simp add: and_new_def)
    show ?thesis unfolding 1 by (rule gate_new_built [OF assms(1) g]) simp_all
  next
    case 2
    with assms(3) have g: "gate_new Or_ctx j s = Some (r, s')" by (simp add: or_new_def)
    show ?thesis unfolding 2 by (rule gate_new_built [OF assms(1) g]) simp_all
  next
    case 5
    with assms(3) have g: "timer_new Timer_on_ctx j s = Some (r, s')" by (simp add: timer_on_new_def)
    show ?thesis unfolding 5 by (rule timer_new_built [OF assms(1) g]) simp_all
  next
    case 6
    with assms(3) have g: "timer_new Timer_off_ctx j s = Some (r, s')" by (simp add: timer_off_new_def)
    show ?thesis unfolding 6 by (rule timer_new_built [OF assms(1) g]) simp_all
  qed (use assms not_new_built cmp_new_built pulse_new_built clock_new_built relay_new_built in blast)+
qed

section \<open>Objects and nets of a file\<close>

definition with_object :: "('e, 'z) hkw \<Rightarrow> nat \<Rightarrow> string \<Rightarrow> ('e, 'z) hkw \<Rightarrow> bool" where
  \<comment> \<open>\<open>t\<close> is \<open>s\<close> with a new object, which has no pads and no context yet\<close>
  "with_object s tile cname t \<longleftrightarrow>
     pads t = pads s \<and> nets t = nets s \<and> classes t = classes s \<and> length (tiles t) = length (tiles s) \<and>
     length (objs t) = Suc (length (objs s)) \<and> (\<forall>i<length (objs s). obj_at t i = obj_at s i) \<and>
     o_class (obj_at t (length (objs s))) = cname \<and> o_tile (obj_at t (length (objs s))) = tile \<and>
     o_pads (obj_at t (length (objs s))) = []"

lemma with_object_prop:
  "with_object s tile cname t \<Longrightarrow> with_object s tile cname (hk_obj_prop_set (length (objs s)) n v t) \<and>
     tiles (hk_obj_prop_set (length (objs s)) n v t) = tiles t"
  by (auto simp: with_object_def hk_obj_prop_set_def obj_at_upd)

lemma with_object_props:
  "with_object s tile cname t \<Longrightarrow>
   with_object s tile cname (foldl (\<lambda>st arg. case split_assign arg of (n, v) \<Rightarrow>
       hk_obj_prop_set (length (objs s)) n v st) t argv) \<and>
   tiles (foldl (\<lambda>st arg. case split_assign arg of (n, v) \<Rightarrow>
       hk_obj_prop_set (length (objs s)) n v st) t argv) = tiles t"
proof (induction argv arbitrary: t)
  case (Cons a argv)
  obtain n v where a: "split_assign a = (n, v)" by fastforce
  from with_object_prop [OF Cons.prems] Cons.IH [of "hk_obj_prop_set (length (objs s)) n v t"] a
  show ?case by simp
qed simp

lemma obj_create_ok:
  assumes "in_order s" "tile < length (tiles s)" "hk_obj_create tile cname name argv s = (Some j, s1)"
  shows "j = length (objs s)" "with_object s tile cname s1" "wf_state s1" "wired_below s1 j" "fresh s1 j"
proof -
  have rw: "refs_wf s" and nw: "net_wf s" and w: "circuit_wired s"
    using assms(1) by (simp_all add: in_order_def wf_state_def)
  let ?j = "length (objs s)"
  let ?s0 = "s\<lparr>objs := objs s @ [\<lparr>o_name = name, o_tile = tile, o_class = cname, o_props = hk_prop_init,
    o_pads = [], o_ctx = None\<rparr>]\<rparr>"
  let ?s2 = "foldl (\<lambda>st arg. case split_assign arg of (n, v) \<Rightarrow> hk_obj_prop_set ?j n v st) ?s0 argv"
  have j: "j = ?j" and s1: "s1 = upd_tile tile (\<lambda>t. t\<lparr>t_objs := t_objs t @ [?j]\<rparr>) ?s2"
    using assms(3) by (auto simp: hk_obj_create_def Let_def split: if_splits)
  have "with_object s tile cname ?s0" by (simp add: with_object_def nth_append)
  from with_object_props [OF this, of argv] have w2: "with_object s tile cname ?s2" and t2: "tiles ?s2 = tiles s"
    by simp_all
  show "j = ?j" by (rule j)
  show w1: "with_object s tile cname s1" using w2 unfolding s1 with_object_def by simp
  have ti: "tile_at s1 u = (if u = tile then (tile_at s u)\<lparr>t_objs := t_objs (tile_at s u) @ [?j]\<rparr> else tile_at s u)" for u
    using assms(2) t2 unfolding s1 by (simp add: tile_at_upd)
  have f: "pads s1 = pads s" "nets s1 = nets s" "length (tiles s1) = length (tiles s)" "length (objs s1) = Suc ?j"
    "\<And>i. i < ?j \<Longrightarrow> obj_at s1 i = obj_at s i" "o_pads (obj_at s1 ?j) = []" "o_tile (obj_at s1 ?j) = tile"
    using w1 by (simp_all add: with_object_def)
  have "refs_wf s1"
    unfolding refs_wf_def f(1,2,3,4)
  proof (intro conjI ballI)
    fix ob assume "ob \<in> set (objs s1)"
    then obtain i where i: "i < Suc ?j" "ob = obj_at s1 i" unfolding in_set_conv_nth using f(4) by auto
    show "set (o_pads ob) \<subseteq> {..<length (pads s)}" "o_tile ob < length (tiles s)"
      using i f(5-7) rw assms(2) by (cases "i = ?j"; auto simp: refs_wf_def)+
  next
    fix pad assume "pad \<in> set (pads s)"
    then have "p_obj pad < ?j" using rw by (simp add: refs_wf_def)
    then show "p_obj pad < Suc ?j" by simp
  next
    fix t assume "t \<in> set (tiles s1)"
    then obtain u where u: "u < length (tiles s)" "t = tile_at s1 u" unfolding in_set_conv_nth using f(3) by auto
    have "set (t_objs (tile_at s u)) \<subseteq> {..<?j}" "set (t_nets (tile_at s u)) \<subseteq> {..<length (nets s)}"
      using rw u(1) by (simp_all add: refs_wf_def)
    then show "set (t_objs t) \<subseteq> {..<Suc ?j}" "set (t_nets t) \<subseteq> {..<length (nets s)}"
      unfolding u(2) ti by auto
  qed
  moreover have "net_wf s1" using net_wf_cong [OF f(1,2)] nw by simp
  ultimately show "wf_state s1" by (simp add: wf_state_def)
  show "fresh s1 j"
    using rw f(1,4) j nth_mem unfolding fresh_def refs_wf_def by fastforce
  show "wired_below s1 j"
    unfolding wired_below_def j
  proof (intro allI impI)
    fix i assume i: "i < ?j" and n: "o_class (obj_at s1 i) \<in> set circuit_names"
    obtain c where c: "ctx_of i s = Some c" "ctx_class c = o_class (obj_at s i)" "obj_wired s i c"
      by (rule circuit_wiredE [OF w i refl]) (use n f(5) [OF i] in auto)
    have o: "owns s1 i q = owns s i q" for q by (simp add: owns_def f(1))
    have "coherent s1 c = coherent s c" by (rule coherent_cong) (simp add: f(1))
    then have "obj_wired s1 i c" using c(3) unfolding obj_wired_def o f(1) by argo
    with c(1,2) f(5) [OF i] show "\<exists>c. ctx_of i s1 = Some c \<and> ctx_class c = o_class (obj_at s1 i) \<and> obj_wired s1 i c"
      by (intro exI [of _ c]) (simp add: ctx_of_def)
  qed
qed

definition loadable :: "nat \<Rightarrow> ('e, 'z) hkw \<Rightarrow> bool" where
  "loadable tile s \<longleftrightarrow> in_order s \<and> tile < length (tiles s) \<and> set (classes s) \<subseteq> set circuit_names"

lemma load_object_ok:
  assumes "loadable (ld_tile ctx) s" "hk_tile_load_object circuit_class upd ctx name argv s = Some (0, s')"
  shows "loadable (ld_tile ctx) s'"
proof -
  have s: "in_order s" "ld_tile ctx < length (tiles s)" "set (classes s) \<subseteq> set circuit_names"
    using assms(1) by (simp_all add: loadable_def)
  obtain cname nm j s1 where c: "hk_class_find (hd argv) s = Some cname" "name = Some nm"
    "hk_obj_create (ld_tile ctx) cname nm (tl argv) s = (Some j, s1)"
    and n: "(case m_new (circuit_class upd cname) of None \<Rightarrow> Some (0, s1)
      | Some f \<Rightarrow> map_option (\<lambda>(ret, st). (if ret < 0 then -1 else 0, st)) (f j s1)) = Some (0 :: int, s')"
    using assms(2) unfolding hk_tile_load_object_def
    by (auto split: if_splits option.splits prod.splits)
  note oc = obj_create_ok [OF s(1,2) c(3)]
  have cn: "cname \<in> set circuit_names" using c(1) s(3) by (auto simp: hk_class_find_def split: if_splits)
  then obtain f where f: "m_new (circuit_class upd cname) = Some f"
    by (auto simp: circuit_names_def circuit_class_def)
  with n obtain r where r: "f j s1 = Some (r, s')" "0 \<le> r" by (auto split: if_splits)
  have wo: "classes s1 = classes s" "length (tiles s1) = length (tiles s)" "length (objs s1) = Suc j"
    "o_class (obj_at s1 j) = cname"
    using oc(1,2) by (simp_all add: with_object_def)
  obtain c where b: "extends j s1 s'" "ctx_of j s' = Some c" "ctx_class c = cname" "obj_wired s' j c"
    using circuit_new_built [OF oc(5) f r] by (auto simp: built_def)
  have "circuit_wired s'" by (rule extends_wired [OF oc(4) b(1) wo(3) b(2) _ b(4)]) (simp add: b(3) wo(4))
  moreover have "wf_state s'" by (rule extends_keeps [OF oc(3) b(1)]) (simp add: wo(3))
  ultimately show ?thesis
    using s(2,3) b(1) wo by (simp add: loadable_def in_order_def extends_def)
qed

lemma load_pads_ok:
  assumes "wf_state s" "net < length (nets s)" "n_id (net_at s net) \<noteq> 0" "tile < length (tiles s)"
  shows "relinks s (snd (load_pads tile net argv s)) \<and> wf_state (snd (load_pads tile net argv s))"
  using assms
proof (induction tile net argv s rule: load_pads.induct)
  case (2 tile net a argv st)
  show ?case
  proof (cases "strchr a CHR ''.''")
    case None
    with 2 show ?thesis by simp
  next
    case pt: (Some pt)
    show ?thesis
    proof (cases "hk_obj_find tile (take pt a) st")
      case None
      with 2 pt show ?thesis by simp
    next
      case ob: (Some obj)
      show ?thesis
      proof (cases "hk_pad_find obj (drop (pt + 1) a) st")
        case None
        with 2 pt ob show ?thesis by simp
      next
        case pd: (Some pad)
        have rw: "refs_wf st" and nw: "net_wf st" using 2(2) by (simp_all add: wf_state_def)
        have "obj < length (objs st)"
          using ob 2(5) refs_wfD(4) [OF rw] unfolding hk_obj_find_def by (auto dest: find_ref_SomeD)
        then have p: "pad < length (pads st)"
          using pd refs_wfD(1) [OF rw] unfolding hk_pad_find_def by (auto dest: find_ref_SomeD)
        let ?s = "snd (hk_net_connect net pad st)"
        have r: "relinks st ?s" by (rule relinks_connect)
        have "wf_state ?s"
          using hk_net_connect_wf [OF nw 2(3,4) p] refs_wf_relinks [OF rw r] by (simp add: wf_state_def)
        with 2(1) [OF pt ob pd] 2(3-5) have "relinks ?s (snd (load_pads tile net argv ?s)) \<and>
            wf_state (snd (load_pads tile net argv ?s))"
          by (simp add: hk_net_connect_nets)
        with relinks_trans [OF r] pt ob pd show ?thesis by simp
      qed
    qed
  qed
qed simp

lemma load_net_ok:
  assumes "loadable (ld_tile ctx) s"
  shows "loadable (ld_tile ctx) (snd (hk_tile_load_net ctx argv s))"
proof -
  let ?t = "ld_tile ctx"
  have s: "in_order s" "?t < length (tiles s)" "set (classes s) \<subseteq> set circuit_names"
    using assms(1) by (simp_all add: loadable_def)
  then have nw: "net_wf s" and rw: "refs_wf s" by (simp_all add: in_order_def wf_state_def)
  obtain net s1 where c: "hk_net_create ?t s = (net, s1)" by fastforce
  have tn: "set (t_nets (tile_at s ?t)) \<subseteq> {..<length (nets s)}" using refs_wfD(5) [OF rw s(2)] .
  note cs = hk_net_create_spec [OF nw s(2) tn, unfolded c fst_conv snd_conv]
  have "nets_ok s" using rw by (simp add: refs_wf_def nets_ok_def)
  from relinks_create [OF this, of ?t] have r1: "relinks s s1" by (simp add: c)
  have w1: "wf_state s1" using cs(1) refs_wf_relinks [OF rw r1] by (simp add: wf_state_def)
  have "relinks s1 (snd (load_pads ?t net argv s1)) \<and> wf_state (snd (load_pads ?t net argv s1))"
    by (rule load_pads_ok [OF w1 cs(4,5)]) (use s(2) cs(8) in simp)
  then have r: "relinks s (snd (load_pads ?t net argv s1))" and w: "wf_state (snd (load_pads ?t net argv s1))"
    using relinks_trans [OF r1] by simp_all
  note k = relinks_kept [OF r]
  have "circuit_wired (snd (load_pads ?t net argv s1))"
    by (rule circuit_wired_same [OF _ k(1,4,3)]) (use s(1) in \<open>simp add: in_order_def\<close>)
  with w s k(7) r show ?thesis
    by (simp add: hk_tile_load_net_def c loadable_def in_order_def relinks_def)
qed

lemma load_line_ok:
  assumes "loadable (ld_tile ctx) s" "hk_tile_load_line circuit_class upd text (ctx, s) = Some (0, ctx', s')"
  shows "loadable (ld_tile ctx') s'" "ld_tile ctx' = ld_tile ctx"
proof -
  let ?line = "dropWhile is_blank (cstr text)"
  obtain name str where sp: "split_name ?line = (name, str)" by fastforce
  have "loadable (ld_tile ctx) s' \<and> ld_tile ctx' = ld_tile ctx"
    using assms load_object_ok [OF assms(1), of upd name "str_argv str" s'] load_net_ok [OF assms(1), of "str_argv str"] sp
    unfolding hk_tile_load_line_def Let_def
    by (auto split: if_splits load_section.splits option.splits prod.splits)
  then show "loadable (ld_tile ctx') s'" "ld_tile ctx' = ld_tile ctx" by simp_all
qed

lemma run_lines_ok:
  assumes "loadable (ld_tile ctx) s" "run_lines (hk_tile_load_line circuit_class upd) ls (ctx, s) = Some (ctx', s')"
  shows "loadable (ld_tile ctx) s'"
  using assms
proof (induction ls arbitrary: ctx s)
  case (Cons l ls)
  then obtain ctx1 s1 where l: "hk_tile_load_line circuit_class upd l (ctx, s) = Some (0, ctx1, s1)"
    "run_lines (hk_tile_load_line circuit_class upd) ls (ctx1, s1) = Some (ctx', s')"
    by (auto split: option.splits if_splits prod.splits)
  from load_line_ok [OF Cons.prems(1) l(1)] Cons.IH [of ctx1 s1] l(2) show ?case by simp
qed simp

section \<open>Properties\<close>

text \<open>
  C9: A tile file whose logical lines (a line break before a blank removed) all load without
  error is loaded line by line in order, wherever the chunks of 1023 bytes it is read in cut it.
\<close>

theorem hk_tile_load_lines:
  assumes "read_file (t_fname (tile_at st tile)) = Some text"
    and "run_lines (hk_tile_load_line cls upd) (lines_from [] (sanitize text))
      (\<lparr>ld_tile = tile, ld_section = SECTION_OBJECTS\<rparr>, st) = Some (ctx', st')"
  shows "hk_tile_load cls upd read_file tile st = Some (0, st')"
proof -
  have "run_lines (hk_tile_load_line cls upd) (lines_from [] (sanitize (concat (fread_chunks text))))
      (\<lparr>ld_tile = tile, ld_section = SECTION_OBJECTS\<rparr>, st) = Some (ctx', st')"
    using assms(2) by (simp add: fread_chunks_props)
  from load_text_run [OF this] fread_chunks_props(2) [of _ "text"] assms(1) show ?thesis
    by (simp add: hk_tile_load_def)
qed

definition empty_tile :: "unit hk_ctx hk_state" where
  "empty_tile = (hk_start 1)\<lparr>classes := [''not'', ''and''],
     tiles := [\<lparr>t_dir = ''/'', t_name = ''t'', t_fname = ''f'', t_objs = [], t_nets = []\<rparr>],
     tile_tab := [Some 0]\<rparr>"

definition inverter_file :: string where
  "inverter_file = ''inv: not'' @ [LF] @ ''g: and'' @ [LF] @ '' in0=$inv.out in1=1'' @ [LF] @ ''[nets]'' @ [LF]
     @ ''inv.in g.out'' @ [LF]"

lemma inverter_loads:
  "\<exists>ctx st. run_lines (hk_tile_load_line circuit_class (\<lambda>_ _ _. None)) (lines_from [] (sanitize inverter_file))
      (\<lparr>ld_tile = 0, ld_section = SECTION_OBJECTS\<rparr>, empty_tile) = Some (ctx, st)"
proof -
  have "run_lines (hk_tile_load_line circuit_class (\<lambda>_ _ _. None)) (lines_from [] (sanitize inverter_file))
      (\<lparr>ld_tile = 0, ld_section = SECTION_OBJECTS\<rparr>, empty_tile) \<noteq> None" by code_simp
  then show ?thesis by auto
qed

theorem hk_tile_load_lines_witness:
  "\<exists>st'. hk_tile_load circuit_class (\<lambda>_ _ _. None) (\<lambda>f. if f = ''f'' then Some inverter_file else None) 0 empty_tile
     = Some (0, st')"
proof -
  obtain ctx st where r: "run_lines (hk_tile_load_line circuit_class (\<lambda>_ _ _. None))
      (lines_from [] (sanitize inverter_file))
      (\<lparr>ld_tile = 0, ld_section = SECTION_OBJECTS\<rparr>, empty_tile) = Some (ctx, st)"
    using inverter_loads by blast
  have "(if t_fname (tile_at empty_tile 0) = ''f'' then Some inverter_file else None) = Some inverter_file"
    by (simp add: empty_tile_def)
  from hk_tile_load_lines [of "\<lambda>f. if f = ''f'' then Some inverter_file else None", OF this r]
  show ?thesis by blast
qed

text \<open>
  C3: Loading a tile file that goes through the loader without error from a consistent circuit
  gives a consistent circuit again (pads, nets and object contexts refer to each other properly
  and every gate and timer is in order), so that starting the tile returns.
\<close>

theorem loaded_tile_runs:
  assumes "in_order st" "tile < length (tiles st)" "set (classes st) \<subseteq> set circuit_names"
    and "read_file (t_fname (tile_at st tile)) = Some text"
    and "run_lines (hk_tile_load_line circuit_class upd) (lines_from [] (sanitize text))
      (\<lparr>ld_tile = tile, ld_section = SECTION_OBJECTS\<rparr>, st) \<noteq> None"
  shows "\<exists>st'. hk_tile_load circuit_class upd read_file tile st = Some (0, st') \<and> in_order st' \<and>
    (\<exists>st''. hk_tile_start circuit_class (Suc (open_inputs st')) tile st' = Some st'' \<and> in_order st'')"
proof -
  obtain ctx' st' where r: "run_lines (hk_tile_load_line circuit_class upd) (lines_from [] (sanitize text))
      (\<lparr>ld_tile = tile, ld_section = SECTION_OBJECTS\<rparr>, st) = Some (ctx', st')"
    using assms(5) by auto
  have "run_lines (hk_tile_load_line circuit_class upd) (lines_from [] (sanitize (concat (fread_chunks text))))
      (\<lparr>ld_tile = tile, ld_section = SECTION_OBJECTS\<rparr>, st) = Some (ctx', st')"
    using r by (simp add: fread_chunks_props)
  from load_text_run [OF this] fread_chunks_props(2) [of _ "text"] assms(4)
  have l: "hk_tile_load circuit_class upd read_file tile st = Some (0, st')" by (simp add: hk_tile_load_def)
  have "loadable (ld_tile \<lparr>ld_tile = tile, ld_section = SECTION_OBJECTS\<rparr>) st"
    using assms(1-3) by (simp add: loadable_def)
  from run_lines_ok [OF this r] have ld: "loadable tile st'" by simp
  then have w: "wf_state st'" "circuit_wired st'" "tile < length (tiles st')" "in_order st'"
    by (simp_all add: loadable_def in_order_def)
  obtain s2 where "hk_tile_start circuit_class (Suc (open_inputs st')) tile st' = Some s2"
    "circuit.started_from st' s2"
    using circuit.tile_start_returns [OF w(1-3) lessI] by blast
  with l w(4) started_in_order show ?thesis by blast
qed

lemma empty_tile_in_order: "in_order empty_tile"
  by (simp add: in_order_def wf_state_def net_wf_def refs_wf_def circuit_wired_def empty_tile_def hk_start_def)

theorem loaded_tile_runs_witness:
  "\<exists>st'. hk_tile_load circuit_class (\<lambda>_ _ _. None) (\<lambda>f. if f = ''f'' then Some inverter_file else None) 0 empty_tile
     = Some (0, st') \<and> in_order st' \<and>
    (\<exists>st''. hk_tile_start circuit_class (Suc (open_inputs st')) 0 st' = Some st'' \<and> in_order st'')"
proof (rule loaded_tile_runs [OF empty_tile_in_order])
  show "run_lines (hk_tile_load_line circuit_class (\<lambda>_ _ _. None)) (lines_from [] (sanitize inverter_file))
      (\<lparr>ld_tile = 0, ld_section = SECTION_OBJECTS\<rparr>, empty_tile) \<noteq> None"
    using inverter_loads by auto
qed (simp_all add: empty_tile_def circuit_names_def)

text \<open>
  An error in a line is forgotten when another line follows in the same chunk: a file that
  consists of a line and two comments loads with success, with the state that line left, no
  matter what the line returned.
\<close>

theorem load_error_lost:
  assumes "read_file (t_fname (tile_at st tile)) = Some (line @ [LF] @ ''#'' @ [LF] @ ''#'')"
    and "LF \<notin> set line" "length line \<le> 1000"
    and "hk_tile_load_line cls upd (sanitize line) (\<lparr>ld_tile = tile, ld_section = SECTION_OBJECTS\<rparr>, st)
      = Some (ret, ctx', st')"
  shows "hk_tile_load cls upd read_file tile st = Some (0, st')"
proof -
  let ?file = "line @ [LF] @ ''#'' @ [LF] @ ''#''"
  let ?f = "hk_tile_load_line cls upd"
  let ?s = "load_begin (\<lparr>ld_tile = tile, ld_section = SECTION_OBJECTS\<rparr>, st)"
  have comment: "?f ''#'' cst = Some (0, cst)" for cst
    by (cases cst) (simp add: hk_tile_load_line_def Let_def is_blank_def cval_def)
  have c: "fread_chunks (line @ [LF, CHR ''#'', LF, CHR ''#'']) = [?file]"
    using assms(3) by (subst fread_chunks.simps) (simp add: CHUNK_def fread_chunks.simps)
  have s: "sanitize (line @ [LF, CHR ''#'', LF, CHR ''#'']) = sanitize line @ [LF, CHR ''#'', LF, CHR ''#'']"
    by (simp add: sanitize_def cval_def)
  have "LF \<notin> set (sanitize line)" using assms(2) by (auto simp: sanitize_def)
  then have "foldo (feed_byte ?f) ?s (sanitize line) = Some (?s\<lparr>l_buf := sanitize line\<rparr>)"
    by (subst feed_text) (simp_all add: load_begin_def)
  then have "load_chunk ?f ?file ?s = Some (load_begin (ctx', st')\<lparr>l_buf := ''#'', l_check := False\<rparr>)"
    using assms(4) comment
    by (simp add: load_chunk_feed s foldo_append feed_byte_def load_now_def load_begin_def)
  then show ?thesis
    using assms(1) comment by (simp add: hk_tile_load_def c load_end_def load_begin_def)
qed

theorem load_error_lost_witness:
  "hk_tile_load_line circuit_class (\<lambda>_ _ _. None) (sanitize ''a: nosuchclass'')
      (\<lparr>ld_tile = 0, ld_section = SECTION_OBJECTS\<rparr>, empty_tile) =
      Some (-1, \<lparr>ld_tile = 0, ld_section = SECTION_OBJECTS\<rparr>, empty_tile) \<and>
    hk_tile_load circuit_class (\<lambda>_ _ _. None) (\<lambda>f. Some (''a: nosuchclass'' @ [LF] @ ''#'' @ [LF] @ ''#'')) 0 empty_tile
      = Some (0, empty_tile)"
proof -
  have "dropWhile is_blank (cstr (sanitize ''a: nosuchclass'')) = ''a: nosuchclass''" by code_simp
  moreover have "split_name ''a: nosuchclass'' = (Some ''a'', '' nosuchclass'')" by code_simp
  moreover have "str_argv '' nosuchclass'' = [''nosuchclass'']" by code_simp
  ultimately have l: "hk_tile_load_line circuit_class (\<lambda>_ _ _. None) (sanitize ''a: nosuchclass'')
      (\<lparr>ld_tile = 0, ld_section = SECTION_OBJECTS\<rparr>, empty_tile) =
      Some (-1, \<lparr>ld_tile = 0, ld_section = SECTION_OBJECTS\<rparr>, empty_tile)"
    by (simp add: hk_tile_load_line_def Let_def hk_tile_load_object_def hk_class_find_def empty_tile_def hk_start_def)
  moreover have "hk_tile_load circuit_class (\<lambda>_ _ _. None)
      (\<lambda>f. Some (''a: nosuchclass'' @ [LF] @ ''#'' @ [LF] @ ''#'')) 0 empty_tile = Some (0, empty_tile)"
    by (rule load_error_lost [OF refl _ _ l]) simp_all
  ultimately show ?thesis by blast
qed

end
