(* ===== verification/Hk_Endpoint.thy ===== *)
theory Hk_Endpoint
  imports Hk_Mod Hk_Trace
begin

unbundle bit_operations_syntax

text \<open>
  \<^verbatim>\<open>core/endpoint.c\<close>: the tables of sinks and sources, their registration under unique names,
  local connections from a source to sinks, and value updates. The state extends that of
  \<^verbatim>\<open>core/mod.c\<close>; a sink or a source is referred to by its index in its table, as entries
  are never taken out of a table before it is cleaned up. The handlers of a sink are values
  of a type \<open>'h\<close> (a function and its user data), run by the parameter \<open>call\<close>; handlers do
  not add handlers, so the loop over them runs on the table it starts with.
  \<open>tstamp\<close> is what \<open>tstamp_ms\<close> returns.
\<close>

section \<open>State\<close>

definition HK_FLAG_EVENT :: "32 word" where "HK_FLAG_EVENT = 1"
definition HK_FLAG_LOCAL :: "32 word" where "HK_FLAG_LOCAL = 2"

datatype hk_ep_type = HK_EP_SINK | HK_EP_SOURCE | HK_EP_NTYPES

record hk_ep =
  ep_type :: hk_ep_type
  ep_id :: nat
  ep_obj :: "nat option"
  ep_value :: string
  ep_flag :: "32 word"
  ep_widget :: "string option"
  ep_chart :: "string option"
  ep_locked :: bool
  ep_tr :: hk_trace

record 'h hk_sink =
  sk_ep :: hk_ep
  sk_handlers :: "'h option list"
  sk_local_source :: "nat option"

record hk_source =
  so_ep :: hk_ep
  so_local_sinks :: "nat list"

record ('c, 'h) hk_ep_state = "'c hk_state" +
  opt_full_name :: bool
  hk_sinks :: "'h hk_sink list"
  hk_sources :: "hk_source list"
  trace_depth :: int
  tstamp :: nat

type_synonym ('c, 'h, 'z) hke = "('c, 'h, 'z) hk_ep_state_scheme"

abbreviation sink_at :: "('c, 'h, 'z) hke \<Rightarrow> nat \<Rightarrow> 'h hk_sink" where "sink_at st k \<equiv> hk_sinks st ! k"
abbreviation source_at :: "('c, 'h, 'z) hke \<Rightarrow> nat \<Rightarrow> hk_source" where "source_at st i \<equiv> hk_sources st ! i"

definition upd_sink :: "nat \<Rightarrow> ('h hk_sink \<Rightarrow> 'h hk_sink) \<Rightarrow> ('c, 'h, 'z) hke \<Rightarrow> ('c, 'h, 'z) hke" where
  "upd_sink k g st = st\<lparr>hk_sinks := map_nth k g (hk_sinks st)\<rparr>"

definition upd_src :: "nat \<Rightarrow> (hk_source \<Rightarrow> hk_source) \<Rightarrow> ('c, 'h, 'z) hke \<Rightarrow> ('c, 'h, 'z) hke" where
  "upd_src i g st = st\<lparr>hk_sources := map_nth i g (hk_sources st)\<rparr>"

abbreviation upd_sink_ep :: "nat \<Rightarrow> (hk_ep \<Rightarrow> hk_ep) \<Rightarrow> ('c, 'h, 'z) hke \<Rightarrow> ('c, 'h, 'z) hke" where
  "upd_sink_ep k g \<equiv> upd_sink k (\<lambda>s. s\<lparr>sk_ep := g (sk_ep s)\<rparr>)"

abbreviation upd_src_ep :: "nat \<Rightarrow> (hk_ep \<Rightarrow> hk_ep) \<Rightarrow> ('c, 'h, 'z) hke \<Rightarrow> ('c, 'h, 'z) hke" where
  "upd_src_ep i g \<equiv> upd_src i (\<lambda>s. s\<lparr>so_ep := g (so_ep s)\<rparr>)"

definition ep_zero :: hk_ep where
  \<comment> \<open>a block filled with zeros\<close>
  "ep_zero = \<lparr>ep_type = HK_EP_SINK, ep_id = 0, ep_obj = None, ep_value = [], ep_flag = 0,
     ep_widget = None, ep_chart = None, ep_locked = False,
     ep_tr = \<lparr>tr_name = [], tr_depth = 0, tr_iput = 0, tr_iget = 0, tr_tab = []\<rparr>\<rparr>"

definition hk_endpoints_init :: "('c, 'h, 'z) hke \<Rightarrow> ('c, 'h, 'z) hke" where
  "hk_endpoints_init st =
     st\<lparr>hk_sinks := hk_tab_init, hk_sources := hk_tab_init, trace_depth := 0\<rparr>"

definition hk_endpoints_shutdown :: "('c, 'h, 'z) hke \<Rightarrow> ('c, 'h, 'z) hke" where
  \<comment> \<open>the endpoints are freed, then the tables\<close>
  "hk_endpoints_shutdown st =
     st\<lparr>hk_sinks := hk_tab_cleanup (hk_sinks st), hk_sources := hk_tab_cleanup (hk_sources st)\<rparr>"

definition hk_endpoints_set_trace_depth :: "int \<Rightarrow> ('c, 'h, 'z) hke \<Rightarrow> ('c, 'h, 'z) hke" where
  "hk_endpoints_set_trace_depth depth st =
     st\<lparr>trace_depth :=
          (if int HK_TRACE_MAX_DEPTH < depth then int HK_TRACE_MAX_DEPTH
           else if depth \<le> 0 then int HK_TRACE_DEFAULT_DEPTH else depth)\<rparr>"

definition hk_endpoints_get_trace_depth :: "('c, 'h, 'z) hke \<Rightarrow> int" where
  "hk_endpoints_get_trace_depth st = trace_depth st"

section \<open>Operations common to sinks and sources\<close>

definition hk_ep_init ::
    "hk_ep_type \<Rightarrow> nat \<Rightarrow> nat \<Rightarrow> int \<Rightarrow> ('c, 'h, 'z) hke \<Rightarrow> hk_ep \<Rightarrow> hk_ep" where
  "hk_ep_init type num obj depth st ep =
     ep\<lparr>ep_type := type, ep_id := num, ep_obj := Some obj, ep_value := [],
        ep_tr := hk_trace_init (o_name (obj_at st obj)) depth\<rparr>"

definition hk_ep_type_str :: "hk_ep \<Rightarrow> string" where
  "hk_ep_type_str ep =
     (case ep_type ep of HK_EP_SINK \<Rightarrow> ''sink'' | HK_EP_SOURCE \<Rightarrow> ''source'' | HK_EP_NTYPES \<Rightarrow> ''?'')"

definition hk_ep_set_widget :: "string option \<Rightarrow> hk_ep \<Rightarrow> hk_ep" where
  "hk_ep_set_widget widget_name ep =
     (if ep_obj ep \<noteq> None then ep\<lparr>ep_widget := widget_name\<rparr> else ep)"

definition hk_ep_set_chart :: "string option \<Rightarrow> hk_ep \<Rightarrow> hk_ep" where
  "hk_ep_set_chart chart_name ep =
     (if ep_obj ep \<noteq> None then ep\<lparr>ep_chart := chart_name\<rparr> else ep)"

definition hk_ep_get_name :: "('c, 'h, 'z) hke \<Rightarrow> hk_ep \<Rightarrow> string" where
  "hk_ep_get_name st ep = o_name (obj_at st (the (ep_obj ep)))"

definition hk_ep_get_tile_name :: "('c, 'h, 'z) hke \<Rightarrow> hk_ep \<Rightarrow> string" where
  "hk_ep_get_tile_name st ep = t_name (tile_at st (o_tile (obj_at st (the (ep_obj ep)))))"

definition hk_ep_get_value :: "hk_ep \<Rightarrow> string" where
  "hk_ep_get_value ep = ep_value ep"

definition hk_ep_flag_retain :: "hk_ep \<Rightarrow> bool" where
  "hk_ep_flag_retain ep \<longleftrightarrow> ep_flag ep AND HK_FLAG_EVENT = 0"

definition hk_ep_append_name :: "('c, 'h, 'z) hke \<Rightarrow> hk_ep \<Rightarrow> string \<Rightarrow> string" where
  "hk_ep_append_name st ep out_buf =
     (let out_buf = (if 1 < hk_tile_nmemb st then out_buf @ hk_ep_get_tile_name st ep @ ''.'' else out_buf)
      in out_buf @ hk_ep_get_name st ep)"

definition hk_ep_append_value :: "hk_ep \<Rightarrow> string \<Rightarrow> string" where
  "hk_ep_append_value ep out_buf = out_buf @ ep_value ep"

definition hk_ep_is_public :: "hk_ep option \<Rightarrow> bool" where
  "hk_ep_is_public e =
     (case e of
        None \<Rightarrow> False
      | Some ep \<Rightarrow> if ep_obj ep = None then False else ep_flag ep AND HK_FLAG_LOCAL = 0)"

definition hk_ep_dump :: "('c, 'h, 'z) hke \<Rightarrow> hk_ep \<Rightarrow> string \<Rightarrow> string option" where
  \<comment> \<open>\<open>None\<close>: the widget name is a null pointer\<close>
  "hk_ep_dump st ep out_buf =
     (if ep_obj ep = None then Some out_buf
      else case ep_widget ep of
        None \<Rightarrow> None
      | Some widget \<Rightarrow>
          Some (out_buf @ hk_ep_type_str ep @ '' '' @ widget @ '' '' @
                (case ep_chart ep of None \<Rightarrow> ''-'' | Some chart \<Rightarrow> chart) @ '' '' @
                hk_ep_append_name st ep [] @ '' '' @ ep_value ep @ [LF]))"

definition hk_ep_cleanup :: "hk_ep \<Rightarrow> hk_ep" where
  "hk_ep_cleanup ep = ep_zero"

definition ep_matches :: "('c, 'h, 'z) hke \<Rightarrow> string option \<Rightarrow> string \<Rightarrow> hk_ep \<Rightarrow> bool" where
  "ep_matches st tile_name name ep \<longleftrightarrow>
     ep_obj ep \<noteq> None \<and> (tile_name = None \<or> tile_name = Some (hk_ep_get_tile_name st ep)) \<and>
     hk_ep_get_name st ep = name"

definition split_full_name :: "bool \<Rightarrow> string \<Rightarrow> string option \<times> string" where
  \<comment> \<open>the name cut at its last dot; the part before it only counts with full names\<close>
  "split_full_name full name =
     (case strrchr name CHR ''.'' of
        None \<Rightarrow> (None, name)
      | Some pt \<Rightarrow> (if full then Some (take pt name) else None, drop (pt + 1) name))"

section \<open>Sinks\<close>

definition hk_sink_retrieve_by_full_name ::
    "string option \<Rightarrow> string \<Rightarrow> ('c, 'h, 'z) hke \<Rightarrow> nat option" where
  "hk_sink_retrieve_by_full_name tile_name name st =
     find_index (\<lambda>s. ep_matches st tile_name name (sk_ep s)) (hk_sinks st)"

definition hk_sink_retrieve_by_name :: "string \<Rightarrow> ('c, 'h, 'z) hke \<Rightarrow> nat option" where
  "hk_sink_retrieve_by_name name st =
     (case split_full_name (opt_full_name st) name of
        (tile_name, name) \<Rightarrow> hk_sink_retrieve_by_full_name tile_name name st)"

definition hk_sink_alloc :: "nat \<Rightarrow> bool \<Rightarrow> ('c, 'h, 'z) hke \<Rightarrow> nat \<times> ('c, 'h, 'z) hke" where
  \<comment> \<open>the loop that finds a free entry leaves its index one further\<close>
  "hk_sink_alloc obj local st =
     (let (k, num, st) =
            (case find_index (\<lambda>s. ep_obj (sk_ep s) = None) (hk_sinks st) of
               Some k \<Rightarrow> (k, k + 1, st)
             | None \<Rightarrow> (length (hk_sinks st), length (hk_sinks st),
                 st\<lparr>hk_sinks := hk_sinks st @ [\<lparr>sk_ep = ep_zero, sk_handlers = [], sk_local_source = None\<rparr>]\<rparr>))
      in (k, upd_sink k
               (\<lambda>s. let ep = hk_ep_init HK_EP_SINK num obj (trace_depth st) st (sk_ep s);
                        ep = (if local
                              then hk_ep_set_widget (Some ''switch-slide'') (ep\<lparr>ep_flag := ep_flag ep OR HK_FLAG_LOCAL\<rparr>)
                              else hk_ep_set_widget (Some ''led-green'') ep)
                    in s\<lparr>sk_ep := ep, sk_handlers := []\<rparr>) st))"

definition hk_sink_cleanup :: "'h hk_sink \<Rightarrow> 'h hk_sink" where
  "hk_sink_cleanup s = s\<lparr>sk_ep := hk_ep_cleanup (sk_ep s), sk_handlers := hk_tab_cleanup (sk_handlers s)\<rparr>"

definition hk_sink_add_handler :: "nat \<Rightarrow> 'h option \<Rightarrow> ('c, 'h, 'z) hke \<Rightarrow> ('c, 'h, 'z) hke" where
  "hk_sink_add_handler k func st =
     upd_sink k (\<lambda>s. s\<lparr>sk_handlers := fst (hk_tab_push func (sk_handlers s))\<rparr>) st"

definition hk_sink_local_connect :: "nat \<Rightarrow> nat \<Rightarrow> ('c, 'h, 'z) hke \<Rightarrow> ('c, 'h, 'z) hke" where
  "hk_sink_local_connect sink source st =
     (if sk_local_source (sink_at st sink) = None
      then upd_sink sink (\<lambda>s. s\<lparr>sk_local_source := Some source\<rparr>)
             (upd_src source (\<lambda>s. s\<lparr>so_local_sinks := so_local_sinks s @ [sink]\<rparr>) st)
      else st)"

definition hk_source_retrieve_by_full_name ::
    "string option \<Rightarrow> string \<Rightarrow> ('c, 'h, 'z) hke \<Rightarrow> nat option" where
  "hk_source_retrieve_by_full_name tile_name name st =
     find_index (\<lambda>s. ep_matches st tile_name name (so_ep s)) (hk_sources st)"

definition own_tile_name :: "nat \<Rightarrow> ('c, 'h, 'z) hke \<Rightarrow> string option" where
  \<comment> \<open>the tile name under which an object is registered\<close>
  "own_tile_name obj st =
     (if opt_full_name st then Some (t_name (tile_at st (o_tile (obj_at st obj)))) else None)"

definition hk_sink_register :: "nat \<Rightarrow> bool \<Rightarrow> ('c, 'h, 'z) hke \<Rightarrow> nat option \<times> ('c, 'h, 'z) hke" where
  "hk_sink_register obj local st =
     (let name = o_name (obj_at st obj)
      in if hk_sink_retrieve_by_full_name (own_tile_name obj st) name st \<noteq> None then (None, st)
         else case hk_sink_alloc obj local st of (sink, st) \<Rightarrow>
           (Some sink,
            if \<not> opt_full_name st \<and> \<not> local then
              (case hk_source_retrieve_by_full_name None name st of
                 None \<Rightarrow> st
               | Some source \<Rightarrow> hk_sink_local_connect sink source st)
            else st))"

definition hk_sink_is_public :: "nat \<Rightarrow> ('c, 'h, 'z) hke \<Rightarrow> bool" where
  "hk_sink_is_public sink st = hk_ep_is_public (Some (sk_ep (sink_at st sink)))"

definition hk_sink_update ::
    "('h \<Rightarrow> nat \<Rightarrow> ('c, 'h, 'z) hke \<Rightarrow> (('c, 'h, 'z) hke) option) \<Rightarrow> nat \<Rightarrow> string
      \<Rightarrow> ('c, 'h, 'z) hke \<Rightarrow> (('c, 'h, 'z) hke) option" where
  "hk_sink_update call sink value st =
     (if ep_locked (sk_ep (sink_at st sink)) then Some st
      else
        let st = upd_sink_ep sink (\<lambda>ep. ep\<lparr>ep_value := value\<rparr>) st;
            st = (if sk_local_source (sink_at st sink) = None \<and> ep_chart (sk_ep (sink_at st sink)) \<noteq> None
                  then upd_sink_ep sink (\<lambda>ep. ep\<lparr>ep_tr := hk_trace_push (tstamp st) (ep_tr ep) value\<rparr>) st
                  else st)
        in map_option (upd_sink_ep sink (\<lambda>ep. ep\<lparr>ep_locked := False\<rparr>))
             (foldo (\<lambda>st handler. case handler of None \<Rightarrow> Some st | Some func \<Rightarrow> call func sink st)
               (upd_sink_ep sink (\<lambda>ep. ep\<lparr>ep_locked := True\<rparr>) st)
               (sk_handlers (sink_at st sink))))"

definition hk_sink_update_by_name ::
    "('h \<Rightarrow> nat \<Rightarrow> ('c, 'h, 'z) hke \<Rightarrow> (('c, 'h, 'z) hke) option) \<Rightarrow> string \<Rightarrow> string
      \<Rightarrow> ('c, 'h, 'z) hke \<Rightarrow> (('c, 'h, 'z) hke) option" where
  "hk_sink_update_by_name call name value st =
     (case hk_sink_retrieve_by_name name st of
        None \<Rightarrow> Some st
      | Some sink \<Rightarrow> hk_sink_update call sink value st)"

definition hk_sink_foreach :: "('s \<Rightarrow> hk_ep \<Rightarrow> int \<times> 's) \<Rightarrow> ('c, 'h, 'z) hke \<Rightarrow> 's \<Rightarrow> 's" where
  "hk_sink_foreach func st s =
     hk_tab_foreach func s (filter (\<lambda>ep. ep_obj ep \<noteq> None) (map sk_ep (hk_sinks st)))"

definition hk_sink_foreach_public :: "('s \<Rightarrow> hk_ep \<Rightarrow> 's) \<Rightarrow> ('c, 'h, 'z) hke \<Rightarrow> 's \<Rightarrow> 's" where
  "hk_sink_foreach_public func st s =
     foldl func s (filter (\<lambda>ep. ep_obj ep \<noteq> None \<and> ep_flag ep AND HK_FLAG_LOCAL = 0) (map sk_ep (hk_sinks st)))"

section \<open>Sources\<close>

definition hk_source_is_public :: "nat \<Rightarrow> ('c, 'h, 'z) hke \<Rightarrow> bool" where
  "hk_source_is_public source st = hk_ep_is_public (Some (so_ep (source_at st source)))"

definition hk_source_is_event :: "nat \<Rightarrow> ('c, 'h, 'z) hke \<Rightarrow> bool" where
  "hk_source_is_event source st =
     (let ep = so_ep (source_at st source)
      in if ep_obj ep = None then False else ep_flag ep AND HK_FLAG_EVENT \<noteq> 0)"

definition hk_source_to_advertise :: "('c, 'h, 'z) hke \<Rightarrow> nat" where
  "hk_source_to_advertise st =
     foldl (\<lambda>count i. if hk_source_is_public i st then count + 1 else count) 0 [0..<length (hk_sources st)]"

definition hk_source_retrieve_by_name :: "string \<Rightarrow> ('c, 'h, 'z) hke \<Rightarrow> nat option" where
  "hk_source_retrieve_by_name name st =
     (case split_full_name (opt_full_name st) name of
        (tile_name, name) \<Rightarrow> hk_source_retrieve_by_full_name tile_name name st)"

definition hk_source_alloc :: "nat \<Rightarrow> bool \<Rightarrow> bool \<Rightarrow> ('c, 'h, 'z) hke \<Rightarrow> nat \<times> ('c, 'h, 'z) hke" where
  "hk_source_alloc obj local event st =
     (let (i, num, st) =
            (case find_index (\<lambda>s. ep_obj (so_ep s) = None) (hk_sources st) of
               Some i \<Rightarrow> (i, i + 1, st)
             | None \<Rightarrow> (length (hk_sources st), length (hk_sources st),
                 st\<lparr>hk_sources := hk_sources st @ [\<lparr>so_ep = ep_zero, so_local_sinks = []\<rparr>]\<rparr>))
      in (i, upd_src i
               (\<lambda>s. let ep = hk_ep_init HK_EP_SOURCE num obj (trace_depth st) st (so_ep s);
                        ep = (if local then ep\<lparr>ep_flag := ep_flag ep OR HK_FLAG_LOCAL\<rparr> else ep);
                        ep = (if event then ep\<lparr>ep_flag := ep_flag ep OR HK_FLAG_EVENT\<rparr> else ep)
                    in s\<lparr>so_ep := hk_ep_set_widget (Some ''led-red'') ep, so_local_sinks := []\<rparr>) st))"

definition hk_source_cleanup :: "hk_source \<Rightarrow> hk_source" where
  "hk_source_cleanup s =
     s\<lparr>so_ep := hk_ep_cleanup (so_ep s), so_local_sinks := hk_tab_cleanup (so_local_sinks s)\<rparr>"

definition hk_source_register ::
    "nat \<Rightarrow> bool \<Rightarrow> bool \<Rightarrow> ('c, 'h, 'z) hke \<Rightarrow> nat option \<times> ('c, 'h, 'z) hke" where
  "hk_source_register obj local event st =
     (let name = o_name (obj_at st obj)
      in if hk_source_retrieve_by_full_name (own_tile_name obj st) name st \<noteq> None then (None, st)
         else case hk_source_alloc obj local event st of (source, st) \<Rightarrow>
           (Some source,
            if opt_full_name st then
              (case hk_sink_retrieve_by_full_name None name st of
                 None \<Rightarrow> st
               | Some sink \<Rightarrow> hk_sink_local_connect sink source st)
            else st))"

definition hk_source_foreach :: "('s \<Rightarrow> hk_ep \<Rightarrow> int \<times> 's) \<Rightarrow> ('c, 'h, 'z) hke \<Rightarrow> 's \<Rightarrow> 's" where
  "hk_source_foreach func st s = hk_tab_foreach func s (map so_ep (hk_sources st))"

definition hk_source_foreach_public :: "('s \<Rightarrow> hk_ep \<Rightarrow> 's) \<Rightarrow> ('c, 'h, 'z) hke \<Rightarrow> 's \<Rightarrow> 's" where
  "hk_source_foreach_public func st s =
     foldl func s (filter (\<lambda>ep. ep_obj ep \<noteq> None \<and> ep_flag ep AND HK_FLAG_LOCAL = 0) (map so_ep (hk_sources st)))"

definition hk_source_update ::
    "('h \<Rightarrow> nat \<Rightarrow> ('c, 'h, 'z) hke \<Rightarrow> (('c, 'h, 'z) hke) option) \<Rightarrow> nat \<Rightarrow> string
      \<Rightarrow> ('c, 'h, 'z) hke \<Rightarrow> (('c, 'h, 'z) hke) option" where
  "hk_source_update call source value st =
     (if ep_locked (so_ep (source_at st source)) then Some st
      else
        let st = upd_src_ep source (\<lambda>ep. ep\<lparr>ep_value := value\<rparr>) st;
            st = (if ep_chart (so_ep (source_at st source)) \<noteq> None
                  then upd_src_ep source (\<lambda>ep. ep\<lparr>ep_tr := hk_trace_push (tstamp st) (ep_tr ep) value\<rparr>) st
                  else st)
        in map_option (upd_src_ep source (\<lambda>ep. ep\<lparr>ep_locked := False\<rparr>))
             (foldo (\<lambda>st sink. hk_sink_update call sink value st)
               (upd_src_ep source (\<lambda>ep. ep\<lparr>ep_locked := True\<rparr>) st)
               (so_local_sinks (source_at st source))))"

section \<open>Field lemmas\<close>

lemma upd_sink_simps [simp]:
  "hk_sources (upd_sink k g st) = hk_sources st" "objs (upd_sink k g st) = objs st"
  "tiles (upd_sink k g st) = tiles st" "pads (upd_sink k g st) = pads st" "nets (upd_sink k g st) = nets st"
  "opt_full_name (upd_sink k g st) = opt_full_name st" "tile_tab (upd_sink k g st) = tile_tab st"
  "classes (upd_sink k g st) = classes st" "length (hk_sinks (upd_sink k g st)) = length (hk_sinks st)"
  "tstamp (upd_sink k g st) = tstamp st" "hk_ep_state.more (upd_sink k g st) = hk_ep_state.more st"
  by (simp_all add: upd_sink_def)

lemma upd_src_simps [simp]:
  "hk_sinks (upd_src i g st) = hk_sinks st" "objs (upd_src i g st) = objs st"
  "tiles (upd_src i g st) = tiles st" "pads (upd_src i g st) = pads st" "nets (upd_src i g st) = nets st"
  "opt_full_name (upd_src i g st) = opt_full_name st" "tile_tab (upd_src i g st) = tile_tab st"
  "classes (upd_src i g st) = classes st" "length (hk_sources (upd_src i g st)) = length (hk_sources st)"
  "tstamp (upd_src i g st) = tstamp st" "hk_ep_state.more (upd_src i g st) = hk_ep_state.more st"
  by (simp_all add: upd_src_def)

lemma sink_at_upd:
  "sink_at (upd_sink k g st) q = (if k = q \<and> q < length (hk_sinks st) then g (sink_at st q) else sink_at st q)"
  by (cases "k = q") (auto simp: upd_sink_def map_nth_def list_update_beyond not_less)

lemma source_at_upd:
  "source_at (upd_src k g st) q = (if k = q \<and> q < length (hk_sources st) then g (source_at st q) else source_at st q)"
  by (cases "k = q") (auto simp: upd_src_def map_nth_def list_update_beyond not_less)

section \<open>The registry\<close>

text \<open>
  Every registered endpoint is that of an object, no two sinks and no two sources have the
  same key (the name of the object, with that of its tile when full names are in use), and
  the two ends of local connections agree.
\<close>

definition obj_key :: "('c, 'h, 'z) hke \<Rightarrow> nat \<Rightarrow> string option \<times> string" where
  "obj_key st obj = (own_tile_name obj st, o_name (obj_at st obj))"

abbreviation ep_key :: "('c, 'h, 'z) hke \<Rightarrow> hk_ep \<Rightarrow> string option \<times> string" where
  "ep_key st ep \<equiv> obj_key st (the (ep_obj ep))"

definition ep_live :: "('c, 'h, 'z) hke \<Rightarrow> hk_ep \<Rightarrow> bool" where
  "ep_live st ep \<longleftrightarrow> (\<exists>j<length (objs st). ep_obj ep = Some j)"

definition links_ok :: "('c, 'h, 'z) hke \<Rightarrow> bool" where
  "links_ok st \<longleftrightarrow>
     (\<forall>k<length (hk_sinks st). \<forall>i. sk_local_source (sink_at st k) = Some i \<longleftrightarrow>
        i < length (hk_sources st) \<and> k \<in> set (so_local_sinks (source_at st i))) \<and>
     (\<forall>i<length (hk_sources st). distinct (so_local_sinks (source_at st i)) \<and>
        set (so_local_sinks (source_at st i)) \<subseteq> {..<length (hk_sinks st)})"

definition registry_wf :: "('c, 'h, 'z) hke \<Rightarrow> bool" where
  "registry_wf st \<longleftrightarrow>
     (\<forall>s\<in>set (hk_sinks st). ep_live st (sk_ep s)) \<and> (\<forall>s\<in>set (hk_sources st). ep_live st (so_ep s)) \<and>
     distinct (map (\<lambda>s. ep_key st (sk_ep s)) (hk_sinks st)) \<and>
     distinct (map (\<lambda>s. ep_key st (so_ep s)) (hk_sources st)) \<and> links_ok st"

lemma links_okD:
  assumes "links_ok st"
  shows "k < length (hk_sinks st) \<Longrightarrow> sk_local_source (sink_at st k) = Some i \<Longrightarrow>
      i < length (hk_sources st) \<and> k \<in> set (so_local_sinks (source_at st i))"
    "i < length (hk_sources st) \<Longrightarrow> k \<in> set (so_local_sinks (source_at st i)) \<Longrightarrow>
      k < length (hk_sinks st) \<and> sk_local_source (sink_at st k) = Some i"
    "i < length (hk_sources st) \<Longrightarrow> distinct (so_local_sinks (source_at st i))"
  using assms unfolding links_ok_def by blast+

lemma links_okI:
  assumes "\<And>k i. k < length (hk_sinks st) \<Longrightarrow> sk_local_source (sink_at st k) = Some i \<Longrightarrow>
      i < length (hk_sources st) \<and> k \<in> set (so_local_sinks (source_at st i))"
    "\<And>k i. i < length (hk_sources st) \<Longrightarrow> k \<in> set (so_local_sinks (source_at st i)) \<Longrightarrow>
      k < length (hk_sinks st) \<and> sk_local_source (sink_at st k) = Some i"
    "\<And>i. i < length (hk_sources st) \<Longrightarrow> distinct (so_local_sinks (source_at st i))"
  shows "links_ok st"
  using assms unfolding links_ok_def by blast

lemma ep_matches_key:
  "ep_obj ep \<noteq> None \<Longrightarrow>
   ep_matches st (own_tile_name obj st) (o_name (obj_at st obj)) ep \<longleftrightarrow> ep_key st ep = obj_key st obj"
  by (auto simp: ep_matches_def obj_key_def own_tile_name_def hk_ep_get_tile_name_def hk_ep_get_name_def)

definition new_sink :: "nat \<Rightarrow> bool \<Rightarrow> ('c, 'h, 'z) hke \<Rightarrow> 'h hk_sink" where
  "new_sink obj local st =
     \<lparr>sk_ep = \<lparr>ep_type = HK_EP_SINK, ep_id = length (hk_sinks st), ep_obj = Some obj, ep_value = [],
         ep_flag = (if local then HK_FLAG_LOCAL else 0),
         ep_widget = Some (if local then ''switch-slide'' else ''led-green''), ep_chart = None,
         ep_locked = False, ep_tr = hk_trace_init (o_name (obj_at st obj)) (trace_depth st)\<rparr>,
      sk_handlers = [], sk_local_source = None\<rparr>"

definition new_source :: "nat \<Rightarrow> bool \<Rightarrow> bool \<Rightarrow> ('c, 'h, 'z) hke \<Rightarrow> hk_source" where
  "new_source obj local event st =
     \<lparr>so_ep = \<lparr>ep_type = HK_EP_SOURCE, ep_id = length (hk_sources st), ep_obj = Some obj, ep_value = [],
         ep_flag = (if event then (if local then HK_FLAG_LOCAL else 0) OR HK_FLAG_EVENT
                    else if local then HK_FLAG_LOCAL else 0),
         ep_widget = Some ''led-red'', ep_chart = None,
         ep_locked = False, ep_tr = hk_trace_init (o_name (obj_at st obj)) (trace_depth st)\<rparr>,
      so_local_sinks = []\<rparr>"

lemma map_nth_append_last [simp]: "map_nth (length xs) g (xs @ [x]) = xs @ [g x]"
  by (simp add: map_nth_def)

lemma hk_sink_alloc_new:
  assumes "registry_wf st"
  shows "hk_sink_alloc obj local st =
    (length (hk_sinks st), st\<lparr>hk_sinks := hk_sinks st @ [new_sink obj local st]\<rparr>)"
proof -
  have "find_index (\<lambda>s. ep_obj (sk_ep s) = None) (hk_sinks st) = None"
    using assms by (auto simp: registry_wf_def ep_live_def find_index_None_iff)
  then show ?thesis
    by (simp add: hk_sink_alloc_def upd_sink_def new_sink_def ep_zero_def hk_ep_init_def
        hk_ep_set_widget_def Let_def HK_FLAG_LOCAL_def)
qed

lemma hk_source_alloc_new:
  assumes "registry_wf st"
  shows "hk_source_alloc obj local event st =
    (length (hk_sources st), st\<lparr>hk_sources := hk_sources st @ [new_source obj local event st]\<rparr>)"
proof -
  have "find_index (\<lambda>s. ep_obj (so_ep s) = None) (hk_sources st) = None"
    using assms by (auto simp: registry_wf_def ep_live_def find_index_None_iff)
  then show ?thesis
    by (simp add: hk_source_alloc_def upd_src_def new_source_def ep_zero_def hk_ep_init_def
        hk_ep_set_widget_def Let_def HK_FLAG_LOCAL_def HK_FLAG_EVENT_def)
qed

lemma find_index_some_ex: "find_index P xs \<noteq> None \<longleftrightarrow> (\<exists>x\<in>set xs. P x)"
  using find_index_None_iff [of P xs] by auto

lemma hk_sink_taken:
  assumes "registry_wf st"
  shows "hk_sink_retrieve_by_full_name (own_tile_name obj st) (o_name (obj_at st obj)) st \<noteq> None \<longleftrightarrow>
    obj_key st obj \<in> (\<lambda>s. ep_key st (sk_ep s)) ` set (hk_sinks st)"
proof -
  have "ep_matches st (own_tile_name obj st) (o_name (obj_at st obj)) (sk_ep s) \<longleftrightarrow>
      obj_key st obj = ep_key st (sk_ep s)" if "s \<in> set (hk_sinks st)" for s
    using assms that ep_matches_key [of "sk_ep s" st obj] by (auto simp: registry_wf_def ep_live_def)
  then show ?thesis
    unfolding hk_sink_retrieve_by_full_name_def find_index_some_ex image_iff by (rule bex_cong [OF refl])
qed

lemma hk_source_taken:
  assumes "registry_wf st"
  shows "hk_source_retrieve_by_full_name (own_tile_name obj st) (o_name (obj_at st obj)) st \<noteq> None \<longleftrightarrow>
    obj_key st obj \<in> (\<lambda>s. ep_key st (so_ep s)) ` set (hk_sources st)"
proof -
  have "ep_matches st (own_tile_name obj st) (o_name (obj_at st obj)) (so_ep s) \<longleftrightarrow>
      obj_key st obj = ep_key st (so_ep s)" if "s \<in> set (hk_sources st)" for s
    using assms that ep_matches_key [of "so_ep s" st obj] by (auto simp: registry_wf_def ep_live_def)
  then show ?thesis
    unfolding hk_source_retrieve_by_full_name_def find_index_some_ex image_iff by (rule bex_cong [OF refl])
qed

lemma obj_key_cong [simp]:
  "obj_key (st\<lparr>hk_sinks := a\<rparr>) j = obj_key st j" "obj_key (st\<lparr>hk_sources := b\<rparr>) j = obj_key st j"
  "obj_key (upd_sink k g st) j = obj_key st j" "obj_key (upd_src i h st) j = obj_key st j"
  "ep_live (st\<lparr>hk_sinks := a\<rparr>) = ep_live st" "ep_live (st\<lparr>hk_sources := b\<rparr>) = ep_live st"
  "ep_live (upd_sink k g st) = ep_live st" "ep_live (upd_src i h st) = ep_live st"
  by (auto simp: obj_key_def own_tile_name_def ep_live_def fun_eq_iff)

lemma links_add_sink:
  assumes "links_ok st" "sk_local_source s = None"
  shows "links_ok (st\<lparr>hk_sinks := hk_sinks st @ [s]\<rparr>)"
proof (rule links_okI; simp)
  fix k i assume "k < Suc (length (hk_sinks st))" "sk_local_source ((hk_sinks st @ [s]) ! k) = Some i"
  then have "k < length (hk_sinks st)" "sk_local_source (sink_at st k) = Some i"
    using assms(2) by (auto simp: nth_append less_Suc_eq)
  then show "i < length (hk_sources st) \<and> k \<in> set (so_local_sinks (source_at st i))"
    by (rule links_okD(1) [OF assms(1)])
next
  fix k i assume "i < length (hk_sources st)" "k \<in> set (so_local_sinks (source_at st i))"
  from links_okD(2) [OF assms(1) this]
  show "k < Suc (length (hk_sinks st)) \<and> sk_local_source ((hk_sinks st @ [s]) ! k) = Some i"
    by (simp add: nth_append)
next
  fix i assume "i < length (hk_sources st)"
  then show "distinct (so_local_sinks (source_at st i))" by (rule links_okD(3) [OF assms(1)])
qed

lemma links_add_source:
  assumes "links_ok st" "so_local_sinks s = []"
  shows "links_ok (st\<lparr>hk_sources := hk_sources st @ [s]\<rparr>)"
proof (rule links_okI; simp)
  fix k i assume "k < length (hk_sinks st)" "sk_local_source (sink_at st k) = Some i"
  from links_okD(1) [OF assms(1) this]
  show "i < Suc (length (hk_sources st)) \<and> k \<in> set (so_local_sinks ((hk_sources st @ [s]) ! i))"
    by (simp add: nth_append)
next
  fix k i assume "i < Suc (length (hk_sources st))" "k \<in> set (so_local_sinks ((hk_sources st @ [s]) ! i))"
  then have "i < length (hk_sources st)" "k \<in> set (so_local_sinks (source_at st i))"
    using assms(2) by (auto simp: nth_append less_Suc_eq)
  then show "k < length (hk_sinks st) \<and> sk_local_source (sink_at st k) = Some i"
    by (rule links_okD(2) [OF assms(1)])
next
  fix i assume "i < Suc (length (hk_sources st))"
  then show "distinct (so_local_sinks ((hk_sources st @ [s]) ! i))"
    using links_okD(3) [OF assms(1)] assms(2) by (auto simp: nth_append less_Suc_eq)
qed

lemma registry_add_sink:
  assumes "registry_wf st" "obj < length (objs st)"
    "obj_key st obj \<notin> (\<lambda>s. ep_key st (sk_ep s)) ` set (hk_sinks st)"
  shows "registry_wf (st\<lparr>hk_sinks := hk_sinks st @ [new_sink obj local st]\<rparr>)"
  using assms links_add_sink [of st "new_sink obj local st"]
  by (simp add: registry_wf_def) (simp add: new_sink_def ep_live_def)

lemma registry_add_source:
  assumes "registry_wf st" "obj < length (objs st)"
    "obj_key st obj \<notin> (\<lambda>s. ep_key st (so_ep s)) ` set (hk_sources st)"
  shows "registry_wf (st\<lparr>hk_sources := hk_sources st @ [new_source obj local event st]\<rparr>)"
  using assms links_add_source [of st "new_source obj local event st"]
  by (simp add: registry_wf_def) (simp add: new_source_def ep_live_def)

lemma links_connect:
  assumes "links_ok st" "k < length (hk_sinks st)" "i < length (hk_sources st)"
    "sk_local_source (sink_at st k) = None"
  shows "links_ok (hk_sink_local_connect k i st)"
proof -
  have n: "k \<notin> set (so_local_sinks (source_at st j))" if "j < length (hk_sources st)" for j
    using links_okD(2) [OF assms(1) that] assms(4) by fastforce
  let ?s = "hk_sink_local_connect k i st"
  have e: "length (hk_sinks ?s) = length (hk_sinks st)" "length (hk_sources ?s) = length (hk_sources st)"
    "\<And>q. sk_local_source (sink_at ?s q) = (if q = k then Some i else sk_local_source (sink_at st q))"
    "\<And>j. so_local_sinks (source_at ?s j) =
       (if j = i then so_local_sinks (source_at st j) @ [k] else so_local_sinks (source_at st j))"
    using assms(2-4) by (simp_all add: hk_sink_local_connect_def sink_at_upd source_at_upd)
  show ?thesis
  proof (rule links_okI; unfold e)
    fix q j assume q: "q < length (hk_sinks st)" "(if q = k then Some i else sk_local_source (sink_at st q)) = Some j"
    then show "j < length (hk_sources st) \<and>
        q \<in> set (if j = i then so_local_sinks (source_at st j) @ [k] else so_local_sinks (source_at st j))"
      using links_okD(1) [OF assms(1) q(1), of j] assms(3) by (cases "q = k") auto
  next
    fix q j assume j: "j < length (hk_sources st)"
      "q \<in> set (if j = i then so_local_sinks (source_at st j) @ [k] else so_local_sinks (source_at st j))"
    then show "q < length (hk_sinks st) \<and> (if q = k then Some i else sk_local_source (sink_at st q)) = Some j"
      using links_okD(2) [OF assms(1) j(1), of q] assms(2) n [OF j(1)] by (auto split: if_splits)
  next
    fix j assume j: "j < length (hk_sources st)"
    then show "distinct (if j = i then so_local_sinks (source_at st j) @ [k] else so_local_sinks (source_at st j))"
      using links_okD(3) [OF assms(1) j] n [OF j] by (cases "j = i") simp_all
  qed
qed

lemma map_upd_same:
  "(\<And>s. f (g s) = f s) \<Longrightarrow> map f (hk_sinks (upd_sink k g st)) = map f (hk_sinks st)"
  "(\<And>s. f' (g' s) = f' s) \<Longrightarrow> map f' (hk_sources (upd_src k g' st)) = map f' (hk_sources st)"
  by (auto simp: upd_sink_def upd_src_def intro: map_map_nth)

lemma registry_connect:
  assumes "registry_wf st" "k < length (hk_sinks st)" "i < length (hk_sources st)"
  shows "registry_wf (hk_sink_local_connect k i st)"
proof (cases "sk_local_source (sink_at st k)")
  case None
  let ?s = "hk_sink_local_connect k i st"
  have e: "map sk_ep (hk_sinks ?s) = map sk_ep (hk_sinks st)" "map so_ep (hk_sources ?s) = map so_ep (hk_sources st)"
    using None by (simp_all add: hk_sink_local_connect_def map_upd_same)
  have k: "obj_key ?s = obj_key st" "ep_live ?s = ep_live st"
    by (auto simp: fun_eq_iff hk_sink_local_connect_def)
  have m: "map (\<lambda>s. ep_key st (sk_ep s)) (hk_sinks ?s) = map (\<lambda>s. ep_key st (sk_ep s)) (hk_sinks st)"
    "map (\<lambda>s. ep_key st (so_ep s)) (hk_sources ?s) = map (\<lambda>s. ep_key st (so_ep s)) (hk_sources st)"
    using arg_cong [OF e(1), of "map (ep_key st)"] arg_cong [OF e(2), of "map (ep_key st)"]
    by (simp_all add: comp_def)
  have l: "sk_ep ` set (hk_sinks ?s) = sk_ep ` set (hk_sinks st)" "so_ep ` set (hk_sources ?s) = so_ep ` set (hk_sources st)"
    using arg_cong [OF e(1), of set] arg_cong [OF e(2), of set] by simp_all
  show ?thesis
    using assms(1) links_connect [OF _ assms(2,3) None] l unfolding registry_wf_def k m by (metis image_iff)
qed (use assms in \<open>simp add: hk_sink_local_connect_def\<close>)

section \<open>Registration\<close>

lemma hk_sink_register_new:
  assumes "registry_wf st" "obj < length (objs st)"
    "obj_key st obj \<notin> (\<lambda>s. ep_key st (sk_ep s)) ` set (hk_sinks st)"
  shows "\<exists>st'. hk_sink_register obj local st = (Some (length (hk_sinks st)), st') \<and> registry_wf st' \<and>
    length (hk_sinks st') = Suc (length (hk_sinks st)) \<and>
    sk_ep (sink_at st' (length (hk_sinks st))) = sk_ep (new_sink obj local st) \<and>
    (if \<not> opt_full_name st \<and> \<not> local
     then sk_local_source (sink_at st' (length (hk_sinks st))) = hk_source_retrieve_by_full_name None (o_name (obj_at st obj)) st
     else sk_local_source (sink_at st' (length (hk_sinks st))) = None)"
proof -
  let ?n = "length (hk_sinks st)" and ?st = "st\<lparr>hk_sinks := hk_sinks st @ [new_sink obj local st]\<rparr>"
  let ?found = "hk_source_retrieve_by_full_name None (o_name (obj_at st obj)) st"
  have w: "registry_wf ?st" by (rule registry_add_sink [OF assms])
  have f: "hk_source_retrieve_by_full_name None (o_name (obj_at st obj)) ?st = ?found"
    by (simp add: hk_source_retrieve_by_full_name_def ep_matches_def hk_ep_get_tile_name_def hk_ep_get_name_def cong: conj_cong)
  have r: "hk_sink_register obj local st =
      (Some ?n, if \<not> opt_full_name st \<and> \<not> local then
         (case ?found of None \<Rightarrow> ?st | Some source \<Rightarrow> hk_sink_local_connect ?n source ?st) else ?st)"
    using assms(3) hk_sink_taken [OF assms(1), of obj] hk_sink_alloc_new [OF assms(1), of obj local] f
    by (cases local) (simp_all add: hk_sink_register_def Let_def split: option.split)
  show ?thesis
  proof (cases "if \<not> opt_full_name st \<and> \<not> local then ?found else None")
    case None
    then show ?thesis using r w by (auto simp: new_sink_def split: if_splits)
  next
    case (Some i)
    then have c: "\<not> opt_full_name st \<and> \<not> local" "?found = Some i" by (auto split: if_splits)
    then have i: "i < length (hk_sources ?st)"
      using find_index_SomeD by (fastforce simp: hk_source_retrieve_by_full_name_def)
    have "registry_wf (hk_sink_local_connect ?n i ?st)" by (rule registry_connect [OF w _ i]) simp
    then show ?thesis using r c by (simp add: hk_sink_local_connect_def sink_at_upd) (simp add: new_sink_def)
  qed
qed

lemma hk_source_register_new:
  assumes "registry_wf st" "obj < length (objs st)"
    "obj_key st obj \<notin> (\<lambda>s. ep_key st (so_ep s)) ` set (hk_sources st)"
  shows "\<exists>st'. hk_source_register obj local event st = (Some (length (hk_sources st)), st') \<and> registry_wf st' \<and>
    length (hk_sources st') = Suc (length (hk_sources st)) \<and>
    so_ep (source_at st' (length (hk_sources st))) = so_ep (new_source obj local event st) \<and>
    (\<not> opt_full_name st \<longrightarrow> hk_sinks st' = hk_sinks st)"
proof -
  let ?n = "length (hk_sources st)" and ?st = "st\<lparr>hk_sources := hk_sources st @ [new_source obj local event st]\<rparr>"
  let ?found = "hk_sink_retrieve_by_full_name None (o_name (obj_at st obj)) st"
  have w: "registry_wf ?st" by (rule registry_add_source [OF assms])
  have f: "hk_sink_retrieve_by_full_name None (o_name (obj_at st obj)) ?st = ?found"
    by (simp add: hk_sink_retrieve_by_full_name_def ep_matches_def hk_ep_get_tile_name_def hk_ep_get_name_def cong: conj_cong)
  have r: "hk_source_register obj local event st =
      (Some ?n, if opt_full_name st then
         (case ?found of None \<Rightarrow> ?st | Some sink \<Rightarrow> hk_sink_local_connect sink ?n ?st) else ?st)"
    using assms(3) hk_source_taken [OF assms(1), of obj] hk_source_alloc_new [OF assms(1), of obj local event] f
    by (simp add: hk_source_register_def Let_def)
  show ?thesis
  proof (cases "if opt_full_name st then ?found else None")
    case None
    then show ?thesis using r w by (auto simp: new_source_def split: if_splits)
  next
    case (Some k)
    then have c: "opt_full_name st" "?found = Some k" by (auto split: if_splits)
    then have k: "k < length (hk_sinks ?st)"
      using find_index_SomeD by (fastforce simp: hk_sink_retrieve_by_full_name_def)
    have "registry_wf (hk_sink_local_connect k ?n ?st)" by (rule registry_connect [OF w k]) simp
    then show ?thesis using r c by (simp add: hk_sink_local_connect_def source_at_upd)
  qed
qed

text \<open>
  C19: Registering an object as a sink or as a source keeps the registry consistent: it is
  refused, with nothing changed, exactly when an endpoint of that kind has the same key
  (object name, with the tile name when full names are in use); otherwise the endpoint is
  appended to its table with its index as id.
\<close>

theorem registration_keeps_registry:
  assumes "registry_wf st" "obj < length (objs st)"
  shows
    "(if obj_key st obj \<in> (\<lambda>s. ep_key st (sk_ep s)) ` set (hk_sinks st)
      then hk_sink_register obj local st = (None, st)
      else \<exists>st'. hk_sink_register obj local st = (Some (length (hk_sinks st)), st') \<and> registry_wf st' \<and>
        length (hk_sinks st') = Suc (length (hk_sinks st)) \<and>
        sk_ep (sink_at st' (length (hk_sinks st))) = sk_ep (new_sink obj local st)) \<and>
     (if obj_key st obj \<in> (\<lambda>s. ep_key st (so_ep s)) ` set (hk_sources st)
      then hk_source_register obj local event st = (None, st)
      else \<exists>st'. hk_source_register obj local event st = (Some (length (hk_sources st)), st') \<and> registry_wf st' \<and>
        length (hk_sources st') = Suc (length (hk_sources st)) \<and>
        so_ep (source_at st' (length (hk_sources st))) = so_ep (new_source obj local event st))"
proof (intro conjI)
  show "if obj_key st obj \<in> (\<lambda>s. ep_key st (sk_ep s)) ` set (hk_sinks st)
      then hk_sink_register obj local st = (None, st)
      else \<exists>st'. hk_sink_register obj local st = (Some (length (hk_sinks st)), st') \<and> registry_wf st' \<and>
        length (hk_sinks st') = Suc (length (hk_sinks st)) \<and>
        sk_ep (sink_at st' (length (hk_sinks st))) = sk_ep (new_sink obj local st)"
    using hk_sink_taken [OF assms(1), of obj] hk_sink_register_new [OF assms, of local]
    by (auto simp: hk_sink_register_def Let_def)
  show "if obj_key st obj \<in> (\<lambda>s. ep_key st (so_ep s)) ` set (hk_sources st)
      then hk_source_register obj local event st = (None, st)
      else \<exists>st'. hk_source_register obj local event st = (Some (length (hk_sources st)), st') \<and> registry_wf st' \<and>
        length (hk_sources st') = Suc (length (hk_sources st)) \<and>
        so_ep (source_at st' (length (hk_sources st))) = so_ep (new_source obj local event st)"
    using hk_source_taken [OF assms(1), of obj] hk_source_register_new [OF assms, of local event]
    by (auto simp: hk_source_register_def Let_def)
qed

section \<open>Lookup\<close>

definition full_name :: "('c, 'h, 'z) hke \<Rightarrow> hk_ep \<Rightarrow> string" where
  \<comment> \<open>the name under which an endpoint is found\<close>
  "full_name st ep =
     (if opt_full_name st then hk_ep_get_tile_name st ep @ ''.'' @ hk_ep_get_name st ep
      else hk_ep_get_name st ep)"

lemma find_index_unique:
  assumes "distinct (map g xs)" "k < length xs" "\<And>x. x \<in> set xs \<Longrightarrow> P x \<longleftrightarrow> g x = g (xs ! k)"
  shows "find_index P xs = Some k"
proof -
  have "P (xs ! j) \<longleftrightarrow> j = k" if "j < length xs" for j
    using assms that nth_eq_iff_index_eq [OF assms(1), of j k] by simp
  with assms(2) show ?thesis unfolding find_index_Some_iff by auto
qed

lemma split_full_name_own:
  assumes "CHR ''.'' \<notin> set name"
  shows "split_full_name full name = (None, name)"
    "split_full_name full (pre @ ''.'' @ name) = (if full then Some pre else None, name)"
  using assms strrchr_append [of "CHR ''.''" name pre] by (simp_all add: split_full_name_def)

lemma full_name_matches:
  assumes "CHR ''.'' \<notin> set (hk_ep_get_name st ep)" "ep_obj ep \<noteq> None" "ep_obj e \<noteq> None"
  shows "ep_matches st (fst (split_full_name (opt_full_name st) (full_name st ep)))
      (snd (split_full_name (opt_full_name st) (full_name st ep))) e \<longleftrightarrow> ep_key st e = ep_key st ep"
    "\<not> opt_full_name st \<Longrightarrow> ep_matches st (fst (split_full_name (opt_full_name st) (pre @ ''.'' @ hk_ep_get_name st ep)))
      (snd (split_full_name (opt_full_name st) (pre @ ''.'' @ hk_ep_get_name st ep))) e \<longleftrightarrow> ep_key st e = ep_key st ep"
  using assms(2,3) split_full_name_own [OF assms(1)]
  by (auto simp: full_name_def ep_matches_def obj_key_def own_tile_name_def hk_ep_get_tile_name_def
      hk_ep_get_name_def)

text \<open>
  In a consistent registry, the full name of a sink or a source (object name, preceded by
  the tile name and a dot when full names are in use) finds that endpoint and no other; without
  full names, whatever precedes the last dot is ignored.
\<close>

theorem endpoint_lookup:
  assumes "registry_wf st"
  shows "(\<forall>k<length (hk_sinks st). CHR ''.'' \<notin> set (hk_ep_get_name st (sk_ep (sink_at st k))) \<longrightarrow>
        hk_sink_retrieve_by_name (full_name st (sk_ep (sink_at st k))) st = Some k \<and>
        (\<not> opt_full_name st \<longrightarrow>
          hk_sink_retrieve_by_name (pre @ ''.'' @ hk_ep_get_name st (sk_ep (sink_at st k))) st = Some k)) \<and>
     (\<forall>i<length (hk_sources st). CHR ''.'' \<notin> set (hk_ep_get_name st (so_ep (source_at st i))) \<longrightarrow>
        hk_source_retrieve_by_name (full_name st (so_ep (source_at st i))) st = Some i \<and>
        (\<not> opt_full_name st \<longrightarrow>
          hk_source_retrieve_by_name (pre @ ''.'' @ hk_ep_get_name st (so_ep (source_at st i))) st = Some i))"
proof (intro conjI allI impI)
  have w: "s \<in> set (hk_sinks st) \<Longrightarrow> ep_obj (sk_ep s) \<noteq> None"
    "r \<in> set (hk_sources st) \<Longrightarrow> ep_obj (so_ep r) \<noteq> None" for s r
    using assms by (auto simp: registry_wf_def ep_live_def)
  have d: "distinct (map (\<lambda>s. ep_key st (sk_ep s)) (hk_sinks st))"
    "distinct (map (\<lambda>s. ep_key st (so_ep s)) (hk_sources st))"
    using assms by (simp_all add: registry_wf_def)
  fix k assume k: "k < length (hk_sinks st)" "CHR ''.'' \<notin> set (hk_ep_get_name st (sk_ep (sink_at st k)))"
  show "hk_sink_retrieve_by_name (full_name st (sk_ep (sink_at st k))) st = Some k"
    unfolding hk_sink_retrieve_by_name_def hk_sink_retrieve_by_full_name_def case_prod_beta
    by (rule find_index_unique [OF d(1) k(1)], rule full_name_matches(1) [OF k(2)])
      (use w k(1) in auto)
  assume "\<not> opt_full_name st"
  then show "hk_sink_retrieve_by_name (pre @ ''.'' @ hk_ep_get_name st (sk_ep (sink_at st k))) st = Some k"
    unfolding hk_sink_retrieve_by_name_def hk_sink_retrieve_by_full_name_def case_prod_beta
    by (intro find_index_unique [OF d(1) k(1)] full_name_matches(2) [OF k(2)]) (use w k(1) in auto)
next
  have w: "r \<in> set (hk_sources st) \<Longrightarrow> ep_obj (so_ep r) \<noteq> None" for r
    using assms by (auto simp: registry_wf_def ep_live_def)
  have d: "distinct (map (\<lambda>s. ep_key st (so_ep s)) (hk_sources st))"
    using assms by (simp add: registry_wf_def)
  fix i assume i: "i < length (hk_sources st)" "CHR ''.'' \<notin> set (hk_ep_get_name st (so_ep (source_at st i)))"
  show "hk_source_retrieve_by_name (full_name st (so_ep (source_at st i))) st = Some i"
    unfolding hk_source_retrieve_by_name_def hk_source_retrieve_by_full_name_def case_prod_beta
    by (rule find_index_unique [OF d i(1)], rule full_name_matches(1) [OF i(2)])
      (use w i(1) in auto)
  assume "\<not> opt_full_name st"
  then show "hk_source_retrieve_by_name (pre @ ''.'' @ hk_ep_get_name st (so_ep (source_at st i))) st = Some i"
    unfolding hk_source_retrieve_by_name_def hk_source_retrieve_by_full_name_def case_prod_beta
    by (intro find_index_unique [OF d i(1)] full_name_matches(2) [OF i(2)]) (use w i(1) in auto)
qed

section \<open>Updates\<close>

definition deliver :: "nat \<Rightarrow> string \<Rightarrow> 'h hk_sink \<Rightarrow> 'h hk_sink" where
  \<comment> \<open>what an update does to a sink, whatever its handlers do elsewhere\<close>
  "deliver now value s =
     (if ep_locked (sk_ep s) then s
      else s\<lparr>sk_ep := (sk_ep s)\<lparr>ep_value := value,
               ep_tr := (if sk_local_source s = None \<and> ep_chart (sk_ep s) \<noteq> None
                         then hk_trace_push now (ep_tr (sk_ep s)) value else ep_tr (sk_ep s))\<rparr>\<rparr>)"

definition outside :: "('h \<Rightarrow> nat \<Rightarrow> ('c, 'h, 'z) hke \<Rightarrow> (('c, 'h, 'z) hke) option) \<Rightarrow> bool" where
  \<comment> \<open>handlers that return and do not come back to the endpoints\<close>
  "outside call \<longleftrightarrow>
     (\<forall>func k s. \<exists>s'. call func k s = Some s' \<and> hk_sinks s' = hk_sinks s \<and> hk_sources s' = hk_sources s)"

lemma handlers_outside:
  assumes "outside call"
  shows "\<exists>s'. foldo (\<lambda>st handler. case handler of None \<Rightarrow> Some st | Some func \<Rightarrow> call func k st) s hs = Some s' \<and>
    hk_sinks s' = hk_sinks s \<and> hk_sources s' = hk_sources s"
proof (induction hs arbitrary: s)
  case (Cons h hs)
  obtain s1 where s1: "(case h of None \<Rightarrow> Some s | Some func \<Rightarrow> call func k s) = Some s1"
    "hk_sinks s1 = hk_sinks s" "hk_sources s1 = hk_sources s"
    using assms unfolding outside_def by (cases h) (simp, fastforce)
  with Cons [of s1] show ?case by auto
qed simp

lemma map_nth_twice: "map_nth k g (map_nth k h xs) = map_nth k (\<lambda>x. g (h x)) xs"
  by (cases "k < length xs") (simp add: map_nth_def, simp)

lemma map_nth_fixed: "(k < length xs \<Longrightarrow> g (xs ! k) = xs ! k) \<Longrightarrow> map_nth k g xs = xs"
  by (cases "k < length xs") (simp add: map_nth_def list_update_same_conv, simp)

lemma map_nth_cong: "(k < length xs \<Longrightarrow> g (xs ! k) = h (xs ! k)) \<Longrightarrow> map_nth k g xs = map_nth k h xs"
  by (cases "k < length xs") (simp add: map_nth_def, simp)

lemma hk_sink_update_effect:
  assumes "outside call" "k < length (hk_sinks st)"
  shows "\<exists>st'. hk_sink_update call k value st = Some st' \<and> hk_sources st' = hk_sources st \<and>
    hk_sinks st' = map_nth k (deliver (tstamp st) value) (hk_sinks st)"
proof (cases "ep_locked (sk_ep (sink_at st k))")
  case True
  then show ?thesis by (auto simp: hk_sink_update_def deliver_def intro!: map_nth_fixed [symmetric])
next
  case False
  let ?hs = "sk_handlers (sink_at st k)"
  let ?run = "\<lambda>s. foldo (\<lambda>st handler. case handler of None \<Rightarrow> Some st | Some func \<Rightarrow> call func k st) s ?hs"
  let ?s1 = "upd_sink_ep k (\<lambda>ep. ep\<lparr>ep_value := value\<rparr>) st"
  let ?s2 = "if sk_local_source (sink_at ?s1 k) = None \<and> ep_chart (sk_ep (sink_at ?s1 k)) \<noteq> None
    then upd_sink_ep k (\<lambda>ep. ep\<lparr>ep_tr := hk_trace_push (tstamp ?s1) (ep_tr ep) value\<rparr>) ?s1 else ?s1"
  let ?s3 = "upd_sink_ep k (\<lambda>ep. ep\<lparr>ep_locked := True\<rparr>) ?s2"
  have h: "sk_handlers (sink_at ?s2 k) = ?hs" by (simp add: sink_at_upd)
  obtain s4 where s4: "?run ?s3 = Some s4" "hk_sinks s4 = hk_sinks ?s3" "hk_sources s4 = hk_sources ?s3"
    using handlers_outside [OF assms(1)] by blast
  have "hk_sink_update call k value st = Some (upd_sink_ep k (\<lambda>ep. ep\<lparr>ep_locked := False\<rparr>) s4)"
    using False s4(1) h by (simp only: hk_sink_update_def Let_def if_False) simp
  moreover have "hk_sinks (upd_sink_ep k (\<lambda>ep. ep\<lparr>ep_locked := False\<rparr>) s4) =
      map_nth k (deliver (tstamp st) value) (hk_sinks st)"
    unfolding upd_sink_def using s4(2) False assms(2)
    by (auto simp: upd_sink_def map_nth_twice deliver_def intro!: map_nth_cong)
  ultimately show ?thesis using s4(3) by simp
qed

lemma deliver_linked: "sk_local_source s \<noteq> None \<Longrightarrow> deliver now value s = deliver 0 value s"
  by (auto simp: deliver_def)

lemma sinks_update_effect:
  assumes "outside call" "distinct ks" "\<And>k. k \<in> set ks \<Longrightarrow> k < length (hk_sinks st) \<and> sk_local_source (sink_at st k) \<noteq> None"
  shows "\<exists>st'. foldo (\<lambda>st sink. hk_sink_update call sink value st) st ks = Some st' \<and> hk_sources st' = hk_sources st \<and>
    length (hk_sinks st') = length (hk_sinks st) \<and>
    (\<forall>k<length (hk_sinks st). sink_at st' k = (if k \<in> set ks then deliver 0 value (sink_at st k) else sink_at st k))"
  using assms(2,3)
proof (induction ks arbitrary: st)
  case (Cons q ks)
  obtain s1 where s1: "hk_sink_update call q value st = Some s1" "hk_sources s1 = hk_sources st"
    "hk_sinks s1 = map_nth q (deliver (tstamp st) value) (hk_sinks st)"
    using hk_sink_update_effect [OF assms(1), of q st "value"] Cons.prems(2) [of q] by auto
  have at: "sink_at s1 k = (if k = q then deliver 0 value (sink_at st k) else sink_at st k)"
    if "k < length (hk_sinks st)" for k
    using that s1(3) Cons.prems(2) [of q] deliver_linked by (cases "k = q") auto
  have l: "length (hk_sinks s1) = length (hk_sinks st)" using s1(3) by simp
  have "k < length (hk_sinks s1) \<and> sk_local_source (sink_at s1 k) \<noteq> None" if "k \<in> set ks" for k
    using Cons.prems that l at [of k] by auto
  then obtain s2 where "foldo (\<lambda>st sink. hk_sink_update call sink value st) s1 ks = Some s2" "hk_sources s2 = hk_sources s1"
    "length (hk_sinks s2) = length (hk_sinks s1)"
    "\<forall>k<length (hk_sinks s1). sink_at s2 k = (if k \<in> set ks then deliver 0 value (sink_at s1 k) else sink_at s1 k)"
    using Cons.IH [of s1] Cons.prems(1) by auto
  with s1(1,2) l at Cons.prems(1) show ?case by simp
qed simp

text \<open>
  C6: When the handlers do not come back to the endpoints, an update of an unlocked source
  returns; the source then holds the value, every sink it is locally connected to has the value
  too (unless that sink was locked), no other endpoint changes its value, and no lock is left set.
\<close>

theorem source_update_reaches_sinks:
  assumes "registry_wf st" "outside call" "i < length (hk_sources st)" "\<not> ep_locked (so_ep (source_at st i))"
  shows "\<exists>st'. hk_source_update call i value st = Some st' \<and>
    length (hk_sources st') = length (hk_sources st) \<and> length (hk_sinks st') = length (hk_sinks st) \<and>
    ep_value (so_ep (source_at st' i)) = value \<and> \<not> ep_locked (so_ep (source_at st' i)) \<and>
    (\<forall>j<length (hk_sources st). j \<noteq> i \<longrightarrow> source_at st' j = source_at st j) \<and>
    (\<forall>k<length (hk_sinks st). sink_at st' k =
       (if sk_local_source (sink_at st k) = Some i then deliver 0 value (sink_at st k) else sink_at st k))"
proof -
  let ?s1 = "upd_src_ep i (\<lambda>ep. ep\<lparr>ep_value := value\<rparr>) st"
  let ?s2 = "if ep_chart (so_ep (source_at ?s1 i)) \<noteq> None
    then upd_src_ep i (\<lambda>ep. ep\<lparr>ep_tr := hk_trace_push (tstamp ?s1) (ep_tr ep) value\<rparr>) ?s1 else ?s1"
  let ?s3 = "upd_src_ep i (\<lambda>ep. ep\<lparr>ep_locked := True\<rparr>) ?s2"
  let ?ks = "so_local_sinks (source_at st i)"
  have lk: "links_ok st" using assms(1) by (simp add: registry_wf_def)
  have h: "so_local_sinks (source_at ?s2 i) = ?ks" by (simp add: source_at_upd)
  have s3: "hk_sinks ?s3 = hk_sinks st" by simp
  have "\<exists>s4. foldo (\<lambda>st sink. hk_sink_update call sink value st) ?s3 ?ks = Some s4 \<and> hk_sources s4 = hk_sources ?s3 \<and>
      length (hk_sinks s4) = length (hk_sinks ?s3) \<and>
      (\<forall>k<length (hk_sinks ?s3). sink_at s4 k =
         (if k \<in> set ?ks then deliver 0 value (sink_at ?s3 k) else sink_at ?s3 k))"
    by (rule sinks_update_effect [OF assms(2) links_okD(3) [OF lk assms(3)]])
      (unfold s3, use links_okD(2) [OF lk assms(3)] in simp)
  then obtain s4 where s4: "foldo (\<lambda>st sink. hk_sink_update call sink value st) ?s3 ?ks = Some s4"
    "hk_sources s4 = hk_sources ?s3" "length (hk_sinks s4) = length (hk_sinks st)"
    "\<And>k. k < length (hk_sinks st) \<Longrightarrow> sink_at s4 k =
       (if k \<in> set ?ks then deliver 0 value (sink_at st k) else sink_at st k)"
    unfolding s3 by blast
  let ?s5 = "upd_src_ep i (\<lambda>ep. ep\<lparr>ep_locked := False\<rparr>) s4"
  have r: "hk_source_update call i value st = Some ?s5"
    using assms(4) s4(1) h by (simp only: hk_source_update_def Let_def if_False) simp
  have l: "length (hk_sources s4) = length (hk_sources st)" using s4(2) by simp
  have at: "source_at s4 j = source_at ?s3 j" for j using s4(2) by simp
  have "k \<in> set ?ks \<longleftrightarrow> sk_local_source (sink_at st k) = Some i" if "k < length (hk_sinks st)" for k
    using links_okD(1,2) [OF lk] that assms(3) by blast
  with s4(4) have "\<forall>k<length (hk_sinks st). sink_at ?s5 k =
       (if sk_local_source (sink_at st k) = Some i then deliver 0 value (sink_at st k) else sink_at st k)"
    by simp
  moreover have "ep_value (so_ep (source_at ?s5 i)) = value \<and> \<not> ep_locked (so_ep (source_at ?s5 i)) \<and>
      (\<forall>j<length (hk_sources st). j \<noteq> i \<longrightarrow> source_at ?s5 j = source_at st j)"
    using assms(3) l at by (simp add: source_at_upd)
  ultimately show ?thesis using r l s4(3) by simp
qed

text \<open>
  Without full names, the local connection of a sink and a source of the same name depends
  on which is registered first: a public sink registered after the source is connected to it,
  while a source registered after the sink leaves every sink as it is.
\<close>

theorem local_connection_order:
  assumes "registry_wf st" "obj < length (objs st)" "\<not> opt_full_name st"
  shows "(\<forall>i. hk_sink_retrieve_by_full_name None (o_name (obj_at st obj)) st = None \<and>
        hk_source_retrieve_by_full_name None (o_name (obj_at st obj)) st = Some i \<longrightarrow>
        (\<exists>st'. hk_sink_register obj False st = (Some (length (hk_sinks st)), st') \<and>
           sk_local_source (sink_at st' (length (hk_sinks st))) = Some i)) \<and>
     (hk_source_retrieve_by_full_name None (o_name (obj_at st obj)) st = None \<longrightarrow>
        (\<exists>st'. hk_source_register obj local event st = (Some (length (hk_sources st)), st') \<and>
           hk_sinks st' = hk_sinks st))"
proof -
  have own: "own_tile_name obj st = None" using assms(3) by (simp add: own_tile_name_def)
  show ?thesis
    using hk_sink_taken [OF assms(1), of obj] hk_source_taken [OF assms(1), of obj]
      hk_sink_register_new [OF assms(1,2), of False] hk_source_register_new [OF assms(1,2), of local event] assms(3)
    unfolding own by auto
qed

section \<open>Registration from an empty table\<close>

definition ep_boot :: "bool \<Rightarrow> 'c hk_state \<Rightarrow> ('c, 'h) hk_ep_state" where
  "ep_boot full st = hk_endpoints_init (hk_state.extend st (hk_ep_state.fields full [] [] 0 0))"

lemma registry_wf_boot: "registry_wf (ep_boot full st)"
  by (simp add: registry_wf_def ep_boot_def hk_endpoints_init_def hk_tab_init_def links_ok_def)

lemma registry_wf_depth [simp]:
  "registry_wf (hk_endpoints_set_trace_depth d st) = registry_wf st"
  "objs (hk_endpoints_set_trace_depth d st) = objs st"
proof -
  have "obj_key (st\<lparr>trace_depth := e\<rparr>) = obj_key st" "ep_live (st\<lparr>trace_depth := e\<rparr>) = ep_live st" for e
    by (auto simp: fun_eq_iff obj_key_def own_tile_name_def ep_live_def)
  then show "registry_wf (hk_endpoints_set_trace_depth d st) = registry_wf st"
    by (simp add: hk_endpoints_set_trace_depth_def registry_wf_def links_ok_def)
qed (simp add: hk_endpoints_set_trace_depth_def)

lemma objs_boot [simp]: "objs (ep_boot full st) = objs st"
  by (simp add: ep_boot_def hk_endpoints_init_def hk_state.defs hk_ep_state.defs)

lemma objs_register [simp]:
  "objs (snd (hk_sink_register obj local st)) = objs st"
  "objs (snd (hk_source_register obj local event st)) = objs st"
  by (auto simp: hk_sink_register_def hk_sink_alloc_def hk_source_register_def hk_source_alloc_def Let_def
      hk_sink_local_connect_def split: option.split prod.splits)

lemma registry_wf_register:
  assumes "registry_wf st" "obj < length (objs st)"
  shows "registry_wf (snd (hk_sink_register obj local st))"
    "registry_wf (snd (hk_source_register obj local event st))"
proof -
  show "registry_wf (snd (hk_sink_register obj local st))"
    using assms(1) hk_sink_taken [OF assms(1), of obj] hk_sink_register_new [OF assms, of local]
    by (cases "obj_key st obj \<in> (\<lambda>s. ep_key st (sk_ep s)) ` set (hk_sinks st)")
      (auto simp: hk_sink_register_def Let_def)
  show "registry_wf (snd (hk_source_register obj local event st))"
    using assms(1) hk_source_taken [OF assms(1), of obj] hk_source_register_new [OF assms, of local event]
    by (cases "obj_key st obj \<in> (\<lambda>s. ep_key st (so_ep s)) ` set (hk_sources st)")
      (auto simp: hk_source_register_def Let_def)
qed

definition house :: "unit hk_state" where
  \<comment> \<open>two tiles, with an object \<open>lamp\<close> in each and an object \<open>door\<close> in the first\<close>
  "house =
     \<lparr>sources = [], last_tag = 0, quit_requested = False, hk_clock = 0, classes = [], pads = [], nets = [],
      objs = map (\<lambda>(n, t). \<lparr>o_name = n, o_tile = t, o_class = ''sink'', o_props = [], o_pads = [], o_ctx = None\<rparr>)
               [(''lamp'', 0), (''lamp'', 1), (''door'', 0)],
      tiles = map (\<lambda>n. \<lparr>t_dir = [], t_name = n, t_fname = [], t_objs = [], t_nets = []\<rparr>) [''hall'', ''attic''],
      tile_tab = [Some 0, Some 1]\<rparr>"

definition house_ep :: "hk_ep_type \<Rightarrow> nat \<Rightarrow> nat \<Rightarrow> hk_ep" where
  "house_ep type num obj = ep_zero\<lparr>ep_type := type, ep_id := num, ep_obj := Some obj\<rparr>"

definition house_eps :: "bool \<Rightarrow> (unit, unit) hk_ep_state" where
  \<comment> \<open>the sinks \<open>lamp\<close> and \<open>door\<close> of the first tile, and a source \<open>lamp\<close>, connected with full names\<close>
  "house_eps full = hk_state.extend house (hk_ep_state.fields full
     [\<lparr>sk_ep = house_ep HK_EP_SINK 0 0, sk_handlers = [], sk_local_source = (if full then Some 0 else None)\<rparr>,
      \<lparr>sk_ep = house_ep HK_EP_SINK 1 2, sk_handlers = [], sk_local_source = None\<rparr>]
     [\<lparr>so_ep = house_ep HK_EP_SOURCE 0 0, so_local_sinks = (if full then [0] else [])\<rparr>] 2 0)"

lemma house_objs [simp]: "length (objs house) = 3"
  by (simp add: house_def)

lemmas house_simps = house_eps_def house_ep_def house_def ep_zero_def hk_state.defs hk_ep_state.defs

lemma house_eps_wf: "registry_wf (house_eps full)" "length (objs (house_eps full)) = 3"
  by (auto simp: house_simps registry_wf_def links_ok_def ep_live_def obj_key_def own_tile_name_def less_Suc_eq
      split: if_splits)

lemma house_eps_facts:
  "length (hk_sinks (house_eps full)) = 2" "length (hk_sources (house_eps full)) = 1"
  "opt_full_name (house_eps full) = full"
  "ep_locked (so_ep (source_at (house_eps full) 0)) = False"
  "sk_local_source (sink_at (house_eps full) 0) = (if full then Some 0 else None)"
  "sk_local_source (sink_at (house_eps full) 1) = None"
  "hk_ep_get_name (house_eps full) (sk_ep (sink_at (house_eps full) 1)) = ''door''"
  "full_name (house_eps True) (sk_ep (sink_at (house_eps True) 1)) = ''hall.door''"
  "ep_value (sk_ep (deliver now v (sink_at (house_eps full) 0))) = v"
  "ep_value (sk_ep (sink_at (house_eps full) 1)) = []"
  "obj_key (house_eps full) 1 \<in> (\<lambda>s. ep_key (house_eps full) (sk_ep s)) ` set (hk_sinks (house_eps full)) \<longleftrightarrow> \<not> full"
  "hk_source_retrieve_by_full_name None (o_name (obj_at (house_eps full) 2)) (house_eps full) = None"
  by (auto simp: house_simps hk_ep_get_name_def hk_ep_get_tile_name_def full_name_def deliver_def obj_key_def
      own_tile_name_def hk_source_retrieve_by_full_name_def ep_matches_def)

theorem registration_keeps_registry_witness:
  "hk_sink_register 1 True (house_eps False) = (None, house_eps False) \<and>
   fst (hk_sink_register 1 True (house_eps True)) = Some 2"
  using registration_keeps_registry [OF house_eps_wf(1), of 1 False True False]
    registration_keeps_registry [OF house_eps_wf(1), of 1 True True False]
  by (auto simp: house_eps_wf(2) house_eps_facts simp del: One_nat_def)

theorem endpoint_lookup_witness:
  "hk_sink_retrieve_by_name ''hall.door'' (house_eps True) = Some 1 \<and>
   hk_sink_retrieve_by_name ''cellar.door'' (house_eps False) = Some 1"
  using endpoint_lookup [OF house_eps_wf(1), of True "[]", THEN conjunct1, rule_format, of 1]
    endpoint_lookup [OF house_eps_wf(1), of False "''cellar''", THEN conjunct1, rule_format, of 1]
  by (simp add: house_eps_facts del: One_nat_def)

definition quiet_call :: "unit \<Rightarrow> nat \<Rightarrow> (unit, unit) hk_ep_state \<Rightarrow> (unit, unit) hk_ep_state option" where
  "quiet_call func sink st = Some st"

theorem source_update_reaches_sinks_witness:
  "\<exists>st'. hk_source_update quiet_call 0 ''on'' (house_eps True) = Some st' \<and>
    ep_value (sk_ep (sink_at st' 0)) = ''on'' \<and> ep_value (sk_ep (sink_at st' 1)) = []"
proof -
  have o: "outside quiet_call" by (simp add: outside_def quiet_call_def)
  obtain st' where st': "hk_source_update quiet_call 0 ''on'' (house_eps True) = Some st'"
    "\<And>k. k < 2 \<Longrightarrow> sink_at st' k = (if sk_local_source (sink_at (house_eps True) k) = Some 0
       then deliver 0 ''on'' (sink_at (house_eps True) k) else sink_at (house_eps True) k)"
    using source_update_reaches_sinks [OF house_eps_wf(1) o, of 0 True "''on''"] by (auto simp: house_eps_facts)
  then show ?thesis using st'(2) [of 0] st'(2) [of 1] house_eps_facts(5,6) [of True] house_eps_facts(9,10)
    by auto
qed

theorem local_connection_order_witness:
  "\<exists>st'. hk_source_register 2 False False (house_eps False) = (Some 1, st') \<and> hk_sinks st' = hk_sinks (house_eps False)"
  using local_connection_order [OF house_eps_wf(1), of 2 False False False] by (auto simp: house_eps_wf(2) house_eps_facts simp del: One_nat_def)

end
