(* ===== verification/Hk_Io.thy ===== *)
theory Hk_Io
  imports Hk_Sys
begin

text \<open>
  \<^verbatim>\<open>os/linux/io.c\<close> and \<^verbatim>\<open>os/linux/tcpio.c\<close> without TLS: channels on file descriptors and TCP
  sockets with buffered output, on top of the event loop. The results of the system calls
  (\<open>read\<close>, \<open>write\<close>, \<open>accept\<close>, \<open>connect\<close>) are arguments. Functions registered with the event
  loop are referred to by their C name; their argument is the \<open>ref\<close> of the channel or socket.
  Closing a descriptor, \<open>fcntl\<close> and \<open>setsockopt\<close> have no effect inside the program and are left out.
\<close>

section \<open>Channels\<close>

record 'd io_channel =
  ch_fd :: int
  ch_tag :: sys_tag
  ch_func :: "string option"
  ch_data :: "'d option"

definition io_channel_clear :: "'d io_channel" where
  "io_channel_clear = \<lparr>ch_fd = -1, ch_tag = 0, ch_func = None, ch_data = None\<rparr>"

definition io_channel_setup ::
    "'a \<Rightarrow> int \<Rightarrow> string option \<Rightarrow> 'd option \<Rightarrow> (string, 'a, 'z) world
      \<Rightarrow> 'd io_channel \<times> (string, 'a, 'z) world" where
  "io_channel_setup ref fd func user_data st =
     (case sys_io_watch fd (Some ''io_channel_event'') (Some ref) st of (tag, st) \<Rightarrow>
        (\<lparr>ch_fd = fd, ch_tag = tag, ch_func = func, ch_data = user_data\<rparr>, st))"

definition io_channel_close ::
    "'d io_channel \<Rightarrow> (string, 'a, 'z) world \<Rightarrow> 'd io_channel \<times> (string, 'a, 'z) world" where
  "io_channel_close chan st =
     (io_channel_clear, if ch_tag chan \<noteq> 0 then sys_remove (ch_tag chan) st else st)"

datatype read_end = Rd_again | Rd_error | Rd_eof

definition io_channel_event ::
    "('w \<Rightarrow> string option \<Rightarrow> 'w) option \<Rightarrow> string list \<Rightarrow> read_end \<Rightarrow> 'w \<Rightarrow> int \<times> 'w" where
  \<comment> \<open>the chunks that \<open>read\<close> returns before it fails or reaches the end of the file\<close>
  "io_channel_event func chunks fin w =
     (let call = (\<lambda>w buf. case func of None \<Rightarrow> w | Some f \<Rightarrow> f w buf);
          w = foldl (\<lambda>w buf. call w (Some buf)) w chunks
      in case fin of
           Rd_again \<Rightarrow> (1, w)
         | Rd_error \<Rightarrow> (0, call w None)
         | Rd_eof \<Rightarrow> (0, call w None))"

definition io_channel_write_async :: "(string \<Rightarrow> int) \<Rightarrow> 'd io_channel \<Rightarrow> string \<Rightarrow> int" where
  \<comment> \<open>\<open>write buf\<close> is what the system call returns\<close>
  "io_channel_write_async write chan buf = (if ch_fd chan < 0 \<or> buf = [] then 0 else write buf)"

section \<open>TCP sockets\<close>

record 'd tcp_sock =
  ts_chan :: "unit io_channel"
  ts_func :: "string option"
  ts_data :: "'d option"
  ts_wbuf :: string

type_synonym ('d, 'a, 'z) tcp = "'d tcp_sock \<times> (string, 'a, 'z) world"

definition tcp_sock_clear :: "'d tcp_sock \<Rightarrow> 'd tcp_sock" where
  "tcp_sock_clear sock = sock\<lparr>ts_chan := io_channel_clear, ts_func := None, ts_data := None\<rparr>"

definition tcp_sock_zero :: "'d tcp_sock" where
  \<comment> \<open>a cleared socket in a block filled with zeros\<close>
  "tcp_sock_zero = tcp_sock_clear \<lparr>ts_chan = io_channel_clear, ts_func = None, ts_data = None, ts_wbuf = []\<rparr>"

definition tcp_sock_setup ::
    "'a \<Rightarrow> int \<Rightarrow> string option \<Rightarrow> 'd option \<Rightarrow> ('d, 'a, 'z) tcp \<Rightarrow> ('d, 'a, 'z) tcp" where
  "tcp_sock_setup ref fd func user_data s =
     (case s of (sock, st) \<Rightarrow>
        case io_channel_setup ref fd (Some ''tcp_sock_read_event'') None st of (chan, st) \<Rightarrow>
          (sock\<lparr>ts_chan := chan, ts_func := func, ts_data := user_data\<rparr>, st))"

definition tcp_sock_connect ::
    "int option \<Rightarrow> 'a \<Rightarrow> string option \<Rightarrow> 'd option \<Rightarrow> ('d, 'a, 'z) tcp \<Rightarrow> int \<times> ('d, 'a, 'z) tcp" where
  \<comment> \<open>the descriptor of the connection if it could be established\<close>
  "tcp_sock_connect fd ref func user_data s =
     (case fd of
        None \<Rightarrow> (-1, s)
      | Some fd \<Rightarrow> (fd, tcp_sock_setup ref fd func user_data s))"

definition tcp_sock_is_connected :: "'d tcp_sock \<Rightarrow> bool" where
  "tcp_sock_is_connected sock \<longleftrightarrow> 0 \<le> ch_fd (ts_chan sock)"

definition tcp_sock_shutdown :: "('d, 'a, 'z) tcp \<Rightarrow> ('d, 'a, 'z) tcp" where
  "tcp_sock_shutdown s =
     (case s of (sock, st) \<Rightarrow>
        case io_channel_close (ts_chan sock) st of (chan, st) \<Rightarrow>
          (sock\<lparr>ts_chan := chan, ts_wbuf := []\<rparr>, st))"

definition tcp_sock_write :: "string \<Rightarrow> ('d, 'a, 'z) tcp \<Rightarrow> ('d, 'a, 'z) tcp" where
  "tcp_sock_write buf s =
     (case s of (sock, st) \<Rightarrow>
        let sock = sock\<lparr>ts_wbuf := ts_wbuf sock @ buf\<rparr>
        in (sock, if ts_wbuf sock \<noteq> []
                  then snd (sys_io_write_handler (ch_tag (ts_chan sock)) (Some ''tcp_sock_write_event'') st)
                  else st))"

definition tcp_sock_set_data :: "'d option \<Rightarrow> 'd tcp_sock \<Rightarrow> 'd tcp_sock" where
  "tcp_sock_set_data user_data sock = sock\<lparr>ts_data := user_data\<rparr>"

datatype tcp_io = TCP_IO_CONNECT string | TCP_IO_DATA string | TCP_IO_HUP

definition tcp_sock_read_event ::
    "(tcp_io \<Rightarrow> ('d, 'a, 'z) tcp \<Rightarrow> ('d, 'a, 'z) tcp) \<Rightarrow> string option \<Rightarrow> ('d, 'a, 'z) tcp
      \<Rightarrow> ('d, 'a, 'z) tcp" where
  \<comment> \<open>\<open>func\<close> is the event function of the socket\<close>
  "tcp_sock_read_event func buf s =
     (let s = (if ts_func (fst s) = None then s
               else func (case buf of None \<Rightarrow> TCP_IO_HUP | Some b \<Rightarrow> TCP_IO_DATA b) s)
      in case buf of None \<Rightarrow> tcp_sock_shutdown s | Some _ \<Rightarrow> s)"

definition tcp_sock_write_event ::
    "(string \<Rightarrow> int) \<Rightarrow> (tcp_io \<Rightarrow> ('d, 'a, 'z) tcp \<Rightarrow> ('d, 'a, 'z) tcp) \<Rightarrow> ('d, 'a, 'z) tcp
      \<Rightarrow> int \<times> ('d, 'a, 'z) tcp" where
  "tcp_sock_write_event write func s =
     (case s of (sock, st) \<Rightarrow>
        if ts_wbuf sock \<noteq> [] then
          let ret = io_channel_write_async write (ts_chan sock) (ts_wbuf sock)
          in if 0 \<le> ret then
               let sock = sock\<lparr>ts_wbuf := drop (nat ret) (ts_wbuf sock)\<rparr>
               in (if ts_wbuf sock \<noteq> [] then 1 else 0, sock, st)
             else (0, tcp_sock_read_event func None s)
        else (0, s))"

section \<open>TCP servers\<close>

definition TCP_SRV_MAX_CLIENTS :: nat where "TCP_SRV_MAX_CLIENTS = 32"

record 'd tcp_srv =
  srv_csock :: "'d tcp_sock"
  srv_dsock :: "'d tcp_sock list"
  srv_func :: "string option"
  srv_data :: "'d option"

definition tcp_srv_clear :: "'d tcp_srv" where
  "tcp_srv_clear =
     \<lparr>srv_csock = tcp_sock_zero, srv_dsock = replicate TCP_SRV_MAX_CLIENTS tcp_sock_zero,
      srv_func = None, srv_data = None\<rparr>"

definition tcp_srv_init ::
    "'a \<Rightarrow> int option \<Rightarrow> string option \<Rightarrow> 'd option \<Rightarrow> (string, 'a, 'z) world
      \<Rightarrow> int \<times> 'd tcp_srv \<times> (string, 'a, 'z) world" where
  \<comment> \<open>\<open>fd\<close>: the listening socket, if it could be made\<close>
  "tcp_srv_init ref fd func user_data st =
     (case fd of
        None \<Rightarrow> (-1, tcp_srv_clear, st)
      | Some fd \<Rightarrow>
          (case sys_io_watch fd (Some ''tcp_srv_csock_event'') (Some ref) st of (tag, st) \<Rightarrow>
             (0, tcp_srv_clear\<lparr>srv_csock := (srv_csock tcp_srv_clear)\<lparr>ts_chan :=
                    io_channel_clear\<lparr>ch_fd := fd, ch_tag := tag\<rparr>\<rparr>,
                  srv_func := func, srv_data := user_data\<rparr>, st)))"

definition tcp_srv_csock_accept ::
    "(nat \<Rightarrow> 'a) \<Rightarrow> int option \<Rightarrow> 'd tcp_srv \<times> (string, 'a, 'z) world
      \<Rightarrow> nat option \<times> 'd tcp_srv \<times> (string, 'a, 'z) world" where
  \<comment> \<open>the slot of the new client, \<open>None\<close> when it is refused. \<open>fd\<close> is what \<open>accept\<close> returns.
     The event function of the server is then called with \<open>TCP_IO_CONNECT\<close>.\<close>
  "tcp_srv_csock_accept ref fd s =
     (case s of (srv, st) \<Rightarrow>
        case fd of
          None \<Rightarrow> (None, srv, st)
        | Some sock \<Rightarrow>
            (case find_index (\<lambda>d. ch_fd (ts_chan d) < 0) (srv_dsock srv) of
               None \<Rightarrow> (None, srv, st)
             | Some dnum \<Rightarrow>
                 (case tcp_sock_setup (ref dnum) sock (srv_func srv) (srv_data srv) (srv_dsock srv ! dnum, st) of
                    (dsock, st) \<Rightarrow> (Some dnum, srv\<lparr>srv_dsock := (srv_dsock srv)[dnum := dsock]\<rparr>, st))))"

fun shutdown_all ::
    "'d tcp_sock list \<Rightarrow> (string, 'a, 'z) world \<Rightarrow> 'd tcp_sock list \<times> (string, 'a, 'z) world" where
  "shutdown_all [] st = ([], st)"
| "shutdown_all (d # ds) st =
     (case tcp_sock_shutdown (d, st) of (d, st) \<Rightarrow>
        case shutdown_all ds st of (ds, st) \<Rightarrow> (d # ds, st))"

definition tcp_srv_shutdown ::
    "'d tcp_srv \<times> (string, 'a, 'z) world \<Rightarrow> 'd tcp_srv \<times> (string, 'a, 'z) world" where
  "tcp_srv_shutdown s =
     (case s of (srv, st) \<Rightarrow>
        case shutdown_all (srv_dsock srv) st of (ds, st) \<Rightarrow>
          case tcp_sock_shutdown (srv_csock srv, st) of (csock, st) \<Rightarrow>
            (srv\<lparr>srv_func := None, srv_data := None, srv_dsock := ds, srv_csock := csock\<rparr>, st))"

definition tcp_srv_csock_event ::
    "(nat \<Rightarrow> 'a) \<Rightarrow> int option \<Rightarrow> 'd tcp_srv \<times> (string, 'a, 'z) world
      \<Rightarrow> int \<times> 'd tcp_srv \<times> (string, 'a, 'z) world" where
  \<comment> \<open>a client that is refused shuts the whole server down\<close>
  "tcp_srv_csock_event ref fd s =
     (case tcp_srv_csock_accept ref fd s of
        (None, s) \<Rightarrow> (0, tcp_srv_shutdown s)
      | (Some _, s) \<Rightarrow> (1, s))"

definition tcp_srv_foreach_client ::
    "('s \<Rightarrow> 'd tcp_sock \<Rightarrow> 's \<times> 'd tcp_sock) \<Rightarrow> 's \<Rightarrow> 'd tcp_sock list \<Rightarrow> 's \<times> 'd tcp_sock list" where
  \<comment> \<open>the functions the program passes always go on\<close>
  "tcp_srv_foreach_client func s socks =
     foldl (\<lambda>(s, done) d. if 0 \<le> ch_fd (ts_chan d) then (case func s d of (s, d) \<Rightarrow> (s, done @ [d]))
                          else (s, done @ [d])) (s, []) socks"

section \<open>The output of a socket\<close>

text \<open>
  A connected socket on the event loop, with all that the kernel has taken from it:
  a step is a write by the program, or a \<open>poll\<close> that reports the socket writable (only when
  it was asked for), after which the kernel takes some bytes of what it is offered.
\<close>

record tcp_world = "(string, nat) sys_state" +
  tw_sock :: "unit tcp_sock"
  tw_sent :: string

datatype tcp_step = Tcp_write string | Tcp_writable nat

definition flush_call :: "nat \<Rightarrow> string \<Rightarrow> nat option \<Rightarrow> sys_event \<Rightarrow> tcp_world \<Rightarrow> int \<times> tcp_world" where
  \<comment> \<open>the callbacks of the socket when the kernel takes at most \<open>n\<close> bytes\<close>
  "flush_call n f a ev st =
     (if f = ''tcp_sock_write_event'' then
        (case tcp_sock_write_event (\<lambda>buf. int (min n (length buf))) (\<lambda>io s. s) (tw_sock st, st) of
           (cont, sock, st') \<Rightarrow>
             (cont, st'\<lparr>tw_sock := sock, tw_sent := tw_sent st @ take n (ts_wbuf (tw_sock st))\<rparr>))
      else (1, st))"

definition wants_output :: "nat \<Rightarrow> tcp_world \<Rightarrow> bool" where
  "wants_output i st \<longleftrightarrow> pf_events (s_pollfd (src_at st i)) AND POLLOUT \<noteq> 0"

definition tcp_run :: "nat \<Rightarrow> tcp_world \<Rightarrow> tcp_step \<Rightarrow> tcp_world" where
  "tcp_run i st step =
     (case step of
        Tcp_write buf \<Rightarrow> (case tcp_sock_write buf (tw_sock st, st) of (sock, st) \<Rightarrow> st\<lparr>tw_sock := sock\<rparr>)
      | Tcp_writable n \<Rightarrow>
          if wants_output i st then
            snd (sys_callback (flush_call n) i
              (upd_source i (\<lambda>src. src\<lparr>s_pollfd := (s_pollfd src)\<lparr>pf_revents := POLLOUT\<rparr>\<rparr>) st))
          else st)"

definition tcp_ready :: "nat \<Rightarrow> tcp_world \<Rightarrow> bool" where
  "tcp_ready i st \<longleftrightarrow>
     i < length (sources st) \<and> sys_retrieve (ch_tag (ts_chan (tw_sock st))) st = Some i \<and>
     s_type (src_at st i) = SYS_TYPE_IO \<and> \<not> s_poll (src_at st i) \<and>
     s_func (src_at st i) = Some ''io_channel_event'' \<and> 0 \<le> ch_fd (ts_chan (tw_sock st)) \<and>
     (wants_output i st \<longrightarrow> s_wfunc (src_at st i) = Some ''tcp_sock_write_event'') \<and>
     (ts_wbuf (tw_sock st) \<noteq> [] \<longrightarrow> wants_output i st)"

primrec written :: "tcp_step list \<Rightarrow> string" where
  "written [] = []"
| "written (step # steps) = (case step of Tcp_write buf \<Rightarrow> buf | Tcp_writable n \<Rightarrow> []) @ written steps"

lemma find_index_cong: "map P xs = map Q ys \<Longrightarrow> find_index P xs = find_index Q ys"
  by (induction xs arbitrary: ys) auto

lemma sys_retrieve_upd:
  assumes "\<And>s. s_tag (g s) = s_tag s"
  shows "sys_retrieve tag (upd_source i g st) = sys_retrieve tag st"
proof -
  have "map (\<lambda>src. s_tag src = tag) (map_nth i g (sources st)) = map (\<lambda>src. s_tag src = tag) (sources st)"
    by (rule map_map_nth) (simp add: assms)
  then show ?thesis unfolding sys_retrieve_def upd_source_def by (simp, intro find_index_cong)
qed

lemma or_and_self: "(e OR POLLOUT) AND POLLOUT \<noteq> (0 :: events)"
proof
  have b: "bit ((e OR POLLOUT) AND POLLOUT) 2" by (simp add: bit_simps POLLOUT_def)
  assume "(e OR POLLOUT) AND POLLOUT = 0"
  with b show False by simp
qed

lemma POLLOUT_not_read: "POLLOUT AND POLL_READ = 0" "POLL_READ AND POLLOUT = 0" "POLLOUT \<noteq> 0"
  by (simp_all add: POLLOUT_def POLL_READ_def POLLIN_def POLLPRI_def POLLRDHUP_def POLLERR_def POLLHUP_def POLLNVAL_def)

lemma tw_upd [simp]: "tw_sock (upd_source i g st) = tw_sock st" "tw_sent (upd_source i g st) = tw_sent st"
  "length (sources (upd_source i g st)) = length (sources st)"
  by (simp_all add: upd_source_def)

lemma tcp_write_step:
  assumes "tcp_ready i st"
  shows "tcp_ready i (tcp_run i st (Tcp_write buf)) \<and>
    tw_sent (tcp_run i st (Tcp_write buf)) = tw_sent st \<and>
    ts_wbuf (tw_sock (tcp_run i st (Tcp_write buf))) = ts_wbuf (tw_sock st) @ buf"
proof (cases "ts_wbuf (tw_sock st) @ buf = []")
  case True
  with assms show ?thesis by (simp add: tcp_run_def tcp_sock_write_def tcp_ready_def wants_output_def src_at_def sys_retrieve_def)
next
  case False
  let ?g = "\<lambda>src. src\<lparr>s_pollfd := (s_pollfd src)\<lparr>pf_events := pf_events (s_pollfd src) OR POLLOUT\<rparr>,
      s_wfunc := Some ''tcp_sock_write_event''\<rparr>"
  let ?sock = "(tw_sock st)\<lparr>ts_wbuf := ts_wbuf (tw_sock st) @ buf\<rparr>"
  have r: "tcp_run i st (Tcp_write buf) = (upd_source i ?g st)\<lparr>tw_sock := ?sock\<rparr>"
    using assms False
    by (simp add: tcp_run_def tcp_sock_write_def tcp_ready_def sys_io_write_handler_def split del: if_split)
  have at: "src_at ((upd_source i ?g st)\<lparr>tw_sock := ?sock\<rparr>) i = ?g (src_at st i)"
    using assms src_at_upd [of i ?g st i] by (simp add: tcp_ready_def) (simp add: src_at_def)
  have rt: "sys_retrieve tag ((upd_source i ?g st)\<lparr>tw_sock := ?sock\<rparr>) = sys_retrieve tag st" for tag
    using sys_retrieve_upd [of ?g tag i st] by (simp add: sys_retrieve_def)
  show ?thesis
    unfolding r using assms at rt or_and_self by (simp add: tcp_ready_def wants_output_def)
qed

lemma tcp_flush_step:
  assumes "tcp_ready i st"
  shows "tcp_ready i (tcp_run i st (Tcp_writable n)) \<and>
    tw_sent (tcp_run i st (Tcp_writable n)) @ ts_wbuf (tw_sock (tcp_run i st (Tcp_writable n))) =
      tw_sent st @ ts_wbuf (tw_sock st)"
proof (cases "wants_output i st")
  case False
  with assms show ?thesis by (simp add: tcp_run_def)
next
  case wants: True
  let ?rev = "\<lambda>src. src\<lparr>s_pollfd := (s_pollfd src)\<lparr>pf_revents := POLLOUT\<rparr>\<rparr>"
  let ?quiet = "\<lambda>src. src\<lparr>s_pollfd := (s_pollfd src)\<lparr>pf_events := pf_events (s_pollfd src) AND NOT POLLOUT\<rparr>\<rparr>"
  let ?s1 = "upd_source i ?rev st"
  let ?wbuf = "ts_wbuf (tw_sock st)"
  let ?s2 = "?s1\<lparr>tw_sock := (tw_sock st)\<lparr>ts_wbuf := drop n ?wbuf\<rparr>, tw_sent := tw_sent st @ take n ?wbuf\<rparr>"
  have i: "i < length (sources st)" and fd: "0 \<le> ch_fd (ts_chan (tw_sock st))" using assms by (simp_all add: tcp_ready_def)
  have at1: "src_at ?s1 i = ?rev (src_at st i)" using i src_at_upd [of i ?rev st i] by simp
  have at2: "src_at ?s2 i = ?rev (src_at st i)" using at1 by (simp add: src_at_def)
  have rt2: "sys_retrieve tag ?s2 = sys_retrieve tag st" for tag
    using sys_retrieve_upd [of ?rev tag i st] by (simp add: sys_retrieve_def)
  have rt3: "sys_retrieve tag (upd_source i ?quiet ?s2) = sys_retrieve tag st" for tag
    using sys_retrieve_upd [of ?quiet tag i ?s2] rt2 [of tag] by simp
  have at3: "src_at (upd_source i ?quiet ?s2) i = ?quiet (?rev (src_at st i))"
    using src_at_upd [of i ?quiet ?s2 i] i at2 by simp
  have cb: "sys_callback (flush_call n) i ?s1 = sys_call_io (flush_call n) i ''io_channel_event'' ?s1"
    using assms at1
    by (simp add: tcp_ready_def sys_callback_def sys_dispatch_def sys_call_io_def POLLOUT_not_read Let_def
        split: prod.split)
  have fl: "flush_call n ''tcp_sock_write_event'' a ev ?s1 = (if drop n ?wbuf \<noteq> [] then 1 else 0, ?s2)"
    for a ev
    using fd
    by (cases "?wbuf = []") (auto simp: flush_call_def tcp_sock_write_event_def io_channel_write_async_def Let_def min_def)
  have w: "s_wfunc (src_at st i) = Some ''tcp_sock_write_event''"
    using assms wants by (simp add: tcp_ready_def)
  have "snd (sys_call_io (flush_call n) i ''io_channel_event'' ?s1) =
      (if drop n ?wbuf \<noteq> [] then ?s2 else upd_source i ?quiet ?s2)"
    using at1 fl w by (simp add: sys_call_io_def POLLOUT_not_read)
  then have r: "tcp_run i st (Tcp_writable n) = (if drop n ?wbuf \<noteq> [] then ?s2 else upd_source i ?quiet ?s2)"
    using wants cb by (simp add: tcp_run_def)
  show ?thesis
    unfolding r using assms wants w at2 at3 rt2 rt3
    by (auto simp: tcp_ready_def wants_output_def)
qed

lemma tcp_ready_run:
  "tcp_ready i st \<Longrightarrow> tcp_ready i (foldl (tcp_run i) st steps) \<and>
   tw_sent (foldl (tcp_run i) st steps) @ ts_wbuf (tw_sock (foldl (tcp_run i) st steps)) =
     tw_sent st @ ts_wbuf (tw_sock st) @ written steps"
proof (induction steps arbitrary: st)
  case (Cons step steps)
  then show ?case
    using tcp_write_step [OF Cons.prems] tcp_flush_step [OF Cons.prems]
    by (cases step) (simp_all add: append_assoc [symmetric] del: append_assoc)
qed simp

text \<open>
  C11: What the kernel has taken from a connected socket, followed by what waits in its buffer,
  is exactly what the program wrote to it, in order, whatever the sizes of the partial writes;
  and as long as something waits, the event loop polls the socket for output with the function
  that sends it, so no output is left behind.
\<close>

theorem tcp_output_stream:
  assumes "tcp_ready i st" "ts_wbuf (tw_sock st) = []" "tw_sent st = []"
  shows "let st' = foldl (tcp_run i) st steps
     in tw_sent st' @ ts_wbuf (tw_sock st') = written steps \<and>
        (ts_wbuf (tw_sock st') \<noteq> [] \<longrightarrow>
           wants_output i st' \<and> s_wfunc (src_at st' i) = Some ''tcp_sock_write_event'')"
  using tcp_ready_run [OF assms(1), of steps] assms(2,3) by (simp add: tcp_ready_def Let_def)

definition tcp_demo :: tcp_world where
  \<comment> \<open>a socket just set up on descriptor 5\<close>
  "tcp_demo =
     (let st = sys_state.extend sys_start \<lparr>tw_sock = tcp_sock_zero, tw_sent = []\<rparr>
      in case tcp_sock_setup 0 5 None None (tcp_sock_zero, st) of (sock, st) \<Rightarrow> st\<lparr>tw_sock := sock\<rparr>)"

lemma tcp_demo_ready: "tcp_ready 0 tcp_demo" "ts_wbuf (tw_sock tcp_demo) = []" "tw_sent tcp_demo = []"
proof -
  let ?st = "sys_state.extend sys_start \<lparr>tw_sock = tcp_sock_zero, tw_sent = []\<rparr> :: tcp_world"
  let ?src = "\<lparr>s_tag = 1, s_func = Some ''io_channel_event'', s_wfunc = None, s_arg = Some 0, s_type = SYS_TYPE_IO,
    s_pollfd = \<lparr>pf_fd = 5, pf_events = POLL_READ, pf_revents = 0\<rparr>, s_poll = False, s_delay = 0, s_t = 0,
    s_pid = 0, s_status = 0\<rparr> :: (string, nat) sys_source"
  have s: "sources ?st = sys_source_clear # replicate 255 sys_source_clear" "last_tag ?st = 0"
    by (simp_all add: sys_start_def sys_state.defs NSOURCES_def replicate_Suc [symmetric] del: replicate_Suc)
  have nf: "sys_retrieve_fd 5 ?st = None"
    by (simp add: sys_retrieve_fd_def s find_index_None_iff) (simp add: sys_source_clear_def)
  have ad: "sys_source_add f a ?st = (Some 0, ?st\<lparr>sources :=
      sys_source_clear\<lparr>s_tag := 1, s_func := f, s_arg := a\<rparr> # replicate 255 sys_source_clear, last_tag := 1\<rparr>)" for f a
    by (simp add: sys_source_add_def s upd_source_def map_nth_def Let_def) (simp add: sys_source_clear_def)
  have d: "tcp_demo = ?st\<lparr>sources := ?src # replicate 255 sys_source_clear, last_tag := 1,
      tw_sock := tcp_sock_zero\<lparr>ts_chan := \<lparr>ch_fd = 5, ch_tag = 1, ch_func = Some ''tcp_sock_read_event'', ch_data = None\<rparr>,
        ts_func := None, ts_data := None\<rparr>\<rparr>"
    unfolding tcp_demo_def Let_def
    by (simp add: nf ad tcp_sock_setup_def io_channel_setup_def sys_io_watch_def sys_io_source_add_def
        with_source_def upd_source_def map_nth_def Let_def) (simp add: sys_source_clear_def)
  show "tcp_ready 0 tcp_demo" "ts_wbuf (tw_sock tcp_demo) = []" "tw_sent tcp_demo = []"
    unfolding d
    by (simp_all add: tcp_ready_def wants_output_def src_at_def sys_retrieve_def POLLOUT_not_read tcp_sock_zero_def
        tcp_sock_clear_def sys_state.defs)
qed

theorem tcp_output_stream_witness:
  "let st' = foldl (tcp_run 0) tcp_demo [Tcp_write ''set a=1'', Tcp_writable 3, Tcp_write [LF], Tcp_writable 4]
   in tw_sent st' @ ts_wbuf (tw_sock st') = ''set a=1'' @ [LF]"
  using tcp_output_stream [OF tcp_demo_ready, of "[Tcp_write ''set a=1'', Tcp_writable 3, Tcp_write [LF], Tcp_writable 4]"]
  by (simp add: Let_def)

lemma shutdown_all_socks:
  "fst (shutdown_all ds st) = map (\<lambda>d. d\<lparr>ts_chan := io_channel_clear, ts_wbuf := []\<rparr>) ds"
  by (induction ds arbitrary: st) (simp_all add: tcp_sock_shutdown_def io_channel_close_def case_prod_beta)

lemma tcp_srv_shutdown_closed:
  "d \<in> insert (srv_csock (fst (tcp_srv_shutdown s))) (set (srv_dsock (fst (tcp_srv_shutdown s)))) \<Longrightarrow>
     \<not> tcp_sock_is_connected d \<and> ts_wbuf d = []"
  "length (srv_dsock (fst (tcp_srv_shutdown s))) = length (srv_dsock (fst s))"
  "srv_func (fst (tcp_srv_shutdown s)) = None"
  by (auto simp: tcp_srv_shutdown_def case_prod_beta shutdown_all_socks tcp_sock_shutdown_def io_channel_close_def
      tcp_sock_is_connected_def io_channel_clear_def)

text \<open>
  A client that connects while all the client slots of the server are taken is not only
  refused: the server is shut down, all its clients are disconnected and their pending output
  is dropped.
\<close>

theorem tcp_refusal_disconnects_all:
  assumes "\<forall>d\<in>set (srv_dsock srv). tcp_sock_is_connected d"
  shows "case tcp_srv_csock_event ref (Some fd) (srv, st) of (ret, srv', st') \<Rightarrow>
     ret = 0 \<and> length (srv_dsock srv') = length (srv_dsock srv) \<and> srv_func srv' = None \<and>
     (\<forall>d\<in>insert (srv_csock srv') (set (srv_dsock srv')). \<not> tcp_sock_is_connected d \<and> ts_wbuf d = [])"
proof -
  have "find_index (\<lambda>d. ch_fd (ts_chan d) < 0) (srv_dsock srv) = None"
    using assms by (auto simp: find_index_None_iff tcp_sock_is_connected_def)
  then have "tcp_srv_csock_event ref (Some fd) (srv, st) = (0, tcp_srv_shutdown (srv, st))"
    by (simp add: tcp_srv_csock_event_def tcp_srv_csock_accept_def)
  then show ?thesis
    using tcp_srv_shutdown_closed(1) [where s = "(srv, st)"]
    by (simp add: case_prod_beta tcp_srv_shutdown_closed(2,3))
qed

definition busy_sock :: "nat tcp_sock" where
  "busy_sock = tcp_sock_zero\<lparr>ts_chan := io_channel_clear\<lparr>ch_fd := 7\<rparr>\<rparr>"

theorem tcp_refusal_disconnects_all_witness:
  "srv_dsock (fst (snd (tcp_srv_csock_event (\<lambda>k. k) (Some 9)
     (tcp_srv_clear\<lparr>srv_dsock := replicate TCP_SRV_MAX_CLIENTS busy_sock\<rparr>, sys_start :: (string, nat) sys_state)))) ! 0
   \<noteq> busy_sock"
proof -
  let ?srv = "tcp_srv_clear\<lparr>srv_dsock := replicate TCP_SRV_MAX_CLIENTS busy_sock\<rparr>"
  let ?r = "tcp_srv_csock_event (\<lambda>k. k) (Some 9) (?srv, sys_start :: (string, nat) sys_state)"
  have b: "tcp_sock_is_connected busy_sock" by (simp add: busy_sock_def tcp_sock_is_connected_def)
  have "length (srv_dsock (fst (snd ?r))) = TCP_SRV_MAX_CLIENTS \<and>
      (\<forall>d\<in>set (srv_dsock (fst (snd ?r))). \<not> tcp_sock_is_connected d)"
    using tcp_refusal_disconnects_all [where srv = ?srv and ref = "\<lambda>k. k" and fd = 9 and st = "sys_start :: (string, nat) sys_state"] b
    by (simp add: case_prod_beta)
  moreover have "0 < TCP_SRV_MAX_CLIENTS" by (simp add: TCP_SRV_MAX_CLIENTS_def)
  ultimately show ?thesis using b by (metis nth_mem)
qed

end
