(* ===== verification/Hk_Hkcp.thy ===== *)
theory Hk_Hkcp
  imports Hk_Endpoint Hk_Io Hk_Command
begin

text \<open>
  \<^verbatim>\<open>core/hkcp.c\<close>: the client side of the HAKit connectivity protocol (nodes discovered on the
  network, their connection, the exchange of sink names, the sending of source values) and the
  events sent to the watchers of the server. A node is referred to by its index in the table
  of nodes; the outcome of \<open>connect\<close> is an argument. \<open>None\<close> is an access to a freed node.
  The C strings the code formats are cut as \<open>snprintf\<close> cuts them.
\<close>

section \<open>State\<close>

definition HKCP_NODE_CONNECT_RETRIES :: nat where "HKCP_NODE_CONNECT_RETRIES = 4"

datatype hkcp_node_state = HKCP_NODE_IDLE | HKCP_NODE_CONNECT | HKCP_NODE_SINKS | HKCP_NODE_READY

record hkcp_node =
  hn_id :: nat
  hn_name :: string
  hn_sock :: "nat tcp_sock"
  hn_state :: hkcp_node_state
  hn_attempts :: nat
  hn_tag :: sys_tag
  hn_sources :: "nat list"
  hn_rbuf :: string

record hkcp_ctx =
  cx_cmd :: command
  cx_watch :: bool

record ('c, 'h) hkcp_state = "('c, 'h) hk_ep_state" +
  hkcp_port :: int
  hkcp_srv :: "hkcp_ctx tcp_srv"
  hkcp_nodes :: "hkcp_node option list"

type_synonym ('c, 'h, 'z) hkc = "('c, 'h, 'z) hkcp_state_scheme"

abbreviation node_at :: "('c, 'h, 'z) hkc \<Rightarrow> nat \<Rightarrow> hkcp_node" where
  "node_at st k \<equiv> the (hkcp_nodes st ! k)"

definition node_exists :: "nat \<Rightarrow> ('c, 'h, 'z) hkc \<Rightarrow> bool" where
  "node_exists k st \<longleftrightarrow> k < length (hkcp_nodes st) \<and> hkcp_nodes st ! k \<noteq> None"

definition upd_node :: "nat \<Rightarrow> (hkcp_node \<Rightarrow> hkcp_node) \<Rightarrow> ('c, 'h, 'z) hkc \<Rightarrow> ('c, 'h, 'z) hkc" where
  "upd_node k g st = st\<lparr>hkcp_nodes := map_nth k (map_option g) (hkcp_nodes st)\<rparr>"

definition node_ref :: "nat \<Rightarrow> nat" where "node_ref k = 2 * k"
definition client_ref :: "nat \<Rightarrow> nat" where "client_ref d = 2 * d + 1"

definition node_sock ::
    "nat \<Rightarrow> (nat tcp_sock \<times> ('c, 'h, 'z) hkc \<Rightarrow> nat tcp_sock \<times> ('c, 'h, 'z) hkc) \<Rightarrow> ('c, 'h, 'z) hkc
      \<Rightarrow> ('c, 'h, 'z) hkc" where
  \<comment> \<open>an operation on the socket of a node\<close>
  "node_sock k f st =
     (case f (hn_sock (node_at st k), st) of (sock, st) \<Rightarrow> upd_node k (\<lambda>n. n\<lparr>hn_sock := sock\<rparr>) st)"

section \<open>Nodes\<close>

definition hkcp_node_source_attached :: "nat option \<Rightarrow> hkcp_node \<Rightarrow> nat" where
  "hkcp_node_source_attached source node =
     length (filter (\<lambda>s. source = None \<or> source = Some s) (hn_sources node))"

definition hkcp_node_source_attach :: "nat \<Rightarrow> hkcp_node \<Rightarrow> hkcp_node" where
  "hkcp_node_source_attach source node =
     (if 0 < hkcp_node_source_attached (Some source) node then node
      else node\<lparr>hn_sources := hn_sources node @ [source]\<rparr>)"

definition hkcp_node_retrieve :: "string \<Rightarrow> ('c, 'h, 'z) hkc \<Rightarrow> nat option" where
  "hkcp_node_retrieve name st =
     find_index (\<lambda>e. case e of None \<Rightarrow> False | Some n \<Rightarrow> hn_name n = name) (hkcp_nodes st)"

definition hkcp_node_alloc :: "string \<Rightarrow> ('c, 'h, 'z) hkc \<Rightarrow> nat \<times> ('c, 'h, 'z) hkc" where
  \<comment> \<open>with the name the only caller sets\<close>
  "hkcp_node_alloc name st =
     (let i = (case find_index (\<lambda>e. e = None) (hkcp_nodes st) of Some i \<Rightarrow> i | None \<Rightarrow> length (hkcp_nodes st));
          node = \<lparr>hn_id = i, hn_name = name, hn_sock = tcp_sock_zero, hn_state = HKCP_NODE_IDLE,
                  hn_attempts = 0, hn_tag = 0, hn_sources = [], hn_rbuf = []\<rparr>
      in (i, st\<lparr>hkcp_nodes := (if i < length (hkcp_nodes st) then (hkcp_nodes st)[i := Some node]
                               else hkcp_nodes st @ [Some node])\<rparr>))"

definition hkcp_node_set_state :: "nat \<Rightarrow> hkcp_node_state \<Rightarrow> ('c, 'h, 'z) hkc \<Rightarrow> ('c, 'h, 'z) hkc" where
  "hkcp_node_set_state k state st = upd_node k (\<lambda>n. n\<lparr>hn_state := state, hn_rbuf := []\<rparr>) st"

definition hkcp_node_remove :: "nat \<Rightarrow> ('c, 'h, 'z) hkc \<Rightarrow> ('c, 'h, 'z) hkc" where
  "hkcp_node_remove k st =
     (let node = node_at st k;
          st = (if hn_tag node \<noteq> 0 then sys_remove (hn_tag node) st else st);
          st = snd (tcp_sock_shutdown (tcp_sock_set_data None (hn_sock node), st))
      in st\<lparr>hkcp_nodes := (hkcp_nodes st)[k := None]\<rparr>)"

definition hkcp_node_connect :: "int option \<Rightarrow> nat \<Rightarrow> ('c, 'h, 'z) hkc \<Rightarrow> int \<times> ('c, 'h, 'z) hkc" where
  \<comment> \<open>\<open>fd\<close>: the descriptor of the connection, if the host accepts it\<close>
  "hkcp_node_connect fd k st =
     (let st = upd_node k (\<lambda>n. n\<lparr>hn_attempts := hn_attempts n + 1\<rparr>) st;
          st = hkcp_node_set_state k HKCP_NODE_CONNECT st
      in case tcp_sock_connect fd (node_ref k) (Some ''hkcp_node_event'') (Some k) (hn_sock (node_at st k), st) of
           (ret, sock, st) \<Rightarrow>
             let st = upd_node k (\<lambda>n. n\<lparr>hn_sock := sock\<rparr>) st
             in if 0 < ret then
                  (0, node_sock k (tcp_sock_write (''sinks'' @ [LF]))
                        (hkcp_node_set_state k HKCP_NODE_SINKS (upd_node k (\<lambda>n. n\<lparr>hn_tag := 0\<rparr>) st)))
                else if HKCP_NODE_CONNECT_RETRIES < hn_attempts (node_at st k) then
                  (0, hkcp_node_remove k (upd_node k (\<lambda>n. n\<lparr>hn_tag := 0\<rparr>) st))
                else if hn_tag (node_at st k) = 0 then
                  (case sys_timeout (hk_clock st) 5000 (Some ''hkcp_node_connect'') (Some k) st of (tag, st) \<Rightarrow>
                     (1, upd_node k (\<lambda>n. n\<lparr>hn_tag := tag\<rparr>) st))
                else (1, st))"

definition hkcp_node_connect_first :: "int option \<Rightarrow> nat \<Rightarrow> ('c, 'h, 'z) hkc \<Rightarrow> int \<times> ('c, 'h, 'z) hkc" where
  "hkcp_node_connect_first fd k st =
     (0, snd (hkcp_node_connect fd k (upd_node k (\<lambda>n. n\<lparr>hn_tag := 0, hn_attempts := 0\<rparr>) st)))"

definition hkcp_node_add :: "string \<Rightarrow> ('c, 'h, 'z) hkc \<Rightarrow> ('c, 'h, 'z) hkc" where
  "hkcp_node_add remote_ip st =
     (if hkcp_port st \<le> 0 then st
      else if hk_source_to_advertise st = 0 then st
      else
        let (k, st) = (case hkcp_node_retrieve remote_ip st of
                         Some k \<Rightarrow> (k, st) | None \<Rightarrow> hkcp_node_alloc remote_ip st)
        in if \<not> tcp_sock_is_connected (hn_sock (node_at st k)) \<and> hn_tag (node_at st k) = 0 then
             (case sys_timeout (hk_clock st) 10 (Some ''hkcp_node_connect_first'') (Some k) st of (tag, st) \<Rightarrow>
                upd_node k (\<lambda>n. n\<lparr>hn_tag := tag\<rparr>) st)
           else st)"

definition hkcp_node_dump :: "nat option \<Rightarrow> ('c, 'h, 'z) hkc \<Rightarrow> string \<Rightarrow> string" where
  "hkcp_node_dump source st out_buf =
     foldl (\<lambda>out e. case e of
              None \<Rightarrow> out
            | Some n \<Rightarrow> if source = None \<or> 0 < hkcp_node_source_attached source n
                        then out @ '' '' @ hn_name n else out)
       out_buf (hkcp_nodes st)"

definition set_command :: "('c, 'h, 'z) hkc \<Rightarrow> hk_ep \<Rightarrow> string" where
  \<comment> \<open>\<open>set <name>=<value>\<close>\<close>
  "set_command st ep = ''set '' @ hk_ep_get_name st ep @ ''='' @ ep_value ep"

definition hkcp_node_send_initial_value :: "nat \<Rightarrow> nat \<Rightarrow> ('c, 'h, 'z) hkc \<Rightarrow> ('c, 'h, 'z) hkc" where
  "hkcp_node_send_initial_value k source st =
     (if hk_source_is_event source st then st
      else if 0 < hkcp_node_source_attached (Some source) (node_at st k) then
        let ep = so_ep (source_at st source);
            sz = length (hk_ep_get_name st ep) + length (ep_value ep) + 10
        in node_sock k (tcp_sock_write (snprintf (sz - 1) (set_command st ep) @ [LF])) st
      else st)"

definition hkcp_node_recv_sinks :: "nat \<Rightarrow> string \<Rightarrow> ('c, 'h, 'z) hkc \<Rightarrow> ('c, 'h, 'z) hkc" where
  "hkcp_node_recv_sinks k str st =
     (if str \<noteq> [] \<and> hd str = CHR ''.'' then
        if 0 < hkcp_node_source_attached None (node_at st k)
        then hkcp_node_set_state k HKCP_NODE_READY st
        else hkcp_node_remove k st
      else
        case hk_source_retrieve_by_name (takeWhile (\<lambda>c. c \<noteq> SP) str) st of
          None \<Rightarrow> st
        | Some source \<Rightarrow>
            if hk_source_is_public source st
            then hkcp_node_send_initial_value k source (upd_node k (hkcp_node_source_attach source) st)
            else st)"

definition hkcp_node_recv_line :: "nat \<Rightarrow> string \<Rightarrow> ('c, 'h, 'z) hkc \<Rightarrow> ('c, 'h, 'z) hkc" where
  "hkcp_node_recv_line k str st =
     (case hn_state (node_at st k) of
        HKCP_NODE_SINKS \<Rightarrow> hkcp_node_recv_sinks k str st
      | _ \<Rightarrow> st)"

definition node_line :: "nat \<Rightarrow> string \<Rightarrow> ('c, 'h, 'z) hkc \<Rightarrow> ('c, 'h, 'z) hkc" where
  \<comment> \<open>a complete line, after what was kept of it; the code goes on with a C string\<close>
  "node_line k seg st =
     (let line = hn_rbuf (node_at st k) @ seg;
          st = upd_node k (\<lambda>n. n\<lparr>hn_rbuf := []\<rparr>) st
      in if line \<noteq> [] then hkcp_node_recv_line k (cstr line) st else st)"

function hkcp_node_recv :: "nat \<Rightarrow> string \<Rightarrow> ('c, 'h, 'z) hkc \<Rightarrow> (('c, 'h, 'z) hkc) option" where
  \<comment> \<open>the rest of the data; a node removed by a line must not be used for what follows\<close>
  "hkcp_node_recv k rest st =
     (if rest = [] then Some st
      else if \<not> node_exists k st then None
      else
        let seg = takeWhile (\<lambda>c. c \<noteq> LF) rest; after = dropWhile (\<lambda>c. c \<noteq> LF) rest
        in case after of
             [] \<Rightarrow> Some (upd_node k (\<lambda>n. n\<lparr>hn_rbuf := hn_rbuf n @ seg\<rparr>) st)
           | _ # after \<Rightarrow> hkcp_node_recv k after (node_line k seg st))"
  by pat_completeness auto
termination
proof (relation "measure (\<lambda>(k, rest, st). length rest)", simp, goal_cases)
  case (1 k rest st seg after c tl)
  then have "length (c # tl) \<le> length rest" by (metis length_dropWhile_le)
  then show ?case by simp
qed

declare hkcp_node_recv.simps [simp del]

definition hkcp_node_event :: "int option \<Rightarrow> nat \<Rightarrow> tcp_io \<Rightarrow> ('c, 'h, 'z) hkc \<Rightarrow> (('c, 'h, 'z) hkc) option" where
  "hkcp_node_event fd k io st =
     (case io of
        TCP_IO_CONNECT addr \<Rightarrow> Some st
      | TCP_IO_DATA rbuf \<Rightarrow> hkcp_node_recv k rbuf st
      | TCP_IO_HUP \<Rightarrow>
          Some (snd (hkcp_node_connect fd k
            (upd_node k (\<lambda>n. n\<lparr>hn_attempts := 0\<rparr>) (hkcp_node_set_state k HKCP_NODE_IDLE st)))))"

section \<open>Sending the value of a source\<close>

definition hkcp_source_send_nodes :: "nat \<Rightarrow> string \<Rightarrow> ('c, 'h, 'z) hkc \<Rightarrow> ('c, 'h, 'z) hkc" where
  "hkcp_source_send_nodes source str st =
     foldl (\<lambda>st k. case hkcp_nodes st ! k of
              None \<Rightarrow> st
            | Some n \<Rightarrow> if 0 < hkcp_node_source_attached (Some source) n
                        then node_sock k (tcp_sock_write str) st else st)
       st [0..<length (hkcp_nodes st)]"

definition hkcp_source_send_watch ::
    "string \<Rightarrow> ('c, 'h, 'z) hkc \<Rightarrow> hkcp_ctx tcp_sock \<Rightarrow> ('c, 'h, 'z) hkc \<times> hkcp_ctx tcp_sock" where
  "hkcp_source_send_watch str st sock =
     (if (case ts_data sock of None \<Rightarrow> False | Some ctx \<Rightarrow> cx_watch ctx)
      then case tcp_sock_write str (sock, st) of (sock, st) \<Rightarrow> (st, sock)
      else (st, sock))"

definition watch_event :: "nat \<Rightarrow> ('c, 'h, 'z) hkc \<Rightarrow> string" where
  \<comment> \<open>the event for the watchers; the size of the buffer does not count the name of the tile\<close>
  "watch_event source st =
     (let ep = so_ep (source_at st source); name = hk_ep_get_name st ep; val = hk_ep_get_value ep;
          sz = length name + length val + 20
      in snprintf sz
           (if 1 < hk_tile_nmemb st
            then ''!'' @ hk_ep_get_tile_name st ep @ ''.'' @ name @ ''='' @ val @ [LF]
            else ''!'' @ name @ ''='' @ val @ [LF]))"

definition hkcp_source_update :: "nat \<Rightarrow> ('c, 'h, 'z) hkc \<Rightarrow> ('c, 'h, 'z) hkc" where
  "hkcp_source_update source st =
     (let ep = so_ep (source_at st source);
          sz = length (hk_ep_get_name st ep) + length (hk_ep_get_value ep) + 20;
          event = watch_event source st;
          st = hkcp_source_send_nodes source (snprintf (sz - 1) (set_command st ep) @ [LF]) st;
          (st, socks) = tcp_srv_foreach_client (hkcp_source_send_watch event) st (srv_dsock (hkcp_srv st))
      in st\<lparr>hkcp_srv := (hkcp_srv st)\<lparr>srv_dsock := socks\<rparr>\<rparr>)"

section \<open>Field lemmas\<close>

lemma upd_node_simps [simp]:
  "hk_sinks (upd_node k g st) = hk_sinks st" "hk_sources (upd_node k g st) = hk_sources st"
  "objs (upd_node k g st) = objs st" "tiles (upd_node k g st) = tiles st"
  "tile_tab (upd_node k g st) = tile_tab st" "opt_full_name (upd_node k g st) = opt_full_name st"
  "hkcp_srv (upd_node k g st) = hkcp_srv st" "hkcp_port (upd_node k g st) = hkcp_port st"
  "length (hkcp_nodes (upd_node k g st)) = length (hkcp_nodes st)" "sources (upd_node k g st) = sources st"
  "hk_clock (upd_node k g st) = hk_clock st"
  by (simp_all add: upd_node_def)

lemma nodes_upd_node:
  "hkcp_nodes (upd_node k g st) ! j =
     (if k = j \<and> j < length (hkcp_nodes st) then map_option g (hkcp_nodes st ! j) else hkcp_nodes st ! j)"
  by (cases "k = j") (auto simp: upd_node_def map_nth_def list_update_beyond not_less)

lemma node_exists_upd [simp]: "node_exists j (upd_node k g st) = node_exists j st"
  by (auto simp: node_exists_def nodes_upd_node)

lemma node_at_upd: "node_exists j st \<Longrightarrow> node_at (upd_node k g st) j = (if k = j then g (node_at st j) else node_at st j)"
  by (auto simp: node_exists_def nodes_upd_node)

lemma upd_source_nodes [simp]:
  "hkcp_nodes (upd_source i g st) = hkcp_nodes st" "hk_sources (upd_source i g st) = hk_sources st"
  "hk_sinks (upd_source i g st) = hk_sinks st" "objs (upd_source i g st) = objs st"
  "tiles (upd_source i g st) = tiles st" "tile_tab (upd_source i g st) = tile_tab st"
  "hkcp_srv (upd_source i g st) = hkcp_srv st" "hkcp_port (upd_source i g st) = hkcp_port st"
  "opt_full_name (upd_source i g st) = opt_full_name st"
  for st :: "('c, 'h, 'z) hkc"
  by (simp_all add: upd_source_def)

lemma write_handler_fields [simp]:
  "hkcp_nodes (snd (sys_io_write_handler tag w st)) = hkcp_nodes st"
  "hk_sources (snd (sys_io_write_handler tag w st)) = hk_sources st"
  "hk_sinks (snd (sys_io_write_handler tag w st)) = hk_sinks st"
  "objs (snd (sys_io_write_handler tag w st)) = objs st" "tiles (snd (sys_io_write_handler tag w st)) = tiles st"
  "tile_tab (snd (sys_io_write_handler tag w st)) = tile_tab st"
  "hkcp_srv (snd (sys_io_write_handler tag w st)) = hkcp_srv st"
  "opt_full_name (snd (sys_io_write_handler tag w st)) = opt_full_name st"
  for st :: "('c, 'h, 'z) hkc"
  by (simp_all add: sys_io_write_handler_def split: option.split)

lemma tcp_write_fields [simp]:
  "hkcp_nodes (snd (tcp_sock_write buf (sock, st))) = hkcp_nodes st"
  "hk_sources (snd (tcp_sock_write buf (sock, st))) = hk_sources st"
  "hk_sinks (snd (tcp_sock_write buf (sock, st))) = hk_sinks st"
  "objs (snd (tcp_sock_write buf (sock, st))) = objs st" "tiles (snd (tcp_sock_write buf (sock, st))) = tiles st"
  "tile_tab (snd (tcp_sock_write buf (sock, st))) = tile_tab st"
  "hkcp_srv (snd (tcp_sock_write buf (sock, st))) = hkcp_srv st"
  "opt_full_name (snd (tcp_sock_write buf (sock, st))) = opt_full_name st"
  for st :: "('c, 'h, 'z) hkc"
  by (simp_all add: tcp_sock_write_def Let_def)

lemma fst_tcp_write: "fst (tcp_sock_write buf (sock, st)) = sock\<lparr>ts_wbuf := ts_wbuf sock @ buf\<rparr>"
  by (simp add: tcp_sock_write_def Let_def)

lemma node_write_fields [simp]:
  "hk_sources (node_sock k (tcp_sock_write buf) st) = hk_sources st"
  "hk_sinks (node_sock k (tcp_sock_write buf) st) = hk_sinks st"
  "objs (node_sock k (tcp_sock_write buf) st) = objs st" "tiles (node_sock k (tcp_sock_write buf) st) = tiles st"
  "tile_tab (node_sock k (tcp_sock_write buf) st) = tile_tab st"
  "hkcp_srv (node_sock k (tcp_sock_write buf) st) = hkcp_srv st"
  "length (hkcp_nodes (node_sock k (tcp_sock_write buf) st)) = length (hkcp_nodes st)"
  "node_exists j (node_sock k (tcp_sock_write buf) st) = node_exists j st"
  by (simp_all add: node_sock_def case_prod_beta node_exists_def nodes_upd_node)

lemma node_at_write:
  "node_exists j st \<Longrightarrow> node_at (node_sock k (tcp_sock_write buf) st) j =
     (if j = k then (node_at st j)\<lparr>hn_sock := (hn_sock (node_at st j))\<lparr>ts_wbuf := ts_wbuf (hn_sock (node_at st j)) @ buf\<rparr>\<rparr>
      else node_at st j)"
  by (auto simp: node_sock_def case_prod_beta node_exists_def nodes_upd_node fst_tcp_write)

section \<open>Lines from a node\<close>

lemma attach_rbuf [simp]: "hn_rbuf (hkcp_node_source_attach i n) = hn_rbuf n"
  by (simp add: hkcp_node_source_attach_def)

lemma send_initial_rbuf:
  "node_exists k st \<Longrightarrow> hn_rbuf (node_at (hkcp_node_send_initial_value k i st) k) = hn_rbuf (node_at st k)"
  by (simp add: hkcp_node_send_initial_value_def Let_def node_at_write)

lemma remove_gone [simp]: "\<not> node_exists k (hkcp_node_remove k st)"
  by (simp add: hkcp_node_remove_def Let_def node_exists_def)

lemma recv_sinks_rbuf:
  assumes "hn_rbuf (node_at st k) = []" "node_exists k st" "node_exists k (hkcp_node_recv_sinks k str st)"
  shows "hn_rbuf (node_at (hkcp_node_recv_sinks k str st) k) = []"
proof (cases "str \<noteq> [] \<and> hd str = CHR ''.''")
  case True
  then show ?thesis using assms
    by (simp add: hkcp_node_recv_sinks_def hkcp_node_set_state_def node_at_upd split: if_splits)
next
  case False
  show ?thesis
    unfolding hkcp_node_recv_sinks_def if_not_P [OF False]
    using assms(1,2) by (simp add: send_initial_rbuf node_at_upd split: option.split)
qed

lemma recv_line_rbuf:
  assumes "hn_rbuf (node_at st k) = []" "node_exists k st" "node_exists k (hkcp_node_recv_line k str st)"
  shows "hn_rbuf (node_at (hkcp_node_recv_line k str st) k) = []"
  using assms recv_sinks_rbuf by (cases "hn_state (node_at st k)") (simp_all add: hkcp_node_recv_line_def)

lemma hkcp_node_recv_Nil [simp]: "hkcp_node_recv k [] st = Some st"
  by (subst hkcp_node_recv.simps) simp

lemma hkcp_node_recv_gone: "\<not> node_exists k st \<Longrightarrow> cs \<noteq> [] \<Longrightarrow> hkcp_node_recv k cs st = None"
  by (subst hkcp_node_recv.simps) simp

definition node_byte :: "nat \<Rightarrow> ('c, 'h, 'z) hkc \<Rightarrow> char \<Rightarrow> (('c, 'h, 'z) hkc) option" where
  "node_byte k st c =
     (if \<not> node_exists k st then None
      else if c = LF then Some (node_line k [] st)
      else Some (upd_node k (\<lambda>n. n\<lparr>hn_rbuf := hn_rbuf n @ [c]\<rparr>) st))"

lemma upd_node_twice: "upd_node k g (upd_node k h st) = upd_node k (\<lambda>n. g (h n)) st"
proof -
  have "map_nth k (map_option g) (map_nth k (map_option h) xs) = map_nth k (map_option (\<lambda>n. g (h n))) xs"
    for xs :: "hkcp_node option list"
    unfolding map_nth_twice by (rule map_nth_cong) (simp add: option.map_comp comp_def)
  then show ?thesis by (simp add: upd_node_def)
qed

lemma node_bytes_segment:
  "node_exists k st \<Longrightarrow> LF \<notin> set seg \<Longrightarrow>
   foldo (node_byte k) st seg = Some (upd_node k (\<lambda>n. n\<lparr>hn_rbuf := hn_rbuf n @ seg\<rparr>) st)"
proof (induction seg arbitrary: st)
  case Nil
  have "upd_node k (\<lambda>n. n) st = st" by (simp add: upd_node_def option.map_id0 [unfolded id_def] map_nth_def)
  then show ?case by simp
next
  case (Cons c seg)
  then have "node_byte k st c = Some (upd_node k (\<lambda>n. n\<lparr>hn_rbuf := hn_rbuf n @ [c]\<rparr>) st)"
    by (auto simp: node_byte_def)
  with Cons show ?case by (simp add: upd_node_twice)
qed

lemma node_line_append:
  "node_exists k st \<Longrightarrow> node_line k [] (upd_node k (\<lambda>n. n\<lparr>hn_rbuf := hn_rbuf n @ seg\<rparr>) st) = node_line k seg st"
  by (simp add: node_line_def node_at_upd upd_node_twice Let_def)

lemma hkcp_node_recv_bytes: "hkcp_node_recv k rest st = foldo (node_byte k) st rest"
proof (induction k rest st rule: hkcp_node_recv.induct)
  case (1 k rest st)
  let ?seg = "takeWhile (\<lambda>c. c \<noteq> LF) rest" and ?after = "dropWhile (\<lambda>c. c \<noteq> LF) rest"
  show ?case
  proof (cases "rest = [] \<or> \<not> node_exists k st")
    case True
    then show ?thesis by (cases rest) (auto simp: hkcp_node_recv_gone node_byte_def)
  next
    case False
    then have ex: "node_exists k st" and ne: "rest \<noteq> []" by auto
    have seg: "foldo (node_byte k) st ?seg = Some (upd_node k (\<lambda>n. n\<lparr>hn_rbuf := hn_rbuf n @ ?seg\<rparr>) st)"
      by (rule node_bytes_segment [OF ex]) (auto dest: set_takeWhileD)
    have split: "foldo (node_byte k) st rest =
        foldo (node_byte k) (upd_node k (\<lambda>n. n\<lparr>hn_rbuf := hn_rbuf n @ ?seg\<rparr>) st) ?after"
      using seg foldo_append [of "node_byte k" st ?seg ?after] by simp
    show ?thesis
    proof (cases ?after)
      case Nil
      then show ?thesis using split ex ne
        by (subst hkcp_node_recv.simps) (simp add: Let_def del: dropWhile_eq_Nil_conv)
    next
      case (Cons c after)
      then have c: "c = LF" using hd_dropWhile [of "\<lambda>c. c \<noteq> LF" rest] by simp
      have "hkcp_node_recv k rest st = hkcp_node_recv k after (node_line k ?seg st)"
        using Cons ex ne by (subst hkcp_node_recv.simps) (simp add: Let_def)
      also have "\<dots> = foldo (node_byte k) (node_line k ?seg st) after"
        using 1 [OF ne _ refl refl Cons] ex by simp
      also have "\<dots> = foldo (node_byte k) st rest"
        unfolding split Cons using c ex by (simp add: node_byte_def node_line_append)
      finally show ?thesis .
    qed
  qed
qed

lemma hkcp_node_recv_append:
  "hkcp_node_recv k (a @ b) st = Option.bind (hkcp_node_recv k a st) (hkcp_node_recv k b)"
  unfolding hkcp_node_recv_bytes foldo_append by (simp add: hkcp_node_recv_bytes)

definition node_pend :: "nat \<Rightarrow> (('c, 'h, 'z) hkc) option \<Rightarrow> string" where
  "node_pend k s = (case s of None \<Rightarrow> [] | Some st \<Rightarrow> if node_exists k st then hn_rbuf (node_at st k) else [])"

definition node_dispatch ::
    "nat \<Rightarrow> string \<Rightarrow> (('c, 'h, 'z) hkc) option \<Rightarrow> (('c, 'h, 'z) hkc) option" where
  "node_dispatch k l s = Option.bind s (\<lambda>st. if node_exists k st then Some (node_line k l st) else None)"

interpretation hkcp_node: line_reader "\<lambda>s cs. Option.bind s (hkcp_node_recv k cs)" "node_dispatch k" "node_pend k"
proof (unfold_locales, goal_cases)
  case (1 s a b)
  show ?case by (cases s) (simp_all add: hkcp_node_recv_append)
next
  case (2 s l)
  show ?case
  proof (cases s)
    case (Some st)
    show ?thesis
    proof (cases "node_exists k st")
      case True
      then show ?thesis
        using 2 Some node_bytes_segment [OF True, of l] node_line_append [OF True, of l]
        by (simp add: node_dispatch_def hkcp_node_recv_bytes foldo_append node_byte_def)
    qed (simp add: Some node_dispatch_def hkcp_node_recv_gone)
  qed (simp add: node_dispatch_def)
next
  case (3 s l)
  have "hn_rbuf (node_at (node_line k l st) k) = []" if "node_exists k st" "node_exists k (node_line k l st)" for st
    using that recv_line_rbuf [of "upd_node k (\<lambda>n. n\<lparr>hn_rbuf := []\<rparr>) st" k]
    by (auto simp: node_line_def Let_def node_at_upd split: if_splits)
  then show ?case by (auto simp: node_dispatch_def node_pend_def split: option.splits Option.bind_splits)
qed

section \<open>Properties\<close>

lemma foldo_bind: "foldl (\<lambda>s x. Option.bind s (f x)) s xs = Option.bind s (\<lambda>st. foldo (\<lambda>st x. f x st) st xs)"
proof (induction xs arbitrary: s)
  case (Cons x xs)
  then show ?case by (cases s) (simp_all add: Cons)
qed (cases s; simp)

text \<open>
  What a node makes of a stream of bytes does not depend on how the network cuts it; and
  a stream of complete lines has the effect of its lines, one by one, as long as the node is
  not removed: data that follows the line that removes it reaches freed memory.
\<close>

theorem hkcp_lines_chunking:
  "foldo (\<lambda>st c. hkcp_node_recv k c st) st cs = hkcp_node_recv k (concat cs) st \<and>
   (\<forall>ls. node_exists k st \<and> hn_rbuf (node_at st k) = [] \<and> (\<forall>l\<in>set ls. LF \<notin> set l) \<and> ls \<noteq> [] \<longrightarrow>
      hkcp_node_recv k (concat (map (\<lambda>l. l @ [LF]) ls)) st =
        foldo (\<lambda>st l. if node_exists k st then Some (node_line k l st) else None) st ls)"
proof (intro conjI allI impI)
  show "foldo (\<lambda>st c. hkcp_node_recv k c st) st cs = hkcp_node_recv k (concat cs) st"
    using hkcp_node.recv_chunks [where cs = cs and s = "Some st" and k = k] foldo_bind [of "hkcp_node_recv k" "Some st" cs]
    by (cases "cs = []") simp_all
  fix ls assume ls: "node_exists k st \<and> hn_rbuf (node_at st k) = [] \<and> (\<forall>l\<in>set ls. LF \<notin> set l) \<and> ls \<noteq> []"
  have "hkcp_node_recv k (concat (map (\<lambda>l. l @ [LF]) ls)) st = foldl (\<lambda>s l. node_dispatch k l s) (Some st) ls"
    using hkcp_node.recv_lines [where ls = ls and s = "Some st" and k = k] ls by (simp add: node_pend_def)
  also have "\<dots> = foldo (\<lambda>st l. if node_exists k st then Some (node_line k l st) else None) st ls"
    unfolding node_dispatch_def
    using foldo_bind [of "\<lambda>l st. if node_exists k st then Some (node_line k l st) else None" "Some st" ls] by simp
  finally show "hkcp_node_recv k (concat (map (\<lambda>l. l @ [LF]) ls)) st =
        foldo (\<lambda>st l. if node_exists k st then Some (node_line k l st) else None) st ls" .
qed

lemma sys_timeout_nodes [simp]:
  "hkcp_nodes (snd (sys_timeout now delay f a st)) = hkcp_nodes st" for st :: "('c, 'h, 'z) hkc"
  unfolding sys_timeout_def
  by (rule with_source_add_cases [of "\<lambda>src. src\<lparr>s_type := SYS_TYPE_TIMEOUT, s_delay := delay, s_t := delay + now\<rparr>" f a st])
    simp_all

lemma connect_fails:
  fixes st :: "('c, 'h, 'z) hkc"
  assumes "node_exists k st"
  shows "hn_attempts (node_at st k) < HKCP_NODE_CONNECT_RETRIES \<Longrightarrow>
      fst (hkcp_node_connect None k st) = 1 \<and> node_exists k (snd (hkcp_node_connect None k st)) \<and>
      hn_attempts (node_at (snd (hkcp_node_connect None k st)) k) = hn_attempts (node_at st k) + 1"
    "HKCP_NODE_CONNECT_RETRIES \<le> hn_attempts (node_at st k) \<Longrightarrow>
      fst (hkcp_node_connect None k st) = 0 \<and> \<not> node_exists k (snd (hkcp_node_connect None k st))"
proof -
  have x: "node_exists k (snd (sys_timeout now delay f a s)) = node_exists k s" for now delay f a and s :: "('c, 'h, 'z) hkc"
    by (simp add: node_exists_def)
  show "hn_attempts (node_at st k) < HKCP_NODE_CONNECT_RETRIES \<Longrightarrow>
      fst (hkcp_node_connect None k st) = 1 \<and> node_exists k (snd (hkcp_node_connect None k st)) \<and>
      hn_attempts (node_at (snd (hkcp_node_connect None k st)) k) = hn_attempts (node_at st k) + 1"
    using assms
    by (simp add: hkcp_node_connect_def tcp_sock_connect_def hkcp_node_set_state_def node_at_upd Let_def case_prod_beta x)
  show "HKCP_NODE_CONNECT_RETRIES \<le> hn_attempts (node_at st k) \<Longrightarrow>
      fst (hkcp_node_connect None k st) = 0 \<and> \<not> node_exists k (snd (hkcp_node_connect None k st))"
    using assms
    by (simp add: hkcp_node_connect_def tcp_sock_connect_def hkcp_node_set_state_def node_at_upd Let_def case_prod_beta x)
qed

text \<open>
  A node whose host never accepts the connection is tried five times (the first attempt
  and four retries): each of the first four failures asks the timer to go on, and the fifth
  stops it and removes the node.
\<close>

theorem hkcp_node_gives_up:
  assumes "node_exists k st" "hn_attempts (node_at st k) = 0"
  shows "let run = (\<lambda>n. ((\<lambda>st. snd (hkcp_node_connect None k st)) ^^ n) st)
     in (\<forall>n<5. node_exists k (run n) \<and> hn_attempts (node_at (run n) k) = n \<and>
           fst (hkcp_node_connect None k (run n)) = (if n < 4 then 1 else 0)) \<and>
        \<not> node_exists k (run 5)"
proof -
  let ?run = "\<lambda>n. ((\<lambda>st. snd (hkcp_node_connect None k st)) ^^ n) st"
  have run: "n \<le> 4 \<Longrightarrow> node_exists k (?run n) \<and> hn_attempts (node_at (?run n) k) = n" for n
  proof (induction n)
    case (Suc n)
    then show ?case using connect_fails(1) [of k "?run n"] by (simp add: HKCP_NODE_CONNECT_RETRIES_def)
  qed (simp add: assms)
  have "fst (hkcp_node_connect None k (?run n)) = (if n < 4 then 1 else 0)" if "n < 5" for n
    using run [of n] connect_fails [of k "?run n"] that by (auto simp: HKCP_NODE_CONNECT_RETRIES_def)
  moreover have "\<not> node_exists k (?run 5)"
    using run [of 4] connect_fails(2) [of k "?run 4"]
    by (simp add: HKCP_NODE_CONNECT_RETRIES_def numeral_eq_Suc)
  ultimately show ?thesis using run by (simp add: Let_def)
qed

definition send_step :: "nat \<Rightarrow> string \<Rightarrow> ('c, 'h, 'z) hkc \<Rightarrow> nat \<Rightarrow> ('c, 'h, 'z) hkc" where
  "send_step source str st k =
     (case hkcp_nodes st ! k of
        None \<Rightarrow> st
      | Some n \<Rightarrow> if 0 < hkcp_node_source_attached (Some source) n then node_sock k (tcp_sock_write str) st else st)"

definition node_receives :: "nat \<Rightarrow> string \<Rightarrow> hkcp_node \<Rightarrow> hkcp_node" where
  "node_receives source str n =
     (if 0 < hkcp_node_source_attached (Some source) n
      then n\<lparr>hn_sock := (hn_sock n)\<lparr>ts_wbuf := ts_wbuf (hn_sock n) @ str\<rparr>\<rparr> else n)"

lemma send_step_nodes:
  assumes "k < length (hkcp_nodes st)"
  shows "hkcp_nodes (send_step source str st k) = (hkcp_nodes st)[k := map_option (node_receives source str) (hkcp_nodes st ! k)]"
    "hkcp_srv (send_step source str st k) = hkcp_srv st"
proof -
  have same: "(hkcp_nodes st)[k := hkcp_nodes st ! k] = hkcp_nodes st" by simp
  show "hkcp_nodes (send_step source str st k) = (hkcp_nodes st)[k := map_option (node_receives source str) (hkcp_nodes st ! k)]"
    using assms same
    by (cases "hkcp_nodes st ! k")
      (auto simp: send_step_def node_receives_def node_sock_def case_prod_beta upd_node_def fst_tcp_write map_nth_def)
  show "hkcp_srv (send_step source str st k) = hkcp_srv st"
    by (simp add: send_step_def split: option.split)
qed

lemma send_steps_nodes:
  assumes "n \<le> length (hkcp_nodes st)"
  shows "hkcp_nodes (foldl (send_step source str) st [0..<n]) =
      map (map_option (node_receives source str)) (take n (hkcp_nodes st)) @ drop n (hkcp_nodes st) \<and>
    hkcp_srv (foldl (send_step source str) st [0..<n]) = hkcp_srv st"
  using assms
proof (induction n)
  case (Suc n)
  let ?s = "foldl (send_step source str) st [0..<n]"
  have s: "hkcp_nodes ?s = map (map_option (node_receives source str)) (take n (hkcp_nodes st)) @ drop n (hkcp_nodes st)"
    "hkcp_srv ?s = hkcp_srv st"
    using Suc by simp_all
  have n: "n < length (hkcp_nodes ?s)" using Suc.prems by (simp add: s(1))
  have d: "drop n (hkcp_nodes st) = hkcp_nodes st ! n # drop (Suc n) (hkcp_nodes st)"
    using Suc.prems by (simp add: Cons_nth_drop_Suc)
  have "hkcp_nodes (send_step source str ?s n) =
      map (map_option (node_receives source str)) (take (Suc n) (hkcp_nodes st)) @ drop (Suc n) (hkcp_nodes st)"
    unfolding send_step_nodes(1) [OF n] unfolding s(1) d
    using Suc.prems by (simp add: list_update_append nth_append take_Suc_conv_app_nth)
  then show ?case using send_step_nodes(2) [OF n] s(2) by simp
qed simp

lemma send_nodes_all:
  "hkcp_nodes (hkcp_source_send_nodes source str st) = map (map_option (node_receives source str)) (hkcp_nodes st)"
  "hkcp_srv (hkcp_source_send_nodes source str st) = hkcp_srv st"
  using send_steps_nodes [of "length (hkcp_nodes st)" st source str]
  unfolding hkcp_source_send_nodes_def send_step_def [symmetric] by simp_all

definition client_watches :: "hkcp_ctx tcp_sock \<Rightarrow> bool" where
  "client_watches d \<longleftrightarrow> 0 \<le> ch_fd (ts_chan d) \<and> (case ts_data d of None \<Rightarrow> False | Some ctx \<Rightarrow> cx_watch ctx)"

lemma watchers_all:
  fixes st :: "('c, 'h, 'z) hkc"
  shows "snd (tcp_srv_foreach_client (hkcp_source_send_watch ev) st socks) =
      map (\<lambda>d. if client_watches d then d\<lparr>ts_wbuf := ts_wbuf d @ ev\<rparr> else d) socks \<and>
    hkcp_nodes (fst (tcp_srv_foreach_client (hkcp_source_send_watch ev) st socks)) = hkcp_nodes st"
proof -
  have "snd (foldl (\<lambda>(s, done) d. if 0 \<le> ch_fd (ts_chan d) then (case hkcp_source_send_watch ev s d of (s, d) \<Rightarrow> (s, done @ [d]))
          else (s, done @ [d])) (st, done) socks) =
      done @ map (\<lambda>d. if client_watches d then d\<lparr>ts_wbuf := ts_wbuf d @ ev\<rparr> else d) socks \<and>
    hkcp_nodes (fst (foldl (\<lambda>(s, done) d. if 0 \<le> ch_fd (ts_chan d) then (case hkcp_source_send_watch ev s d of (s, d) \<Rightarrow> (s, done @ [d]))
          else (s, done @ [d])) (st, done) socks)) = hkcp_nodes st" for "done"
  proof (induction socks arbitrary: st "done")
    case (Cons d socks)
    show ?case
      using Cons.IH fst_tcp_write [of ev d st]
      by (auto simp: hkcp_source_send_watch_def client_watches_def case_prod_beta)
  qed simp
  from this [of "[]"] show ?thesis by (simp add: tcp_srv_foreach_client_def)
qed

text \<open>
  An update of a source queues the line \<open>set name=value\<close> on the connection of every node
  the source is attached to and on no other, uncut, and the event of the source for every
  connected client that watches, and nothing for the other clients.
\<close>

theorem hkcp_source_update_reaches:
  "let ep = so_ep (source_at st source); st' = hkcp_source_update source st;
       cmd = ''set '' @ hk_ep_get_name st ep @ ''='' @ hk_ep_get_value ep @ [LF]
   in hkcp_nodes st' = map (map_option (node_receives source cmd)) (hkcp_nodes st) \<and>
      srv_dsock (hkcp_srv st') =
        map (\<lambda>d. if client_watches d then d\<lparr>ts_wbuf := ts_wbuf d @ watch_event source st\<rparr> else d)
          (srv_dsock (hkcp_srv st))"
proof -
  let ?ep = "so_ep (source_at st source)"
  have "snprintf (length (hk_ep_get_name st ?ep) + length (hk_ep_get_value ?ep) + 20 - 1) (set_command st ?ep) = set_command st ?ep"
    by (simp add: snprintf_def set_command_def hk_ep_get_value_def)
  then show ?thesis
    using send_nodes_all [of source "set_command st ?ep @ [LF]" st]
      watchers_all [of "watch_event source st" "hkcp_source_send_nodes source (set_command st ?ep @ [LF]) st"
        "srv_dsock (hkcp_srv st)"]
    by (simp add: hkcp_source_update_def Let_def case_prod_beta set_command_def hk_ep_get_value_def)
qed

text \<open>
  With several tiles, the event sent to the watchers is the line
  \<open>!tile.name=value\<close> only when the name of the tile has at most 15 characters; otherwise it
  is cut at the size computed without the tile name, and loses at least its newline.
\<close>

theorem watch_event_cut:
  assumes "1 < hk_tile_nmemb st"
  shows "let ep = so_ep (source_at st source);
       line = ''!'' @ hk_ep_get_tile_name st ep @ ''.'' @ hk_ep_get_name st ep @ ''='' @ hk_ep_get_value ep @ [LF]
     in if length (hk_ep_get_tile_name st ep) \<le> 15 then watch_event source st = line
        else length (watch_event source st) < length line \<and>
          watch_event source st = take (length (watch_event source st)) line"
  using assms by (auto simp: watch_event_def snprintf_def Let_def)

section \<open>Concrete runs\<close>

definition hkcp_house :: "(unit, unit) hkcp_state" where
  \<comment> \<open>the house of Hk_Endpoint with one node, whose sinks are being listed\<close>
  "hkcp_house = hk_ep_state.extend (house_eps False) (hkcp_state.fields 5678 tcp_srv_clear
     [Some \<lparr>hn_id = 0, hn_name = ''10.0.0.2'', hn_sock = tcp_sock_zero, hn_state = HKCP_NODE_SINKS,
       hn_attempts = 0, hn_tag = 0, hn_sources = [], hn_rbuf = []\<rparr>])"

lemma hkcp_house_facts:
  "node_exists 0 hkcp_house" "hn_attempts (node_at hkcp_house 0) = 0" "hn_rbuf (node_at hkcp_house 0) = []"
  by (simp_all add: hkcp_house_def node_exists_def hk_ep_state.defs hkcp_state.defs)

theorem hkcp_lines_chunking_witness:
  "foldo (\<lambda>st c. hkcp_node_recv 0 c st) hkcp_house [''la'', ''mp \"\"'' @ [LF]] = hkcp_node_recv 0 (''lamp \"\"'' @ [LF]) hkcp_house \<and>
   hkcp_node_recv 0 (''lamp \"\"'' @ [LF] @ ''.'' @ [LF]) hkcp_house =
     foldo (\<lambda>st l. if node_exists 0 st then Some (node_line 0 l st) else None) hkcp_house [''lamp \"\"'', ''.'']"
  using hkcp_lines_chunking [of 0 hkcp_house "[''la'', ''mp \"\"'' @ [LF]]", THEN conjunct1]
    hkcp_lines_chunking [of 0 hkcp_house "[]", THEN conjunct2, rule_format, of "[''lamp \"\"'', ''.'']"]
  by (simp add: hkcp_house_facts del: foldo.simps)

theorem hkcp_node_gives_up_witness:
  "node_exists 0 (((\<lambda>st. snd (hkcp_node_connect None 0 st)) ^^ 4) hkcp_house) \<and>
   \<not> node_exists 0 (((\<lambda>st. snd (hkcp_node_connect None 0 st)) ^^ 5) hkcp_house)"
  using hkcp_node_gives_up [OF hkcp_house_facts(1,2)] unfolding Let_def by auto

definition long_house :: "(unit, unit) hkcp_state" where
  "long_house = hkcp_house\<lparr>tiles := map (\<lambda>n. \<lparr>t_dir = [], t_name = n, t_fname = [], t_objs = [], t_nets = []\<rparr>)
     [''ground-floor-and-cellar'', ''attic'']\<rparr>"

theorem watch_event_cut_witness:
  "watch_event 0 long_house \<noteq> ''!ground-floor-and-cellar.lamp='' @ [LF]"
proof -
  have f: "1 < hk_tile_nmemb long_house" "hk_ep_get_name long_house (so_ep (source_at long_house 0)) = ''lamp''"
    "hk_ep_get_tile_name long_house (so_ep (source_at long_house 0)) = ''ground-floor-and-cellar''"
    "hk_ep_get_value (so_ep (source_at long_house 0)) = []"
    by (simp_all add: long_house_def hkcp_house_def house_simps hk_tile_nmemb_def hk_ep_get_name_def
        hk_ep_get_tile_name_def hk_ep_get_value_def hkcp_state.defs)
  show ?thesis using watch_event_cut [OF f(1), of 0] by (auto simp: f(2-4) Let_def)
qed

end
