(* ===== verification/Hk_HkcpCmd.thy ===== *)
theory Hk_HkcpCmd
  imports Hk_Hkcp
begin

text \<open>
  \<^verbatim>\<open>core/hkcp_cmd.c\<close> and the server side of \<^verbatim>\<open>core/hkcp.c\<close>: the commands of the protocol and
  the clients that send them. The output of a command is the text it appends to the output
  buffer. \<open>call\<close> runs the handlers of a sink. \<open>None\<close> is a handler that does not return, or a
  null pointer that is read.
\<close>

section \<open>Commands\<close>

record build =
  \<comment> \<open>constants of the build, and the time of the start\<close>
  b_version :: string
  b_arch :: string
  b_t0 :: nat

type_synonym ('c, 'h, 'z) sink_call =
  "'h \<Rightarrow> nat \<Rightarrow> ('c, 'h, 'z) hkc \<Rightarrow> (('c, 'h, 'z) hkc) option"

type_synonym ('c, 'h, 'z) answer = "(('c, 'h, 'z) hkc \<times> string) option"

definition hkcp_command_set_arg ::
    "('c, 'h, 'z) sink_call \<Rightarrow> ('c, 'h, 'z) hkc \<times> string \<Rightarrow> string \<Rightarrow> ('c, 'h, 'z) answer" where
  \<comment> \<open>one argument \<open>name=value\<close>\<close>
  "hkcp_command_set_arg call s arg =
     (case s of (st, out_buf) \<Rightarrow>
        case strchr arg CHR ''='' of
          None \<Rightarrow> Some (st, out_buf @ ''.ERROR: Syntax error in command: '' @ arg @ [LF])
        | Some i \<Rightarrow>
            (case hk_sink_retrieve_by_name (take i arg) st of
               None \<Rightarrow> Some (st, out_buf @ ''.ERROR: Unknown sink: '' @ take i arg @ [LF])
             | Some sink \<Rightarrow>
                 map_option (\<lambda>st. (st, out_buf)) (hk_sink_update call sink (drop (i + 1) arg) st)))"

definition hkcp_command_set ::
    "('c, 'h, 'z) sink_call \<Rightarrow> string list \<Rightarrow> ('c, 'h, 'z) hkc \<times> string \<Rightarrow> ('c, 'h, 'z) answer" where
  "hkcp_command_set call argv s = foldo (hkcp_command_set_arg call) s (tl argv)"

definition dump_opt :: "('c, 'h, 'z) hkc \<Rightarrow> string option \<Rightarrow> hk_ep option \<Rightarrow> string option" where
  \<comment> \<open>\<open>hk_ep_dump\<close> on a pointer that may be null\<close>
  "dump_opt st out ep =
     (case ep of None \<Rightarrow> out | Some ep \<Rightarrow> Option.bind out (hk_ep_dump st ep))"

definition hkcp_command_get :: "string list \<Rightarrow> ('c, 'h, 'z) hkc \<Rightarrow> string \<Rightarrow> string option" where
  "hkcp_command_get argv st out_buf =
     (let out = Some out_buf;
          out = (if 1 < length argv then
              let out = foldl (\<lambda>out name. dump_opt st out
                          (map_option (\<lambda>i. so_ep (source_at st i)) (hk_source_retrieve_by_name name st))) out (tl argv)
              in foldl (\<lambda>out name. dump_opt st out
                          (map_option (\<lambda>k. sk_ep (sink_at st k)) (hk_sink_retrieve_by_name name st))) out (tl argv)
            else
              let out = hk_source_foreach (\<lambda>out ep. (1, dump_opt st out (Some ep))) st out
              in hk_sink_foreach (\<lambda>out ep. (1, dump_opt st out (Some ep))) st out)
      in map_option (\<lambda>out. out @ ''.'' @ [LF]) out)"

definition hkcp_command_nodes :: "('c, 'h, 'z) hkc \<Rightarrow> string \<Rightarrow> string" where
  \<comment> \<open>every source is listed for every node\<close>
  "hkcp_command_nodes st out_buf =
     foldl (\<lambda>out e. case e of
              None \<Rightarrow> out
            | Some n \<Rightarrow>
                hk_source_foreach (\<lambda>out ep. (1, hk_ep_append_name st ep (out @ '' ''))) st (out @ hn_name n) @ [LF])
       out_buf (hkcp_nodes st) @ ''.'' @ [LF]"

definition hkcp_command_sources_dump :: "('c, 'h, 'z) hkc \<Rightarrow> string \<Rightarrow> nat \<Rightarrow> string" where
  "hkcp_command_sources_dump st out source =
     (if hk_source_is_public source st then
        let ep = so_ep (source_at st source);
            out = hk_ep_append_value ep (hk_ep_append_name st ep out @ '' '' @ [DQUOTE]) @ [DQUOTE]
        in hkcp_node_dump (Some source) st out @ [LF]
      else out)"

definition hkcp_command_sources :: "('c, 'h, 'z) hkc \<Rightarrow> string \<Rightarrow> string" where
  "hkcp_command_sources st out_buf =
     foldl (hkcp_command_sources_dump st) out_buf [0..<length (hk_sources st)] @ ''.'' @ [LF]"

definition hkcp_command_sinks_dump :: "('c, 'h, 'z) hkc \<Rightarrow> string \<Rightarrow> hk_ep \<Rightarrow> string" where
  "hkcp_command_sinks_dump st out ep =
     (if hk_ep_is_public (Some ep) then
        hk_ep_append_value ep (hk_ep_append_name st ep out @ '' '' @ [DQUOTE]) @ [DQUOTE, LF]
      else out)"

definition hkcp_command_sinks :: "('c, 'h, 'z) hkc \<Rightarrow> string \<Rightarrow> string" where
  "hkcp_command_sinks st out_buf =
     hk_sink_foreach (\<lambda>out ep. (1, hkcp_command_sinks_dump st out ep)) st out_buf @ ''.'' @ [LF]"

definition hkcp_command_watch :: "string list \<Rightarrow> bool \<Rightarrow> ('c, 'h, 'z) hkc \<Rightarrow> string \<Rightarrow> bool \<times> string" where
  "hkcp_command_watch argv watch st out_buf =
     (let (err, watch) =
            (if 1 < length argv then
               if length argv = 2 then
                 if argv ! 1 = ''0'' \<or> argv ! 1 = ''off'' then (False, False)
                 else if argv ! 1 = ''1'' \<or> argv ! 1 = ''on'' then (False, True)
                 else (True, watch)
               else (True, watch)
             else (False, watch))
      in (watch,
          if err then out_buf @ ''.ERROR: watch: Syntax error'' @ [LF]
          else
            let out_buf = out_buf @ ''.'' @ [LF]
            in if watch then
                 hk_source_foreach (\<lambda>out ep. (1, hk_ep_append_value ep
                     (hk_ep_append_name st ep (out @ ''!'') @ ''='') @ [LF])) st out_buf
               else out_buf))"

definition hkcp_command ::
    "('c, 'h, 'z) sink_call \<Rightarrow> build \<Rightarrow> string list \<Rightarrow> ('c, 'h, 'z) hkc \<times> string \<Rightarrow> ('c, 'h, 'z) answer" where
  "hkcp_command call b argv s =
     (case s of (st, out_buf) \<Rightarrow>
        if argv ! 0 = ''set'' then hkcp_command_set call argv s
        else if argv ! 0 = ''get'' then map_option (\<lambda>out. (st, out)) (hkcp_command_get argv st out_buf)
        else if argv ! 0 = ''nodes'' then Some (st, hkcp_command_nodes st out_buf)
        else if argv ! 0 = ''sinks'' then Some (st, hkcp_command_sinks st out_buf)
        else if argv ! 0 = ''sources'' then Some (st, hkcp_command_sources st out_buf)
        else if argv ! 0 = ''props'' then
          Some (st, out_buf @ ''VERSION: '' @ b_version b @ [LF] @ ''ARCH: '' @ b_arch b @ [LF]
                  @ ''T0: '' @ nat_dec (b_t0 b) @ [LF]
                  @ ''TRACE_DEPTH: '' @ int_dec (hk_endpoints_get_trace_depth st) @ [LF] @ ''.'' @ [LF])
        else Some (st, out_buf @ ''.ERROR: Unknown command: '' @ argv ! 0 @ [LF]))"

section \<open>Clients of the server\<close>

abbreviation client_at :: "('c, 'h, 'z) hkc \<Rightarrow> nat \<Rightarrow> hkcp_ctx tcp_sock" where
  "client_at st d \<equiv> srv_dsock (hkcp_srv st) ! d"

definition upd_client ::
    "nat \<Rightarrow> (hkcp_ctx tcp_sock \<Rightarrow> hkcp_ctx tcp_sock) \<Rightarrow> ('c, 'h, 'z) hkc \<Rightarrow> ('c, 'h, 'z) hkc" where
  "upd_client d g st =
     st\<lparr>hkcp_srv := (hkcp_srv st)\<lparr>srv_dsock := map_nth d g (srv_dsock (hkcp_srv st))\<rparr>\<rparr>"

definition client_write :: "nat \<Rightarrow> string \<Rightarrow> ('c, 'h, 'z) hkc \<Rightarrow> ('c, 'h, 'z) hkc" where
  "client_write d buf st =
     (case tcp_sock_write buf (client_at st d, st) of (sock, st) \<Rightarrow> upd_client d (\<lambda>_. sock) st)"

definition upd_ctx :: "nat \<Rightarrow> (hkcp_ctx \<Rightarrow> hkcp_ctx) \<Rightarrow> ('c, 'h, 'z) hkc \<Rightarrow> ('c, 'h, 'z) hkc" where
  "upd_ctx d g st = upd_client d (\<lambda>s. s\<lparr>ts_data := map_option g (ts_data s)\<rparr>) st"

definition hkcp_command_ctx_new :: hkcp_ctx where
  "hkcp_command_ctx_new = \<lparr>cx_cmd = command_new, cx_watch = False\<rparr>"

definition hkcp_command_tcp ::
    "('c, 'h, 'z) sink_call \<Rightarrow> build \<Rightarrow> nat \<Rightarrow> string list \<Rightarrow> ('c, 'h, 'z) hkc
      \<Rightarrow> (int \<times> ('c, 'h, 'z) hkc) option" where
  "hkcp_command_tcp call b d argv st =
     (if argv = [] then Some (0, st)
      else if argv ! 0 \<noteq> [] \<and> hd (argv ! 0) = CHR ''.'' then Some (1, st)
      else
        map_option (\<lambda>(st, out). (0, client_write d out st))
          (if argv ! 0 = ''watch'' then
             (case ts_data (client_at st d) of
                None \<Rightarrow> None
              | Some ctx \<Rightarrow>
                  (case hkcp_command_watch argv (cx_watch ctx) st [] of (watch, out) \<Rightarrow>
                     Some (upd_ctx d (\<lambda>c. c\<lparr>cx_watch := watch\<rparr>) st, out)))
           else hkcp_command call b argv (st, [])))"

definition hkcp_command_ctx_recv ::
    "('c, 'h, 'z) sink_call \<Rightarrow> build \<Rightarrow> nat \<Rightarrow> (('c, 'h, 'z) hkc) option handler" where
  \<comment> \<open>the handler of the lines of a client\<close>
  "hkcp_command_ctx_recv call b d s argv =
     Option.bind s (\<lambda>st. map_option snd
       (hkcp_command_tcp call b d (case argv of None \<Rightarrow> [] | Some a \<Rightarrow> a) st))"

definition hkcp_tcp_event ::
    "('c, 'h, 'z) sink_call \<Rightarrow> build \<Rightarrow> nat \<Rightarrow> tcp_io \<Rightarrow> ('c, 'h, 'z) hkc \<Rightarrow> (('c, 'h, 'z) hkc) option" where
  "hkcp_tcp_event call b d io st =
     (case io of
        TCP_IO_CONNECT addr \<Rightarrow>
          Some (upd_client d (tcp_sock_set_data (Some hkcp_command_ctx_new)) st)
      | TCP_IO_DATA rbuf \<Rightarrow>
          (case ts_data (client_at st d) of
             None \<Rightarrow> None
           | Some ctx \<Rightarrow>
               (case command_recv (Some (hkcp_command_ctx_recv call b d)) (cx_cmd ctx) (Some st) (Some rbuf) of
                  (_, cmd, s) \<Rightarrow> map_option (upd_ctx d (\<lambda>c. c\<lparr>cx_cmd := cmd\<rparr>)) s))
      | TCP_IO_HUP \<Rightarrow> Some (upd_client d (tcp_sock_set_data None) st))"

definition tcp_srv_zero :: "'d tcp_srv" where
  \<comment> \<open>a block filled with zeros: the descriptors are 0\<close>
  "tcp_srv_zero =
     (let s = tcp_sock_zero\<lparr>ts_chan := io_channel_clear\<lparr>ch_fd := 0\<rparr>\<rparr>
      in \<lparr>srv_csock = s, srv_dsock = replicate TCP_SRV_MAX_CLIENTS s, srv_func = None, srv_data = None\<rparr>)"

definition hkcp_shutdown :: "('c, 'h, 'z) hkc \<Rightarrow> ('c, 'h, 'z) hkc" where
  "hkcp_shutdown st =
     (let (srv, st) = (if 0 < ch_fd (ts_chan (srv_csock (hkcp_srv st)))
                       then tcp_srv_shutdown (hkcp_srv st, st) else (hkcp_srv st, st))
      in st\<lparr>hkcp_port := 0, hkcp_srv := tcp_srv_zero, hkcp_nodes := hk_tab_cleanup (hkcp_nodes st)\<rparr>)"

definition hkcp_init :: "int \<Rightarrow> int option \<Rightarrow> ('c, 'h, 'z) hkc \<Rightarrow> int \<times> ('c, 'h, 'z) hkc" where
  \<comment> \<open>\<open>fd\<close>: the listening socket of the server, if it could be made\<close>
  "hkcp_init port fd st =
     (let st = st\<lparr>hkcp_port := port, hkcp_srv := tcp_srv_clear, hkcp_nodes := hk_tab_init\<rparr>
      in if 0 < port then
           (case tcp_srv_init 0 fd (Some ''hkcp_tcp_event'') None st of
              (err, srv, st) \<Rightarrow>
                let st = st\<lparr>hkcp_srv := srv\<rparr>
                in if err \<noteq> 0 then (-1, hkcp_shutdown st) else (0, st))
         else (0, st))"

section \<open>From a source to a remote sink\<close>

lemma str_argv_set:
  assumes "plain arg"
  shows "str_argv (''set '' @ arg) = [''set'', arg]"
proof -
  have "plain ''set''" by (simp add: plain_def is_graph_def cval_def)
  then have r: "render_line [''set'', arg] = ''set '' @ arg" using assms by (simp add: render_def)
  have n: "\<forall>a\<in>set [''set'', arg]. NUL \<notin> set a" using plain_no_NUL assms by simp
  show ?thesis using args_render_line [OF n] str_argv_args [OF NUL_render_line [OF n]] unfolding r by simp
qed

text \<open>
  C7: The line that an update of a source queues for a node has, on the server that receives
  it, exactly the effect of updating the sink of that name with the value of the source (and
  gives no answer), provided that name and value have no blank, quote or backslash in them and
  the name no equals sign: the sender does not quote what the receiver splits.
\<close>

theorem hkcp_value_delivered:
  assumes "plain (hk_ep_get_name sender ep @ ''='' @ hk_ep_get_value ep)" "CHR ''='' \<notin> set (hk_ep_get_name sender ep)"
    and "hk_sink_retrieve_by_name (hk_ep_get_name sender ep) st = Some k"
    and "ts_data (client_at st d) = Some ctx" "cmd_line (cx_cmd ctx) = []"
  shows "hkcp_tcp_event call b d (TCP_IO_DATA (set_command sender ep @ [LF])) st =
    map_option (\<lambda>st. upd_ctx d (\<lambda>c. c\<lparr>cx_cmd := cx_cmd ctx\<rparr>) (client_write d [] st))
      (hk_sink_update call k (hk_ep_get_value ep) st)"
proof -
  let ?arg = "hk_ep_get_name sender ep @ ''='' @ hk_ep_get_value ep"
  let ?h = "Some (hkcp_command_ctx_recv call b d)"
  have line: "set_command sender ep = ''set '' @ ?arg" by (simp add: set_command_def hk_ep_get_value_def)
  have lf: "LF \<notin> set (''set '' @ ?arg)"
    using assms(1) is_graph_LF(1) unfolding plain_def by (auto simp del: is_graph_LF)
  have "command_recv ?h (cx_cmd ctx) (Some st) (Some (set_command sender ep @ [LF])) =
      (1, cx_cmd ctx, hkcp_command_ctx_recv call b d (Some st) (Some [''set'', ?arg]))"
    unfolding line command_recv_def
    using command_bytes_segment [OF lf, of ?h "cx_cmd ctx" "Some st"] assms(5) str_argv_set [OF assms(1)]
    by (simp add: command_loop_bytes command_byte_LF command_dispatch_def)
  moreover have "strchr ?arg CHR ''='' = Some (length (hk_ep_get_name sender ep))"
    using strchr_append [OF assms(2), of "hk_ep_get_value ep"] by simp
  ultimately show ?thesis
    using assms(3,4)
    by (cases "hk_sink_update call k (hk_ep_get_value ep) st")
      (simp_all add: hkcp_tcp_event_def hkcp_command_ctx_recv_def hkcp_command_tcp_def hkcp_command_def
        hkcp_command_set_def hkcp_command_set_arg_def)
qed

definition served_house :: "(unit, unit) hkcp_state" where
  \<comment> \<open>a client has connected\<close>
  "served_house = upd_client 0 (tcp_sock_set_data (Some hkcp_command_ctx_new)) hkcp_house"

definition lamp_on :: hk_ep where "lamp_on = (so_ep (source_at hkcp_house 0))\<lparr>ep_value := ''on''\<rparr>"

theorem hkcp_value_delivered_witness:
  "hkcp_tcp_event (\<lambda>f k st. Some st) \<lparr>b_version = [], b_arch = [], b_t0 = 0\<rparr> 0
     (TCP_IO_DATA (set_command hkcp_house lamp_on @ [LF])) served_house =
   map_option (\<lambda>st. upd_ctx 0 (\<lambda>c. c\<lparr>cx_cmd := command_new\<rparr>) (client_write 0 [] st))
     (hk_sink_update (\<lambda>f k st. Some st) 0 ''on'' served_house)"
proof -
  have f: "hk_ep_get_name hkcp_house lamp_on = ''lamp''" "hk_ep_get_value lamp_on = ''on''"
    by (simp_all add: lamp_on_def hkcp_house_def house_simps hk_ep_get_name_def hk_ep_get_value_def hkcp_state.defs)
  have p: "plain (''lamp'' @ ''='' @ ''on'')" by (simp add: plain_def is_graph_def cval_def)
  have "hk_sink_retrieve_by_name ''lamp'' served_house = Some 0"
    by (simp add: served_house_def upd_client_def hkcp_house_def house_simps hkcp_state.defs hk_sink_retrieve_by_name_def
        split_full_name_def hk_sink_retrieve_by_full_name_def ep_matches_def hk_ep_get_name_def strrchr_def)
  moreover have "ts_data (client_at served_house 0) = Some hkcp_command_ctx_new"
    by (simp add: served_house_def upd_client_def hkcp_house_def hk_ep_state.defs hkcp_state.defs tcp_srv_clear_def
        tcp_sock_set_data_def TCP_SRV_MAX_CLIENTS_def)
  moreover have "cmd_line (cx_cmd hkcp_command_ctx_new) = []"
    by (simp add: hkcp_command_ctx_new_def command_new_def)
  ultimately have "hkcp_tcp_event (\<lambda>f k st. Some st) \<lparr>b_version = [], b_arch = [], b_t0 = 0\<rparr> 0
     (TCP_IO_DATA (set_command hkcp_house lamp_on @ [LF])) served_house =
   map_option (\<lambda>st. upd_ctx 0 (\<lambda>c. c\<lparr>cx_cmd := cx_cmd hkcp_command_ctx_new\<rparr>) (client_write 0 [] st))
     (hk_sink_update (\<lambda>f k st. Some st) 0 (hk_ep_get_value lamp_on) served_house)"
    by (intro hkcp_value_delivered) (use p f in simp_all)
  then show ?thesis by (simp add: f hkcp_command_ctx_new_def)
qed

end
