(* ===== verification/Hk_Advertise.thy ===== *)
theory Hk_Advertise
  imports Hk_HkcpCmd
begin

unbundle bit_operations_syntax

text \<open>
  \<^verbatim>\<open>core/advertise.c\<close>: the discovery protocol. A packet is the signature, its type, the
  protocols of the sender and an optional text. Packets sent are appended to \<open>adv_out\<close>;
  the address of the sender of a packet is an argument, as are the functions registered for
  a protocol (\<open>discover\<close>). The sockets and the watch on the interfaces are in Hk_Netif.
\<close>

definition ADVERTISE_PROTO_HKCP :: "8 word" where "ADVERTISE_PROTO_HKCP = 0x01"
definition ADVERTISE_PROTO_MQTT :: "8 word" where "ADVERTISE_PROTO_MQTT = 0x02"
definition ADVERTISE_DELAY :: "64 word" where "ADVERTISE_DELAY = 1000"
definition DISCOVER_SIGNATURE :: "8 word" where "DISCOVER_SIGNATURE = 0xAC"
definition DISCOVER_REQUEST :: "8 word" where "DISCOVER_REQUEST = 0x04"
definition DISCOVER_REPLY :: "8 word" where "DISCOVER_REPLY = 0x05"

datatype adv_dest = Adv_bcast | Adv_reply
datatype adv_func = Adv_hkcp_node_add | Adv_mqtt_discover

record adv_handler =
  ah_proto :: "8 word"
  ah_func :: adv_func

record ('c, 'h) adv_state = "('c, 'h) hkcp_state" +
  adv_fd :: int
  adv_tag :: sys_tag
  adv_handlers :: "adv_handler list"
  adv_proto :: "8 word"
  adv_broker :: "string option"
  adv_out :: "(adv_dest \<times> 8 word list) list"

type_synonym ('c, 'h, 'z) hka = "('c, 'h, 'z) adv_state_scheme"

definition adv_packet :: "8 word \<Rightarrow> 8 word \<Rightarrow> string option \<Rightarrow> 8 word list" where
  "adv_packet type proto str =
     [DISCOVER_SIGNATURE, type, proto] @ (case str of None \<Rightarrow> [] | Some s \<Rightarrow> bytes_of s)"

definition hk_advertise_send_request :: "8 word \<Rightarrow> string option \<Rightarrow> ('c, 'h, 'z) hka \<Rightarrow> ('c, 'h, 'z) hka" where
  "hk_advertise_send_request proto str st =
     st\<lparr>adv_out := adv_out st @ [(Adv_bcast, adv_packet DISCOVER_REQUEST proto str)]\<rparr>"

definition hk_advertise_send_reply :: "8 word \<Rightarrow> string option \<Rightarrow> ('c, 'h, 'z) hka \<Rightarrow> ('c, 'h, 'z) hka" where
  "hk_advertise_send_reply proto str st =
     st\<lparr>adv_out := adv_out st @ [(Adv_reply, adv_packet DISCOVER_REPLY proto str)]\<rparr>"

definition adv_call_handlers ::
    "(adv_func \<Rightarrow> string \<Rightarrow> string option \<Rightarrow> ('c, 'h, 'z) hka \<Rightarrow> ('c, 'h, 'z) hka) \<Rightarrow> 8 word \<Rightarrow> string
      \<Rightarrow> string option \<Rightarrow> ('c, 'h, 'z) hka \<Rightarrow> ('c, 'h, 'z) hka" where
  "adv_call_handlers discover proto remote_ip str st =
     foldl (\<lambda>st h. if proto AND ah_proto h \<noteq> 0 then discover (ah_func h) remote_ip str st else st)
       st (adv_handlers st)"

definition hk_advertise_event ::
    "(adv_func \<Rightarrow> string \<Rightarrow> string option \<Rightarrow> ('c, 'h, 'z) hka \<Rightarrow> ('c, 'h, 'z) hka) \<Rightarrow> string
      \<Rightarrow> 8 word list \<Rightarrow> ('c, 'h, 'z) hka \<Rightarrow> ('c, 'h, 'z) hka" where
  "hk_advertise_event discover remote_ip buf st =
     (if length buf < 3 then st
      else if buf ! 0 \<noteq> DISCOVER_SIGNATURE then st
      else
        let str = (if 3 < length buf then Some (cstr (text_of (drop 3 buf))) else None)
        in if buf ! 1 = DISCOVER_REQUEST then
             adv_call_handlers discover (buf ! 2) remote_ip str
               (if adv_proto st \<noteq> 0 then hk_advertise_send_reply (adv_proto st) (adv_broker st) st else st)
           else if buf ! 1 = DISCOVER_REPLY then adv_call_handlers discover (buf ! 2) remote_ip str st
           else st)"

definition hk_advertise_now :: "('c, 'h, 'z) hka \<Rightarrow> int \<times> ('c, 'h, 'z) hka" where
  "hk_advertise_now st = (0, hk_advertise_send_request (adv_proto st) (adv_broker st) (st\<lparr>adv_tag := 0\<rparr>))"

definition hk_advertise :: "('c, 'h, 'z) hka \<Rightarrow> ('c, 'h, 'z) hka" where
  "hk_advertise st =
     (let st = (if adv_tag st \<noteq> 0 then (sys_remove (adv_tag st) st)\<lparr>adv_tag := 0\<rparr> else st)
      in if 0 < adv_fd st \<and> adv_proto st \<noteq> 0 then
           (case sys_timeout (hk_clock st) ADVERTISE_DELAY (Some ''hk_advertise_now'') None st of
              (tag, st) \<Rightarrow> st\<lparr>adv_tag := tag\<rparr>)
         else st)"

definition hk_advertise_hkcp :: "('c, 'h, 'z) hka \<Rightarrow> ('c, 'h, 'z) hka" where
  "hk_advertise_hkcp st = hk_advertise (st\<lparr>adv_proto := adv_proto st OR ADVERTISE_PROTO_HKCP\<rparr>)"

definition hk_advertise_mqtt :: "string option \<Rightarrow> ('c, 'h, 'z) hka \<Rightarrow> ('c, 'h, 'z) hka" where
  "hk_advertise_mqtt broker st =
     hk_advertise (st\<lparr>adv_broker := broker, adv_proto := adv_proto st OR ADVERTISE_PROTO_MQTT\<rparr>)"

definition hk_advertise_init :: "int \<Rightarrow> int option \<Rightarrow> ('c, 'h, 'z) hka \<Rightarrow> int \<times> ('c, 'h, 'z) hka" where
  \<comment> \<open>\<open>fd\<close>: the UDP socket, if it could be made\<close>
  "hk_advertise_init port fd st =
     (let st = st\<lparr>adv_fd := 0, adv_tag := 0, adv_handlers := hk_tab_init, adv_proto := 0, adv_broker := None\<rparr>
      in if 0 < port then
           (case fd of
              None \<Rightarrow> (-1, st\<lparr>adv_fd := -1\<rparr>)
            | Some fd \<Rightarrow>
                (0, (snd (sys_io_watch fd (Some ''udp_srv_event'') None st))\<lparr>adv_fd := fd\<rparr>))
         else (0, st))"

definition hk_advertise_shutdown :: "('c, 'h, 'z) hka \<Rightarrow> ('c, 'h, 'z) hka" where
  "hk_advertise_shutdown st =
     st\<lparr>adv_fd := (if 0 < adv_fd st then -1 else adv_fd st), adv_handlers := hk_tab_cleanup (adv_handlers st),
        adv_broker := None\<rparr>"

definition hk_advertise_handler :: "8 word \<Rightarrow> adv_func \<Rightarrow> ('c, 'h, 'z) hka \<Rightarrow> ('c, 'h, 'z) hka" where
  "hk_advertise_handler proto func st =
     st\<lparr>adv_handlers := fst (hk_tab_push \<lparr>ah_proto = proto, ah_func = func\<rparr> (adv_handlers st))\<rparr>"

end
