(* ===== verification/Hk_Mqtt.thy ===== *)
theory Hk_Mqtt
  imports Hk_Advertise
begin

text \<open>
  \<^verbatim>\<open>core/mqtt.c\<close>: the MQTT client on top of the mosquitto library. Calls of the library are
  recorded in \<open>mosq_calls\<close>; what it returns is an argument, and its callbacks are operations
  here. Messages cross from the thread of the library to the event loop through a message queue
  of the system, \<open>mq_queue\<close>: at most 8 messages of at most 1024 bytes.
\<close>

section \<open>State\<close>

definition MQTT_DEFAULT_PORT :: int where "MQTT_DEFAULT_PORT = 1883"
definition MQTT_DEFAULT_SSL_PORT :: int where "MQTT_DEFAULT_SSL_PORT = 8883"
definition MSG_MAXSIZE :: nat where "MSG_MAXSIZE = 1024"
definition MQ_MAXMSG :: nat where "MQ_MAXMSG = 8"
definition MQTT_RECONNECT_DELAY :: "64 word" where "MQTT_RECONNECT_DELAY = 60"

datatype mqtt_state_t = MQTT_ST_DISCONNECTED | MQTT_ST_CONNECTING | MQTT_ST_CONNECTED | MQTT_ST_RECONNECT

datatype mosq_call =
    Mosq_username_pw_set string "string option"
  | Mosq_connect_async string int
  | Mosq_disconnect
  | Mosq_publish string string int bool
  | Mosq_subscribe string int
  | Mosq_tls_set string string string
  | Mosq_loop_start
  | Mosq_destroy

record mqtt =
  mq_broker :: "string option"
  mq_mosq :: bool
  mq_state :: mqtt_state_t
  mq_timeout_tag :: sys_tag
  mq_mq :: int
  mq_mq_tag :: sys_tag
  mq_port :: int
  mq_qos :: int

record ('c, 'h) mqtt_state = "('c, 'h) adv_state" +
  mqtt :: mqtt
  mosq_calls :: "mosq_call list"
  mq_queue :: "string list"

type_synonym ('c, 'h, 'z) hkm = "('c, 'h, 'z) mqtt_state_scheme"

definition upd_mqtt :: "(mqtt \<Rightarrow> mqtt) \<Rightarrow> ('c, 'h, 'z) hkm \<Rightarrow> ('c, 'h, 'z) hkm" where
  "upd_mqtt g st = st\<lparr>mqtt := g (mqtt st)\<rparr>"

definition mosq :: "mosq_call \<Rightarrow> ('c, 'h, 'z) hkm \<Rightarrow> ('c, 'h, 'z) hkm" where
  "mosq c st = st\<lparr>mosq_calls := mosq_calls st @ [c]\<rparr>"

type_synonym 'w mqtt_update = "(string \<times> string) option \<Rightarrow> 'w \<Rightarrow> 'w option"

section \<open>Connection\<close>

definition mqtt_timeout_stop :: "('c, 'h, 'z) hkm \<Rightarrow> ('c, 'h, 'z) hkm" where
  "mqtt_timeout_stop st =
     (let tag = mq_timeout_tag (mqtt st)
      in if tag \<noteq> 0 then upd_mqtt (\<lambda>m. m\<lparr>mq_timeout_tag := 0\<rparr>) (sys_remove tag st) else st)"

definition mqtt_timeout_start :: "64 word \<Rightarrow> ('c, 'h, 'z) hkm \<Rightarrow> ('c, 'h, 'z) hkm" where
  "mqtt_timeout_start delay st =
     (case sys_timeout (hk_clock st) delay (Some ''mqtt_connect_now'') None st of
        (tag, st) \<Rightarrow> upd_mqtt (\<lambda>m. m\<lparr>mq_timeout_tag := tag\<rparr>) st)"

definition parse_broker :: "int \<Rightarrow> string \<Rightarrow> (string \<times> string option) option \<times> string \<times> int" where
  \<comment> \<open>\<open>[user[:password]@]host[:port]\<close>\<close>
  "parse_broker default_port spec =
     (let (login, host) =
            (case strchr spec CHR ''@'' of
               None \<Rightarrow> (None, spec)
             | Some i \<Rightarrow>
                 (let user = take i spec
                  in (case strchr user CHR '':'' of
                        None \<Rightarrow> Some (user, None)
                      | Some j \<Rightarrow> Some (take j user, Some (drop (j + 1) user)), drop (i + 1) spec)));
          (host, port) =
            (case strchr host CHR '':'' of
               None \<Rightarrow> (host, default_port)
             | Some i \<Rightarrow> (take i host, atoi (drop (i + 1) host)))
      in (login, if host = [] then ''localhost'' else host, port))"

definition mqtt_connect_now :: "int \<Rightarrow> ('c, 'h, 'z) hkm \<Rightarrow> (int \<times> ('c, 'h, 'z) hkm) option" where
  \<comment> \<open>\<open>ret\<close>: what \<open>mosquitto_connect_async\<close> returns\<close>
  "mqtt_connect_now ret st =
     (let st = upd_mqtt (\<lambda>m. m\<lparr>mq_timeout_tag := 0\<rparr>) st
      in case mq_broker (mqtt st) of
           None \<Rightarrow> None
         | Some spec \<Rightarrow>
             (case parse_broker (mq_port (mqtt st)) spec of
                (login, host, port) \<Rightarrow>
                  let st = (case login of None \<Rightarrow> st
                            | Some (user, password) \<Rightarrow> mosq (Mosq_username_pw_set user password) st);
                      st = mosq (Mosq_connect_async host port) st
                  in Some (0, if ret \<noteq> 0 then mqtt_timeout_start (MQTT_RECONNECT_DELAY * 1000) st else st)))"

definition mqtt_on_connect ::
    "(('c, 'h, 'z) hkm) mqtt_update \<Rightarrow> int \<Rightarrow> ('c, 'h, 'z) hkm \<Rightarrow> (('c, 'h, 'z) hkm) option" where
  \<comment> \<open>\<open>rc\<close> is only logged\<close>
  "mqtt_on_connect update rc st =
     update None (mqtt_timeout_stop (upd_mqtt (\<lambda>m. m\<lparr>mq_state := MQTT_ST_CONNECTED\<rparr>) st))"

definition mqtt_on_disconnect :: "int \<Rightarrow> int \<Rightarrow> ('c, 'h, 'z) hkm \<Rightarrow> (('c, 'h, 'z) hkm) option" where
  "mqtt_on_disconnect ret rc st =
     (let st = mqtt_timeout_stop st
      in if mq_state (mqtt st) = MQTT_ST_RECONNECT then map_option snd (mqtt_connect_now ret st)
         else if mq_state (mqtt st) = MQTT_ST_CONNECTED
         then Some (mqtt_timeout_start (MQTT_RECONNECT_DELAY * 1000) st)
         else Some st)"

definition mqtt_connect :: "string \<Rightarrow> ('c, 'h, 'z) hkm \<Rightarrow> int \<times> ('c, 'h, 'z) hkm" where
  "mqtt_connect broker st =
     (let st = (if mq_broker (mqtt st) \<noteq> None \<and> mq_broker (mqtt st) \<noteq> Some broker then
                  let st = upd_mqtt (\<lambda>m. m\<lparr>mq_broker := None\<rparr>) st
                  in if mq_state (mqtt st) = MQTT_ST_CONNECTED
                     then upd_mqtt (\<lambda>m. m\<lparr>mq_state := MQTT_ST_RECONNECT\<rparr>) (mosq Mosq_disconnect st)
                     else st
                else st);
          st = (if mq_broker (mqtt st) = None then upd_mqtt (\<lambda>m. m\<lparr>mq_broker := Some broker\<rparr>) st else st)
      in (0, if mq_state (mqtt st) \<noteq> MQTT_ST_CONNECTED \<and> mq_state (mqtt st) \<noteq> MQTT_ST_RECONNECT then
               upd_mqtt (\<lambda>m. m\<lparr>mq_state := MQTT_ST_CONNECTING\<rparr>) (mqtt_timeout_start 100 (mqtt_timeout_stop st))
             else st))"

section \<open>Start and stop\<close>

definition mqtt_zero :: mqtt where
  "mqtt_zero = \<lparr>mq_broker = None, mq_mosq = False, mq_state = MQTT_ST_DISCONNECTED, mq_timeout_tag = 0,
     mq_mq = -1, mq_mq_tag = 0, mq_port = 0, mq_qos = 0\<rparr>"

definition mqtt_shutdown :: "('c, 'h, 'z) hkm \<Rightarrow> ('c, 'h, 'z) hkm" where
  "mqtt_shutdown st =
     (let st = mqtt_timeout_stop st;
          tag = mq_mq_tag (mqtt st);
          st = (if tag \<noteq> 0 then upd_mqtt (\<lambda>m. m\<lparr>mq_mq_tag := 0\<rparr>) (sys_remove tag st) else st);
          st = (if mq_mq (mqtt st) \<noteq> -1 then upd_mqtt (\<lambda>m. m\<lparr>mq_mq := -1\<rparr>) (st\<lparr>mq_queue := []\<rparr>) else st);
          st = (if mq_mosq (mqtt st) then upd_mqtt (\<lambda>m. m\<lparr>mq_mosq := False\<rparr>) (mosq Mosq_destroy st) else st)
      in upd_mqtt (\<lambda>m. m\<lparr>mq_broker := None\<rparr>) st)"

definition mqtt_init ::
    "int \<Rightarrow> bool \<Rightarrow> int \<Rightarrow> int \<Rightarrow> string option \<Rightarrow> ('c, 'h, 'z) hkm \<Rightarrow> int \<times> ('c, 'h, 'z) hkm" where
  \<comment> \<open>the results of \<open>mosquitto_lib_init\<close>, \<open>mosquitto_new\<close>, \<open>mq_open\<close> and \<open>mosquitto_loop_start\<close>\<close>
  "mqtt_init lib new mq loop certs st =
     (let st = st\<lparr>mqtt := mqtt_zero\<rparr>
      in if lib \<noteq> 0 then (-1, st)
         else if \<not> new then (-1, st)
         else
           let st = upd_mqtt (\<lambda>m. m\<lparr>mq_mosq := True\<rparr>) st;
               st = (case certs of
                       Some dir \<Rightarrow>
                         mosq (Mosq_tls_set (dir @ ''/ca.crt'') (dir @ ''/server.crt'') (dir @ ''/server.key''))
                           (upd_mqtt (\<lambda>m. m\<lparr>mq_port := MQTT_DEFAULT_SSL_PORT\<rparr>) st)
                     | None \<Rightarrow> upd_mqtt (\<lambda>m. m\<lparr>mq_port := MQTT_DEFAULT_PORT\<rparr>) st);
               st = upd_mqtt (\<lambda>m. m\<lparr>mq_mq := mq\<rparr>) st
           in if mq = -1 then (-1, mqtt_shutdown st)
              else
                (case sys_io_watch mq (Some ''mqtt_msg_recv'') None (st\<lparr>mq_queue := []\<rparr>) of
                   (tag, st) \<Rightarrow>
                     let st = mosq Mosq_loop_start (upd_mqtt (\<lambda>m. m\<lparr>mq_mq_tag := tag\<rparr>) st)
                     in if loop \<noteq> 0 then (-1, mqtt_shutdown st) else (0, st)))"

section \<open>Messages\<close>

definition mqtt_on_message :: "string \<Rightarrow> string \<Rightarrow> ('c, 'h, 'z) hkm \<Rightarrow> ('c, 'h, 'z) hkm" where
  \<comment> \<open>a message too long or one too many is refused by \<open>mq_send\<close>\<close>
  "mqtt_on_message topic payload st =
     (let mbuf = topic @ [NUL] @ payload @ [NUL]
      in if length mbuf \<le> MSG_MAXSIZE \<and> length (mq_queue st) < MQ_MAXMSG
         then st\<lparr>mq_queue := mq_queue st @ [mbuf]\<rparr> else st)"

definition mqtt_msg_recv ::
    "(('c, 'h, 'z) hkm) mqtt_update \<Rightarrow> ('c, 'h, 'z) hkm \<Rightarrow> (int \<times> ('c, 'h, 'z) hkm) option" where
  "mqtt_msg_recv update st =
     (case mq_queue st of
        [] \<Rightarrow> Some (0, st)
      | mbuf # queue \<Rightarrow>
          let st = st\<lparr>mq_queue := queue\<rparr>
          in if length mbuf < 2 then Some (0, st)
             else
               let topic = cstr mbuf; val = cstr (drop (length topic + 1) mbuf)
               in map_option (\<lambda>st. (1, st)) (update (Some (topic, val)) st))"

definition mqtt_publish :: "int \<Rightarrow> string \<Rightarrow> string \<Rightarrow> bool \<Rightarrow> ('c, 'h, 'z) hkm \<Rightarrow> int \<times> ('c, 'h, 'z) hkm" where
  \<comment> \<open>\<open>ret\<close>: what \<open>mosquitto_publish\<close> returns\<close>
  "mqtt_publish ret name val retain st =
     (if \<not> mq_mosq (mqtt st) then (-1, st)
      else if mq_state (mqtt st) \<noteq> MQTT_ST_CONNECTED then (-1, st)
      else (if ret \<noteq> 0 then -1 else 0, mosq (Mosq_publish name val (mq_qos (mqtt st)) retain) st))"

definition mqtt_subscribe :: "int \<Rightarrow> string \<Rightarrow> ('c, 'h, 'z) hkm \<Rightarrow> int \<times> ('c, 'h, 'z) hkm" where
  "mqtt_subscribe ret name st =
     (if \<not> mq_mosq (mqtt st) then (-1, st)
      else if mq_state (mqtt st) \<noteq> MQTT_ST_CONNECTED then (-1, st)
      else (if ret \<noteq> 0 then -1 else 0, mosq (Mosq_subscribe name (mq_qos (mqtt st))) st))"

section \<open>Messages arrive in order\<close>

datatype mqtt_msg_step = Arrives string string | Receive

fun mqtt_run ::
    "(('c, 'h, 'z) hkm) mqtt_update \<Rightarrow> mqtt_msg_step list \<Rightarrow> ('c, 'h, 'z) hkm
      \<Rightarrow> ((string \<times> string) list \<times> ('c, 'h, 'z) hkm) option" where
  \<comment> \<open>with the updates that were delivered\<close>
  "mqtt_run update [] st = Some ([], st)"
| "mqtt_run update (Arrives topic payload # xs) st = mqtt_run update xs (mqtt_on_message topic payload st)"
| "mqtt_run update (Receive # xs) st =
     (let now = (case mq_queue st of [] \<Rightarrow> []
        | m # _ \<Rightarrow> if length m < 2 then [] else [(cstr m, cstr (drop (length (cstr m) + 1) m))])
      in Option.bind (mqtt_msg_recv update st)
           (\<lambda>(_, st). map_option (\<lambda>(ds, st). (now @ ds, st)) (mqtt_run update xs st)))"

fun arrivals :: "mqtt_msg_step list \<Rightarrow> (string \<times> string) list" where
  "arrivals [] = []"
| "arrivals (Arrives topic payload # xs) = (topic, payload) # arrivals xs"
| "arrivals (Receive # xs) = arrivals xs"

fun run_fits :: "nat \<Rightarrow> mqtt_msg_step list \<Rightarrow> bool" where
  \<comment> \<open>with \<open>n\<close> messages pending: no message is refused, and none is awaited in vain\<close>
  "run_fits n [] \<longleftrightarrow> True"
| "run_fits n (Arrives topic payload # xs) \<longleftrightarrow>
     NUL \<notin> set topic \<and> NUL \<notin> set payload \<and> length topic + length payload + 2 \<le> MSG_MAXSIZE \<and> n < MQ_MAXMSG \<and>
     run_fits (n + 1) xs"
| "run_fits n (Receive # xs) \<longleftrightarrow> 0 < n \<and> run_fits (n - 1) xs"

definition mbuf_of :: "string \<times> string \<Rightarrow> string" where
  "mbuf_of m = fst m @ [NUL] @ snd m @ [NUL]"

lemma mbuf_parts:
  assumes "NUL \<notin> set (fst m)" "NUL \<notin> set (snd m)"
  shows "cstr (mbuf_of m) = fst m" "cstr (drop (length (fst m) + 1) (mbuf_of m)) = snd m" "\<not> length (mbuf_of m) < 2"
  using assms by (simp_all add: mbuf_of_def cstr_append_NUL [of _ "[]"] cstr_append_NUL)

text \<open>
  The program on top of the client, as the client sees it: \<open>good\<close> is its invariant. An update
  returns and leaves the client alone, apart from what it publishes; and the invariant does not
  depend on the client and on the table of event sources.
\<close>

definition asked :: "('c, 'h, 'z) hkm \<Rightarrow> bool" where
  \<comment> \<open>a connection was asked for\<close>
  "asked s \<longleftrightarrow> (\<exists>host port. Mosq_connect_async host port \<in> set (mosq_calls s))"

definition client_step :: "('c, 'h, 'z) hkm \<Rightarrow> ('c, 'h, 'z) hkm \<Rightarrow> bool" where
  "client_step s s' \<longleftrightarrow>
     s' = s\<lparr>sources := sources s', last_tag := last_tag s', mqtt := mqtt s', mosq_calls := mosq_calls s', mq_queue := mq_queue s'\<rparr>"

locale mqtt_updates =
  fixes update :: "(('c, 'h, 'z) hkm) mqtt_update"
    and good :: "('c, 'h, 'z) hkm \<Rightarrow> bool"
  assumes update_returns: "good s \<Longrightarrow> \<exists>s'. update m s = Some s' \<and> good s' \<and>
      mqtt s' = mqtt s \<and> mq_queue s' = mq_queue s \<and> asked s' = asked s"
    and good_client: "good s \<Longrightarrow> client_step s s' \<Longrightarrow> good s'"
begin

lemma update_SomeD:
  "good s \<Longrightarrow> update m s = Some s' \<Longrightarrow> good s' \<and> mqtt s' = mqtt s \<and> mq_queue s' = mq_queue s \<and> asked s' = asked s"
  using update_returns [of s m] by auto

lemma good_queue: "good s \<Longrightarrow> good (s\<lparr>mq_queue := q\<rparr>)"
  by (erule good_client) (simp add: client_step_def)

lemma run_queue:
  assumes "good st" "mq_queue st = map mbuf_of pend" "run_fits (length pend) xs"
    "\<forall>m\<in>set pend. NUL \<notin> set (fst m) \<and> NUL \<notin> set (snd m)"
  shows "\<exists>ds st' pend'. mqtt_run update xs st = Some (ds, st') \<and> mq_queue st' = map mbuf_of pend' \<and>
    ds @ pend' = pend @ arrivals xs"
  using assms
proof (induction xs arbitrary: st pend)
  case (Cons x xs)
  show ?case
  proof (cases x)
    case (Arrives topic payload)
    have q: "mq_queue (mqtt_on_message topic payload st) = map mbuf_of (pend @ [(topic, payload)])"
      using Cons.prems(2,3) Arrives by (simp add: mqtt_on_message_def mbuf_of_def)
    have g: "good (mqtt_on_message topic payload st)"
      using Cons.prems(1) good_queue by (simp add: mqtt_on_message_def Let_def)
    from Cons.IH [OF g q] Cons.prems(3,4) Arrives show ?thesis by simp
  next
    case Receive
    then obtain m pend1 where p: "pend = m # pend1" using Cons.prems(3) by (cases pend) auto
    have m: "NUL \<notin> set (fst m)" "NUL \<notin> set (snd m)" using Cons.prems(4) p by simp_all
    obtain s1 where s1: "update (Some m) (st\<lparr>mq_queue := map mbuf_of pend1\<rparr>) = Some s1" "good s1"
      "mq_queue s1 = map mbuf_of pend1"
      using update_returns [OF good_queue [OF Cons.prems(1)], of "Some m"] by force
    obtain ds st' pend' where r: "mqtt_run update xs s1 = Some (ds, st')" "mq_queue st' = map mbuf_of pend'"
      "ds @ pend' = pend1 @ arrivals xs"
      using Cons.IH [OF s1(2,3)] Cons.prems(3,4) Receive p by auto
    have "mqtt_msg_recv update st = Some (1, s1)"
      using Cons.prems(2) p mbuf_parts [OF m] s1(1) by (simp add: mqtt_msg_recv_def Let_def)
    with Receive p Cons.prems(2) mbuf_parts [OF m] r show ?thesis by auto
  qed
qed auto

lemma messages_in_order:
  assumes "good st" "mq_queue st = []" "run_fits 0 xs"
  shows "\<exists>ds st'. mqtt_run update xs st = Some (ds, st') \<and>
    (\<exists>pend. ds @ pend = arrivals xs \<and> mq_queue st' = map (\<lambda>m. fst m @ [NUL] @ snd m @ [NUL]) pend)"
proof -
  have "mq_queue st = map mbuf_of []" "run_fits (length []) xs" using assms(2,3) by simp_all
  from run_queue [OF assms(1) this] obtain ds st' pend where
    r: "mqtt_run update xs st = Some (ds, st')" "mq_queue st' = map mbuf_of pend" "ds @ pend = arrivals xs"
    by auto
  show ?thesis
  proof (intro exI conjI)
    show "mqtt_run update xs st = Some (ds, st')" "ds @ pend = arrivals xs" by (rule r(1), rule r(3))
    show "mq_queue st' = map (\<lambda>m. fst m @ [NUL] @ snd m @ [NUL]) pend"
      unfolding r(2) by (rule map_cong [OF refl]) (simp add: mbuf_of_def)
  qed
qed

end

definition idle_client :: "(unit, unit) mqtt_state" where
  \<comment> \<open>a program with two free entries in its event table\<close>
  "idle_client = \<lparr>sources = [sys_source_clear, sys_source_clear], last_tag = 0, quit_requested = False, hk_clock = 0,
     classes = [], pads = [], nets = [], objs = [], tiles = [], tile_tab = [], opt_full_name = False, hk_sinks = [],
     hk_sources = [], trace_depth = 0, tstamp = 0, hkcp_port = 5678, hkcp_srv = tcp_srv_clear, hkcp_nodes = [],
     adv_fd = 0, adv_tag = 0, adv_handlers = [], adv_proto = 0, adv_broker = None, adv_out = [],
     mqtt = mqtt_zero, mosq_calls = [], mq_queue = []\<rparr>"

section \<open>Connections\<close>

text \<open>
  A specification \<open>user:password@host:port\<close> of a broker, any part of which may be left
  out, is taken apart into these parts, with the default port and the local host for missing ones.
\<close>

theorem broker_specification:
  assumes "CHR ''@'' \<notin> set user" "CHR '':'' \<notin> set user" "CHR ''@'' \<notin> set password"
    and "CHR ''@'' \<notin> set host" "CHR '':'' \<notin> set host" "- (2 ^ 31) \<le> port" "port < 2 ^ 31"
  shows "let h = (if host = [] then ''localhost'' else host) in
    parse_broker dflt host = (None, h, dflt) \<and>
    parse_broker dflt (host @ '':'' @ int_dec port) = (None, h, port) \<and>
    parse_broker dflt (user @ ''@'' @ host @ '':'' @ int_dec port) = (Some (user, None), h, port) \<and>
    parse_broker dflt (user @ '':'' @ password @ ''@'' @ host) = (Some (user, Some password), h, dflt) \<and>
    parse_broker dflt (user @ '':'' @ password @ ''@'' @ host @ '':'' @ int_dec port) = (Some (user, Some password), h, port)"
proof -
  have at: "CHR ''@'' \<notin> set (int_dec port)"
  proof
    assume "CHR ''@'' \<in> set (int_dec port)"
    then obtain n where "CHR ''@'' \<in> set (nat_dec n)" by (auto simp: int_dec_def split: if_splits)
    then show False using nat_dec_chars [of "CHR ''@''" n] by (auto simp: digit_val_def)
  qed
  have p: "atoi (int_dec port) = port" using assms(6,7) by (rule atoi_int_dec)
  have s1: "strchr (host @ CHR '':'' # r) CHR '':'' = Some (length host)" for r using assms(5) by (rule strchr_append)
  have s2: "strchr (user @ CHR ''@'' # r) CHR ''@'' = Some (length user)" for r using assms(1) by (rule strchr_append)
  have s3: "strchr (user @ CHR '':'' # r) CHR '':'' = Some (length user)" for r using assms(2) by (rule strchr_append)
  have s4: "strchr (user @ CHR '':'' # password @ CHR ''@'' # r) CHR ''@'' = Some (length user + Suc (length password))" for r
    using assms(1,3) strchr_append [of "CHR ''@''" "user @ CHR '':'' # password" r] by simp
  have s5: "strchr (host @ CHR '':'' # int_dec port) CHR ''@'' = None" using assms(4) at by (simp add: strchr_None_iff)
  show ?thesis using assms p s1 s2 s3 s4 s5 by (simp add: parse_broker_def Let_def)
qed

theorem broker_specification_witness:
  "parse_broker 1883 ''me:pw@box:1884'' = (Some (''me'', Some ''pw''), ''box'', 1884)"
proof -
  have "int_dec 1884 = ''1884''" by code_simp
  then show ?thesis using broker_specification [of "''me''" "''pw''" "''box''" 1884 1883] by (simp add: Let_def)
qed

text \<open>
  The events of a client: requests of the program, its timer, and the callbacks of the library,
  which come only after a connection has been asked for.
\<close>

inductive mqtt_event :: "(('c, 'h, 'z) hkm) mqtt_update \<Rightarrow> ('c, 'h, 'z) hkm \<Rightarrow> ('c, 'h, 'z) hkm \<Rightarrow> bool"
  for update where
  ev_connect: "mqtt_connect broker s = (ret, s') \<Longrightarrow> mqtt_event update s s'"
| ev_timer: "mq_timeout_tag (mqtt s) \<noteq> 0 \<Longrightarrow> mqtt_connect_now ret s = Some (r, s') \<Longrightarrow> mqtt_event update s s'"
| ev_up: "asked s \<Longrightarrow> mqtt_on_connect update rc s = Some s' \<Longrightarrow> mqtt_event update s s'"
| ev_down: "asked s \<Longrightarrow> mqtt_on_disconnect ret rc s = Some s' \<Longrightarrow> mqtt_event update s s'"
| ev_message: "mqtt_event update s (mqtt_on_message topic payload s)"
| ev_recv: "mqtt_msg_recv update s = Some (r, s') \<Longrightarrow> mqtt_event update s s'"
| ev_publish: "mqtt_publish ret name val retain s = (r, s') \<Longrightarrow> mqtt_event update s s'"
| ev_subscribe: "mqtt_subscribe ret name s = (r, s') \<Longrightarrow> mqtt_event update s s'"

definition broker_known :: "('c, 'h, 'z) hkm \<Rightarrow> bool" where
  "broker_known s \<longleftrightarrow>
     (mq_timeout_tag (mqtt s) \<noteq> 0 \<or> mq_state (mqtt s) \<noteq> MQTT_ST_DISCONNECTED \<or> asked s \<longrightarrow> mq_broker (mqtt s) \<noteq> None)"

lemma sys_mqtt_frame [simp]:
  fixes st :: "('c, 'h, 'z) hkm"
  shows "mqtt (sys_remove tag st) = mqtt st" "mosq_calls (sys_remove tag st) = mosq_calls st"
    "mqtt (snd (sys_timeout now delay func arg st)) = mqtt st"
    "mosq_calls (snd (sys_timeout now delay func arg st)) = mosq_calls st"
    "mqtt (snd (sys_io_watch fd func arg st)) = mqtt st"
    "mosq_calls (snd (sys_io_watch fd func arg st)) = mosq_calls st"
  by (auto simp: sys_remove_def upd_source_def sys_timeout_def with_source_def sys_source_add_def Let_def
      sys_io_watch_def sys_io_source_add_def split: option.split)

lemma client_simps [simp]:
  "mqtt (upd_mqtt g st) = g (mqtt st)" "mosq_calls (upd_mqtt g st) = mosq_calls st"
  "mqtt (mosq c st) = mqtt st" "mosq_calls (mosq c st) = mosq_calls st @ [c]"
  by (simp_all add: upd_mqtt_def mosq_def)

lemma timeout_simps [simp]:
  "mq_broker (mqtt (mqtt_timeout_stop st)) = mq_broker (mqtt st)"
  "mq_state (mqtt (mqtt_timeout_stop st)) = mq_state (mqtt st)"
  "mq_timeout_tag (mqtt (mqtt_timeout_stop st)) = 0" "mosq_calls (mqtt_timeout_stop st) = mosq_calls st"
  "mq_broker (mqtt (mqtt_timeout_start d st)) = mq_broker (mqtt st)"
  "mq_state (mqtt (mqtt_timeout_start d st)) = mq_state (mqtt st)"
  "mosq_calls (mqtt_timeout_start d st) = mosq_calls st"
  by (auto simp: mqtt_timeout_stop_def mqtt_timeout_start_def Let_def case_prod_beta)

lemma connect_now_effect:
  assumes "mq_broker (mqtt s) = Some broker"
  shows "\<exists>s'. mqtt_connect_now ret s = Some (0, s') \<and> mq_broker (mqtt s') = Some broker \<and>
    mq_state (mqtt s') = mq_state (mqtt s) \<and>
    (\<exists>login host port. parse_broker (mq_port (mqtt s)) broker = (login, host, port) \<and>
       last (mosq_calls s') = Mosq_connect_async host port \<and> asked s')"
proof -
  obtain login host port where p: "parse_broker (mq_port (mqtt s)) broker = (login, host, port)" by (metis prod_cases3)
  then show ?thesis
    using assms by (cases login) (auto simp: mqtt_connect_now_def Let_def asked_def)
qed

lemma client_step_refl [simp]: "client_step s s"
  by (cases s) (simp add: client_step_def)

lemma client_step_trans: "client_step s s1 \<Longrightarrow> client_step s1 s2 \<Longrightarrow> client_step s s2"
  by (cases s; cases s1; cases s2) (simp add: client_step_def)

lemma client_steps:
  fixes s :: "('c, 'h, 'z) hkm"
  shows "client_step s (sys_remove tag s)" "client_step s (upd_mqtt g s)" "client_step s (mosq c s)"
    "client_step s (s\<lparr>mq_queue := q\<rparr>)" "client_step s (s\<lparr>mqtt := m\<rparr>)"
    "client_step s (snd (sys_timeout now delay func arg s))" "client_step s (snd (sys_io_watch fd func arg s))"
  by (cases s; auto simp: client_step_def sys_remove_def upd_source_def sys_timeout_def with_source_def sys_source_add_def
      sys_io_watch_def sys_io_source_add_def upd_mqtt_def mosq_def Let_def split: option.split)+

lemmas client_step_then = client_steps [THEN client_step_trans [rotated]]

lemma timer_client_step: "client_step s s1 \<Longrightarrow> client_step s (mqtt_timeout_stop s1)"
  "client_step s s1 \<Longrightarrow> client_step s (mqtt_timeout_start d s1)"
  by (auto simp: mqtt_timeout_stop_def mqtt_timeout_start_def Let_def case_prod_beta intro: client_step_then)

lemma connect_client_step:
  "client_step s s1 \<Longrightarrow> mqtt_connect_now ret s1 = Some (r, s2) \<Longrightarrow> client_step s s2"
  "client_step s s1 \<Longrightarrow> client_step s (snd (mqtt_connect broker s1))"
  by (auto simp: mqtt_connect_now_def mqtt_connect_def Let_def split: option.splits prod.splits
      intro!: client_step_then timer_client_step)

lemma messages_client_step:
  "client_step s (mqtt_on_message topic payload s)" "client_step s (snd (mqtt_publish ret name val retain s))"
  "client_step s (snd (mqtt_subscribe ret name s))"
  by (simp_all add: mqtt_on_message_def mqtt_publish_def mqtt_subscribe_def Let_def client_steps)

lemma shutdown_client_step: "client_step s s1 \<Longrightarrow> client_step s (mqtt_shutdown s1)"
  by (simp add: mqtt_shutdown_def Let_def client_step_then timer_client_step)

lemma init_client_step: "client_step s (snd (mqtt_init lib new mq loop certs s))"
  by (auto simp: mqtt_init_def Let_def case_prod_beta split: option.split
      intro!: client_step_then shutdown_client_step client_steps)

context mqtt_updates begin

lemma event_good:
  assumes "mqtt_event update s s'" "good s"
  shows "good s'"
  using assms(1)
proof cases
  case (ev_up rc)
  have "good (mqtt_timeout_stop (upd_mqtt (\<lambda>m. m\<lparr>mq_state := MQTT_ST_CONNECTED\<rparr>) s))"
    by (rule good_client [OF assms(2)]) (intro timer_client_step client_steps)
  with ev_up show ?thesis by (auto simp: mqtt_on_connect_def dest: update_SomeD)
next
  case (ev_down ret rc)
  have "client_step s s'"
  proof (cases "mq_state (mqtt s) = MQTT_ST_RECONNECT")
    case True
    with ev_down obtain r where r: "mqtt_connect_now ret (mqtt_timeout_stop s) = Some (r, s')"
      by (auto simp: mqtt_on_disconnect_def Let_def)
    show ?thesis by (rule connect_client_step(1) [OF timer_client_step(1) [OF client_step_refl] r])
  next
    case False
    with ev_down show ?thesis
      by (auto simp: mqtt_on_disconnect_def Let_def split: if_splits intro!: timer_client_step)
  qed
  then show ?thesis by (rule good_client [OF assms(2)])
next
  case (ev_recv r)
  with update_SomeD good_queue [OF assms(2)] assms(2) show ?thesis
    by (auto simp: mqtt_msg_recv_def Let_def split: list.splits if_splits)
next
  case (ev_connect broker ret)
  then show ?thesis using good_client [OF assms(2) connect_client_step(2) [OF client_step_refl], of broker] by simp
next
  case (ev_timer ret r)
  then show ?thesis using good_client [OF assms(2) connect_client_step(1) [OF client_step_refl]] by blast
next
  case (ev_message topic payload)
  then show ?thesis using good_client [OF assms(2) messages_client_step(1)] by simp
next
  case (ev_publish ret name val retain r)
  then show ?thesis using good_client [OF assms(2) messages_client_step(2), of ret name val retain] by simp
next
  case (ev_subscribe ret name r)
  then show ?thesis using good_client [OF assms(2) messages_client_step(3), of ret name] by simp
qed

lemma event_broker_known:
  assumes "mqtt_event update s s'" "good s" "broker_known s"
  shows "broker_known s'"
  using assms(1)
proof cases
  case (ev_connect broker ret)
  then show ?thesis
    by (auto simp: mqtt_connect_def Let_def broker_known_def split: if_splits)
next
  case (ev_timer ret r)
  then obtain broker where "mq_broker (mqtt s) = Some broker" using assms(3) by (auto simp: broker_known_def)
  with connect_now_effect [OF this, of ret] ev_timer show ?thesis by (auto simp: broker_known_def)
next
  case (ev_up rc)
  let ?s = "mqtt_timeout_stop (upd_mqtt (\<lambda>m. m\<lparr>mq_state := MQTT_ST_CONNECTED\<rparr>) s)"
  have "good ?s" by (rule good_client [OF assms(2)]) (intro timer_client_step client_steps)
  from update_SomeD [OF this] ev_up have "mqtt s' = mqtt ?s" by (auto simp: mqtt_on_connect_def)
  moreover have "mq_broker (mqtt s) \<noteq> None" using ev_up assms(3) by (simp add: broker_known_def)
  ultimately show ?thesis by (simp add: broker_known_def)
next
  case (ev_down ret rc)
  then obtain broker where b: "mq_broker (mqtt s) = Some broker" using assms(3) by (auto simp: broker_known_def)
  then have "mq_broker (mqtt (mqtt_timeout_stop s)) = Some broker" by simp
  from connect_now_effect [OF this, of ret] b ev_down show ?thesis
    by (auto simp: mqtt_on_disconnect_def Let_def broker_known_def split: if_splits)
next
  case (ev_message topic payload)
  then show ?thesis using assms(3) by (simp add: mqtt_on_message_def Let_def broker_known_def asked_def)
next
  case (ev_recv r)
  have q: "mqtt (s\<lparr>mq_queue := q\<rparr>) = mqtt s" "asked (s\<lparr>mq_queue := q\<rparr>) = asked s" for q by (simp_all add: asked_def)
  from ev_recv q update_SomeD [OF good_queue [OF assms(2)]] have "mqtt s' = mqtt s \<and> asked s' = asked s"
    by (auto simp: mqtt_msg_recv_def Let_def split: list.splits if_splits)
  with assms(3) show ?thesis by (simp add: broker_known_def)
next
  case (ev_publish ret name val retain r)
  then show ?thesis using assms(3)
    by (auto simp: mqtt_publish_def broker_known_def asked_def mosq_def split: if_splits)
next
  case (ev_subscribe ret name r)
  then show ?thesis using assms(3)
    by (auto simp: mqtt_subscribe_def broker_known_def asked_def mosq_def split: if_splits)
qed

end

lemma init_broker_known:
  assumes "mqtt_init lib new mq loop certs s0 = (0, s1)" "mosq_calls s0 = []"
  shows "broker_known s1"
proof -
  have "mq_timeout_tag (mqtt s1) = 0 \<and> mq_state (mqtt s1) = MQTT_ST_DISCONNECTED \<and> \<not> asked s1"
    using assms
    by (auto simp: mqtt_init_def mqtt_zero_def asked_def Let_def case_prod_beta split: option.splits if_splits)
  then show ?thesis by (simp add: broker_known_def)
qed

lemma disconnect_reconnects:
  assumes "broker_known s" "asked s" "mq_state (mqtt s) \<in> {MQTT_ST_CONNECTED, MQTT_ST_RECONNECT}"
  shows "\<exists>broker s' s''. mq_broker (mqtt s) = Some broker \<and> mqtt_on_disconnect ret rc s = Some s' \<and>
    (if mq_state (mqtt s) = MQTT_ST_RECONNECT then s'' = s'
     else s' = mqtt_timeout_start 60000 (mqtt_timeout_stop s) \<and> mqtt_connect_now ret s' = Some (0, s'')) \<and>
    (case parse_broker (mq_port (mqtt s)) broker of (login, host, port) \<Rightarrow>
       Mosq_connect_async host port = last (mosq_calls s''))"
proof -
  obtain broker where b: "mq_broker (mqtt s) = Some broker" using assms by (auto simp: broker_known_def)
  have port: "mq_port (mqtt (mqtt_timeout_stop s)) = mq_port (mqtt s)"
    "mq_port (mqtt (mqtt_timeout_start d (mqtt_timeout_stop s))) = mq_port (mqtt s)" for d
    by (auto simp: mqtt_timeout_stop_def mqtt_timeout_start_def Let_def case_prod_beta)
  show ?thesis
  proof (cases "mq_state (mqtt s) = MQTT_ST_RECONNECT")
    case True
    from connect_now_effect [of "mqtt_timeout_stop s" broker ret] b port
    obtain s' login host pt where "mqtt_connect_now ret (mqtt_timeout_stop s) = Some (0, s')"
      "parse_broker (mq_port (mqtt s)) broker = (login, host, pt)" "last (mosq_calls s') = Mosq_connect_async host pt"
      by auto
    with True b show ?thesis by (auto simp: mqtt_on_disconnect_def Let_def)
  next
    case False
    let ?s' = "mqtt_timeout_start 60000 (mqtt_timeout_stop s)"
    from connect_now_effect [of ?s' broker ret] b port
    obtain s'' login host pt where "mqtt_connect_now ret ?s' = Some (0, s'')"
      "parse_broker (mq_port (mqtt s)) broker = (login, host, pt)" "last (mosq_calls s'') = Mosq_connect_async host pt"
      by auto
    with False b assms(3) show ?thesis by (auto simp: mqtt_on_disconnect_def MQTT_RECONNECT_DELAY_def Let_def)
  qed
qed

end
