(* ===== verification/Hk_Ws.thy ===== *)
theory Hk_Ws
  imports Hk_Command
begin

text \<open>
  The HTTP and websocket server: \<^verbatim>\<open>core/ws_server.c\<close>, \<^verbatim>\<open>core/ws_events.c\<close>, \<^verbatim>\<open>core/ws_auth.c\<close>,
  \<^verbatim>\<open>core/ws_http.c\<close>, \<^verbatim>\<open>core/mime.c\<close>, on top of libwebsockets. What the library answers is an
  argument: the padding \<open>pre\<close> it wants before the data of a write, the base 64 encoding, the
  header of a request, the outcome of a write. Text handed to it is recorded in \<open>we_frames\<close>, a
  callback that was asked for in \<open>we_asked\<close>. Sessions live in a store, \<open>ws_pss\<close>, and the table
  of the server points into it. The command received by a session is run in \<open>Hk_CommCmd\<close>.
\<close>

section \<open>The server\<close>

record ws_alias =
  al_location :: "string option"
  al_dir :: string

record ws_session =
  we_cmd :: "command option"
  we_out :: string
  we_id :: int
  we_asked :: bool
  we_frames :: "string list"

record ws_server =
  ws_document_roots :: "string list"
  ws_aliases :: "ws_alias list"
  ws_sessions :: "nat option list"
  ws_handler :: bool
  ws_salt :: int
  ws_pss :: "ws_session list"

definition ws_server_init :: "bool \<Rightarrow> ws_server \<Rightarrow> int \<times> ws_server" where
  \<comment> \<open>\<open>context\<close>: the library could create one\<close>
  "ws_server_init context server =
     (if \<not> context then (-1, server)
      else (0, server\<lparr>ws_document_roots := [], ws_aliases := [], ws_sessions := []\<rparr>))"

definition ws_server_destroy :: "ws_server \<Rightarrow> ws_server" where
  "ws_server_destroy server = server\<lparr>ws_document_roots := []\<rparr>"

definition ws_add_document_root :: "string \<Rightarrow> ws_server \<Rightarrow> ws_server" where
  "ws_add_document_root dir server =
     (if dir \<in> set (ws_document_roots server) then server
      else server\<lparr>ws_document_roots := ws_document_roots server @ [dir]\<rparr>)"

definition ws_alias_add :: "string option \<Rightarrow> string \<Rightarrow> ws_server \<Rightarrow> ws_server" where
  "ws_alias_add location dir server =
     server\<lparr>ws_aliases := ws_aliases server @ [\<lparr>al_location = location, al_dir = dir\<rparr>]\<rparr>"

definition ws_session_add :: "nat \<Rightarrow> ws_server \<Rightarrow> int \<times> ws_server" where
  "ws_session_add pss server =
     (let salt = (ws_salt server + 1) mod 256;
          sessions = ws_sessions server;
          i = (case find_index (\<lambda>p. p = None) sessions of Some i \<Rightarrow> i | None \<Rightarrow> length sessions)
      in (salt * 256 + int i mod 256,
          server\<lparr>ws_salt := salt,
            ws_sessions := (if i < length sessions then sessions[i := Some pss] else sessions @ [Some pss])\<rparr>))"

definition ws_session_remove :: "nat \<Rightarrow> ws_server \<Rightarrow> ws_server" where
  "ws_session_remove pss server =
     server\<lparr>ws_sessions := map (\<lambda>p. if p = Some pss then None else p) (ws_sessions server)\<rparr>"

definition ws_session_foreach :: "(ws_server \<Rightarrow> nat \<Rightarrow> ws_server) \<Rightarrow> ws_server \<Rightarrow> ws_server" where
  "ws_session_foreach func server =
     foldl (\<lambda>server p. case p of None \<Rightarrow> server | Some pss \<Rightarrow> func server pss) server (ws_sessions server)"

definition ws_server_set_command_handler :: "ws_server \<Rightarrow> ws_server" where
  "ws_server_set_command_handler server = server\<lparr>ws_handler := True\<rparr>"

section \<open>Events\<close>

definition upd_pss :: "nat \<Rightarrow> (ws_session \<Rightarrow> ws_session) \<Rightarrow> ws_server \<Rightarrow> ws_server" where
  "upd_pss d g server = server\<lparr>ws_pss := map_nth d g (ws_pss server)\<rparr>"

definition ws_pad :: "nat \<Rightarrow> string \<Rightarrow> string" where
  \<comment> \<open>room for the padding in an empty buffer\<close>
  "ws_pad pre out = (if out = [] then replicate pre NUL else out)"

definition ws_events_send_session :: "nat \<Rightarrow> string \<Rightarrow> ws_server \<Rightarrow> nat \<Rightarrow> ws_server" where
  "ws_events_send_session pre str server d =
     upd_pss d (\<lambda>s. s\<lparr>we_out := ws_pad pre (we_out s) @ str @ [LF]\<rparr>) server"

definition ws_ask_all :: "ws_server \<Rightarrow> ws_server" where
  \<comment> \<open>\<open>lws_callback_on_writable_all_protocol\<close>: every connection of the protocol\<close>
  "ws_ask_all server = server\<lparr>ws_pss := map (\<lambda>s. s\<lparr>we_asked := True\<rparr>) (ws_pss server)\<rparr>"

definition ws_events_send :: "nat \<Rightarrow> string \<Rightarrow> ws_server \<Rightarrow> ws_server" where
  "ws_events_send pre str server = ws_ask_all (ws_session_foreach (ws_events_send_session pre str) server)"

definition ws_server_send_event :: "nat \<Rightarrow> string \<Rightarrow> ws_server \<Rightarrow> ws_server" where
  "ws_server_send_event = ws_events_send"

definition ws_events_established :: "bool \<Rightarrow> ws_server \<Rightarrow> int \<times> ws_server" where
  \<comment> \<open>a new connection; \<open>auth\<close>: \<open>ws_auth_check\<close> accepts it\<close>
  "ws_events_established auth server =
     (let d = length (ws_pss server);
          server = server\<lparr>ws_pss := ws_pss server @
            [\<lparr>we_cmd = Some command_new, we_out = [], we_id = 0, we_asked = False, we_frames = []\<rparr>]\<rparr>
      in case ws_session_add d server of
           (salted, server) \<Rightarrow> (if auth then 0 else -1, upd_pss d (\<lambda>s. s\<lparr>we_id := salted\<rparr>) server))"

definition ws_receive_begin :: "nat \<Rightarrow> nat \<Rightarrow> ws_server \<Rightarrow> ws_server" where
  "ws_receive_begin pre d = upd_pss d (\<lambda>s. s\<lparr>we_out := ws_pad pre (we_out s)\<rparr>)"

definition ws_out_append :: "nat \<Rightarrow> string \<Rightarrow> ws_server \<Rightarrow> ws_server" where
  \<comment> \<open>what a command appends to the buffer of its session\<close>
  "ws_out_append d str = upd_pss d (\<lambda>s. s\<lparr>we_out := we_out s @ str\<rparr>)"

definition ws_receive_end :: "nat \<Rightarrow> ws_server \<Rightarrow> ws_server" where
  "ws_receive_end d = upd_pss d (\<lambda>s. s\<lparr>we_asked := True\<rparr>)"

definition ws_events_writeable :: "nat \<Rightarrow> nat \<Rightarrow> ws_server \<Rightarrow> int \<times> ws_server" where
  \<comment> \<open>what \<open>lws_write\<close> returns is tested, and the result put in a variable that hides the one
    which is returned\<close>
  "ws_events_writeable pre d server =
     (0, upd_pss d (\<lambda>s. let s = s\<lparr>we_asked := False\<rparr>
                        in if pre < length (we_out s)
                           then s\<lparr>we_frames := we_frames s @ [drop pre (we_out s)], we_out := []\<rparr> else s) server)"

definition ws_events_closed :: "nat \<Rightarrow> ws_server \<Rightarrow> int \<times> ws_server" where
  "ws_events_closed d server =
     (0, ws_session_remove d (upd_pss d (\<lambda>s. s\<lparr>we_cmd := None, we_out := [], we_id := -1\<rparr>) server))"

section \<open>Every session gets every event\<close>

datatype ws_step =
    Ws_open bool
  | Ws_event string
  | Ws_command nat "(string + string) list"
    \<comment> \<open>a command of a session: what it answers, and the events it causes meanwhile\<close>
  | Ws_flush nat
  | Ws_close nat

fun ws_do :: "nat \<Rightarrow> ws_server \<Rightarrow> ws_step \<Rightarrow> ws_server" where
  "ws_do pre s (Ws_open auth) = snd (ws_events_established auth s)"
| "ws_do pre s (Ws_event e) = ws_server_send_event pre e s"
| "ws_do pre s (Ws_command d parts) =
     ws_receive_end d (foldl (\<lambda>s p. case p of Inl str \<Rightarrow> ws_out_append d str s | Inr e \<Rightarrow> ws_server_send_event pre e s)
       (ws_receive_begin pre d s) parts)"
| "ws_do pre s (Ws_flush d) = snd (ws_events_writeable pre d s)"
| "ws_do pre s (Ws_close d) = snd (ws_events_closed d s)"

fun part_seen :: "bool \<Rightarrow> string + string \<Rightarrow> string" where
  "part_seen own (Inl str) = (if own then str else [])"
| "part_seen own (Inr e) = e @ [LF]"

fun step_seen :: "nat \<Rightarrow> ws_step \<Rightarrow> string" where
  \<comment> \<open>what session \<open>d\<close> should see of a step\<close>
  "step_seen d (Ws_event e) = e @ [LF]"
| "step_seen d (Ws_command d' parts) = concat (map (part_seen (d' = d)) parts)"
| "step_seen d _ = []"

definition ws_stream :: "nat \<Rightarrow> ws_session \<Rightarrow> string" where
  "ws_stream pre x = concat (we_frames x) @ drop pre (we_out x)"

definition out_ok :: "nat \<Rightarrow> string \<Rightarrow> bool" where
  "out_ok pre out \<longleftrightarrow> out = [] \<or> pre \<le> length out"

definition ws_wf :: "nat \<Rightarrow> nat set \<Rightarrow> ws_server \<Rightarrow> bool" where
  \<comment> \<open>except for those in \<open>ex\<close>, a session with text to send has asked for a callback\<close>
  "ws_wf pre ex s \<longleftrightarrow>
     distinct (filter (\<lambda>p. p \<noteq> None) (ws_sessions s)) \<and> (\<forall>d. Some d \<in> set (ws_sessions s) \<longrightarrow> d < length (ws_pss s)) \<and>
     (\<forall>d<length (ws_pss s). out_ok pre (we_out (ws_pss s ! d)) \<and>
        (d \<notin> ex \<and> pre < length (we_out (ws_pss s ! d)) \<longrightarrow> we_asked (ws_pss s ! d)))"

lemma upd_pss_simps [simp]:
  "ws_sessions (upd_pss d g s) = ws_sessions s" "ws_pss (upd_pss d g s) = map_nth d g (ws_pss s)"
  by (simp_all add: upd_pss_def)

lemma out_append_simps [simp]:
  "ws_sessions (ws_out_append d str s) = ws_sessions s" "length (ws_pss (ws_out_append d str s)) = length (ws_pss s)"
  by (simp_all add: ws_out_append_def)

lemma foreach_pss:
  assumes "distinct (filter (\<lambda>p. p \<noteq> None) ps)"
  shows "length (ws_pss (foldl (\<lambda>s p. case p of None \<Rightarrow> s | Some d \<Rightarrow> upd_pss d g s) s ps)) = length (ws_pss s) \<and>
    ws_sessions (foldl (\<lambda>s p. case p of None \<Rightarrow> s | Some d \<Rightarrow> upd_pss d g s) s ps) = ws_sessions s \<and>
    (\<forall>d<length (ws_pss s). ws_pss (foldl (\<lambda>s p. case p of None \<Rightarrow> s | Some d \<Rightarrow> upd_pss d g s) s ps) ! d =
       (if Some d \<in> set ps then g (ws_pss s ! d) else ws_pss s ! d))"
  using assms
proof (induction ps arbitrary: s)
  case (Cons p ps)
  show ?case
  proof (cases p)
    case None
    then show ?thesis using Cons by simp
  next
    case (Some e)
    have "Some e \<notin> set ps" using Cons.prems Some by auto
    then show ?thesis using Cons.IH [of "upd_pss e g s"] Cons.prems Some by (auto simp: nth_map_nth)
  qed
qed simp

lemma send_event_pss:
  assumes "distinct (filter (\<lambda>p. p \<noteq> None) (ws_sessions s))"
  shows "length (ws_pss (ws_server_send_event pre e s)) = length (ws_pss s)"
    "ws_sessions (ws_server_send_event pre e s) = ws_sessions s"
    "d < length (ws_pss s) \<Longrightarrow> ws_pss (ws_server_send_event pre e s) ! d =
      (let x = ws_pss s ! d in if Some d \<in> set (ws_sessions s)
       then x\<lparr>we_out := ws_pad pre (we_out x) @ e @ [LF], we_asked := True\<rparr> else x\<lparr>we_asked := True\<rparr>)"
proof -
  have f: "ws_session_foreach (ws_events_send_session pre e) s =
      foldl (\<lambda>s p. case p of None \<Rightarrow> s | Some d \<Rightarrow>
        upd_pss d (\<lambda>x. x\<lparr>we_out := ws_pad pre (we_out x) @ e @ [LF]\<rparr>) s) s (ws_sessions s)"
    unfolding ws_session_foreach_def ws_events_send_session_def ..
  note r = foreach_pss [OF assms, of "\<lambda>x. x\<lparr>we_out := ws_pad pre (we_out x) @ e @ [LF]\<rparr>" s]
  show "length (ws_pss (ws_server_send_event pre e s)) = length (ws_pss s)"
    "ws_sessions (ws_server_send_event pre e s) = ws_sessions s"
    using r by (simp_all add: ws_server_send_event_def ws_events_send_def ws_ask_all_def f)
  show "d < length (ws_pss s) \<Longrightarrow> ws_pss (ws_server_send_event pre e s) ! d =
      (let x = ws_pss s ! d in if Some d \<in> set (ws_sessions s)
       then x\<lparr>we_out := ws_pad pre (we_out x) @ e @ [LF], we_asked := True\<rparr> else x\<lparr>we_asked := True\<rparr>)"
    using r by (simp add: ws_server_send_event_def ws_events_send_def ws_ask_all_def f Let_def)
qed

lemma drop_pad: "out_ok pre out \<Longrightarrow> drop pre (ws_pad pre out @ str) = drop pre out @ str"
  by (auto simp: ws_pad_def out_ok_def)

lemma out_ok_pad: "out_ok pre (ws_pad pre out @ str)" if "out_ok pre out"
  using that by (auto simp: ws_pad_def out_ok_def)

lemma send_event_keeps:
  assumes "ws_wf pre ex s"
  shows "ws_wf pre ex (ws_server_send_event pre e s)"
proof -
  have d: "distinct (filter (\<lambda>p. p \<noteq> None) (ws_sessions s))" using assms by (simp add: ws_wf_def)
  show ?thesis
    using assms send_event_pss [OF d] out_ok_pad by (auto simp: ws_wf_def Let_def)
qed

lemma send_event_stream:
  assumes "ws_wf pre ex s" "Some d \<in> set (ws_sessions s)"
  shows "ws_stream pre (ws_pss (ws_server_send_event pre e s) ! d) = ws_stream pre (ws_pss s ! d) @ e @ [LF]"
proof -
  have d: "distinct (filter (\<lambda>p. p \<noteq> None) (ws_sessions s))" "d < length (ws_pss s)" "out_ok pre (we_out (ws_pss s ! d))"
    using assms by (simp_all add: ws_wf_def)
  show ?thesis
    using assms(2) send_event_pss(3) [OF d(1,2), where pre = pre and e = e] drop_pad [OF d(3), of "e @ [LF]"]
    by (simp add: Let_def ws_stream_def del: drop_append)
qed

lemma upd_keeps:
  assumes "ws_wf pre ex s" "\<And>x. out_ok pre (we_out x) \<Longrightarrow> out_ok pre (we_out (g x))"
    and "\<And>x. d \<notin> ex' \<Longrightarrow> pre < length (we_out (g x)) \<Longrightarrow> we_asked (g x)" "ex - {d} \<subseteq> ex'"
  shows "ws_wf pre ex' (upd_pss d g s)"
  using assms by (auto simp: ws_wf_def nth_map_nth)

lemma parts_stream:
  assumes "ws_wf pre {d} s" "\<forall>str. Inl str \<in> set parts \<longrightarrow> d < length (ws_pss s) \<longrightarrow> we_out (ws_pss s ! d) \<noteq> [] \<or> pre = 0"
    and "Some e \<in> set (ws_sessions s)"
  defines "s' \<equiv> foldl (\<lambda>s p. case p of Inl str \<Rightarrow> ws_out_append d str s | Inr ev \<Rightarrow> ws_server_send_event pre ev s) s parts"
  shows "ws_wf pre {d} s' \<and> ws_sessions s' = ws_sessions s \<and> length (ws_pss s') = length (ws_pss s) \<and>
    ws_stream pre (ws_pss s' ! e) = ws_stream pre (ws_pss s ! e) @ concat (map (part_seen (d = e)) parts)"
  using assms(1-3) unfolding s'_def
proof (induction parts arbitrary: s)
  case (Cons p parts)
  have dist: "distinct (filter (\<lambda>p. p \<noteq> None) (ws_sessions s))" and e: "e < length (ws_pss s)" "out_ok pre (we_out (ws_pss s ! e))"
    using Cons.prems(1,3) by (simp_all add: ws_wf_def)
  show ?case
  proof (cases p)
    case (Inl str)
    let ?s1 = "ws_out_append d str s"
    have ok: "d < length (ws_pss s) \<Longrightarrow> we_out (ws_pss s ! d) \<noteq> [] \<or> pre = 0"
      using Cons.prems(2) Inl by auto
    have wf: "ws_wf pre {d} ?s1"
      using Cons.prems(1) ok by (auto simp: ws_out_append_def ws_wf_def nth_map_nth out_ok_def)
    have st: "ws_stream pre (ws_pss ?s1 ! e) = ws_stream pre (ws_pss s ! e) @ part_seen (d = e) p"
      using e ok Inl by (auto simp: ws_out_append_def nth_map_nth ws_stream_def out_ok_def)
    have "\<forall>str. Inl str \<in> set parts \<longrightarrow> d < length (ws_pss ?s1) \<longrightarrow> we_out (ws_pss ?s1 ! d) \<noteq> [] \<or> pre = 0"
      using ok by (auto simp: ws_out_append_def)
    from Cons.IH [OF wf this] Cons.prems(3) Inl st show ?thesis by simp
  next
    case (Inr ev)
    let ?s1 = "ws_server_send_event pre ev s"
    note se = send_event_pss [OF dist, where pre = pre and e = ev]
    have "we_out (ws_pss ?s1 ! d) \<noteq> [] \<or> pre = 0" if "we_out (ws_pss s ! d) \<noteq> [] \<or> pre = 0" "d < length (ws_pss s)"
      using that se(3) [of d] by (simp add: Let_def)
    then have "\<forall>str. Inl str \<in> set parts \<longrightarrow> d < length (ws_pss ?s1) \<longrightarrow> we_out (ws_pss ?s1 ! d) \<noteq> [] \<or> pre = 0"
      using Cons.prems(2) se(1) by auto
    from Cons.IH [OF send_event_keeps [OF Cons.prems(1)] this] Cons.prems(3) se(1,2) Inr
      send_event_stream [OF Cons.prems(1,3), of ev] show ?thesis by simp
  qed
qed simp

lemma opened_keeps:
  assumes "ws_wf pre {} s" "Some e \<in> set (ws_sessions s)"
  shows "ws_wf pre {} (ws_do pre s (Ws_open auth)) \<and> Some e \<in> set (ws_sessions (ws_do pre s (Ws_open auth))) \<and>
    ws_stream pre (ws_pss (ws_do pre s (Ws_open auth)) ! e) = ws_stream pre (ws_pss s ! e)"
proof -
  let ?d = "length (ws_pss s)" and ?ss = "ws_sessions s" and ?s' = "ws_do pre s (Ws_open auth)"
  let ?x = "\<lambda>id. \<lparr>we_cmd = Some command_new, we_out = [], we_id = id, we_asked = False, we_frames = []\<rparr>"
  obtain k where p: "ws_pss ?s' = ws_pss s @ [?x k]"
    by (simp add: ws_events_established_def ws_session_add_def Let_def map_nth_def)
  let ?i = "case find_index (\<lambda>p. p = None) ?ss of Some i \<Rightarrow> i | None \<Rightarrow> length ?ss"
  have q: "ws_sessions ?s' = (if ?i < length ?ss then ?ss[?i := Some ?d] else ?ss @ [Some ?d])"
    by (cases "find_index (\<lambda>p. p = None) ?ss") (simp_all add: ws_events_established_def ws_session_add_def Let_def)
  have new: "Some ?d \<notin> set ?ss" using assms(1) by (auto simp: ws_wf_def)
  have dist: "distinct (filter (\<lambda>p. p \<noteq> None) ?ss)" using assms(1) by (simp add: ws_wf_def)
  have s': "(\<exists>as bs. ?ss = as @ None # bs \<and> ws_sessions ?s' = as @ Some ?d # bs) \<or> ws_sessions ?s' = ?ss @ [Some ?d]"
  proof (cases "find_index (\<lambda>p. p = None) ?ss")
    case (Some i)
    then have i: "i < length ?ss" "?ss ! i = None" using find_index_SomeD by blast+
    then show ?thesis using q Some id_take_nth_drop [OF i(1)] upd_conv_take_nth_drop [OF i(1), of "Some ?d"] by auto
  qed (use q in simp)
  then have q': "distinct (filter (\<lambda>p. p \<noteq> None) (ws_sessions ?s'))"
    "set (ws_sessions ?s') \<subseteq> insert (Some ?d) (set ?ss)" "\<And>x. Some x \<in> set ?ss \<Longrightarrow> Some x \<in> set (ws_sessions ?s')"
    using dist new by auto
  have e: "e < ?d" using assms by (simp add: ws_wf_def)
  have "ws_wf pre {} ?s'"
    using assms(1) q' p unfolding ws_wf_def by (auto simp: nth_append out_ok_def)
  then show ?thesis using q'(3) [OF assms(2)] p e by (simp add: nth_append)
qed

lemma step_stream:
  assumes "ws_wf pre {} s" "Some e \<in> set (ws_sessions s)" "x \<noteq> Ws_close e"
  shows "ws_wf pre {} (ws_do pre s x) \<and> Some e \<in> set (ws_sessions (ws_do pre s x)) \<and>
    ws_stream pre (ws_pss (ws_do pre s x) ! e) = ws_stream pre (ws_pss s ! e) @ step_seen e x"
proof (cases x)
  case (Ws_open auth)
  then show ?thesis using opened_keeps [OF assms(1,2)] by simp
next
  case (Ws_event ev)
  have dist: "distinct (filter (\<lambda>p. p \<noteq> None) (ws_sessions s))" using assms(1) by (simp add: ws_wf_def)
  show ?thesis
    using Ws_event send_event_keeps [OF assms(1)] send_event_stream [OF assms(1,2)] send_event_pss(2) [OF dist] assms(2) by simp
next
  case (Ws_command d parts)
  let ?s1 = "ws_receive_begin pre d s"
  have wf1: "ws_wf pre {d} ?s1"
    unfolding ws_receive_begin_def by (rule upd_keeps [OF assms(1)]) (auto simp: out_ok_def ws_pad_def)
  have e: "e < length (ws_pss s)" "out_ok pre (we_out (ws_pss s ! e))" using assms(1,2) by (simp_all add: ws_wf_def)
  have se: "ws_stream pre (ws_pss ?s1 ! e) = ws_stream pre (ws_pss s ! e)"
    using e drop_pad [OF e(2), of "[]"] by (simp add: ws_receive_begin_def nth_map_nth ws_stream_def)
  have "\<forall>str. Inl str \<in> set parts \<longrightarrow> d < length (ws_pss ?s1) \<longrightarrow> we_out (ws_pss ?s1 ! d) \<noteq> [] \<or> pre = 0"
    by (simp add: ws_receive_begin_def ws_pad_def)
  note p = parts_stream [OF wf1 this, of e]
  let ?s2 = "foldl (\<lambda>s p. case p of Inl str \<Rightarrow> ws_out_append d str s | Inr ev \<Rightarrow> ws_server_send_event pre ev s) ?s1 parts"
  have p': "ws_wf pre {d} ?s2" "ws_sessions ?s2 = ws_sessions s" "length (ws_pss ?s2) = length (ws_pss s)"
    "ws_stream pre (ws_pss ?s2 ! e) = ws_stream pre (ws_pss s ! e) @ concat (map (part_seen (d = e)) parts)"
    using p assms(2) se by (simp_all add: ws_receive_begin_def)
  have "ws_wf pre {} (ws_receive_end d ?s2)"
    unfolding ws_receive_end_def by (rule upd_keeps [OF p'(1)]) auto
  moreover have "ws_stream pre (ws_pss (ws_receive_end d ?s2) ! e) = ws_stream pre (ws_pss ?s2 ! e)"
    using e(1) p'(3) by (simp add: ws_receive_end_def nth_map_nth ws_stream_def)
  ultimately show ?thesis using Ws_command p' assms(2) by (simp add: ws_receive_end_def)
next
  case (Ws_flush d)
  have e: "e < length (ws_pss s)" using assms(1,2) by (simp add: ws_wf_def)
  have "ws_wf pre {} (ws_do pre s x)"
    using Ws_flush assms(1) by (auto simp: ws_events_writeable_def ws_wf_def nth_map_nth Let_def out_ok_def)
  then show ?thesis using Ws_flush assms(2) e
    by (simp add: ws_events_writeable_def nth_map_nth Let_def ws_stream_def)
next
  case (Ws_close d)
  have d: "d \<noteq> e" using Ws_close assms(3) by auto
  let ?s1 = "upd_pss d (\<lambda>s. s\<lparr>we_cmd := None, we_out := [], we_id := -1\<rparr>) s"
  have "ws_wf pre {} ?s1" by (rule upd_keeps [OF assms(1)]) (auto simp: out_ok_def)
  moreover have "filter (\<lambda>p. p \<noteq> None) (map (\<lambda>p. if p = Some d then None else p) ps) = filter (\<lambda>p. p \<noteq> None \<and> p \<noteq> Some d) ps"
    for ps by (induction ps) auto
  moreover have "distinct (filter P ps)" if "distinct (filter Q ps)" "\<And>p. P p \<Longrightarrow> Q p" for P Q and ps :: "nat option list"
    using that by (induction ps) (auto split: if_splits)
  ultimately have "ws_wf pre {} (ws_do pre s x)"
    using Ws_close by (auto simp: ws_events_closed_def ws_session_remove_def ws_wf_def)
  then show ?thesis using Ws_close d assms(2)
    by (auto simp: ws_events_closed_def ws_session_remove_def nth_map_nth intro: rev_image_eqI)
qed

text \<open>
  C13: Whatever happens to the sessions of the server, a session that stays open gets exactly the
  answers to its own commands and every event, in order, each ended by a newline: the frames written
  to it and what waits in its buffer after the padding; and while something waits, the callback
  that will write it has been asked for.
\<close>

theorem ws_sessions_get_events:
  assumes "ws_wf pre {} s" "Some d \<in> set (ws_sessions s)" "Ws_close d \<notin> set xs"
  defines "s' \<equiv> foldl (ws_do pre) s xs"
  shows "concat (we_frames (ws_pss s' ! d)) @ drop pre (we_out (ws_pss s' ! d)) =
      concat (we_frames (ws_pss s ! d)) @ drop pre (we_out (ws_pss s ! d)) @ concat (map (step_seen d) xs) \<and>
    (pre < length (we_out (ws_pss s' ! d)) \<longrightarrow> we_asked (ws_pss s' ! d))"
proof -
  have "ws_wf pre {} s' \<and> Some d \<in> set (ws_sessions s') \<and>
      ws_stream pre (ws_pss s' ! d) = ws_stream pre (ws_pss s ! d) @ concat (map (step_seen d) xs)"
    unfolding s'_def using assms(1-3)
  proof (induction xs arbitrary: s)
    case (Cons x xs)
    have "x \<noteq> Ws_close d" using Cons.prems(3) by auto
    from step_stream [OF Cons.prems(1,2) this] Cons.IH [of "ws_do pre s x"] Cons.prems(3) show ?case by simp
  qed simp
  then show ?thesis by (simp add: ws_wf_def ws_stream_def)
qed

definition empty_server :: ws_server where
  "empty_server = \<lparr>ws_document_roots = [], ws_aliases = [], ws_sessions = [], ws_handler = False, ws_salt = 0, ws_pss = []\<rparr>"

theorem ws_sessions_get_events_witness:
  "concat (we_frames (ws_pss (foldl (ws_do 16) (ws_do 16 empty_server (Ws_open True)) [Ws_event ''!1,a=0'', Ws_flush 0]) ! 0)) \<noteq> []"
proof -
  let ?s = "ws_do 16 empty_server (Ws_open True)" and ?xs = "[Ws_event ''!1,a=0'', Ws_flush 0]"
  have p: "ws_pss ?s = [\<lparr>we_cmd = Some command_new, we_out = [], we_id = 256, we_asked = False, we_frames = []\<rparr>]"
    "ws_sessions ?s = [Some 0]"
    by (simp_all add: empty_server_def ws_events_established_def ws_session_add_def Let_def map_nth_def)
  have "ws_wf 16 {} ?s" unfolding ws_wf_def p by (simp add: out_ok_def)
  from ws_sessions_get_events [OF this, of 0 ?xs] p
  have "concat (we_frames (ws_pss (foldl (ws_do 16) ?s ?xs) ! 0)) @ drop 16 (we_out (ws_pss (foldl (ws_do 16) ?s ?xs) ! 0)) =
      ''!1,a=0'' @ [LF]" by simp
  moreover have "we_out (ws_pss (foldl (ws_do 16) ?s ?xs) ! 0) = []" by code_simp
  ultimately show ?thesis by (metis append_is_Nil_conv append_Nil2 drop_Nil list.distinct(1))
qed

section \<open>Authentication\<close>

record ws_auth_user =
  au_name :: string
  au_auth :: string

record ws_auth =
  auth_required :: bool
  users :: "ws_auth_user list"

definition auth_line :: "(string \<Rightarrow> string) \<Rightarrow> string \<Rightarrow> ws_auth_user list \<Rightarrow> ws_auth_user list" where
  \<comment> \<open>\<open>b64\<close>: \<open>lws_b64_encode_string\<close>\<close>
  "auth_line b64 buf us =
     (let s1 = dropWhile is_blank (cstr buf);
          s1 = takeWhile (\<lambda>c. c \<noteq> CHR ''#'') s1;
          s1 = rev (dropWhile is_blank (rev s1))
      in if s1 = [] then us
         else case strchr s1 CHR '':'' of
                None \<Rightarrow> us
              | Some i \<Rightarrow> us @ [\<lparr>au_name = take i s1, au_auth = b64 s1\<rparr>])"

definition ws_auth_init ::
    "(string \<Rightarrow> string) \<Rightarrow> bool \<Rightarrow> string list option \<Rightarrow> ws_auth \<Rightarrow> int \<times> ws_auth" where
  \<comment> \<open>\<open>private\<close>: \<open>check_permissions\<close> finds that only the owner has access; the file as \<open>fgets\<close> reads it\<close>
  "ws_auth_init b64 private bufs a =
     (let a = a\<lparr>auth_required := True\<rparr>
      in if \<not> private then (-1, a)
         else case bufs of
                None \<Rightarrow> (-1, a)
              | Some bufs \<Rightarrow> (0, a\<lparr>users := foldl (\<lambda>us buf. auth_line b64 buf us) (users a) bufs\<rparr>))"

definition ws_auth_check :: "ws_auth \<Rightarrow> string option \<Rightarrow> string option option" where
  \<comment> \<open>the \<open>Authorization\<close> header, if there is one; accepted with the name of the user, if one was needed\<close>
  "ws_auth_check a hdr =
     (if \<not> auth_required a then Some None
      else case hdr of
             None \<Rightarrow> None
           | Some str \<Rightarrow>
               if take 6 str = ''Basic ''
               then map_option (\<lambda>u. Some (au_name u)) (find (\<lambda>u. au_auth u = drop 6 str) (users a))
               else None)"

section \<open>Requests\<close>

definition mimes :: "(string \<times> string) list" where
  "mimes = [(''ico'', ''image/x-icon''), (''png'', ''image/png''), (''jpg'', ''image/jpeg''), (''svg'', ''image/svg+xml''),
     (''html'', ''text/html''), (''js'', ''text/javascript''), (''css'', ''text/css''), (''txt'', ''text/plain'')]"

definition get_mimetype :: "string \<Rightarrow> string option" where
  "get_mimetype file =
     (case strrchr file CHR ''.'' of None \<Rightarrow> None | Some i \<Rightarrow> map_of mimes (drop (i + 1) file))"

record http_files =
  hf_dir :: "string \<Rightarrow> bool"
  hf_read :: "string \<rightharpoonup> string"

definition add_slash :: "string \<Rightarrow> string" where
  "add_slash path = (if last path \<noteq> CHR ''/'' then path @ ''/'' else path)"

definition index_of_dir :: "http_files \<Rightarrow> string \<Rightarrow> string" where
  \<comment> \<open>the page of a directory\<close>
  "index_of_dir fs path = (if hf_dir fs path then add_slash path @ ''index.html'' else path)"

definition split_uri :: "string \<Rightarrow> string \<times> string" where
  \<comment> \<open>the first directory of the path, if it is one, and the rest\<close>
  "split_uri uri =
     (let n = (if take 1 uri = ''/'' then 1 else 0);
          k = n + length (takeWhile (\<lambda>c. c \<noteq> CHR ''/'') (drop n uri))
      in if k < length uri then (take k uri, drop k uri) else ([], uri))"

definition search_file :: "http_files \<Rightarrow> ws_server \<Rightarrow> string \<Rightarrow> string option option" where
  \<comment> \<open>\<open>None\<close>: a root that is an empty name has no last character\<close>
  "search_file fs server uri =
     (case split_uri uri of (subdir, uri) \<Rightarrow>
        foldo (\<lambda>found dir.
            if found \<noteq> None then Some found
            else if dir @ subdir = [] then None
            else let path = index_of_dir fs (add_slash (dir @ subdir) @ ''ui'' @ uri)
                 in Some (if hf_read fs path \<noteq> None then Some path else None))
          None (ws_document_roots server))"

definition alias_path :: "http_files \<Rightarrow> ws_server \<Rightarrow> string \<Rightarrow> string option" where
  \<comment> \<open>the first alias that is a prefix of the path\<close>
  "alias_path fs server uri =
     map_option (\<lambda>al. index_of_dir fs (al_dir al @ drop (length (the (al_location al))) uri))
       (find (\<lambda>al. case al_location al of None \<Rightarrow> False | Some l \<Rightarrow> take (length l) uri = l) (ws_aliases server))"

datatype http_reply =
    Http_bad_request
  | Http_unauthorized
  | Http_post
  | Http_not_found
  | Http_unsupported
  | Http_file string string

definition ws_http_request ::
    "http_files \<Rightarrow> ws_server \<Rightarrow> ws_auth \<Rightarrow> string option \<Rightarrow> bool \<Rightarrow> string \<Rightarrow> http_reply option" where
  \<comment> \<open>\<open>hdr\<close>: the \<open>Authorization\<close> header; \<open>post\<close>: the request has a \<open>POST\<close> header; then
    what the library is told to reply. A page of an alias is not looked for first.\<close>
  "ws_http_request fs server a hdr post uri =
     (if uri = [] then Some Http_bad_request
      else if ws_auth_check a hdr = None then Some Http_unauthorized
      else if post then Some Http_post
      else
        map_option
          (\<lambda>found. case found of
             None \<Rightarrow> Http_not_found
           | Some path \<Rightarrow>
               (case get_mimetype path of
                  None \<Rightarrow> Http_unsupported
                | Some mime \<Rightarrow>
                    (case hf_read fs path of None \<Rightarrow> Http_not_found | Some content \<Rightarrow> Http_file mime content)))
          (case alias_path fs server uri of
             Some path \<Rightarrow> Some (Some path)
           | None \<Rightarrow>
               Option.bind (search_file fs server uri)
                 (\<lambda>found. if found = None then search_file fs server (uri @ ''/'') else Some found)))"

section \<open>Sending a file\<close>

record http_session =
  hs_file :: "(string \<times> nat) option"
  hs_rsp :: string
  hs_offset :: nat
  hs_sent :: string
  hs_asked :: bool

record lws_answer =
  \<comment> \<open>the allowance of the peer, what \<open>lws_write\<close> takes of the data (negative: an error), and the
    two questions that follow\<close>
  wa_allow :: int
  wa_write :: int
  wa_partial :: bool
  wa_choked :: bool

definition http_next :: "nat \<Rightarrow> http_session \<Rightarrow> string" where
  \<comment> \<open>what is copied to the buffer, at most \<open>n\<close> bytes\<close>
  "http_next n s =
     (case hs_file s of
        Some (content, ofs) \<Rightarrow> take n (drop ofs content)
      | None \<Rightarrow> take (min n (length (hs_rsp s) - hs_offset s)) (hs_rsp s))"

definition http_close :: "http_session \<Rightarrow> http_session" where
  "http_close s = s\<lparr>hs_file := None, hs_rsp := []\<rparr>"

definition http_taken :: "nat \<Rightarrow> string \<Rightarrow> http_session \<Rightarrow> http_session option" where
  \<comment> \<open>\<open>m\<close> bytes of \<open>data\<close> were taken: the file is set back to the first that was not\<close>
  "http_taken m data s =
     (let s = s\<lparr>hs_sent := hs_sent s @ take m data\<rparr>
      in case hs_file s of
           Some (content, ofs) \<Rightarrow> Some (s\<lparr>hs_file := Some (content, ofs + m)\<rparr>)
         | None \<Rightarrow> if m \<noteq> length data then None else Some (s\<lparr>hs_offset := hs_offset s + m\<rparr>))"

fun ws_http_writeable ::
    "nat \<Rightarrow> bool \<Rightarrow> bool \<Rightarrow> lws_answer list \<Rightarrow> http_session \<Rightarrow> (int \<times> http_session) option" where
  \<comment> \<open>\<open>sz\<close>: the room in \<open>tx_buffer\<close>; \<open>pending\<close>, \<open>completed\<close>: the answers at the end. \<open>None\<close>: the
    answers are used up, or a null file is positioned. \<open>lws_write\<close> takes no more than it is given.\<close>
  "ws_http_writeable sz pending completed [] s = None"
| "ws_http_writeable sz pending completed (a # as) s =
     (if wa_allow a = 0 then Some (0, s\<lparr>hs_asked := True\<rparr>)
      else
        let n = (if wa_allow a \<noteq> -1 \<and> wa_allow a < int sz then nat (wa_allow a) else sz);
            data = http_next n s
        in if data = [] then
             (if pending then Some (0, s\<lparr>hs_asked := True\<rparr>)
              else Some (if completed then -1 else 0, http_close s))
           else if wa_write a < 0 then Some (-1, http_close s)
           else
             Option.bind (http_taken (min (nat (wa_write a)) (length data)) data s)
               (\<lambda>s. if wa_partial a \<or> wa_choked a then Some (0, s\<lparr>hs_asked := True\<rparr>)
                    else ws_http_writeable sz pending completed as s))"

lemma http_next_file: "hs_file s = Some (content, ofs) \<Longrightarrow> http_next n s = take n (drop ofs content)"
  by (simp add: http_next_def)

lemma http_taken_file:
  assumes "hs_file s = Some (content, length (hs_sent s))" "take (length (hs_sent s)) content = hs_sent s"
    and "data = take n (drop (length (hs_sent s)) content)" "m \<le> length data"
  shows "\<exists>s'. http_taken m data s = Some s' \<and> hs_file s' = Some (content, length (hs_sent s')) \<and>
    take (length (hs_sent s')) content = hs_sent s'"
proof -
  let ?o = "length (hs_sent s)"
  have m: "m \<le> n" "m \<le> length content - ?o" using assms(3,4) by simp_all
  have "take m data = take m (drop ?o content)" using assms(3) m(1) by (simp add: min_def)
  then have t: "hs_sent s @ take m data = take (?o + m) content" using assms(2) by (simp add: take_add)
  have o: "?o \<le> length content" using arg_cong [OF assms(2), of length] by simp
  have l: "length (hs_sent s @ take m data) = ?o + m" using m(2) o unfolding t by simp
  show ?thesis using assms(1) t l assms(4) by (simp add: http_taken_def Let_def)
qed

text \<open>
  However the library cuts the writes of a file, what has been sent is always the beginning of
  the file, and when the file is closed without an error of the library, all of it was sent.
\<close>

theorem http_file_sent:
  assumes "ws_http_writeable sz pending completed as s = Some (ret, s')"
    and "hs_file s = Some (content, length (hs_sent s))" "take (length (hs_sent s)) content = hs_sent s" "0 < sz"
    and "\<forall>a\<in>set as. wa_allow a \<ge> -1"
  shows "take (length (hs_sent s')) content = hs_sent s' \<and>
    (hs_file s' \<noteq> None \<longrightarrow> hs_file s' = Some (content, length (hs_sent s')) \<and> hs_asked s') \<and>
    (hs_file s' = None \<and> (\<forall>a\<in>set as. 0 \<le> wa_write a) \<longrightarrow> hs_sent s' = content)"
  using assms
proof (induction sz pending completed as s rule: ws_http_writeable.induct)
  case (2 sz pending completed a as s)
  let ?n = "if wa_allow a \<noteq> -1 \<and> wa_allow a < int sz then nat (wa_allow a) else sz"
  let ?data = "http_next ?n s"
  have d: "?data = take ?n (drop (length (hs_sent s)) content)" by (rule http_next_file [OF "2.prems"(2)])
  show ?case
  proof (cases "wa_allow a = 0")
    case True
    then show ?thesis using "2.prems" by auto
  next
    case False
    then have n: "0 < ?n" using "2.prems"(4,5) by auto
    show ?thesis
    proof (cases "?data = []")
      case True
      then have "length content \<le> length (hs_sent s)" using n unfolding d by simp
      then have all: "hs_sent s = content" using "2.prems"(3) by simp
      show ?thesis using True False "2.prems" all
        by (auto simp: Let_def http_close_def split: if_splits)
    next
      case data: False
      show ?thesis
      proof (cases "wa_write a < 0")
        case True
        then show ?thesis using data False "2.prems" by (auto simp: Let_def http_close_def)
      next
        case w: False
        let ?m = "min (nat (wa_write a)) (length ?data)"
        obtain s1 where s1: "http_taken ?m ?data s = Some s1" "hs_file s1 = Some (content, length (hs_sent s1))"
          "take (length (hs_sent s1)) content = hs_sent s1"
          using http_taken_file [OF "2.prems"(2,3) d, of ?m] by auto
        show ?thesis
        proof (cases "wa_partial a \<or> wa_choked a")
          case True
          then show ?thesis using "2.prems"(1) False data w s1 by (auto simp: Let_def)
        next
          case more: False
          then have "ws_http_writeable sz pending completed as s1 = Some (ret, s')"
            using "2.prems"(1) False data w s1(1) by (simp add: Let_def split: if_splits)
          from "2.IH" [OF False refl refl data w s1(1) more this s1(2,3) "2.prems"(4)] "2.prems"(5) show ?thesis by simp
        qed
      qed
    qed
  qed
qed simp

section \<open>Only for those who know a password\<close>

definition auth_lines :: "string list \<Rightarrow> string list" where
  \<comment> \<open>the lines \<open>user:password\<close> of the file, without blanks and comments\<close>
  "auth_lines bufs =
     filter (\<lambda>l. CHR '':'' \<in> set l)
       (map (\<lambda>buf. rev (dropWhile is_blank (rev (takeWhile (\<lambda>c. c \<noteq> CHR ''#'') (dropWhile is_blank (cstr buf)))))) bufs)"

lemma auth_users:
  "map au_auth (foldl (\<lambda>us buf. auth_line b64 buf us) us bufs) = map au_auth us @ map b64 (auth_lines bufs)"
proof (induction bufs arbitrary: us)
  case (Cons buf bufs)
  let ?l = "rev (dropWhile is_blank (rev (takeWhile (\<lambda>c. c \<noteq> CHR ''#'') (dropWhile is_blank (cstr buf)))))"
  define l where "l = ?l"
  have a: "auth_line b64 buf us = (if l = [] then us else case strchr l CHR '':'' of None \<Rightarrow> us
      | Some i \<Rightarrow> us @ [\<lparr>au_name = take i l, au_auth = b64 l\<rparr>])"
    unfolding auth_line_def Let_def l_def ..
  have b: "map au_auth (auth_line b64 buf us) = map au_auth us @ (if CHR '':'' \<in> set l then [b64 l] else [])"
  proof (cases "strchr l CHR '':''")
    case None
    then have "CHR '':'' \<notin> set l" by (simp only: strchr_None_iff not_False_eq_True)
    with None show ?thesis unfolding a by simp
  next
    case (Some k)
    then have "\<not> CHR '':'' \<notin> set l" unfolding strchr_None_iff [symmetric] by simp
    moreover from this have "l \<noteq> []" by (metis list.set(1) empty_iff)
    ultimately show ?thesis using Some unfolding a by simp
  qed
  have "auth_lines (buf # bufs) = (if CHR '':'' \<in> set l then [l] else []) @ auth_lines bufs"
    unfolding auth_lines_def l_def by simp
  then show ?case using Cons [of "auth_line b64 buf us"] b by simp
qed (simp add: auth_lines_def)

lemma search_file_root:
  "search_file fs server uri = Some (Some path) \<Longrightarrow> \<exists>dir\<in>set (ws_document_roots server). \<exists>rest. path = dir @ rest"
proof -
  obtain sub u where split: "split_uri uri = (sub, u)" by (cases "split_uri uri")
  let ?f = "\<lambda>found dir. if found \<noteq> None then Some found else if dir @ sub = [] then None
      else let path = index_of_dir fs (add_slash (dir @ sub) @ ''ui'' @ u)
           in Some (if hf_read fs path \<noteq> None then Some path else None)"
  let ?I = "\<lambda>found. \<forall>path. found = Some path \<longrightarrow> (\<exists>dir\<in>set (ws_document_roots server). \<exists>rest. path = dir @ rest)"
  have step: "?I found'" if "?I found" "dir \<in> set (ws_document_roots server)" "?f found dir = Some found'" for found dir found'
    using that by (auto simp: Let_def index_of_dir_def add_slash_def split: if_splits)
  assume "search_file fs server uri = Some (Some path)"
  then have "foldo ?f None (ws_document_roots server) = Some (Some path)" by (simp add: search_file_def split)
  from foldo_partial_inv [where I = ?I, OF step _ this] show ?thesis by simp
qed


definition page :: http_files where
  "page = \<lparr>hf_dir = (\<lambda>p. p = ''/t/ui/''), hf_read = [''/t/ui/index.html'' \<mapsto> ''<html>'']\<rparr>"


theorem http_file_sent_witness:
  "\<exists>s'. ws_http_writeable 4080 False False
      [\<lparr>wa_allow = -1, wa_write = 2, wa_partial = False, wa_choked = False\<rparr>,
       \<lparr>wa_allow = 3, wa_write = 5, wa_partial = False, wa_choked = False\<rparr>,
       \<lparr>wa_allow = -1, wa_write = 0, wa_partial = False, wa_choked = False\<rparr>]
      \<lparr>hs_file = Some (''hakit'', 0), hs_rsp = [], hs_offset = 0, hs_sent = [], hs_asked = False\<rparr> = Some (0, s') \<and>
    hs_sent s' = ''hakit''"
proof -
  let ?as = "[\<lparr>wa_allow = -1, wa_write = 2, wa_partial = False, wa_choked = False\<rparr>,
       \<lparr>wa_allow = 3, wa_write = 5, wa_partial = False, wa_choked = False\<rparr>,
       \<lparr>wa_allow = -1, wa_write = 0, wa_partial = False, wa_choked = False\<rparr>]"
  let ?s = "\<lparr>hs_file = Some (''hakit'', 0), hs_rsp = [], hs_offset = 0, hs_sent = [], hs_asked = False\<rparr>"
  obtain s' where s': "ws_http_writeable 4080 False False ?as ?s = Some (0, s')" "hs_file s' = None"
    by (simp add: http_next_def http_taken_def http_close_def)
  then show ?thesis using http_file_sent [OF s'(1), of "''hakit''"] by simp
qed

end
