(* ===== verification/Hk_Comm.thy ===== *)
theory Hk_Comm
  imports Hk_Mqtt Hk_Ws Hk_Run
begin

text \<open>
  \<^verbatim>\<open>core/comm.c\<close> and the classes \<^verbatim>\<open>sink\<close> and \<^verbatim>\<open>source\<close>, which join the circuit of
  objects to the endpoints: a sink drives its output pad with the values it receives, a source
  sends the values of its input pad to the sinks connected to it, to HKCP nodes and watchers,
  to the MQTT broker and to the sessions of the websocket server (\<open>ws_pre\<close> is the padding that
  its library wants). \<open>None\<close> is a propagation that does not return or a null pointer that is read.
\<close>

section \<open>State\<close>

datatype ep_ctx = Sink_ctx nat "nat option" | Source_ctx nat "nat option"
datatype ep_handler = Sink_event nat | Comm_ws_send

record comm_fields =
  use_hkcp :: bool
  with_mqtt :: bool
  ws_pre :: nat
  ws_srv :: ws_server
  stdin_cmd :: "command option"

record ('c, 'h) comm_state = "('c, 'h) mqtt_state" +
  comm :: comm_fields

type_synonym 'z cm = "(ep_ctx hk_ctx, ep_handler, 'z) comm_state_scheme"

section \<open>Sending values\<close>

definition comm_ws_send :: "hk_ep \<Rightarrow> 'z cm \<Rightarrow> 'z cm" where
  "comm_ws_send ep st =
     (let tile_name = hk_ep_get_tile_name st ep; name = hk_ep_get_name st ep; val = hk_ep_get_value ep;
          sz = length tile_name + length name + length val + 24;
          str = snprintf sz
            (if 1 < hk_tile_nmemb st
             then ''!'' @ nat_dec (tstamp st) @ '','' @ tile_name @ ''.'' @ name @ ''='' @ val
             else ''!'' @ nat_dec (tstamp st) @ '','' @ name @ ''='' @ val)
      in st\<lparr>comm := (comm st)\<lparr>ws_srv := ws_server_send_event (ws_pre (comm st)) str (ws_srv (comm st))\<rparr>\<rparr>)"

definition comm_mqtt_publish :: "hk_ep \<Rightarrow> 'z cm \<Rightarrow> 'z cm" where
  \<comment> \<open>the result is not used\<close>
  "comm_mqtt_publish ep st = snd (mqtt_publish 0 (hk_ep_get_name st ep) (hk_ep_get_value ep) (hk_ep_flag_retain ep) st)"

definition comm_call :: "('z cm) updater \<Rightarrow> ep_handler \<Rightarrow> nat \<Rightarrow> 'z cm \<Rightarrow> ('z cm) option" where
  \<comment> \<open>the handlers of a sink: \<open>_event\<close> of the class \<open>sink\<close>, and the websocket link\<close>
  "comm_call upd h k st =
     (case h of
        Sink_event obj \<Rightarrow>
          (case ctx_of obj st of
             Some (Other_ctx (Sink_ctx output sink)) \<Rightarrow> upd output (hk_ep_get_value (sk_ep (sink_at st k))) st
           | _ \<Rightarrow> None)
      | Comm_ws_send \<Rightarrow> Some (comm_ws_send (sk_ep (sink_at st k)) st))"

definition comm_sink_update_str :: "('z cm) updater \<Rightarrow> nat option \<Rightarrow> string \<Rightarrow> 'z cm \<Rightarrow> ('z cm) option" where
  "comm_sink_update_str upd sink val st =
     (case sink of
        None \<Rightarrow> None
      | Some k \<Rightarrow>
          map_option (\<lambda>st. comm_ws_send (sk_ep (sink_at st k)) st) (hk_sink_update (comm_call upd) k val st))"

definition comm_source_update_str :: "('z cm) updater \<Rightarrow> nat option \<Rightarrow> string \<Rightarrow> 'z cm \<Rightarrow> ('z cm) option" where
  "comm_source_update_str upd source val st =
     (case source of
        None \<Rightarrow> None
      | Some i \<Rightarrow>
          map_option
            (\<lambda>st.
               let st = (if hk_source_is_public i st then
                           let st = hkcp_source_update i st
                           in if with_mqtt (comm st) then comm_mqtt_publish (so_ep (source_at st i)) st else st
                         else st)
               in comm_ws_send (so_ep (source_at st i)) st)
            (hk_source_update (comm_call upd) i val st))"

section \<open>Registration\<close>

definition comm_sink_register :: "nat \<Rightarrow> bool \<Rightarrow> ep_handler \<Rightarrow> 'z cm \<Rightarrow> nat option \<times> 'z cm" where
  "comm_sink_register obj local func st =
     (case hk_sink_register obj local st of
        (None, st) \<Rightarrow> (None, st)
      | (Some sink, st) \<Rightarrow>
          let st = hk_sink_add_handler sink (Some func) st;
              st = hk_sink_add_handler sink (Some Comm_ws_send) st
          in (Some sink, if use_hkcp (comm st) \<and> \<not> local then hk_advertise_hkcp st else st))"

definition comm_source_register :: "nat \<Rightarrow> bool \<Rightarrow> bool \<Rightarrow> 'z cm \<Rightarrow> nat option \<times> 'z cm" where
  "comm_source_register obj local event st =
     (case hk_source_register obj local event st of
        (None, st) \<Rightarrow> (None, st)
      | (Some source, st) \<Rightarrow>
          (Some source, if use_hkcp (comm st) \<and> \<not> local then hk_advertise_hkcp st else st))"

section \<open>The classes sink and source\<close>

definition has_prop :: "nat \<Rightarrow> string \<Rightarrow> 'z cm \<Rightarrow> bool" where
  "has_prop obj name st \<longleftrightarrow> prop_of obj name st \<noteq> None"

definition set_opt :: "(string option \<Rightarrow> hk_ep \<Rightarrow> hk_ep) \<Rightarrow> string option \<Rightarrow> hk_ep option \<Rightarrow> hk_ep option option" where
  \<comment> \<open>set a widget or chart name if the property is there; \<open>None\<close>: the endpoint is a null pointer\<close>
  "set_opt set_name prop ep =
     (case prop of
        None \<Rightarrow> Some ep
      | Some v \<Rightarrow> (case ep of None \<Rightarrow> None | Some ep \<Rightarrow> Some (Some (set_name (Some v) ep))))"

definition set_display :: "nat \<Rightarrow> hk_ep option \<Rightarrow> 'z cm \<Rightarrow> hk_ep option option" where
  "set_display obj ep st =
     Option.bind (set_opt hk_ep_set_widget (prop_of obj ''widget'' st) ep)
       (set_opt hk_ep_set_chart (prop_of obj ''chart'' st))"

definition sink_new :: "nat \<Rightarrow> 'z cm \<Rightarrow> (int \<times> 'z cm) option" where
  "sink_new obj st =
     (case hk_pad_create obj HK_PAD_OUT ''out'' st of (output, st) \<Rightarrow>
        case comm_sink_register obj (has_prop obj ''local'' st) (Sink_event obj) st of (sink, st) \<Rightarrow>
          let st = set_ctx obj (Other_ctx (Sink_ctx output sink)) st
          in map_option (\<lambda>ep. (0, case (sink, ep) of
                                    (Some k, Some ep) \<Rightarrow> upd_sink_ep k (\<lambda>_. ep) st | _ \<Rightarrow> st))
               (set_display obj (map_option (\<lambda>k. sk_ep (sink_at st k)) sink) st))"

definition sink_start :: "('z cm) updater \<Rightarrow> nat \<Rightarrow> 'z cm \<Rightarrow> ('z cm) option" where
  "sink_start upd obj st =
     (case ctx_of obj st of
        Some (Other_ctx (Sink_ctx output sink)) \<Rightarrow>
          (case p_value (pad_at st output) of
             None \<Rightarrow> Some st
           | Some v \<Rightarrow> comm_sink_update_str upd sink v st)
      | _ \<Rightarrow> None)"

definition source_new :: "nat \<Rightarrow> 'z cm \<Rightarrow> (int \<times> 'z cm) option" where
  "source_new obj st =
     (case hk_pad_create obj HK_PAD_IN ''in'' st of (input, st) \<Rightarrow>
        case comm_source_register obj (has_prop obj ''local'' st) (has_prop obj ''event'' st) st of (source, st) \<Rightarrow>
          let st = set_ctx obj (Other_ctx (Source_ctx input source)) st
          in map_option (\<lambda>ep. (0, case (source, ep) of
                                    (Some i, Some ep) \<Rightarrow> upd_src_ep i (\<lambda>_. ep) st | _ \<Rightarrow> st))
               (set_display obj (map_option (\<lambda>i. so_ep (source_at st i)) source) st))"

definition source_input :: "('z cm) updater \<Rightarrow> nat \<Rightarrow> string \<Rightarrow> 'z cm \<Rightarrow> ('z cm) option" where
  "source_input upd pad val st =
     (case ctx_of (p_obj (pad_at st pad)) st of
        Some (Other_ctx (Source_ctx input source)) \<Rightarrow> comm_source_update_str upd source val st
      | _ \<Rightarrow> None)"

definition comm_class :: "('z cm) class_table" where
  "comm_class upd cname =
     (if cname = ''sink'' then \<lparr>m_new = Some sink_new, m_start = Some (sink_start upd), m_input = None\<rparr>
      else if cname = ''source'' then \<lparr>m_new = Some source_new, m_start = None, m_input = Some (source_input upd)\<rparr>
      else circuit_class upd cname)"

section \<open>The invariant of the classes sink and source\<close>

text \<open>
  \<open>H\<close> is the handlers of the sinks and \<open>L\<close> the connections of the sources: no event changes
  them. \<open>ep_quiet\<close>: a change of endpoints, links and logs that leaves the circuit alone.
\<close>

definition eps_wired :: "ep_handler option list list \<Rightarrow> nat list list \<Rightarrow> 'z cm \<Rightarrow> bool" where
  "eps_wired H L st \<longleftrightarrow>
     map sk_handlers (hk_sinks st) = H \<and> map so_local_sinks (hk_sources st) = L \<and>
     (\<forall>hs\<in>set H. \<forall>j. Some (Sink_event j) \<in> set hs \<longrightarrow> j < length (objs st) \<and> o_class (obj_at st j) = ''sink'') \<and>
     (\<forall>ks\<in>set L. set ks \<subseteq> {..<length H}) \<and>
     (\<forall>j<length (objs st). o_class (obj_at st j) = ''sink'' \<longrightarrow>
        (\<exists>out k. ctx_of j st = Some (Other_ctx (Sink_ctx out (Some k))) \<and> out_pad st out \<and> k < length H)) \<and>
     (\<forall>j<length (objs st). o_class (obj_at st j) = ''source'' \<longrightarrow>
        (\<exists>inp i. ctx_of j st = Some (Other_ctx (Source_ctx inp (Some i))) \<and> i < length L))"

definition client_of :: "'z cm \<Rightarrow> mqtt \<times> string list \<times> bool" where
  \<comment> \<open>what only the connection to the broker changes\<close>
  "client_of s = (mqtt s, mq_queue s, asked s)"

definition comm_wired :: "ep_handler option list list \<Rightarrow> nat list list \<Rightarrow> mqtt \<times> string list \<times> bool \<Rightarrow> 'z cm \<Rightarrow> bool" where
  "comm_wired H L N st \<longleftrightarrow> circuit_wired st \<and> eps_wired H L st \<and> client_of st = N"

lemma eps_wired_step:
  fixes s s' :: "'z cm"
  assumes "eps_wired H L s" "shape s' = shape s"
    "map sk_handlers (hk_sinks s') = map sk_handlers (hk_sinks s)"
    "map so_local_sinks (hk_sources s') = map so_local_sinks (hk_sources s)"
    and c: "\<And>j. j < length (objs s) \<Longrightarrow> o_class (obj_at s j) = ''sink'' \<or> o_class (obj_at s j) = ''source'' \<Longrightarrow>
      ctx_of j s' = ctx_of j s"
  shows "eps_wired H L s'"
proof -
  have l: "length (objs s') = length (objs s)" using shape_length [OF assms(2)] by simp
  have o: "o_class (obj_at s' j) = o_class (obj_at s j)" if "j < length (objs s)" for j
    using shape_obj(3) [OF assms(2) that] .
  have p: "out_pad s' q = out_pad s q" for q by (rule out_pad_shape [OF assms(2)])
  have h: "\<forall>hs\<in>set H. \<forall>j. Some (Sink_event j) \<in> set hs \<longrightarrow> j < length (objs s') \<and> o_class (obj_at s' j) = ''sink''"
  proof (intro ballI allI impI)
    fix hs j assume "hs \<in> set H" "Some (Sink_event j) \<in> set hs"
    then have "j < length (objs s) \<and> o_class (obj_at s j) = ''sink''"
      using assms(1) unfolding eps_wired_def by simp
    then show "j < length (objs s') \<and> o_class (obj_at s' j) = ''sink''" using o l by simp
  qed
  have k: "\<exists>out k. ctx_of j s' = Some (Other_ctx (Sink_ctx out (Some k))) \<and> out_pad s' out \<and> k < length H"
    if j: "j < length (objs s)" "o_class (obj_at s' j) = ''sink''" for j
  proof -
    have "o_class (obj_at s j) = ''sink''" using o [OF j(1)] j(2) by simp
    moreover from this have "ctx_of j s' = ctx_of j s" using c [OF j(1)] by blast
    ultimately show ?thesis using assms(1) j(1) unfolding eps_wired_def p by simp
  qed
  have i: "\<exists>inp i. ctx_of j s' = Some (Other_ctx (Source_ctx inp (Some i))) \<and> i < length L"
    if j: "j < length (objs s)" "o_class (obj_at s' j) = ''source''" for j
  proof -
    have "o_class (obj_at s j) = ''source''" using o [OF j(1)] j(2) by simp
    moreover from this have "ctx_of j s' = ctx_of j s" using c [OF j(1)] by blast
    ultimately show ?thesis using assms(1) j(1) unfolding eps_wired_def by simp
  qed
  have b: "map sk_handlers (hk_sinks s) = H" "map so_local_sinks (hk_sources s) = L"
    "\<forall>ks\<in>set L. set ks \<subseteq> {..<length H}"
    using assms(1) unfolding eps_wired_def by blast+
  show ?thesis
    unfolding eps_wired_def l
  proof (intro conjI)
    show "map sk_handlers (hk_sinks s') = H" "map so_local_sinks (hk_sources s') = L"
      using b(1,2) by (simp_all only: assms(3,4))
    show "\<forall>hs\<in>set H. \<forall>j. Some (Sink_event j) \<in> set hs \<longrightarrow> j < length (objs s) \<and> o_class (obj_at s' j) = ''sink''"
      using h unfolding l .
    show "\<forall>ks\<in>set L. set ks \<subseteq> {..<length H}" by (rule b(3))
    show "\<forall>j<length (objs s). o_class (obj_at s' j) = ''sink'' \<longrightarrow>
        (\<exists>out k. ctx_of j s' = Some (Other_ctx (Sink_ctx out (Some k))) \<and> out_pad s' out \<and> k < length H)"
      by (intro allI impI) (rule k)
    show "\<forall>j<length (objs s). o_class (obj_at s' j) = ''source'' \<longrightarrow>
        (\<exists>inp i. ctx_of j s' = Some (Other_ctx (Source_ctx inp (Some i))) \<and> i < length L)"
      by (intro allI impI) (rule i)
  qed
qed

lemma more_eps:
  fixes s s' :: "'z cm"
  assumes "hk_state.more s' = hk_state.more s"
  shows "hk_sinks s' = hk_sinks s" "hk_sources s' = hk_sources s" "client_of s' = client_of s"
  using assms by (cases s; cases s'; simp add: client_of_def asked_def)+

lemma comm_wired_ctx:
  fixes s s' :: "'z cm"
  assumes "comm_wired H L N s" "shape s' = shape s" "ctxs s' = ctxs s" "states s' = states s"
    "hk_state.more s' = hk_state.more s"
  shows "comm_wired H L N s'"
  using assms(1) circuit_wired_same [OF _ assms(2-4)]
    eps_wired_step [OF _ assms(2), of H L] more_eps [OF assms(5)] ctxs_ctx_of [OF assms(3)]
  unfolding comm_wired_def by simp

lemma comm_extends: "extends_wiring (comm_wired H L N)"
  unfolding extends_wiring_def
proof (intro conjI allI impI)
  show "comm_wired H L N s \<Longrightarrow> circuit_wired s" for s by (simp add: comm_wired_def)
  fix s s' :: "'z cm" and j c c'
  assume a: "comm_wired H L N s \<and> touches j s s' \<and> circuit_wired s' \<and> ctx_of j s = Some c \<and> ctx_of j s' = Some c' \<and>
     ctx_class c' = ctx_class c \<and> ctx_class c \<noteq> []"
  have t: "touches j s s'" and e: "eps_wired H L s" using a by (simp_all add: comm_wired_def)
  have m: "hk_state.more s' = hk_state.more s" using t by (simp add: touches_def)
  have "ctx_of i s' = ctx_of i s"
    if i: "i < length (objs s)" "o_class (obj_at s i) = ''sink'' \<or> o_class (obj_at s i) = ''source''" for i
  proof -
    have "\<exists>x. ctx_of i s = Some (Other_ctx x)" using e i unfolding eps_wired_def by blast
    then have "i \<noteq> j" using a by auto
    with t i(1) show ?thesis by (simp add: touches_def)
  qed
  then have "eps_wired H L s'"
    using eps_wired_step [OF e touches_shape(1) [OF t]] more_eps [OF m] by simp
  with a more_eps(3) [OF m] show "comm_wired H L N s'" by (simp add: comm_wired_def)
qed

definition ep_quiet :: "'z cm \<Rightarrow> 'z cm \<Rightarrow> bool" where
  "ep_quiet s s' \<longleftrightarrow> pads s' = pads s \<and> objs s' = objs s \<and> nets s' = nets s \<and> tiles s' = tiles s \<and>
     tile_tab s' = tile_tab s \<and> classes s' = classes s \<and>
     map sk_handlers (hk_sinks s') = map sk_handlers (hk_sinks s) \<and>
     map so_local_sinks (hk_sources s') = map so_local_sinks (hk_sources s) \<and> client_of s' = client_of s"

lemma ep_quiet_refl [simp]: "ep_quiet s s"
  by (simp add: ep_quiet_def)

lemma ep_quiet_trans: "ep_quiet s s1 \<Longrightarrow> ep_quiet s1 s2 \<Longrightarrow> ep_quiet s s2"
  by (simp add: ep_quiet_def)

lemma ep_quiet_foldl: "(\<And>s x. ep_quiet s (f s x)) \<Longrightarrow> ep_quiet s (foldl f s xs)"
proof (induction xs arbitrary: s)
  case (Cons x xs)
  then show ?case using ep_quiet_trans [of s "f s x"] by simp
qed simp

lemma ep_quiet_wired:
  assumes "ep_quiet s s'" "comm_wired H L N s"
  shows "comm_wired H L N s'" "quiet_change s s'"
proof -
  have q: "shape s' = shape s" "ctxs s' = ctxs s" "states s' = states s"
    using assms(1) by (simp_all add: ep_quiet_def shape_def ctxs_def states_def)
  have "eps_wired H L s'"
    by (rule eps_wired_step [OF _ q(1)])
      (use assms in \<open>simp_all add: comm_wired_def ep_quiet_def ctx_of_def\<close>)
  then show "comm_wired H L N s'"
    using circuit_wired_same [OF _ q] assms by (simp add: comm_wired_def ep_quiet_def)
  show "quiet_change s s'"
    using assms(1) by (simp add: ep_quiet_def quiet_change_def shape_def wiring_def locks_def)
qed

lemmas client_defs = client_of_def asked_def upd_sink_def upd_src_def

lemma ep_quiet_sink: "ep_quiet s (upd_sink_ep k g s)"
  by (simp add: ep_quiet_def map_upd_same) (simp add: client_defs)

lemma ep_quiet_source: "ep_quiet s (upd_src_ep i g s)"
  by (simp add: ep_quiet_def map_upd_same) (simp add: client_defs)

lemma ep_quiet_logs: "ep_quiet s (comm_ws_send ep s)" "ep_quiet s (comm_mqtt_publish ep s)"
  by (simp_all add: ep_quiet_def comm_ws_send_def comm_mqtt_publish_def mqtt_publish_def mosq_def Let_def client_defs)

lemma ep_quiet_write: "ep_quiet s (snd (tcp_sock_write buf (sock, s)))"
proof -
  have "ep_quiet s (upd_source i g s)" for i g by (simp add: ep_quiet_def upd_source_def client_defs)
  then show ?thesis
    by (simp add: tcp_sock_write_def Let_def sys_io_write_handler_def split: option.split)
qed

lemma ep_quiet_clients: "ep_quiet s (fst (tcp_srv_foreach_client (hkcp_source_send_watch ev) s socks))"
proof -
  have w: "ep_quiet s s'" if "hkcp_source_send_watch ev s d = (s', d')" for d d' and s s' :: "'z cm"
    using that ep_quiet_write [of s ev d]
    by (auto simp: hkcp_source_send_watch_def case_prod_beta split: if_splits)
  have f: "ep_quiet s (fst (foldl g (s, ds) socks))"
    if "\<And>s ds d. ep_quiet s (fst (g (s, ds) d))" for g :: "'z cm \<times> hkcp_ctx tcp_sock list \<Rightarrow> hkcp_ctx tcp_sock \<Rightarrow> _"
      and ds and s :: "'z cm"
  proof (induction socks arbitrary: s ds)
    case (Cons d socks)
    show ?case
      using ep_quiet_trans [OF that [of s ds d] Cons.IH [of "fst (g (s, ds) d)" "snd (g (s, ds) d)"]] by simp
  qed simp
  show ?thesis unfolding tcp_srv_foreach_client_def by (rule f) (auto split: prod.split intro: w)
qed

lemma ep_quiet_hkcp: "ep_quiet s (hkcp_source_update i s)"
proof -
  have u: "ep_quiet s (upd_node k g s)" for k g and s :: "'z cm" by (simp add: ep_quiet_def upd_node_def client_defs)
  have n: "ep_quiet s (node_sock k (tcp_sock_write buf) s)" for k buf and s :: "'z cm"
    using ep_quiet_trans [OF ep_quiet_write [of s buf "hn_sock (node_at s k)"] u] by (simp add: node_sock_def case_prod_beta)
  have a: "ep_quiet s (hkcp_source_send_nodes i str s)" for str and s :: "'z cm"
    unfolding hkcp_source_send_nodes_def by (rule ep_quiet_foldl) (simp add: n split: option.split)
  have srv: "ep_quiet s (s\<lparr>hkcp_srv := x\<rparr>)" for x and s :: "'z cm" by (simp add: ep_quiet_def client_defs)
  show ?thesis
    unfolding hkcp_source_update_def Let_def case_prod_beta
    by (rule ep_quiet_trans [OF ep_quiet_trans [OF a ep_quiet_clients] srv])
qed

section \<open>Updates of endpoints return\<close>

definition comm_inv ::
    "ep_handler option list list \<Rightarrow> nat list list \<Rightarrow> mqtt \<times> string list \<times> bool \<Rightarrow> 'z cm \<Rightarrow> ('z cm \<Rightarrow> bool) \<Rightarrow> ('z cm) updater \<Rightarrow> bool" where
  "comm_inv H L N s0 I upd \<longleftrightarrow>
     (\<forall>s. I s \<longrightarrow> comm_wired H L N s \<and> shape s = shape s0) \<and> upd_ok I upd \<and> quiet_closed (comm_wired H L N) I"

lemma comm_inv_good: "comm_inv H L N s0 I upd \<Longrightarrow> good_inv s0 I upd"
  unfolding comm_inv_def by (elim conjE) (rule good_invI [OF comm_extends], simp_all)

lemma comm_inv_ep: "comm_inv H L N s0 I upd \<Longrightarrow> I s \<Longrightarrow> ep_quiet s s' \<Longrightarrow> I s'"
  using ep_quiet_wired [of s s' H L N] unfolding comm_inv_def quiet_closed_def by blast

lemma comm_inv_wired: "comm_inv H L N s0 I upd \<Longrightarrow> I s \<Longrightarrow> eps_wired H L s"
  unfolding comm_inv_def comm_wired_def by blast

lemma eps_wiredD:
  assumes "eps_wired H L s"
  shows "k < length H \<Longrightarrow> sk_handlers (sink_at s k) = H ! k \<and> k < length (hk_sinks s)"
    "i < length L \<Longrightarrow> so_local_sinks (source_at s i) = L ! i"
    "hs \<in> set H \<Longrightarrow> Some (Sink_event j) \<in> set hs \<Longrightarrow> j < length (objs s) \<and> o_class (obj_at s j) = ''sink''"
    "ks \<in> set L \<Longrightarrow> k \<in> set ks \<Longrightarrow> k < length H"
    "j < length (objs s) \<Longrightarrow> o_class (obj_at s j) = ''sink'' \<Longrightarrow>
       \<exists>out k. ctx_of j s = Some (Other_ctx (Sink_ctx out (Some k))) \<and> out_pad s out \<and> k < length H"
    "j < length (objs s) \<Longrightarrow> o_class (obj_at s j) = ''source'' \<Longrightarrow>
       \<exists>inp i. ctx_of j s = Some (Other_ctx (Source_ctx inp (Some i))) \<and> i < length L"
proof -
  have b: "map sk_handlers (hk_sinks s) = H" "map so_local_sinks (hk_sources s) = L"
    using assms unfolding eps_wired_def by simp_all
  show "k < length H \<Longrightarrow> sk_handlers (sink_at s k) = H ! k \<and> k < length (hk_sinks s)"
    "i < length L \<Longrightarrow> so_local_sinks (source_at s i) = L ! i"
    using b by auto
  show "ks \<in> set L \<Longrightarrow> k \<in> set ks \<Longrightarrow> k < length H" using assms unfolding eps_wired_def by auto
qed (use assms in \<open>unfold eps_wired_def, simp_all\<close>)

lemma comm_call_ok:
  assumes "comm_inv H L N s0 I upd" "I s" "Some h \<in> set (H ! k)" "k < length H"
  shows "\<exists>s'. comm_call upd h k s = Some s' \<and> I s'"
proof (cases h)
  case (Sink_event j)
  note w = comm_inv_wired [OF assms(1,2)]
  have "j < length (objs s)" "o_class (obj_at s j) = ''sink''"
    using eps_wiredD(3) [OF w nth_mem [OF assms(4)]] assms(3) Sink_event by simp_all
  from eps_wiredD(5) [OF w this] obtain out k' where
    c: "ctx_of j s = Some (Other_ctx (Sink_ctx out (Some k')))" "out_pad s out" by blast
  have "upd_ok I upd" using assms(1) by (simp add: comm_inv_def)
  then have "\<exists>s'. upd out v s = Some s' \<and> I s'" for v
    using c(2) assms(2) by (simp add: upd_ok_def out_pad_def)
  with c(1) Sink_event show ?thesis by (simp add: comm_call_def)
next
  case Comm_ws_send
  then show ?thesis
    using comm_inv_ep [OF assms(1,2) ep_quiet_logs(1)] by (simp add: comm_call_def)
qed

lemma sink_update_ok:
  assumes g: "comm_inv H L N s0 I upd" "I s" "k < length H"
  shows "\<exists>s'. hk_sink_update (comm_call upd) k v s = Some s' \<and> I s'"
proof (cases "ep_locked (sk_ep (sink_at s k))")
  case True
  with g(2) show ?thesis by (simp add: hk_sink_update_def)
next
  case False
  let ?s1 = "upd_sink_ep k (\<lambda>ep. ep\<lparr>ep_value := v\<rparr>) s"
  let ?s2 = "if sk_local_source (sink_at ?s1 k) = None \<and> ep_chart (sk_ep (sink_at ?s1 k)) \<noteq> None
    then upd_sink_ep k (\<lambda>ep. ep\<lparr>ep_tr := hk_trace_push (tstamp ?s1) (ep_tr ep) v\<rparr>) ?s1 else ?s1"
  let ?s3 = "upd_sink_ep k (\<lambda>ep. ep\<lparr>ep_locked := True\<rparr>) ?s2"
  let ?f = "\<lambda>st handler. case handler of None \<Rightarrow> Some st | Some func \<Rightarrow> comm_call upd func k st"
  note step = comm_inv_ep [OF g(1) _ ep_quiet_sink]
  have i1: "I ?s1" by (rule step [OF g(2)])
  have "I (upd_sink_ep k (\<lambda>ep. ep\<lparr>ep_tr := hk_trace_push (tstamp ?s1) (ep_tr ep) v\<rparr>) ?s1)" by (rule step [OF i1])
  with i1 have i2: "I ?s2" by (simp only: if_split simp_thms)
  have h: "sk_handlers (sink_at ?s2 k) = H ! k"
    using eps_wiredD(1) [OF comm_inv_wired [OF g(1) i2] g(3)] by simp
  have "\<exists>s'. foldo ?f ?s3 (H ! k) = Some s' \<and> I s'"
  proof (rule foldo_inv)
    show "I ?s3" using step [OF i2] .
    show "\<exists>s'. ?f t x = Some s' \<and> I s'" if "I t" "x \<in> set (H ! k)" for t x
      using comm_call_ok [OF g(1) that(1) _ g(3)] that by (cases x) auto
  qed
  then obtain s4 where s4: "foldo ?f ?s3 (H ! k) = Some s4" "I s4" by blast
  have "hk_sink_update (comm_call upd) k v s = Some (upd_sink_ep k (\<lambda>ep. ep\<lparr>ep_locked := False\<rparr>) s4)"
    using False s4(1) h by (simp only: hk_sink_update_def Let_def if_False) simp
  with step [OF s4(2)] show ?thesis by blast
qed

lemma source_update_ok:
  assumes g: "comm_inv H L N s0 I upd" "I s" "i < length L"
  shows "\<exists>s'. hk_source_update (comm_call upd) i v s = Some s' \<and> I s'"
proof (cases "ep_locked (so_ep (source_at s i))")
  case True
  with g(2) show ?thesis by (simp add: hk_source_update_def)
next
  case False
  let ?s1 = "upd_src_ep i (\<lambda>ep. ep\<lparr>ep_value := v\<rparr>) s"
  let ?s2 = "if ep_chart (so_ep (source_at ?s1 i)) \<noteq> None
    then upd_src_ep i (\<lambda>ep. ep\<lparr>ep_tr := hk_trace_push (tstamp ?s1) (ep_tr ep) v\<rparr>) ?s1 else ?s1"
  let ?s3 = "upd_src_ep i (\<lambda>ep. ep\<lparr>ep_locked := True\<rparr>) ?s2"
  let ?f = "\<lambda>st sink. hk_sink_update (comm_call upd) sink v st"
  note step = comm_inv_ep [OF g(1) _ ep_quiet_source]
  have i1: "I ?s1" by (rule step [OF g(2)])
  have "I (upd_src_ep i (\<lambda>ep. ep\<lparr>ep_tr := hk_trace_push (tstamp ?s1) (ep_tr ep) v\<rparr>) ?s1)" by (rule step [OF i1])
  with i1 have i2: "I ?s2" by (simp only: if_split simp_thms)
  note w2 = comm_inv_wired [OF g(1) i2]
  have h: "so_local_sinks (source_at ?s2 i) = L ! i" using eps_wiredD(2) [OF w2 g(3)] .
  have "\<exists>s'. foldo ?f ?s3 (L ! i) = Some s' \<and> I s'"
  proof (rule foldo_inv)
    show "I ?s3" using step [OF i2] .
    show "\<exists>s'. ?f t x = Some s' \<and> I s'" if "I t" "x \<in> set (L ! i)" for t x
      using sink_update_ok [OF g(1) that(1)] eps_wiredD(4) [OF w2 nth_mem [OF g(3)] that(2)] by blast
  qed
  then obtain s4 where s4: "foldo ?f ?s3 (L ! i) = Some s4" "I s4" by blast
  have "hk_source_update (comm_call upd) i v s = Some (upd_src_ep i (\<lambda>ep. ep\<lparr>ep_locked := False\<rparr>) s4)"
    using False s4(1) h by (simp only: hk_source_update_def Let_def if_False) simp
  with step [OF s4(2)] show ?thesis by blast
qed

lemma sink_start_ok:
  assumes g: "comm_inv H L N s0 I upd" "I s" and j: "j < length (objs s)" "o_class (obj_at s j) = ''sink''"
  shows "\<exists>s'. sink_start upd j s = Some s' \<and> I s'"
proof -
  obtain out k where c: "ctx_of j s = Some (Other_ctx (Sink_ctx out (Some k)))" "k < length H"
    using eps_wiredD(5) [OF comm_inv_wired [OF g] j] by blast
  have "\<exists>s'. comm_sink_update_str upd (Some k) v s = Some s' \<and> I s'" for v
    using sink_update_ok [OF g c(2), of v] comm_inv_ep [OF g(1) _ ep_quiet_logs(1)]
    by (auto simp: comm_sink_update_str_def)
  with g(2) c(1) show ?thesis by (simp add: sink_start_def split: option.split)
qed

lemma source_input_ok:
  assumes g: "comm_inv H L N s0 I upd" "I s" and j: "p_obj (pad_at s p) < length (objs s)"
    "o_class (obj_at s (p_obj (pad_at s p))) = ''source''"
  shows "\<exists>s'. source_input upd p v s = Some s' \<and> I s'"
proof -
  obtain inp i where c: "ctx_of (p_obj (pad_at s p)) s = Some (Other_ctx (Source_ctx inp (Some i)))" "i < length L"
    using eps_wiredD(6) [OF comm_inv_wired [OF g] j] by blast
  obtain s1 where s1: "hk_source_update (comm_call upd) i v s = Some s1" "I s1"
    using source_update_ok [OF g c(2)] by blast
  note st = comm_inv_ep [OF g(1)]
  have "I (comm_ws_send ep s1)" "I (hkcp_source_update i s1)" "I (comm_ws_send ep (hkcp_source_update i s1))"
    "I (comm_ws_send ep' (comm_mqtt_publish ep (hkcp_source_update i s1)))" for ep ep'
    using s1(2) by (blast intro: st ep_quiet_logs ep_quiet_hkcp)+
  with s1(1) c(1) show ?thesis
    by (auto simp: source_input_def comm_source_update_str_def Let_def)
qed

section \<open>The classes satisfy the contract\<close>

lemma comm_call_le:
  "upd_le upd upd' \<Longrightarrow> comm_call upd h k s = Some s' \<Longrightarrow> comm_call upd' h k s = Some s'"
  by (auto simp: comm_call_def upd_le_def split: ep_handler.splits option.splits hk_ctx.splits ep_ctx.splits)

lemma sink_update_le:
  assumes "upd_le upd upd'" "hk_sink_update (comm_call upd) k v s = Some s'"
  shows "hk_sink_update (comm_call upd') k v s = Some s'"
proof (cases "ep_locked (sk_ep (sink_at s k))")
  case True
  with assms(2) show ?thesis by (simp add: hk_sink_update_def)
next
  case False
  have "foldo (\<lambda>st handler. case handler of None \<Rightarrow> Some st | Some func \<Rightarrow> comm_call upd' func k st) t hs = Some t'"
    if "foldo (\<lambda>st handler. case handler of None \<Rightarrow> Some st | Some func \<Rightarrow> comm_call upd func k st) t hs = Some t'"
    for t t' hs
    by (rule foldo_mono [OF _ that]) (auto split: option.splits dest: comm_call_le [OF assms(1)])
  with False assms(2) show ?thesis
    by (simp only: hk_sink_update_def Let_def if_False) auto
qed

lemma source_update_le:
  assumes "upd_le upd upd'" "hk_source_update (comm_call upd) i v s = Some s'"
  shows "hk_source_update (comm_call upd') i v s = Some s'"
proof (cases "ep_locked (so_ep (source_at s i))")
  case True
  with assms(2) show ?thesis by (simp add: hk_source_update_def)
next
  case False
  have "foldo (\<lambda>st sink. hk_sink_update (comm_call upd') sink v st) t ks = Some t'"
    if "foldo (\<lambda>st sink. hk_sink_update (comm_call upd) sink v st) t ks = Some t'" for t t' ks
    by (rule foldo_mono [OF _ that]) (rule sink_update_le [OF assms(1)])
  with False assms(2) show ?thesis
    by (simp only: hk_source_update_def Let_def if_False) auto
qed

lemma source_input_le:
  "upd_le upd upd' \<Longrightarrow> source_input upd p v s = Some s' \<Longrightarrow> source_input upd' p v s = Some s'"
  by (auto simp: source_input_def comm_source_update_str_def dest!: source_update_le
      split: option.splits hk_ctx.splits ep_ctx.splits)

lemma comm_class_simps:
  "comm_class upd ''sink'' = \<lparr>m_new = Some sink_new, m_start = Some (sink_start upd), m_input = None\<rparr>"
  "comm_class upd ''source'' = \<lparr>m_new = Some source_new, m_start = None, m_input = Some (source_input upd)\<rparr>"
  "n \<noteq> ''sink'' \<Longrightarrow> n \<noteq> ''source'' \<Longrightarrow> comm_class upd n = circuit_class upd n"
  by (simp_all add: comm_class_def)

lemma comm_input_ok:
  assumes f: "m_input (comm_class upd (o_class (obj_at s (p_obj (pad_at s p))))) = Some f"
    and g: "comm_inv H L N s I upd" "I s" "wf_state s" "p < length (pads s)" "p_dir (pad_at s p) \<noteq> HK_PAD_OUT"
  shows "\<exists>s'. f p v s = Some s' \<and> I s'"
proof -
  let ?n = "o_class (obj_at s (p_obj (pad_at s p)))"
  have j: "p_obj (pad_at s p) < length (objs s)" using g(3,4) by (simp add: wf_state_def refs_wf_def)
  consider "?n = ''sink''" | "?n = ''source''" | "?n \<noteq> ''sink''" "?n \<noteq> ''source''" by blast
  then show ?thesis
  proof cases
    case 1
    with f show ?thesis by (simp add: comm_class_simps)
  next
    case 2
    with f source_input_ok [OF g(1,2) j] show ?thesis by (simp add: comm_class_simps)
  next
    case 3
    with f have "m_input (circuit_class upd ?n) = Some f" by (simp only: comm_class_simps not_False_eq_True)
    from circuit_input_ok [OF this comm_inv_good [OF g(1)] g(2) j g(4,5)] show ?thesis .
  qed
qed

lemma comm_start_ok:
  assumes f: "m_start (comm_class upd (o_class (obj_at s j))) = Some f"
    and g: "comm_inv H L N s I upd" "I s" "j < length (objs s)"
  shows "\<exists>s'. f j s = Some s' \<and> I s'"
proof -
  let ?n = "o_class (obj_at s j)"
  consider "?n = ''sink''" | "?n = ''source''" | "?n \<noteq> ''sink''" "?n \<noteq> ''source''" by blast
  then show ?thesis
  proof cases
    case 1
    with f sink_start_ok [OF g] show ?thesis by (simp add: comm_class_simps)
  next
    case 2
    with f show ?thesis by (simp add: comm_class_simps)
  next
    case 3
    with f have "m_start (circuit_class upd ?n) = Some f" by (simp only: comm_class_simps not_False_eq_True)
    from circuit_start_ok [OF this comm_inv_good [OF g(1)] g(2,3)] show ?thesis .
  qed
qed

interpretation comm: hk_classes "comm_class :: ('z cm) class_table" "comm_wired H L N" for H L N
proof
  fix s s' :: "'z cm"
  show "comm_wired H L N s \<Longrightarrow> shape s' = shape s \<Longrightarrow> ctxs s' = ctxs s \<Longrightarrow> states s' = states s \<Longrightarrow>
      hk_state.more s' = hk_state.more s \<Longrightarrow> comm_wired H L N s'"
    by (rule comm_wired_ctx)
next
  fix upd upd' :: "('z cm) updater" and s :: "'z cm" and p f v I
  assume f: "m_input (comm_class upd (o_class (obj_at s (p_obj (pad_at s p))))) = Some f" and I: "I s"
    and w: "wf_state s" "p < length (pads s)" and d: "p_dir (pad_at s p) \<noteq> HK_PAD_OUT"
    and inv: "\<And>s'. I s' \<Longrightarrow> comm_wired H L N s' \<and> shape s' = shape s"
    and u: "upd_ok I upd" "quiet_closed (comm_wired H L N) I"
  have "comm_inv H L N s I upd" using inv u unfolding comm_inv_def by blast
  from comm_input_ok [OF f this I w d] show "\<exists>s'. f p v s = Some s' \<and> I s'" .
next
  fix upd upd' :: "('z cm) updater" and s :: "'z cm" and j f I
  assume f: "m_start (comm_class upd (o_class (obj_at s j))) = Some f" and I: "I s"
    and j: "j < length (objs s)"
    and inv: "\<And>s'. I s' \<Longrightarrow> comm_wired H L N s' \<and> shape s' = shape s"
    and u: "upd_ok I upd" "quiet_closed (comm_wired H L N) I"
  have "comm_inv H L N s I upd" using inv u unfolding comm_inv_def by blast
  from comm_start_ok [OF f this I j] show "\<exists>s'. f j s = Some s' \<and> I s'" .
next
  fix upd upd' :: "('z cm) updater" and n f
  assume le: "upd_le upd upd'" "m_input (comm_class upd n) = Some f"
  consider "n = ''sink''" | "n = ''source''" | "n \<noteq> ''sink''" "n \<noteq> ''source''" by blast
  then show "\<exists>f'. m_input (comm_class upd' n) = Some f' \<and> (\<forall>p v s s'. f p v s = Some s' \<longrightarrow> f' p v s = Some s')"
  proof cases
    case 2
    with le source_input_le [OF le(1)] show ?thesis by (auto simp: comm_class_simps)
  next
    case 3
    with circuit_input_mono [OF le(1)] le(2) show ?thesis by (simp only: comm_class_simps not_False_eq_True)
  qed (use le in \<open>simp add: comm_class_simps\<close>)
next
  fix upd upd' :: "('z cm) updater" and n
  show "m_input (comm_class upd n) = None \<Longrightarrow> m_input (comm_class upd' n) = None"
    using circuit_input_none by (auto simp: comm_class_def split: if_splits)
qed

section \<open>Events from the network, timers and the circuit\<close>

inductive comm_event :: "nat \<Rightarrow> 'z cm \<Rightarrow> 'z cm \<Rightarrow> bool" for n where
  comm_start: "tile < length (tiles s) \<Longrightarrow> hk_tile_start comm_class n tile s = Some s' \<Longrightarrow> comm_event n s s'"
| comm_output: "p < length (pads s) \<Longrightarrow> p_dir (pad_at s p) = HK_PAD_OUT \<Longrightarrow>
    hk_pad_update_str comm_class n p v s = Some s' \<Longrightarrow> comm_event n s s'"
| comm_timer: "timer_due s f j \<Longrightarrow>
    timer_callback (hk_pad_update_str comm_class n) f j s = Some (ret, s') \<Longrightarrow> comm_event n s s'"
| comm_set: "hk_sink_update_by_name (comm_call (hk_pad_update_str comm_class n)) name v s = Some s' \<Longrightarrow>
    comm_event n s s'"

definition comm_order :: "ep_handler option list list \<Rightarrow> nat list list \<Rightarrow> nat \<Rightarrow> 'z cm \<Rightarrow> bool" where
  "comm_order H L n s \<longleftrightarrow> wf_state s \<and> comm_wired H L (client_of s) s \<and> open_inputs s < n"

lemma comm_kept_inv:
  assumes "comm_order H L n s"
  shows "comm_inv H L (client_of s) s (comm.kept H L (client_of s) s) (hk_pad_update_str comm_class n)"
  unfolding comm_inv_def
proof (intro conjI allI impI)
  show "comm_wired H L (client_of s) s'" "shape s' = shape s" if "comm.kept H L (client_of s) s s'" for s'
    using that by (simp_all add: comm.kept_def keeps_def)
  show "upd_ok (comm.kept H L (client_of s) s) (hk_pad_update_str comm_class n)"
    using assms by (intro comm.kept_upd_ok) (simp_all add: comm_order_def)
  show "quiet_closed (comm_wired H L (client_of s)) (comm.kept H L (client_of s) s)" by (rule comm.kept_quiet)
qed

lemma comm_kept_order: "comm_order H L n s \<Longrightarrow> comm.kept H L (client_of s) s s' \<Longrightarrow>
    comm_order H L n s' \<and> client_of s' = client_of s"
  using comm.kept_wf [of H L "client_of s" s s'] open_inputs_keeps [of s s'] by (auto simp: comm_order_def comm.kept_def comm_wired_def)

lemma comm_started_order: "comm_order H L n s \<Longrightarrow> comm.started_from H L (client_of s) s s' \<Longrightarrow>
    comm_order H L n s' \<and> client_of s' = client_of s"
  using open_inputs_cong [of s' s] by (auto simp: comm_order_def comm.started_from_def comm_wired_def)

lemma comm_events_ok:
  assumes s: "comm_order H L n s"
  shows "tile < length (tiles s) \<Longrightarrow> \<exists>s'. hk_tile_start comm_class n tile s = Some s' \<and> comm_order H L n s' \<and> client_of s' = client_of s"
    "p < length (pads s) \<Longrightarrow> p_dir (pad_at s p) = HK_PAD_OUT \<Longrightarrow>
       \<exists>s'. hk_pad_update_str comm_class n p v s = Some s' \<and> comm_order H L n s' \<and> client_of s' = client_of s"
    "timer_due s f j \<Longrightarrow>
       \<exists>ret s'. timer_callback (hk_pad_update_str comm_class n) f j s = Some (ret, s') \<and> comm_order H L n s' \<and> client_of s' = client_of s"
    "\<exists>s'. hk_sink_update_by_name (comm_call (hk_pad_update_str comm_class n)) name v s = Some s' \<and>
       comm_order H L n s' \<and> client_of s' = client_of s"
proof -
  have w: "wf_state s" "comm_wired H L (client_of s) s" "open_inputs s < n" using s by (simp_all add: comm_order_def)
  have k: "comm.kept H L (client_of s) s s" using w(2) by (simp add: comm.kept_def)
  note inv = comm_kept_inv [OF s] and ord = comm_kept_order [OF s]
  show "\<exists>s'. hk_tile_start comm_class n tile s = Some s' \<and> comm_order H L n s' \<and> client_of s' = client_of s" if "tile < length (tiles s)"
    using comm.tile_start_returns [OF w(1,2) that w(3)] comm_started_order [OF s] by blast
  show "\<exists>s'. hk_pad_update_str comm_class n p v s = Some s' \<and> comm_order H L n s' \<and> client_of s' = client_of s"
    if "p < length (pads s)" "p_dir (pad_at s p) = HK_PAD_OUT"
    using comm.update_returns [OF w(1,2) that w(3)] ord by blast
  show "\<exists>ret s'. timer_callback (hk_pad_update_str comm_class n) f j s = Some (ret, s') \<and> comm_order H L n s' \<and> client_of s' = client_of s"
    if "timer_due s f j"
    using timer_callback_ok [OF comm_inv_good [OF inv] k that] ord by blast
  show "\<exists>s'. hk_sink_update_by_name (comm_call (hk_pad_update_str comm_class n)) name v s = Some s' \<and>
       comm_order H L n s' \<and> client_of s' = client_of s"
  proof (cases "hk_sink_retrieve_by_name name s")
    case None
    with s show ?thesis by (simp add: hk_sink_update_by_name_def)
  next
    case (Some q)
    then have "q < length (hk_sinks s)"
      by (auto simp: hk_sink_retrieve_by_name_def hk_sink_retrieve_by_full_name_def
          dest: find_index_SomeD split: prod.splits)
    moreover have "length (hk_sinks s) = length H"
      using w(2) unfolding comm_wired_def eps_wired_def by (metis length_map)
    ultimately have "q < length H" by simp
    from sink_update_ok [OF inv k this] ord Some show ?thesis
      by (simp add: hk_sink_update_by_name_def) blast
  qed
qed

lemma comm_event_order:
  assumes "comm_event n s s'" "comm_order H L n s"
  shows "comm_order H L n s' \<and> client_of s' = client_of s"
  using assms(1)
proof cases
  case (comm_start tile)
  with comm_events_ok(1) [OF assms(2) comm_start(1)] show ?thesis by auto
next
  case (comm_output p v)
  with comm_events_ok(2) [OF assms(2) comm_output(1,2), of v] show ?thesis by auto
next
  case (comm_timer f j ret)
  with comm_events_ok(3) [OF assms(2) comm_timer(1)] show ?thesis by auto
next
  case (comm_set name v)
  with comm_events_ok(4) [OF assms(2), of name v] show ?thesis by auto
qed

lemma comm_events_order: "(comm_event n)\<^sup>*\<^sup>* s s' \<Longrightarrow> comm_order H L n s \<Longrightarrow> comm_order H L n s'"
  by (induction rule: rtranclp_induct) (auto dest: comm_event_order)

section \<open>Properties\<close>

text \<open>
  C2: In a tile of gates, timers, relays, sinks and sources, whatever loops nets and
  local connections form, every event returns, in every state such events lead to: the
  update of a sink by its name, which a node, a client or the broker sends, the start of a
  tile, the update of an output pad and a pending timer.
\<close>

theorem network_events_return:
  assumes "comm_order H L n s0" "(comm_event n)\<^sup>*\<^sup>* s0 s"
  shows "hk_sink_update_by_name (comm_call (hk_pad_update_str comm_class n)) name v s \<noteq> None \<and>
    (tile < length (tiles s) \<longrightarrow> hk_tile_start comm_class n tile s \<noteq> None) \<and>
    (p < length (pads s) \<and> p_dir (pad_at s p) = HK_PAD_OUT \<longrightarrow> hk_pad_update_str comm_class n p v s \<noteq> None) \<and>
    (timer_due s f j \<longrightarrow> timer_callback (hk_pad_update_str comm_class n) f j s \<noteq> None)"
proof -
  note ok = comm_events_ok [OF comm_events_order [OF assms(2,1)]]
  show ?thesis using ok(1) [of tile] ok(2) [of p v] ok(3) [of f j] ok(4) [of name v] by auto
qed

definition lamp_ep :: "hk_ep_type \<Rightarrow> nat \<Rightarrow> hk_ep" where
  "lamp_ep type obj = ep_zero\<lparr>ep_type := type, ep_obj := Some obj\<rparr>"

definition lamp :: "(ep_ctx hk_ctx, ep_handler) comm_state" where
  \<comment> \<open>a sink whose output is the input of a source connected to the sink\<close>
  "lamp = \<lparr>sources = [], last_tag = 0, quit_requested = False, hk_clock = 0, classes = [],
     pads = [pad_of 0 HK_PAD_OUT ''out'' (Some 0), pad_of 1 HK_PAD_IN ''in'' (Some 0)],
     nets = [\<lparr>n_id = 1, n_pads = [0, 1]\<rparr>],
     objs = [obj_of ''lamp'' ''sink'' [0] (Other_ctx (Sink_ctx 0 (Some 0))),
             obj_of ''lamp'' ''source'' [1] (Other_ctx (Source_ctx 1 (Some 0)))],
     tiles = [\<lparr>t_dir = ''/'', t_name = ''t'', t_fname = ''t'', t_objs = [0, 1], t_nets = [0]\<rparr>],
     tile_tab = [Some 0], opt_full_name = False,
     hk_sinks = [\<lparr>sk_ep = lamp_ep HK_EP_SINK 0, sk_handlers = [Some (Sink_event 0), Some Comm_ws_send],
                  sk_local_source = Some 0\<rparr>],
     hk_sources = [\<lparr>so_ep = lamp_ep HK_EP_SOURCE 1, so_local_sinks = [0]\<rparr>],
     trace_depth = 0, tstamp = 0, hkcp_port = 5678, hkcp_srv = tcp_srv_clear, hkcp_nodes = [],
     adv_fd = 0, adv_tag = 0, adv_handlers = [], adv_proto = 0, adv_broker = None, adv_out = [],
     mqtt = mqtt_zero, mosq_calls = [], mq_queue = [],
     comm = \<lparr>use_hkcp = True, with_mqtt = False, ws_pre = 16, ws_srv = empty_server, stdin_cmd = None\<rparr>\<rparr>"

lemmas lamp_simps = lamp_def pad_of_def obj_of_def

lemma lamp_order: "comm_order [[Some (Sink_event 0), Some Comm_ws_send]] [[0]] 2 lamp"
proof -
  have n: "net_wf lamp" by (simp add: net_wf_def lamp_simps All_less_Suc)
  have r: "refs_wf lamp" by (simp add: refs_wf_def lamp_simps)
  have c: "circuit_wired lamp"
    unfolding circuit_wired_def by (simp add: lamp_simps All_less_Suc circuit_names_def)
  have e: "eps_wired [[Some (Sink_event 0), Some Comm_ws_send]] [[0]] lamp"
    by (simp add: eps_wired_def lamp_simps All_less_Suc ctx_of_def out_pad_def)
  have "open_inputs lamp = 1" by (simp add: open_inputs_def lamp_simps)
  with n r c e show ?thesis by (simp add: comm_order_def wf_state_def comm_wired_def)
qed

theorem network_events_return_witness:
  "hk_sink_update_by_name (comm_call (hk_pad_update_str comm_class 2)) ''lamp'' ''1'' lamp \<noteq> None"
  using network_events_return [OF lamp_order rtranclp.rtrancl_refl] by blast

end
