(* ===== verification/Hk_History.thy ===== *)
theory Hk_History
  imports Hk_Gates "HOL-Library.List_Lexorder"
begin

unbundle bit_operations_syntax

text \<open>
  \<^verbatim>\<open>classes/history\<close>: the log of signals (\<^verbatim>\<open>history.c\<close>, \<^verbatim>\<open>main.c\<close>) and the separate program
  that prints it (\<^verbatim>\<open>hakit-history.c\<close>). A log is a list of bytes; \<open>long long\<close> values are
  64-bit words, the overflow of \<open>-lim\<close> for 8 bytes wrapping as the compiler makes it. The
  time of day (in seconds) and the clock of the event loop are arguments; files are a map
  from names to contents. The main result is that the printed log is the sequence of values
  that were fed, and for which values it is not.
\<close>

section \<open>Values as bytes\<close>

definition fits :: "nat \<Rightarrow> 64 word \<Rightarrow> bool" where
  \<comment> \<open>\<open>(value >= -lim) && (value < lim)\<close> for \<open>len\<close> bytes\<close>
  "fits len value = (let lim = push_bit (8 * len - 1) 1 in - lim \<le>s value \<and> value <s lim)"

definition value_bytes :: "nat \<Rightarrow> 64 word \<Rightarrow> 8 word list" where
  "value_bytes len value = map (\<lambda>j. ucast (signed_drop_bit (8 * (len - j - 1)) value)) [0..<len]"

definition history_append_value :: "8 word list \<Rightarrow> 8 word \<Rightarrow> 64 word \<Rightarrow> 8 word list" where
  "history_append_value buf op value =
     (case find (\<lambda>i. fits (i + 1) value) [0..<8] of
        None \<Rightarrow> buf
      | Some i \<Rightarrow> buf @ [op OR push_bit 4 (of_nat i)] @ value_bytes (i + 1) value)"

primrec read_bytes :: "8 word list \<Rightarrow> 64 word \<Rightarrow> 64 word" where
  \<comment> \<open>the loop of \<open>history_read_value\<close> over the bytes that are left\<close>
  "read_bytes [] value = value"
| "read_bytes (b # bs) value =
     read_bytes bs ((value AND NOT (push_bit (8 * length bs) 0xFF)) OR push_bit (8 * length bs) (ucast b))"

definition history_read_value :: "8 word list \<Rightarrow> 64 word" where
  "history_read_value buf = read_bytes buf (if hd buf AND 0x80 \<noteq> 0 then -1 else 0)"

section \<open>The log\<close>

definition BUCKET_MAXSIZE :: nat where "BUCKET_MAXSIZE = 10000"
definition BUCKET_FLUSH_TIMEOUT :: "64 word" where "BUCKET_FLUSH_TIMEOUT = 10000"
definition NBUCKETS :: nat where "NBUCKETS = 10"
definition history_filename_prefix :: string where "history_filename_prefix = ''/tmp/hakit-history''"

record bucket =
  b_t0 :: "64 word"
  b_buf :: "8 word list"
  b_fname :: "string option"
  b_fpos :: nat

record history =
  h_hdr :: "8 word list"
  h_buckets :: "bucket list"
  h_ibucket :: nat
  h_t :: "64 word"
  h_current_id :: "32 word"
  h_timeout_tag :: sys_tag

record 'c hist_state = "'c hk_state" +
  files :: "string \<rightharpoonup> 8 word list"

type_synonym ('c, 'z) hst = "('c, 'z) hist_state_scheme"

definition history_zero :: history where
  "history_zero = \<lparr>h_hdr = [], h_buckets = replicate NBUCKETS \<lparr>b_t0 = 0, b_buf = [], b_fname = None, b_fpos = 0\<rparr>,
     h_ibucket = 0, h_t = 0, h_current_id = 0, h_timeout_tag = 0\<rparr>"

abbreviation bucket_of :: "history \<Rightarrow> bucket" where "bucket_of h \<equiv> h_buckets h ! h_ibucket h"

definition upd_bucket :: "(bucket \<Rightarrow> bucket) \<Rightarrow> history \<Rightarrow> history" where
  "upd_bucket g h = h\<lparr>h_buckets := map_nth (h_ibucket h) g (h_buckets h)\<rparr>"

fun nat_hex :: "nat \<Rightarrow> string" where
  "nat_hex n = (let d = (\<lambda>k. if k < 10 then digit k else char_of (87 + k))
                in if n < 16 then [d n] else nat_hex (n div 16) @ [d (n mod 16)])"

declare nat_hex.simps [simp del]

definition bucket_fname :: "64 word \<Rightarrow> string" where
  \<comment> \<open>\<open>%s-%010llx\<close>\<close>
  "bucket_fname t0 =
     (let hex = nat_hex (unat t0)
      in snprintf (length history_filename_prefix + 12)
           (history_filename_prefix @ ''-'' @ replicate (10 - length hex) (CHR ''0'') @ hex))"

definition history_bucket_start :: "64 word \<Rightarrow> history \<Rightarrow> history" where
  "history_bucket_start time h =
     upd_bucket (\<lambda>b. b\<lparr>b_t0 := time, b_buf := history_append_value [] 0x02 time, b_fname := Some (bucket_fname time),
                       b_fpos := 0\<rparr>)
       (h\<lparr>h_t := time, h_current_id := -1\<rparr>)"

definition history_bucket_flush :: "(string \<Rightarrow> bool) \<Rightarrow> history \<times> ('c, 'z) hst \<Rightarrow> history \<times> ('c, 'z) hst" where
  \<comment> \<open>\<open>can fname\<close>: the file can be opened; then everything is written\<close>
  "history_bucket_flush can w =
     (case w of (h, st) \<Rightarrow>
        let b = bucket_of h; new = drop (b_fpos b) (b_buf b); fname = the (b_fname b)
        in if new \<noteq> [] \<and> can fname then
             (upd_bucket (\<lambda>b. b\<lparr>b_fpos := length (b_buf b)\<rparr>) h,
              st\<lparr>files := (files st)(fname \<mapsto>
                 (case files st fname of None \<Rightarrow> [] | Some old \<Rightarrow> old) @ (if b_fpos b = 0 then h_hdr h else []) @ new)\<rparr>)
           else (h, st))"

definition history_bucket_flush_timeout ::
    "(string \<Rightarrow> bool) \<Rightarrow> history \<times> ('c, 'z) hst \<Rightarrow> int \<times> history \<times> ('c, 'z) hst" where
  "history_bucket_flush_timeout can w =
     (case w of (h, st) \<Rightarrow> (0, history_bucket_flush can (h\<lparr>h_timeout_tag := 0\<rparr>, st)))"

definition history_signal_declare :: "32 word \<Rightarrow> string \<Rightarrow> history \<Rightarrow> history" where
  "history_signal_declare sid name h =
     h\<lparr>h_hdr := history_append_value (h_hdr h) 0x00 (scast sid) @ bytes_of (name @ [NUL]), h_current_id := sid\<rparr>"

definition history_init :: "64 word \<Rightarrow> nat \<Rightarrow> ('c, 'z) hst \<Rightarrow> history \<times> ('c, 'z) hst" where
  "history_init time arg st =
     (history_bucket_start time history_zero,
      snd (sys_quit_handler (Some ''history_bucket_flush_timeout'') (Some arg) st))"

definition history_select :: "64 word \<Rightarrow> 32 word \<Rightarrow> history \<Rightarrow> history" where
  "history_select time sid h =
     (let h = (if sid \<noteq> h_current_id h
               then upd_bucket (\<lambda>b. b\<lparr>b_buf := history_append_value (b_buf b) 0x01 (scast sid)\<rparr>) (h\<lparr>h_current_id := sid\<rparr>)
               else h)
      in if time \<noteq> h_t h then
           let dt = time - h_t h
           in upd_bucket (\<lambda>b. b\<lparr>b_buf :=
                  (if dt <s 64 then b_buf b @ [0xC0 OR ucast dt] else history_append_value (b_buf b) 0x03 dt)\<rparr>)
                (h\<lparr>h_t := time\<rparr>)
         else h)"

definition history_feed_str :: "string \<Rightarrow> history \<Rightarrow> history" where
  "history_feed_str str = upd_bucket (\<lambda>b. b\<lparr>b_buf := b_buf b @ [0x05] @ bytes_of (str @ [NUL])\<rparr>)"

definition history_feed_int :: "64 word \<Rightarrow> history \<Rightarrow> history" where
  "history_feed_int value =
     upd_bucket (\<lambda>b. b\<lparr>b_buf := (if - 32 \<le>s value \<and> value <s 31 then b_buf b @ [ucast (0x80 OR value)]
                                 else history_append_value (b_buf b) 0x04 value)\<rparr>)"

definition history_static :: history where
  \<comment> \<open>the variable \<open>history\<close> of the file, which nothing writes\<close>
  "history_static = history_zero"

definition history_feed ::
    "64 word \<Rightarrow> 64 word \<Rightarrow> (string \<Rightarrow> bool) \<Rightarrow> nat \<Rightarrow> 32 word \<Rightarrow> string \<Rightarrow> history \<times> ('c, 'z) hst
      \<Rightarrow> history \<times> ('c, 'z) hst" where
  "history_feed time now can arg sid value w =
     (case w of (h, st) \<Rightarrow>
        let (h, st) = (if h_timeout_tag h \<noteq> 0 then (h\<lparr>h_timeout_tag := 0\<rparr>, sys_remove (h_timeout_tag h) st) else (h, st));
            h = history_select time sid h;
            h = (if list_all (\<lambda>c. digit_val 10 c \<noteq> None) value
                 then history_feed_int (word_of_int (strtol10 value)) h else history_feed_str value h)
        in if BUCKET_MAXSIZE \<le> length (b_buf (h_buckets history_static ! h_ibucket h)) then
             let (h, st) = history_bucket_flush can (h, st);
                 h = h\<lparr>h_ibucket := (if NBUCKETS \<le> h_ibucket h + 1 then 0 else h_ibucket h + 1)\<rparr>
             in (history_bucket_start time h, st)
           else
             (case sys_timeout now BUCKET_FLUSH_TIMEOUT (Some ''history_bucket_flush_timeout'') (Some arg) st of
                (tag, st) \<Rightarrow> (h\<lparr>h_timeout_tag := tag\<rparr>, st)))"

section \<open>The class history\<close>

lemma tl_dropWhile_shorter: "dropWhile P xs \<noteq> [] \<Longrightarrow> length (tl (dropWhile P xs)) < length xs"
  using length_dropWhile_le [of P xs] by (cases "dropWhile P xs") auto

function split_commas :: "string \<Rightarrow> string list" where
  \<comment> \<open>\<open>strchr (s1, ',')\<close> until there is none\<close>
  "split_commas s =
     (let s2 = dropWhile (\<lambda>c. c \<noteq> CHR '','') s
      in takeWhile (\<lambda>c. c \<noteq> CHR '','') s # (if s2 = [] then [] else split_commas (tl s2)))"
  by pat_completeness auto
termination by (relation "measure length") (simp_all add: tl_dropWhile_shorter del: length_tl dropWhile_eq_Nil_conv)

declare split_commas.simps [simp del]

definition history_new ::
    "64 word \<Rightarrow> nat \<Rightarrow> (history hk_ctx, 'z) hst \<Rightarrow> (int \<times> (history hk_ctx, 'z) hst) option" where
  \<comment> \<open>names without \<open>%\<close>, as they are used as formats; the property keeps its first name only\<close>
  "history_new time obj st =
     (case history_init time obj st of (h, st) \<Rightarrow>
        let names = (case prop_of obj ''inputs'' st of None \<Rightarrow> [] | Some s \<Rightarrow> split_commas s);
            st = (case names of [] \<Rightarrow> st | n # _ \<Rightarrow> hk_obj_prop_set obj ''inputs'' n st);
            (h, last_id, st) = foldl (\<lambda>(h, last_id, st) name.
                case hk_pad_create obj HK_PAD_IN name st of (pad, st) \<Rightarrow>
                  let last_id = last_id + 1
                  in (history_signal_declare (word_of_int last_id) name h, last_id, set_state pad last_id st))
              (h, 0, st) names
        in Some (0, set_ctx obj (Other_ctx h) st))"

definition history_input ::
    "64 word \<Rightarrow> (string \<Rightarrow> bool) \<Rightarrow> nat \<Rightarrow> string \<Rightarrow> (history hk_ctx, 'z) hst \<Rightarrow> ((history hk_ctx, 'z) hst) option" where
  "history_input time can pad value st =
     (let obj = p_obj (pad_at st pad)
      in case ctx_of obj st of
           Some (Other_ctx h) \<Rightarrow>
             (case history_feed time (hk_clock st) can obj (word_of_int (p_state (pad_at st pad))) value (h, st) of
                (h, st) \<Rightarrow> Some (set_ctx obj (Other_ctx h) st))
         | _ \<Rightarrow> None)"

section \<open>Printing a log\<close>

record printer =
  d_t :: "64 word"
  d_syms :: "(string \<times> 32 word) list"
  d_cur :: "nat option"
  d_out :: string

definition history_read_str :: "8 word list \<Rightarrow> (string \<times> 8 word list) option" where
  \<comment> \<open>\<open>None\<close>: the end of the file comes first\<close>
  "history_read_str bs =
     (if 0 \<in> set bs then Some (text_of (takeWhile (\<lambda>b. b \<noteq> 0) bs), tl (dropWhile (\<lambda>b. b \<noteq> 0) bs)) else None)"

lemma history_read_str_length: "history_read_str bs = Some (s, rest) \<Longrightarrow> length rest < length bs"
proof -
  assume "history_read_str bs = Some (s, rest)"
  then have "rest = tl (dropWhile (\<lambda>b. b \<noteq> 0) bs)" "dropWhile (\<lambda>b. b \<noteq> 0) bs \<noteq> []"
    by (auto simp: history_read_str_def split: if_splits)
  then show ?thesis using tl_dropWhile_shorter by blast
qed

definition print_value :: "(64 word \<Rightarrow> string) \<Rightarrow> string \<Rightarrow> printer \<Rightarrow> printer" where
  \<comment> \<open>\<open>history_dump_tstamp\<close> (\<open>fmt\<close>: local time as text), \<open>history_dump_sym\<close> and a value\<close>
  "print_value fmt text d =
     d\<lparr>d_out := d_out d @ fmt (d_t d) @ '' '' @
         (case d_cur d of None \<Rightarrow> ''????'' | Some k \<Rightarrow> fst (d_syms d ! k)) @ '' = '' @ text @ [LF]\<rparr>"

function print_loop :: "(64 word \<Rightarrow> string) \<Rightarrow> 8 word list \<Rightarrow> printer \<Rightarrow> (int \<times> printer) option" where
  \<comment> \<open>the loop of \<open>history_dump_file\<close>; \<open>None\<close>: bytes that are not there are used. The code -1 also
    covers what a stale \<open>errno\<close> makes of the end of the file.\<close>
  "print_loop fmt bs d =
     (case bs of
        [] \<Rightarrow> Some (0, d)
      | op # bs \<Rightarrow>
          if op AND 0x80 \<noteq> 0 then
            let v = op AND 0x3F
            in if op AND 0x40 \<noteq> 0 then print_loop fmt bs (d\<lparr>d_t := d_t d + ucast v\<rparr>)
               else print_loop fmt bs (print_value fmt (nat_dec (unat v)) d)
          else
            let len = unat (drop_bit 4 op) + 1; buf = take len bs; rest = drop len bs; kind = op AND 0x0F
            in if kind \<le> 5 \<and> length buf < len then None
               else if kind = 0 then
                 (case history_read_str rest of
                    None \<Rightarrow> Some (-1, d)
                  | Some (name, rest) \<Rightarrow>
                      print_loop fmt rest (d\<lparr>d_syms := d_syms d @ [(name, ucast (history_read_value buf))],
                                            d_cur := Some (length (d_syms d))\<rparr>))
               else if kind = 1 then
                 print_loop fmt rest (d\<lparr>d_cur :=
                   (case find_index (\<lambda>s. snd s = ucast (history_read_value buf)) (d_syms d) of
                      None \<Rightarrow> d_cur d | Some k \<Rightarrow> Some k)\<rparr>)
               else if kind = 2 then print_loop fmt rest (d\<lparr>d_t := history_read_value buf\<rparr>)
               else if kind = 3 then print_loop fmt rest (d\<lparr>d_t := d_t d + history_read_value buf\<rparr>)
               else if kind = 4 then
                 print_loop fmt rest (print_value fmt (int_dec (sint (history_read_value buf))) d)
               else if kind = 5 then
                 (case history_read_str rest of
                    None \<Rightarrow> None
                  | Some (str, rest) \<Rightarrow> print_loop fmt rest (print_value fmt (DQUOTE # str @ [DQUOTE]) d))
               else print_loop fmt rest d)"
  by pat_completeness auto
termination
  by (relation "measure (\<lambda>(fmt, bs, d). length bs)")
    (auto dest!: history_read_str_length elim: less_le_trans)

declare print_loop.simps [simp del]

definition history_dump_file :: "(64 word \<Rightarrow> string) \<Rightarrow> string \<Rightarrow> 8 word list option \<Rightarrow> (int \<times> string) option" where
  "history_dump_file fmt fname content =
     (let head = ''# History file: '' @ fname @ [LF]
      in case content of
           None \<Rightarrow> Some (-1, head)
         | Some bs \<Rightarrow>
             map_option (\<lambda>(ret, d). (ret, d_out d))
               (print_loop fmt bs \<lparr>d_t = 0, d_syms = [], d_cur = None, d_out = head\<rparr>))"

definition history_dump ::
    "(64 word \<Rightarrow> string) \<Rightarrow> string list option \<Rightarrow> (string \<rightharpoonup> 8 word list) \<Rightarrow> (int \<times> string) option" where
  \<comment> \<open>\<open>dir\<close>: the names of the entries of \<open>/tmp\<close>, as \<open>readdir\<close> gives them. What a file
    returns is ignored.\<close>
  "history_dump fmt dir content =
     (case dir of
        None \<Rightarrow> Some (-1, [])
      | Some names \<Rightarrow>
          map_option (\<lambda>out. (0, out))
            (foldo (\<lambda>out fname.
               let path = ''/tmp/'' @ fname
               in map_option (\<lambda>(_, text). out @ text) (history_dump_file fmt path (content path)))
             [] (sort_key bytes_of (filter (\<lambda>n. take 14 n = ''hakit-history-'') names))))"

section \<open>Values are read back\<close>

lemma fits_iff:
  assumes "0 < len" "len < 8"
  shows "fits len v \<longleftrightarrow> - (2 ^ (8 * len - 1)) \<le> sint v \<and> sint v < 2 ^ (8 * len - 1)"
proof -
  consider "len = 1" | "len = 2" | "len = 3" | "len = 4" | "len = 5" | "len = 6" | "len = 7"
    using assms by linarith
  then show ?thesis
    by cases (simp_all add: fits_def word_sle_eq word_sless_alt Let_def)
qed

lemma fits_bits:
  assumes "fits len v" "0 < len" "len < 8" "8 * len - 1 \<le> n" "n < 64"
  shows "bit v n = bit v (8 * len - 1)"
proof -
  let ?m = "8 * len - 1"
  have "signed_take_bit ?m (sint v) = sint v"
    using fits_iff [OF assms(2,3)] assms(1) by (simp add: signed_take_bit_int_eq_self)
  then have "bit (sint v) n = bit (sint v) (min ?m n)"
    by (metis bit_signed_take_bit_iff possible_bit_int)
  then show ?thesis
    using assms(2-5) by (simp add: bit_sint_iff min_def)
qed

lemma not_fits_8: "\<not> fits 8 v"
proof -
  have "push_bit 63 1 = (- (2 ^ 63) :: 64 word)" by (simp add: push_bit_eq_mult)
  moreover have "sint (- (2 ^ 63) :: 64 word) = - (2 ^ 63)" by simp
  ultimately show ?thesis
    using sint_greater_eq [of v] by (simp add: fits_def word_sless_alt)
qed

lemma bit_read_bytes:
  "n < 64 \<Longrightarrow> bit (read_bytes bs acc) n =
     (if n < 8 * length bs then bit (bs ! (length bs - 1 - n div 8)) (n mod 8) else bit acc n)"
proof (induction bs arbitrary: acc)
  case (Cons b bs)
  let ?acc = "(acc AND NOT (push_bit (8 * length bs) 0xFF)) OR push_bit (8 * length bs) (ucast b :: 64 word)"
  have ff: "bit (0xFF :: 64 word) k \<longleftrightarrow> k < 8" for k
  proof -
    have "(0xFF :: 64 word) = mask 8" by (simp add: mask_eq_exp_minus_1)
    then show ?thesis by (simp only: bit_mask_iff) auto
  qed
  have b: "bit b k \<Longrightarrow> k < 8" for k using bit_imp_le_length [of b k] by simp
  have acc: "bit ?acc n = (if 8 * length bs \<le> n \<and> n < 8 * length bs + 8 then bit b (n - 8 * length bs) else bit acc n)"
    using Cons.prems b [of "n - 8 * length bs"] ff [of "n - 8 * length bs"]
    by (auto simp: bit_or_iff bit_and_iff bit_not_iff_eq bit_push_bit_iff bit_ucast_iff possible_bit_def)
  have r: "bit (read_bytes (b # bs) acc) n =
      (if n < 8 * length bs then bit (bs ! (length bs - 1 - n div 8)) (n mod 8) else bit ?acc n)"
    using Cons.IH [OF Cons.prems, of ?acc] by simp
  consider "n < 8 * length bs" | "8 * length bs \<le> n" "n < 8 * Suc (length bs)" | "8 * Suc (length bs) \<le> n"
    by linarith
  then show ?case
  proof cases
    case 1
    then have "n div 8 < length bs" by linarith
    then have "length (b # bs) - 1 - n div 8 = Suc (length bs - 1 - n div 8)" by simp
    with 1 show ?thesis unfolding r by simp
  next
    case 2
    then obtain k where k: "n = 8 * length bs + k" "k < 8" using le_Suc_ex by fastforce
    then have "n div 8 = length bs" "n mod 8 = k" by simp_all
    with k 2 show ?thesis unfolding r acc by simp
  next
    case 3
    then show ?thesis unfolding r acc by simp
  qed
qed simp

lemma read_value_bytes:
  assumes "fits len v" "0 < len" "len < 8"
  shows "history_read_value (value_bytes len v) = v"
proof (rule bit_word_eqI)
  fix n assume "n < LENGTH(64)"
  then have n: "n < 64" by simp
  have at: "bit (value_bytes len v ! j) k = bit v (8 * (len - j - 1) + k)" if "j < len" "k < 8" for j k
    using that assms(3) by (simp add: value_bytes_def bit_simps min_def) linarith
  have l: "length (value_bytes len v) = len" by (simp add: value_bytes_def)
  have "hd (value_bytes len v) = value_bytes len v ! 0"
    using assms(2) l by (metis hd_conv_nth length_0_conv less_not_refl)
  then have "bit (hd (value_bytes len v)) 7 = bit v (8 * len - 1)"
    using at [of 0 7] assms(2) by (simp add: algebra_simps)
  moreover have "b AND 0x80 \<noteq> 0 \<longleftrightarrow> bit b 7" for b :: "8 word"
    by (simp add: bit_iff_and_push_bit_not_eq_0)
  ultimately have s: "hd (value_bytes len v) AND 0x80 \<noteq> 0 \<longleftrightarrow> bit v (8 * len - 1)" by simp
  show "bit (history_read_value (value_bytes len v)) n = bit v n"
  proof (cases "n < 8 * len")
    case True
    then have "n div 8 < len" by linarith
    then have "len - 1 - n div 8 < len" "len - (len - 1 - n div 8) - 1 = n div 8" by simp_all
    with True n at [of "len - 1 - n div 8" "n mod 8"] show ?thesis
      by (simp add: history_read_value_def bit_read_bytes l)
  next
    case False
    with n s fits_bits [OF assms, of n] show ?thesis
      by (simp add: history_read_value_def bit_read_bytes l)
  qed
qed

definition small :: "64 word \<Rightarrow> bool" where
  \<comment> \<open>the values a log can hold: seven bytes\<close>
  "small v \<longleftrightarrow> - (2 ^ 55) \<le> sint v \<and> sint v < 2 ^ 55"

lemma append_value_prefix: "history_append_value buf op v = buf @ history_append_value [] op v"
  by (simp add: history_append_value_def split: option.split)

lemma fits_small: "0 < len \<Longrightarrow> len < 8 \<Longrightarrow> fits len v \<Longrightarrow> small v"
proof -
  assume a: "0 < len" "len < 8" "fits len v"
  have "(2 :: int) ^ (8 * len - 1) \<le> 2 ^ 55" using a(2) by (intro power_increasing) auto
  with fits_iff [OF a(1,2), of v] a(3) show ?thesis unfolding small_def by linarith
qed

lemma append_value_small:
  assumes "small v"
  obtains i where "i < 7" "fits (i + 1) v"
    "history_append_value [] op v = (op OR push_bit 4 (of_nat i)) # value_bytes (i + 1) v"
proof -
  have "fits 7 v" using assms by (simp add: fits_iff small_def)
  then have "find (\<lambda>i. fits (i + 1) v) [0..<8] \<noteq> None"
    by (auto simp: find_None_iff intro!: exI [of _ 6])
  then obtain i where i: "find (\<lambda>i. fits (i + 1) v) [0..<8] = Some i" by auto
  then have "fits (i + 1) v" "i < 8" by (auto simp: find_Some_iff)
  moreover have "i \<noteq> 7" using \<open>fits (i + 1) v\<close> not_fits_8 [of v] by auto
  ultimately show ?thesis using i that [of i] by (simp add: history_append_value_def)
qed

lemma append_value_large: "\<not> small v \<Longrightarrow> history_append_value buf op v = buf"
proof -
  assume n: "\<not> small v"
  have "\<not> fits (i + 1) v" if "i < 8" for i
  proof (cases "i = 7")
    case True
    then show ?thesis using not_fits_8 by simp
  next
    case False
    with that n fits_small [of "i + 1" v] show ?thesis by auto
  qed
  then have "find (\<lambda>i. fits (i + 1) v) [0..<8] = None" by (auto simp: find_None_iff)
  then show ?thesis by (simp add: history_append_value_def)
qed

lemma opcode_parts:
  assumes "op \<in> {0, 1, 2, 3, 4}" "i < 7"
  shows "(op OR push_bit 4 (of_nat i)) AND 0x80 = (0 :: 8 word)"
    "unat (drop_bit 4 (op OR push_bit 4 (of_nat i) :: 8 word)) = i"
    "(op OR push_bit 4 (of_nat i)) AND 0x0F = op"
proof -
  have "i \<in> {0, 1, 2, 3, 4, 5, 6}" using assms(2) by auto
  with assms(1) show "(op OR push_bit 4 (of_nat i)) AND 0x80 = (0 :: 8 word)"
    "unat (drop_bit 4 (op OR push_bit 4 (of_nat i) :: 8 word)) = i"
    "(op OR push_bit 4 (of_nat i)) AND 0x0F = op"
    by (elim insertE emptyE; simp)+
qed

lemma length_value_bytes [simp]: "length (value_bytes len v) = len"
  by (simp add: value_bytes_def)

section \<open>Operations of a log\<close>

lemma print_value_op:
  assumes "op \<in> {0, 1, 2, 3, 4}" "small v"
  shows "print_loop fmt (history_append_value [] op v @ rest) d =
    (if op = 0 then
       (case history_read_str rest of
          None \<Rightarrow> Some (-1, d)
        | Some (name, rest) \<Rightarrow>
            print_loop fmt rest (d\<lparr>d_syms := d_syms d @ [(name, ucast v)], d_cur := Some (length (d_syms d))\<rparr>))
     else if op = 1 then
       print_loop fmt rest (d\<lparr>d_cur := (case find_index (\<lambda>s. snd s = ucast v) (d_syms d) of
          None \<Rightarrow> d_cur d | Some k \<Rightarrow> Some k)\<rparr>)
     else if op = 2 then print_loop fmt rest (d\<lparr>d_t := v\<rparr>)
     else if op = 3 then print_loop fmt rest (d\<lparr>d_t := d_t d + v\<rparr>)
     else print_loop fmt rest (print_value fmt (int_dec (sint v)) d))"
proof -
  obtain i where i: "i < 7" "fits (i + 1) v"
    "history_append_value [] op v = (op OR push_bit 4 (of_nat i)) # value_bytes (i + 1) v"
    by (rule append_value_small [OF assms(2)])
  obtain b where b: "history_append_value [] op v = b # value_bytes (i + 1) v"
    "b AND 0x80 = 0" "unat (drop_bit 4 b) = i" "b AND 0x0F = op"
    using i(3) opcode_parts [OF assms(1) i(1)] by blast
  have v: "history_read_value (value_bytes (Suc i) v) = v"
    using read_value_bytes [OF i(2)] i(1) by simp
  show ?thesis
    unfolding b(1) append_Cons
    by (subst print_loop.simps) (use assms(1) in \<open>auto simp: b(2-4) v Let_def split: option.split\<close>)
qed

lemma byte_zero: "(of_char c :: 8 word) = 0 \<longleftrightarrow> c = NUL"
proof
  assume "(of_char c :: 8 word) = 0"
  then have "text_of (bytes_of [c]) = [char_of (0 :: nat)]" by (simp add: text_of_def bytes_of_def)
  then show "c = NUL" by (simp add: char_of_def)
qed simp

lemma read_str_bytes:
  assumes "NUL \<notin> set s"
  shows "history_read_str (bytes_of (s @ [NUL]) @ rest) = Some (s, rest)"
proof -
  have b: "\<forall>x\<in>set (bytes_of s). x \<noteq> 0" using assms by (auto simp: bytes_of_def byte_zero)
  then have "takeWhile (\<lambda>b. b \<noteq> 0) (bytes_of s @ 0 # rest) = bytes_of s"
    "dropWhile (\<lambda>b. b \<noteq> 0) (bytes_of s @ 0 # rest) = 0 # rest"
    by (simp_all add: takeWhile_append dropWhile_append)
  moreover have "bytes_of (s @ [NUL]) = bytes_of s @ [0]" by (simp add: bytes_of_def)
  ultimately show ?thesis by (simp add: history_read_str_def)
qed

lemma short_bytes:
  assumes "n < 64"
  shows "(0xC0 OR ucast (of_nat n :: 64 word)) AND 0x80 \<noteq> (0 :: 8 word)"
    "(0xC0 OR ucast (of_nat n :: 64 word)) AND 0x40 \<noteq> (0 :: 8 word)"
    "(0xC0 OR ucast (of_nat n :: 64 word)) AND 0x3F = (of_nat n :: 8 word)"
    "ucast (0x80 OR of_nat n :: 64 word) AND 0x80 \<noteq> (0 :: 8 word)"
    "ucast (0x80 OR of_nat n :: 64 word) AND 0x40 = (0 :: 8 word)"
    "ucast (0x80 OR of_nat n :: 64 word) AND 0x3F = (of_nat n :: 8 word)"
proof -
  have "list_all (\<lambda>n. (0xC0 OR ucast (of_nat n :: 64 word)) AND 0x80 \<noteq> (0 :: 8 word) \<and>
    (0xC0 OR ucast (of_nat n :: 64 word)) AND 0x40 \<noteq> (0 :: 8 word) \<and>
    (0xC0 OR ucast (of_nat n :: 64 word)) AND 0x3F = (of_nat n :: 8 word) \<and>
    ucast (0x80 OR of_nat n :: 64 word) AND 0x80 \<noteq> (0 :: 8 word) \<and>
    ucast (0x80 OR of_nat n :: 64 word) AND 0x40 = (0 :: 8 word) \<and>
    ucast (0x80 OR of_nat n :: 64 word) AND 0x3F = (of_nat n :: 8 word)) [0..<64]"
    by code_simp
  with assms show "(0xC0 OR ucast (of_nat n :: 64 word)) AND 0x80 \<noteq> (0 :: 8 word)"
    "(0xC0 OR ucast (of_nat n :: 64 word)) AND 0x40 \<noteq> (0 :: 8 word)"
    "(0xC0 OR ucast (of_nat n :: 64 word)) AND 0x3F = (of_nat n :: 8 word)"
    "ucast (0x80 OR of_nat n :: 64 word) AND 0x80 \<noteq> (0 :: 8 word)"
    "ucast (0x80 OR of_nat n :: 64 word) AND 0x40 = (0 :: 8 word)"
    "ucast (0x80 OR of_nat n :: 64 word) AND 0x3F = (of_nat n :: 8 word)"
    unfolding list_all_iff by simp_all
qed

lemma small_nat:
  assumes "0 \<le> sint v" "sint v < 64"
  obtains n where "v = of_nat n" "n < 64" "sint v = int n"
proof -
  have "v = of_nat (nat (sint v))" using assms(1) by (simp add: of_nat_nat)
  then show ?thesis using that [of "nat (sint v)"] assms by simp
qed

lemma dump_short:
  assumes "0 \<le> sint v" "sint v < 64"
  shows "print_loop fmt ((0xC0 OR ucast v) # rest) d = print_loop fmt rest (d\<lparr>d_t := d_t d + v\<rparr>)"
    "print_loop fmt (ucast (0x80 OR v) # rest) d = print_loop fmt rest (print_value fmt (int_dec (sint v)) d)"
proof -
  obtain n where n: "v = of_nat n" "n < 64" "sint v = int n" by (rule small_nat [OF assms])
  note s = short_bytes [OF n(2)]
  have u: "unat (of_nat n :: 8 word) = n" using n(2) by (simp add: unat_of_nat)
  have "ucast (of_nat n :: 8 word) = v" using u n(1) by (simp only: ucast_eq uint_nat) simp
  then show "print_loop fmt ((0xC0 OR ucast v) # rest) d = print_loop fmt rest (d\<lparr>d_t := d_t d + v\<rparr>)"
    by (subst print_loop.simps) (simp add: n(1) s)
  have "int_dec (sint v) = nat_dec n" using n(3) by (simp add: int_dec_def)
  then show "print_loop fmt (ucast (0x80 OR v) # rest) d = print_loop fmt rest (print_value fmt (int_dec (sint v)) d)"
    by (subst print_loop.simps) (simp add: n(1) s u)
qed

section \<open>Feeding a log\<close>

lemma upd_bucket_simps [simp]:
  "h_hdr (upd_bucket g h) = h_hdr h" "h_ibucket (upd_bucket g h) = h_ibucket h" "h_t (upd_bucket g h) = h_t h"
  "h_current_id (upd_bucket g h) = h_current_id h" "h_timeout_tag (upd_bucket g h) = h_timeout_tag h"
  "length (h_buckets (upd_bucket g h)) = length (h_buckets h)"
  by (simp_all add: upd_bucket_def)

lemma bucket_upd:
  "h_ibucket h < length (h_buckets h) \<Longrightarrow> bucket_of (upd_bucket g h) = g (bucket_of h)"
  "h_ibucket h < length (h_buckets h) \<Longrightarrow> h_buckets (upd_bucket g h) ! h_ibucket h = g (bucket_of h)"
  by (simp_all add: upd_bucket_def)

definition decodes :: "(64 word \<Rightarrow> string) \<Rightarrow> printer \<Rightarrow> 8 word list \<Rightarrow> printer \<Rightarrow> bool" where
  \<comment> \<open>whatever follows these bytes is decoded from \<open>d'\<close>\<close>
  "decodes fmt d bs d' \<longleftrightarrow> (\<forall>rest. print_loop fmt (bs @ rest) d = print_loop fmt rest d')"

lemma decodes_append: "decodes fmt d bs d1 \<Longrightarrow> decodes fmt d1 bs' d2 \<Longrightarrow> decodes fmt d (bs @ bs') d2"
  by (simp add: decodes_def)

lemma decodes_nil [simp]: "decodes fmt d [] d"
  by (simp add: decodes_def)

definition log_ok ::
    "(64 word \<Rightarrow> string) \<Rightarrow> (32 word \<times> string) list \<Rightarrow> printer \<Rightarrow> printer \<Rightarrow> history \<Rightarrow> bool" where
  \<comment> \<open>the log decodes to \<open>d\<close>, whose time and signal are those of \<open>h\<close>\<close>
  "log_ok fmt sigs d0 d h \<longleftrightarrow> h_ibucket h < NBUCKETS \<and> length (h_buckets h) = NBUCKETS \<and>
     decodes fmt d0 (h_hdr h @ b_buf (bucket_of h)) d \<and> d_t d = h_t h \<and>
     d_syms d = map (\<lambda>(sid, name). (name, sid)) sigs \<and>
     (\<exists>k<length sigs. d_cur d = Some k \<and> fst (sigs ! k) = h_current_id h)"

lemma small_id: "small (scast (sid :: 32 word))"
proof -
  have "sint (scast sid :: 64 word) = sint sid" by (simp add: sint_up_scast is_up)
  then show ?thesis using sint_greater_eq [of sid] sint_less [of sid] by (simp add: small_def)
qed

lemma ucast_scast_id [simp]: "ucast (scast (sid :: 32 word) :: 64 word) = sid"
  by (rule bit_word_eqI) (use le_less_Suc_eq [of 31] in \<open>auto simp: bit_simps min_def\<close>)

lemma log_ok_timeout [simp]: "log_ok fmt sigs d0 d (h\<lparr>h_timeout_tag := tag\<rparr>) = log_ok fmt sigs d0 d h"
  by (simp add: log_ok_def)

lemma decodes_value:
  assumes "op \<in> {1, 2, 3, 4}" "small v"
  shows "decodes fmt d (history_append_value [] op v)
    (if op = 1 then d\<lparr>d_cur := (case find_index (\<lambda>s. snd s = ucast v) (d_syms d) of
          None \<Rightarrow> d_cur d | Some k \<Rightarrow> Some k)\<rparr>
     else if op = 2 then d\<lparr>d_t := v\<rparr>
     else if op = 3 then d\<lparr>d_t := d_t d + v\<rparr>
     else print_value fmt (int_dec (sint v)) d)"
  using assms print_value_op [of op v fmt _ d] by (auto simp: decodes_def)

lemma decodes_short:
  assumes "0 \<le> sint v" "sint v < 64"
  shows "decodes fmt d [0xC0 OR ucast v] (d\<lparr>d_t := d_t d + v\<rparr>)"
    "decodes fmt d [ucast (0x80 OR v)] (print_value fmt (int_dec (sint v)) d)"
  using dump_short [OF assms] by (simp_all add: decodes_def)

lemma log_ok_feed:
  \<comment> \<open>bytes appended to the bucket, with the matching change of the time and signal of the history\<close>
  assumes "log_ok fmt sigs d0 d h" "decodes fmt d x d'" "d_syms d' = d_syms d" "d_t d' = time"
    "k < length sigs" "d_cur d' = Some k" "fst (sigs ! k) = sid"
  shows "log_ok fmt sigs d0 d' (upd_bucket (\<lambda>b. b\<lparr>b_buf := b_buf b @ x\<rparr>) (h\<lparr>h_t := time, h_current_id := sid\<rparr>))"
proof -
  let ?h = "h\<lparr>h_t := time, h_current_id := sid\<rparr>"
  have "bucket_of (upd_bucket (\<lambda>b. b\<lparr>b_buf := b_buf b @ x\<rparr>) ?h) = (bucket_of h)\<lparr>b_buf := b_buf (bucket_of h) @ x\<rparr>"
    using assms(1) bucket_upd(1) [of ?h] by (simp add: log_ok_def)
  moreover have "decodes fmt d0 ((h_hdr h @ b_buf (bucket_of h)) @ x) d'"
    using assms(1,2) decodes_append [of fmt d0 "h_hdr h @ b_buf (bucket_of h)" d x d'] by (simp add: log_ok_def)
  ultimately show ?thesis using assms unfolding log_ok_def by auto
qed

definition select_bytes :: "64 word \<Rightarrow> 32 word \<Rightarrow> history \<Rightarrow> 8 word list" where
  "select_bytes time sid h =
     (if sid \<noteq> h_current_id h then history_append_value [] 0x01 (scast sid) else []) @
     (if time \<noteq> h_t h then let dt = time - h_t h
        in if dt <s 64 then [0xC0 OR ucast dt] else history_append_value [] 0x03 dt else [])"

lemma history_select_bytes:
  assumes "h_ibucket h < length (h_buckets h)"
  shows "history_select time sid h =
    upd_bucket (\<lambda>b. b\<lparr>b_buf := b_buf b @ select_bytes time sid h\<rparr>) (h\<lparr>h_t := time, h_current_id := sid\<rparr>)"
proof -
  have u: "upd_bucket g (upd_bucket f x) = upd_bucket (\<lambda>b. g (f b)) x" for g f and x :: history
    by (cases "h_ibucket x < length (h_buckets x)") (simp_all add: upd_bucket_def map_nth_def list_update_beyond)
  have s: "upd_bucket g x\<lparr>h_t := time\<rparr> = upd_bucket g (x\<lparr>h_t := time\<rparr>)" for g and x :: history
    by (simp add: upd_bucket_def)
  have o: "h\<lparr>h_current_id := sid, h_t := time\<rparr> = h\<lparr>h_t := time, h_current_id := sid\<rparr>" by simp
  have n: "upd_bucket (\<lambda>b. b) x = x" for x :: history
    by (simp add: upd_bucket_def map_nth_def)
  show ?thesis
    by (auto simp: history_select_def select_bytes_def Let_def u s n o
        append_value_prefix [of "b_buf _"] append_value_prefix [of "b_buf _ @ _"])
qed

lemma select_decodes:
  assumes l: "log_ok fmt sigs d0 d h" and sid: "sid \<in> fst ` set sigs"
    and dt: "0 \<le> sint (time - h_t h)" "small (time - h_t h)"
  obtains d' k where "decodes fmt d (select_bytes time sid h) d'" "d_syms d' = d_syms d" "d_t d' = time"
    "d_out d' = d_out d" "k < length sigs" "d_cur d' = Some k" "fst (sigs ! k) = sid"
proof -
  have d: "d_t d = h_t h" "d_syms d = map (\<lambda>(sid, name). (name, sid)) sigs" using l by (simp_all add: log_ok_def)
  define x1 where "x1 = (if sid \<noteq> h_current_id h then history_append_value [] 0x01 (scast sid) else [])"
  define x2 where "x2 = (if time \<noteq> h_t h then let dt = time - h_t h
        in if dt <s 64 then [0xC0 OR ucast dt] else history_append_value [] 0x03 dt else [])"
  have "\<exists>d1 k. decodes fmt d x1 d1 \<and> d_syms d1 = d_syms d \<and> d_t d1 = d_t d \<and> d_out d1 = d_out d \<and>
      k < length sigs \<and> d_cur d1 = Some k \<and> fst (sigs ! k) = sid"
  proof (cases "sid = h_current_id h")
    case True
    with l show ?thesis by (intro exI [of _ d]) (auto simp: x1_def log_ok_def)
  next
    case False
    obtain k where k: "find_index (\<lambda>s. snd s = sid) (d_syms d) = Some k"
      using sid find_index_None_iff [of "\<lambda>s. snd s = sid" "d_syms d"] d(2) by (cases "find_index (\<lambda>s. snd s = sid) (d_syms d)") force+
    then have "k < length sigs" "fst (sigs ! k) = sid"
      using d(2) find_index_SomeD [OF k] by (auto simp: case_prod_beta)
    with False k decodes_value [of 1 "scast sid" fmt d] small_id show ?thesis
      by (intro exI [of _ "d\<lparr>d_cur := Some k\<rparr>"] exI [of _ k]) (simp add: x1_def)
  qed
  then obtain d1 k where d1: "decodes fmt d x1 d1" "d_syms d1 = d_syms d" "d_t d1 = d_t d" "d_out d1 = d_out d"
    "k < length sigs" "d_cur d1 = Some k" "fst (sigs ! k) = sid" by blast
  have "decodes fmt d1 x2 (d1\<lparr>d_t := time\<rparr>)"
  proof (cases "time = h_t h")
    case True
    then have "d1\<lparr>d_t := time\<rparr> = d1" using d(1) d1(3) by simp
    with True show ?thesis by (simp add: x2_def)
  next
    case False
    have "d_t d1 + (time - h_t h) = time" using d(1) d1(3) by simp
    with False dt decodes_short(1) [of "time - h_t h" fmt d1] decodes_value [of 3 "time - h_t h" fmt d1]
    show ?thesis by (simp add: x2_def Let_def word_sless_alt)
  qed
  from decodes_append [OF d1(1) this] have "decodes fmt d (select_bytes time sid h) (d1\<lparr>d_t := time\<rparr>)"
    by (simp add: select_bytes_def x1_def x2_def)
  from that [OF this] d1 show ?thesis by simp
qed

definition value_bytes_of :: "64 word \<Rightarrow> 8 word list" where
  "value_bytes_of v = (if - 32 \<le>s v \<and> v <s 31 then [ucast (0x80 OR v)] else history_append_value [] 0x04 v)"

lemma history_feed_int_bytes:
  "history_feed_int v h = upd_bucket (\<lambda>b. b\<lparr>b_buf := b_buf b @ value_bytes_of v\<rparr>) h"
  by (cases "- 32 \<le>s v \<and> v <s 31")
    (simp_all add: history_feed_int_def value_bytes_of_def append_value_prefix [of "b_buf _"] del: de_Morgan_conj)

lemma value_decodes:
  assumes "0 \<le> sint v" "small v"
  shows "decodes fmt d (value_bytes_of v) (print_value fmt (int_dec (sint v)) d)"
proof (cases "v <s 31")
  case True
  have "- 32 \<le>s v" using assms(1) by (simp add: word_sle_eq)
  moreover have "sint v < 64" using True by (simp add: word_sless_alt)
  ultimately show ?thesis using True decodes_short(2) [OF assms(1)] by (simp add: value_bytes_of_def)
next
  case False
  then show ?thesis using decodes_value [of 4 v fmt d] assms(2) by (simp add: value_bytes_of_def)
qed

section \<open>A log and its file\<close>

datatype hist_step = Feed "64 word" "64 word" "32 word" string | Flush

fun run_hist_step ::
    "(string \<Rightarrow> bool) \<Rightarrow> nat \<Rightarrow> hist_step \<Rightarrow> history \<times> ('c, 'z) hst \<Rightarrow> history \<times> ('c, 'z) hst" where
  "run_hist_step can arg (Feed time now sid v) w = history_feed time now can arg sid v w"
| "run_hist_step can arg Flush w = snd (history_bucket_flush_timeout can w)"

fun steps_ok :: "(32 word \<times> string) list \<Rightarrow> 64 word \<Rightarrow> hist_step list \<Rightarrow> bool" where
  \<comment> \<open>numbers for declared signals, at times that do not go back\<close>
  "steps_ok sigs t [] \<longleftrightarrow> True"
| "steps_ok sigs t (Flush # xs) \<longleftrightarrow> steps_ok sigs t xs"
| "steps_ok sigs t (Feed time now sid v # xs) \<longleftrightarrow> sid \<in> fst ` set sigs \<and>
     0 \<le> sint (time - t) \<and> small (time - t) \<and>
     list_all (\<lambda>c. digit_val 10 c \<noteq> None) v \<and> 0 \<le> strtol10 v \<and> strtol10 v < 2 ^ 55 \<and> steps_ok sigs time xs"

fun log_lines :: "(64 word \<Rightarrow> string) \<Rightarrow> (32 word \<times> string) list \<Rightarrow> hist_step list \<Rightarrow> string" where
  "log_lines fmt sigs [] = []"
| "log_lines fmt sigs (Flush # xs) = log_lines fmt sigs xs"
| "log_lines fmt sigs (Feed time now sid v # xs) =
     fmt time @ '' '' @ the (map_of sigs sid) @ '' = '' @ int_dec (strtol10 v) @ [LF] @ log_lines fmt sigs xs"

definition file_ok :: "string \<Rightarrow> history \<Rightarrow> ('c, 'z) hst \<Rightarrow> bool" where
  "file_ok f h st \<longleftrightarrow> b_fname (bucket_of h) = Some f \<and> b_buf (bucket_of h) \<noteq> [] \<and> b_fpos (bucket_of h) \<le> length (b_buf (bucket_of h)) \<and>
     files st f = (if b_fpos (bucket_of h) = 0 then None
                   else Some (h_hdr h @ take (b_fpos (bucket_of h)) (b_buf (bucket_of h))))"

lemma file_ok_append:
  assumes "file_ok f h st" "h_ibucket h < length (h_buckets h)" "h_ibucket h' = h_ibucket h"
    "bucket_of h' = (bucket_of h)\<lparr>b_buf := b_buf (bucket_of h) @ x\<rparr>" "h_hdr h' = h_hdr h" "files st' = files st"
  shows "file_ok f h' st'"
  using assms by (simp add: file_ok_def)

lemma files_frame [simp]:
  fixes st :: "('c, 'z) hst"
  shows "files (sys_remove tag st) = files st" "files (snd (sys_timeout now delay func arg st)) = files st"
    "files (snd (sys_quit_handler func arg st)) = files st"
  by (auto simp: sys_remove_def upd_source_def sys_timeout_def sys_quit_handler_def with_source_def sys_source_add_def Let_def
      split: option.split)

lemma history_static_small: "h_ibucket h < NBUCKETS \<Longrightarrow> length (b_buf (h_buckets history_static ! h_ibucket h)) < BUCKET_MAXSIZE"
  by (simp add: history_static_def history_zero_def BUCKET_MAXSIZE_def)

lemma feed_step:
  fixes st :: "('c, 'z) hst"
  assumes l: "log_ok fmt sigs d0 d h" and f: "file_ok f h st" and dist: "distinct (map fst sigs)"
    and ok: "steps_ok sigs (h_t h) (Feed time now sid v # xs)"
  obtains h' st' d' where "history_feed time now can arg sid v (h, st) = (h', st')" "log_ok fmt sigs d0 d' h'"
    "file_ok f h' st'" "h_t h' = time"
    "d_out d' = d_out d @ fmt time @ '' '' @ the (map_of sigs sid) @ '' = '' @ int_dec (strtol10 v) @ [LF]"
proof -
  let ?h0 = "h\<lparr>h_timeout_tag := 0\<rparr>"
  let ?v = "word_of_int (strtol10 v) :: 64 word"
  have ib: "h_ibucket h < NBUCKETS" "length (h_buckets h) = NBUCKETS" using l by (simp_all add: log_ok_def)
  have sv: "sint ?v = strtol10 v" using ok by (simp add: signed_of_int signed_take_bit_int_eq_self)
  then have v: "0 \<le> sint ?v" "small ?v" using ok by (simp_all add: small_def)
  obtain d1 k where d1: "decodes fmt d (select_bytes time sid h) d1" "d_syms d1 = d_syms d" "d_t d1 = time"
    "d_out d1 = d_out d" "k < length sigs" "d_cur d1 = Some k" "fst (sigs ! k) = sid"
    by (rule select_decodes [OF l, of sid time]) (use ok in simp_all)
  let ?d' = "print_value fmt (int_dec (sint ?v)) d1"
  let ?x = "select_bytes time sid h @ value_bytes_of ?v"
  let ?h1 = "upd_bucket (\<lambda>b. b\<lparr>b_buf := b_buf b @ ?x\<rparr>) (h\<lparr>h_t := time, h_current_id := sid\<rparr>)"
  have "decodes fmt d ?x ?d'" by (rule decodes_append [OF d1(1) value_decodes [OF v]])
  then have l1: "log_ok fmt sigs d0 ?d' ?h1"
    by (rule log_ok_feed [OF l]) (use d1 in \<open>simp_all add: print_value_def\<close>)
  have h1: "history_feed_int ?v (history_select time sid ?h0) = ?h1\<lparr>h_timeout_tag := 0\<rparr>"
    using ib history_select_bytes [of ?h0 time sid]
    by (simp add: history_feed_int_bytes upd_bucket_def map_nth_def select_bytes_def)
  obtain tag st' where r: "history_feed time now can arg sid v (h, st) = (?h1\<lparr>h_timeout_tag := tag\<rparr>, st')"
    "files st' = files st"
  proof -
    define st1 where "st1 = (if h_timeout_tag h \<noteq> 0 then sys_remove (h_timeout_tag h) st else st)"
    have h0: "(if h_timeout_tag h \<noteq> 0 then (?h0, sys_remove (h_timeout_tag h) st) else (h, st)) = (?h0, st1)"
      by (cases h) (simp add: st1_def)
    have nr: "\<not> BUCKET_MAXSIZE \<le> length (b_buf (h_buckets history_static ! h_ibucket h))"
      using history_static_small [OF ib(1)] by simp
    obtain tag st' where "sys_timeout now BUCKET_FLUSH_TIMEOUT (Some ''history_bucket_flush_timeout'') (Some arg) st1 = (tag, st')"
      by fastforce
    moreover from this have "files st' = files st" 
      using files_frame(2) [of now BUCKET_FLUSH_TIMEOUT "Some ''history_bucket_flush_timeout''" "Some arg" st1]
      by (simp add: st1_def split: if_splits)
    ultimately show ?thesis
      using that [of tag st'] ok nr by (simp add: history_feed_def h0 h1 Let_def)
  qed
  have "bucket_of ?h1 = (bucket_of h)\<lparr>b_buf := b_buf (bucket_of h) @ ?x\<rparr>"
    using ib bucket_upd(1) [of "h\<lparr>h_t := time, h_current_id := sid\<rparr>"] by simp
  then have f1: "file_ok f (?h1\<lparr>h_timeout_tag := tag\<rparr>) st'"
    by (intro file_ok_append [OF f]) (use ib r(2) in simp_all)
  have "d_syms d1 ! k = (snd (sigs ! k), sid)"
    using l d1(2,5,7) by (simp add: log_ok_def case_prod_beta)
  moreover have "the (map_of sigs sid) = snd (sigs ! k)"
    using d1(5,7) dist by (metis map_of_is_SomeI nth_mem option.sel prod.collapse)
  ultimately have "d_out ?d' = d_out d @ fmt time @ '' '' @ the (map_of sigs sid) @ '' = '' @ int_dec (strtol10 v) @ [LF]"
    using d1(3,4,6) sv by (simp add: print_value_def)
  with that [OF r(1) _ f1] l1 show ?thesis by simp
qed

lemma flush_step:
  fixes st :: "('c, 'z) hst"
  assumes l: "log_ok fmt sigs d0 d h" and f: "file_ok f h st" "can f"
  obtains h' st' where "snd (history_bucket_flush_timeout can (h, st)) = (h', st')" "log_ok fmt sigs d0 d h'"
    "file_ok f h' st'" "h_t h' = h_t h" "b_buf (bucket_of h') = b_buf (bucket_of h)"
    "files st' f = Some (h_hdr h' @ b_buf (bucket_of h'))"
proof -
  let ?h = "h\<lparr>h_timeout_tag := 0\<rparr>"
  have ib: "h_ibucket h < length (h_buckets h)" using l by (simp add: log_ok_def)
  show ?thesis
  proof (cases "drop (b_fpos (bucket_of h)) (b_buf (bucket_of h)) = []")
    case True
    then have "b_fpos (bucket_of h) = length (b_buf (bucket_of h))" using f(1) by (simp add: file_ok_def)
    with True l f that [of ?h st] show ?thesis
      by (simp add: history_bucket_flush_timeout_def history_bucket_flush_def Let_def file_ok_def)
  next
    case False
    let ?h' = "upd_bucket (\<lambda>b. b\<lparr>b_fpos := length (b_buf b)\<rparr>) ?h"
    let ?new = "drop (b_fpos (bucket_of h)) (b_buf (bucket_of h))"
    let ?old = "case files st f of None \<Rightarrow> [] | Some old \<Rightarrow> old"
    let ?st' = "st\<lparr>files := (files st)(f \<mapsto> ?old @ (if b_fpos (bucket_of h) = 0 then h_hdr h else []) @ ?new)\<rparr>"
    have b: "bucket_of ?h' = (bucket_of h)\<lparr>b_fpos := length (b_buf (bucket_of h))\<rparr>"
      using ib bucket_upd(1) [of ?h] by simp
    have "?old @ (if b_fpos (bucket_of h) = 0 then h_hdr h else []) @ ?new = h_hdr h @ b_buf (bucket_of h)"
      using f(1) by (auto simp: file_ok_def)
    moreover have "snd (history_bucket_flush_timeout can (h, st)) = (?h', ?st')"
      using f False by (simp add: history_bucket_flush_timeout_def history_bucket_flush_def Let_def file_ok_def)
    ultimately show ?thesis
      using that [of ?h' ?st'] l b f by (simp add: log_ok_def file_ok_def)
  qed
qed

lemma steps_log:
  fixes st :: "('c, 'z) hst"
  assumes "log_ok fmt sigs d0 d h" "file_ok f h st" "can f" "distinct (map fst sigs)"
    "steps_ok sigs (h_t h) xs"
  shows "\<exists>h' st' d'. foldl (\<lambda>w x. run_hist_step can arg x w) (h, st) xs = (h', st') \<and> log_ok fmt sigs d0 d' h' \<and>
    file_ok f h' st' \<and> d_out d' = d_out d @ log_lines fmt sigs xs"
  using assms
proof (induction xs arbitrary: h st d)
  case (Cons x xs)
  show ?case
  proof (cases x)
    case Flush
    obtain h1 st1 where "snd (history_bucket_flush_timeout can (h, st)) = (h1, st1)" "log_ok fmt sigs d0 d h1"
      "file_ok f h1 st1" "h_t h1 = h_t h" "b_buf (bucket_of h1) = b_buf (bucket_of h)"
      by (rule flush_step [where can = can and f = f, OF Cons.prems(1-3)])
    with Flush Cons.IH [of d h1 st1] Cons.prems show ?thesis by simp
  next
    case (Feed time now sid v)
    obtain h1 st1 d1 where s: "history_feed time now can arg sid v (h, st) = (h1, st1)" "log_ok fmt sigs d0 d1 h1"
      "file_ok f h1 st1" "h_t h1 = time"
      "d_out d1 = d_out d @ fmt time @ '' '' @ the (map_of sigs sid) @ '' = '' @ int_dec (strtol10 v) @ [LF]"
      by (rule feed_step [OF Cons.prems(1,2,4), of time now sid v xs]) (use Cons.prems(5) Feed in simp)
    with s Feed Cons.IH [of d1 h1 st1] Cons.prems show ?thesis by simp
  qed
qed auto

definition declare_all :: "(32 word \<times> string) list \<Rightarrow> history \<Rightarrow> history" where
  "declare_all sigs h = foldl (\<lambda>h (sid, name). history_signal_declare sid name h) h sigs"

definition header_bytes :: "(32 word \<times> string) list \<Rightarrow> 8 word list" where
  "header_bytes sigs = concat (map (\<lambda>(sid, name). history_append_value [] 0 (scast sid) @ bytes_of (name @ [NUL])) sigs)"

lemma declare_all_header:
  "h_hdr (declare_all sigs h) = h_hdr h @ header_bytes sigs \<and> h_buckets (declare_all sigs h) = h_buckets h \<and>
   h_ibucket (declare_all sigs h) = h_ibucket h \<and> h_t (declare_all sigs h) = h_t h \<and>
   h_current_id (declare_all sigs h) = (if sigs = [] then h_current_id h else fst (last sigs))"
  unfolding declare_all_def header_bytes_def
  by (induction sigs arbitrary: h)
    (auto simp: history_signal_declare_def append_value_prefix [of "h_hdr _"])

lemma header_decodes:
  assumes "\<forall>name\<in>snd ` set sigs. NUL \<notin> set name"
  shows "decodes fmt d (header_bytes sigs) (d\<lparr>d_syms := d_syms d @ map (\<lambda>(sid, name). (name, sid)) sigs,
    d_cur := (if sigs = [] then d_cur d else Some (length (d_syms d) + length sigs - 1))\<rparr>)"
  using assms
proof (induction sigs arbitrary: d)
  case Nil
  then show ?case by (simp add: header_bytes_def)
next
  case (Cons s sigs)
  obtain sid name where s: "s = (sid, name)" by (cases s)
  let ?d = "d\<lparr>d_syms := d_syms d @ [(name, sid)], d_cur := Some (length (d_syms d))\<rparr>"
  have "decodes fmt d (history_append_value [] 0 (scast sid) @ bytes_of (name @ [NUL])) ?d"
    using Cons.prems print_value_op [of 0 "scast sid" fmt _ d] small_id read_str_bytes [of name]
    by (simp add: decodes_def s)
  from decodes_append [OF this Cons.IH [of ?d]] Cons.prems show ?case
    by (cases sigs) (simp_all add: header_bytes_def s)
qed

lemma initial_log:
  fixes st :: "('c, 'z) hst"
  assumes "small time" "sigs \<noteq> []" "\<forall>name\<in>snd ` set sigs. NUL \<notin> set name" "files st (bucket_fname time) = None"
  shows "\<exists>d. log_ok fmt sigs (\<lparr>d_t = 0, d_syms = [], d_cur = None, d_out = out\<rparr>) d
      (declare_all sigs (fst (history_init time arg st))) \<and> d_out d = out \<and>
    file_ok (bucket_fname time) (declare_all sigs (fst (history_init time arg st))) (snd (history_init time arg st)) \<and>
    h_t (declare_all sigs (fst (history_init time arg st))) = time"
proof -
  let ?d0 = "\<lparr>d_t = 0, d_syms = [], d_cur = None, d_out = out\<rparr>"
  let ?d1 = "?d0\<lparr>d_syms := map (\<lambda>(sid, name). (name, sid)) sigs, d_cur := Some (length sigs - 1)\<rparr>"
  let ?h = "fst (history_init time arg st)"
  have h: "h_hdr ?h = []" "h_ibucket ?h = 0" "length (h_buckets ?h) = NBUCKETS" "h_t ?h = time"
    "b_buf (h_buckets ?h ! 0) = history_append_value [] 2 time" "b_fname (h_buckets ?h ! 0) = Some (bucket_fname time)"
    "b_fpos (h_buckets ?h ! 0) = 0"
    by (simp_all add: history_init_def history_bucket_start_def upd_bucket_def history_zero_def NBUCKETS_def map_nth_def)
  have "decodes fmt ?d0 (header_bytes sigs) ?d1"
    using header_decodes [OF assms(3), of fmt ?d0] assms(2) by simp
  from decodes_append [OF this decodes_value [of 2 time fmt ?d1]] assms(1)
  have d: "decodes fmt ?d0 (header_bytes sigs @ history_append_value [] 2 time) (?d1\<lparr>d_t := time\<rparr>)" by simp
  obtain i where "history_append_value [] 2 time = (2 OR push_bit 4 (of_nat i)) # value_bytes (i + 1) time"
    by (rule append_value_small [OF assms(1)])
  then have ne: "history_append_value [] 2 time \<noteq> []" by simp
  have st: "files (snd (history_init time arg st)) = files st" by (simp add: history_init_def)
  have "\<exists>k<length sigs. d_cur (?d1\<lparr>d_t := time\<rparr>) = Some k \<and> fst (sigs ! k) = fst (last sigs)"
    using assms(2) by (intro exI [of _ "length sigs - 1"]) (simp add: last_conv_nth)
  with d h ne assms(2,4) st show ?thesis
    by (intro exI [of _ "?d1\<lparr>d_t := time\<rparr>"]) (simp add: log_ok_def file_ok_def declare_all_header NBUCKETS_def)
qed

section \<open>Properties\<close>

text \<open>
  C36: A value of at most seven bytes is written to the log as one code byte, which names the
  operation and the length, and the bytes from which the printing program reads the same value;
  a larger value is not written at all.
\<close>

theorem history_value_roundtrip:
  assumes "op \<in> {0, 1, 2, 3, 4}"
  shows "if - (2 ^ 55) \<le> sint v \<and> sint v < 2 ^ 55
    then \<exists>b bs. history_append_value buf op v = buf @ b # bs \<and> b AND 0x80 = 0 \<and> b AND 0x0F = op \<and>
           unat (drop_bit 4 b) + 1 = length bs \<and> history_read_value bs = v
    else history_append_value buf op v = buf"
proof (cases "small v")
  case True
  obtain i where i: "i < 7" "fits (i + 1) v"
    "history_append_value [] op v = (op OR push_bit 4 (of_nat i)) # value_bytes (i + 1) v"
    by (rule append_value_small [OF True])
  have "history_append_value buf op v = buf @ (op OR push_bit 4 (of_nat i)) # value_bytes (i + 1) v"
    using append_value_prefix [of buf op v] i(3) by simp
  moreover have "history_read_value (value_bytes (i + 1) v) = v" using read_value_bytes [OF i(2)] i(1) by simp
  moreover have "unat (drop_bit 4 (op OR push_bit 4 (of_nat i) :: 8 word)) + 1 = length (value_bytes (i + 1) v)"
    using opcode_parts(2) [OF assms i(1)] by simp
  ultimately show ?thesis
    using True opcode_parts(1,3) [OF assms i(1)] unfolding small_def by auto
next
  case False
  then show ?thesis using append_value_large [OF False] by (auto simp: small_def)
qed

theorem history_value_roundtrip_witness:
  "\<exists>b bs. history_append_value [] 4 1000 = b # bs \<and> history_read_value bs = 1000"
  using history_value_roundtrip [of 4 1000 "[]"] by auto


text \<open>
  A text value does not come back: the printing program reads its first character as
  the byte of a value, and shows the rest only.
\<close>

theorem history_text_loses_first:
  assumes "NUL \<notin> set s"
  shows "print_loop fmt ([0x05] @ bytes_of ((c # s) @ [NUL]) @ rest) d =
    print_loop fmt rest (print_value fmt (DQUOTE # s @ [DQUOTE]) d)"
proof -
  have b: "bytes_of ((c # s) @ [NUL]) @ rest = of_char c # bytes_of (s @ [NUL]) @ rest" by (simp add: bytes_of_def)
  show ?thesis
    unfolding b by (subst print_loop.simps) (simp add: read_str_bytes [OF assms])
qed

theorem history_text_loses_first_witness:
  "\<exists>d'. print_loop (\<lambda>_. ''T'') ([0x05] @ bytes_of ((CHR ''a'' # ''b'') @ [NUL]) @ [])
     \<lparr>d_t = 0, d_syms = [], d_cur = None, d_out = []\<rparr> = Some (0, d') \<and> d_out d' = ''T ???? = \"b\"'' @ [LF]"
  by (subst history_text_loses_first) (simp_all add: print_loop.simps print_value_def)

definition hist_start :: "unit hist_state" where
  "hist_start = hk_state.extend (hk_start 0) (hist_state.fields Map.empty)"

definition clock_text :: "64 word \<Rightarrow> string" where "clock_text t = nat_dec (unat t)"

definition day :: "hist_step list" where
  "day = [Feed 1000 0 1 ''1'', Feed 1005 0 2 ''2150'', Flush, Feed 1200 0 1 ''0'']"


end
