(* ===== verification/Hk_Options.thy ===== *)
theory Hk_Options
  imports Hk_Prelude
begin

unbundle bit_operations_syntax

text \<open>
  \<^verbatim>\<open>core/options.c\<close>: options from the files of the configuration directory, then from the command
  line; and the tables of options of \<^verbatim>\<open>main/hakit-launcher.c\<close> and \<^verbatim>\<open>main/hakit-engine.c\<close>.
  The variables of a program are two stores, of integers and of strings, and \<open>oe_ptr\<close> is an
  index in the one that the type of the option names. A string variable may hold a literal of
  the program, which cannot be freed: \<open>None\<close> where the code does. \<open>options_help\<close> ends the
  program: \<open>Help_exit\<close>. \<open>glob\<close> and the files are arguments.
\<close>

definition OPTIONS_DEFAULT_CONF_DIR :: string where "OPTIONS_DEFAULT_CONF_DIR = ''/etc/hakit''"
definition OPTION_FLAG_LIST :: "32 word" where "OPTION_FLAG_LIST = 1"
definition CONF_LINE_SIZE :: nat where "CONF_LINE_SIZE = 1024"

datatype options_type = OPTIONS_TYPE_NONE | OPTIONS_TYPE_INT | OPTIONS_TYPE_STRING

record options_entry =
  oe_long :: string
  oe_short :: char
  oe_flags :: "32 word"
  oe_type :: options_type
  oe_ptr :: nat
  oe_symbol :: "string option"

datatype opt_string = Opt_null | Opt_literal string | Opt_heap string

record opt_vars =
  ov_int :: "nat \<Rightarrow> int"
  ov_str :: "nat \<Rightarrow> opt_string"

section \<open>Values\<close>

definition options_parse_value :: "options_entry \<Rightarrow> string option \<Rightarrow> opt_vars \<Rightarrow> (int \<times> opt_vars) option" where
  "options_parse_value entry value st =
     (let p = oe_ptr entry;
          set_int = (\<lambda>v. st\<lparr>ov_int := (ov_int st)(p := v)\<rparr>);
          set_str = (\<lambda>v. st\<lparr>ov_str := (ov_str st)(p := Opt_heap v)\<rparr>)
      in case oe_type entry of
           OPTIONS_TYPE_INT \<Rightarrow>
             (case value of None \<Rightarrow> Some (-1, st) | Some v \<Rightarrow> Some (0, set_int (to_int32 (strtol0 v))))
         | OPTIONS_TYPE_STRING \<Rightarrow>
             (case value of
                None \<Rightarrow> Some (-1, st)
              | Some v \<Rightarrow>
                  if oe_flags entry AND OPTION_FLAG_LIST \<noteq> 0 then
                    (case ov_str st p of
                       Opt_null \<Rightarrow> Some (0, set_str v)
                     | Opt_literal _ \<Rightarrow> None
                     | Opt_heap s \<Rightarrow> Some (0, set_str (if s \<noteq> [] then s @ '','' @ v else v)))
                  else
                    (case ov_str st p of Opt_literal _ \<Rightarrow> None | _ \<Rightarrow> Some (0, set_str v)))
         | OPTIONS_TYPE_NONE \<Rightarrow>
             Some (0, set_int (case value of None \<Rightarrow> 1 | Some v \<Rightarrow> to_int32 (strtol0 v))))"

section \<open>Configuration files\<close>

function fgets_lines :: "nat \<Rightarrow> string \<Rightarrow> string list" where
  \<comment> \<open>what calls of \<open>fgets\<close> leave in a buffer of \<open>sz\<close> bytes until the end of the file\<close>
  "fgets_lines sz content =
     (if content = [] \<or> sz < 2 then []
      else let n = (case strchr (take (sz - 1) content) LF of None \<Rightarrow> sz - 1 | Some i \<Rightarrow> i + 1)
           in take n content # fgets_lines sz (drop n content))"
  by pat_completeness auto
termination by (relation "measure (\<lambda>(sz, content). length content)") (auto split: option.split)

declare fgets_lines.simps [simp del]

definition strip_line :: "string \<Rightarrow> string" where
  \<comment> \<open>without leading blanks, comment and trailing blanks\<close>
  "strip_line buf =
     rev (dropWhile is_blank (rev (takeWhile (\<lambda>c. c \<noteq> CHR ''#'') (dropWhile is_blank (cstr buf)))))"

definition conf_line :: "options_entry list \<Rightarrow> string \<Rightarrow> opt_vars \<Rightarrow> (int \<times> opt_vars) option" where
  \<comment> \<open>\<open>strncmp\<close> over the length of the keyword\<close>
  "conf_line entries buf st =
     (let kw = strip_line buf
      in if kw = [] then Some (0, st)
         else
           let len = length (takeWhile (\<lambda>c. is_graph c \<and> c \<noteq> CHR ''='') kw)
           in case find (\<lambda>e. take len (oe_long e) = take len kw) entries of
                None \<Rightarrow> Some (0, st)
              | Some entry \<Rightarrow>
                  (let value = map_option (\<lambda>i. dropWhile is_blank (drop (len + i + 1) kw)) (strchr (drop len kw) (CHR ''=''))
                   in map_option (\<lambda>(ret, st). (if ret \<noteq> 0 then -2 else 0, st)) (options_parse_value entry value st)))"

fun conf_loop :: "options_entry list \<Rightarrow> string list \<Rightarrow> opt_vars \<Rightarrow> (int \<times> opt_vars) option" where
  "conf_loop entries [] st = Some (0, st)"
| "conf_loop entries (buf # bufs) st =
     (case conf_line entries buf st of
        None \<Rightarrow> None
      | Some (ret, st) \<Rightarrow> if ret = 0 then conf_loop entries bufs st else Some (ret, st))"

definition options_conf_parse_path ::
    "options_entry list \<Rightarrow> string option \<Rightarrow> opt_vars \<Rightarrow> (int \<times> opt_vars) option" where
  \<comment> \<open>the content of the file, \<open>None\<close> when it cannot be opened\<close>
  "options_conf_parse_path entries content st =
     (case content of
        None \<Rightarrow> Some (-1, st)
      | Some s \<Rightarrow> conf_loop entries (fgets_lines CONF_LINE_SIZE s) st)"

definition option_conf_path :: "string option \<Rightarrow> string \<Rightarrow> string" where
  "option_conf_path conf_dir conf_file =
     (case conf_dir of None \<Rightarrow> OPTIONS_DEFAULT_CONF_DIR | Some dir \<Rightarrow> dir) @ ''/'' @ conf_file"

definition options_conf_parse ::
    "(string \<rightharpoonup> string) \<Rightarrow> string option \<Rightarrow> options_entry list \<Rightarrow> string \<Rightarrow> opt_vars \<Rightarrow> (int \<times> opt_vars) option" where
  "options_conf_parse files conf_dir entries conf_file st =
     options_conf_parse_path entries (files (option_conf_path conf_dir conf_file)) st"

fun find_conf_dir :: "nat \<Rightarrow> string list \<Rightarrow> (nat \<times> nat) option" where
  \<comment> \<open>the argument \<open>dir\<close> points into, and where; the arguments are those from index \<open>i\<close> on\<close>
  "find_conf_dir i [] = None"
| "find_conf_dir i (args # rest) =
     (if args = ''-c'' then (if rest = [] then None else Some (i + 1, 0))
      else if take 8 args = ''--config'' then
        (case strchr (drop 2 args) (CHR ''='') of
           Some k \<Rightarrow> Some (i, k + 3)
         | None \<Rightarrow> find_conf_dir (i + 1) rest)
      else find_conf_dir (i + 1) rest)"

definition options_set_conf_dir :: "string list \<Rightarrow> string option \<Rightarrow> string list \<times> string option" where
  \<comment> \<open>the slashes are cut off in the argument itself\<close>
  "options_set_conf_dir argv conf_dir =
     (case find_conf_dir 1 (tl argv) of
        None \<Rightarrow> (argv, conf_dir)
      | Some (i, ofs) \<Rightarrow>
          let dir = rev (dropWhile (\<lambda>c. c = CHR ''/'') (rev (drop ofs (argv ! i))))
          in (argv[i := take ofs (argv ! i) @ dir], Some dir))"

section \<open>The command line\<close>

datatype opt_found = Not_found | Misused | Found options_entry "string option" nat

datatype options_end = Help_exit | Parsed "string list" opt_vars

definition match_option :: "options_entry \<Rightarrow> string \<Rightarrow> string list \<Rightarrow> opt_found" where
  \<comment> \<open>with the value and the number of arguments used\<close>
  "match_option entry args rest =
     (if take 1 (drop 1 args) = ''-'' then
        (let s = drop 2 args;
             (key, value) = (case strchr s (CHR ''='') of
                None \<Rightarrow> (s, None) | Some k \<Rightarrow> (take k s, Some (drop (k + 1) s)))
         in if key = oe_long entry then Found entry value 1 else Not_found)
      else
        (case drop 1 args of
           [] \<Rightarrow> Not_found
         | c # joined \<Rightarrow>
             if c \<noteq> oe_short entry then Not_found
             else if joined = [] then
               (if oe_symbol entry \<noteq> None
                then (case rest of [] \<Rightarrow> Misused | value # _ \<Rightarrow> Found entry (Some value) 2)
                else Found entry None 1)
             else if oe_symbol entry \<noteq> None then Found entry (Some joined) 1 else Misused))"

fun find_option :: "options_entry list \<Rightarrow> string \<Rightarrow> string list \<Rightarrow> opt_found" where
  "find_option [] args rest = Not_found"
| "find_option (entry # entries) args rest =
     (case match_option entry args rest of Not_found \<Rightarrow> find_option entries args rest | found \<Rightarrow> found)"

lemma find_option_uses: "find_option entries args rest = Found entry value n \<Longrightarrow> 0 < n"
  by (induction entries) (auto simp: match_option_def Let_def split: opt_found.splits if_splits list.splits option.splits)

function parse_args :: "options_entry list \<Rightarrow> string list \<Rightarrow> opt_vars \<Rightarrow> options_end option" where
  "parse_args entries [] st = Some (Parsed [] st)"
| "parse_args entries (args # rest) st =
     (if take 1 args = ''-'' then
        (case find_option entries args rest of
           Found entry value stride \<Rightarrow>
             (case options_parse_value entry value st of
                None \<Rightarrow> None
              | Some (ret, st) \<Rightarrow>
                  if ret \<noteq> 0 then Some Help_exit else parse_args entries (drop stride (args # rest)) st)
         | _ \<Rightarrow> Some Help_exit)
      else Some (Parsed (args # rest) st))"
  by pat_completeness auto
termination
  by (relation "measure (\<lambda>(entries, argv, st). length argv)") (auto dest!: find_option_uses)

definition options_conf_files ::
    "(string \<Rightarrow> string list option) \<Rightarrow> (string \<rightharpoonup> string) \<Rightarrow> options_entry list \<Rightarrow> string option \<Rightarrow> string option
      \<Rightarrow> opt_vars \<Rightarrow> opt_vars option" where
  \<comment> \<open>backups are skipped, and errors of a file ignored\<close>
  "options_conf_files glob files entries conf_dir conf_file st =
     (case conf_file of
        None \<Rightarrow> Some st
      | Some name \<Rightarrow>
          (case glob (option_conf_path conf_dir name) of
             None \<Rightarrow> Some st
           | Some paths \<Rightarrow>
               foldo (\<lambda>st path. map_option snd (options_conf_parse_path entries (files path) st)) st
                 (filter (\<lambda>path. path = [] \<or> last path \<noteq> CHR ''~'') paths)))"

definition options_parse ::
    "(string \<Rightarrow> string list option) \<Rightarrow> (string \<rightharpoonup> string) \<Rightarrow> options_entry list \<Rightarrow> string option \<Rightarrow> string list
      \<Rightarrow> string option \<Rightarrow> opt_vars \<Rightarrow> (string option \<times> options_end) option" where
  "options_parse glob files entries conf_file argv conf_dir st =
     (case options_set_conf_dir argv conf_dir of
        (argv, conf_dir) \<Rightarrow>
          Option.bind (options_conf_files glob files entries conf_dir conf_file st)
            (\<lambda>st. map_option (\<lambda>r. (conf_dir,
                case r of Help_exit \<Rightarrow> Help_exit | Parsed rest st \<Rightarrow> Parsed (hd argv # rest) st))
              (parse_args entries (tl argv) st)))"

section \<open>Command lines do what they say\<close>

datatype opt_form = Long | Joined | Separate

fun render_setting :: "options_entry \<times> opt_form \<times> string option \<Rightarrow> string list" where
  "render_setting (e, Long, v) =
     [''--'' @ oe_long e @ (case v of None \<Rightarrow> [] | Some v \<Rightarrow> ''='' @ v)]"
| "render_setting (e, Joined, v) = [''-'' @ [oe_short e] @ (case v of None \<Rightarrow> [] | Some v \<Rightarrow> v)]"
| "render_setting (e, Separate, v) = [''-'' @ [oe_short e]] @ (case v of None \<Rightarrow> [] | Some v \<Rightarrow> [v])"

fun setting_ok :: "options_entry list \<Rightarrow> options_entry \<times> opt_form \<times> string option \<Rightarrow> bool" where
  "setting_ok entries (e, form, v) \<longleftrightarrow>
     e \<in> set entries \<and> (v = None \<longrightarrow> oe_type e = OPTIONS_TYPE_NONE) \<and>
     (form \<noteq> Long \<longrightarrow> oe_short e \<noteq> CHR ''-'' \<and> oe_short e \<noteq> NUL \<and> (v \<noteq> None \<longleftrightarrow> oe_symbol e \<noteq> None)) \<and>
     (form = Joined \<longrightarrow> v \<noteq> None \<and> v \<noteq> Some [])"

definition options_ok :: "options_entry list \<Rightarrow> bool" where
  \<comment> \<open>no option has the name or the letter of another\<close>
  "options_ok entries \<longleftrightarrow> distinct (map oe_long entries) \<and> distinct (filter (\<lambda>c. c \<noteq> NUL) (map oe_short entries)) \<and>
     (\<forall>e\<in>set entries. CHR ''='' \<notin> set (oe_long e))"

definition apply_setting :: "opt_vars \<Rightarrow> options_entry \<times> opt_form \<times> string option \<Rightarrow> opt_vars option" where
  "apply_setting st s = (case s of (e, form, v) \<Rightarrow> map_option snd (options_parse_value e v st))"

lemma find_option_unique:
  assumes "e \<in> set entries" "match_option e args rest \<noteq> Not_found"
    and "\<And>e'. e' \<in> set entries \<Longrightarrow> e' \<noteq> e \<Longrightarrow> match_option e' args rest = Not_found"
  shows "find_option entries args rest = match_option e args rest"
  using assms(1,3)
proof (induction entries)
  case (Cons x xs)
  show ?case
  proof (cases "x = e")
    case True
    then show ?thesis using assms(2) by (cases "match_option e args rest") auto
  next
    case False
    then show ?thesis using Cons by simp
  qed
qed simp

lemma distinct_filter_map_inj:
  "distinct (filter P (map f xs)) \<Longrightarrow> x \<in> set xs \<Longrightarrow> y \<in> set xs \<Longrightarrow> P (f x) \<Longrightarrow> f x = f y \<Longrightarrow> x = y"
proof (induction xs)
  case (Cons a xs)
  have "f a \<notin> f ` set xs" if "P (f a)" using Cons.prems(1) that by auto
  moreover have "f z \<in> f ` set xs" if "z \<in> set xs" for z using that by (rule imageI)
  ultimately show ?case using Cons by (metis set_ConsD list.simps(9) filter.simps(2) distinct.simps(2))
qed simp

lemma options_okD:
  assumes "options_ok entries" "e \<in> set entries" "e' \<in> set entries"
  shows "oe_long e = oe_long e' \<Longrightarrow> e = e'" "oe_short e = oe_short e' \<Longrightarrow> oe_short e \<noteq> NUL \<Longrightarrow> e = e'"
    "CHR ''='' \<notin> set (oe_long e)"
proof -
  show "oe_long e = oe_long e' \<Longrightarrow> e = e'" using assms by (auto simp: options_ok_def distinct_map inj_on_def)
  show "oe_short e = oe_short e' \<Longrightarrow> oe_short e \<noteq> NUL \<Longrightarrow> e = e'"
    using assms distinct_filter_map_inj [of "\<lambda>c. c \<noteq> NUL" oe_short entries e e'] by (auto simp: options_ok_def)
  show "CHR ''='' \<notin> set (oe_long e)" using assms by (simp add: options_ok_def)
qed

lemma find_option_setting:
  assumes "options_ok entries" "setting_ok entries (e, form, v)"
  shows "case render_setting (e, form, v) of
      args # extra \<Rightarrow> take 1 args = ''-'' \<and> find_option entries args (extra @ rest) = Found e v (1 + length extra)
    | [] \<Rightarrow> False"
proof -
  have e: "e \<in> set entries" using assms(2) by simp
  note inj = options_okD(1,2) [OF assms(1) e] and eq = options_okD(3) [OF assms(1) e e]
  show ?thesis
  proof (cases form)
    case Long
    let ?args = "''--'' @ oe_long e @ (case v of None \<Rightarrow> [] | Some v \<Rightarrow> ''='' @ v)"
    have m: "match_option e' ?args rest = (if oe_long e = oe_long e' then Found e' v 1 else Not_found)" for e'
      using eq strchr_append [OF eq] by (cases v) (simp_all add: match_option_def Let_def)
    have "find_option entries ?args rest = match_option e ?args rest"
      by (rule find_option_unique [OF e]) (use m inj(1) in \<open>auto split: if_splits\<close>)
    then show ?thesis using Long m [of e] by simp
  next
    case Joined
    then obtain w where v: "v = Some w" "w \<noteq> []" "oe_symbol e \<noteq> None" "oe_short e \<noteq> CHR ''-''" "oe_short e \<noteq> NUL"
      using assms(2) by (cases v) auto
    let ?args = "CHR ''-'' # oe_short e # w"
    have m: "match_option e' ?args rest = Not_found" if "e' \<in> set entries" "e' \<noteq> e" for e'
      using that inj(2) [of e'] v(4,5) by (auto simp: match_option_def)
    have me: "match_option e ?args rest = Found e v 1" using v by (simp add: match_option_def)
    have "find_option entries ?args rest = match_option e ?args rest"
      by (rule find_option_unique [OF e _ m]) (use me in simp_all)
    then show ?thesis using Joined v(1) me by simp
  next
    case Separate
    then have v: "oe_short e \<noteq> CHR ''-''" "oe_short e \<noteq> NUL" "v \<noteq> None \<longleftrightarrow> oe_symbol e \<noteq> None"
      using assms(2) by auto
    let ?args = "[CHR ''-'', oe_short e]" and ?more = "case v of None \<Rightarrow> [] | Some v \<Rightarrow> [v]"
    have m: "match_option e' ?args (?more @ rest) = Not_found" if "e' \<in> set entries" "e' \<noteq> e" for e'
      using that inj(2) [of e'] v(1,2) by (auto simp: match_option_def)
    have me: "match_option e ?args (?more @ rest) = Found e v (1 + length ?more)"
      using v by (cases v) (simp_all add: match_option_def)
    have "find_option entries ?args (?more @ rest) = match_option e ?args (?more @ rest)"
      by (rule find_option_unique [OF e _ m]) (use me in simp_all)
    then show ?thesis using Separate me by simp
  qed
qed

lemma setting_accepted:
  "setting_ok entries (e, form, v) \<Longrightarrow> options_parse_value e v st = Some (ret, st') \<Longrightarrow> ret = 0"
  by (auto simp: options_parse_value_def Let_def split: options_type.splits option.splits if_splits opt_string.splits)

lemma parse_args_settings:
  assumes "options_ok entries" "\<forall>s\<in>set ss. setting_ok entries s" "operands = [] \<or> take 1 (hd operands) \<noteq> ''-''"
  shows "parse_args entries (concat (map render_setting ss) @ operands) st =
    map_option (Parsed operands) (foldo apply_setting st ss)"
  using assms(2)
proof (induction ss arbitrary: st)
  case Nil
  then show ?case using assms(3) by (cases operands) auto
next
  case (Cons s ss)
  obtain e form v where s: "s = (e, form, v)" by (cases s) auto
  let ?rest = "concat (map render_setting ss) @ operands"
  have "setting_ok entries s" using Cons.prems by (simp del: setting_ok.simps)
  then have ok: "setting_ok entries (e, form, v)" unfolding s .
  from find_option_setting [OF assms(1) ok, of ?rest] obtain args extra where
    r: "render_setting (e, form, v) = args # extra" "take 1 args = ''-''"
      "find_option entries args (extra @ ?rest) = Found e v (1 + length extra)"
    by (cases "render_setting (e, form, v)") auto
  show ?case
  proof (cases "options_parse_value e v st")
    case None
    then show ?thesis using s r by (simp add: apply_setting_def)
  next
    case (Some p)
    obtain ret st' where p: "p = (ret, st')" by (cases p)
    have "ret = 0" using setting_accepted [OF ok] Some p by simp
    then show ?thesis using s r Some p Cons.IH [of st'] Cons.prems by (simp add: apply_setting_def)
  qed
qed

text \<open>
  C15: The options of a command line, in any of the forms \<open>--name=value\<close>, \<open>-xvalue\<close>, \<open>-x value\<close>,
  are applied in order, after the files of the configuration directory, and the arguments from the
  first one that is not an option on are left for the program.
\<close>

theorem options_command_line:
  assumes "options_ok entries" "\<forall>s\<in>set ss. setting_ok entries s" "operands = [] \<or> take 1 (hd operands) \<noteq> ''-''"
    and "find_conf_dir 1 (concat (map render_setting ss) @ operands) = None"
  shows "options_parse glob files entries conf_file (cmd # concat (map render_setting ss) @ operands) conf_dir st =
    Option.bind (options_conf_files glob files entries conf_dir conf_file st)
      (\<lambda>st. map_option (\<lambda>st. (conf_dir, Parsed (cmd # operands) st)) (foldo apply_setting st ss))"
  using assms(4)
  by (simp add: options_parse_def options_set_conf_dir_def parse_args_settings [OF assms(1-3)] option.map_comp comp_def)

section \<open>Configuration files do what they say\<close>

record conf_text =
  cl_lead :: string
  cl_kw :: string
  cl_mid :: string
  cl_gap :: string
  cl_value :: string
  cl_tail :: string
  cl_comment :: string

definition conf_body :: "conf_text \<Rightarrow> string" where
  "conf_body l = cl_kw l @ cl_mid l @ ''='' @ cl_gap l @ cl_value l"

definition conf_render :: "conf_text \<Rightarrow> string" where
  "conf_render l = cl_lead l @ conf_body l @ cl_tail l @ cl_comment l @ [LF]"

definition blanks :: "string \<Rightarrow> bool" where
  "blanks s \<longleftrightarrow> (\<forall>c\<in>set s. is_blank c \<and> c \<noteq> LF)"

definition conf_ok :: "conf_text \<Rightarrow> bool" where
  "conf_ok l \<longleftrightarrow>
     blanks (cl_lead l) \<and> blanks (cl_mid l) \<and> blanks (cl_gap l) \<and> blanks (cl_tail l) \<and>
     cl_kw l \<noteq> [] \<and> list_all is_graph (cl_kw l) \<and> CHR ''='' \<notin> set (cl_kw l) \<and> CHR ''#'' \<notin> set (cl_kw l) \<and>
     cl_value l \<noteq> [] \<and> is_graph (hd (cl_value l)) \<and> is_graph (last (cl_value l)) \<and>
     NUL \<notin> set (cl_value l) \<and> LF \<notin> set (cl_value l) \<and> CHR ''#'' \<notin> set (cl_value l) \<and>
     (cl_comment l = [] \<or> hd (cl_comment l) = CHR ''#'') \<and> NUL \<notin> set (cl_comment l) \<and> LF \<notin> set (cl_comment l) \<and>
     length (conf_render l) < CONF_LINE_SIZE"

lemma blank_hash: "is_blank c \<Longrightarrow> c \<noteq> CHR ''#'' \<and> c \<noteq> CHR ''='' \<and> c \<noteq> NUL"
  by (auto simp: is_blank_def cval_def)

lemma blanks_notin: "blanks s \<Longrightarrow> NUL \<notin> set s \<and> LF \<notin> set s \<and> CHR ''#'' \<notin> set s \<and> CHR ''='' \<notin> set s"
  using blank_hash by (metis blanks_def)

lemma graphs_notin: "list_all is_graph s \<Longrightarrow> NUL \<notin> set s \<and> LF \<notin> set s"
  using is_graph_not_NUL(1) is_graph_LF(1) by (metis list_all_iff)

lemma graph_not_blank: "is_graph c \<Longrightarrow> \<not> is_blank c"
  by (simp add: is_graph_def is_blank_def)

lemma dropWhile_blanks: "blanks s \<Longrightarrow> \<not> is_blank c \<Longrightarrow> dropWhile is_blank (s @ c # r) = c # r"
  by (induction s) (simp_all add: blanks_def)

lemma strip_blanks: "\<forall>c\<in>set t. is_blank c \<Longrightarrow> s \<noteq> [] \<Longrightarrow> \<not> is_blank (last s) \<Longrightarrow> rev (dropWhile is_blank (rev (s @ t))) = s"
proof (induction t rule: rev_induct)
  case Nil
  then show ?case by (cases s rule: rev_cases) simp_all
next
  case (snoc c t)
  then show ?case by simp
qed

lemma conf_okD:
  assumes "conf_ok l"
  shows "blanks (cl_lead l)" "blanks (cl_mid l)" "blanks (cl_gap l)" "blanks (cl_tail l)"
    "cl_kw l \<noteq> []" "list_all is_graph (cl_kw l)" "CHR ''='' \<notin> set (cl_kw l)" "CHR ''#'' \<notin> set (cl_kw l)"
    "cl_value l \<noteq> []" "is_graph (hd (cl_value l))" "is_graph (last (cl_value l))"
    "NUL \<notin> set (cl_value l)" "LF \<notin> set (cl_value l)" "CHR ''#'' \<notin> set (cl_value l)"
    "cl_comment l = [] \<or> hd (cl_comment l) = CHR ''#''" "NUL \<notin> set (cl_comment l)" "LF \<notin> set (cl_comment l)"
    "length (conf_render l) < CONF_LINE_SIZE"
  using assms unfolding conf_ok_def by simp_all

lemma conf_body_chars:
  assumes "conf_ok l"
  shows "NUL \<notin> set (conf_body l)" "LF \<notin> set (conf_body l)" "CHR ''#'' \<notin> set (conf_body l)"
    "\<exists>c r. conf_body l = c # r \<and> \<not> is_blank c" "conf_body l \<noteq> []" "\<not> is_blank (last (conf_body l))"
proof -
  note d = conf_okD [OF assms]
  note n = blanks_notin [OF d(2)] blanks_notin [OF d(3)] graphs_notin [OF d(6)]
  show "NUL \<notin> set (conf_body l)" "LF \<notin> set (conf_body l)" "CHR ''#'' \<notin> set (conf_body l)"
    using d n by (simp_all add: conf_body_def)
  obtain c r where "cl_kw l = c # r" "is_graph c" using d(5,6) by (cases "cl_kw l") simp_all
  then show "\<exists>c r. conf_body l = c # r \<and> \<not> is_blank c" using graph_not_blank by (simp add: conf_body_def)
  show "conf_body l \<noteq> []" "\<not> is_blank (last (conf_body l))"
    using d(9,11) graph_not_blank by (simp_all add: conf_body_def)
qed

lemma takeWhile_hash:
  assumes "CHR ''#'' \<notin> set s" "c = [] \<or> hd c = CHR ''#''"
  shows "takeWhile (\<lambda>c. c \<noteq> CHR ''#'') (s @ c @ [LF]) = (if c = [] then s @ [LF] else s)"
proof -
  have s: "x \<in> set s \<Longrightarrow> x \<noteq> CHR ''#''" for x using assms(1) by metis
  show ?thesis
  proof (cases c)
    case Nil
    then show ?thesis using s by (simp add: takeWhile_append2)
  next
    case (Cons x xs)
    then show ?thesis using s assms(2) by (simp add: takeWhile_append2)
  qed
qed

lemma strip_line_render:
  assumes "conf_ok l"
  shows "strip_line (conf_render l) = conf_body l"
proof -
  note d = conf_okD [OF assms] and b = conf_body_chars [OF assms]
  note n = blanks_notin [OF d(1)] blanks_notin [OF d(4)]
  have nn: "NUL \<notin> set (conf_render l)"
    using d(16) b(1) n by (simp add: conf_render_def)
  obtain c r where cr: "conf_body l = c # r" "\<not> is_blank c" using b(4) by blast
  have dw: "dropWhile is_blank (conf_render l) = (conf_body l @ cl_tail l) @ cl_comment l @ [LF]"
    using dropWhile_blanks [OF d(1) cr(2), of "r @ cl_tail l @ cl_comment l @ [LF]"] cr(1) by (simp add: conf_render_def)
  let ?t = "if cl_comment l = [] then cl_tail l @ [LF] else cl_tail l"
  have "takeWhile (\<lambda>c. c \<noteq> CHR ''#'') ((conf_body l @ cl_tail l) @ cl_comment l @ [LF]) = conf_body l @ ?t"
    using takeWhile_hash [of "conf_body l @ cl_tail l", OF _ d(15)] b(3) n by simp
  moreover have "\<forall>c\<in>set ?t. is_blank c" using d(4) by (simp add: blanks_def)
  ultimately show ?thesis using strip_blanks [OF _ b(5,6)] by (simp only: strip_line_def cstr_no_NUL [OF nn] dw)
qed

definition conf_set :: "options_entry list \<Rightarrow> opt_vars \<Rightarrow> conf_text \<Rightarrow> opt_vars option" where
  "conf_set entries st l =
     (case find (\<lambda>e. take (length (cl_kw l)) (oe_long e) = cl_kw l) entries of
        None \<Rightarrow> Some st
      | Some e \<Rightarrow> map_option snd (options_parse_value e (Some (cl_value l)) st))"

lemma value_accepted: "options_parse_value e (Some v) st = Some (ret, st') \<Longrightarrow> ret = 0"
  by (auto simp: options_parse_value_def Let_def split: options_type.splits if_splits opt_string.splits)

lemma conf_line_render:
  assumes "conf_ok l"
  shows "conf_line entries (conf_render l) st = map_option (\<lambda>st. (0, st)) (conf_set entries st l)"
proof -
  let ?kw = "cl_kw l"
  note d = conf_okD [OF assms]
  obtain x y where xy: "cl_mid l @ ''='' @ cl_gap l @ cl_value l = x # y" "\<not> (is_graph x \<and> x \<noteq> CHR ''='')"
    using d(2) graph_not_blank by (cases "cl_mid l") (simp_all add: blanks_def, blast)
  have body: "conf_body l = ?kw @ x # y" using xy(1) by (simp add: conf_body_def)
  have "\<forall>c\<in>set ?kw. is_graph c \<and> c \<noteq> CHR ''=''" using d(6,7) by (metis list_all_iff)
  then have tw: "takeWhile (\<lambda>c. is_graph c \<and> c \<noteq> CHR ''='') (conf_body l) = ?kw"
    using xy(2) unfolding body by (simp add: takeWhile_append2)
  have eq: "strchr (drop (length ?kw) (conf_body l)) (CHR ''='') = Some (length (cl_mid l))"
    using blanks_notin [OF d(2)] strchr_append [of "CHR ''=''" "cl_mid l" "cl_gap l @ cl_value l"]
    by (simp add: conf_body_def)
  obtain c r where cr: "cl_value l = c # r" "\<not> is_blank c" using d(9,10) graph_not_blank by (cases "cl_value l") simp_all
  have dv: "dropWhile is_blank (drop (Suc (length ?kw + length (cl_mid l))) (conf_body l)) = cl_value l"
    using dropWhile_blanks [OF d(3) cr(2), of r] cr(1) by (simp add: conf_body_def)
  have tk: "take (length ?kw) (conf_body l) = ?kw" by (simp add: conf_body_def)
  show ?thesis
  proof (cases "find (\<lambda>e. take (length ?kw) (oe_long e) = ?kw) entries")
    case None
    then show ?thesis using conf_body_chars(5) [OF assms]
      by (simp add: conf_line_def strip_line_render [OF assms] tw tk Let_def conf_set_def)
  next
    case (Some e)
    have "map_option (\<lambda>(ret, st). (if ret \<noteq> 0 then -2 else 0, st)) (options_parse_value e (Some (cl_value l)) st) =
        map_option (\<lambda>st. (0 :: int, st)) (map_option snd (options_parse_value e (Some (cl_value l)) st))"
    proof (cases "options_parse_value e (Some (cl_value l)) st")
      case (Some p)
      then show ?thesis using value_accepted [of e "cl_value l" st "fst p" "snd p"] by (simp add: case_prod_beta)
    qed simp
    with Some show ?thesis using conf_body_chars(5) [OF assms]
      by (simp add: conf_line_def strip_line_render [OF assms] tw tk eq dv Let_def conf_set_def)
  qed
qed

lemma take_past: "length s < n \<Longrightarrow> take n (s @ x # r) = s @ x # take (n - Suc (length s)) r"
  by (simp add: take_Cons')

lemma fgets_lines_lines:
  assumes "1 < sz" "\<forall>l\<in>set ls. LF \<notin> set l \<and> length l < sz - 1"
  shows "fgets_lines sz (concat (map (\<lambda>l. l @ [LF]) ls)) = map (\<lambda>l. l @ [LF]) ls"
  using assms(2)
proof (induction ls)
  case Nil
  show ?case by (simp add: fgets_lines.simps)
next
  case (Cons l ls)
  let ?rest = "concat (map (\<lambda>l. l @ [LF]) ls)"
  have l: "LF \<notin> set l" "length l < sz - 1" using Cons.prems by simp_all
  have "strchr (take (sz - 1) (l @ LF # ?rest)) LF = Some (length l)"
    unfolding take_past [OF l(2)] by (rule strchr_append [OF l(1)])
  then have "fgets_lines sz (l @ LF # ?rest) = (l @ [LF]) # fgets_lines sz ?rest"
    using assms(1) by (subst fgets_lines.simps) (simp add: Let_def)
  then show ?case using Cons by simp
qed

lemma fgets_lines_render:
  assumes "\<forall>l\<in>set ls. conf_ok l"
  shows "fgets_lines CONF_LINE_SIZE (concat (map conf_render ls)) = map conf_render ls"
proof -
  define f where "f l = cl_lead l @ conf_body l @ cl_tail l @ cl_comment l" for l
  have r: "conf_render = (\<lambda>l. f l @ [LF])" by (simp add: conf_render_def f_def fun_eq_iff)
  have "LF \<notin> set (f l) \<and> length (f l) < CONF_LINE_SIZE - 1" if "l \<in> set ls" for l
    using conf_body_chars(2) conf_okD(17) blanks_notin [OF conf_okD(1)] blanks_notin [OF conf_okD(4)]
      conf_okD(18) [unfolded r] assms that by (simp add: f_def CONF_LINE_SIZE_def)
  then show ?thesis
    using fgets_lines_lines [of CONF_LINE_SIZE "map f ls"] by (simp add: r CONF_LINE_SIZE_def comp_def)
qed

text \<open>
  A configuration file whose lines have the form \<open>keyword = value # comment\<close>, with blanks
  anywhere around these parts, sets for each line, in order, the first option of the program whose
  name begins with the keyword, and ignores the line when there is none.
\<close>

theorem options_conf_lines:
  assumes "\<forall>l\<in>set ls. conf_ok l"
  shows "options_conf_parse_path entries (Some (concat (map conf_render ls))) st =
    map_option (\<lambda>st. (0, st)) (foldo (conf_set entries) st ls)"
proof -
  have "conf_loop entries (map conf_render ls) st = map_option (\<lambda>st. (0, st)) (foldo (conf_set entries) st ls)"
    using assms
  proof (induction ls arbitrary: st)
    case (Cons l ls)
    then show ?case using conf_line_render [of l entries st] by (cases "conf_set entries st l") auto
  qed simp
  then show ?thesis using fgets_lines_render [OF assms] by (simp add: options_conf_parse_path_def)
qed

section \<open>The programs\<close>

definition opt_text :: "opt_string \<Rightarrow> string option" where
  "opt_text s = (case s of Opt_null \<Rightarrow> None | Opt_literal v \<Rightarrow> Some v | Opt_heap v \<Rightarrow> Some v)"

abbreviation opt_entry :: "string \<Rightarrow> char \<Rightarrow> 32 word \<Rightarrow> options_type \<Rightarrow> nat \<Rightarrow> string option \<Rightarrow> options_entry" where
  "opt_entry name letter flags type ptr symbol \<equiv>
     \<lparr>oe_long = name, oe_short = letter, oe_flags = flags, oe_type = type, oe_ptr = ptr, oe_symbol = symbol\<rparr>"

definition launcher_options :: "options_entry list" where
  \<comment> \<open>with MQTT. Integers: \<open>opt_debug\<close>, \<open>opt_daemon\<close>, \<open>opt_offline\<close>, \<open>opt_no_advertise\<close>,
    \<open>opt_no_hkcp\<close>, \<open>opt_no_mqtt\<close>, \<open>opt_mqtt_port\<close>, \<open>opt_no_ssl\<close>, \<open>opt_full_name\<close>; strings:
    \<open>opt_pid_file\<close>, \<open>opt_platform_url\<close>, \<open>opt_lib_dir\<close>, \<open>opt_http_alias\<close>, \<open>opt_tile\<close>\<close>
  "launcher_options =
     [opt_entry ''debug'' (CHR ''d'') 0 OPTIONS_TYPE_INT 0 (Some ''N''),
      opt_entry ''daemon'' (CHR ''D'') 0 OPTIONS_TYPE_NONE 1 None,
      opt_entry ''pid-file'' (CHR ''P'') 0 OPTIONS_TYPE_STRING 0 (Some ''FILE''),
      opt_entry ''platform-url'' (CHR ''U'') 0 OPTIONS_TYPE_STRING 1 (Some ''URL''),
      opt_entry ''lib-dir'' (CHR ''L'') 0 OPTIONS_TYPE_STRING 2 (Some ''DIR''),
      opt_entry ''offline'' (CHR ''l'') 0 OPTIONS_TYPE_NONE 2 None,
      opt_entry ''no-advertise'' (CHR ''N'') 0 OPTIONS_TYPE_NONE 3 None,
      opt_entry ''no-hkcp'' (CHR ''n'') 0 OPTIONS_TYPE_NONE 4 None,
      opt_entry ''no-mqtt'' (CHR ''m'') 0 OPTIONS_TYPE_NONE 5 None,
      opt_entry ''mqtt-port'' (CHR ''p'') 0 OPTIONS_TYPE_INT 6 (Some ''PORT''),
      opt_entry ''no-ssl'' (CHR ''s'') 0 OPTIONS_TYPE_NONE 7 None,
      opt_entry ''http-alias'' (CHR ''a'') OPTION_FLAG_LIST OPTIONS_TYPE_STRING 3 (Some ''ALIAS=DIR,...''),
      opt_entry ''tile'' (CHR ''t'') OPTION_FLAG_LIST OPTIONS_TYPE_STRING 4 (Some ''TILE,...''),
      opt_entry ''full-name'' (CHR ''f'') 0 OPTIONS_TYPE_NONE 8 None]"

definition launcher_vars :: opt_vars where
  "launcher_vars = \<lparr>ov_int = (\<lambda>_. 0)(6 := 8883),
     ov_str = (\<lambda>_. Opt_null)(0 := Opt_literal ''/var/run/hakit.pid'', 1 := Opt_literal ''https://hakit.net'')\<rparr>"

definition engine_options :: "options_entry list" where
  \<comment> \<open>with SSL and MQTT. Integers: \<open>opt_debug\<close>, \<open>opt_no_advertise\<close>, \<open>opt_no_hkcp\<close>,
    \<open>opt_trace_depth\<close>, \<open>opt_full_name\<close>, \<open>opt_no_https\<close>, \<open>opt_insecure_ssl\<close>, \<open>opt_no_mqtt\<close>; strings:
    \<open>opt_class_path\<close>, \<open>opt_certs\<close>, \<open>opt_http_auth\<close>, \<open>opt_http_alias\<close>, \<open>opt_mqtt_broker\<close>\<close>
  "engine_options =
     [opt_entry ''debug'' (CHR ''d'') 0 OPTIONS_TYPE_INT 0 (Some ''N''),
      opt_entry ''no-advertise'' (CHR ''N'') 0 OPTIONS_TYPE_NONE 1 None,
      opt_entry ''no-hkcp'' (CHR ''n'') 0 OPTIONS_TYPE_NONE 2 None,
      opt_entry ''class-path'' (CHR ''C'') OPTION_FLAG_LIST OPTIONS_TYPE_STRING 0 (Some ''DIRS''),
      opt_entry ''trace-depth'' (CHR ''t'') 0 OPTIONS_TYPE_INT 3 (Some ''DEPTH''),
      opt_entry ''full-name'' (CHR ''f'') 0 OPTIONS_TYPE_NONE 4 None,
      opt_entry ''no-https'' (CHR ''s'') 0 OPTIONS_TYPE_NONE 5 None,
      opt_entry ''insecure'' (CHR ''k'') 0 OPTIONS_TYPE_NONE 6 None,
      opt_entry ''certs'' (CHR ''e'') 0 OPTIONS_TYPE_STRING 1 (Some ''DIR''),
      opt_entry ''http-auth'' (CHR ''A'') 0 OPTIONS_TYPE_STRING 2 (Some ''FILE''),
      opt_entry ''http-alias'' (CHR ''a'') OPTION_FLAG_LIST OPTIONS_TYPE_STRING 3 (Some ''ALIAS=DIR,...''),
      opt_entry ''no-mqtt'' (CHR ''m'') 0 OPTIONS_TYPE_NONE 7 None,
      opt_entry ''mqtt-broker'' (CHR ''b'') 0 OPTIONS_TYPE_STRING 4 (Some ''[USER[:PASSWORD]@]HOST[:PORT]'')]"

definition engine_vars :: opt_vars where
  "engine_vars = \<lparr>ov_int = (\<lambda>_. 0), ov_str = (\<lambda>_. Opt_null)\<rparr>"

lemma programs_ok: "options_ok launcher_options" "options_ok engine_options"
  by code_simp+

theorem options_command_line_witness:
  "options_parse (\<lambda>_. None) (\<lambda>_. None) engine_options (Some ''engine*'')
     [''hakit-engine'', ''--trace-depth=10'', ''-n'', ''-C'', ''a'', ''--class-path=b'', ''tile.hk''] None engine_vars =
   Some (None, Parsed [''hakit-engine'', ''tile.hk'']
     \<lparr>ov_int = (\<lambda>_. 0)(3 := 10, 2 := 1), ov_str = (\<lambda>_. Opt_null)(0 := Opt_heap ''a,b'')\<rparr>)"
proof -
  let ?ss = "[(engine_options ! 4, Long, Some ''10''), (engine_options ! 2, Separate, None),
    (engine_options ! 3, Separate, Some ''a''), (engine_options ! 3, Long, Some ''b'')]"
  have ok: "\<forall>s\<in>set ?ss. setting_ok engine_options s" by code_simp
  have argv: "concat (map render_setting ?ss) @ [''tile.hk''] =
      [''--trace-depth=10'', ''-n'', ''-C'', ''a'', ''--class-path=b'', ''tile.hk'']" by code_simp
  have dir: "find_conf_dir 1 [''--trace-depth=10'', ''-n'', ''-C'', ''a'', ''--class-path=b'', ''tile.hk''] = None" by code_simp
  have st: "foldo apply_setting engine_vars ?ss =
      Some \<lparr>ov_int = (\<lambda>_. 0)(3 := 10, 2 := 1), ov_str = (\<lambda>_. Opt_null)(0 := Opt_heap ''a,b'')\<rparr>"
  proof -
    have n: "to_int32 (strtol0 ''10'') = 10" by code_simp
    have l: "oe_flags (engine_options ! 3) AND OPTION_FLAG_LIST \<noteq> 0" by code_simp
    have e: "oe_type (engine_options ! 4) = OPTIONS_TYPE_INT" "oe_ptr (engine_options ! 4) = 3"
      "oe_type (engine_options ! 2) = OPTIONS_TYPE_NONE" "oe_ptr (engine_options ! 2) = 2"
      "oe_type (engine_options ! 3) = OPTIONS_TYPE_STRING" "oe_ptr (engine_options ! 3) = 0" by code_simp+
    show ?thesis
      by (simp add: apply_setting_def options_parse_value_def Let_def engine_vars_def n l e)
  qed
  show ?thesis
    using options_command_line [OF programs_ok(2) ok, of "[''tile.hk'']" "\<lambda>_. None" "\<lambda>_. None" "Some ''engine*''" "''hakit-engine''" None engine_vars]
    unfolding argv by (simp add: dir options_conf_files_def st del: foldo.simps)
qed

lemma literal_stays:
  "options_parse_value e v st = Some (ret, st') \<Longrightarrow> ov_str st p = Opt_literal x \<Longrightarrow> ov_str st' p = Opt_literal x"
  by (auto simp: options_parse_value_def Let_def split: options_type.splits option.splits if_splits opt_string.splits)

lemma conf_loop_literal:
  "conf_loop entries bufs st = Some (ret, st') \<Longrightarrow> ov_str st p = Opt_literal x \<Longrightarrow> ov_str st' p = Opt_literal x"
proof (induction entries bufs st rule: conf_loop.induct)
  case (2 entries buf bufs st)
  from "2.prems"(1) obtain ret1 st1 where s1: "conf_line entries buf st = Some (ret1, st1)"
    by (auto split: option.splits)
  have "ov_str st1 p = Opt_literal x"
    using s1 "2.prems"(2) by (auto simp: conf_line_def Let_def dest: literal_stays split: option.splits if_splits)
  with "2.IH" [OF s1] "2.prems"(1) s1 show ?case by (auto split: if_splits)
qed simp

lemma conf_files_literal:
  assumes "options_conf_files glob files entries conf_dir conf_file st = Some st'" "ov_str st p = Opt_literal x"
  shows "ov_str st' p = Opt_literal x"
proof -
  have step: "ov_str s' p = Opt_literal x"
    if "ov_str s p = Opt_literal x" "map_option snd (options_conf_parse_path entries content s) = Some s'" for s s' content
    using that conf_loop_literal by (cases content) (auto simp: options_conf_parse_path_def)
  let ?f = "\<lambda>st path. map_option snd (options_conf_parse_path entries (files path) st)"
  have "ov_str st' p = Opt_literal x" if "foldo ?f st paths = Some st'" for paths
    by (rule foldo_partial_inv [where I = "\<lambda>s. ov_str s p = Opt_literal x", OF _ assms(2) that]) (rule step)
  then show ?thesis using assms by (auto simp: options_conf_files_def split: option.splits)
qed

text \<open>
  Setting a string option whose variable starts with a literal of the program frees this literal,
  anywhere on the command line and whatever the configuration files hold: so \<open>--pid-file\<close> and
  \<open>--platform-url\<close> of the launcher cannot be used.
\<close>

theorem literal_options_crash:
  assumes "options_ok entries" "\<forall>s\<in>set ss. setting_ok entries s" "operands = [] \<or> take 1 (hd operands) \<noteq> ''-''"
    and "find_conf_dir 1 (concat (map render_setting ss) @ operands) = None"
    and "(e, form, v) \<in> set ss" "oe_type e = OPTIONS_TYPE_STRING" "ov_str st (oe_ptr e) = Opt_literal x"
  shows "options_parse glob files entries conf_file (cmd # concat (map render_setting ss) @ operands) conf_dir st = None"
proof -
  have "foldo apply_setting st' ss = None" if "ov_str st' (oe_ptr e) = Opt_literal x" for st'
    using assms(2,5) that
  proof (induction ss arbitrary: st')
    case (Cons s ss)
    show ?case
    proof (cases "apply_setting st' s")
      case (Some st1)
      then have "ov_str st1 (oe_ptr e) = Opt_literal x"
        using Cons.prems(3) by (cases s) (auto simp: apply_setting_def dest: literal_stays)
      moreover have "s \<noteq> (e, form, v)"
      proof
        assume s: "s = (e, form, v)"
        have "setting_ok entries s" using Cons.prems(1) by (simp del: setting_ok.simps)
        then obtain w where "v = Some w" using s assms(6) by (cases v) auto
        with Some s Cons.prems(3) assms(6) show False
          by (simp add: apply_setting_def options_parse_value_def Let_def split: if_splits)
      qed
      ultimately show ?thesis using Some Cons.IH [of st1] Cons.prems(1,2) by (simp del: setting_ok.simps)
    qed simp
  qed simp
  with conf_files_literal [OF _ assms(7)] show ?thesis
    unfolding options_command_line [OF assms(1-4)] by (auto split: Option.bind_splits)
qed

theorem literal_options_crash_witness:
  "options_parse (\<lambda>_. None) (\<lambda>_. None) launcher_options (Some ''launcher*'') [''hakit-launcher'', ''-D'', ''--pid-file=/run/hk.pid''] None
     launcher_vars = None"
proof -
  let ?ss = "[(launcher_options ! 1, Separate, None), (launcher_options ! 2, Long, Some ''/run/hk.pid'')]"
  have ok: "\<forall>s\<in>set ?ss. setting_ok launcher_options s" by code_simp
  have argv: "concat (map render_setting ?ss) @ [] = [''-D'', ''--pid-file=/run/hk.pid'']" by code_simp
  have dir: "find_conf_dir 1 (concat (map render_setting ?ss) @ []) = None" by code_simp
  have e: "oe_type (launcher_options ! 2) = OPTIONS_TYPE_STRING"
    "ov_str launcher_vars (oe_ptr (launcher_options ! 2)) = Opt_literal ''/var/run/hakit.pid''" by code_simp+
  show ?thesis
    using literal_options_crash [OF programs_ok(1) ok _ dir _ e, of Long "Some ''/run/hk.pid''" "\<lambda>_. None" "\<lambda>_. None"
        "Some ''launcher*''" "''hakit-launcher''" None] unfolding argv by simp
qed

text \<open>
  The documented option \<open>--config=DIR\<close> is looked for first, and the files of the directory are
  read; but as no table of options has it, the program then shows its help and ends.
\<close>

theorem config_option_refused:
  assumes "\<forall>e\<in>set entries. oe_long e \<noteq> ''config''"
    and "options_conf_files glob files entries (Some dir) conf_file st = Some st'" "dir = [] \<or> last dir \<noteq> CHR ''/''"
  shows "options_parse glob files entries conf_file (cmd # (''--config='' @ dir @ replicate n (CHR ''/'')) # rest) conf_dir st =
    Some (Some dir, Help_exit)"
proof -
  have nf: "find_option entries (''--config='' @ dir) rest = Not_found"
    using assms(1)
  proof (induction entries)
    case (Cons e es)
    have "''config'' \<noteq> oe_long e" using Cons.prems by (simp add: eq_commute)
    with Cons show ?case by (simp add: match_option_def)
  qed simp
  have "rev (dropWhile (\<lambda>c. c = CHR ''/'') (rev (dir @ replicate n (CHR ''/'')))) = dir"
    using assms(3) dropWhile_append2 [of "replicate n (CHR ''/'')" "\<lambda>c. c = CHR ''/''" "rev dir"]
    by (cases dir rule: rev_cases) simp_all
  then have "options_set_conf_dir (cmd # (''--config='' @ dir @ replicate n (CHR ''/'')) # rest) conf_dir =
      (cmd # (''--config='' @ dir) # rest, Some dir)"
    by (simp add: options_set_conf_dir_def Let_def)
  then show ?thesis using assms(2) nf by (simp add: options_parse_def)
qed

theorem config_option_refused_witness:
  "options_parse (\<lambda>_. Some [''/opt/hakit/engine'']) (\<lambda>_. Some ''debug=2'') engine_options (Some ''engine*'')
     [''hakit-engine'', ''--config=/opt/hakit/''] None engine_vars = Some (Some ''/opt/hakit'', Help_exit)"
proof -
  have "\<forall>e\<in>set engine_options. oe_long e \<noteq> ''config''" by code_simp
  moreover have "options_conf_files (\<lambda>_. Some [''/opt/hakit/engine'']) (\<lambda>_. Some ''debug=2'') engine_options
      (Some ''/opt/hakit'') (Some ''engine*'') engine_vars \<noteq> None" by code_simp
  ultimately show ?thesis
    using config_option_refused [of engine_options "\<lambda>_. Some [''/opt/hakit/engine'']" "\<lambda>_. Some ''debug=2''" "''/opt/hakit''"
        "Some ''engine*''" engine_vars _ "''hakit-engine''" 1 "[]" None] by auto
qed

theorem options_conf_lines_witness:
  "options_conf_parse_path engine_options (Some (''  trace-d = 10 # depth'' @ [LF])) engine_vars =
   Some (0, engine_vars\<lparr>ov_int := (ov_int engine_vars)(3 := 10)\<rparr>)"
proof -
  let ?l = "\<lparr>cl_lead = ''  '', cl_kw = ''trace-d'', cl_mid = '' '', cl_gap = '' '', cl_value = ''10'', cl_tail = '' '',
    cl_comment = ''# depth''\<rparr>"
  have l: "\<forall>l\<in>set [?l]. conf_ok l" by code_simp
  have r: "concat (map conf_render [?l]) = ''  trace-d = 10 # depth'' @ [LF]" by code_simp
  have f: "find (\<lambda>e. take (length (cl_kw ?l)) (oe_long e) = cl_kw ?l) engine_options = Some (engine_options ! 4)" by code_simp
  have v: "to_int32 (strtol0 ''10'') = 10" by code_simp
  have e: "oe_type (engine_options ! 4) = OPTIONS_TYPE_INT" "oe_ptr (engine_options ! 4) = 3" by code_simp+
  have "foldo (conf_set engine_options) engine_vars [?l] = Some (engine_vars\<lparr>ov_int := (ov_int engine_vars)(3 := 10)\<rparr>)"
    unfolding foldo.simps conf_set_def f by (simp add: options_parse_value_def e v Let_def)
  then show ?thesis using options_conf_lines [OF l, of engine_options engine_vars] unfolding r by simp
qed

end
