(* ===== verification/Hk_Env.thy ===== *)
theory Hk_Env
  imports Hk_Mod "HOL-Library.Sublist"
begin

text \<open>
  \<^verbatim>\<open>os/linux/env.c\<close> and \<^verbatim>\<open>os/linux/mod_init.c\<close>: where the program runs from, and the classes
  it loads from directories. The file system, the variable \<open>PATH\<close> and the dynamic linker are
  arguments. \<open>None\<close> as a result of \<open>env_init\<close> or \<open>env_dir\<close> is a null pointer that is read.
\<close>

section \<open>Directories of the program\<close>

record env_os =
  os_cwd :: string
  os_path :: "string option"
  os_executable :: "string \<Rightarrow> bool"
  os_readable :: "string \<Rightarrow> bool"
  os_realpath :: "string \<Rightarrow> string option"

record env_state =
  env_cur :: "string option"
  env_bin :: "string option"
  env_dev :: "string option"

definition env_none :: env_state where
  "env_none = \<lparr>env_cur = None, env_bin = None, env_dev = None\<rparr>"

function which_loop :: "env_os \<Rightarrow> string \<Rightarrow> string option \<Rightarrow> string option" where
  \<comment> \<open>\<open>dir\<close>: the rest of \<open>PATH\<close>\<close>
  "which_loop os pgm None = None"
| "which_loop os pgm (Some rest) =
     (let (dir, sep) = (case strchr rest CHR '':'' of
                          None \<Rightarrow> (rest, None)
                        | Some i \<Rightarrow> (take i rest, Some (drop (i + 1) rest)));
          ret = (if os_executable os (dir @ ''/'' @ pgm) then os_realpath os dir else None)
      in case ret of None \<Rightarrow> which_loop os pgm sep | Some d \<Rightarrow> Some d)"
  by pat_completeness auto
termination
  by (relation "measure (\<lambda>(os, pgm, dir). case dir of None \<Rightarrow> 0 | Some s \<Rightarrow> Suc (length s))")
    (auto split: option.splits dest!: strchr_SomeD)

definition env_which :: "env_os \<Rightarrow> string \<Rightarrow> string option" where
  "env_which os pgm = which_loop os pgm (os_path os)"

definition env_dir :: "env_state \<Rightarrow> string option \<Rightarrow> string option \<Rightarrow> string option" where
  "env_dir env rootdir subpath =
     map_option (\<lambda>root. root @ (case subpath of None \<Rightarrow> [] | Some p \<Rightarrow> ''/'' @ p))
       (case rootdir of None \<Rightarrow> env_cur env | Some d \<Rightarrow> Some d)"

definition env_bindir :: "env_state \<Rightarrow> string option \<Rightarrow> string option" where
  "env_bindir env subpath = env_dir env (env_bin env) subpath"

definition env_devdir :: "env_state \<Rightarrow> string option \<Rightarrow> string option" where
  \<comment> \<open>here \<open>None\<close> is the answer that there is no development environment\<close>
  "env_devdir env subpath =
     (case env_dev env of None \<Rightarrow> None | Some d \<Rightarrow> env_dir env (Some d) subpath)"

definition env_init :: "env_os \<Rightarrow> string \<Rightarrow> env_state \<Rightarrow> env_state option" where
  "env_init os pgm env =
     (let env = (if env_cur env = None then env\<lparr>env_cur := Some (os_cwd os)\<rparr> else env);
          env = env\<lparr>env_bin := (if strchr pgm CHR ''/'' \<noteq> None then os_realpath os (dirname pgm)
                                    else env_which os pgm),
                    env_dev := None\<rparr>
      in Option.bind (env_bindir env (Some ''.version''))
           (\<lambda>dir. if os_readable os dir then
              map_option (\<lambda>path. env\<lparr>env_dev := Some (dirname (dirname path))\<rparr>) (env_bin env)
            else Some env))"

section \<open>Loadable classes\<close>

record class_files =
  cf_readdir :: "string \<Rightarrow> string list option"
  cf_fs :: filesystem
  cf_dlopen :: "string \<Rightarrow> (string \<Rightarrow> string option) option" \<comment> \<open>library, symbol, name of the class\<close>

definition class_symbol :: "string \<Rightarrow> string" where
  "class_symbol name = map (\<lambda>c. if c = CHR ''-'' then CHR ''_'' else c) (''_class_'' @ name)"

definition mod_init_entry :: "class_files \<Rightarrow> string \<Rightarrow> ('c, 'z) hk \<Rightarrow> string \<Rightarrow> ('c, 'z) hk" where
  \<comment> \<open>one entry of a directory\<close>
  "mod_init_entry cf dir st name =
     (if name \<noteq> [] \<and> hd name = CHR ''.'' then st
      else if \<not> is_dir (cf_fs cf) (dir @ ''/'' @ name) then st
      else
        let path = dir @ ''/'' @ name @ ''/device/'' @ name @ ''.so''
        in if \<not> is_file (cf_fs cf) path then st
           else
             (case cf_dlopen cf path of
                None \<Rightarrow> st
              | Some symbols \<Rightarrow>
                  (case (case symbols (class_symbol name) of None \<Rightarrow> symbols ''_class'' | Some c \<Rightarrow> Some c) of
                     None \<Rightarrow> st
                   | Some c \<Rightarrow> snd (hk_class_register c st))))"

definition hk_mod_init_dir :: "class_files \<Rightarrow> string \<Rightarrow> ('c, 'z) hk \<Rightarrow> ('c, 'z) hk" where
  "hk_mod_init_dir cf dir st =
     (case cf_readdir cf dir of None \<Rightarrow> st | Some names \<Rightarrow> foldl (mod_init_entry cf dir) st names)"

function class_path_loop :: "class_files \<Rightarrow> string option \<Rightarrow> ('c, 'z) hk \<Rightarrow> ('c, 'z) hk" where
  \<comment> \<open>a comma separates only after the last colon\<close>
  "class_path_loop cf None st = st"
| "class_path_loop cf (Some s1) st =
     (let i = (case strchr s1 CHR '':'' of None \<Rightarrow> strchr s1 CHR '','' | Some i \<Rightarrow> Some i);
          (dir, s2) = (case i of None \<Rightarrow> (s1, None) | Some i \<Rightarrow> (take i s1, Some (drop (i + 1) s1)))
      in class_path_loop cf s2 (hk_mod_init_dir cf dir st))"
  by pat_completeness auto
termination
  by (relation "measure (\<lambda>(cf, s, st). case s of None \<Rightarrow> 0 | Some s \<Rightarrow> Suc (length s))")
    (auto split: option.splits dest!: strchr_SomeD)

definition hk_mod_init :: "class_files \<Rightarrow> env_state \<Rightarrow> string option \<Rightarrow> ('c, 'z) hk \<Rightarrow> ('c, 'z) hk" where
  "hk_mod_init cf env class_path st =
     (let st = class_path_loop cf class_path st;
          st = (case env_bindir env (Some ''classes'') of
                  None \<Rightarrow> st
                | Some dir \<Rightarrow> if is_dir (cf_fs cf) dir then hk_mod_init_dir cf dir st else st)
      in hk_mod_init_dir cf ''/usr/lib/hakit/classes'' st)"

section \<open>Properties\<close>

definition classes_grow :: "('c, 'z) hk \<Rightarrow> ('c, 'z) hk \<Rightarrow> bool" where
  "classes_grow s s' \<longleftrightarrow> s' = s\<lparr>classes := classes s'\<rparr> \<and> prefix (classes s) (classes s') \<and>
     (distinct (classes s) \<longrightarrow> distinct (classes s'))"

lemma classes_grow_refl [simp]: "classes_grow s s"
  by (cases s) (simp add: classes_grow_def)

lemma classes_grow_trans: "classes_grow s s1 \<Longrightarrow> classes_grow s1 s2 \<Longrightarrow> classes_grow s s2"
  by (cases s; cases s1; cases s2) (auto simp: classes_grow_def intro: prefix_order.trans)

lemma classes_grow_foldl: "(\<And>s x. classes_grow s (f s x)) \<Longrightarrow> classes_grow s (foldl f s xs)"
proof (induction xs arbitrary: s)
  case (Cons x xs)
  then show ?case using classes_grow_trans [of s "f s x"] by simp
qed simp

lemma register_grow: "classes_grow s (snd (hk_class_register c s))"
  by (cases s) (auto simp: classes_grow_def hk_class_register_def hk_class_find_def split: if_splits)

lemma entry_grow: "classes_grow s (mod_init_entry cf dir s name)"
  by (auto simp: mod_init_entry_def Let_def register_grow split: option.split)

lemma init_dir_grow: "classes_grow s (hk_mod_init_dir cf dir s)"
  by (auto simp: hk_mod_init_dir_def entry_grow split: option.split intro!: classes_grow_foldl)

lemma class_path_grow: "classes_grow s (class_path_loop cf path s)"
proof (induction cf path s rule: class_path_loop.induct)
  case (2 cf s1 st)
  let ?i = "case strchr s1 CHR '':'' of None \<Rightarrow> strchr s1 CHR '','' | Some i \<Rightarrow> Some i"
  let ?dir = "case ?i of None \<Rightarrow> s1 | Some i \<Rightarrow> take i s1"
  let ?s2 = "case ?i of None \<Rightarrow> None | Some i \<Rightarrow> Some (drop (i + 1) s1)"
  have e: "(case ?i of None \<Rightarrow> (s1, None) | Some i \<Rightarrow> (take i s1, Some (drop (i + 1) s1))) = (?dir, ?s2)"
    by (cases ?i) simp_all
  have "classes_grow (hk_mod_init_dir cf ?dir st) (class_path_loop cf ?s2 (hk_mod_init_dir cf ?dir st))"
    using 2 [OF refl e [symmetric] refl] .
  with init_dir_grow [of st cf ?dir] show ?case
    unfolding class_path_loop.simps Let_def e prod.case by (rule classes_grow_trans)
qed simp

lemma init_dir_found:
  assumes "cf_readdir cf dir = Some names" "name \<in> set names" "hd name \<noteq> CHR ''.''"
    and "is_dir (cf_fs cf) (dir @ ''/'' @ name)" "is_file (cf_fs cf) (dir @ ''/'' @ name @ ''/device/'' @ name @ ''.so'')"
    and "cf_dlopen cf (dir @ ''/'' @ name @ ''/device/'' @ name @ ''.so'') = Some symbols"
    and "symbols (class_symbol name) = Some c"
  shows "c \<in> set (classes (hk_mod_init_dir cf dir st))"
proof -
  obtain before after where n: "names = before @ name # after" using split_list [OF assms(2)] by blast
  let ?s = "foldl (mod_init_entry cf dir) st before"
  have "mod_init_entry cf dir ?s name = snd (hk_class_register c ?s)"
    using assms(3-7) by (simp add: mod_init_entry_def Let_def)
  then have "c \<in> set (classes (mod_init_entry cf dir ?s name))"
    by (simp add: hk_class_register_def hk_class_find_def)
  moreover have "classes_grow (mod_init_entry cf dir ?s name) (foldl (mod_init_entry cf dir) (mod_init_entry cf dir ?s name) after)"
    by (rule classes_grow_foldl) (rule entry_grow)
  ultimately show ?thesis
    using assms(1) set_mono_prefix unfolding hk_mod_init_dir_def n classes_grow_def by fastforce
qed

text \<open>
  Loading the classes only appends to the table of classes, keeps their names distinct
  and changes nothing else; and a class whose library is in the system directory is in the table
  afterwards, whatever is found before it.
\<close>

theorem class_libraries_registered:
  fixes st :: "('c, 'z) hk"
  defines "path \<equiv> \<lambda>name. ''/usr/lib/hakit/classes'' @ ''/'' @ name"
  assumes "cf_readdir cf ''/usr/lib/hakit/classes'' = Some names" "name \<in> set names" "hd name \<noteq> CHR ''.''"
    and "is_dir (cf_fs cf) (path name)" "is_file (cf_fs cf) (path name @ ''/device/'' @ name @ ''.so'')"
    and "cf_dlopen cf (path name @ ''/device/'' @ name @ ''.so'') = Some symbols"
    and "symbols (class_symbol name) = Some c"
  shows "classes_grow st (hk_mod_init cf env class_path st) \<and> c \<in> set (classes (hk_mod_init cf env class_path st))"
proof -
  let ?s = "class_path_loop cf class_path st"
  define t where "t = (case env_bindir env (Some ''classes'') of
                  None \<Rightarrow> ?s | Some dir \<Rightarrow> if is_dir (cf_fs cf) dir then hk_mod_init_dir cf dir ?s else ?s)"
  have "classes_grow ?s t" by (auto simp: t_def init_dir_grow split: option.split)
  from classes_grow_trans [OF classes_grow_trans [OF class_path_grow this] init_dir_grow]
  have "classes_grow st (hk_mod_init_dir cf ''/usr/lib/hakit/classes'' t)" .
  moreover have "c \<in> set (classes (hk_mod_init_dir cf ''/usr/lib/hakit/classes'' t))"
    by (rule init_dir_found [OF assms(2-4), where symbols = symbols]) (use assms(5-8) in \<open>simp_all only: path_def append_assoc\<close>)
  moreover have "hk_mod_init cf env class_path st = hk_mod_init_dir cf ''/usr/lib/hakit/classes'' t"
    by (simp only: hk_mod_init_def Let_def t_def)
  ultimately show ?thesis by simp
qed

definition one_library :: class_files where
  \<comment> \<open>the directory of the system has a class \<open>timer-on\<close>\<close>
  "one_library = \<lparr>cf_readdir = (\<lambda>d. if d = ''/usr/lib/hakit/classes'' then Some [''.'', ''timer-on''] else None),
     cf_fs = \<lparr>is_dir = (\<lambda>_. True), is_file = (\<lambda>_. True), realpath = (\<lambda>p. p)\<rparr>,
     cf_dlopen = (\<lambda>_. Some (\<lambda>s. if s = ''_class_timer_on'' then Some ''timer-on'' else None))\<rparr>"

theorem class_libraries_registered_witness:
  "''timer-on'' \<in> set (classes (hk_mod_init one_library env_none (Some ''a:b'') (hk_start 0 :: unit hk_state)))"
  by (rule conjunct2 [OF class_libraries_registered [where names = "[''.'', ''timer-on'']" and name = "''timer-on''"
        and symbols = "\<lambda>s. if s = ''_class_timer_on'' then Some ''timer-on'' else None"]])
    (simp_all add: one_library_def class_symbol_def)

end
