(* ===== verification/Hk_CommCmd.thy ===== *)
theory Hk_CommCmd
  imports Hk_Comm Hk_ModLoad Hk_Env
begin

text \<open>
  The rest of \<^verbatim>\<open>core/comm.c\<close>: the commands of the websocket sessions and of the standard
  input, the MQTT link, and the start of the communication engine and of its tiles. \<open>n\<close> is the
  depth allowed to propagations (see \<open>comm_order\<close>).
\<close>

abbreviation comm_pads :: "nat \<Rightarrow> ('z cm) updater" where
  "comm_pads n \<equiv> hk_pad_update_str comm_class n"

section \<open>Commands\<close>

fun trace_args :: "string list \<Rightarrow> string option \<times> nat \<times> nat \<Rightarrow> (string option \<times> nat \<times> nat) option" where
  \<comment> \<open>the arguments of \<open>trace\<close>, \<open>[name] [[t1]:[t2]]\<close>; \<open>None\<close>: usage error\<close>
  "trace_args [] ctx = Some ctx"
| "trace_args (arg # argv) (name, t1, t2) =
     (case strchr arg CHR '':'' of
        Some i \<Rightarrow>
          let a = take i arg; sep = drop (i + 1) arg
          in trace_args argv (name, if a \<noteq> [] then strtoull0 a else t1, if sep \<noteq> [] then strtoull0 sep else t2)
      | None \<Rightarrow> if name \<noteq> None then None else trace_args argv (Some arg, t1, t2))"

definition comm_command_trace_dump ::
    "nat \<Rightarrow> nat \<Rightarrow> nat \<Rightarrow> string option \<Rightarrow> hk_ep \<Rightarrow> int \<times> string option" where
  "comm_command_trace_dump now t1 t2 out ep = (1, Option.bind out (hk_trace_dump now (ep_tr ep) t1 t2))"

definition comm_command_trace :: "string list \<Rightarrow> 'z cm \<Rightarrow> string \<Rightarrow> (int \<times> string) option" where
  "comm_command_trace argv st out_buf =
     (if 3 < length argv then Some (-1, out_buf)
      else case trace_args (tl argv) (None, 0, 0) of
        None \<Rightarrow> Some (-1, out_buf)
      | Some (name, t1, t2) \<Rightarrow>
          let ended = map_option (\<lambda>out. (0, out @ ''.'' @ [LF]))
          in (case name of
                Some name \<Rightarrow>
                  let ep = (case hk_source_retrieve_by_name name st of
                              Some i \<Rightarrow> Some (so_ep (source_at st i))
                            | None \<Rightarrow> map_option (\<lambda>k. sk_ep (sink_at st k)) (hk_sink_retrieve_by_name name st))
                  in (case ep of
                        None \<Rightarrow> Some (-1, out_buf)
                      | Some ep \<Rightarrow> ended (hk_trace_dump (tstamp st) (ep_tr ep) t1 t2 out_buf))
              | None \<Rightarrow>
                  let dump = comm_command_trace_dump (tstamp st) t1 t2
                  in ended (hk_sink_foreach dump st (hk_source_foreach dump st (Some out_buf)))))"

definition comm_command_tiles_dump :: "'z cm \<Rightarrow> string option \<Rightarrow> nat option \<Rightarrow> string option" where
  \<comment> \<open>a tile that was destroyed is a null pointer\<close>
  "comm_command_tiles_dump st out tile =
     Option.bind tile (\<lambda>t. map_option (\<lambda>out. out @ t_name (tile_at st t) @ [LF]) out)"

definition comm_command_tiles :: "'z cm \<Rightarrow> string \<Rightarrow> (int \<times> string) option" where
  "comm_command_tiles st out_buf =
     map_option (\<lambda>out. (0, out @ ''.'' @ [LF]))
       (foldl (comm_command_tiles_dump st) (Some out_buf) (tile_tab st))"

definition comm_command_ws :: "nat \<Rightarrow> build \<Rightarrow> string list \<Rightarrow> 'z cm \<times> string \<Rightarrow> ('z cm \<times> string) option" where
  \<comment> \<open>without arguments \<open>argv[0]\<close> is a null pointer\<close>
  "comm_command_ws n b argv s =
     (case s of (st, out_buf) \<Rightarrow>
        if argv = [] then None
        else if argv ! 0 = ''trace'' then map_option (\<lambda>(ret, out). (st, out)) (comm_command_trace argv st out_buf)
        else if argv ! 0 = ''tiles'' then map_option (\<lambda>(ret, out). (st, out)) (comm_command_tiles st out_buf)
        else hkcp_command (comm_call (comm_pads n)) b argv s)"

definition comm_command_stdin :: "nat \<Rightarrow> build \<Rightarrow> string list \<Rightarrow> 'z cm \<Rightarrow> ('z cm \<times> string) option" where
  \<comment> \<open>with the text written to the standard output\<close>
  "comm_command_stdin n b argv st =
     (if argv = [] then Some (sys_quit st, []) else comm_command_ws n b argv (st, []))"

definition comm_stdin_recv ::
    "nat \<Rightarrow> build \<Rightarrow> string option \<Rightarrow> 'z cm \<times> string \<Rightarrow> ('z cm \<times> string) option" where
  \<comment> \<open>\<open>command_recv\<close> on the standard input; no text: it was closed\<close>
  "comm_stdin_recv n b buf s =
     (case stdin_cmd (comm (fst s)) of
        None \<Rightarrow> None
      | Some cmd \<Rightarrow>
          (case command_recv
                  (Some (\<lambda>w argv. Option.bind w (\<lambda>(st, out). map_option (\<lambda>(st, o'). (st, out @ o'))
                     (comm_command_stdin n b (case argv of None \<Rightarrow> [] | Some a \<Rightarrow> a) st))))
                  cmd (Some s) buf of
             (ret, cmd, w) \<Rightarrow>
               map_option (\<lambda>(st, out). (st\<lparr>comm := (comm st)\<lparr>stdin_cmd := Some cmd\<rparr>\<rparr>, out)) w))"

section \<open>Commands of websocket sessions\<close>

definition upd_ws :: "(ws_server \<Rightarrow> ws_server) \<Rightarrow> 'z cm \<Rightarrow> 'z cm" where
  "upd_ws g st = st\<lparr>comm := (comm st)\<lparr>ws_srv := g (ws_srv (comm st))\<rparr>\<rparr>"

definition ws_answer :: "nat \<Rightarrow> ('z cm \<times> string) option \<Rightarrow> ('z cm) option" where
  \<comment> \<open>the output buffer of a command is the buffer of the session\<close>
  "ws_answer d r = map_option (\<lambda>(st, out). upd_ws (ws_out_append d out) st) r"

definition ws_command :: "nat \<Rightarrow> build \<Rightarrow> nat \<Rightarrow> string list \<Rightarrow> 'z cm \<Rightarrow> ('z cm) option" where
  \<comment> \<open>\<open>comm_command_ws\<close> for a session: each argument of \<open>set\<close> adds its answer, and the update of
    the sink its event, to the same buffer\<close>
  "ws_command n b d argv st =
     (if argv \<noteq> [] \<and> argv ! 0 = ''set'' then
        foldo (\<lambda>st arg. ws_answer d (hkcp_command_set_arg (comm_call (comm_pads n)) (st, []) arg)) st (tl argv)
      else ws_answer d (comm_command_ws n b argv (st, [])))"

definition ws_server_receive_event ::
    "nat \<Rightarrow> build \<Rightarrow> nat \<Rightarrow> string list \<Rightarrow> 'z cm \<Rightarrow> ('z cm) option" where
  "ws_server_receive_event n b d argv st =
     (if ws_handler (ws_srv (comm st)) then ws_command n b d argv st else Some st)"

definition ws_events_receive :: "nat \<Rightarrow> build \<Rightarrow> nat \<Rightarrow> string \<Rightarrow> 'z cm \<Rightarrow> ('z cm) option" where
  \<comment> \<open>the session \<open>d\<close> gets the text \<open>buf\<close>\<close>
  "ws_events_receive n b d buf st =
     (let st = upd_ws (ws_receive_begin (ws_pre (comm st)) d) st
      in case we_cmd (ws_pss (ws_srv (comm st)) ! d) of
           None \<Rightarrow> None
         | Some cmd \<Rightarrow>
             (case command_recv
                     (Some (\<lambda>w argv. Option.bind w
                        (ws_server_receive_event n b d (case argv of None \<Rightarrow> [] | Some a \<Rightarrow> a))))
                     cmd (Some st) (Some buf) of
                (ret, cmd, w) \<Rightarrow>
                  map_option (\<lambda>st. upd_ws (\<lambda>s. ws_receive_end d (upd_pss d (\<lambda>p. p\<lparr>we_cmd := Some cmd\<rparr>) s)) st) w))"

section \<open>The MQTT link\<close>

definition comm_mqtt_subscribe :: "hk_ep \<Rightarrow> 'z cm \<Rightarrow> 'z cm" where
  "comm_mqtt_subscribe ep st = snd (mqtt_subscribe 0 (hk_ep_get_name st ep) st)"

definition comm_mqtt_connected :: "'z cm \<Rightarrow> 'z cm" where
  "comm_mqtt_connected st =
     (let st = hk_source_foreach_public (\<lambda>st ep. comm_mqtt_publish ep st) st st
      in hk_sink_foreach_public (\<lambda>st ep. comm_mqtt_subscribe ep st) st st)"

definition comm_mqtt_update :: "nat \<Rightarrow> ('z cm) mqtt_update" where
  "comm_mqtt_update n m st =
     (case m of
        Some (name, val) \<Rightarrow> hk_sink_update_by_name (comm_call (comm_pads n)) name val st
      | None \<Rightarrow> Some (comm_mqtt_connected st))"

definition comm_mqtt_discover :: "string \<Rightarrow> string option \<Rightarrow> 'z cm \<Rightarrow> 'z cm" where
  "comm_mqtt_discover remote_ip broker st =
     (case broker of None \<Rightarrow> st | Some b \<Rightarrow> snd (mqtt_connect b st))"

section \<open>Start of the communication engine\<close>

definition HAKIT_HKCP_PORT :: int where "HAKIT_HKCP_PORT = 5678"
definition HAKIT_SHARE_DIR :: string where "HAKIT_SHARE_DIR = ''/usr/share/hakit/''"

definition comm_discover :: "adv_func \<Rightarrow> string \<Rightarrow> string option \<Rightarrow> 'z cm \<Rightarrow> 'z cm" where
  \<comment> \<open>the functions registered for the protocols that are advertised\<close>
  "comm_discover f remote_ip str st =
     (case f of Adv_hkcp_node_add \<Rightarrow> hkcp_node_add remote_ip st
              | Adv_mqtt_discover \<Rightarrow> comm_mqtt_discover remote_ip str st)"

record comm_sys =
  \<comment> \<open>what the system and the libraries answer: sockets that could be made, a websocket context\<close>
  cs_adv_fd :: "int option"
  cs_hkcp_fd :: "int option"
  cs_context :: bool

definition comm_zero :: "'z cm \<Rightarrow> 'z cm" where
  \<comment> \<open>\<open>memset\<close>\<close>
  "comm_zero st =
     st\<lparr>adv_fd := 0, adv_tag := 0, adv_handlers := [], adv_proto := 0, adv_broker := None,
        hkcp_port := 0, hkcp_srv := tcp_srv_zero, hkcp_nodes := [],
        comm := (comm st)\<lparr>use_hkcp := False, ws_srv := empty_server, stdin_cmd := None\<rparr>\<rparr>"

definition comm_failed :: "int \<Rightarrow> 'z cm \<Rightarrow> int \<times> 'z cm" where
  "comm_failed ret st = (ret, hk_endpoints_shutdown (hk_advertise_shutdown (hkcp_shutdown st)))"

definition comm_stdin_setup :: "'z cm \<Rightarrow> 'z cm" where
  "comm_stdin_setup st =
     (let st = st\<lparr>comm := (comm st)\<lparr>stdin_cmd := Some command_new\<rparr>\<rparr>
      in snd (io_channel_setup 0 0 (Some ''command_recv'') (None :: command option) st))"

definition comm_init :: "comm_sys \<Rightarrow> env_state \<Rightarrow> bool \<Rightarrow> bool \<Rightarrow> bool \<Rightarrow> 'z cm \<Rightarrow> int \<times> 'z cm" where
  \<comment> \<open>the certificates only go to the libraries\<close>
  "comm_init sys env daemon hkcp advertise st =
     (let st = hk_endpoints_init (comm_zero st)
      in case hk_advertise_init (if advertise then HAKIT_HKCP_PORT else 0) (cs_adv_fd sys) st of (ret, st) \<Rightarrow>
         if ret \<noteq> 0 then comm_failed (-1) st
         else
           let st = st\<lparr>comm := (comm st)\<lparr>use_hkcp := hkcp\<rparr>\<rparr>
           in case hkcp_init (if hkcp then HAKIT_HKCP_PORT else 0) (cs_hkcp_fd sys) st of (ret, st) \<Rightarrow>
              if ret \<noteq> 0 then comm_failed ret st
              else
                let st = (if hkcp then hk_advertise_handler ADVERTISE_PROTO_HKCP Adv_hkcp_node_add st else st)
                in case ws_server_init (cs_context sys) (ws_srv (comm st)) of (ret, server) \<Rightarrow>
                   let st = upd_ws (\<lambda>_. server) st
                   in if ret = -1 then comm_failed (-1) st
                      else
                        let st = upd_ws (ws_add_document_root
                                   (case env_devdir env None of Some path \<Rightarrow> path | None \<Rightarrow> HAKIT_SHARE_DIR)) st;
                            st = upd_ws ws_server_set_command_handler st
                        in (0, if daemon then st else comm_stdin_setup st))"

record mosq_sys =
  \<comment> \<open>results of \<open>mosquitto_lib_init\<close>, \<open>mosquitto_new\<close>, \<open>mq_open\<close> and \<open>mosquitto_loop_start\<close>\<close>
  ms_lib :: int
  ms_new :: bool
  ms_mq :: int
  ms_loop :: int

definition comm_enable_mqtt :: "mosq_sys \<Rightarrow> string option \<Rightarrow> string option \<Rightarrow> 'z cm \<Rightarrow> int \<times> 'z cm" where
  "comm_enable_mqtt sys certs mqtt_broker st =
     (if \<not> with_mqtt (comm st) then (-1, st)
      else case mqtt_init (ms_lib sys) (ms_new sys) (ms_mq sys) (ms_loop sys) certs st of (ret, st) \<Rightarrow>
        if ret \<noteq> 0 then (-1, st)
        else
          case (case mqtt_broker of
                  Some broker \<Rightarrow> mqtt_connect broker st
                | None \<Rightarrow> (0, hk_advertise_handler ADVERTISE_PROTO_MQTT Adv_mqtt_discover st)) of (ret, st) \<Rightarrow>
            if ret \<noteq> 0 then (-1, mqtt_shutdown st) else (0, hk_advertise_mqtt mqtt_broker st))"

definition comm_tile_register ::
    "nat \<Rightarrow> filesystem \<Rightarrow> (string \<Rightarrow> string option) \<Rightarrow> string \<Rightarrow> 'z cm \<Rightarrow> (int \<times> 'z cm) option" where
  "comm_tile_register n fs read_file path st =
     Option.bind (hk_tile_create fs path st)
       (\<lambda>(tile, st). case tile of
          None \<Rightarrow> Some (-1, st)
        | Some tile \<Rightarrow>
            Option.bind (hk_tile_load comm_class (comm_pads n) read_file tile st)
              (\<lambda>(ret, st).
                 if ret < 0 then map_option (\<lambda>st. (-1, st)) (hk_tile_destroy tile st)
                 else map_option
                        (\<lambda>st. (0, upd_ws (ws_add_document_root (hk_tile_rootdir tile st)) st))
                        (hk_tile_start comm_class n tile st)))"

definition comm_alias_register :: "string \<Rightarrow> string \<Rightarrow> 'z cm \<Rightarrow> int \<times> 'z cm" where
  "comm_alias_register alias dir st = (0, upd_ws (ws_alias_add (Some alias) dir) st)"

section \<open>The program on top of the MQTT client\<close>

lemma comm_order_client:
  fixes s s' :: "'z cm"
  assumes "comm_order H L n s" "client_step s s'"
  shows "comm_order H L n s'"
proof -
  have "\<exists>a b c d e. s' = s\<lparr>sources := a, last_tag := b, mqtt := c, mosq_calls := d, mq_queue := e\<rparr>"
    by (intro exI) (rule assms(2) [unfolded client_step_def])
  then obtain a b c d e where s': "s' = s\<lparr>sources := a, last_tag := b, mqtt := c, mosq_calls := d, mq_queue := e\<rparr>"
    by (elim exE)
  have f: "pads s' = pads s" "nets s' = nets s" "objs s' = objs s" "tiles s' = tiles s" "tile_tab s' = tile_tab s"
    "classes s' = classes s" "hk_sinks s' = hk_sinks s" "hk_sources s' = hk_sources s"
    by (simp_all add: s')
  have q: "shape s' = shape s" "ctxs s' = ctxs s" "states s' = states s"
    using f by (simp_all add: shape_def ctxs_def states_def)
  have w: "wf_state s" "circuit_wired s" "eps_wired H L s" "open_inputs s < n"
    using assms(1) by (simp_all add: comm_order_def comm_wired_def)
  have e: "eps_wired H L s'"
    by (rule eps_wired_step [OF w(3) q(1)]) (simp_all add: f ctx_of_def)
  have "circuit_wired s'" by (rule circuit_wired_same [OF w(2) q])
  moreover have "wf_state s'" using w(1) unfolding wf_state_def net_wf_def refs_wf_def f .
  moreover have "open_inputs s' < n" using w(4) unfolding open_inputs_def f .
  ultimately show ?thesis using e by (simp add: comm_order_def comm_wired_def)
qed

lemma connected_quiet: "ep_quiet s (comm_mqtt_connected s)"
proof -
  have sub: "ep_quiet s (comm_mqtt_subscribe ep s)" for ep and s :: "'z cm"
    by (simp add: ep_quiet_def comm_mqtt_subscribe_def mqtt_subscribe_def mosq_def client_defs)
  show ?thesis
    unfolding comm_mqtt_connected_def Let_def hk_source_foreach_public_def hk_sink_foreach_public_def
    by (rule ep_quiet_trans; rule ep_quiet_foldl) (rule ep_quiet_logs(2), rule sub)
qed

lemma comm_order_quiet:
  assumes "comm_order H L n s" "ep_quiet s s'"
  shows "comm_order H L n s' \<and> client_of s' = client_of s"
proof -
  have "comm.kept H L (client_of s) s s" using assms(1) by (simp add: comm.kept_def comm_order_def)
  from comm_kept_order [OF assms(1) comm_inv_ep [OF comm_kept_inv [OF assms(1)] this assms(2)]] show ?thesis .
qed

interpretation comm_client: mqtt_updates "comm_mqtt_update n :: ('z cm) mqtt_update" "comm_order H L n" for n H L
proof
  fix s s' :: "'z cm" and m
  show "comm_order H L n s \<Longrightarrow> client_step s s' \<Longrightarrow> comm_order H L n s'" by (rule comm_order_client)
  assume o: "comm_order H L n s"
  have "\<exists>s'. comm_mqtt_update n m s = Some s' \<and> comm_order H L n s' \<and> client_of s' = client_of s"
  proof (cases m)
    case None
    with comm_order_quiet [OF o connected_quiet] show ?thesis by (simp add: comm_mqtt_update_def)
  next
    case (Some p)
    with comm_events_ok(4) [OF o, of "fst p" "snd p"] show ?thesis by (cases p) (simp add: comm_mqtt_update_def)
  qed
  then show "\<exists>s'. comm_mqtt_update n m s = Some s' \<and> comm_order H L n s' \<and> mqtt s' = mqtt s \<and>
      mq_queue s' = mq_queue s \<and> asked s' = asked s"
    by (auto simp: client_of_def)
qed

section \<open>Properties\<close>



text \<open>
  A message that arrives when the queue is empty has exactly the effect of an update of the
  sink of that name, and this update returns.
\<close>

theorem mqtt_value_delivered:
  assumes "comm_order H L n st" "mq_queue st = []"
    and "NUL \<notin> set topic" "NUL \<notin> set payload" "length topic + length payload + 2 \<le> MSG_MAXSIZE"
  shows "\<exists>st'. hk_sink_update_by_name (comm_call (comm_pads n)) topic payload st = Some st' \<and>
    mqtt_msg_recv (comm_mqtt_update n) (mqtt_on_message topic payload st) = Some (1, st')"
proof -
  obtain st' where st': "hk_sink_update_by_name (comm_call (comm_pads n)) topic payload st = Some st'"
    using comm_events_ok(4) [OF assms(1)] by blast
  have m: "mqtt_on_message topic payload st = st\<lparr>mq_queue := [mbuf_of (topic, payload)]\<rparr>"
    using assms(2,5) by (simp add: mqtt_on_message_def mbuf_of_def MQ_MAXMSG_def)
  have same: "st\<lparr>mq_queue := []\<rparr> = st" using assms(2) by (cases st) simp
  have "mqtt_msg_recv (comm_mqtt_update n) (mqtt_on_message topic payload st) = Some (1, st')"
    using mbuf_parts [of "(topic, payload)"] assms(3,4) st' same
    by (simp add: mqtt_msg_recv_def m Let_def comm_mqtt_update_def)
  with st' show ?thesis by blast
qed

theorem mqtt_value_delivered_witness:
  "\<exists>st'. hk_sink_update_by_name (comm_call (comm_pads 2)) ''lamp'' ''1'' lamp = Some st' \<and>
    mqtt_msg_recv (comm_mqtt_update 2) (mqtt_on_message ''lamp'' ''1'' lamp) = Some (1, st')"
  by (rule mqtt_value_delivered [OF lamp_order]) (simp_all add: lamp_def MSG_MAXSIZE_def)

lemma publish_all:
  fixes st :: "'z cm"
  assumes "mq_mosq (mqtt st)" "mq_state (mqtt st) = MQTT_ST_CONNECTED"
  shows "foldl (\<lambda>st ep. comm_mqtt_publish ep st) st eps = st\<lparr>mosq_calls := mosq_calls st @
    map (\<lambda>ep. Mosq_publish (hk_ep_get_name st ep) (hk_ep_get_value ep) (mq_qos (mqtt st)) (hk_ep_flag_retain ep)) eps\<rparr>"
  using assms
proof (induction eps arbitrary: st)
  case (Cons ep eps)
  let ?s = "comm_mqtt_publish ep st"
  have s: "?s = st\<lparr>mosq_calls := mosq_calls st @
      [Mosq_publish (hk_ep_get_name st ep) (hk_ep_get_value ep) (mq_qos (mqtt st)) (hk_ep_flag_retain ep)]\<rparr>"
    using Cons.prems by (simp add: comm_mqtt_publish_def mqtt_publish_def mosq_def)
  have "foldl (\<lambda>st ep. comm_mqtt_publish ep st) ?s eps = ?s\<lparr>mosq_calls := mosq_calls ?s @
    map (\<lambda>ep. Mosq_publish (hk_ep_get_name ?s ep) (hk_ep_get_value ep) (mq_qos (mqtt ?s)) (hk_ep_flag_retain ep)) eps\<rparr>"
    by (rule Cons.IH) (use Cons.prems s in simp_all)
  then show ?case by (simp add: s hk_ep_get_name_def)
qed simp

lemma subscribe_all:
  fixes st :: "'z cm"
  assumes "mq_mosq (mqtt st)" "mq_state (mqtt st) = MQTT_ST_CONNECTED"
  shows "foldl (\<lambda>st ep. comm_mqtt_subscribe ep st) st eps = st\<lparr>mosq_calls := mosq_calls st @
    map (\<lambda>ep. Mosq_subscribe (hk_ep_get_name st ep) (mq_qos (mqtt st))) eps\<rparr>"
  using assms
proof (induction eps arbitrary: st)
  case (Cons ep eps)
  let ?s = "comm_mqtt_subscribe ep st"
  have s: "?s = st\<lparr>mosq_calls := mosq_calls st @ [Mosq_subscribe (hk_ep_get_name st ep) (mq_qos (mqtt st))]\<rparr>"
    using Cons.prems by (simp add: comm_mqtt_subscribe_def mqtt_subscribe_def mosq_def)
  have "foldl (\<lambda>st ep. comm_mqtt_subscribe ep st) ?s eps = ?s\<lparr>mosq_calls := mosq_calls ?s @
    map (\<lambda>ep. Mosq_subscribe (hk_ep_get_name ?s ep) (mq_qos (mqtt ?s))) eps\<rparr>"
    by (rule Cons.IH) (use Cons.prems s in simp_all)
  then show ?case by (simp add: s hk_ep_get_name_def)
qed simp

lemma sys_remove_endpoints [simp]:
  fixes st :: "'z cm"
  shows "hk_sources (sys_remove tag st) = hk_sources st" "hk_sinks (sys_remove tag st) = hk_sinks st"
    "objs (sys_remove tag st) = objs st"
  by (auto simp: sys_remove_def upd_source_def split: option.split)

text \<open>
  Once the broker has accepted the connection, the value of every public source is published
  with its retain flag, source after source, and then every public sink is subscribed to;
  nothing else is asked of the library.
\<close>

theorem mqtt_connection_announces:
  assumes "mq_mosq (mqtt st)"
  shows "\<exists>st'. mqtt_on_connect (comm_mqtt_update n) rc st = Some st' \<and> mq_state (mqtt st') = MQTT_ST_CONNECTED \<and>
    mosq_calls st' = mosq_calls st @
      [Mosq_publish (hk_ep_get_name st ep) (hk_ep_get_value ep) (mq_qos (mqtt st)) (hk_ep_flag_retain ep).
         ep \<leftarrow> map so_ep (hk_sources st), hk_ep_is_public (Some ep)] @
      [Mosq_subscribe (hk_ep_get_name st ep) (mq_qos (mqtt st)). ep \<leftarrow> map sk_ep (hk_sinks st), hk_ep_is_public (Some ep)]"
proof -
  let ?s = "mqtt_timeout_stop (upd_mqtt (\<lambda>m. m\<lparr>mq_state := MQTT_ST_CONNECTED\<rparr>) st)"
  have m: "mq_mosq (mqtt ?s)" "mq_state (mqtt ?s) = MQTT_ST_CONNECTED" "mq_qos (mqtt ?s) = mq_qos (mqtt st)"
    using assms by (auto simp: mqtt_timeout_stop_def Let_def)
  have f: "hk_sources ?s = hk_sources st" "hk_sinks ?s = hk_sinks st" "objs ?s = objs st"
    by (auto simp: mqtt_timeout_stop_def Let_def upd_mqtt_def)
  have p: "filter (\<lambda>ep. ep_obj ep \<noteq> None \<and> ep_flag ep AND HK_FLAG_LOCAL = 0) eps =
      filter (\<lambda>ep. hk_ep_is_public (Some ep)) eps" for eps
    by (rule filter_cong) (auto simp: hk_ep_is_public_def)
  have c: "[h ep. ep \<leftarrow> eps, hk_ep_is_public (Some ep)] = map h (filter (\<lambda>ep. hk_ep_is_public (Some ep)) eps)"
    for eps and h :: "hk_ep \<Rightarrow> mosq_call"
    by (induction eps) auto
  show ?thesis
    unfolding mqtt_on_connect_def comm_mqtt_update_def comm_mqtt_connected_def option.case Let_def
      hk_source_foreach_public_def hk_sink_foreach_public_def publish_all [OF m(1,2)] c p
    by (subst subscribe_all) (use m f in \<open>simp_all add: hk_ep_get_name_def\<close>)
qed

theorem mqtt_connection_announces_witness:
  "\<exists>st'. mqtt_on_connect (comm_mqtt_update 2) 0 (upd_mqtt (\<lambda>m. m\<lparr>mq_mosq := True\<rparr>) lamp) = Some st' \<and>
    mosq_calls st' = [Mosq_publish ''lamp'' [] 0 True, Mosq_subscribe ''lamp'' 0]"
proof -
  let ?s = "upd_mqtt (\<lambda>m. m\<lparr>mq_mosq := True\<rparr>) lamp"
  have e: "map so_ep (hk_sources ?s) = [lamp_ep HK_EP_SOURCE 1]" "map sk_ep (hk_sinks ?s) = [lamp_ep HK_EP_SINK 0]"
    "mosq_calls ?s = []" "mq_qos (mqtt ?s) = 0"
    by (simp_all add: upd_mqtt_def lamp_def mqtt_zero_def)
  have v: "hk_ep_get_name ?s (lamp_ep HK_EP_SOURCE 1) = ''lamp''" "hk_ep_get_name ?s (lamp_ep HK_EP_SINK 0) = ''lamp''"
    "hk_ep_get_value (lamp_ep HK_EP_SOURCE 1) = []" "hk_ep_flag_retain (lamp_ep HK_EP_SOURCE 1)"
    "hk_ep_is_public (Some (lamp_ep HK_EP_SOURCE 1))" "hk_ep_is_public (Some (lamp_ep HK_EP_SINK 0))"
    by (simp_all add: hk_ep_get_name_def hk_ep_get_value_def hk_ep_flag_retain_def hk_ep_is_public_def upd_mqtt_def
        lamp_def lamp_ep_def ep_zero_def obj_of_def)
  have m: "mq_mosq (mqtt ?s)" by (simp add: upd_mqtt_def)
  from mqtt_connection_announces [OF m, of 2 0, unfolded e] obtain st' where
    st': "mqtt_on_connect (comm_mqtt_update 2) 0 ?s = Some st'" and c: "mosq_calls st' = [] @
      [Mosq_publish (hk_ep_get_name ?s ep) (hk_ep_get_value ep) 0 (hk_ep_flag_retain ep).
         ep \<leftarrow> [lamp_ep HK_EP_SOURCE 1], hk_ep_is_public (Some ep)] @
      [Mosq_subscribe (hk_ep_get_name ?s ep) 0. ep \<leftarrow> [lamp_ep HK_EP_SINK 0], hk_ep_is_public (Some ep)]"
    by blast
  have "mosq_calls st' = [Mosq_publish ''lamp'' [] 0 True, Mosq_subscribe ''lamp'' 0]"
    unfolding c by (simp only: v concat.simps list.map append.simps if_True simp_thms)
  with st' show ?thesis by blast
qed

section \<open>Connections to the broker\<close>

inductive link_event :: "nat \<Rightarrow> 'z cm \<Rightarrow> 'z cm \<Rightarrow> bool" for n where
  link_broker: "mqtt_event (comm_mqtt_update n) s s' \<Longrightarrow> link_event n s s'"
| link_circuit: "comm_event n s s' \<Longrightarrow> link_event n s s'"

lemma broker_known_client: "client_of s' = client_of s \<Longrightarrow> broker_known s' \<longleftrightarrow> broker_known s"
  by (simp add: broker_known_def client_of_def)

lemma link_kept:
  assumes "link_event n s s'" "comm_order H L n s \<and> broker_known s"
  shows "comm_order H L n s' \<and> broker_known s'"
  using assms(1)
proof cases
  case link_broker
  have "comm_order H L n s" "broker_known s" using assms(2) by simp_all
  from comm_client.event_good [OF link_broker this(1)] comm_client.event_broker_known [OF link_broker this]
  show ?thesis by (rule conjI)
next
  case link_circuit
  have "comm_order H L n s' \<and> client_of s' = client_of s"
    by (rule comm_event_order [OF link_circuit conjunct1 [OF assms(2)]])
  with assms(2) show ?thesis using broker_known_client [of s' s] by blast
qed

lemma links_kept:
  assumes "(link_event n)\<^sup>*\<^sup>* s s'" "comm_order H L n s \<and> broker_known s"
  shows "comm_order H L n s' \<and> broker_known s'"
  using assms
proof (induction rule: rtranclp_induct)
  case (step t t')
  show ?case by (rule link_kept [OF step.hyps(2) step.IH [OF step.prems]])
qed simp

lemma ep_quiet_sys:
  "ep_quiet s (sys_remove tag s)" "ep_quiet s (snd (sys_timeout now delay func arg s))"
  "ep_quiet s (s\<lparr>adv_tag := t\<rparr>)"
proof -
  have u: "ep_quiet s (upd_source i g s)" for i g and s :: "'z cm"
    by (simp add: ep_quiet_def upd_source_def client_defs)
  have l: "ep_quiet s (s\<lparr>last_tag := x\<rparr>)" for x and s :: "'z cm" by (simp add: ep_quiet_def client_defs)
  show "ep_quiet s (sys_remove tag s)" by (simp add: sys_remove_def u split: option.split)
  show "ep_quiet s (snd (sys_timeout now delay func arg s))"
    by (auto simp: sys_timeout_def with_source_def sys_source_add_def Let_def u l split: option.split
        intro!: ep_quiet_trans [OF _ u])
  show "ep_quiet s (s\<lparr>adv_tag := t\<rparr>)" by (simp add: ep_quiet_def client_defs)
qed

lemma ep_quiet_adv: "ep_quiet s (hk_advertise_handler proto f s)" "ep_quiet s (hk_advertise_mqtt broker s)"
proof -
  show "ep_quiet s (hk_advertise_handler proto f s)"
    by (simp add: ep_quiet_def hk_advertise_handler_def client_defs)
  have a: "ep_quiet s (hk_advertise s)" for s :: "'a cm"
    unfolding hk_advertise_def Let_def case_prod_beta
    by (auto intro: ep_quiet_sys ep_quiet_trans [OF ep_quiet_trans [OF ep_quiet_trans [OF ep_quiet_sys(1) ep_quiet_sys(3)]
        ep_quiet_sys(2)] ep_quiet_sys(3)] ep_quiet_trans [OF ep_quiet_sys(2) ep_quiet_sys(3)]
        ep_quiet_trans [OF ep_quiet_sys(1) ep_quiet_sys(3)])
  show "ep_quiet s (hk_advertise_mqtt broker s)"
    unfolding hk_advertise_mqtt_def by (rule ep_quiet_trans [OF _ a]) (simp add: ep_quiet_def client_defs)
qed

lemma enabled_known:
  assumes "comm_order H L n s0" "mosq_calls s0 = []" "comm_enable_mqtt sys certs mqtt_broker s0 = (0, s1)"
  shows "comm_order H L n s1 \<and> broker_known s1"
proof -
  obtain ret sa where a: "mqtt_init (ms_lib sys) (ms_new sys) (ms_mq sys) (ms_loop sys) certs s0 = (ret, sa)" by fastforce
  with assms(3) have r: "ret = 0" by (auto simp: comm_enable_mqtt_def split: if_splits)
  have "client_step s0 sa" using init_client_step [of s0 "ms_lib sys" "ms_new sys" "ms_mq sys" "ms_loop sys" certs] a by simp
  then have ka: "comm_order H L n sa \<and> broker_known sa"
    using comm_order_client [OF assms(1)] init_broker_known [OF a [unfolded r] assms(2)] by blast
  have q: "comm_order H L n s' \<and> broker_known s'" if "ep_quiet s s'" "comm_order H L n s \<and> broker_known s" for s s' :: "'a cm"
    using comm_order_quiet [of H L n s s'] broker_known_client [of s' s] that by simp
  show ?thesis
  proof (cases mqtt_broker)
    case None
    with assms(3) a r have "s1 = hk_advertise_mqtt None (hk_advertise_handler ADVERTISE_PROTO_MQTT Adv_mqtt_discover sa)"
      by (auto simp: comm_enable_mqtt_def split: if_splits)
    with q [OF ep_quiet_adv(2) q [OF ep_quiet_adv(1) ka]] show ?thesis by simp
  next
    case (Some broker)
    obtain rb sb where b: "mqtt_connect broker sa = (rb, sb)" by fastforce
    with Some assms(3) a r have s1: "s1 = hk_advertise_mqtt mqtt_broker sb"
      by (auto simp: comm_enable_mqtt_def split: if_splits)
    have "comm_order H L n sb \<and> broker_known sb"
      using link_kept [OF link_broker [OF ev_connect [OF b]] ka] .
    from q [OF ep_quiet_adv(2) this] s1 show ?thesis by simp
  qed
qed


definition mqtt_lamp :: "(ep_ctx hk_ctx, ep_handler) comm_state" where
  "mqtt_lamp = lamp\<lparr>sources := [sys_source_clear, sys_source_clear], comm := (comm lamp)\<lparr>with_mqtt := True\<rparr>\<rparr>"

definition lamp_enabled :: "(ep_ctx hk_ctx, ep_handler) comm_state" where
  "lamp_enabled = snd (comm_enable_mqtt \<lparr>ms_lib = 0, ms_new = True, ms_mq = 3, ms_loop = 0\<rparr> None (Some ''box'') mqtt_lamp)"

definition lamp_asked :: "(ep_ctx hk_ctx, ep_handler) comm_state" where
  "lamp_asked = snd (the (mqtt_connect_now 0 lamp_enabled))"

definition lamp_linked :: "(ep_ctx hk_ctx, ep_handler) comm_state" where
  "lamp_linked = the (mqtt_on_connect (comm_mqtt_update 2) 0 lamp_asked)"

lemma lamp_links: "(link_event 2)\<^sup>*\<^sup>* lamp_enabled lamp_linked"
proof -
  have "mq_timeout_tag (mqtt lamp_enabled) \<noteq> 0" by code_simp
  moreover have "mqtt_connect_now 0 lamp_enabled = Some (0, lamp_asked)"
  proof -
    have "mq_broker (mqtt lamp_enabled) = Some ''box''" by code_simp
    from connect_now_effect [OF this, of 0] show ?thesis by (auto simp: lamp_asked_def)
  qed
  ultimately have 1: "link_event 2 lamp_enabled lamp_asked" by (intro link_broker ev_timer)
  have "asked lamp_asked"
  proof -
    have "Mosq_connect_async ''box'' 1883 \<in> set (mosq_calls lamp_asked)" by code_simp
    then show ?thesis unfolding asked_def by blast
  qed
  moreover have "mqtt_on_connect (comm_mqtt_update 2) 0 lamp_asked = Some lamp_linked"
    by (simp add: lamp_linked_def mqtt_on_connect_def comm_mqtt_update_def)
  ultimately have "link_event 2 lamp_asked lamp_linked" by (intro link_broker ev_up)
  with 1 show ?thesis by (meson rtranclp.simps)
qed


section \<open>Values from websocket sessions\<close>

lemma ws_answer_nothing: "ws_answer d (map_option (\<lambda>st. (st, [])) r) = r"
proof -
  have "ws_out_append d [] server = server" for server
    by (cases server) (simp add: ws_out_append_def upd_pss_def map_nth_def)
  moreover have "upd_ws (\<lambda>s. s) st = st" for st :: "'a cm"
    by (cases st) (simp add: upd_ws_def)
  ultimately have "upd_ws (ws_out_append d []) st = st" for st :: "'a cm" by (simp add: upd_ws_def)
  then show ?thesis by (cases r) (simp_all add: ws_answer_def)
qed

text \<open>
  A line \<open>set name=value\<close> that a websocket session sends has exactly the effect of an
  update of the sink of that name, and the update returns: the session gets the event of the
  update like the others, and no answer of its own.
\<close>

theorem ws_value_delivered:
  assumes "comm_order H L n st" "ws_handler (ws_srv (comm st))"
    and "we_cmd (ws_pss (ws_srv (comm st)) ! d) = Some cmd" "cmd_line cmd = []" "d < length (ws_pss (ws_srv (comm st)))"
    and "plain (name @ ''='' @ val)" "CHR ''='' \<notin> set name" "hk_sink_retrieve_by_name name st \<noteq> None"
  shows "\<exists>st'. hk_sink_update_by_name (comm_call (comm_pads n)) name val
        (upd_ws (ws_receive_begin (ws_pre (comm st)) d) st) = Some st' \<and>
      ws_events_receive n b d (''set '' @ name @ ''='' @ val @ [LF]) st =
        Some (upd_ws (\<lambda>s. ws_receive_end d (upd_pss d (\<lambda>p. p\<lparr>we_cmd := Some cmd\<rparr>) s)) st')"
proof -
  let ?s = "upd_ws (ws_receive_begin (ws_pre (comm st)) d) st"
  let ?arg = "name @ ''='' @ val"
  let ?f = "\<lambda>w argv. Option.bind w (ws_server_receive_event n b d (case argv of None \<Rightarrow> [] | Some a \<Rightarrow> a))"
  have q: "ep_quiet st ?s" by (simp add: ep_quiet_def upd_ws_def client_defs)
  obtain st' where u: "hk_sink_update_by_name (comm_call (comm_pads n)) name val ?s = Some st'"
    using comm_events_ok(4) [OF conjunct1 [OF comm_order_quiet [OF assms(1) q]]] by blast
  obtain k where k: "hk_sink_retrieve_by_name name ?s = Some k"
    using assms(8)
    by (auto simp: upd_ws_def hk_sink_retrieve_by_name_def hk_sink_retrieve_by_full_name_def split_full_name_def
        ep_matches_def hk_ep_get_name_def hk_ep_get_tile_name_def)
  have cmd: "we_cmd (ws_pss (ws_srv (comm ?s)) ! d) = Some cmd" "ws_handler (ws_srv (comm ?s))"
    using assms(2,3,5) by (simp_all add: upd_ws_def ws_receive_begin_def upd_pss_def)
  have lf: "LF \<notin> set (''set '' @ ?arg)"
    using assms(6) is_graph_LF(1) unfolding plain_def by (auto simp del: is_graph_LF)
  have recv: "command_recv (Some ?f) cmd (Some ?s) (Some (''set '' @ ?arg @ [LF])) =
      (1, cmd, ?f (Some ?s) (Some [''set'', ?arg]))"
    unfolding command_recv_def
    using command_bytes_segment [OF lf, of "Some ?f" cmd "Some ?s"] assms(4) str_argv_set [OF assms(6)]
    by (simp add: command_loop_bytes command_byte_LF command_dispatch_def)
  have "strchr ?arg CHR ''='' = Some (length name)" using strchr_append [OF assms(7), of val] by simp
  then have set: "hkcp_command_set_arg (comm_call (comm_pads n)) (?s, []) ?arg = map_option (\<lambda>st. (st, [])) (Some st')"
    using k u by (simp add: hkcp_command_set_arg_def hk_sink_update_by_name_def)
  have "?f (Some ?s) (Some [''set'', ?arg]) = Some st'"
    using cmd(2) by (simp add: ws_server_receive_event_def ws_command_def set [simplified] ws_answer_nothing [of d "Some st'", simplified])
  with recv u cmd(1) show ?thesis by (simp add: ws_events_receive_def)
qed

definition ws_lamp :: "(ep_ctx hk_ctx, ep_handler) comm_state" where
  \<comment> \<open>a session is open\<close>
  "ws_lamp = upd_ws (\<lambda>s. snd (ws_events_established True (ws_server_set_command_handler s))) lamp"

theorem ws_value_delivered_witness:
  "ws_events_receive 2 \<lparr>b_version = [], b_arch = [], b_t0 = 0\<rparr> 0 (''set '' @ ''lamp'' @ ''='' @ ''1'' @ [LF]) ws_lamp \<noteq> None"
proof -
  let ?srv = "ws_srv (comm ws_lamp)"
  have q: "ep_quiet lamp ws_lamp" by (simp add: ep_quiet_def ws_lamp_def upd_ws_def client_defs)
  have o: "comm_order [[Some (Sink_event 0), Some Comm_ws_send]] [[0]] 2 ws_lamp"
    using comm_order_quiet [OF lamp_order q] by blast
  have s: "ws_handler ?srv" "0 < length (ws_pss ?srv)" by code_simp+
  have c: "we_cmd (ws_pss ?srv ! 0) = Some command_new" by code_simp
  have l: "cmd_line command_new = []" by (simp add: command_new_def)
  have p: "plain (''lamp'' @ ''='' @ ''1'')" by (simp add: plain_def is_graph_def cval_def)
  have e: "CHR ''='' \<notin> set ''lamp''" by simp
  have r: "hk_sink_retrieve_by_name ''lamp'' ws_lamp \<noteq> None"
    by (simp add: ws_lamp_def upd_ws_def lamp_def hk_sink_retrieve_by_name_def split_full_name_def
        hk_sink_retrieve_by_full_name_def ep_matches_def hk_ep_get_name_def lamp_ep_def ep_zero_def obj_of_def strrchr_def)
  from ws_value_delivered [OF o s(1) c l s(2) p e r] show ?thesis by blast
qed

end
