(* ===== verification/Hk_Main.thy ===== *)
theory Hk_Main
  imports Hk_CommCmd Hk_Options
begin

text \<open>
  The programs \<^verbatim>\<open>main/hakit-engine.c\<close> and \<^verbatim>\<open>main/hakit-client.c\<close>: the engine from its
  command line to the event loop, and the client that copies lines between the standard streams
  and an HKCP server.
\<close>

section \<open>The engine\<close>

record engine_sys =
  \<comment> \<open>the files, sockets and libraries around the engine\<close>
  es_glob :: "string \<Rightarrow> string list option"
  es_conf :: "string \<rightharpoonup> string"
  es_os :: env_os
  es_comm :: comm_sys
  es_mosq :: mosq_sys
  es_classes :: class_files
  es_static :: "string list" \<comment> \<open>\<open>static_classes\<close>, made by the build\<close>
  es_fs :: filesystem
  es_read :: "string \<Rightarrow> string option"
  es_b64 :: "string \<Rightarrow> string"
  es_auth :: "bool \<times> string list option"

datatype 's engine_end = Engine_exit int | Engine_runs ws_auth 's

function engine_aliases :: "string option \<Rightarrow> 'z cm \<Rightarrow> 'z cm" where
  \<comment> \<open>\<open>ALIAS=DIR,...\<close>\<close>
  "engine_aliases None st = st"
| "engine_aliases (Some s) st =
     (let (alias, sep) = (case strchr s CHR '','' of
                            None \<Rightarrow> (s, None) | Some i \<Rightarrow> (take i s, Some (drop (i + 1) s)));
          st = (case strchr alias CHR ''='' of
                  None \<Rightarrow> st
                | Some i \<Rightarrow> snd (comm_alias_register (take i alias) (drop (i + 1) alias) st))
      in engine_aliases sep st)"
  by pat_completeness auto
termination
  by (relation "measure (\<lambda>(s, st). case s of None \<Rightarrow> 0 | Some s \<Rightarrow> Suc (length s))")
    (auto split: option.splits dest!: strchr_SomeD)

fun engine_tiles ::
    "nat \<Rightarrow> filesystem \<Rightarrow> (string \<Rightarrow> string option) \<Rightarrow> string list \<Rightarrow> 'z cm \<Rightarrow> (bool \<times> 'z cm) option" where
  \<comment> \<open>the tiles of the command line; false: one was refused\<close>
  "engine_tiles n fs read_file [] st = Some (True, st)"
| "engine_tiles n fs read_file (path # paths) st =
     Option.bind (comm_tile_register n fs read_file path st)
       (\<lambda>(ret, st). if ret < 0 then Some (False, st) else engine_tiles n fs read_file paths st)"

definition engine_boot ::
    "nat \<Rightarrow> engine_sys \<Rightarrow> string list \<Rightarrow> opt_vars \<Rightarrow> ws_auth \<Rightarrow> 'z cm \<Rightarrow> (('z cm) engine_end) option" where
  \<comment> \<open>\<open>main\<close> once the options are known\<close>
  "engine_boot n sys argv v auth st =
     Option.bind (env_init (es_os sys) (hd argv) env_none)
       (\<lambda>env.
          let st = st\<lparr>opt_full_name := ov_int v 4 \<noteq> 0\<rparr>
          in case comm_init (es_comm sys) env False (ov_int v 2 = 0) (ov_int v 1 = 0) st of (ret, st) \<Rightarrow>
             if ret \<noteq> 0 then Some (Engine_exit 2)
             else
               case (if ov_int v 7 = 0
                     then comm_enable_mqtt (es_mosq sys) (opt_text (ov_str v 1)) (opt_text (ov_str v 4)) st
                     else (0, st)) of (ret, st) \<Rightarrow>
               if ret \<noteq> 0 then Some (Engine_exit 2)
               else
                 let st = hk_endpoints_set_trace_depth (ov_int v 3) st;
                     auth = (case opt_text (ov_str v 2) of
                               None \<Rightarrow> auth
                             | Some file \<Rightarrow> snd (ws_auth_init (es_b64 sys) (fst (es_auth sys)) (snd (es_auth sys)) auth));
                     st = engine_aliases (opt_text (ov_str v 3)) st;
                     st = foldl (\<lambda>st c. snd (hk_class_register c st)) st (es_static sys);
                     st = hk_mod_init (es_classes sys) env (opt_text (ov_str v 0)) st
                 in map_option (\<lambda>(ok, st). if ok then Engine_runs auth st else Engine_exit 3)
                      (engine_tiles n (es_fs sys) (es_read sys) (tl argv) st))"

definition engine_main ::
    "nat \<Rightarrow> engine_sys \<Rightarrow> string list \<Rightarrow> ws_auth \<Rightarrow> 'z cm \<Rightarrow> (('z cm) engine_end) option" where
  "engine_main n sys argv auth st =
     Option.bind (options_parse (es_glob sys) (es_conf sys) engine_options (Some ''engine*'') argv None engine_vars)
       (\<lambda>(conf_dir, r). case r of
          Help_exit \<Rightarrow> Some (Engine_exit 1)
        | Parsed argv v \<Rightarrow> engine_boot n sys argv v auth st)"

section \<open>The client\<close>

definition client_options :: "options_entry list" where
  \<comment> \<open>integer: \<open>opt_debug\<close>; string: \<open>opt_certs\<close>\<close>
  "client_options =
     [opt_entry ''debug'' (CHR ''d'') 0 OPTIONS_TYPE_INT 0 (Some ''N''),
      opt_entry ''certs'' (CHR ''e'') 0 OPTIONS_TYPE_STRING 0 (Some ''DIR'')]"

record client_state = "(string, nat) sys_state" +
  cl_sock :: "unit tcp_sock"
  tcp_buf :: string
  cl_stdout :: string

definition tcp_recv_line :: "string \<Rightarrow> client_state \<Rightarrow> client_state" where
  \<comment> \<open>printed as a C string\<close>
  "tcp_recv_line str st = st\<lparr>cl_stdout := cl_stdout st @ cstr str @ [LF]\<rparr>"

definition client_line :: "string \<Rightarrow> client_state \<Rightarrow> client_state" where
  \<comment> \<open>the end of a line, after what is buffered\<close>
  "client_line seg st =
     (let line = tcp_buf st @ seg; st = st\<lparr>tcp_buf := []\<rparr>
      in if line \<noteq> [] then tcp_recv_line line st else st)"

function tcp_recv :: "string \<Rightarrow> client_state \<Rightarrow> client_state" where
  "tcp_recv rest st =
     (if rest = [] then st
      else
        let seg = takeWhile (\<lambda>c. c \<noteq> LF) rest
        in case dropWhile (\<lambda>c. c \<noteq> LF) rest of
             [] \<Rightarrow> st\<lparr>tcp_buf := tcp_buf st @ seg\<rparr>
           | _ # after \<Rightarrow> tcp_recv after (client_line seg st))"
  by pat_completeness auto
termination
proof (relation "measure (\<lambda>(rest, st). length rest)", goal_cases)
  case (2 rest st seg c after)
  then show ?case using length_dropWhile_le [of "\<lambda>c. c \<noteq> LF" rest] by (simp del: length_dropWhile_le)
qed simp

declare tcp_recv.simps [simp del]

definition tcp_event :: "tcp_io \<Rightarrow> client_state \<Rightarrow> client_state" where
  "tcp_event io st =
     (case io of
        TCP_IO_CONNECT addr \<Rightarrow> st
      | TCP_IO_DATA rbuf \<Rightarrow> tcp_recv rbuf st
      | TCP_IO_HUP \<Rightarrow> sys_quit st)"

definition client_stdin_recv :: "string option \<Rightarrow> client_state \<Rightarrow> int \<times> client_state" where
  "client_stdin_recv buf st =
     (case buf of
        None \<Rightarrow> (0, sys_quit st)
      | Some s \<Rightarrow> (case tcp_sock_write s (cl_sock st, st) of (sock, st) \<Rightarrow> (1, st\<lparr>cl_sock := sock\<rparr>)))"

definition client_target :: "string list \<Rightarrow> (string \<times> int) option" where
  \<comment> \<open>host and port of the arguments; none: usage\<close>
  "client_target argv =
     (case tl argv of
        [] \<Rightarrow> None
      | host # rest \<Rightarrow> Some (host, case rest of [] \<Rightarrow> 5678 | port # _ \<Rightarrow> atoi port))"

datatype client_end = Client_exit int | Client_runs client_state

definition client_main ::
    "(string \<Rightarrow> string list option) \<Rightarrow> (string \<rightharpoonup> string) \<Rightarrow> (string \<Rightarrow> int \<Rightarrow> int option) \<Rightarrow> string list
      \<Rightarrow> client_state \<Rightarrow> client_end option" where
  \<comment> \<open>\<open>connect\<close>: the descriptor of a connection to a host and port, if there is one\<close>
  "client_main glob files connect argv st =
     map_option
       (\<lambda>(conf_dir, r). case r of
          Help_exit \<Rightarrow> Client_exit 1
        | Parsed argv v \<Rightarrow>
            (case client_target argv of
               None \<Rightarrow> Client_exit 1
             | Some (host, port) \<Rightarrow>
                 (case tcp_sock_connect (connect host port) 0 (Some ''tcp_event'') None (cl_sock st, st\<lparr>tcp_buf := []\<rparr>) of
                    (ret, sock, st) \<Rightarrow>
                      let st = st\<lparr>cl_sock := sock\<rparr>
                      in if ret < 0 then Client_exit 2
                         else Client_runs (snd (io_channel_setup 1 0 (Some ''stdin_recv'') (None :: unit option) st)))))
       (options_parse glob files client_options (Some ''engine'') argv None engine_vars)"

lemma tcp_recv_byte:
  "tcp_recv (c # cs) st =
     tcp_recv cs (if c = LF then client_line [] st else st\<lparr>tcp_buf := tcp_buf st @ [c]\<rparr>)"
proof (cases "c = LF")
  case False
  then show ?thesis
    by (cases "cs = []"; cases "dropWhile (\<lambda>c. c \<noteq> LF) cs")
      (simp_all add: tcp_recv.simps [of "c # cs"] tcp_recv.simps [of cs] tcp_recv.simps [of "[]"] tcp_recv.simps [of "[c]"]
        client_line_def del: dropWhile_eq_Nil_conv)
qed (simp add: tcp_recv.simps [of "LF # cs"])

lemma tcp_recv_append: "tcp_recv (a @ b) st = tcp_recv b (tcp_recv a st)"
  by (induction a arbitrary: st) (simp_all add: tcp_recv_byte tcp_recv.simps [of "[]"])

lemma tcp_recv_seg: "LF \<notin> set l \<Longrightarrow> tcp_recv l st = st\<lparr>tcp_buf := tcp_buf st @ l\<rparr>"
  by (induction l arbitrary: st) (auto simp: tcp_recv_byte tcp_recv.simps [of "[]"])

interpretation client: line_reader "\<lambda>st s. tcp_recv s st" client_line tcp_buf
proof unfold_locales
  fix s l
  show "tcp_recv (a @ b) s = tcp_recv b (tcp_recv a s)" for a b by (rule tcp_recv_append)
  show "tcp_buf s = [] \<Longrightarrow> LF \<notin> set l \<Longrightarrow> tcp_recv (l @ [LF]) s = client_line l s"
    by (simp add: tcp_recv_append tcp_recv_seg tcp_recv_byte tcp_recv.simps [of "[]"] client_line_def)
  show "tcp_buf s = [] \<Longrightarrow> tcp_buf (client_line l s) = []"
    by (simp add: client_line_def tcp_recv_line_def Let_def)
qed

lemma client_lines:
  "tcp_buf st = [] \<Longrightarrow> foldl (\<lambda>st l. client_line l st) st ls =
     st\<lparr>cl_stdout := cl_stdout st @ concat (map (\<lambda>l. cstr l @ [LF]) (filter (\<lambda>l. l \<noteq> []) ls))\<rparr>"
  by (induction ls arbitrary: st) (simp_all add: client_line_def tcp_recv_line_def)

text \<open>
  The client prints every line the server sends, once, in order and without the empty ones,
  however the network cuts the stream: the line up to its first NUL.
\<close>

theorem client_prints_lines:
  assumes "tcp_buf st = []" "\<forall>l\<in>set ls. LF \<notin> set l" "concat cs = concat (map (\<lambda>l. l @ [LF]) ls)" "ls \<noteq> []"
  shows "foldl (\<lambda>st c. tcp_event (TCP_IO_DATA c) st) st cs =
    st\<lparr>cl_stdout := cl_stdout st @ concat (map (\<lambda>l. cstr l @ [LF]) (filter (\<lambda>l. l \<noteq> []) ls))\<rparr>"
proof -
  have "cs \<noteq> []" using assms(3,4) by (cases ls) auto
  from client.recv_chunks [OF this] client.recv_lines [OF assms(1,2,4)] client_lines [OF assms(1)]
  show ?thesis by (simp add: tcp_event_def assms(3))
qed

definition client_zero :: client_state where
  "client_zero = \<lparr>sources = [], last_tag = 0, quit_requested = False, cl_sock = tcp_sock_zero, tcp_buf = [], cl_stdout = []\<rparr>"

theorem client_prints_lines_witness:
  "cl_stdout (foldl (\<lambda>st c. tcp_event (TCP_IO_DATA c) st) client_zero [''a='', ''1'' @ [LF, LF, CHR ''b''], [LF]]) =
    ''a=1'' @ [LF] @ ''b'' @ [LF]"
proof -
  have "foldl (\<lambda>st c. tcp_event (TCP_IO_DATA c) st) client_zero [''a='', ''1'' @ [LF, LF, CHR ''b''], [LF]] =
    client_zero\<lparr>cl_stdout := cl_stdout client_zero @
      concat (map (\<lambda>l. cstr l @ [LF]) (filter (\<lambda>l. l \<noteq> []) [''a=1'', [], ''b'']))\<rparr>"
    by (rule client_prints_lines) (simp_all add: client_zero_def)
  then show ?thesis by (simp add: client_zero_def cstr_def)
qed

end
