(* ===== verification/Hk_Proc.thy ===== *)
theory Hk_Proc
  imports Hk_Io Hk_Mod
begin

text \<open>
  \<^verbatim>\<open>os/linux/proc.c\<close>: child processes, their output and their end. What the system does is part
  of the state: the outcomes of the next starts, the processes a signal can reach, the commands run, the signals sent and the
  data written. The child's side of \<open>fork\<close> is not modelled. The owner of a
  process gets its output and its end through callbacks (\<open>proc_calls\<close>), which run on the whole
  state; an operation ends with a state, or the program ends: \<open>Inl (Some code)\<close> is an exit,
  \<open>Inl None\<close> an undefined access or a callback that does not return.
\<close>

section \<open>Endings\<close>

type_synonym 's ends = "int option + 's"

definition go :: "'s ends \<Rightarrow> ('s \<Rightarrow> 't ends) \<Rightarrow> 't ends" where
  "go r f = (case r of Inl e \<Rightarrow> Inl e | Inr s \<Rightarrow> f s)"

lemma go_simps [simp]: "go (Inl e) f = Inl e" "go (Inr s) f = f s"
  by (simp_all add: go_def)

fun go_all :: "('a \<Rightarrow> 's \<Rightarrow> 's ends) \<Rightarrow> 'a list \<Rightarrow> 's \<Rightarrow> 's ends" where
  "go_all f [] s = Inr s"
| "go_all f (x # xs) s = go (f x s) (go_all f xs)"

section \<open>State\<close>

datatype hk_proc_state_t = HK_PROC_ST_FREE | HK_PROC_ST_RUN | HK_PROC_ST_KILL

record 'f hk_proc =
  pr_state :: hk_proc_state_t
  pr_pid :: int
  pr_stdin_fd :: int
  pr_stdout :: "unit io_channel"
  pr_stderr :: "unit io_channel"
  pr_sigchld_tag :: sys_tag
  pr_timeout_tag :: sys_tag
  pr_cb_stdout :: "'f option"
  pr_cb_stderr :: "'f option"
  pr_cb_term :: "'f option"
  pr_user_data :: nat

record proc_fork =
  \<comment> \<open>a start that succeeds: the child, and the local ends of its pipes\<close>
  fk_pid :: int
  fk_in :: int
  fk_out :: int
  fk_err :: int

datatype signal = SIGTERM | SIGKILL

record ('c, 'f) proc_state = "'c hk_state" +
  procs :: "'f hk_proc list"
  forks :: "proc_fork option list"
  alive :: "int list"
  execs :: "(int \<times> string list) list"
  kills :: "(int \<times> signal) list"
  writes :: "(int \<times> string) list"

type_synonym ('c, 'f, 'z) prs = "('c, 'f, 'z) proc_state_scheme"

record ('f, 's) proc_calls =
  \<comment> \<open>output and end, for the data of the owner\<close>
  pc_output :: "'f \<Rightarrow> nat \<Rightarrow> string \<Rightarrow> 's \<Rightarrow> 's ends"
  pc_term :: "'f \<Rightarrow> nat \<Rightarrow> int \<Rightarrow> 's \<Rightarrow> 's ends"

abbreviation proc_at :: "('c, 'f, 'z) prs \<Rightarrow> nat \<Rightarrow> 'f hk_proc" where "proc_at st k \<equiv> procs st ! k"

definition upd_proc :: "nat \<Rightarrow> ('f hk_proc \<Rightarrow> 'f hk_proc) \<Rightarrow> ('c, 'f, 'z) prs \<Rightarrow> ('c, 'f, 'z) prs" where
  "upd_proc k g st = st\<lparr>procs := map_nth k g (procs st)\<rparr>"

definition hk_proc_zero :: "'f hk_proc" where
  \<comment> \<open>\<open>memset\<close>, and no input\<close>
  "hk_proc_zero = \<lparr>pr_state = HK_PROC_ST_FREE, pr_pid = 0, pr_stdin_fd = -1,
     pr_stdout = io_channel_clear\<lparr>ch_fd := 0\<rparr>, pr_stderr = io_channel_clear\<lparr>ch_fd := 0\<rparr>, pr_sigchld_tag = 0,
     pr_timeout_tag = 0, pr_cb_stdout = None, pr_cb_stderr = None, pr_cb_term = None, pr_user_data = 0\<rparr>"

section \<open>Operations\<close>

definition out_ref :: "nat \<Rightarrow> nat" where "out_ref k = 2 * k + 1" \<comment> \<open>its output channel\<close>
definition err_ref :: "nat \<Rightarrow> nat" where "err_ref k = 2 * k + 2"

definition hk_proc_find_free :: "('c, 'f, 'z) prs \<Rightarrow> nat option" where
  "hk_proc_find_free st = find_index (\<lambda>p. pr_state p = HK_PROC_ST_FREE) (procs st)"

definition hk_proc_add :: "('c, 'f, 'z) prs \<Rightarrow> nat \<times> ('c, 'f, 'z) prs" where
  "hk_proc_add st =
     (let st = (if procs st = [] then snd (sys_quit_handler (Some ''hk_proc_quit'') None st) else st)
      in case hk_proc_find_free st of
           Some k \<Rightarrow> (k, upd_proc k (\<lambda>_. hk_proc_zero) st)
         | None \<Rightarrow> (length (procs st), st\<lparr>procs := procs st @ [hk_proc_zero]\<rparr>))"

definition hk_proc_remove :: "nat \<Rightarrow> ('c, 'f, 'z) prs \<Rightarrow> ('c, 'f, 'z) prs" where
  "hk_proc_remove k = upd_proc k (\<lambda>p. p\<lparr>pr_state := HK_PROC_ST_FREE\<rparr>)"

definition hk_proc_timeout_cancel :: "nat \<Rightarrow> ('c, 'f, 'z) prs \<Rightarrow> ('c, 'f, 'z) prs" where
  "hk_proc_timeout_cancel k st =
     (let tag = pr_timeout_tag (proc_at st k)
      in if tag \<noteq> 0 then upd_proc k (\<lambda>p. p\<lparr>pr_timeout_tag := 0\<rparr>) (sys_remove tag st) else st)"

definition hk_proc_timeout :: "64 word \<Rightarrow> string \<Rightarrow> nat \<Rightarrow> ('c, 'f, 'z) prs \<Rightarrow> ('c, 'f, 'z) prs" where
  \<comment> \<open>\<open>proc->timeout_tag = sys_timeout (delay, func, proc)\<close>\<close>
  "hk_proc_timeout delay func k st =
     (case sys_timeout (hk_clock st) delay (Some func) (Some k) st of
        (tag, st) \<Rightarrow> upd_proc k (\<lambda>p. p\<lparr>pr_timeout_tag := tag\<rparr>) st)"

definition hk_proc_term :: "nat \<Rightarrow> ('c, 'f, 'z) prs \<Rightarrow> ('c, 'f, 'z) prs" where
  "hk_proc_term k st =
     (let st = upd_proc k (\<lambda>p. p\<lparr>pr_cb_stdout := None, pr_cb_stderr := None, pr_cb_term := None\<rparr>) st;
          (out, st) = io_channel_close (pr_stdout (proc_at st k)) st;
          (err, st) = io_channel_close (pr_stderr (proc_at st k)) st;
          st = upd_proc k (\<lambda>p. p\<lparr>pr_stdout := out, pr_stderr := err\<rparr>) st;
          tag = pr_sigchld_tag (proc_at st k);
          st = (if tag \<noteq> 0 then upd_proc k (\<lambda>p. p\<lparr>pr_sigchld_tag := 0\<rparr>) (sys_remove tag st) else st);
          st = hk_proc_timeout_cancel k st
      in upd_proc k (\<lambda>p. if 0 < pr_stdin_fd p then p\<lparr>pr_stdin_fd := -1\<rparr> else p) st)"

definition hk_proc_kill :: "int \<Rightarrow> signal \<Rightarrow> ('c, 'f, 'z) prs \<Rightarrow> bool \<times> ('c, 'f, 'z) prs" where
  \<comment> \<open>\<open>kill\<close>: only a process that is there gets the signal\<close>
  "hk_proc_kill pid sig st =
     (if pid \<in> set (alive st) then (True, st\<lparr>kills := kills st @ [(pid, sig)]\<rparr>) else (False, st))"

definition call_term ::
    "('f, ('c, 'f, 'z) prs) proc_calls \<Rightarrow> nat \<Rightarrow> int \<Rightarrow> ('c, 'f, 'z) prs \<Rightarrow> (('c, 'f, 'z) prs) ends" where
  \<comment> \<open>\<open>cb_term\<close>, if there is one\<close>
  "call_term calls k status st =
     (case pr_cb_term (proc_at st k) of
        None \<Rightarrow> Inr st
      | Some f \<Rightarrow> pc_term calls f (pr_user_data (proc_at st k)) status st)"

definition hk_proc_stop ::
    "('f, ('c, 'f, 'z) prs) proc_calls \<Rightarrow> nat \<Rightarrow> ('c, 'f, 'z) prs \<Rightarrow> (('c, 'f, 'z) prs) ends" where
  "hk_proc_stop calls k st =
     (if pr_state (proc_at st k) = HK_PROC_ST_RUN then
        let st = upd_proc k (\<lambda>p. p\<lparr>pr_state := HK_PROC_ST_KILL\<rparr>) st
        in case hk_proc_kill (pr_pid (proc_at st k)) SIGTERM st of
             (True, st) \<Rightarrow> Inr (hk_proc_timeout 1000 ''hk_proc_kill_timeout'' k st)
           | (False, st) \<Rightarrow> go (call_term calls k (-1) st) (\<lambda>st. Inr (hk_proc_remove k (hk_proc_term k st)))
      else Inr st)"

definition hk_proc_quit :: "('f, ('c, 'f, 'z) prs) proc_calls \<Rightarrow> ('c, 'f, 'z) prs \<Rightarrow> (int \<times> ('c, 'f, 'z) prs) ends" where
  "hk_proc_quit calls st =
     go (go_all (hk_proc_stop calls) [0..<length (procs st)] st) (\<lambda>st. Inr (0, st))"

definition hk_proc_kill_timeout :: "nat \<Rightarrow> ('c, 'f, 'z) prs \<Rightarrow> int \<times> ('c, 'f, 'z) prs" where
  "hk_proc_kill_timeout k st =
     (let st = upd_proc k (\<lambda>p. p\<lparr>pr_timeout_tag := 0\<rparr>) st;
          st = snd (hk_proc_kill (pr_pid (proc_at st k)) SIGKILL st)
      in (0, hk_proc_remove k (hk_proc_term k st)))"

definition hk_proc_hangup_timeout ::
    "('f, ('c, 'f, 'z) prs) proc_calls \<Rightarrow> nat \<Rightarrow> ('c, 'f, 'z) prs \<Rightarrow> (int \<times> ('c, 'f, 'z) prs) ends" where
  "hk_proc_hangup_timeout calls k st =
     go (hk_proc_stop calls k (upd_proc k (\<lambda>p. p\<lparr>pr_timeout_tag := 0\<rparr>) st)) (\<lambda>st. Inr (0, st))"

definition hk_proc_stdout ::
    "('f, ('c, 'f, 'z) prs) proc_calls \<Rightarrow> nat \<Rightarrow> string option \<Rightarrow> ('c, 'f, 'z) prs \<Rightarrow> (('c, 'f, 'z) prs) ends" where
  \<comment> \<open>no text: the end of the output. Output without a callback is only logged.\<close>
  "hk_proc_stdout calls k buf st =
     (case buf of
        Some text \<Rightarrow>
          (case pr_cb_stdout (proc_at st k) of
             None \<Rightarrow> Inr st | Some f \<Rightarrow> pc_output calls f (pr_user_data (proc_at st k)) text st)
      | None \<Rightarrow> Inr (hk_proc_timeout 100 ''hk_proc_hangup_timeout'' k (hk_proc_timeout_cancel k st)))"

definition hk_proc_stderr ::
    "('f, ('c, 'f, 'z) prs) proc_calls \<Rightarrow> nat \<Rightarrow> string option \<Rightarrow> ('c, 'f, 'z) prs \<Rightarrow> (('c, 'f, 'z) prs) ends" where
  "hk_proc_stderr calls k buf st =
     (case buf of
        Some text \<Rightarrow>
          (case pr_cb_stderr (proc_at st k) of
             None \<Rightarrow> Inr st | Some f \<Rightarrow> pc_output calls f (pr_user_data (proc_at st k)) text st)
      | None \<Rightarrow> Inr st)"

definition hk_proc_sigchld ::
    "('f, ('c, 'f, 'z) prs) proc_calls \<Rightarrow> nat \<Rightarrow> int \<Rightarrow> int \<Rightarrow> ('c, 'f, 'z) prs \<Rightarrow> (('c, 'f, 'z) prs) ends" where
  \<comment> \<open>\<open>status\<close>: the exit status\<close>
  "hk_proc_sigchld calls k pid status st =
     (if pid = pr_pid (proc_at st k) then
        let st = hk_proc_timeout_cancel k (upd_proc k (\<lambda>p. p\<lparr>pr_pid := 0\<rparr>) st)
        in go (call_term calls k status st) (\<lambda>st. Inr (hk_proc_remove k (hk_proc_term k st)))
      else Inr st)"

definition hk_proc_start ::
    "string list \<Rightarrow> 'f option \<Rightarrow> 'f option \<Rightarrow> 'f option \<Rightarrow> nat \<Rightarrow> ('c, 'f, 'z) prs \<Rightarrow> nat option \<times> ('c, 'f, 'z) prs" where
  "hk_proc_start argv cb_stdout cb_stderr cb_term user_data st =
     (case forks st of
        Some c # next \<Rightarrow>
          let st = st\<lparr>forks := next, alive := alive st @ [fk_pid c], execs := execs st @ [(fk_pid c, argv)]\<rparr>;
              (k, st) = hk_proc_add st;
              st = upd_proc k (\<lambda>p. p\<lparr>pr_pid := fk_pid c\<rparr>) st;
              (tag, st) = sys_child_watch (fk_pid c) (Some ''hk_proc_sigchld'') (Some k) st;
              st = upd_proc k (\<lambda>p. p\<lparr>pr_sigchld_tag := tag, pr_cb_stdout := cb_stdout, pr_cb_stderr := cb_stderr,
                     pr_cb_term := cb_term, pr_user_data := user_data, pr_state := HK_PROC_ST_RUN,
                     pr_stdin_fd := fk_in c\<rparr>) st;
              (out, st) = io_channel_setup (out_ref k) (fk_out c) (Some ''hk_proc_stdout'') None st;
              (err, st) = io_channel_setup (err_ref k) (fk_err c) (Some ''hk_proc_stderr'') None st
          in (Some k, upd_proc k (\<lambda>p. p\<lparr>pr_stdout := out, pr_stderr := err\<rparr>) st)
      | _ \<Rightarrow> (None, st\<lparr>forks := tl (forks st)\<rparr>))"

definition hk_proc_write :: "nat \<Rightarrow> string \<Rightarrow> ('c, 'f, 'z) prs \<Rightarrow> ('c, 'f, 'z) prs" where
  \<comment> \<open>what \<open>write\<close> returns is not used\<close>
  "hk_proc_write k buf st =
     (if pr_stdin_fd (proc_at st k) < 0 then st
      else st\<lparr>writes := writes st @ [(pr_stdin_fd (proc_at st k), buf)]\<rparr>)"

definition PRINTF_SIZE :: nat where "PRINTF_SIZE = 1024"

definition hk_proc_printf :: "nat \<Rightarrow> string \<Rightarrow> ('c, 'f, 'z) prs \<Rightarrow> (('c, 'f, 'z) prs) ends" where
  \<comment> \<open>\<open>text\<close>: the complete output. \<open>vsnprintf\<close> returns its full length, and that many bytes
    are written from \<open>buf[1024]\<close>.\<close>
  "hk_proc_printf k text st =
     (if text = [] then Inr st
      else if length text < PRINTF_SIZE then Inr (hk_proc_write k text st)
      else if length text = PRINTF_SIZE then Inr (hk_proc_write k (take (PRINTF_SIZE - 1) text @ [NUL]) st)
      else if pr_stdin_fd (proc_at st k) < 0 then Inr st else Inl None)"

section \<open>What operations leave alone\<close>

text \<open>
  \<open>quiet s s'\<close>: only the table of event sources and the table of processes differ.
\<close>

definition proc_quiet :: "('c, 'f, 'z) prs \<Rightarrow> ('c, 'f, 'z) prs \<Rightarrow> bool" where
  "proc_quiet s s' \<longleftrightarrow> s' = s\<lparr>sources := sources s', last_tag := last_tag s', procs := procs s'\<rparr>"

definition ended :: "'f hk_proc \<Rightarrow> 'f hk_proc" where
  \<comment> \<open>what \<open>hk_proc_term\<close> makes of a process\<close>
  "ended p = p\<lparr>pr_cb_stdout := None, pr_cb_stderr := None, pr_cb_term := None, pr_stdout := io_channel_clear,
     pr_stderr := io_channel_clear, pr_sigchld_tag := 0, pr_timeout_tag := 0,
     pr_stdin_fd := (if 0 < pr_stdin_fd p then -1 else pr_stdin_fd p)\<rparr>"

lemma proc_quiet_refl [simp]: "proc_quiet s s"
  by (cases s) (simp add: proc_quiet_def)

lemma proc_quiet_trans: "proc_quiet s s1 \<Longrightarrow> proc_quiet s1 s2 \<Longrightarrow> proc_quiet s s2"
  by (cases s; cases s1; cases s2) (simp add: proc_quiet_def)

lemma sys_procs [simp]:
  fixes st :: "('c, 'f, 'z) prs"
  shows "procs (sys_remove tag st) = procs st" "procs (snd (sys_timeout now delay func arg st)) = procs st"
    "procs (snd (sys_child_watch pid func arg st)) = procs st" "procs (snd (sys_io_watch fd func arg st)) = procs st"
    "procs (snd (sys_quit_handler func arg st)) = procs st"
  by (auto simp: sys_remove_def upd_source_def sys_timeout_def sys_child_watch_def sys_quit_handler_def with_source_def
      sys_source_add_def sys_io_watch_def sys_io_source_add_def Let_def split: option.split)

lemma sys_quiet:
  fixes s :: "('c, 'f, 'z) prs"
  shows "proc_quiet s (sys_remove tag s)" "proc_quiet s (snd (sys_timeout now delay func arg s))"
    "proc_quiet s (snd (sys_child_watch pid func arg s))" "proc_quiet s (snd (sys_io_watch fd func arg s))"
    "proc_quiet s (snd (sys_quit_handler func arg s))" "proc_quiet s (upd_proc k g s)" "proc_quiet s (s\<lparr>procs := ps\<rparr>)"
  by (cases s; auto simp: proc_quiet_def sys_remove_def upd_source_def sys_timeout_def sys_child_watch_def
      sys_quit_handler_def with_source_def sys_source_add_def sys_io_watch_def sys_io_source_add_def upd_proc_def
      Let_def split: option.split)+

lemma procs_upd [simp]: "procs (upd_proc k g st) = map_nth k g (procs st)"
  by (simp add: upd_proc_def)

lemma term_quiet: "proc_quiet s (hk_proc_term k s)"
  unfolding hk_proc_term_def Let_def case_prod_beta hk_proc_timeout_cancel_def
  by (intro proc_quiet_trans [OF _ sys_quiet(6)])
    (auto simp: io_channel_close_def intro!: proc_quiet_trans [OF _ sys_quiet(6)] proc_quiet_trans [OF _ sys_quiet(1)] sys_quiet)

lemma term_procs: "k < length (procs s) \<Longrightarrow> procs (hk_proc_term k s) = map_nth k ended (procs s)"
  by (cases "procs s ! k") (auto simp: hk_proc_term_def Let_def case_prod_beta hk_proc_timeout_cancel_def io_channel_close_def map_nth_def
      ended_def)

section \<open>Effects of operations\<close>

definition freed :: "'f hk_proc \<Rightarrow> 'f hk_proc" where
  "freed p = (ended p)\<lparr>pr_state := HK_PROC_ST_FREE\<rparr>"

lemma freed_simps [simp]:
  "pr_state (freed p) = HK_PROC_ST_FREE" "pr_cb_term (freed p) = None" "pr_cb_stdout (freed p) = None"
  "pr_sigchld_tag (freed p) = 0" "pr_timeout_tag (freed p) = 0" "pr_pid (freed p) = pr_pid p"
  by (simp_all add: freed_def ended_def)

lemma upd_proc_upd: "upd_proc k f (upd_proc k g st) = upd_proc k (\<lambda>p. f (g p)) st"
  by (cases "k < length (procs st)") (simp_all add: upd_proc_def map_nth_def list_update_beyond)

lemma timer_procs: "procs (hk_proc_timeout delay func k st) =
    map_nth k (\<lambda>p. p\<lparr>pr_timeout_tag := fst (sys_timeout (hk_clock st) delay (Some func) (Some k) st)\<rparr>) (procs st)"
  "proc_quiet st (hk_proc_timeout delay func k st)"
  by (simp_all add: hk_proc_timeout_def case_prod_beta proc_quiet_trans [OF sys_quiet(2) sys_quiet(6)])

lemma stop_running:
  assumes "k < length (procs st)" "pr_state (proc_at st k) = HK_PROC_ST_RUN" "pr_pid (proc_at st k) \<in> set (alive st)"
  shows "\<exists>t st'. hk_proc_stop calls k st = Inr st' \<and>
    proc_quiet (st\<lparr>kills := kills st @ [(pr_pid (proc_at st k), SIGTERM)]\<rparr>) st' \<and>
    procs st' = map_nth k (\<lambda>p. p\<lparr>pr_state := HK_PROC_ST_KILL, pr_timeout_tag := t\<rparr>) (procs st)"
proof -
  let ?s1 = "upd_proc k (\<lambda>p. p\<lparr>pr_state := HK_PROC_ST_KILL\<rparr>) st"
  let ?s2 = "?s1\<lparr>kills := kills st @ [(pr_pid (proc_at st k), SIGTERM)]\<rparr>"
  have s2: "hk_proc_kill (pr_pid (proc_at ?s1 k)) SIGTERM ?s1 = (True, ?s2)"
    using assms by (simp add: hk_proc_kill_def upd_proc_def map_nth_def)
  have "proc_quiet (st\<lparr>kills := kills st @ [(pr_pid (proc_at st k), SIGTERM)]\<rparr>) ?s2"
    by (cases st) (simp add: proc_quiet_def upd_proc_def)
  from proc_quiet_trans [OF this timer_procs(2)] assms(2) s2 show ?thesis
    by (simp add: hk_proc_stop_def Let_def timer_procs(1) map_nth_def assms(1)) blast
qed

lemma kill_timeout_effect:
  fixes st :: "('c, 'f, 'z) prs"
  assumes "k < length (procs st)"
  shows "procs (snd (hk_proc_kill_timeout k st)) = map_nth k freed (procs st)"
    "\<exists>x. proc_quiet (st\<lparr>kills := x\<rparr>) (snd (hk_proc_kill_timeout k st)) \<and>
       (pr_pid (proc_at st k) \<in> set (alive st) \<longrightarrow> x = kills st @ [(pr_pid (proc_at st k), SIGKILL)])"
proof -
  let ?s1 = "upd_proc k (\<lambda>p. p\<lparr>pr_timeout_tag := 0\<rparr>) st"
  define s2 where "s2 = snd (hk_proc_kill (pr_pid (proc_at ?s1 k)) SIGKILL ?s1)"
  have p: "procs s2 = map_nth k (\<lambda>p. p\<lparr>pr_timeout_tag := 0\<rparr>) (procs st)" by (simp add: s2_def hk_proc_kill_def)
  have k: "k < length (procs s2)" using assms p by simp
  have e: "snd (hk_proc_kill_timeout k st) = hk_proc_remove k (hk_proc_term k s2)"
    by (simp only: hk_proc_kill_timeout_def Let_def snd_conv s2_def)
  show "procs (snd (hk_proc_kill_timeout k st)) = map_nth k freed (procs st)"
    using assms unfolding e hk_proc_remove_def procs_upd term_procs [OF k] p
    by (simp add: map_nth_def freed_def ended_def)
  have "\<exists>x. proc_quiet (st\<lparr>kills := x\<rparr>) s2 \<and>
       (pr_pid (proc_at st k) \<in> set (alive st) \<longrightarrow> x = kills st @ [(pr_pid (proc_at st k), SIGKILL)])"
    using assms by (cases st) (auto simp: s2_def hk_proc_kill_def proc_quiet_def upd_proc_def map_nth_def)
  then show "\<exists>x. proc_quiet (st\<lparr>kills := x\<rparr>) (snd (hk_proc_kill_timeout k st)) \<and>
       (pr_pid (proc_at st k) \<in> set (alive st) \<longrightarrow> x = kills st @ [(pr_pid (proc_at st k), SIGKILL)])"
    unfolding e hk_proc_remove_def
    using proc_quiet_trans [OF _ proc_quiet_trans [OF term_quiet sys_quiet(6)]] by blast
qed

lemma cancel_quiet: "proc_quiet s (hk_proc_timeout_cancel k s)"
  unfolding hk_proc_timeout_cancel_def Let_def
  by (auto intro: proc_quiet_trans [OF sys_quiet(1) sys_quiet(6)])

lemma cancel_procs:
  assumes "k < length (procs s)"
  shows "procs (hk_proc_timeout_cancel k s) = map_nth k (\<lambda>p. p\<lparr>pr_timeout_tag := 0\<rparr>) (procs s)"
proof (cases "pr_timeout_tag (procs s ! k) = 0")
  case True
  then have "(procs s ! k)\<lparr>pr_timeout_tag := 0\<rparr> = procs s ! k" by (cases "procs s ! k") simp
  then have "(procs s)[k := (procs s ! k)\<lparr>pr_timeout_tag := 0\<rparr>] = procs s" by (simp only: list_update_id)
  with True assms show ?thesis by (simp add: hk_proc_timeout_cancel_def Let_def map_nth_def)
next
  case False
  then show ?thesis by (simp add: hk_proc_timeout_cancel_def Let_def)
qed

lemma sigchld_effect:
  assumes "k < length (procs st)"
  shows "\<exists>s1. proc_quiet st s1 \<and>
    procs s1 = map_nth k (\<lambda>p. p\<lparr>pr_pid := 0, pr_timeout_tag := 0\<rparr>) (procs st) \<and>
    hk_proc_sigchld calls k (pr_pid (proc_at st k)) status st =
      go (case pr_cb_term (proc_at st k) of None \<Rightarrow> Inr s1 | Some f \<Rightarrow> pc_term calls f (pr_user_data (proc_at st k)) status s1)
        (\<lambda>st. Inr (hk_proc_remove k (hk_proc_term k st)))"
proof (intro exI conjI)
  let ?s1 = "hk_proc_timeout_cancel k (upd_proc k (\<lambda>p. p\<lparr>pr_pid := 0\<rparr>) st)"
  show "proc_quiet st ?s1" by (rule proc_quiet_trans [OF sys_quiet(6) cancel_quiet])
  show p: "procs ?s1 = map_nth k (\<lambda>p. p\<lparr>pr_pid := 0, pr_timeout_tag := 0\<rparr>) (procs st)"
    using assms by (simp add: cancel_procs map_nth_def)
  have "pr_cb_term (proc_at ?s1 k) = pr_cb_term (proc_at st k)" "pr_user_data (proc_at ?s1 k) = pr_user_data (proc_at st k)"
    unfolding p using assms by (simp_all add: map_nth_def)
  then show "hk_proc_sigchld calls k (pr_pid (proc_at st k)) status st =
      go (case pr_cb_term (proc_at st k) of None \<Rightarrow> Inr ?s1 | Some f \<Rightarrow> pc_term calls f (pr_user_data (proc_at st k)) status ?s1)
        (\<lambda>st. Inr (hk_proc_remove k (hk_proc_term k st)))"
    by (simp add: hk_proc_sigchld_def Let_def call_term_def split: option.split)
qed

lemma start_effect:
  fixes st :: "('c, 'f, 'z) prs"
  assumes "forks st = Some c # next"
  defines "k \<equiv> case hk_proc_find_free st of Some k \<Rightarrow> k | None \<Rightarrow> length (procs st)"
  shows "\<exists>st' tag out err. hk_proc_start argv a b t d st = (Some k, st') \<and>
    proc_quiet (st\<lparr>forks := next, alive := alive st @ [fk_pid c], execs := execs st @ [(fk_pid c, argv)]\<rparr>) st' \<and>
    procs st' = (let ps = procs st @ (if k < length (procs st) then [] else [hk_proc_zero]) in
      ps[k := \<lparr>pr_state = HK_PROC_ST_RUN, pr_pid = fk_pid c, pr_stdin_fd = fk_in c, pr_stdout = out, pr_stderr = err,
        pr_sigchld_tag = tag, pr_timeout_tag = 0, pr_cb_stdout = a, pr_cb_stderr = b, pr_cb_term = t, pr_user_data = d\<rparr>])"
proof -
  let ?s0 = "st\<lparr>forks := next, alive := alive st @ [fk_pid c], execs := execs st @ [(fk_pid c, argv)]\<rparr>"
  let ?ps = "procs st @ (if k < length (procs st) then [] else [hk_proc_zero])"
  have kl: "k < length ?ps" by (auto simp: k_def hk_proc_find_free_def split: option.split dest: find_index_SomeD)
  have f: "hk_proc_find_free (snd (sys_quit_handler func arg ?s0)) = hk_proc_find_free st"
    "hk_proc_find_free ?s0 = hk_proc_find_free st" for func arg
    by (simp_all add: hk_proc_find_free_def)
  obtain s1 where s1: "hk_proc_add ?s0 = (k, s1)" "proc_quiet ?s0 s1" "procs s1 = ?ps[k := hk_proc_zero]"
  proof -
    have "fst (hk_proc_add ?s0) = k"
      using f by (auto simp: hk_proc_add_def Let_def k_def split: option.split)
    moreover have "proc_quiet ?s0 (snd (hk_proc_add ?s0))"
      using f by (auto simp: hk_proc_add_def Let_def split: option.split
          intro: sys_quiet proc_quiet_trans [OF sys_quiet(5) sys_quiet(6)] proc_quiet_trans [OF sys_quiet(5) sys_quiet(7)])
    moreover have "procs (snd (hk_proc_add ?s0)) = ?ps[k := hk_proc_zero]"
    proof (cases "hk_proc_find_free st")
      case None
      then have "k = length (procs st)" by (simp add: k_def)
      with None f show ?thesis by (auto simp: hk_proc_add_def Let_def)
    next
      case (Some j)
      then have "k = j" "j < length (procs st)" by (auto simp: k_def hk_proc_find_free_def dest: find_index_SomeD)
      with Some f show ?thesis by (auto simp: hk_proc_add_def Let_def map_nth_def)
    qed
    ultimately show ?thesis using that by (metis prod.collapse)
  qed
  show ?thesis
    using assms(1) s1 kl
    by (auto simp: hk_proc_start_def case_prod_beta Let_def io_channel_setup_def map_nth_def hk_proc_zero_def
        intro!: exI proc_quiet_trans [OF s1(2)] proc_quiet_trans [OF _ sys_quiet(6)] proc_quiet_trans [OF _ sys_quiet(4)]
          proc_quiet_trans [OF _ sys_quiet(3)])
qed

section \<open>Properties\<close>

text \<open>
  A process that has been asked to end, and then closes its output, is never killed: the end of
  the output cancels the timer of the kill, and the timer that takes its place does nothing to a
  process that is already being stopped.
\<close>

theorem hangup_cancels_kill:
  assumes "k < length (procs st)" "pr_state (proc_at st k) = HK_PROC_ST_KILL"
  shows "\<exists>s1 s2. hk_proc_stdout calls k None st = Inr s1 \<and> hk_proc_hangup_timeout calls k s1 = Inr (0, s2) \<and>
    pr_state (proc_at s2 k) = HK_PROC_ST_KILL \<and> pr_timeout_tag (proc_at s2 k) = 0 \<and> kills s2 = kills st"
proof -
  let ?c = "hk_proc_timeout_cancel k st"
  let ?s1 = "hk_proc_timeout 100 ''hk_proc_hangup_timeout'' k ?c"
  let ?s2 = "upd_proc k (\<lambda>p. p\<lparr>pr_timeout_tag := 0\<rparr>) ?s1"
  have "proc_quiet st ?s2"
    by (rule proc_quiet_trans [OF proc_quiet_trans [OF cancel_quiet timer_procs(2)] sys_quiet(6)])
  then have q: "kills ?s2 = kills st" by (cases st; cases ?s2) (simp add: proc_quiet_def)
  have p: "proc_at ?s2 k = (proc_at st k)\<lparr>pr_timeout_tag := 0\<rparr>"
    using assms(1) by (simp add: timer_procs(1) cancel_procs map_nth_def)
  have "hk_proc_hangup_timeout calls k ?s1 = Inr (0, ?s2)"
    using p assms(2) by (simp add: hk_proc_hangup_timeout_def hk_proc_stop_def)
  moreover have "hk_proc_stdout calls k None st = Inr ?s1" by (simp add: hk_proc_stdout_def)
  ultimately show ?thesis using p q assms(2) by auto
qed

text \<open>
  The owner of a process that had to be killed is not told, and the entry of the process is given
  to the next one that starts: the pointer the owner still has is then to the process of another.
\<close>

theorem killed_entry_reused:
  assumes "k < length (procs st)" "\<forall>j<k. pr_state (proc_at st j) \<noteq> HK_PROC_ST_FREE" "forks st = Some c # next"
  shows "pr_cb_term (proc_at (snd (hk_proc_kill_timeout k st)) k) = None \<and>
    (\<exists>st'. hk_proc_start argv a b t d (snd (hk_proc_kill_timeout k st)) = (Some k, st') \<and>
       pr_pid (proc_at st' k) = fk_pid c \<and> pr_cb_term (proc_at st' k) = t \<and> pr_user_data (proc_at st' k) = d)"
proof -
  let ?s = "snd (hk_proc_kill_timeout k st)"
  note p = kill_timeout_effect(1) [OF assms(1)]
  have l: "length (procs ?s) = length (procs st)" using p by simp
  have "pr_state (proc_at ?s k) = HK_PROC_ST_FREE" "\<forall>j<k. pr_state (proc_at ?s j) \<noteq> HK_PROC_ST_FREE"
    using assms(1,2) unfolding p by (simp_all add: map_nth_def)
  then have "hk_proc_find_free ?s = Some k"
    unfolding hk_proc_find_free_def find_index_Some_iff using assms(1) l by simp
  moreover have "forks ?s = Some c # next"
    using kill_timeout_effect(2) [OF assms(1)] assms(3) by (cases st; cases ?s) (auto simp: proc_quiet_def)
  ultimately obtain st' tag out err where
    s: "hk_proc_start argv a b t d ?s = (Some k, st')" and
    p': "procs st' = (procs ?s)[k := \<lparr>pr_state = HK_PROC_ST_RUN, pr_pid = fk_pid c, pr_stdin_fd = fk_in c, pr_stdout = out,
        pr_stderr = err, pr_sigchld_tag = tag, pr_timeout_tag = 0, pr_cb_stdout = a, pr_cb_stderr = b, pr_cb_term = t,
        pr_user_data = d\<rparr>]"
    using start_effect [of ?s c "next" argv a b t d] assms(1) l by (auto simp: Let_def)
  have "pr_cb_term (proc_at ?s k) = None" unfolding p using assms(1) by (simp add: map_nth_def)
  with s p' assms(1) l show ?thesis by simp
qed

definition two_children :: "(unit, unit) proc_state" where
  \<comment> \<open>two starts will succeed\<close>
  "two_children = hk_state.extend ((hk_start 0)\<lparr>sources := replicate 4 sys_source_clear\<rparr>)
     (proc_state.fields [] [Some \<lparr>fk_pid = 101, fk_in = 5, fk_out = 6, fk_err = 7\<rparr>,
        Some \<lparr>fk_pid = 102, fk_in = 8, fk_out = 9, fk_err = 10\<rparr>] [] [] [] [])"

definition one_child :: "(unit, unit) proc_state" where
  "one_child = snd (hk_proc_start [''agent''] None None (Some ()) 7 two_children)"

definition no_calls :: "(unit, (unit, unit) proc_state) proc_calls" where
  "no_calls = \<lparr>pc_output = (\<lambda>f d s st. Inr st), pc_term = (\<lambda>f d s st. Inr st)\<rparr>"

definition stopped_child :: "(unit, unit) proc_state" where
  "stopped_child = (case hk_proc_stop no_calls 0 one_child of Inr st \<Rightarrow> st | Inl e \<Rightarrow> one_child)"

theorem hangup_cancels_kill_witness:
  "kills stopped_child = [(101, SIGTERM)] \<and> (\<exists>s1 s2. hk_proc_stdout no_calls 0 None stopped_child = Inr s1 \<and>
     hk_proc_hangup_timeout no_calls 0 s1 = Inr (0, s2) \<and> pr_timeout_tag (proc_at s2 0) = 0 \<and> kills s2 = [(101, SIGTERM)])"
proof -
  have k: "0 < length (procs stopped_child)" "pr_state (proc_at stopped_child 0) = HK_PROC_ST_KILL"
    "kills stopped_child = [(101, SIGTERM)]" by code_simp+
  from hangup_cancels_kill [OF k(1,2), of no_calls] k(3) show ?thesis by auto
qed

theorem killed_entry_reused_witness:
  "\<exists>st'. hk_proc_start [''other''] None None None 8 (snd (hk_proc_kill_timeout 0 stopped_child)) = (Some 0, st') \<and>
     pr_pid (proc_at st' 0) = 102 \<and> pr_user_data (proc_at st' 0) = 8"
proof -
  have k: "0 < length (procs stopped_child)"
    "forks stopped_child = Some \<lparr>fk_pid = 102, fk_in = 8, fk_out = 9, fk_err = 10\<rparr> # []" by code_simp+
  from killed_entry_reused [OF k(1) _ k(2), of "[''other'']" None None None 8] show ?thesis by auto
qed

end
