(* ===== verification/Hk_Launcher.thy ===== *)
theory Hk_Launcher
  imports Hk_Proc Hk_Options Hk_Env
begin

text \<open>
  \<^verbatim>\<open>main/hakit-launcher.c\<close>: the program that asks a platform server for tiles and certificates,
  keeps them in a directory and runs the engine, and a broker, as child processes. A request to the
  server is recorded; its reply, an event of its own, is given to the function recorded with it.
  Files are a map; what \<open>fopen\<close> for writing and \<open>write\<close> do is an argument in the state.
\<close>

section \<open>State\<close>

definition TILE_FILE_NAME :: string where "TILE_FILE_NAME = ''tile.hk''"
definition HELLO_RETRY_INIT_DELAY :: "64 word" where "HELLO_RETRY_INIT_DELAY = 30"
definition HELLO_RETRY_DELAY :: "64 word" where "HELLO_RETRY_DELAY = 180"
definition PING_DELAY :: "64 word" where "PING_DELAY = 1800"
definition MQTT_RETRY_DELAY :: "64 word" where "MQTT_RETRY_DELAY = 10"
definition MQTT_MAX_RETRIES :: int where "MQTT_MAX_RETRIES = 3"

datatype state_t = ST_IDLE | ST_HELLO | ST_RETRY | ST_RUN | ST_RESTART

record tile_t =
  \<comment> \<open>\<open>tl_base\<close>: where \<open>basename\<close> points to in the path\<close>
  tl_name :: "string option"
  tl_rev :: "string option"
  tl_path :: string
  tl_base :: nat
  tl_ready :: bool

record cert_t =
  ce_fingerprint :: "string option"
  ce_name :: string
  ce_path :: string

record ctx_t =
  cx_tiles :: "tile_t list"
  cx_certs :: "cert_t list"
  cx_index :: nat
  cx_restart_engine :: bool
  cx_is_broker :: bool
  cx_restart_broker :: bool

datatype request_func = Hello_response | App_response ctx_t | Cert_response ctx_t

record request =
  rq_url :: string
  rq_headers :: string
  rq_func :: request_func

datatype child_func = Engine_stdout | Engine_stderr | Engine_terminated | Mqtt_stdout | Mqtt_stderr | Mqtt_terminated

record launcher_sys =
  \<comment> \<open>what the system answers\<close>
  ls_version :: string \<comment> \<open>\<open>HAKIT_VERSION\<close>, made by the build\<close>
  ls_bin :: string \<comment> \<open>\<open>env_bindir ("hakit-engine")\<close>\<close>
  ls_hostname :: string
  ls_uname :: "(string \<times> string) option" \<comment> \<open>the system, and the name of the node\<close>
  ls_realpath :: "string \<Rightarrow> string option"
  ls_write :: "string \<Rightarrow> string \<Rightarrow> nat option" \<comment> \<open>bytes written to a file, if it can be opened\<close>
  ls_uri :: "string \<Rightarrow> bool" \<comment> \<open>a request to this URL can be sent\<close>

record launcher = "(unit, child_func) proc_state" +
  ln_sys :: launcher_sys
  ln_vars :: opt_vars
  opt_lib_dir :: string
  opt_api_key :: "string option"
  ln_state :: state_t
  running_fallback :: bool
  ping_timeout_tag :: sys_tag
  engine_proc :: "nat option"
  engine_argv :: "string list"
  mqtt_proc :: "nat option"
  mqtt_restart :: bool
  mqtt_retry_count :: int
  ln_files :: "string \<rightharpoonup> string"
  requests :: "request list"
  ln_stdout :: string

abbreviation opt_debug :: "launcher \<Rightarrow> int" where "opt_debug st \<equiv> ov_int (ln_vars st) 0"
abbreviation opt_daemon :: "launcher \<Rightarrow> int" where "opt_daemon st \<equiv> ov_int (ln_vars st) 1"
abbreviation opt_offline :: "launcher \<Rightarrow> int" where "opt_offline st \<equiv> ov_int (ln_vars st) 2"
abbreviation opt_no_advertise :: "launcher \<Rightarrow> int" where "opt_no_advertise st \<equiv> ov_int (ln_vars st) 3"
abbreviation opt_no_hkcp :: "launcher \<Rightarrow> int" where "opt_no_hkcp st \<equiv> ov_int (ln_vars st) 4"
abbreviation opt_no_mqtt :: "launcher \<Rightarrow> int" where "opt_no_mqtt st \<equiv> ov_int (ln_vars st) 5"
abbreviation opt_mqtt_port :: "launcher \<Rightarrow> int" where "opt_mqtt_port st \<equiv> ov_int (ln_vars st) 6"
abbreviation opt_no_ssl :: "launcher \<Rightarrow> int" where "opt_no_ssl st \<equiv> ov_int (ln_vars st) 7"
abbreviation opt_names :: "launcher \<Rightarrow> int" where "opt_names st \<equiv> ov_int (ln_vars st) 8"
abbreviation opt_platform_url :: "launcher \<Rightarrow> string option" where "opt_platform_url st \<equiv> opt_text (ov_str (ln_vars st) 1)"
abbreviation opt_http_alias :: "launcher \<Rightarrow> string option" where "opt_http_alias st \<equiv> opt_text (ov_str (ln_vars st) 3)"

definition file_write :: "string \<Rightarrow> string \<Rightarrow> launcher \<Rightarrow> nat option \<times> launcher" where
  \<comment> \<open>\<open>fopen ("w")\<close> and \<open>fwrite\<close>, with the number of bytes written\<close>
  "file_write path content st =
     (case ls_write (ln_sys st) path content of
        None \<Rightarrow> (None, st)
      | Some n \<Rightarrow> (Some (min n (length content)), st\<lparr>ln_files := (ln_files st)(path \<mapsto> take n content)\<rparr>))"

definition file_head :: "string \<Rightarrow> launcher \<Rightarrow> string option" where
  \<comment> \<open>\<open>fread\<close> into \<open>buf[128]\<close>\<close>
  "file_head path st = map_option (take 127) (ln_files st path)"

section \<open>Platform access\<close>

definition fmt_append :: "string \<Rightarrow> string \<Rightarrow> string option" where
  \<comment> \<open>\<open>buf_append_fmt\<close> on a buffer that holds \<open>hdr\<close> (see \<open>Hk_Buf.buf_append_fmt\<close>)\<close>
  "fmt_append text hdr =
     (if length text < 1024 then Some (hdr @ text)
      else if length text = 1024 then Some (hdr @ take 1023 text @ [NUL]) else None)"

definition CRLF :: string where "CRLF = [CHR 0x0D, LF]"

definition platform_request ::
    "string \<Rightarrow> string \<Rightarrow> request_func \<Rightarrow> launcher \<Rightarrow> (int \<times> launcher) ends" where
  "platform_request script header func st =
     (case opt_platform_url st of
        None \<Rightarrow> Inl None
      | Some platform \<Rightarrow>
          let url = platform @ ''/api/'' @ script
          in case fmt_append (''HAKit-Api-Key: '' @ (case opt_api_key st of None \<Rightarrow> ''(null)'' | Some k \<Rightarrow> k) @ CRLF) header of
               None \<Rightarrow> Inl None
             | Some header \<Rightarrow>
                 if ls_uri (ln_sys st) url
                 then Inr (0, st\<lparr>requests := requests st @ [\<lparr>rq_url = url, rq_headers = cstr header, rq_func = func\<rparr>]\<rparr>)
                 else Inr (-1, st))"

function platform_get_lines :: "string \<Rightarrow> string list" where
  \<comment> \<open>cut at control characters, a run of which ends one line\<close>
  "platform_get_lines buf =
     (if buf = [] then []
      else
        let s = takeWhile (\<lambda>c. 32 \<le> cval c) buf;
            rest = dropWhile (\<lambda>c. cval c < 32) (dropWhile (\<lambda>c. 32 \<le> cval c) buf)
        in dropWhile is_blank s # platform_get_lines rest)"
  by pat_completeness auto
termination
proof (relation "measure length", goal_cases)
  case (2 buf s rest)
  have "length (dropWhile (\<lambda>c. cval c < 32) (dropWhile (\<lambda>c. 32 \<le> cval c) buf)) < length buf"
  proof (cases buf)
    case (Cons c cs)
    then show ?thesis
      using length_dropWhile_le [of "\<lambda>c. cval c < 32" "dropWhile (\<lambda>c. 32 \<le> cval c) cs"]
        length_dropWhile_le [of "\<lambda>c. 32 \<le> cval c" cs] length_dropWhile_le [of "\<lambda>c. cval c < 32" cs]
      by (auto simp del: length_dropWhile_le)
  qed (use 2 in simp)
  then show ?case using 2 by simp
qed simp

declare platform_get_lines.simps [simp del]

definition platform_get_status :: "string \<Rightarrow> int \<times> string option \<times> nat" where
  \<comment> \<open>the code and the text of the first line, and where the next line begins\<close>
  "platform_get_status buf =
     (let line = takeWhile (\<lambda>c. 32 \<le> cval c) buf;
          ofs = length line + length (takeWhile (\<lambda>c. c \<noteq> NUL \<and> cval c < 32) (drop (length line) buf))
      in case strchr line SP of
           None \<Rightarrow> (-1, None, ofs)
         | Some i \<Rightarrow> (atoi (take i line), Some (dropWhile is_blank (drop (i + 1) line)), ofs))"

section \<open>Contexts\<close>

definition ctx_alloc :: ctx_t where
  "ctx_alloc = \<lparr>cx_tiles = [], cx_certs = [], cx_index = 0, cx_restart_engine = False, cx_is_broker = False,
     cx_restart_broker = False\<rparr>"

definition tile_file :: "string \<Rightarrow> tile_t \<Rightarrow> tile_t" where
  \<comment> \<open>\<open>strcpy (tile->basename, name)\<close>\<close>
  "tile_file name tile = tile\<lparr>tl_path := take (tl_base tile) (tl_path tile) @ name\<rparr>"

definition ctx_tile_feed :: "string \<Rightarrow> launcher \<Rightarrow> ctx_t \<Rightarrow> ctx_t" where
  "ctx_tile_feed str st ctx =
     (let (name, revision) = (case strchr str SP of
            None \<Rightarrow> (str, None)
          | Some i \<Rightarrow> (take i str, Some (dropWhile is_blank (drop (i + 1) str))));
          path = opt_lib_dir st @ ''/tiles/'' @ name @ ''/'';
          ready = (case revision of
            None \<Rightarrow> False
          | Some r \<Rightarrow>
              (case file_head (path @ ''REVISION'') st of
                 None \<Rightarrow> False | Some buf \<Rightarrow> buf \<noteq> [] \<and> cstr buf = r))
      in ctx\<lparr>cx_tiles := cx_tiles ctx @ [\<lparr>tl_name = Some name, tl_rev = revision, tl_path = path, tl_base = length path,
           tl_ready = ready\<rparr>]\<rparr>)"

definition ctx_tile_feed_local :: "string \<Rightarrow> launcher \<Rightarrow> ctx_t \<Rightarrow> ctx_t" where
  "ctx_tile_feed_local path st ctx =
     (let (name, path1) = (case strchr path CHR ''='' of
            None \<Rightarrow> (None, path) | Some i \<Rightarrow> (Some (take i path), drop (i + 1) path))
      in case ls_realpath (ln_sys st) path1 of
           None \<Rightarrow> ctx
         | Some rpath \<Rightarrow>
             ctx\<lparr>cx_tiles := cx_tiles ctx @ [\<lparr>tl_name = name, tl_rev = None, tl_path = rpath,
               tl_base = length rpath - length (takeWhile (\<lambda>c. c \<noteq> CHR ''/'') (rev rpath)), tl_ready = True\<rparr>]\<rparr>)"

section \<open>Retries and ping\<close>

definition timer :: "64 word \<Rightarrow> string \<Rightarrow> launcher \<Rightarrow> sys_tag \<times> launcher" where
  "timer delay func st = sys_timeout (hk_clock st) (delay * 1000) (Some func) None st"

definition hello_retry :: "launcher \<Rightarrow> launcher ends" where
  "hello_retry st =
     (let st = st\<lparr>ln_state := ST_RETRY\<rparr>
      in if opt_api_key st \<noteq> None then Inr (snd (timer HELLO_RETRY_DELAY ''hello_request'' st)) else Inl (Some 2))"

definition ping_stop :: "launcher \<Rightarrow> launcher" where
  "ping_stop st =
     (if ping_timeout_tag st \<noteq> 0 then (sys_remove (ping_timeout_tag st) st)\<lparr>ping_timeout_tag := 0\<rparr> else st)"

definition ping_start :: "launcher \<Rightarrow> launcher" where
  "ping_start st =
     (case timer PING_DELAY ''hello_request'' (ping_stop st) of (tag, st) \<Rightarrow> st\<lparr>ping_timeout_tag := tag\<rparr>)"

section \<open>The engine\<close>

definition engine_start_now :: "launcher \<Rightarrow> launcher ends" where
  "engine_start_now st =
     (case hk_proc_start (engine_argv st) (Some Engine_stdout) (Some Engine_stderr) (Some Engine_terminated) 0 st of
        (proc, st) \<Rightarrow>
          let st = st\<lparr>engine_proc := proc\<rparr>
          in if proc \<noteq> None then
               let st = st\<lparr>ln_state := ST_RUN\<rparr>
               in Inr (if opt_offline st = 0 \<and> \<not> running_fallback st then ping_start st else st)
             else hello_retry st)"

definition engine_terminated :: "launcher \<Rightarrow> launcher ends" where
  \<comment> \<open>\<open>engine_proc\<close> was cleared if the launcher itself stopped the engine\<close>
  "engine_terminated st =
     (let st = ping_stop st
      in if engine_proc st = None then (if ln_state st = ST_RESTART then engine_start_now st else Inr st)
         else hello_retry (st\<lparr>engine_proc := None\<rparr>))"

section \<open>The broker\<close>

definition mqtt_dir :: "string \<Rightarrow> launcher \<Rightarrow> string" where
  "mqtt_dir filename st = opt_lib_dir st @ ''/mqtt/'' @ filename"

definition mqtt_config :: "launcher \<Rightarrow> string" where
  "mqtt_config st = mqtt_dir ''mosquitto.conf'' st"

definition mqtt_start_now :: "launcher \<Rightarrow> int \<times> launcher" where
  "mqtt_start_now st =
     (case hk_proc_start ([''mosquitto'', ''-c'', mqtt_config st] @ (if 0 < opt_debug st then [''-v''] else []))
             (Some Mqtt_stdout) (Some Mqtt_stderr) (Some Mqtt_terminated) 0 st of
        (proc, st) \<Rightarrow> (0, st\<lparr>mqtt_proc := proc\<rparr>))"

definition mqtt_terminated :: "launcher \<Rightarrow> launcher" where
  "mqtt_terminated st =
     (if mqtt_proc st = None then
        (if mqtt_restart st then snd (mqtt_start_now (st\<lparr>mqtt_restart := False\<rparr>)) else st)
      else
        let st = st\<lparr>mqtt_proc := None, mqtt_retry_count := mqtt_retry_count st + 1\<rparr>
        in if mqtt_retry_count st \<le> MQTT_MAX_RETRIES then snd (timer MQTT_RETRY_DELAY ''mqtt_start_now'' st) else st)"

definition launcher_calls :: "(child_func, launcher) proc_calls" where
  \<comment> \<open>the output of the broker, and the errors of the engine, go to the log\<close>
  "launcher_calls = \<lparr>
     pc_output = (\<lambda>f data buf st. case f of
        Engine_stdout \<Rightarrow> Inr (st\<lparr>ln_stdout := ln_stdout st @ buf\<rparr>) | _ \<Rightarrow> Inr st),
     pc_term = (\<lambda>f data status st. case f of
        Engine_terminated \<Rightarrow> engine_terminated st | Mqtt_terminated \<Rightarrow> Inr (mqtt_terminated st) | _ \<Rightarrow> Inl None)\<rparr>"

definition mqtt_stop :: "bool \<Rightarrow> launcher \<Rightarrow> launcher ends" where
  "mqtt_stop restart st =
     (case mqtt_proc st of
        None \<Rightarrow> Inr st
      | Some k \<Rightarrow>
          go (hk_proc_stop launcher_calls k (st\<lparr>mqtt_restart := restart\<rparr>)) (\<lambda>st. Inr (st\<lparr>mqtt_proc := None\<rparr>)))"

definition mqtt_start :: "launcher \<Rightarrow> launcher ends" where
  "mqtt_start st = (if mqtt_proc st \<noteq> None then mqtt_stop True st else Inr (snd (mqtt_start_now st)))"

definition mqtt_write_config :: "launcher \<Rightarrow> launcher ends" where
  \<comment> \<open>\<open>fprintf\<close> on a file that could not be opened\<close>
  "mqtt_write_config st =
     (let lib = opt_lib_dir st;
          content = ''port '' @ int_dec (opt_mqtt_port st) @ [LF] @
            ''persistence_location '' @ mqtt_dir [] st @ [LF] @
            ''cafile '' @ lib @ ''/certs/ca.crt'' @ [LF] @
            ''keyfile '' @ lib @ ''/certs/server.key'' @ [LF] @
            ''certfile '' @ lib @ ''/certs/server.crt'' @ [LF]
      in case file_write (mqtt_config st) content st of
           (None, st) \<Rightarrow> Inl None | (Some n, st) \<Rightarrow> Inr st)"

section \<open>Start of the engine\<close>

definition engine_stop :: "launcher \<Rightarrow> launcher ends" where
  "engine_stop st =
     (case engine_proc st of
        None \<Rightarrow> Inr st
      | Some k \<Rightarrow> go (hk_proc_stop launcher_calls k st) (\<lambda>st. Inr (st\<lparr>engine_proc := None\<rparr>)))"

definition tile_arg :: "tile_t \<Rightarrow> string" where
  "tile_arg tile = (case tl_name tile of None \<Rightarrow> [] | Some name \<Rightarrow> name @ ''='') @ tl_path tile"

definition engine_args :: "ctx_t \<Rightarrow> launcher \<Rightarrow> string list" where
  \<comment> \<open>the command line of the engine\<close>
  "engine_args ctx st =
     [ls_bin (ln_sys st)] @
     (if 0 < opt_debug st then [''--debug='' @ int_dec (opt_debug st)] else []) @
     (if opt_no_ssl st \<noteq> 0 then [''--no-https''] else [''--certs='' @ opt_lib_dir st @ ''/certs'']) @
     (if opt_no_mqtt st \<noteq> 0 then [''--no-mqtt'']
      else if cx_is_broker ctx then [''--mqtt-broker='' @ ls_hostname (ln_sys st) @ '':'' @ int_dec (opt_mqtt_port st)]
      else []) @
     (if opt_no_hkcp st \<noteq> 0 then [''--no-hkcp''] else []) @
     (if opt_no_advertise st \<noteq> 0 then [''--no-advertise''] else []) @
     (if opt_names st \<noteq> 0 then [''--full-name''] else []) @
     (case opt_http_alias st of None \<Rightarrow> [] | Some a \<Rightarrow> [''--http-alias='' @ a]) @
     map tile_arg (cx_tiles ctx)"

definition engine_start :: "ctx_t \<Rightarrow> launcher \<Rightarrow> launcher ends" where
  \<comment> \<open>a tile that is not up to date: the message is printed without its argument\<close>
  "engine_start ctx st =
     (if \<exists>tile\<in>set (cx_tiles ctx). \<not> tl_ready tile then Inl None
      else
        let st = st\<lparr>engine_argv := engine_args ctx st\<rparr>
        in if engine_proc st \<noteq> None then engine_stop (st\<lparr>ln_state := ST_RESTART\<rparr>) else engine_start_now st)"

section \<open>Tiles\<close>

fun app_seek :: "tile_t list \<Rightarrow> nat \<Rightarrow> nat" where
  \<comment> \<open>the next tile to download, from the index on\<close>
  "app_seek [] i = i"
| "app_seek (tile # rest) i = (if tl_ready tile then app_seek rest (i + 1) else i)"

definition name_or_null :: "string option \<Rightarrow> string" where
  "name_or_null s = (case s of None \<Rightarrow> ''(null)'' | Some s \<Rightarrow> s)"

definition app_request :: "ctx_t \<Rightarrow> launcher \<Rightarrow> launcher ends" where
  "app_request ctx st =
     (let ctx = ctx\<lparr>cx_index := app_seek (drop (cx_index ctx) (cx_tiles ctx)) (cx_index ctx)\<rparr>
      in if cx_index ctx < length (cx_tiles ctx) then
           let ctx = ctx\<lparr>cx_restart_engine := True\<rparr>
           in case fmt_append (''HAKit-Tile: '' @ name_or_null (tl_name (cx_tiles ctx ! cx_index ctx)) @ CRLF) [] of
                None \<Rightarrow> Inl None
              | Some header \<Rightarrow> go (platform_request ''app.php'' header (App_response ctx) st) (\<lambda>(ret, st). Inr st)
         else if ln_state st \<noteq> ST_RUN \<or> cx_restart_engine ctx then engine_start ctx st
         else Inr (ping_start st))"

definition tile_store :: "tile_t \<Rightarrow> string \<Rightarrow> launcher \<Rightarrow> int \<times> tile_t \<times> launcher" where
  \<comment> \<open>the tile, then its revision\<close>
  "tile_store tile content st =
     (let tile = tile_file TILE_FILE_NAME tile
      in case file_write (tl_path tile) content st of
           (None, st) \<Rightarrow> (-1, tile, st)
         | (Some n, st) \<Rightarrow>
             if n \<noteq> length content then (-1, tile, st)
             else
               let tile = tile_file ''REVISION'' tile
               in case file_write (tl_path tile) (name_or_null (tl_rev tile)) st of
                    (None, st) \<Rightarrow> (-1, tile_file [] tile, st)
                  | (Some n, st) \<Rightarrow> (0, tile_file [] (tile\<lparr>tl_ready := True\<rparr>), st))"

definition app_response :: "ctx_t \<Rightarrow> string option \<Rightarrow> launcher \<Rightarrow> launcher ends" where
  \<comment> \<open>\<open>None\<close>: the request failed; an empty reply is a null pointer\<close>
  "app_response ctx buf st =
     (case buf of
        None \<Rightarrow> hello_retry st
      | Some buf \<Rightarrow>
          if buf = [] then Inl None
          else
            case platform_get_status buf of (errcode, errstr, ofs) \<Rightarrow>
              case (if errcode = 0 then
                      (case tile_store (cx_tiles ctx ! cx_index ctx) (drop ofs buf) st of
                         (err, tile, st) \<Rightarrow> (err, ctx\<lparr>cx_tiles := (cx_tiles ctx)[cx_index ctx := tile]\<rparr>, st))
                    else (errcode, ctx, st)) of (errcode, ctx, st) \<Rightarrow>
                if errcode = 0 then app_request (ctx\<lparr>cx_index := cx_index ctx + 1\<rparr>) st else hello_retry st)"

section \<open>Certificates\<close>

definition cert_request :: "ctx_t \<Rightarrow> launcher \<Rightarrow> launcher ends" where
  "cert_request ctx st =
     (if cx_index ctx < length (cx_certs ctx) then
        let ctx = ctx\<lparr>cx_restart_engine := True,
              cx_restart_broker := cx_restart_broker ctx \<or> opt_no_mqtt st = 0 \<and> cx_is_broker ctx\<rparr>
        in case fmt_append (''HAKit-Cert: '' @ ce_name (cx_certs ctx ! cx_index ctx) @ CRLF) [] of
             None \<Rightarrow> Inl None
           | Some header \<Rightarrow> go (platform_request ''cert.php'' header (Cert_response ctx) st) (\<lambda>(ret, st). Inr st)
      else
        go (if opt_no_mqtt st \<noteq> 0 then Inr st
            else if cx_is_broker ctx then
              (if mqtt_proc st = None then mqtt_start st
               else if cx_restart_broker ctx then mqtt_stop True st else Inr st)
            else mqtt_stop False st)
          (app_request (ctx\<lparr>cx_index := 0\<rparr>)))"

definition file_overwrite :: "string \<Rightarrow> string \<Rightarrow> launcher \<Rightarrow> bool \<times> launcher" where
  \<comment> \<open>\<open>open (O_RDWR | O_CREAT)\<close> and \<open>write\<close>: the end of an older, longer file stays\<close>
  "file_overwrite path content st =
     (case ls_write (ln_sys st) path content of
        None \<Rightarrow> (False, st)
      | Some n \<Rightarrow>
          let old = (case ln_files st path of None \<Rightarrow> [] | Some s \<Rightarrow> s)
          in (True, st\<lparr>ln_files := (ln_files st)(path \<mapsto> take n content @ drop (min n (length content)) old)\<rparr>))"

definition cert_store :: "cert_t \<Rightarrow> string \<Rightarrow> launcher \<Rightarrow> launcher" where
  "cert_store crt content st =
     (case file_overwrite (ce_path crt) content st of
        (False, st) \<Rightarrow> st
      | (True, st) \<Rightarrow>
          (case ce_fingerprint crt of
             None \<Rightarrow> st | Some fp \<Rightarrow> snd (file_write (ce_path crt @ ''.fp'') fp st)))"

definition cert_response :: "ctx_t \<Rightarrow> string option \<Rightarrow> launcher \<Rightarrow> launcher ends" where
  "cert_response ctx buf st =
     (case buf of
        None \<Rightarrow> hello_retry st
      | Some buf \<Rightarrow>
          if buf = [] then Inl None
          else
            case platform_get_status buf of (errcode, errstr, ofs) \<Rightarrow>
              if errcode = 0
              then cert_request (ctx\<lparr>cx_index := cx_index ctx + 1\<rparr>)
                     (cert_store (cx_certs ctx ! cx_index ctx) (drop ofs buf) st)
              else hello_retry st)"

definition cert_check :: "string \<Rightarrow> ctx_t \<Rightarrow> launcher \<Rightarrow> int \<times> ctx_t \<times> launcher" where
  "cert_check str ctx st =
     (case strchr str SP of
        None \<Rightarrow> (0, ctx, st)
      | Some i \<Rightarrow>
          let name = take i str; fp = drop (i + 1) str; path = opt_lib_dir st @ ''/certs/'' @ name
          in if map_option cstr (file_head (path @ ''.fp'') st) = Some fp then (0, ctx, st)
             else
               let st = st\<lparr>ln_files := (ln_files st)(path @ ''.fp'' := None)\<rparr>;
                   crt = \<lparr>ce_fingerprint = Some fp, ce_name = name, ce_path = path\<rparr>;
                   key = (if name = ''server.crt''
                     then [\<lparr>ce_fingerprint = None, ce_name = ''server.key'', ce_path = opt_lib_dir st @ ''/certs/server.key''\<rparr>]
                     else [])
               in (1, ctx\<lparr>cx_certs := cx_certs ctx @ [crt] @ key\<rparr>, st))"

section \<open>Hello\<close>

definition hello_file :: "launcher \<Rightarrow> string" where
  "hello_file st = opt_lib_dir st @ ''/HELLO''"

definition hello_cache_save :: "string list \<Rightarrow> launcher \<Rightarrow> int \<times> launcher" where
  "hello_cache_save argv st =
     (case file_write (hello_file st) (concat (map (\<lambda>a. a @ [LF]) argv)) st of
        (None, st) \<Rightarrow> (-1, st) | (Some n, st) \<Rightarrow> (0, st))"

definition hello_response_parse :: "string \<Rightarrow> ctx_t \<times> launcher \<Rightarrow> (ctx_t \<times> launcher) ends" where
  "hello_response_parse str s =
     (case s of (ctx, st) \<Rightarrow>
        let (key, val) = (case strchr str CHR '':'' of
              None \<Rightarrow> (str, None) | Some i \<Rightarrow> (take i str, Some (dropWhile is_blank (drop (i + 1) str))))
        in if key = ''Tile'' then Inr (case val of None \<Rightarrow> (ctx, st) | Some v \<Rightarrow> (ctx_tile_feed v st ctx, st))
           else if key = ''Cert'' then Inr (case val of None \<Rightarrow> (ctx, st) | Some v \<Rightarrow> snd (cert_check v ctx st))
           else if key = ''MQTT-broker'' then
             (if opt_no_mqtt st = 0
              then go (mqtt_write_config st) (\<lambda>st. Inr (ctx\<lparr>cx_is_broker := True\<rparr>, st)) else Inr (ctx, st))
           else Inr (ctx, st))"

definition hello_cache_load :: "launcher \<Rightarrow> (ctx_t option \<times> launcher) ends" where
  \<comment> \<open>lines as \<open>fgets\<close> cuts them, without trailing blanks\<close>
  "hello_cache_load st =
     (case ln_files st (hello_file st) of
        None \<Rightarrow> Inr (None, st)
      | Some content \<Rightarrow>
          go (go_all (\<lambda>buf. hello_response_parse (rev (dropWhile (\<lambda>c. cval c \<le> 32) (rev (cstr buf)))))
                (fgets_lines 128 content) (ctx_alloc, st))
            (\<lambda>(ctx, st). Inr (Some ctx, st)))"

definition hello_accepted :: "string list \<Rightarrow> launcher \<Rightarrow> launcher ends" where
  "hello_accepted argv st =
     go (go_all hello_response_parse argv (ctx_alloc, snd (hello_cache_save argv st)))
       (\<lambda>(ctx, st). cert_request (ctx\<lparr>cx_index := 0\<rparr>) st)"

definition hello_fallback :: "launcher \<Rightarrow> launcher ends" where
  \<comment> \<open>the server cannot be reached: the engine runs what is in the cache\<close>
  "hello_fallback st =
     (if ln_state st \<noteq> ST_RUN then
        go (hello_cache_load st)
          (\<lambda>(ctx, st). case ctx of None \<Rightarrow> Inr st | Some ctx \<Rightarrow> engine_start ctx (st\<lparr>running_fallback := True\<rparr>))
      else Inr st)"

definition hello_response :: "string option \<Rightarrow> launcher \<Rightarrow> launcher ends" where
  \<comment> \<open>an empty reply is ignored\<close>
  "hello_response buf st =
     (case buf of
        None \<Rightarrow> go (hello_fallback st) hello_retry
      | Some buf \<Rightarrow>
          if buf = [] then Inr st
          else
            case platform_get_status buf of (errcode, errstr, ofs) \<Rightarrow>
              go (if errcode = 0 then hello_accepted (platform_get_lines (drop ofs buf)) st
                  else if 0 < errcode then engine_stop (st\<lparr>ln_state := ST_HELLO\<rparr>)
                  else Inr st)
                (\<lambda>st. if errcode \<noteq> 0 then hello_retry st else Inr st))"

definition hello_request :: "launcher \<Rightarrow> (int \<times> launcher) ends" where
  "hello_request st =
     (if ln_state st \<noteq> ST_RUN \<or> running_fallback st then
        let st = (if ln_state st \<noteq> ST_RUN then st\<lparr>ln_state := ST_HELLO\<rparr> else st)\<lparr>running_fallback := False\<rparr>;
            header = ''HAKit-Version: '' @ ls_version (ln_sys st) @ CRLF
        in case (case ls_uname (ln_sys st) of
                   None \<Rightarrow> Some header
                 | Some (os, node) \<Rightarrow>
                     Option.bind (fmt_append (''HAKit-OS: '' @ os @ CRLF) header)
                       (fmt_append (''HAKit-Hostname: '' @ node @ CRLF))) of
             None \<Rightarrow> Inl None
           | Some header \<Rightarrow> platform_request ''hello.php'' header Hello_response st
      else platform_request ''hello.php'' [] Hello_response st)"

section \<open>Events\<close>

definition launcher_call :: "string \<Rightarrow> nat option \<Rightarrow> launcher \<Rightarrow> (int \<times> launcher) ends" where
  \<comment> \<open>the functions of the timers\<close>
  "launcher_call func arg st =
     (if func = ''hello_request'' then hello_request st
      else if func = ''mqtt_start_now'' then Inr (mqtt_start_now st)
      else case arg of
        None \<Rightarrow> Inl None
      | Some k \<Rightarrow>
          if func = ''hk_proc_kill_timeout'' then Inr (hk_proc_kill_timeout k st)
          else if func = ''hk_proc_hangup_timeout'' then hk_proc_hangup_timeout launcher_calls k st
          else Inl None)"

definition request_done :: "request_func \<Rightarrow> string option \<Rightarrow> launcher \<Rightarrow> launcher ends" where
  \<comment> \<open>the reply to a request; none: the connection failed\<close>
  "request_done func buf st =
     (case func of
        Hello_response \<Rightarrow> hello_response buf st
      | App_response ctx \<Rightarrow> app_response ctx buf st
      | Cert_response ctx \<Rightarrow> cert_response ctx buf st)"

definition launcher_stdin_recv :: "string option \<Rightarrow> launcher \<Rightarrow> int \<times> launcher" where
  "launcher_stdin_recv buf st =
     (case buf of
        None \<Rightarrow> (0, sys_quit st)
      | Some s \<Rightarrow> (1, case engine_proc st of None \<Rightarrow> st | Some k \<Rightarrow> hk_proc_write k s st))"

section \<open>The program\<close>

definition LIB_DIR :: string where "LIB_DIR = ''/var/lib/hakit''"

definition goodbye :: "launcher \<Rightarrow> launcher ends" where
  "goodbye st =
     (case opt_text (ov_str (ln_vars st) 0) of
        None \<Rightarrow> Inl None | Some f \<Rightarrow> Inr (st\<lparr>ln_files := (ln_files st)(f := None)\<rparr>))"

definition write_pid_file :: "int \<Rightarrow> launcher \<Rightarrow> launcher ends" where
  "write_pid_file pid st =
     (case opt_text (ov_str (ln_vars st) 0) of
        None \<Rightarrow> Inl None | Some f \<Rightarrow> Inr (snd (file_write f (int_dec pid @ [LF]) st)))"

definition run_as_daemon :: "int \<Rightarrow> bool \<Rightarrow> launcher \<Rightarrow> launcher ends" where
  \<comment> \<open>what \<open>fork\<close> returns, and whether \<open>setsid\<close> works\<close>
  "run_as_daemon pid setsid st =
     (if pid < 0 then Inl (Some 3)
      else if 0 < pid then go (write_pid_file pid st) (\<lambda>st. Inl (Some 0))
      else
        let st = snd (sys_quit_handler (Some ''goodbye'') None st)
        in if setsid then Inr st else Inl (Some 3))"

definition api_auth_entry :: options_entry where
  "api_auth_entry = \<lparr>oe_long = ''api-key'', oe_short = CHR ''K'', oe_flags = 0, oe_type = OPTIONS_TYPE_STRING, oe_ptr = 0,
     oe_symbol = None\<rparr>"

definition api_conf_line :: "string \<Rightarrow> opt_vars \<Rightarrow> (int \<times> opt_vars) option" where
  \<comment> \<open>the table has no end mark: a keyword that is not the start of \<open>api-key\<close> is looked for beyond it\<close>
  "api_conf_line buf v =
     (let kw = strip_line buf; len = length (takeWhile (\<lambda>c. is_graph c \<and> c \<noteq> CHR ''='') kw)
      in if kw \<noteq> [] \<and> take len (oe_long api_auth_entry) \<noteq> take len kw then None
         else conf_line [api_auth_entry] buf v)"

fun api_conf_loop :: "string list \<Rightarrow> opt_vars \<Rightarrow> opt_vars option" where
  "api_conf_loop [] v = Some v"
| "api_conf_loop (buf # bufs) v =
     (case api_conf_line buf v of
        None \<Rightarrow> None
      | Some (ret, v) \<Rightarrow> if ret = 0 then api_conf_loop bufs v else Some v)"

definition api_conf_parse :: "(string \<rightharpoonup> string) \<Rightarrow> string option \<Rightarrow> launcher \<Rightarrow> launcher ends" where
  "api_conf_parse conf conf_dir st =
     (case conf (option_conf_path conf_dir ''platform'') of
        None \<Rightarrow> Inr st
      | Some content \<Rightarrow>
          (case api_conf_loop (fgets_lines CONF_LINE_SIZE content)
                  \<lparr>ov_int = (\<lambda>_. 0), ov_str = (\<lambda>_. Opt_null)\<rparr> of
             None \<Rightarrow> Inl None
           | Some v \<Rightarrow> Inr (st\<lparr>opt_api_key := opt_text (ov_str v 0)\<rparr>)))"

function local_tiles :: "string option \<Rightarrow> launcher \<Rightarrow> ctx_t \<Rightarrow> ctx_t" where
  \<comment> \<open>the list \<open>TILE,...\<close>\<close>
  "local_tiles None st ctx = ctx"
| "local_tiles (Some s) st ctx =
     (let (tile, sep) = (case strchr s CHR '','' of
                           None \<Rightarrow> (s, None) | Some i \<Rightarrow> (take i s, Some (drop (i + 1) s)))
      in local_tiles sep st (ctx_tile_feed_local tile st ctx))"
  by pat_completeness auto
termination
  by (relation "measure (\<lambda>(s, st, ctx). case s of None \<Rightarrow> 0 | Some s \<Rightarrow> Suc (length s))")
    (auto split: option.splits dest!: strchr_SomeD)

definition launcher_online :: "bool \<Rightarrow> launcher \<Rightarrow> launcher ends" where
  \<comment> \<open>without tiles on the command line; \<open>lib\<close>: the directory can be made. What is loaded from
    the cache when there is no key is not started.\<close>
  "launcher_online lib st =
     (if \<not> lib then Inl (Some 2)
      else if opt_api_key st \<noteq> None then
        go (hello_request st)
          (\<lambda>(ret, st). Inr (if ret < 0 then snd (timer HELLO_RETRY_INIT_DELAY ''hello_request'' st) else st))
      else
        go (hello_cache_load st) (\<lambda>(ctx, st). case ctx of None \<Rightarrow> Inl (Some 2) | Some ctx \<Rightarrow> Inr st))"

record launcher_host =
  lh_glob :: "string \<Rightarrow> string list option"
  lh_conf :: "string \<rightharpoonup> string"
  lh_os :: env_os
  lh_fork :: int
  lh_setsid :: bool
  lh_client :: bool
  lh_lib :: bool

definition launcher_start :: "launcher_host \<Rightarrow> string option \<Rightarrow> string list \<Rightarrow> opt_vars \<Rightarrow> launcher \<Rightarrow> launcher ends" where
  \<comment> \<open>\<open>main\<close> once the options are known\<close>
  "launcher_start host conf_dir argv v st =
     (case env_init (lh_os host) (hd argv) env_none of
        None \<Rightarrow> Inl None
      | Some env \<Rightarrow>
          let lib_dir = (case opt_text (ov_str v 2) of
                Some d \<Rightarrow> d
              | None \<Rightarrow> (case env_devdir env (Some ''lib'') of None \<Rightarrow> LIB_DIR | Some d \<Rightarrow> d));
              tile = opt_text (ov_str v 4);
              local_run = tl argv \<noteq> [] \<or> tile \<noteq> None;
              st = st\<lparr>ln_vars := v, opt_lib_dir := lib_dir, ln_sys := (ln_sys st)
                \<lparr>ls_bin := (case env_bindir env (Some ''hakit-engine'') of None \<Rightarrow> [] | Some b \<Rightarrow> b)\<rparr>\<rparr>
          in go (if opt_daemon st \<noteq> 0 then run_as_daemon (lh_fork host) (lh_setsid host) st else Inr st)
               (\<lambda>st.
                 let st = (if local_run then st\<lparr>ln_vars := (ln_vars st)\<lparr>ov_int := (ov_int (ln_vars st))(2 := 1)\<rparr>\<rparr> else st)
                 in go (if opt_offline st = 0 then api_conf_parse (lh_conf host) conf_dir st else Inr st)
                      (\<lambda>st.
                        let st = (if opt_daemon st = 0
                              then snd (io_channel_setup 0 0 (Some ''stdin_recv'') (None :: unit option) st) else st)
                        in if \<not> lh_client host then Inl (Some 1)
                           else if local_run
                           then engine_start (foldl (\<lambda>ctx path. ctx_tile_feed_local path st ctx)
                                   (local_tiles tile st ctx_alloc) (tl argv)) st
                           else launcher_online (lh_lib host) st)))"

definition launcher_main :: "launcher_host \<Rightarrow> string list \<Rightarrow> launcher \<Rightarrow> launcher ends" where
  "launcher_main host argv st =
     (case options_parse (lh_glob host) (lh_conf host) launcher_options (Some ''launcher*'') argv None launcher_vars of
        None \<Rightarrow> Inl None
      | Some (conf_dir, Help_exit) \<Rightarrow> Inl (Some 1)
      | Some (conf_dir, Parsed argv v) \<Rightarrow> launcher_start host conf_dir argv v st)"

end
