(* ===== verification/Hk_Launch.thy ===== *)
theory Hk_Launch
  imports Hk_Launcher
begin

text \<open>
  What the launcher does with the engine, the tiles and its cache: the engine is restarted with the
  command line of the new tiles, a tile is used only when it is complete, and the two ways in which
  the launcher loses its engine.
\<close>

section \<open>Frames\<close>

lemma proc_quiet_launcher:
  fixes s s' :: launcher
  assumes "proc_quiet s s'"
  shows "ln_state s' = ln_state s" "engine_proc s' = engine_proc s" "engine_argv s' = engine_argv s"
    "mqtt_proc s' = mqtt_proc s" "execs s' = execs s" "forks s' = forks s" "alive s' = alive s" "kills s' = kills s"
    "ln_vars s' = ln_vars s" "opt_api_key s' = opt_api_key s" "opt_lib_dir s' = opt_lib_dir s" "ln_sys s' = ln_sys s"
    "ln_files s' = ln_files s" "running_fallback s' = running_fallback s" "hk_clock s' = hk_clock s"
    "requests s' = requests s"
  using assms by (cases s; cases s'; simp add: proc_quiet_def)+

lemma timer_simps [simp]:
  "ln_state (snd (timer d f st)) = ln_state st" "engine_proc (snd (timer d f st)) = engine_proc st"
  "execs (snd (timer d f st)) = execs st" "procs (snd (timer d f st)) = procs st" "kills (snd (timer d f st)) = kills st"
  "forks (snd (timer d f st)) = forks st" "engine_argv (snd (timer d f st)) = engine_argv st"
proof -
  have "proc_quiet st (snd (timer d f st))" by (simp add: timer_def sys_quiet)
  from proc_quiet_launcher [OF this] show "ln_state (snd (timer d f st)) = ln_state st"
    "engine_proc (snd (timer d f st)) = engine_proc st" "execs (snd (timer d f st)) = execs st"
    "kills (snd (timer d f st)) = kills st" "forks (snd (timer d f st)) = forks st"
    "engine_argv (snd (timer d f st)) = engine_argv st" by simp_all
qed (simp add: timer_def)

lemma ping_frame [simp]:
  "ln_state (ping_stop st) = ln_state st" "engine_proc (ping_stop st) = engine_proc st"
  "execs (ping_stop st) = execs st" "procs (ping_stop st) = procs st" "kills (ping_stop st) = kills st"
  "forks (ping_stop st) = forks st" "engine_argv (ping_stop st) = engine_argv st"
  "ln_state (ping_start st) = ln_state st" "engine_proc (ping_start st) = engine_proc st"
  "execs (ping_start st) = execs st" "procs (ping_start st) = procs st" "kills (ping_start st) = kills st"
proof -
  have s: "ln_state (ping_stop st) = ln_state st" "engine_proc (ping_stop st) = engine_proc st"
    "execs (ping_stop st) = execs st" "procs (ping_stop st) = procs st" "kills (ping_stop st) = kills st"
    "forks (ping_stop st) = forks st" "engine_argv (ping_stop st) = engine_argv st" for st
    using proc_quiet_launcher [OF sys_quiet(1) [of st "ping_timeout_tag st"]] by (simp_all add: ping_stop_def)
  show "ln_state (ping_stop st) = ln_state st" "engine_proc (ping_stop st) = engine_proc st"
    "execs (ping_stop st) = execs st" "procs (ping_stop st) = procs st" "kills (ping_stop st) = kills st"
    "forks (ping_stop st) = forks st" "engine_argv (ping_stop st) = engine_argv st" by (rule s)+
  show "ln_state (ping_start st) = ln_state st" "engine_proc (ping_start st) = engine_proc st"
    "execs (ping_start st) = execs st" "procs (ping_start st) = procs st" "kills (ping_start st) = kills st"
    by (simp_all add: ping_start_def case_prod_beta s)
qed

section \<open>Restart of the engine\<close>

definition engine_runs :: "nat \<Rightarrow> launcher \<Rightarrow> bool" where
  \<comment> \<open>the engine is the process \<open>k\<close>, and can be stopped\<close>
  "engine_runs k st \<longleftrightarrow> engine_proc st = Some k \<and> k < length (procs st) \<and>
     pr_state (proc_at st k) = HK_PROC_ST_RUN \<and> pr_pid (proc_at st k) \<in> set (alive st) \<and>
     pr_cb_term (proc_at st k) = Some Engine_terminated"

lemma engine_stop_running:
  assumes "engine_runs k st"
  shows "\<exists>t s1. engine_stop st = Inr s1 \<and> engine_proc s1 = None \<and> ln_state s1 = ln_state st \<and>
    engine_argv s1 = engine_argv st \<and> execs s1 = execs st \<and> forks s1 = forks st \<and> opt_api_key s1 = opt_api_key st \<and>
    kills s1 = kills st @ [(pr_pid (proc_at st k), SIGTERM)] \<and>
    procs s1 = map_nth k (\<lambda>p. p\<lparr>pr_state := HK_PROC_ST_KILL, pr_timeout_tag := t\<rparr>) (procs st)"
proof -
  obtain t s1 where s: "hk_proc_stop launcher_calls k st = Inr s1"
    "proc_quiet (st\<lparr>kills := kills st @ [(pr_pid (proc_at st k), SIGTERM)]\<rparr>) s1"
    "procs s1 = map_nth k (\<lambda>p. p\<lparr>pr_state := HK_PROC_ST_KILL, pr_timeout_tag := t\<rparr>) (procs st)"
    using stop_running [of k st launcher_calls] assms unfolding engine_runs_def by blast
  have "engine_stop st = Inr (s1\<lparr>engine_proc := None\<rparr>)"
    using assms s(1) by (simp add: engine_stop_def engine_runs_def)
  with proc_quiet_launcher [OF s(2)] s(3) show ?thesis by (intro exI [of _ t] exI [of _ "s1\<lparr>engine_proc := None\<rparr>"]) simp
qed

lemma engine_start_running:
  assumes "engine_runs k st" "\<forall>tile\<in>set (cx_tiles ctx). tl_ready tile"
  shows "\<exists>t s1. engine_start ctx st = Inr s1 \<and> engine_proc s1 = None \<and> ln_state s1 = ST_RESTART \<and>
    engine_argv s1 = engine_args ctx st \<and> execs s1 = execs st \<and> forks s1 = forks st \<and> opt_api_key s1 = opt_api_key st \<and>
    kills s1 = kills st @ [(pr_pid (proc_at st k), SIGTERM)] \<and>
    procs s1 = map_nth k (\<lambda>p. p\<lparr>pr_state := HK_PROC_ST_KILL, pr_timeout_tag := t\<rparr>) (procs st)"
proof -
  let ?s = "st\<lparr>engine_argv := engine_args ctx st, ln_state := ST_RESTART\<rparr>"
  have "engine_runs k ?s" using assms(1) by (simp add: engine_runs_def)
  from engine_stop_running [OF this] show ?thesis
    using assms by (auto simp: engine_start_def Let_def engine_runs_def)
qed

text \<open>
  C16: When the platform sends new tiles while the engine runs, the engine gets the TERM signal, and
  when it has ended a new one is started with the command line of the new tiles; the launcher is
  then in the running state, with the new process.
\<close>

theorem engine_restarts:
  assumes "engine_runs k st" "\<forall>tile\<in>set (cx_tiles ctx). tl_ready tile" "forks st = Some c # next"
  shows "\<exists>s1 s2 k'. engine_start ctx st = Inr s1 \<and> kills s1 = kills st @ [(pr_pid (proc_at st k), SIGTERM)] \<and>
    hk_proc_sigchld launcher_calls k (pr_pid (proc_at s1 k)) status s1 = Inr s2 \<and>
    engine_proc s2 = Some k' \<and> k' \<noteq> k \<and> ln_state s2 = ST_RUN \<and> pr_state (proc_at s2 k') = HK_PROC_ST_RUN \<and>
    pr_pid (proc_at s2 k') = fk_pid c \<and> execs s2 = execs st @ [(fk_pid c, engine_args ctx st)]"
proof -
  obtain t s1 where s1: "engine_start ctx st = Inr s1" "engine_proc s1 = None" "ln_state s1 = ST_RESTART"
    "engine_argv s1 = engine_args ctx st" "execs s1 = execs st" "forks s1 = forks st"
    "kills s1 = kills st @ [(pr_pid (proc_at st k), SIGTERM)]"
    "procs s1 = map_nth k (\<lambda>p. p\<lparr>pr_state := HK_PROC_ST_KILL, pr_timeout_tag := t\<rparr>) (procs st)"
    using engine_start_running [OF assms(1,2)] by blast
  have k: "k < length (procs s1)" "pr_cb_term (proc_at s1 k) = Some Engine_terminated"
    "pr_state (proc_at s1 k) = HK_PROC_ST_KILL"
    using assms(1) unfolding engine_runs_def s1(8) by (simp_all add: map_nth_def)
  obtain s2 where s2: "proc_quiet s1 s2" "procs s2 = map_nth k (\<lambda>p. p\<lparr>pr_pid := 0, pr_timeout_tag := 0\<rparr>) (procs s1)"
    "hk_proc_sigchld launcher_calls k (pr_pid (proc_at s1 k)) status s1 =
       go (engine_terminated s2) (\<lambda>st. Inr (hk_proc_remove k (hk_proc_term k st)))"
    using sigchld_effect [OF k(1), of launcher_calls status] k(2) by (auto simp: launcher_calls_def)
  note q = proc_quiet_launcher [OF s2(1)]
  have pk: "pr_state (proc_at s2 k) = HK_PROC_ST_KILL" "k < length (procs s2)"
    using k unfolding s2(2) by (simp_all add: map_nth_def)
  let ?p = "ping_stop s2"
  let ?k = "case hk_proc_find_free ?p of Some k \<Rightarrow> k | None \<Rightarrow> length (procs ?p)"
  have kk: "?k \<noteq> k" using pk by (auto simp: hk_proc_find_free_def split: option.split dest: find_index_SomeD)
  have "forks ?p = Some c # next" using assms(3) s1(6) q(6) by simp
  from start_effect [OF this, of "engine_argv ?p" "Some Engine_stdout" "Some Engine_stderr" "Some Engine_terminated" 0]
  obtain s3 tag out err where s3: "hk_proc_start (engine_argv ?p) (Some Engine_stdout) (Some Engine_stderr)
      (Some Engine_terminated) 0 ?p = (Some ?k, s3)"
    "proc_quiet (?p\<lparr>forks := next, alive := alive ?p @ [fk_pid c], execs := execs ?p @ [(fk_pid c, engine_argv ?p)]\<rparr>) s3"
    and p3: "procs s3 = (let ps = procs ?p @ (if ?k < length (procs ?p) then [] else [hk_proc_zero]) in
      ps[?k := \<lparr>pr_state = HK_PROC_ST_RUN, pr_pid = fk_pid c, pr_stdin_fd = fk_in c, pr_stdout = out, pr_stderr = err,
        pr_sigchld_tag = tag, pr_timeout_tag = 0, pr_cb_stdout = Some Engine_stdout, pr_cb_stderr = Some Engine_stderr,
        pr_cb_term = Some Engine_terminated, pr_user_data = 0\<rparr>])"
    by blast
  define s4 where "s4 = (let st = s3\<lparr>engine_proc := Some ?k, ln_state := ST_RUN\<rparr>
    in if opt_offline st = 0 \<and> \<not> running_fallback st then ping_start st else st)"
  have e: "engine_terminated s2 = Inr s4"
    using s3(1) s1(2,3) q(1,2) by (simp add: engine_terminated_def engine_start_now_def s4_def Let_def)
  have f4: "engine_proc s4 = Some ?k" "ln_state s4 = ST_RUN" "procs s4 = procs s3" "execs s4 = execs s3"
    by (simp_all add: s4_def Let_def)
  have ex: "execs s3 = execs st @ [(fk_pid c, engine_args ctx st)]"
    using proc_quiet_launcher(5) [OF s3(2)] s1(4,5) q(3,5) by simp
  let ?s5 = "hk_proc_remove k (hk_proc_term k s4)"
  have l: "k < length (procs s4)" "?k < length (procs s4)"
    using pk(2) unfolding f4(3) p3 Let_def
    by (auto simp: hk_proc_find_free_def split: option.split dest: find_index_SomeD)
  have "proc_quiet s4 ?s5" unfolding hk_proc_remove_def by (rule proc_quiet_trans [OF term_quiet sys_quiet(6)])
  note q5 = proc_quiet_launcher [OF this]
  have "proc_at ?s5 ?k = proc_at s4 ?k"
    using kk unfolding hk_proc_remove_def procs_upd term_procs [OF l(1)] by (simp add: map_nth_def)
  also have "\<dots> = proc_at s3 ?k" by (simp add: f4)
  finally have "pr_state (proc_at ?s5 ?k) = HK_PROC_ST_RUN" "pr_pid (proc_at ?s5 ?k) = fk_pid c"
    using l(2) unfolding f4(3) by (simp_all add: p3 Let_def)
  with s1(1,7) s2(3) e q5 f4 ex kk show ?thesis by auto
qed


section \<open>Engines that are lost\<close>

definition scheduled :: "string \<Rightarrow> launcher \<Rightarrow> bool" where
  \<comment> \<open>some event will call \<open>func\<close>\<close>
  "scheduled func st \<longleftrightarrow> (\<exists>src\<in>set (sources st). s_func src = Some func)"

lemma scheduled_map_nth:
  assumes "\<exists>src\<in>set (map_nth k g xs). s_func src = Some func" "\<And>x. s_func (g x) \<noteq> Some func \<or> s_func (g x) = s_func x"
  shows "\<exists>src\<in>set xs. s_func src = Some func"
proof (cases "k < length xs")
  case True
  obtain src where src: "src \<in> insert (g (xs ! k)) (set xs)" "s_func src = Some func"
    using assms(1) set_update_subset_insert [of xs k "g (xs ! k)"] unfolding map_nth_def by blast
  then show ?thesis using assms(2) [of "xs ! k"] nth_mem [OF True] by auto
next
  case False
  then show ?thesis using assms(1) by (simp add: map_nth_def list_update_beyond)
qed

lemma scheduled_remove: "scheduled func (sys_remove tag st) \<Longrightarrow> scheduled func st"
  unfolding scheduled_def sys_remove_def upd_source_def
  by (auto split: option.splits elim!: scheduled_map_nth)

lemma scheduled_timeout:
  assumes "scheduled func (snd (sys_timeout now delay (Some g) arg st))" "func \<noteq> g"
  shows "scheduled func st"
proof (cases "find_index (\<lambda>src. s_tag src = 0) (sources st)")
  case None
  with assms(1) show ?thesis
    by (simp add: scheduled_def sys_timeout_def sys_source_add_def with_source_def)
next
  case (Some i)
  have "\<exists>src\<in>set (map_nth i (\<lambda>src. sys_source_clear\<lparr>s_tag := last_tag st + 1, s_func := Some g, s_arg := arg\<rparr>)
      (sources st)). s_func src = Some func"
    using assms(1) Some
    by (auto simp: scheduled_def sys_timeout_def sys_source_add_def with_source_def upd_source_def Let_def
        elim!: scheduled_map_nth)
  from scheduled_map_nth [OF this] assms(2) show ?thesis unfolding scheduled_def by auto
qed

lemma scheduled_proc [simp]: "scheduled func (upd_proc k g st) = scheduled func st"
  by (simp add: scheduled_def upd_proc_def)

lemma scheduled_cancel: "scheduled func (hk_proc_timeout_cancel k st) \<Longrightarrow> scheduled func st"
  by (auto simp: hk_proc_timeout_cancel_def Let_def split: if_splits dest: scheduled_remove)

lemma scheduled_close: "scheduled func (snd (io_channel_close chan st)) \<Longrightarrow> scheduled func st"
  by (auto simp: io_channel_close_def split: if_splits dest: scheduled_remove)

lemma scheduled_term: "scheduled func (hk_proc_term k st) \<Longrightarrow> scheduled func st"
  unfolding hk_proc_term_def Let_def case_prod_beta
  by (auto split: if_splits dest!: scheduled_cancel scheduled_remove scheduled_close)

lemma scheduled_kill [simp]: "scheduled func (snd (hk_proc_kill pid sig st)) = scheduled func st"
  by (simp add: hk_proc_kill_def scheduled_def)

lemma scheduled_kill_timeout: "scheduled func (snd (hk_proc_kill_timeout k st)) \<Longrightarrow> scheduled func st"
  by (auto simp: hk_proc_kill_timeout_def hk_proc_remove_def Let_def dest!: scheduled_term)

lemma engine_start_keeps:
  assumes "engine_runs k st" "\<forall>tile\<in>set (cx_tiles ctx). tl_ready tile" "engine_start ctx st = Inr s1"
  shows "alive s1 = alive st" "requests s1 = requests st" "ln_files s1 = ln_files st"
    "scheduled ''hello_request'' s1 \<Longrightarrow> scheduled ''hello_request'' st"
proof -
  define s where "s = upd_proc k (\<lambda>p. p\<lparr>pr_state := HK_PROC_ST_KILL\<rparr>) (st\<lparr>engine_argv := engine_args ctx st, ln_state := ST_RESTART\<rparr>)"
  let ?s = "s\<lparr>kills := kills st @ [(pr_pid (proc_at st k), SIGTERM)]\<rparr>"
  have r: "engine_proc st = Some k" "k < length (procs st)" "pr_state (proc_at st k) = HK_PROC_ST_RUN"
    "pr_pid (proc_at st k) \<in> set (alive st)"
    using assms(1) by (simp_all add: engine_runs_def)
  have f: "pr_pid (proc_at s k) = pr_pid (proc_at st k)" "alive s = alive st" "kills s = kills st" "requests s = requests st"
    "ln_files s = ln_files st" "scheduled func s = scheduled func st" for func
    using r(2) by (simp_all add: s_def upd_proc_def map_nth_def scheduled_def)
  have "hk_proc_kill (pr_pid (proc_at st k)) SIGTERM s = (True, ?s)"
    using r(4) by (simp add: hk_proc_kill_def f)
  then have "engine_start ctx st = Inr ((hk_proc_timeout 1000 ''hk_proc_kill_timeout'' k ?s)\<lparr>engine_proc := None\<rparr>)"
    using assms(2) r(1,3) f(1) unfolding engine_start_def engine_stop_def hk_proc_stop_def Let_def s_def by auto
  then have s1: "s1 = (hk_proc_timeout 1000 ''hk_proc_kill_timeout'' k ?s)\<lparr>engine_proc := None\<rparr>"
    using assms(3) by simp
  note q = proc_quiet_launcher [OF timer_procs(2) [where st = ?s and delay = 1000 and func = "''hk_proc_kill_timeout''" and k = k]]
  show "alive s1 = alive st" "requests s1 = requests st" "ln_files s1 = ln_files st"
    unfolding s1 using q by (simp_all add: f)
  assume "scheduled ''hello_request'' s1"
  then have "scheduled ''hello_request'' (snd (sys_timeout (hk_clock ?s) 1000 (Some ''hk_proc_kill_timeout'') (Some k) ?s))"
    by (simp add: s1 hk_proc_timeout_def case_prod_beta scheduled_def upd_proc_def)
  from scheduled_timeout [OF this] show "scheduled ''hello_request'' st"
    using f(6) by (simp add: scheduled_def)
qed

text \<open>
  C38: An engine that ignores the TERM signal is not restarted with the new tiles: one second later it
  is killed, and the launcher is not told of its end. It stays in the restart state, without an
  engine, and when the hello that brought the tiles came from its timer no event is left that would
  ask the platform again or start the engine.
\<close>

theorem engine_restart_lost:
  assumes "engine_runs k st" "\<forall>tile\<in>set (cx_tiles ctx). tl_ready tile" "\<not> scheduled ''hello_request'' st"
  shows "\<exists>s1 s2 s3. engine_start ctx st = Inr s1 \<and> hk_proc_kill_timeout k s1 = (0, s2) \<and>
    kills s2 = kills st @ [(pr_pid (proc_at st k), SIGTERM), (pr_pid (proc_at st k), SIGKILL)] \<and>
    hk_proc_sigchld launcher_calls k (pr_pid (proc_at st k)) status s2 = Inr s3 \<and>
    ln_state s3 = ST_RESTART \<and> engine_proc s3 = None \<and> execs s3 = execs st \<and> requests s3 = requests st \<and>
    \<not> scheduled ''hello_request'' s3"
proof -
  obtain t s1 where s1: "engine_start ctx st = Inr s1" "engine_proc s1 = None" "ln_state s1 = ST_RESTART"
    "execs s1 = execs st" "kills s1 = kills st @ [(pr_pid (proc_at st k), SIGTERM)]"
    "procs s1 = map_nth k (\<lambda>p. p\<lparr>pr_state := HK_PROC_ST_KILL, pr_timeout_tag := t\<rparr>) (procs st)"
    using engine_start_running [OF assms(1,2)] by blast
  note keep = engine_start_keeps [OF assms(1,2) s1(1)]
  have k: "k < length (procs st)" "k < length (procs s1)" "pr_pid (proc_at st k) \<in> set (alive st)"
    "pr_pid (proc_at s1 k) = pr_pid (proc_at st k)"
    using assms(1) by (simp_all add: engine_runs_def s1(6) map_nth_def)
  define s2 where "s2 = snd (hk_proc_kill_timeout k s1)"
  have s2: "hk_proc_kill_timeout k s1 = (0, s2)" by (simp add: s2_def hk_proc_kill_timeout_def)
  obtain x where x: "proc_quiet (s1\<lparr>kills := x\<rparr>) s2" "x = kills s1 @ [(pr_pid (proc_at st k), SIGKILL)]"
    using kill_timeout_effect(2) [OF k(2)] k(3,4) keep(1) unfolding s2_def by auto
  note q = proc_quiet_launcher [OF x(1)]
  have p2: "procs s2 = map_nth k freed (procs s1)" unfolding s2_def by (rule kill_timeout_effect(1) [OF k(2)])
  then have k2: "k < length (procs s2)" "pr_cb_term (proc_at s2 k) = None" "pr_pid (proc_at s2 k) = pr_pid (proc_at st k)"
    using k(2,4) by simp_all
  define s3 where "s3 = hk_proc_remove k (hk_proc_term k (hk_proc_timeout_cancel k (upd_proc k (\<lambda>p. p\<lparr>pr_pid := 0\<rparr>) s2)))"
  have s3: "hk_proc_sigchld launcher_calls k (pr_pid (proc_at st k)) status s2 = Inr s3"
  proof -
    have "pr_cb_term (proc_at (hk_proc_timeout_cancel k (upd_proc k (\<lambda>p. p\<lparr>pr_pid := 0\<rparr>) s2)) k) = None"
      using k2 by (simp add: cancel_procs map_nth_def)
    with k2(3) show ?thesis by (simp add: hk_proc_sigchld_def call_term_def s3_def Let_def)
  qed
  have "proc_quiet s2 s3"
    unfolding s3_def hk_proc_remove_def
    by (intro proc_quiet_trans [OF _ sys_quiet(6)] proc_quiet_trans [OF _ term_quiet] proc_quiet_trans [OF _ cancel_quiet] sys_quiet(6))
  note q3 = proc_quiet_launcher [OF this]
  have "scheduled ''hello_request'' s3 \<Longrightarrow> scheduled ''hello_request'' st"
    using keep(4) by (auto simp: s3_def hk_proc_remove_def s2_def dest!: scheduled_term scheduled_cancel scheduled_kill_timeout)
  with assms(3) s1 s2 s3 q q3 x(2) keep show ?thesis
    by (intro exI [of _ s1] exI [of _ s2] exI [of _ s3]) auto
qed

section \<open>The command line of the engine\<close>

lemma nat_dec_leading: "0 < n \<Longrightarrow> hd (nat_dec n) \<noteq> CHR ''0''"
proof (induction n rule: nat_dec.induct)
  case (1 n)
  show ?case
  proof (cases "n < 10")
    case True
    then have "(of_char (digit n) :: nat) \<noteq> of_char (CHR ''0'')" using 1(2) by (simp add: of_char_digit)
    then have "digit n \<noteq> CHR ''0''" by metis
    with True show ?thesis by (subst nat_dec.simps) simp
  next
    case False
    with 1(1) have "hd (nat_dec (n div 10)) \<noteq> CHR ''0''" by simp
    with False show ?thesis by (subst nat_dec.simps) simp
  qed
qed

lemma strtol0_int_dec:
  assumes "0 < i" "i < 2 ^ 31"
  shows "strtol0 (int_dec i) = i"
proof -
  have "base0_val (nat_dec (nat i)) = nat i"
    using nat_dec_leading [of "nat i"] assms(1) digits_val_nat_dec [of "nat i"]
    by (auto simp: base0_val_def split: list.split)
  then show ?thesis
    using assms by (simp add: strtol0_def signed_part_int_dec apply_sign_def clamp_long_def)
qed

definition flag_setting :: "nat \<Rightarrow> int \<Rightarrow> (options_entry \<times> opt_form \<times> string option) list" where
  "flag_setting i v = (if v \<noteq> 0 then [(engine_options ! i, Long, None)] else [])"

definition engine_settings :: "ctx_t \<Rightarrow> launcher \<Rightarrow> (options_entry \<times> opt_form \<times> string option) list" where
  "engine_settings ctx st =
     (if 0 < opt_debug st then [(engine_options ! 0, Long, Some (int_dec (opt_debug st)))] else []) @
     (if opt_no_ssl st \<noteq> 0 then flag_setting 6 1 else [(engine_options ! 8, Long, Some (opt_lib_dir st @ ''/certs''))]) @
     (if opt_no_mqtt st \<noteq> 0 then flag_setting 11 1
      else if cx_is_broker ctx
      then [(engine_options ! 12, Long, Some (ls_hostname (ln_sys st) @ '':'' @ int_dec (opt_mqtt_port st)))] else []) @
     flag_setting 2 (opt_no_hkcp st) @ flag_setting 1 (opt_no_advertise st) @ flag_setting 5 (opt_names st) @
     (case opt_http_alias st of None \<Rightarrow> [] | Some a \<Rightarrow> [(engine_options ! 10, Long, Some a)])"

lemma engine_args_render:
  "engine_args ctx st = ls_bin (ln_sys st) # concat (map render_setting (engine_settings ctx st)) @ map tile_arg (cx_tiles ctx)"
  by (simp add: engine_args_def engine_settings_def flag_setting_def engine_options_def split: option.split)

lemma engine_settings_ok: "\<forall>s\<in>set (engine_settings ctx st). setting_ok engine_options s"
proof -
  have "\<forall>i\<in>{0, 6, 8, 11, 12, 2, 1, 5, 10}. engine_options ! i \<in> set engine_options"
    "\<forall>i\<in>{6, 11, 2, 1, 5}. oe_type (engine_options ! i) = OPTIONS_TYPE_NONE" by code_simp+
  then show ?thesis by (auto simp: engine_settings_def flag_setting_def split: option.split)
qed

lemma no_conf_dir:
  "\<forall>a\<in>set argv. a \<noteq> ''-c'' \<and> take 8 a \<noteq> ''--config'' \<Longrightarrow> find_conf_dir i argv = None"
  by (induction i argv rule: find_conf_dir.induct) auto

lemma engine_args_no_conf:
  assumes "\<forall>tile\<in>set (cx_tiles ctx). take 1 (tile_arg tile) \<noteq> ''-''"
  shows "find_conf_dir 1 (concat (map render_setting (engine_settings ctx st)) @ map tile_arg (cx_tiles ctx)) = None"
proof (rule no_conf_dir)
  have "a \<noteq> ''-c'' \<and> take 8 a \<noteq> ''--config''" if "take 1 a \<noteq> ''-''" for a :: string
    using that by (cases a) auto
  then have tiles: "\<forall>a\<in>set (map tile_arg (cx_tiles ctx)). a \<noteq> ''-c'' \<and> take 8 a \<noteq> ''--config''" using assms by simp
  have l: "take 6 (oe_long e @ x) \<noteq> ''config''" if "e \<in> set engine_options" for e x
    using that by (auto simp: engine_options_def)
  have r: "a \<noteq> ''-c'' \<and> take 8 a \<noteq> ''--config''" if "e \<in> set engine_options" "a \<in> set (render_setting (e, Long, v))" for e v a
    using l [OF that(1), of "[]"] l [OF that(1), of "''='' @ the v"] that(2)
    by (cases v) (simp_all add: numeral_eq_Suc)
  have "\<forall>s\<in>set (engine_settings ctx st). \<exists>e v. s = (e, Long, v)"
    by (auto simp: engine_settings_def flag_setting_def split: option.split)
  then have "\<forall>a\<in>set (concat (map render_setting (engine_settings ctx st))). a \<noteq> ''-c'' \<and> take 8 a \<noteq> ''--config''"
    using r engine_settings_ok [of ctx st] by fastforce
  with tiles show "\<forall>a\<in>set (concat (map render_setting (engine_settings ctx st)) @ map tile_arg (cx_tiles ctx)).
      a \<noteq> ''-c'' \<and> take 8 a \<noteq> ''--config''" unfolding set_append by blast
qed

definition engine_given :: "ctx_t \<Rightarrow> launcher \<Rightarrow> opt_vars" where
  \<comment> \<open>the settings the engine should have, in the order of its variables\<close>
  "engine_given ctx st =
     \<lparr>ov_int = (\<lambda>_. 0)(0 := max 0 (opt_debug st), 5 := of_bool (opt_no_ssl st \<noteq> 0), 7 := of_bool (opt_no_mqtt st \<noteq> 0),
        2 := of_bool (opt_no_hkcp st \<noteq> 0), 1 := of_bool (opt_no_advertise st \<noteq> 0), 4 := of_bool (opt_names st \<noteq> 0)),
      ov_str = (\<lambda>_. Opt_null)
        (1 := (if opt_no_ssl st = 0 then Opt_heap (opt_lib_dir st @ ''/certs'') else Opt_null),
         4 := (if opt_no_mqtt st = 0 \<and> cx_is_broker ctx
               then Opt_heap (ls_hostname (ln_sys st) @ '':'' @ int_dec (opt_mqtt_port st)) else Opt_null),
         3 := (case opt_http_alias st of None \<Rightarrow> Opt_null | Some a \<Rightarrow> Opt_heap a))\<rparr>"

lemma apply_flag:
  assumes "oe_type (engine_options ! i) = OPTIONS_TYPE_NONE" "oe_ptr (engine_options ! i) = p" "ov_int v p = 0"
  shows "foldo apply_setting v (flag_setting i x @ ss) =
    foldo apply_setting (v\<lparr>ov_int := (ov_int v)(p := of_bool (x \<noteq> 0))\<rparr>) ss"
  using assms by (simp add: flag_setting_def apply_setting_def options_parse_value_def fun_upd_idem)

lemma apply_text:
  assumes "oe_type e = OPTIONS_TYPE_STRING" "oe_ptr e = p" "ov_str v p = Opt_null"
  shows "foldo apply_setting v ((e, Long, Some x) # ss) = foldo apply_setting (v\<lparr>ov_str := (ov_str v)(p := Opt_heap x)\<rparr>) ss"
  using assms by (simp add: apply_setting_def options_parse_value_def)

lemma engine_entries:
  "oe_type (engine_options ! 1) = OPTIONS_TYPE_NONE" "oe_ptr (engine_options ! 1) = 1"
  "oe_type (engine_options ! 2) = OPTIONS_TYPE_NONE" "oe_ptr (engine_options ! 2) = 2"
  "oe_type (engine_options ! 5) = OPTIONS_TYPE_NONE" "oe_ptr (engine_options ! 5) = 4"
  "oe_type (engine_options ! 6) = OPTIONS_TYPE_NONE" "oe_ptr (engine_options ! 6) = 5"
  "oe_type (engine_options ! 11) = OPTIONS_TYPE_NONE" "oe_ptr (engine_options ! 11) = 7"
  "oe_type (engine_options ! 8) = OPTIONS_TYPE_STRING" "oe_ptr (engine_options ! 8) = 1"
  "oe_type (engine_options ! 10) = OPTIONS_TYPE_STRING" "oe_ptr (engine_options ! 10) = 3"
  "oe_type (engine_options ! 12) = OPTIONS_TYPE_STRING" "oe_ptr (engine_options ! 12) = 4"
  by code_simp+

lemma engine_settings_apply:
  assumes "opt_debug st < 2 ^ 31"
  shows "foldo apply_setting engine_vars (engine_settings ctx st) = Some (engine_given ctx st)"
proof -
  define v1 where "v1 = \<lparr>ov_int = (\<lambda>_. 0)(0 := max 0 (opt_debug st)), ov_str = (\<lambda>_. Opt_null)\<rparr>"
  have s1: "foldo apply_setting engine_vars ((if 0 < opt_debug st then [(engine_options ! 0, Long, Some (int_dec (opt_debug st)))] else []) @ ss) =
      foldo apply_setting v1 ss" for ss
    using assms strtol0_int_dec [of "opt_debug st"]
    by (cases "0 < opt_debug st")
      (simp_all add: v1_def apply_setting_def options_parse_value_def engine_options_def engine_vars_def to_int32_id
        fun_upd_idem)
  define v2 where "v2 = v1\<lparr>ov_int := (ov_int v1)(5 := of_bool (opt_no_ssl st \<noteq> 0)),
    ov_str := (ov_str v1)(1 := (if opt_no_ssl st = 0 then Opt_heap (opt_lib_dir st @ ''/certs'') else Opt_null))\<rparr>"
  have s2: "foldo apply_setting v1 ((if opt_no_ssl st \<noteq> 0 then flag_setting 6 1 else [(engine_options ! 8, Long, Some (opt_lib_dir st @ ''/certs''))]) @ ss) =
      foldo apply_setting v2 ss" for ss
    by (cases "opt_no_ssl st = 0")
      (simp_all add: v2_def v1_def apply_flag apply_text engine_entries fun_upd_idem del: foldo.simps)
  define v3 where "v3 = v2\<lparr>ov_int := (ov_int v2)(7 := of_bool (opt_no_mqtt st \<noteq> 0)),
    ov_str := (ov_str v2)(4 := (if opt_no_mqtt st = 0 \<and> cx_is_broker ctx
      then Opt_heap (ls_hostname (ln_sys st) @ '':'' @ int_dec (opt_mqtt_port st)) else Opt_null))\<rparr>"
  have s3: "foldo apply_setting v2 ((if opt_no_mqtt st \<noteq> 0 then flag_setting 11 1
      else if cx_is_broker ctx
      then [(engine_options ! 12, Long, Some (ls_hostname (ln_sys st) @ '':'' @ int_dec (opt_mqtt_port st)))] else []) @ ss) =
      foldo apply_setting v3 ss" for ss
    by (cases "opt_no_mqtt st = 0"; cases "cx_is_broker ctx")
      (simp_all add: v3_def v2_def v1_def apply_flag apply_text engine_entries fun_upd_idem del: foldo.simps)
  have s4: "foldo apply_setting v (case opt_http_alias st of None \<Rightarrow> [] | Some a \<Rightarrow> [(engine_options ! 10, Long, Some a)]) =
      Some (v\<lparr>ov_str := (ov_str v)(3 := (case opt_http_alias st of None \<Rightarrow> Opt_null | Some a \<Rightarrow> Opt_heap a))\<rparr>)"
    if "ov_str v 3 = Opt_null" for v
    using that by (cases "opt_http_alias st") (simp_all add: apply_setting_def options_parse_value_def engine_entries fun_upd_idem)
  show ?thesis
    unfolding engine_settings_def s1 s2 s3
    by (simp add: apply_flag engine_entries engine_entries [unfolded One_nat_def] s4 v3_def v2_def v1_def engine_given_def)
qed

text \<open>
  C17: The engine reads on its command line what the launcher was asked for: the debug level, the
  services to disable, the certificates, the broker and the aliases end up in its variables, and
  the tiles are the arguments left for it.
\<close>

theorem engine_command_line:
  assumes "opt_debug st < 2 ^ 31" "\<forall>tile\<in>set (cx_tiles ctx). take 1 (tile_arg tile) \<noteq> ''-''"
  shows "options_parse (\<lambda>_. None) files engine_options (Some ''engine*'') (engine_args ctx st) None engine_vars =
    Some (None, Parsed (ls_bin (ln_sys st) # map tile_arg (cx_tiles ctx)) (engine_given ctx st))"
proof -
  have "map tile_arg (cx_tiles ctx) = [] \<or> take 1 (hd (map tile_arg (cx_tiles ctx))) \<noteq> ''-''"
    using assms(2) by (cases "cx_tiles ctx") auto
  from options_command_line [OF programs_ok(2) engine_settings_ok this engine_args_no_conf [OF assms(2)]]
  show ?thesis
    by (simp add: engine_args_render options_conf_files_def engine_settings_apply [OF assms(1)])
qed

section \<open>Tiles on disk\<close>

definition rev_ok :: "string \<Rightarrow> bool" where
  \<comment> \<open>a revision that can be read back\<close>
  "rev_ok r \<longleftrightarrow> r \<noteq> [] \<and> \<not> is_blank (hd r) \<and> NUL \<notin> set r \<and> length r < 128"

definition tile_dir :: "launcher \<Rightarrow> string \<Rightarrow> string" where
  "tile_dir st name = opt_lib_dir st @ ''/tiles/'' @ name @ ''/''"

lemma tile_dir_files [simp]: "tile_dir (st\<lparr>ln_files := f\<rparr>) name = tile_dir st name"
  by (simp add: tile_dir_def)

lemma tile_feed:
  assumes "SP \<notin> set name" "rev_ok r"
  shows "last (cx_tiles (ctx_tile_feed (name @ SP # r) st ctx)) =
    \<lparr>tl_name = Some name, tl_rev = Some r, tl_path = tile_dir st name, tl_base = length (tile_dir st name),
      tl_ready = (case ln_files st (tile_dir st name @ ''REVISION'') of
        None \<Rightarrow> False | Some buf \<Rightarrow> take 127 buf \<noteq> [] \<and> cstr (take 127 buf) = r)\<rparr>"
proof -
  obtain c t where r: "r = c # t" "\<not> is_blank c" using assms(2) by (cases r) (auto simp: rev_ok_def)
  have "strchr (name @ SP # r) SP = Some (length name)" by (rule strchr_append [OF assms(1)])
  then show ?thesis
    using r by (auto simp: ctx_tile_feed_def file_head_def tile_dir_def Let_def split: option.split)
qed

lemma tile_path_tail: "tile_dir st name @ TILE_FILE_NAME \<noteq> tile_dir st name @ ''REVISION''"
  by (simp add: TILE_FILE_NAME_def)


text \<open>
  C40: A download that fails half-way has already replaced the tile, but leaves the revision of the
  tile it replaced: when the platform goes back to that revision, the broken tile is taken as up
  to date and is not downloaded again.
\<close>

theorem broken_tile_ready:
  fixes st :: launcher
  assumes "SP \<notin> set name" "rev_ok r" "rev_ok old" "ln_files st (tile_dir st name @ ''REVISION'') = Some old"
    and "ls_write (ln_sys st) (tile_dir st name @ TILE_FILE_NAME) content = Some n" "n < length content"
  shows "\<exists>tile st'. tile_store (last (cx_tiles (ctx_tile_feed (name @ SP # r) st ctx))) content st = (-1, tile, st') \<and>
    ln_files st' (tile_dir st name @ TILE_FILE_NAME) = Some (take n content) \<and>
    tl_ready (last (cx_tiles (ctx_tile_feed (name @ SP # old) st' ctx')))"
proof -
  note f = tile_feed [OF assms(1,2)]
  define s where "s = st\<lparr>ln_files := (ln_files st)(tile_dir st name @ TILE_FILE_NAME \<mapsto> take n content)\<rparr>"
  obtain tile where t: "tile_store (last (cx_tiles (ctx_tile_feed (name @ SP # r) st ctx))) content st = (-1, tile, s)"
    using assms(5,6) unfolding f s_def
    by (simp add: tile_store_def tile_file_def file_write_def Let_def min_def)
  have "ln_files s (tile_dir s name @ ''REVISION'') = Some old"
    using assms(4) tile_path_tail [of st name] by (simp add: s_def)
  then have "tl_ready (last (cx_tiles (ctx_tile_feed (name @ SP # old) s ctx')))"
    using assms(3) unfolding tile_feed [OF assms(1,3)] by (simp add: rev_ok_def cstr_no_NUL)
  with t show ?thesis by (auto simp: s_def)
qed

section \<open>The cache of the platform's answer\<close>

definition line_ok :: "string \<Rightarrow> bool" where
  \<comment> \<open>a line of the platform that the cache can hold\<close>
  "line_ok l \<longleftrightarrow> (\<forall>c\<in>set l. 32 \<le> cval c) \<and> (l = [] \<or> last l \<noteq> SP) \<and> length l < 127"

lemma line_ok_chars: "line_ok l \<Longrightarrow> NUL \<notin> set l \<and> LF \<notin> set l"
  by (auto simp: line_ok_def cval_def)

lemma line_ok_read:
  assumes "line_ok l"
  shows "rev (dropWhile (\<lambda>c. cval c \<le> 32) (rev (cstr (l @ [LF])))) = l"
proof -
  have n: "NUL \<notin> set (l @ [LF])" using line_ok_chars [OF assms] by auto
  show ?thesis
  proof (cases l rule: rev_cases)
    case (snoc t c)
    have "cval c \<noteq> 32"
    proof
      assume "cval c = 32"
      moreover have "(of_char c :: int) < 256"
        using nat_of_char_less_256 [of c] by (metis of_nat_of_char of_nat_less_iff of_nat_numeral)
      ultimately have "(of_char c :: int) = of_char SP" by (simp add: cval_def Let_def split: if_splits)
      then have "c = SP" by (metis char_of_char)
      then show False using assms snoc by (simp add: line_ok_def)
    qed
    moreover have "32 \<le> cval c" using assms snoc by (simp add: line_ok_def)
    ultimately show ?thesis unfolding cstr_no_NUL [OF n] by (simp add: snoc cval_def)
  qed (simp add: cval_def)
qed

text \<open>
  What the launcher reads from its cache when the platform cannot be reached is what the platform
  last sent: the lines are given, in order and unchanged, to the same parser as those of the
  answer they come from.
\<close>

theorem cached_hello:
  assumes "\<forall>l\<in>set argv. line_ok l" "ls_write (ln_sys st) (hello_file st) (concat (map (\<lambda>l. l @ [LF]) argv)) = Some n"
    and "length (concat (map (\<lambda>l. l @ [LF]) argv)) \<le> n" "hello_cache_save argv st = (ret, st')"
  shows "hello_cache_load st' =
    go (go_all hello_response_parse argv (ctx_alloc, st')) (\<lambda>(ctx, st). Inr (Some ctx, st))"
proof -
  let ?text = "concat (map (\<lambda>l. l @ [LF]) argv)"
  have st': "st' = st\<lparr>ln_files := (ln_files st)(hello_file st \<mapsto> ?text)\<rparr>"
    using assms(2-4) by (simp add: hello_cache_save_def file_write_def)
  then have f: "ln_files st' (hello_file st') = Some ?text" by (simp add: hello_file_def)
  have "fgets_lines 128 ?text = map (\<lambda>l. l @ [LF]) argv"
    using assms(1) line_ok_chars by (intro fgets_lines_lines) (auto simp: line_ok_def)
  moreover have "go_all (\<lambda>buf. hello_response_parse (rev (dropWhile (\<lambda>c. cval c \<le> 32) (rev (cstr buf)))))
      (map (\<lambda>l. l @ [LF]) argv) s = go_all hello_response_parse argv s" for s
    using assms(1) by (induction argv arbitrary: s) (auto simp: go_def line_ok_read split: sum.split)
  ultimately show ?thesis unfolding hello_cache_load_def f by (simp only: option.case)
qed

section \<open>Without the platform\<close>

lemma engine_end_ignored:
  assumes "k < length (procs st)" "pr_cb_term (proc_at st k) = Some Engine_terminated" "engine_proc st = None"
    "ln_state st \<noteq> ST_RESTART"
  shows "\<exists>s2. hk_proc_sigchld launcher_calls k (pr_pid (proc_at st k)) status st = Inr s2 \<and>
    engine_proc s2 = None \<and> ln_state s2 = ln_state st \<and> execs s2 = execs st"
proof -
  obtain s1 where s1: "proc_quiet st s1"
    "hk_proc_sigchld launcher_calls k (pr_pid (proc_at st k)) status st =
       go (engine_terminated s1) (\<lambda>st. Inr (hk_proc_remove k (hk_proc_term k st)))"
    using sigchld_effect [OF assms(1), of launcher_calls status] assms(2) by (auto simp: launcher_calls_def)
  note q = proc_quiet_launcher [OF s1(1)]
  have "engine_terminated s1 = Inr (ping_stop s1)" using assms(3,4) q by (simp add: engine_terminated_def)
  moreover have "proc_quiet (ping_stop s1) (hk_proc_remove k (hk_proc_term k (ping_stop s1)))"
    unfolding hk_proc_remove_def by (rule proc_quiet_trans [OF term_quiet sys_quiet(6)])
  note q2 = proc_quiet_launcher [OF this]
  ultimately show ?thesis using s1(2) q q2 assms(3) by simp
qed

text \<open>
  C39: When the platform cannot be reached the engine runs from the cache, but in the retry state; the
  next hello that fails takes this for a restart, stops that engine and leaves the restart state
  before the engine has ended: no engine is then running, and none is started when it ends.
\<close>

theorem fallback_engine_stopped:
  assumes "engine_runs k st" "ln_state st \<noteq> ST_RUN" "hello_cache_load st = Inr (Some ctx, st)"
    and "\<forall>tile\<in>set (cx_tiles ctx). tl_ready tile" "opt_api_key st \<noteq> None"
  shows "\<exists>s1 s2. request_done Hello_response None st = Inr s1 \<and>
    kills s1 = kills st @ [(pr_pid (proc_at st k), SIGTERM)] \<and> ln_state s1 = ST_RETRY \<and>
    hk_proc_sigchld launcher_calls k (pr_pid (proc_at st k)) status s1 = Inr s2 \<and>
    engine_proc s2 = None \<and> ln_state s2 = ST_RETRY \<and> execs s2 = execs st"
proof -
  let ?s = "st\<lparr>running_fallback := True\<rparr>"
  have "engine_runs k ?s" using assms(1) by (simp add: engine_runs_def)
  then obtain t s0 where s0: "engine_start ctx ?s = Inr s0" "engine_proc s0 = None" "execs s0 = execs st"
    "opt_api_key s0 = opt_api_key st" "kills s0 = kills st @ [(pr_pid (proc_at st k), SIGTERM)]"
    "procs s0 = map_nth k (\<lambda>p. p\<lparr>pr_state := HK_PROC_ST_KILL, pr_timeout_tag := t\<rparr>) (procs st)"
    using engine_start_running [of k ?s ctx] assms(4) by auto
  define s1 where "s1 = snd (timer HELLO_RETRY_DELAY ''hello_request'' (s0\<lparr>ln_state := ST_RETRY\<rparr>))"
  have "hello_response None st = Inr s1"
    using assms(2,3,5) s0(1,4) by (simp add: hello_response_def hello_fallback_def hello_retry_def s1_def Let_def)
  moreover have f: "engine_proc s1 = None" "ln_state s1 = ST_RETRY" "execs s1 = execs st" "kills s1 = kills s0"
    "procs s1 = procs s0"
    using s0 by (simp_all add: s1_def)
  moreover have "k < length (procs s1)" "pr_cb_term (proc_at s1 k) = Some Engine_terminated"
    "pr_pid (proc_at s1 k) = pr_pid (proc_at st k)"
    using assms(1) unfolding f(5) s0(6) by (simp_all add: engine_runs_def map_nth_def)
  ultimately show ?thesis
    using engine_end_ignored [of k s1 status] s0(5) by (auto simp: request_done_def)
qed

section \<open>Examples\<close>

definition idle_launcher :: launcher where
  \<comment> \<open>the next two starts succeed; one tile is in the cache\<close>
  "idle_launcher = proc_state.extend
     (hk_state.extend ((hk_start 0)\<lparr>sources := replicate 8 sys_source_clear\<rparr>)
       (proc_state.fields [] [Some \<lparr>fk_pid = 101, fk_in = 5, fk_out = 6, fk_err = 7\<rparr>,
          Some \<lparr>fk_pid = 102, fk_in = 8, fk_out = 9, fk_err = 10\<rparr>] [] [] [] []))
     (launcher.fields
       \<lparr>ls_version = ''1.0'', ls_bin = ''/bin/hakit-engine'', ls_hostname = ''home'', ls_uname = None,
         ls_realpath = (\<lambda>s. Some s), ls_write = (\<lambda>path content. Some (length content)), ls_uri = (\<lambda>url. True)\<rparr>
       launcher_vars ''/lib'' (Some ''KEY'') ST_HELLO False 0 None [] None False 0
       [''/lib/HELLO'' \<mapsto> ''Tile: hall 7'' @ [LF], ''/lib/tiles/hall/REVISION'' \<mapsto> ''7''] [] [])"

definition hall_ctx :: ctx_t where
  "hall_ctx = ctx_tile_feed ''hall 7'' idle_launcher ctx_alloc"

definition running_launcher :: launcher where
  "running_launcher = (case engine_start hall_ctx idle_launcher of Inr st \<Rightarrow> st\<lparr>ln_state := ST_RUN\<rparr> | Inl e \<Rightarrow> idle_launcher)"

definition polled_launcher :: launcher where
  \<comment> \<open>the ping timer has called, and is gone\<close>
  "polled_launcher = ping_stop running_launcher"

lemma hall_ready: "\<forall>tile\<in>set (cx_tiles hall_ctx). tl_ready tile"
  by code_simp

lemma polled_facts:
  "engine_runs 0 polled_launcher" "\<not> scheduled ''hello_request'' polled_launcher" "pr_pid (proc_at polled_launcher 0) = 101"
  "forks polled_launcher = Some \<lparr>fk_pid = 102, fk_in = 8, fk_out = 9, fk_err = 10\<rparr> # []"
  by code_simp+


definition fallback_launcher :: launcher where
  \<comment> \<open>the first hello has failed, and the second is on its way\<close>
  "fallback_launcher =
     (case go (request_done Hello_response None idle_launcher) hello_request of Inr (ret, st) \<Rightarrow> st | Inl e \<Rightarrow> idle_launcher)"

lemma fallback_facts:
  "engine_runs 0 fallback_launcher" "ln_state fallback_launcher \<noteq> ST_RUN" "pr_pid (proc_at fallback_launcher 0) = 101"
  "opt_api_key fallback_launcher \<noteq> None" "execs fallback_launcher = [(101, engine_args hall_ctx idle_launcher)]"
  "kills fallback_launcher = []"
  by code_simp+

theorem engine_restarts_witness:
  "\<exists>s1 s2 k'. engine_start hall_ctx polled_launcher = Inr s1 \<and> hk_proc_sigchld launcher_calls 0 101 0 s1 = Inr s2 \<and>
     engine_proc s2 = Some k' \<and> k' \<noteq> 0 \<and> ln_state s2 = ST_RUN \<and>
     execs s2 = execs polled_launcher @ [(102, engine_args hall_ctx polled_launcher)]"
proof -
  note f = polled_facts
  obtain s1 s2 k' where s: "engine_start hall_ctx polled_launcher = Inr s1"
    "hk_proc_sigchld launcher_calls 0 (pr_pid (proc_at s1 0)) 0 s1 = Inr s2" "engine_proc s2 = Some k'" "k' \<noteq> 0"
    "ln_state s2 = ST_RUN" "execs s2 = execs polled_launcher @ [(102, engine_args hall_ctx polled_launcher)]"
    using engine_restarts [OF f(1) hall_ready f(4), of 0] by auto
  obtain t where "procs s1 = map_nth 0 (\<lambda>p. p\<lparr>pr_state := HK_PROC_ST_KILL, pr_timeout_tag := t\<rparr>) (procs polled_launcher)"
    using engine_start_running [OF f(1) hall_ready] s(1) by auto
  then have "pr_pid (proc_at s1 0) = 101" using f(1,3) by (simp add: engine_runs_def map_nth_def)
  with s show ?thesis by auto
qed

theorem engine_restart_lost_witness:
  "\<exists>s1 s2 s3. engine_start hall_ctx polled_launcher = Inr s1 \<and> hk_proc_kill_timeout 0 s1 = (0, s2) \<and>
     kills s2 = [(101, SIGTERM), (101, SIGKILL)] \<and> hk_proc_sigchld launcher_calls 0 101 0 s2 = Inr s3 \<and>
     engine_proc s3 = None \<and> ln_state s3 = ST_RESTART"
proof -
  have "kills polled_launcher = []" by code_simp
  with engine_restart_lost [OF polled_facts(1) hall_ready polled_facts(2), of 0] show ?thesis
    unfolding polled_facts(3) by auto
qed

theorem fallback_engine_stopped_witness:
  "\<exists>s1 s2. request_done Hello_response None fallback_launcher = Inr s1 \<and> kills s1 = [(101, SIGTERM)] \<and>
     hk_proc_sigchld launcher_calls 0 101 0 s1 = Inr s2 \<and> engine_proc s2 = None \<and> length (execs s2) = 1"
proof -
  have c: "hello_cache_load fallback_launcher = Inr (Some hall_ctx, fallback_launcher)"
  proof -
    have "fgets_lines 128 (''Tile: hall 7'' @ [LF]) = [''Tile: hall 7'' @ [LF]]" by code_simp
    moreover have "ln_files fallback_launcher (hello_file fallback_launcher) = Some (''Tile: hall 7'' @ [LF])" by code_simp
    moreover have "rev (dropWhile (\<lambda>c. cval c \<le> 32) (rev (cstr (''Tile: hall 7'' @ [LF])))) = ''Tile: hall 7''" by code_simp
    moreover have "hello_response_parse ''Tile: hall 7'' (ctx_alloc, st) = Inr (ctx_tile_feed ''hall 7'' st ctx_alloc, st)" for st
    proof -
      have "strchr ''Tile: hall 7'' CHR '':'' = Some 4" "take 4 ''Tile: hall 7'' = ''Tile''"
        "dropWhile is_blank (drop 5 ''Tile: hall 7'') = ''hall 7''" by code_simp+
      then show ?thesis by (simp add: hello_response_parse_def del: strchr.simps take_Cons_numeral drop_Cons_numeral)
    qed
    moreover have "ctx_tile_feed ''hall 7'' fallback_launcher ctx_alloc = hall_ctx" by code_simp
    ultimately show ?thesis by (simp add: hello_cache_load_def)
  qed
  from fallback_engine_stopped [OF fallback_facts(1,2) c hall_ready fallback_facts(4), of 0] show ?thesis
    unfolding fallback_facts(3,5,6) by auto
qed

theorem engine_command_line_witness:
  "options_parse (\<lambda>_. None) (\<lambda>_. None) engine_options (Some ''engine*'') (engine_args hall_ctx idle_launcher) None engine_vars =
     Some (None, Parsed [''/bin/hakit-engine'', ''hall=/lib/tiles/hall/''] (engine_given hall_ctx idle_launcher)) \<and>
   ov_str (engine_given hall_ctx idle_launcher) 1 = Opt_heap ''/lib/certs''"
proof -
  have f: "opt_debug idle_launcher < 2 ^ 31" "\<forall>tile\<in>set (cx_tiles hall_ctx). take 1 (tile_arg tile) \<noteq> ''-''"
    "map tile_arg (cx_tiles hall_ctx) = [''hall=/lib/tiles/hall/'']" "ls_bin (ln_sys idle_launcher) = ''/bin/hakit-engine''"
    "ov_str (engine_given hall_ctx idle_launcher) 1 = Opt_heap ''/lib/certs''"
    by code_simp+
  show ?thesis using engine_command_line [OF f(1,2), of "\<lambda>_. None"] f(3-5) by simp
qed

definition full_disk :: launcher where
  \<comment> \<open>room for one byte only\<close>
  "full_disk = idle_launcher\<lparr>ln_sys := (ln_sys idle_launcher)\<lparr>ls_write := (\<lambda>path content. Some 1)\<rparr>\<rparr>"


theorem broken_tile_ready_witness:
  "\<exists>tile st'. tile_store (last (cx_tiles (ctx_tile_feed (''hall'' @ SP # ''8'') full_disk ctx_alloc))) ''obj'' full_disk =
     (-1, tile, st') \<and> ln_files st' (tile_dir full_disk ''hall'' @ TILE_FILE_NAME) = Some ''o'' \<and>
     tl_ready (last (cx_tiles (ctx_tile_feed (''hall'' @ SP # ''7'') st' ctx_alloc)))"
proof -
  have ok: "SP \<notin> set ''hall''" "rev_ok ''8''" "rev_ok ''7''"
    "ln_files full_disk (tile_dir full_disk ''hall'' @ ''REVISION'') = Some ''7''"
    "ls_write (ln_sys full_disk) (tile_dir full_disk ''hall'' @ TILE_FILE_NAME) ''obj'' = Some 1" "1 < length ''obj''"
    "take 1 ''obj'' = ''o''"
    by code_simp+
  show ?thesis using broken_tile_ready [OF ok(1-6), of ctx_alloc ctx_alloc] unfolding ok(7) .
qed

theorem cached_hello_witness:
  "\<exists>st'. hello_cache_save [''Tile: hall 7'', ''Other''] idle_launcher = (0, st') \<and>
     hello_cache_load st' =
       go (go_all hello_response_parse [''Tile: hall 7'', ''Other''] (ctx_alloc, st')) (\<lambda>(ctx, st). Inr (Some ctx, st))"
proof -
  let ?a = "[''Tile: hall 7'', ''Other'']"
  have ok: "\<forall>l\<in>set ?a. line_ok l" "fst (hello_cache_save ?a idle_launcher) = 0"
    "ls_write (ln_sys idle_launcher) (hello_file idle_launcher) (concat (map (\<lambda>l. l @ [LF]) ?a)) =
       Some (length (concat (map (\<lambda>l. l @ [LF]) ?a)))"
    by code_simp+
  then have r: "hello_cache_save ?a idle_launcher = (0, snd (hello_cache_save ?a idle_launcher))" by (metis prod.collapse)
  from cached_hello [OF ok(1,3) order.refl r] r show ?thesis by blast
qed

end
