(* ===== verification/Hk_WsClient.thy ===== *)
theory Hk_WsClient
  imports Hk_Launcher
begin

text \<open>
  \<^verbatim>\<open>core/ws_client.c\<close>: the HTTP client of the launcher, and \<^verbatim>\<open>core/ws_io.c\<close>, the descriptors of the
  library among the event sources. What libwebsockets does is a sequence of
  callbacks (\<open>lws_reason\<close>) for one request; the result of each is its return value, the state of the
  request, and what the function of the request is told. The parts of a URI come from
  \<open>lws_parse_uri\<close>, which is a parameter, as is the signature of the socket.
\<close>

definition MAX_BUF_LEN :: nat where "MAX_BUF_LEN = 256 * 1024"

record ws_client =
  wc_context :: bool \<comment> \<open>\<open>lws_create_context\<close> has returned one\<close>
  wc_use_ssl :: int
  socket_signature :: "string option"

record 'f ws_pss =
  wp_headers :: string
  wp_buf :: string
  wp_func :: "'f option"

type_synonym 'f ws_told = "('f \<times> string option) list"
  \<comment> \<open>calls of the function: the reply, or nothing for a request that failed\<close>

section \<open>Descriptors\<close>

datatype lws_pollargs = Pollargs int events

definition ws_poll :: "'a \<Rightarrow> lws_pollargs \<Rightarrow> (string, 'a, 'z) world \<Rightarrow> (string, 'a, 'z) world" where
  "ws_poll context pa st =
     (case pa of Pollargs fd evts \<Rightarrow> snd (sys_io_poll fd evts (Some ''ws_callback_poll'') (Some context) st))"

definition ws_poll_remove :: "lws_pollargs \<Rightarrow> (string, 'a, 'z) world \<Rightarrow> (string, 'a, 'z) world" where
  "ws_poll_remove pa st = (case pa of Pollargs fd evts \<Rightarrow> sys_remove_fd fd st)"

definition ws_callback_poll :: "events \<Rightarrow> int \<Rightarrow> int" where
  \<comment> \<open>\<open>revents\<close> of the descriptor and what \<open>lws_service_fd\<close> returns, to what tells \<open>sys_run\<close> to go on with it\<close>
  "ws_callback_poll revents err =
     (if err < 0 then 0 else if revents AND (POLLHUP OR POLLNVAL) \<noteq> 0 then 0 else 1)"

section \<open>Callbacks\<close>

definition ws_http_client_read_chunk :: "string \<Rightarrow> 'f ws_pss \<Rightarrow> 'f ws_pss" where
  "ws_http_client_read_chunk buf pss =
     (if buf \<noteq> [] \<and> length (wp_buf pss) + length buf < MAX_BUF_LEN
      then pss\<lparr>wp_buf := wp_buf pss @ buf\<rparr> else pss)"

definition ws_http_client_read_completed :: "'f ws_pss \<Rightarrow> 'f ws_told \<times> 'f ws_pss" where
  "ws_http_client_read_completed pss =
     ((case wp_func pss of None \<Rightarrow> [] | Some f \<Rightarrow> [(f, Some (wp_buf pss))]), pss\<lparr>wp_buf := []\<rparr>)"

definition ws_http_client_append_header ::
    "string option \<Rightarrow> nat \<Rightarrow> ws_client \<Rightarrow> 'f ws_pss \<Rightarrow> ((int \<times> string) option) \<times> ws_client" where
  \<comment> \<open>the text added in \<open>hlen\<close> bytes. \<open>snprintf\<close> returns the length of the text even if it was cut:
    the cursor then goes beyond the buffer.\<close>
  "ws_http_client_append_header sig hlen client pss =
     (let client = (if socket_signature client = None then client\<lparr>socket_signature := sig\<rparr> else client);
          device = (case socket_signature client of None \<Rightarrow> [] | Some s \<Rightarrow> ''HAKit-Device: '' @ s @ CRLF)
      in (if wp_headers pss \<noteq> [] then
            if length device + length (wp_headers pss) < hlen
            then Some (int (length device + length (wp_headers pss)), device @ wp_headers pss)
            else Some (-1, [])
          else if device = [] then Some (0, [])
          else if length device < hlen then Some (int (length device), device) else None,
          client))"

datatype lws_reason =
    Client_connection_error
  | Client_append_handshake_header nat
  | Receive_client_http int \<comment> \<open>what \<open>lws_http_client_read\<close> returns\<close>
  | Receive_client_http_read string
  | Completed_client_http
  | Wsi_destroy
  | Add_poll_fd lws_pollargs
  | Del_poll_fd lws_pollargs
  | Change_mode_poll_fd lws_pollargs
  | Client_other

definition ws_client_callback ::
    "string option \<Rightarrow> 'a \<Rightarrow> lws_reason \<Rightarrow> ws_client \<Rightarrow> 'f ws_pss \<Rightarrow> (string, 'a, 'z) world
      \<Rightarrow> (int \<times> 'f ws_told \<times> ws_client \<times> 'f ws_pss option \<times> (string, 'a, 'z) world) option" where
  \<comment> \<open>no state of the request: it has been freed\<close>
  "ws_client_callback sig context reason client pss st =
     (case reason of
        Client_connection_error \<Rightarrow>
          Some (1, (case wp_func pss of None \<Rightarrow> [] | Some f \<Rightarrow> [(f, None)]), client, Some pss, st)
      | Client_append_handshake_header hlen \<Rightarrow>
          (case ws_http_client_append_header sig hlen client pss of
             (None, client) \<Rightarrow> None
           | (Some (ret, text), client) \<Rightarrow> Some (if ret < 0 then 1 else 0, [], client, Some pss, st))
      | Receive_client_http ret \<Rightarrow> Some (ret, [], client, Some pss, st)
      | Receive_client_http_read buf \<Rightarrow> Some (0, [], client, Some (ws_http_client_read_chunk buf pss), st)
      | Completed_client_http \<Rightarrow>
          (case ws_http_client_read_completed pss of (told, pss) \<Rightarrow> Some (0, told, client, Some pss, st))
      | Wsi_destroy \<Rightarrow> Some (0, [], client, None, st)
      | Add_poll_fd pa \<Rightarrow> Some (0, [], client, Some pss, ws_poll context pa st)
      | Del_poll_fd pa \<Rightarrow> Some (0, [], client, Some pss, ws_poll_remove pa st)
      | Change_mode_poll_fd pa \<Rightarrow> Some (0, [], client, Some pss, ws_poll context pa st)
      | Client_other \<Rightarrow> Some (0, [], client, Some pss, st))"

section \<open>Requests\<close>

definition ws_client_init :: "bool \<Rightarrow> int \<Rightarrow> ws_client \<Rightarrow> int \<times> ws_client" where
  "ws_client_init context use_ssl client =
     (if context then (0, client\<lparr>wc_context := True, wc_use_ssl := use_ssl\<rparr>) else (-1, client\<lparr>wc_context := False\<rparr>))"

definition ws_client_destroy :: "ws_client \<Rightarrow> ws_client" where
  "ws_client_destroy client = client\<lparr>wc_context := False, socket_signature := None\<rparr>"

record ws_get =
  wg_address :: string
  wg_port :: int
  wg_path :: string
  wg_ssl :: int

definition ws_client_get ::
    "(string \<Rightarrow> (string \<times> string \<times> int \<times> string option) option) \<Rightarrow> (ws_get \<Rightarrow> bool) \<Rightarrow> string \<Rightarrow> string option \<Rightarrow> 'f option
      \<Rightarrow> ws_client \<Rightarrow> int \<times> (ws_get \<times> 'f ws_pss) option" where
  \<comment> \<open>\<open>parse\<close>: protocol, address, port and path; \<open>connect\<close>: the library starts the request\<close>
  "ws_client_get parse connect uri headers func client =
     (case parse (take 1023 uri) of
        None \<Rightarrow> (-1, None)
      | Some (prot, address, port, p) \<Rightarrow>
          let path = (case p of None \<Rightarrow> ''/'' | Some p \<Rightarrow> if take 1 p = ''/'' then p else ''/'' @ p);
              get = \<lparr>wg_address = address, wg_port = port, wg_path = path,
                wg_ssl = (if prot = ''https'' then wc_use_ssl client else 0)\<rparr>;
              pss = \<lparr>wp_headers = (case headers of None \<Rightarrow> [] | Some h \<Rightarrow> h), wp_buf = [], wp_func = func\<rparr>
          in if connect get then (0, Some (get, pss)) else (-1, None))"

section \<open>Replies\<close>

fun kept_chunks :: "nat \<Rightarrow> string list \<Rightarrow> string list" where
  \<comment> \<open>the chunks that still fit after \<open>n\<close> bytes\<close>
  "kept_chunks n [] = []"
| "kept_chunks n (c # cs) =
     (if n + length c < MAX_BUF_LEN then c # kept_chunks (n + length c) cs else kept_chunks n cs)"

fun ws_run :: "'a \<Rightarrow> lws_reason list \<Rightarrow> ws_client \<times> 'f ws_pss \<times> (string, 'a, 'z) world \<Rightarrow> 'f ws_told" where
  \<comment> \<open>what the function of a request is told in a sequence of callbacks\<close>
  "ws_run context [] s = []"
| "ws_run context (r # rs) (client, pss, st) =
     (case ws_client_callback None context r client pss st of
        Some (ret, told, client, Some pss, st) \<Rightarrow> told @ ws_run context rs (client, pss, st)
      | Some (ret, told, client, None, st) \<Rightarrow> told
      | None \<Rightarrow> [])"

lemma ws_run_chunks:
  "ws_run context (map Receive_client_http_read cs @ rs) (client, pss, st) =
     ws_run context rs (client, pss\<lparr>wp_buf := wp_buf pss @ concat (kept_chunks (length (wp_buf pss)) cs)\<rparr>, st)"
proof (induction cs arbitrary: pss)
  case (Cons c cs)
  have "wp_buf pss @ concat (kept_chunks (length (wp_buf pss)) (c # cs)) =
      wp_buf (ws_http_client_read_chunk c pss) @
      concat (kept_chunks (length (wp_buf (ws_http_client_read_chunk c pss))) cs)"
    by (cases "c = []") (auto simp: ws_http_client_read_chunk_def)
  moreover have "(ws_http_client_read_chunk c pss)\<lparr>wp_buf := b\<rparr> = pss\<lparr>wp_buf := b\<rparr>" for b
    by (simp add: ws_http_client_read_chunk_def)
  ultimately show ?case
    using Cons.IH [of "ws_http_client_read_chunk c pss"] by (simp add: ws_client_callback_def)
qed simp

lemma kept_all: "n + length (concat cs) < MAX_BUF_LEN \<Longrightarrow> kept_chunks n cs = cs"
  by (induction cs arbitrary: n) auto

text \<open>
  C35: The function of a request gets the bytes of the reply, in order, however the library cuts them;
  when they exceed the size of the buffer, the chunks that do not fit are left out, and it is not
  told: the rest is put together as if it were the reply.
\<close>

theorem http_reply_delivered:
  "ws_client_get parse connect uri headers (Some f) client = (0, Some (get, pss)) \<Longrightarrow>
   ws_run context (map Receive_client_http_read cs @ [Completed_client_http]) (client, pss, st) =
     [(f, Some (if length (concat cs) < MAX_BUF_LEN then concat cs else concat (kept_chunks 0 cs)))]"
proof -
  assume "ws_client_get parse connect uri headers (Some f) client = (0, Some (get, pss))"
  then have "wp_buf pss = []" "wp_func pss = Some f"
    by (auto simp: ws_client_get_def Let_def split: option.splits if_splits)
  then have "ws_run context (map Receive_client_http_read cs @ [Completed_client_http]) (client, pss, st) =
      [(f, Some (concat (kept_chunks 0 cs)))]"
    by (simp add: ws_run_chunks ws_client_callback_def ws_http_client_read_completed_def)
  then show ?thesis using kept_all [of 0 cs] by simp
qed

definition parse_example :: "string \<Rightarrow> (string \<times> string \<times> int \<times> string option) option" where
  "parse_example uri = Some (''https'', ''hakit.net'', 443, Some ''api/app.php'')"

theorem http_reply_delivered_witness:
  "\<exists>get pss. ws_client_get parse_example (\<lambda>_. True) ''https://hakit.net/api/app.php'' None (Some ())
       \<lparr>wc_context = True, wc_use_ssl = 1, socket_signature = None\<rparr> = (0, Some (get, pss)) \<and>
     wg_path get = ''/api/app.php'' \<and>
     ws_run () (map Receive_client_http_read [replicate 200000 CHR ''a'', replicate 70000 CHR ''b'', ''c''] @ [Completed_client_http])
       (\<lparr>wc_context = True, wc_use_ssl = 1, socket_signature = None\<rparr>, pss, sys_start :: (string, unit) sys_state) = [((), Some (replicate 200000 CHR ''a'' @ ''c''))]"
proof -
  let ?c = "\<lparr>wc_context = True, wc_use_ssl = 1, socket_signature = None\<rparr> :: ws_client"
  obtain get pss where g: "ws_client_get parse_example (\<lambda>_. True) ''https://hakit.net/api/app.php'' None (Some ()) ?c = (0, Some (get, pss))"
    "wg_path get = ''/api/app.php''"
    by (simp add: ws_client_get_def parse_example_def)
  have "\<not> length (concat [replicate 200000 CHR ''a'', replicate 70000 CHR ''b'', ''c'']) < MAX_BUF_LEN"
    "concat (kept_chunks 0 [replicate 200000 CHR ''a'', replicate 70000 CHR ''b'', ''c'']) = replicate 200000 CHR ''a'' @ ''c''"
    by (simp_all add: MAX_BUF_LEN_def)
  then show ?thesis
    using g http_reply_delivered [OF g(1), of "()" "[replicate 200000 CHR ''a'', replicate 70000 CHR ''b'', ''c'']" "sys_start :: (string, unit) sys_state"] by auto
qed

end
