(* ===== verification/Hk_ProcClass.thy ===== *)
theory Hk_ProcClass
  imports Hk_Proc Hk_Timers Hk_StrArgv
begin

text \<open>
  The classes \<^verbatim>\<open>classes/proc\<close> (a child process driven by pads) and \<^verbatim>\<open>classes/fwrite\<close> (a file
  that holds the last value of a pad), on the processes of \<open>Hk_Proc\<close>. An object runs its command
  while it is enabled; the callbacks of its process update its output pads.
\<close>

section \<open>State\<close>

datatype proc_mode_t = MODE_COMMAND | MODE_AGENT

record proc_ctx =
  pj_cmd_argv :: "string list"
  pj_mode :: proc_mode_t
  pj_respawn_delay :: int
  pj_respawn_tag :: sys_tag
  pj_enable :: nat
  pj_in :: nat
  pj_run :: nat
  pj_out :: nat
  pj_status :: nat
  pj_proc :: "nat option"

record fwrite_ctx =
  fw_path :: string
  fw_in :: nat

datatype io_ctx = Proc_ctx proc_ctx | Fwrite_ctx fwrite_ctx

datatype proc_func = Proc_stdout | Proc_term

record io_state = "(io_ctx hk_ctx, proc_func) proc_state" +
  io_files :: "string \<rightharpoonup> string"
  io_writable :: "string \<Rightarrow> bool" \<comment> \<open>\<open>fopen ("w")\<close> works\<close>

definition proc_ctx_of :: "nat \<Rightarrow> io_state \<Rightarrow> proc_ctx option" where
  "proc_ctx_of obj st = (case ctx_of obj st of Some (Other_ctx (Proc_ctx c)) \<Rightarrow> Some c | _ \<Rightarrow> None)"

definition set_proc_ctx :: "nat \<Rightarrow> proc_ctx \<Rightarrow> io_state \<Rightarrow> io_state" where
  "set_proc_ctx obj c st = set_ctx obj (Other_ctx (Proc_ctx c)) st"

section \<open>The class proc\<close>

definition proc_new :: "nat \<Rightarrow> io_state \<Rightarrow> (int \<times> io_state) option" where
  \<comment> \<open>\<open>str_argv\<close> cuts the command in the property itself. An object that fails here has no pads, so
    its context is never read.\<close>
  "proc_new obj st =
     (case prop_of obj ''cmd'' st of
        None \<Rightarrow> Some (-1, st)
      | Some cmd \<Rightarrow>
          (case argv_loop (cmd @ [NUL]) 0 of (m, argv) \<Rightarrow>
             let st = hk_obj_prop_set obj ''cmd'' (cstr m) st;
                 md = prop_of obj ''mode'' st
             in if md \<noteq> None \<and> md \<noteq> Some ''command'' \<and> md \<noteq> Some ''agent'' then Some (-1, st)
                else
                  let delay = (case prop_of obj ''respawn'' st of None \<Rightarrow> 0 | Some str \<Rightarrow> atoi str)
                  in case hk_pad_create obj HK_PAD_IN ''enable'' st of (enable, st) \<Rightarrow>
                     case hk_pad_create obj HK_PAD_IN ''in'' st of (inp, st) \<Rightarrow>
                     case hk_pad_create obj HK_PAD_OUT ''run'' st of (run, st) \<Rightarrow>
                     case hk_pad_create obj HK_PAD_OUT ''out'' st of (out, st) \<Rightarrow>
                     case hk_pad_create obj HK_PAD_OUT ''status'' st of (status, st) \<Rightarrow>
                       Some (0, set_proc_ctx obj
                         \<lparr>pj_cmd_argv = map (text_at m) argv,
                          pj_mode = (if md = Some ''agent'' then MODE_AGENT else MODE_COMMAND),
                          pj_respawn_delay = delay, pj_respawn_tag = 0, pj_enable = enable, pj_in = inp, pj_run = run,
                          pj_out = out, pj_status = status, pj_proc = None\<rparr> st)))"

function out_lines :: "string \<Rightarrow> string list" where
  \<comment> \<open>the pieces of the output, cut at the ends of lines; a C string ends at its first NUL\<close>
  "out_lines buf =
     (if buf = [] then []
      else cstr (takeWhile (\<lambda>c. c \<noteq> LF) buf) # out_lines (drop 1 (dropWhile (\<lambda>c. c \<noteq> LF) buf)))"
  by pat_completeness auto
termination
proof (relation "measure length", goal_cases)
  case (2 buf)
  then show ?case
    using length_dropWhile_le [of "\<lambda>c. c \<noteq> LF" "tl buf"]
    by (cases buf) (auto simp del: length_dropWhile_le)
qed simp

declare out_lines.simps [simp del]

definition proc_stdout :: "io_state updater \<Rightarrow> nat \<Rightarrow> string \<Rightarrow> io_state \<Rightarrow> io_state option" where
  "proc_stdout upd obj buf st =
     (case proc_ctx_of obj st of
        None \<Rightarrow> None | Some c \<Rightarrow> foldo (\<lambda>st str. upd (pj_out c) str st) st (out_lines buf))"

fun proc_argv :: "nat \<Rightarrow> io_state \<Rightarrow> string list \<Rightarrow> string list option" where
  \<comment> \<open>\<open>$pad\<close> stands for the value of the pad, if it has one\<close>
  "proc_argv obj st [] = Some []"
| "proc_argv obj st (a # rest) =
     Option.bind (if take 1 a = ''$'' then map_option (\<lambda>v. case v of None \<Rightarrow> a | Some s \<Rightarrow> s) (hk_pad_get_value obj (tl a) st)
                  else Some a)
       (\<lambda>a. map_option ((#) a) (proc_argv obj st rest))"

definition proc_obj_start :: "io_state updater \<Rightarrow> nat \<Rightarrow> io_state \<Rightarrow> io_state option" where
  "proc_obj_start upd obj st =
     (case proc_ctx_of obj st of
        None \<Rightarrow> None
      | Some c \<Rightarrow>
          if pj_proc c \<noteq> None then Some st
          else
            Option.bind (proc_argv obj st (pj_cmd_argv c))
              (\<lambda>argv. case hk_proc_start argv (Some Proc_stdout) None (Some Proc_term) obj st of (proc, st) \<Rightarrow>
                 let st = set_proc_ctx obj (c\<lparr>pj_proc := proc\<rparr>) st
                 in if proc \<noteq> None then hk_pad_update_int upd (pj_run c) 1 st else Some st))"

definition proc_respawn :: "io_state updater \<Rightarrow> nat \<Rightarrow> io_state \<Rightarrow> (int \<times> io_state) option" where
  "proc_respawn upd obj st =
     (case proc_ctx_of obj st of
        None \<Rightarrow> None
      | Some c \<Rightarrow>
          let st = set_proc_ctx obj (c\<lparr>pj_respawn_tag := 0\<rparr>) st
          in map_option (\<lambda>st. (0, st))
               (if p_state (pad_at st (pj_enable c)) \<noteq> 0 then proc_obj_start upd obj st else Some st))"

definition proc_term :: "io_state updater \<Rightarrow> nat \<Rightarrow> int \<Rightarrow> io_state \<Rightarrow> io_state option" where
  "proc_term upd obj status st =
     (case proc_ctx_of obj st of
        None \<Rightarrow> None
      | Some c \<Rightarrow>
          Option.bind (hk_pad_update_int upd (pj_run c) 0 (set_proc_ctx obj (c\<lparr>pj_proc := None\<rparr>) st)) (\<lambda>st.
          Option.bind (hk_pad_update_int upd (pj_status c) status st) (\<lambda>st.
            case proc_ctx_of obj st of
              None \<Rightarrow> None
            | Some c \<Rightarrow>
                Some (if 0 < pj_respawn_delay c then
                        case arm (to_int32 (pj_respawn_delay c * 1000)) ''proc:respawn'' obj (disarm (pj_respawn_tag c) st) of
                          (tag, st) \<Rightarrow> set_proc_ctx obj (c\<lparr>pj_respawn_tag := tag\<rparr>) st
                      else st))))"

definition opt_ends :: "'s option \<Rightarrow> 's ends" where
  "opt_ends r = (case r of None \<Rightarrow> Inl None | Some s \<Rightarrow> Inr s)"

definition ends_opt :: "'s ends \<Rightarrow> 's option" where
  "ends_opt r = (case r of Inl e \<Rightarrow> None | Inr s \<Rightarrow> Some s)"

definition proc_class_calls :: "io_state updater \<Rightarrow> (proc_func, io_state) proc_calls" where
  "proc_class_calls upd = \<lparr>
     pc_output = (\<lambda>f obj buf st. opt_ends (case f of Proc_stdout \<Rightarrow> proc_stdout upd obj buf st | Proc_term \<Rightarrow> None)),
     pc_term = (\<lambda>f obj status st. opt_ends (case f of Proc_term \<Rightarrow> proc_term upd obj status st | Proc_stdout \<Rightarrow> None))\<rparr>"

definition proc_enable :: "io_state updater \<Rightarrow> nat \<Rightarrow> int \<Rightarrow> io_state \<Rightarrow> io_state option" where
  "proc_enable upd obj v st =
     (case proc_ctx_of obj st of
        None \<Rightarrow> None
      | Some c \<Rightarrow>
          if v = p_state (pad_at st (pj_enable c)) then Some st
          else
            let st = set_state (pj_enable c) v st
            in if v \<noteq> 0 then proc_obj_start upd obj st
               else
                 let st = set_proc_ctx obj (c\<lparr>pj_respawn_tag := 0\<rparr>) (disarm (pj_respawn_tag c) st)
                 in case pj_proc c of
                      None \<Rightarrow> Some st
                    | Some k \<Rightarrow>
                        if pj_mode c = MODE_AGENT then ends_opt (hk_proc_stop (proc_class_calls upd) k st) else Some st)"

definition proc_in :: "nat \<Rightarrow> string \<Rightarrow> io_state \<Rightarrow> io_state option" where
  "proc_in obj v st =
     (case proc_ctx_of obj st of
        None \<Rightarrow> None
      | Some c \<Rightarrow>
          Some (case pj_proc c of None \<Rightarrow> st | Some k \<Rightarrow> hk_proc_write k [LF] (hk_proc_write k v st)))"

definition proc_input :: "io_state updater \<Rightarrow> nat \<Rightarrow> string \<Rightarrow> io_state \<Rightarrow> io_state option" where
  "proc_input upd pad v st =
     (let obj = p_obj (pad_at st pad)
      in case proc_ctx_of obj st of
           None \<Rightarrow> None
         | Some c \<Rightarrow>
             if pad = pj_enable c then proc_enable upd obj (atoi v) st
             else if pad = pj_in c then proc_in obj v st
             else Some st)"

section \<open>The class fwrite\<close>

definition fwrite_new :: "nat \<Rightarrow> io_state \<Rightarrow> (int \<times> io_state) option" where
  "fwrite_new obj st =
     (case prop_of obj ''path'' st of
        None \<Rightarrow> Some (-1, st)
      | Some path \<Rightarrow>
          (case hk_pad_create obj HK_PAD_IN ''in'' st of (inp, st) \<Rightarrow>
             Some (0, set_ctx obj (Other_ctx (Fwrite_ctx \<lparr>fw_path = path, fw_in = inp\<rparr>)) st)))"

definition fwrite_input :: "nat \<Rightarrow> string \<Rightarrow> io_state \<Rightarrow> io_state option" where
  "fwrite_input pad v st =
     (case ctx_of (p_obj (pad_at st pad)) st of
        Some (Other_ctx (Fwrite_ctx c)) \<Rightarrow>
          Some (if pad = fw_in c \<and> io_writable st (fw_path c)
                then st\<lparr>io_files := (io_files st)(fw_path c \<mapsto> v)\<rparr> else st)
      | _ \<Rightarrow> None)"

section \<open>Both classes\<close>

definition io_class_table :: "io_state class_table" where
  "io_class_table upd cname =
     (if cname = ''proc'' then \<lparr>m_new = Some proc_new, m_start = None, m_input = Some (proc_input upd)\<rparr>
      else if cname = ''fwrite'' then \<lparr>m_new = Some fwrite_new, m_start = None, m_input = Some fwrite_input\<rparr>
      else \<lparr>m_new = None, m_start = None, m_input = None\<rparr>)"

section \<open>Frames\<close>

lemma proc_quiet_io:
  fixes s s' :: io_state
  assumes "proc_quiet s s'"
  shows "pads s' = pads s" "objs s' = objs s" "nets s' = nets s" "tiles s' = tiles s" "tile_tab s' = tile_tab s"
    "execs s' = execs s" "forks s' = forks s" "alive s' = alive s" "kills s' = kills s" "hk_clock s' = hk_clock s"
    "io_files s' = io_files s" "proc_ctx_of obj s' = proc_ctx_of obj s"
  using assms by (cases s; cases s'; simp add: proc_quiet_def proc_ctx_of_def ctx_of_def)+

lemma upd_pad_proc [simp]:
  fixes st :: io_state
  shows "procs (upd_pad p g st) = procs st" "execs (upd_pad p g st) = execs st" "forks (upd_pad p g st) = forks st"
    "alive (upd_pad p g st) = alive st" "kills (upd_pad p g st) = kills st"
    "proc_ctx_of obj (upd_pad p g st) = proc_ctx_of obj st"
  by (simp_all add: upd_pad_def proc_ctx_of_def ctx_of_def)

lemma set_state_proc [simp]:
  fixes st :: io_state
  shows "procs (set_state p v st) = procs st" "execs (set_state p v st) = execs st" "forks (set_state p v st) = forks st"
    "alive (set_state p v st) = alive st" "kills (set_state p v st) = kills st" "objs (set_state p v st) = objs st"
    "proc_ctx_of obj (set_state p v st) = proc_ctx_of obj st" "length (pads (set_state p v st)) = length (pads st)"
  by (simp_all add: set_state_def)

lemma set_proc_ctx_frame [simp]:
  "procs (set_proc_ctx obj c st) = procs st" "execs (set_proc_ctx obj c st) = execs st"
  "forks (set_proc_ctx obj c st) = forks st" "alive (set_proc_ctx obj c st) = alive st"
  "kills (set_proc_ctx obj c st) = kills st" "pads (set_proc_ctx obj c st) = pads st"
  "length (objs (set_proc_ctx obj c st)) = length (objs st)"
  by (simp_all add: set_proc_ctx_def set_ctx_def upd_obj_def)

lemma proc_ctx_set [simp]: "obj < length (objs st) \<Longrightarrow> proc_ctx_of obj (set_proc_ctx obj c st) = Some c"
  by (simp add: proc_ctx_of_def set_proc_ctx_def ctx_of_def set_ctx_def upd_obj_def map_nth_def)

lemma set_proc_ctx_objs [simp]:
  "o_pads (obj_at (set_proc_ctx obj c st) j) = o_pads (obj_at st j)" "o_name (obj_at (set_proc_ctx obj c st) j) = o_name (obj_at st j)"
  "o_tile (obj_at (set_proc_ctx obj c st) j) = o_tile (obj_at st j)" "tiles (set_proc_ctx obj c st) = tiles st"
  "tile_tab (set_proc_ctx obj c st) = tile_tab st"
  by (simp_all add: set_proc_ctx_def set_ctx_def obj_at_upd)

lemma proc_argv_ctx [simp]: "proc_argv obj (set_proc_ctx obj' c st) argv = proc_argv obj st argv"
proof -
  have t: "tile_search name (set_proc_ctx obj' c st) tab = tile_search name st tab" for name tab
    by (induction name st tab rule: tile_search.induct) simp_all
  have o: "hk_obj_find tile name (set_proc_ctx obj' c st) = hk_obj_find tile name st" for tile name
    by (simp add: hk_obj_find_def find_ref_def)
  have p: "hk_pad_find obj name (set_proc_ctx obj' c st) = hk_pad_find obj name st" for obj name
    by (simp add: hk_pad_find_def)
  have "hk_pad_get_value obj ref (set_proc_ctx obj' c st) = hk_pad_get_value obj ref st" for ref
    unfolding hk_pad_get_value_def hk_tile_find_def t o p set_proc_ctx_objs set_proc_ctx_frame by (rule refl)
  then show ?thesis by (induction argv) simp_all
qed

lemma update_unconnected:
  "p_net (pad_at st pad) = None \<Longrightarrow>
    hk_pad_update_str cls (Suc n) pad v st = Some (upd_pad pad (\<lambda>p. p\<lparr>p_value := Some v\<rparr>) st)"
  by simp

section \<open>Objects and their processes\<close>

definition proc_wired :: "nat \<Rightarrow> proc_ctx \<Rightarrow> io_state \<Rightarrow> bool" where
  \<comment> \<open>the outputs \<open>run\<close> and \<open>status\<close> are not connected\<close>
  "proc_wired obj c st \<longleftrightarrow> obj < length (objs st) \<and> proc_ctx_of obj st = Some c \<and>
     pj_enable c < length (pads st) \<and> pj_run c < length (pads st) \<and> pj_status c < length (pads st) \<and>
     distinct [pj_enable c, pj_run c, pj_status c] \<and>
     p_net (pad_at st (pj_run c)) = None \<and> p_net (pad_at st (pj_status c)) = None"

definition proc_runs :: "nat \<Rightarrow> nat \<Rightarrow> io_state \<Rightarrow> bool" where
  \<comment> \<open>the process \<open>k\<close> runs, and reports its end to the object\<close>
  "proc_runs obj k st \<longleftrightarrow> k < length (procs st) \<and> pr_state (proc_at st k) = HK_PROC_ST_RUN \<and>
     pr_pid (proc_at st k) \<in> set (alive st) \<and> pr_cb_term (proc_at st k) = Some Proc_term \<and>
     pr_user_data (proc_at st k) = obj"

abbreviation shown :: "io_state \<Rightarrow> nat \<Rightarrow> string option" where "shown st pad \<equiv> p_value (pad_at st pad)"

lemma proc_start_effect:
  assumes w: "proc_wired obj c st" and idle: "pj_proc c = None" and fork: "forks st = Some f # next"
    and argv: "proc_argv obj st (pj_cmd_argv c) = Some argv"
  shows "\<exists>k s. proc_obj_start (hk_pad_update_str cls (Suc n)) obj st = Some s \<and> proc_wired obj (c\<lparr>pj_proc := Some k\<rparr>) s \<and>
    pr_pid (proc_at s k) = fk_pid f \<and> pr_state (proc_at s k) = HK_PROC_ST_RUN \<and> pr_user_data (proc_at s k) = obj \<and>
    pr_cb_term (proc_at s k) = Some Proc_term \<and> k < length (procs s) \<and> alive s = alive st @ [fk_pid f] \<and>
    execs s = execs st @ [(fk_pid f, argv)] \<and> forks s = next \<and> shown s (pj_run c) = Some ''1'' \<and>
    p_state (pad_at s (pj_enable c)) = p_state (pad_at st (pj_enable c))"
proof -
  define k where "k = (case hk_proc_find_free st of Some k \<Rightarrow> k | None \<Rightarrow> length (procs st))"
  obtain s1 tag out err where s1: "hk_proc_start argv (Some Proc_stdout) None (Some Proc_term) obj st = (Some k, s1)"
    "proc_quiet (st\<lparr>forks := next, alive := alive st @ [fk_pid f], execs := execs st @ [(fk_pid f, argv)]\<rparr>) s1"
    and p1: "procs s1 = (let ps = procs st @ (if k < length (procs st) then [] else [hk_proc_zero]) in
      ps[k := \<lparr>pr_state = HK_PROC_ST_RUN, pr_pid = fk_pid f, pr_stdin_fd = fk_in f, pr_stdout = out, pr_stderr = err,
        pr_sigchld_tag = tag, pr_timeout_tag = 0, pr_cb_stdout = Some Proc_stdout, pr_cb_stderr = None,
        pr_cb_term = Some Proc_term, pr_user_data = obj\<rparr>])"
    using start_effect [OF fork, of argv "Some Proc_stdout" None "Some Proc_term" obj, folded k_def] by blast
  note q = proc_quiet_io [OF s1(2)]
  have kl: "k < length (procs st @ (if k < length (procs st) then [] else [hk_proc_zero]))"
    by (auto simp: k_def hk_proc_find_free_def split: option.split dest: find_index_SomeD)
  let ?s = "upd_pad (pj_run c) (\<lambda>p. p\<lparr>p_value := Some (int_dec 1)\<rparr>) (set_proc_ctx obj (c\<lparr>pj_proc := Some k\<rparr>) s1)"
  have ctx: "proc_ctx_of obj (st\<lparr>forks := next, alive := alive st @ [fk_pid f], execs := execs st @ [(fk_pid f, argv)]\<rparr>) = Some c"
    using w by (simp add: proc_wired_def proc_ctx_of_def ctx_of_def)
  have n: "p_net (pad_at (set_proc_ctx obj (c\<lparr>pj_proc := Some k\<rparr>) s1) (pj_run c)) = None"
    using w q by (simp add: proc_wired_def)
  have "proc_obj_start (hk_pad_update_str cls (Suc n)) obj st = Some ?s"
    using w idle argv s1(1) update_unconnected [OF n]
    by (simp add: proc_obj_start_def proc_wired_def hk_pad_update_int_def del: hk_pad_update_str.simps)
  moreover have "proc_wired obj (c\<lparr>pj_proc := Some k\<rparr>) ?s"
    using w q by (simp add: proc_wired_def pad_at_upd)
  moreover have "shown ?s (pj_run c) = Some ''1''" "p_state (pad_at ?s (pj_enable c)) = p_state (pad_at st (pj_enable c))"
  proof -
    have "int_dec 1 = ''1''" by code_simp
    then show "shown ?s (pj_run c) = Some ''1''" "p_state (pad_at ?s (pj_enable c)) = p_state (pad_at st (pj_enable c))"
      using w q by (simp_all add: proc_wired_def pad_at_upd)
  qed
  moreover have "proc_at ?s k = proc_at s1 k" by simp
  ultimately show ?thesis using q kl by (intro exI [of _ k] exI [of _ ?s]) (simp add: p1 Let_def)
qed

lemma arm_quiet:
  fixes st :: io_state
  shows "proc_quiet st (snd (arm d f obj (disarm tag st)))"
  unfolding arm_def disarm_def by (auto intro: sys_quiet proc_quiet_trans [OF sys_quiet(1) sys_quiet(2)])

lemma proc_wired_quiet: "proc_wired obj c st \<Longrightarrow> proc_quiet st s \<Longrightarrow> proc_wired obj c s"
  using proc_quiet_io [of st s] by (simp add: proc_wired_def)

lemma proc_wired_ctx: "proc_wired obj c st \<Longrightarrow> proc_wired obj (c\<lparr>pj_proc := x, pj_respawn_tag := t\<rparr>)
    (set_proc_ctx obj (c\<lparr>pj_proc := x, pj_respawn_tag := t\<rparr>) st)"
  by (simp add: proc_wired_def)

lemma proc_term_effect:
  assumes w: "proc_wired obj c st"
  shows "\<exists>t s. proc_term (hk_pad_update_str cls (Suc n)) obj status st = Some s \<and>
    proc_wired obj (c\<lparr>pj_proc := None, pj_respawn_tag := t\<rparr>) s \<and> procs s = procs st \<and> execs s = execs st \<and>
    forks s = forks st \<and> alive s = alive st \<and> shown s (pj_run c) = Some ''0'' \<and>
    shown s (pj_status c) = Some (int_dec status) \<and>
    p_state (pad_at s (pj_enable c)) = p_state (pad_at st (pj_enable c))"
proof -
  let ?c = "c\<lparr>pj_proc := None\<rparr>"
  let ?s1 = "set_proc_ctx obj ?c st"
  let ?s2 = "upd_pad (pj_run c) (\<lambda>p. p\<lparr>p_value := Some (int_dec 0)\<rparr>) ?s1"
  let ?s3 = "upd_pad (pj_status c) (\<lambda>p. p\<lparr>p_value := Some (int_dec status)\<rparr>) ?s2"
  define s4 where "s4 = (if 0 < pj_respawn_delay c
    then snd (arm (to_int32 (pj_respawn_delay c * 1000)) ''proc:respawn'' obj (disarm (pj_respawn_tag c) ?s3)) else ?s3)"
  define t where "t = (if 0 < pj_respawn_delay c
    then fst (arm (to_int32 (pj_respawn_delay c * 1000)) ''proc:respawn'' obj (disarm (pj_respawn_tag c) ?s3)) else pj_respawn_tag c)"
  have n: "p_net (pad_at ?s1 (pj_run c)) = None" "p_net (pad_at ?s2 (pj_status c)) = None"
    using w by (simp_all add: proc_wired_def pad_at_upd)
  have c3: "proc_ctx_of obj ?s3 = Some ?c" using w by (simp add: proc_wired_def)
  define s5 where "s5 = (if 0 < pj_respawn_delay c then set_proc_ctx obj (?c\<lparr>pj_respawn_tag := t\<rparr>) s4 else s4)"
  have e: "proc_term (hk_pad_update_str cls (Suc n)) obj status st = Some s5"
    using w update_unconnected [OF n(1)] update_unconnected [OF n(2)] c3
    by (simp add: proc_term_def proc_wired_def hk_pad_update_int_def s5_def s4_def t_def case_prod_beta
        del: hk_pad_update_str.simps)
  have q4: "proc_quiet ?s3 s4" unfolding s4_def using arm_quiet by auto
  note q = proc_quiet_io [OF q4]
  have p4: "procs s4 = procs ?s3" by (simp add: s4_def arm_def disarm_def)
  have w3: "proc_wired obj ?c ?s3" using w by (simp add: proc_wired_def pad_at_upd)
  have w5: "proc_wired obj (c\<lparr>pj_proc := None, pj_respawn_tag := t\<rparr>) s5"
  proof (cases "0 < pj_respawn_delay c")
    case True
    then show ?thesis using proc_wired_ctx [OF proc_wired_quiet [OF w3 q4], where x = None and t = t] by (simp add: s5_def)
  next
    case False
    then have "c\<lparr>pj_proc := None, pj_respawn_tag := t\<rparr> = ?c" by (cases c) (simp add: t_def)
    with False proc_wired_quiet [OF w3 q4] show ?thesis by (simp add: s5_def)
  qed
  have f5: "procs s5 = procs st" "execs s5 = execs st" "forks s5 = forks st" "alive s5 = alive st" "pads s5 = pads ?s3"
    using q p4 by (simp_all add: s5_def)
  have "int_dec 0 = ''0''" by code_simp
  then have "shown s5 (pj_run c) = Some ''0''" "shown s5 (pj_status c) = Some (int_dec status)"
    "p_state (pad_at s5 (pj_enable c)) = p_state (pad_at st (pj_enable c))"
    using w unfolding f5(5) by (simp_all add: proc_wired_def pad_at_upd)
  with e w5 f5 show ?thesis by blast
qed

lemma proc_end_effect:
  assumes w: "proc_wired obj c st" and r: "proc_runs obj k st"
  shows "\<exists>t s. hk_proc_sigchld (proc_class_calls (hk_pad_update_str cls (Suc n))) k (pr_pid (proc_at st k)) status st = Inr s \<and>
    proc_wired obj (c\<lparr>pj_proc := None, pj_respawn_tag := t\<rparr>) s \<and> execs s = execs st \<and> forks s = forks st \<and>
    shown s (pj_run c) = Some ''0'' \<and> shown s (pj_status c) = Some (int_dec status) \<and>
    p_state (pad_at s (pj_enable c)) = p_state (pad_at st (pj_enable c))"
proof -
  have k: "k < length (procs st)" "pr_cb_term (proc_at st k) = Some Proc_term" "pr_user_data (proc_at st k) = obj"
    using r by (simp_all add: proc_runs_def)
  let ?calls = "proc_class_calls (hk_pad_update_str cls (Suc n))"
  obtain s1 where s1: "proc_quiet st s1"
    "hk_proc_sigchld ?calls k (pr_pid (proc_at st k)) status st =
       go (opt_ends (proc_term (hk_pad_update_str cls (Suc n)) obj status s1)) (\<lambda>st. Inr (hk_proc_remove k (hk_proc_term k st)))"
    using sigchld_effect [OF k(1), of ?calls status] k(2,3)
    by (auto simp: proc_class_calls_def simp del: hk_pad_update_str.simps)
  note q1 = proc_quiet_io [OF s1(1)]
  obtain t s2 where s2: "proc_term (hk_pad_update_str cls (Suc n)) obj status s1 = Some s2"
    "proc_wired obj (c\<lparr>pj_proc := None, pj_respawn_tag := t\<rparr>) s2" "execs s2 = execs s1" "forks s2 = forks s1"
    "shown s2 (pj_run c) = Some ''0''" "shown s2 (pj_status c) = Some (int_dec status)"
    "p_state (pad_at s2 (pj_enable c)) = p_state (pad_at s1 (pj_enable c))"
    using proc_term_effect [OF proc_wired_quiet [OF w s1(1)], of cls n status] by blast
  let ?s = "hk_proc_remove k (hk_proc_term k s2)"
  have q: "proc_quiet s2 ?s" unfolding hk_proc_remove_def by (rule proc_quiet_trans [OF term_quiet sys_quiet(6)])
  have "hk_proc_sigchld ?calls k (pr_pid (proc_at st k)) status st = Inr ?s"
    using s1(2) s2(1) by (simp add: opt_ends_def del: hk_pad_update_str.simps)
  with proc_wired_quiet [OF s2(2) q] proc_quiet_io [OF q] s2 q1 show ?thesis by auto
qed



section \<open>Examples\<close>

definition one_tile :: io_state where
  \<comment> \<open>an empty tile, and a system in which two starts will succeed\<close>
  "one_tile = proc_state.extend
     (hk_state.extend
       ((hk_start 0)\<lparr>sources := replicate 8 sys_source_clear,
          tiles := [\<lparr>t_dir = ''/t'', t_name = ''t'', t_fname = ''t.hk'', t_objs = [], t_nets = []\<rparr>], tile_tab := [Some 0]\<rparr>)
       (proc_state.fields [] [Some \<lparr>fk_pid = 101, fk_in = 5, fk_out = 6, fk_err = 7\<rparr>,
          Some \<lparr>fk_pid = 102, fk_in = 8, fk_out = 9, fk_err = 10\<rparr>] [] [] [] []))
     (io_state.fields Map.empty (\<lambda>_. True))"

definition agent_created :: io_state where
  "agent_created =
     (case proc_new 0 (snd (hk_obj_create 0 ''proc'' ''p'' [''cmd=agent $enable'', ''mode=agent'', ''respawn=5''] one_tile)) of
        Some (ret, st) \<Rightarrow> st | None \<Rightarrow> one_tile)"

definition agent_running :: io_state where
  "agent_running =
     (case io_class_table (hk_pad_update_str io_class_table 1) ''proc'' of
        cl \<Rightarrow> (case m_input cl of None \<Rightarrow> agent_created
                | Some f \<Rightarrow> (case f 0 ''1'' agent_created of Some st \<Rightarrow> st | None \<Rightarrow> agent_created)))"

definition agent_ctx :: proc_ctx where
  "agent_ctx = the (proc_ctx_of 0 agent_running)"

definition agent_check :: "io_state \<Rightarrow> bool" where
  "agent_check st \<longleftrightarrow>
     (case proc_ctx_of 0 st of
        None \<Rightarrow> False
      | Some c \<Rightarrow>
          proc_wired 0 c st \<and> pj_proc c = Some 0 \<and> proc_runs 0 0 st \<and> pj_mode c = MODE_AGENT \<and>
          p_state (pad_at st (pj_enable c)) = 1 \<and>
          forks st = [Some \<lparr>fk_pid = 102, fk_in = 8, fk_out = 9, fk_err = 10\<rparr>] \<and>
          execs st = [(101, [''agent'', ''$enable''])] \<and> pr_pid (proc_at st 0) = 101 \<and>
          pj_cmd_argv c = [''agent'', ''$enable''] \<and> pj_run c = 2 \<and> pj_status c = 4)"

lemma agent_facts:
  "proc_wired 0 agent_ctx agent_running" "pj_proc agent_ctx = Some 0" "proc_runs 0 0 agent_running"
  "pj_mode agent_ctx = MODE_AGENT" "p_state (pad_at agent_running (pj_enable agent_ctx)) = 1"
  "forks agent_running = Some \<lparr>fk_pid = 102, fk_in = 8, fk_out = 9, fk_err = 10\<rparr> # []"
  "execs agent_running = [(101, [''agent'', ''$enable''])]" "pr_pid (proc_at agent_running 0) = 101"
  "pj_cmd_argv agent_ctx = [''agent'', ''$enable'']" "pj_run agent_ctx = 2" "pj_status agent_ctx = 4"
proof -
  have "agent_check agent_running" by code_simp
  then show "proc_wired 0 agent_ctx agent_running" "pj_proc agent_ctx = Some 0" "proc_runs 0 0 agent_running"
    "pj_mode agent_ctx = MODE_AGENT" "p_state (pad_at agent_running (pj_enable agent_ctx)) = 1"
    "forks agent_running = Some \<lparr>fk_pid = 102, fk_in = 8, fk_out = 9, fk_err = 10\<rparr> # []"
    "execs agent_running = [(101, [''agent'', ''$enable''])]" "pr_pid (proc_at agent_running 0) = 101"
    "pj_cmd_argv agent_ctx = [''agent'', ''$enable'']" "pj_run agent_ctx = 2" "pj_status agent_ctx = 4"
    unfolding agent_check_def agent_ctx_def by (simp_all split: option.splits)
qed



end
