(* ===== verification/Hk_Gpio.thy ===== *)
theory Hk_Gpio
  imports Hk_Timers
begin

text \<open>
  The class \<^verbatim>\<open>classes/gpio\<close>: \<^verbatim>\<open>gpio.c\<close> and \<^verbatim>\<open>sysfs.c\<close>, the ports of the machine as files under
  \<^verbatim>\<open>/sys/class/gpio\<close>, and \<^verbatim>\<open>main.c\<close>, the pads over them. What the files hold, and which of them can be
  opened, is part of the state, as is a record of what was written. \<open>None\<close> is an access outside the
  table of ports, or to a byte that \<open>read\<close> did not give.
\<close>

section \<open>State\<close>

datatype gpio_dir_t = GPIO_UNUSED | GPIO_INPUT | GPIO_OUTPUT

record gpio_entry_t =
  \<comment> \<open>\<open>ge_func\<close>: the object whose \<open>input_changed\<close> is called\<close>
  ge_dir :: gpio_dir_t
  ge_fd :: int
  ge_tag :: sys_tag
  ge_func :: "nat option"

record gpio_ctx =
  gc_port :: int
  gc_input :: bool
  gc_pad :: nat
  gc_blink :: "nat option"
  gc_value :: int
  gc_debounce_delay :: int
  gc_timeout_tag :: sys_tag

record gpio_state = "(gpio_ctx hk_ctx) hk_state" +
  gpio_entries :: "gpio_entry_t list"
  gp_open :: "string \<Rightarrow> int" \<comment> \<open>the descriptor \<open>open\<close> gives, or -1\<close>
  gp_read :: "string \<rightharpoonup> string" \<comment> \<open>what a file holds, if it can be read\<close>
  gp_writes :: "(string \<times> string) list"

definition gpio_of :: "nat \<Rightarrow> gpio_state \<Rightarrow> gpio_ctx option" where
  "gpio_of obj st = (case ctx_of obj st of Some (Other_ctx c) \<Rightarrow> Some c | _ \<Rightarrow> None)"

definition set_gpio :: "nat \<Rightarrow> gpio_ctx \<Rightarrow> gpio_state \<Rightarrow> gpio_state" where
  "set_gpio obj c st = set_ctx obj (Other_ctx c) st"

section \<open>Files\<close>

definition sysfs_write_str :: "string \<Rightarrow> string \<Rightarrow> gpio_state \<Rightarrow> int \<times> gpio_state" where
  "sysfs_write_str path str st =
     (if gp_open st path < 0 then (-1, st) else (0, st\<lparr>gp_writes := gp_writes st @ [(path, str @ [LF])]\<rparr>))"

definition sysfs_write_int :: "string \<Rightarrow> int \<Rightarrow> gpio_state \<Rightarrow> int \<times> gpio_state" where
  "sysfs_write_int path v st = sysfs_write_str path (int_dec v) st"

definition sysfs_read_str :: "string \<Rightarrow> nat \<Rightarrow> gpio_state \<Rightarrow> string option" where
  \<comment> \<open>one line, if there is one\<close>
  "sysfs_read_str path sz st =
     (case gp_read st path of
        None \<Rightarrow> None
      | Some s \<Rightarrow>
          if s = [] then None
          else let l = take (sz - 1) s
               in Some (case strchr l LF of None \<Rightarrow> l | Some i \<Rightarrow> take (i + 1) l))"

definition sysfs_read_int :: "string \<Rightarrow> gpio_state \<Rightarrow> int" where
  "sysfs_read_int path st = (case sysfs_read_str path 32 st of None \<Rightarrow> -1 | Some buf \<Rightarrow> atoi (cstr buf))"

definition gpio_path :: "int \<Rightarrow> string \<Rightarrow> string" where
  "gpio_path n entry = ''/sys/class/gpio/gpio'' @ int_dec n @ entry"

section \<open>Ports\<close>

definition gpio_entry_none :: gpio_entry_t where
  "gpio_entry_none = \<lparr>ge_dir = GPIO_UNUSED, ge_fd = -1, ge_tag = 0, ge_func = None\<rparr>"

definition gpio_entry :: "int \<Rightarrow> gpio_state \<Rightarrow> (nat \<times> gpio_state) option" where
  \<comment> \<open>the table grows up to the port; a negative number is outside of it\<close>
  "gpio_entry n st =
     (if n < 0 then None
      else Some (nat n, st\<lparr>gpio_entries := gpio_entries st @
             replicate (nat n + 1 - length (gpio_entries st)) gpio_entry_none\<rparr>))"

definition upd_entry :: "nat \<Rightarrow> (gpio_entry_t \<Rightarrow> gpio_entry_t) \<Rightarrow> gpio_state \<Rightarrow> gpio_state" where
  "upd_entry i g st = st\<lparr>gpio_entries := map_nth i g (gpio_entries st)\<rparr>"

abbreviation entry_at :: "gpio_state \<Rightarrow> nat \<Rightarrow> gpio_entry_t" where "entry_at st i \<equiv> gpio_entries st ! i"

definition gpio_entry_set_value :: "nat \<Rightarrow> int \<Rightarrow> gpio_state \<Rightarrow> int \<times> gpio_state" where
  \<comment> \<open>through the open descriptor\<close>
  "gpio_entry_set_value i v st =
     (if ge_fd (entry_at st i) < 0 then (-1, st)
      else (v, st\<lparr>gp_writes := gp_writes st @ [(gpio_path (int i) ''/value'', int_dec v @ [LF])]\<rparr>))"

definition gpio_entry_get_value :: "nat \<Rightarrow> gpio_state \<Rightarrow> int option" where
  \<comment> \<open>nothing read: the first byte of the buffer is undefined\<close>
  "gpio_entry_get_value i st =
     (case gp_read st (gpio_path (int i) ''/value'') of
        None \<Rightarrow> Some (-1)
      | Some [] \<Rightarrow> None
      | Some (c # buf) \<Rightarrow> Some (if c = CHR ''0'' then 0 else 1))"

definition gpio_entry_close :: "nat \<Rightarrow> gpio_state \<Rightarrow> gpio_state" where
  "gpio_entry_close i st =
     (let tag = ge_tag (entry_at st i);
          st = (if tag \<noteq> 0 then upd_entry i (\<lambda>e. e\<lparr>ge_tag := 0\<rparr>) (sys_remove tag st) else st)
      in upd_entry i (\<lambda>e. e\<lparr>ge_fd := (if 0 \<le> ge_fd e then -1 else ge_fd e)\<rparr>) st)"

definition gpio_export :: "int \<Rightarrow> gpio_state \<Rightarrow> gpio_state" where
  \<comment> \<open>a port whose directory cannot be read is exported\<close>
  "gpio_export n st =
     (if gp_read st (gpio_path n []) = None then snd (sysfs_write_int ''/sys/class/gpio/export'' n st) else st)"

definition gpio_unexport :: "int \<Rightarrow> gpio_state \<Rightarrow> gpio_state option" where
  "gpio_unexport n st =
     map_option
       (\<lambda>(i, st).
          let st = upd_entry i (\<lambda>e. e\<lparr>ge_func := None\<rparr>) (gpio_entry_close i (upd_entry i (\<lambda>e. e\<lparr>ge_dir := GPIO_UNUSED\<rparr>) st))
          in if gp_read st (gpio_path n []) \<noteq> None then snd (sysfs_write_int ''/sys/class/gpio/unexport'' n st) else st)
       (gpio_entry n st)"

definition gpio_set_active_low :: "int \<Rightarrow> int \<Rightarrow> gpio_state \<Rightarrow> gpio_state" where
  "gpio_set_active_low n enable st = snd (sysfs_write_int (gpio_path n ''/active_low'') enable st)"

definition gpio_set_output :: "int \<Rightarrow> gpio_state \<Rightarrow> (int \<times> gpio_state) option" where
  "gpio_set_output n st =
     map_option
       (\<lambda>(i, st).
          let st = snd (sysfs_write_str (gpio_path n ''/direction'') ''out'' (gpio_entry_close i st));
              fd = gp_open st (gpio_path n ''/value'');
              st = upd_entry i (\<lambda>e. e\<lparr>ge_fd := fd\<rparr>) st
          in if fd < 0 then (-1, st) else (0, upd_entry i (\<lambda>e. e\<lparr>ge_dir := GPIO_OUTPUT\<rparr>) st))
       (gpio_entry n st)"

definition gpio_set_value :: "int \<Rightarrow> int \<Rightarrow> gpio_state \<Rightarrow> gpio_state option" where
  "gpio_set_value n v st =
     map_option
       (\<lambda>(i, st).
          if ge_dir (entry_at st i) = GPIO_OUTPUT then snd (gpio_entry_set_value i v st)
          else snd (sysfs_write_int (gpio_path n ''/value'') v st))
       (gpio_entry n st)"

definition gpio_get_value :: "int \<Rightarrow> gpio_state \<Rightarrow> (int \<times> gpio_state) option" where
  "gpio_get_value n st =
     Option.bind (gpio_entry n st)
       (\<lambda>(i, st).
          if ge_dir (entry_at st i) = GPIO_INPUT then map_option (\<lambda>v. (v, st)) (gpio_entry_get_value i st)
          else Some (sysfs_read_int (gpio_path n ''/value'') st, st))"

definition gpio_set_input :: "int \<Rightarrow> nat \<Rightarrow> gpio_state \<Rightarrow> (int \<times> gpio_state) option" where
  "gpio_set_input n obj st =
     map_option
       (\<lambda>(i, st).
          let st = snd (sysfs_write_str (gpio_path n ''/direction'') ''in'' (gpio_entry_close i st));
              st = snd (sysfs_write_str (gpio_path n ''/edge'') ''both'' st);
              fd = gp_open st (gpio_path n ''/value'');
              st = upd_entry i (\<lambda>e. e\<lparr>ge_fd := fd\<rparr>) st
          in if fd < 0 then (-1, snd (sysfs_write_str (gpio_path n ''/edge'') ''none'' st))
             else
               case sys_io_poll fd POLLPRI (Some ''gpio_input_event'') (Some i) st of (tag, st) \<Rightarrow>
                 (0, upd_entry i (\<lambda>e. e\<lparr>ge_tag := tag, ge_dir := GPIO_INPUT, ge_func := Some obj\<rparr>) st))
       (gpio_entry n st)"

section \<open>The class\<close>

definition gpio_timeout_clear :: "nat \<Rightarrow> gpio_state \<Rightarrow> gpio_state" where
  "gpio_timeout_clear obj st =
     (case gpio_of obj st of
        None \<Rightarrow> st
      | Some c \<Rightarrow>
          if gc_timeout_tag c \<noteq> 0 then set_gpio obj (c\<lparr>gc_timeout_tag := 0\<rparr>) (sys_remove (gc_timeout_tag c) st) else st)"

definition gpio_input_update :: "gpio_state updater \<Rightarrow> nat \<Rightarrow> gpio_state \<Rightarrow> (int \<times> gpio_state) option" where
  "gpio_input_update upd obj st =
     (case gpio_of obj st of
        None \<Rightarrow> None
      | Some c \<Rightarrow>
          let st = set_gpio obj (c\<lparr>gc_timeout_tag := 0\<rparr>) st
          in map_option (\<lambda>st. (0, st))
               (if p_state (pad_at st (gc_pad c)) \<noteq> gc_value c
                then hk_pad_update_int upd (gc_pad c) (gc_value c) (set_state (gc_pad c) (gc_value c) st)
                else Some st))"

definition gpio_timer :: "int \<Rightarrow> string \<Rightarrow> nat \<Rightarrow> gpio_state \<Rightarrow> gpio_state" where
  \<comment> \<open>\<open>ctx->timeout_tag = sys_timeout (delay, func, ctx)\<close>\<close>
  "gpio_timer delay func obj st =
     (case arm delay func obj st of (tag, st) \<Rightarrow>
        case gpio_of obj st of None \<Rightarrow> st | Some c \<Rightarrow> set_gpio obj (c\<lparr>gc_timeout_tag := tag\<rparr>) st)"

definition gpio_input_changed :: "gpio_state updater \<Rightarrow> nat \<Rightarrow> int \<Rightarrow> gpio_state \<Rightarrow> gpio_state option" where
  "gpio_input_changed upd obj v st =
     (case gpio_of obj st of
        None \<Rightarrow> None
      | Some c \<Rightarrow>
          let st = gpio_timeout_clear obj (set_gpio obj (c\<lparr>gc_value := v\<rparr>) st)
          in if 0 < gc_debounce_delay c then Some (gpio_timer (gc_debounce_delay c) ''gpio:input_update'' obj st)
             else map_option snd (gpio_input_update upd obj st))"

definition gpio_input_event :: "gpio_state updater \<Rightarrow> nat \<Rightarrow> gpio_state \<Rightarrow> (int \<times> gpio_state) option" where
  "gpio_input_event upd n st =
     Option.bind (gpio_entry (int n) st)
       (\<lambda>(i, st). Option.bind (gpio_entry_get_value i st)
          (\<lambda>v. map_option (\<lambda>st. (if 0 \<le> v then 1 else 0, st))
             (case ge_func (entry_at st i) of None \<Rightarrow> Some st | Some obj \<Rightarrow> gpio_input_changed upd obj v st)))"

definition gpio_blink_timer :: "nat \<Rightarrow> gpio_state \<Rightarrow> (int \<times> gpio_state) option" where
  "gpio_blink_timer obj st =
     (case gpio_of obj st of
        None \<Rightarrow> None
      | Some c \<Rightarrow>
          let v = to_int32 (1 - p_state (pad_at st (gc_pad c)))
          in map_option (\<lambda>st. (1, st)) (gpio_set_value (gc_port c) v (set_state (gc_pad c) v st)))"

definition gpio_new :: "nat \<Rightarrow> gpio_state \<Rightarrow> (int \<times> gpio_state) option" where
  \<comment> \<open>the function of the port is set before the pad is made; no event comes in between\<close>
  "gpio_new obj st =
     (case (case prop_of obj ''input'' st of Some s \<Rightarrow> Some (True, s)
            | None \<Rightarrow> map_option (Pair False) (prop_of obj ''output'' st)) of
        None \<Rightarrow> Some (-1, st)
      | Some (inp, str) \<Rightarrow>
          let low = take 1 str = ''!''; port = atoi (if low then tl str else str);
              debounce = prop_int obj ''debounce'' st;
              st = gpio_set_active_low port (if low then 1 else 0) (gpio_export port st);
              c = \<lparr>gc_port = port, gc_input = inp, gc_pad = 0, gc_blink = None, gc_value = -1,
                gc_debounce_delay = debounce, gc_timeout_tag = 0\<rparr>
          in if inp then
               Option.bind (gpio_set_input port obj st) (\<lambda>(ret, st).
                 case hk_pad_create obj HK_PAD_OUT ''out'' st of (pad, st) \<Rightarrow> Some (0, set_gpio obj (c\<lparr>gc_pad := pad\<rparr>) st))
             else
               Option.bind (gpio_set_output port st) (\<lambda>(ret, st).
                 case hk_pad_create obj HK_PAD_IN ''in'' st of (pad, st) \<Rightarrow>
                 case hk_pad_create obj HK_PAD_IN ''blink'' st of (blink, st) \<Rightarrow>
                   Some (0, set_gpio obj (c\<lparr>gc_pad := pad, gc_blink := Some blink\<rparr>) st)))"

definition gpio_start :: "gpio_state updater \<Rightarrow> nat \<Rightarrow> gpio_state \<Rightarrow> gpio_state option" where
  "gpio_start upd obj st =
     (case gpio_of obj st of
        None \<Rightarrow> None
      | Some c \<Rightarrow>
          if gc_input c then
            Option.bind (gpio_get_value (gc_port c) st)
              (\<lambda>(v, st). hk_pad_update_int upd (gc_pad c) v (set_state (gc_pad c) v (set_gpio obj (c\<lparr>gc_value := v\<rparr>) st)))
          else Some st)"

definition gpio_input :: "nat \<Rightarrow> string \<Rightarrow> gpio_state \<Rightarrow> gpio_state option" where
  "gpio_input pad v st =
     (let obj = p_obj (pad_at st pad); st = set_state pad (atoi v) (gpio_timeout_clear obj st)
      in case gpio_of obj st of
           None \<Rightarrow> None
         | Some c \<Rightarrow>
             (case gc_blink c of
                None \<Rightarrow> None
              | Some blink \<Rightarrow>
                  let period = p_state (pad_at st blink)
                  in if pad = gc_pad c then
                       let st = (if p_state (pad_at st pad) \<noteq> 0 then
                               let st = set_state pad 1 st
                               in if 0 < p_state (pad_at st blink)
                                  then gpio_timer (p_state (pad_at st blink)) ''gpio:blink_timer'' obj st else st
                             else st);
                           s = p_state (pad_at st pad)
                       in case gpio_of obj st of
                            None \<Rightarrow> None
                          | Some c \<Rightarrow> gpio_set_value (gc_port c) s (set_gpio obj (c\<lparr>gc_value := s\<rparr>) st)
                     else if 0 < period then
                       Some (if 0 < gc_value c then gpio_timer period ''gpio:blink_timer'' obj st else st)
                     else if 0 \<le> gc_value c \<and> p_state (pad_at st (gc_pad c)) \<noteq> gc_value c then
                       gpio_set_value (gc_port c) (gc_value c) (set_state (gc_pad c) (gc_value c) st)
                     else Some st))"

definition gpio_class :: "gpio_state updater \<Rightarrow> gpio_state hk_class" where
  "gpio_class upd = \<lparr>m_new = Some gpio_new, m_start = Some (gpio_start upd), m_input = Some gpio_input\<rparr>"

section \<open>Bounces\<close>

definition gpio_wired :: "nat \<Rightarrow> gpio_ctx \<Rightarrow> gpio_state \<Rightarrow> bool" where
  "gpio_wired obj c st \<longleftrightarrow> obj < length (objs st) \<and> gpio_of obj st = Some c \<and> gc_pad c < length (pads st) \<and>
     p_net (pad_at st (gc_pad c)) = None"

lemma set_gpio_simps [simp]:
  "pads (set_gpio obj c st) = pads st" "length (objs (set_gpio obj c st)) = length (objs st)"
  "obj < length (objs st) \<Longrightarrow> gpio_of obj (set_gpio obj c st) = Some c"
  by (simp_all add: set_gpio_def set_ctx_def gpio_of_def ctx_of_def upd_obj_def map_nth_def)

lemma sys_gpio_simps [simp]:
  fixes st :: gpio_state
  shows "pads (sys_remove tag st) = pads st" "objs (sys_remove tag st) = objs st"
    "gpio_of obj (sys_remove tag st) = gpio_of obj st"
    "pads (snd (arm d f obj st)) = pads st" "objs (snd (arm d f obj st)) = objs st"
    "gpio_of obj' (snd (arm d f obj st)) = gpio_of obj' st"
  by (auto simp: sys_remove_def upd_source_def arm_def sys_timeout_def sys_source_add_def with_source_def gpio_of_def
      ctx_of_def Let_def split: option.split)

lemma gpio_bounce:
  assumes "gpio_wired obj c st" "0 < gc_debounce_delay c"
  shows "\<exists>t s. gpio_input_changed upd obj v st = Some s \<and> pads s = pads st \<and>
    gpio_wired obj (c\<lparr>gc_value := v, gc_timeout_tag := t\<rparr>) s"
proof -
  let ?s = "set_gpio obj (c\<lparr>gc_value := v\<rparr>) st"
  define s1 where "s1 = gpio_timeout_clear obj ?s"
  have s1: "pads s1 = pads st" "length (objs s1) = length (objs st)"
    "\<exists>t. gpio_of obj s1 = Some (c\<lparr>gc_value := v, gc_timeout_tag := t\<rparr>)"
    using assms(1) by (auto simp: s1_def gpio_timeout_clear_def gpio_wired_def intro: exI [of _ "gc_timeout_tag c"])
  then obtain t where t: "gpio_of obj s1 = Some (c\<lparr>gc_value := v, gc_timeout_tag := t\<rparr>)" by blast
  define r where "r = arm (gc_debounce_delay c) ''gpio:input_update'' obj s1"
  have r: "pads (snd r) = pads st" "length (objs (snd r)) = length (objs st)" "gpio_of obj (snd r) = gpio_of obj s1"
    using s1 by (simp_all add: r_def)
  have "gpio_input_changed upd obj v st = Some (gpio_timer (gc_debounce_delay c) ''gpio:input_update'' obj s1)"
    using assms by (simp add: gpio_input_changed_def gpio_wired_def s1_def Let_def)
  moreover have "gpio_timer (gc_debounce_delay c) ''gpio:input_update'' obj s1 =
      set_gpio obj (c\<lparr>gc_value := v, gc_timeout_tag := fst r\<rparr>) (snd r)"
    using r(3) t by (simp add: gpio_timer_def case_prod_beta r_def [symmetric])
  ultimately show ?thesis using assms(1) r by (auto simp: gpio_wired_def)
qed


definition button :: gpio_state where
  \<comment> \<open>an input on port 4 with a delay\<close>
  "button =
     (let st = hk_state.extend ((hk_start 0)\<lparr>sources := replicate 4 sys_source_clear,
            tiles := [\<lparr>t_dir = ''/t'', t_name = ''t'', t_fname = ''t.hk'', t_objs = [], t_nets = []\<rparr>], tile_tab := [Some 0]\<rparr>)
            (gpio_state.fields [] (\<lambda>_. 3) (\<lambda>_. Some ''0'') []);
          st = snd (hk_obj_create 0 ''gpio'' ''b'' [''input=4'', ''debounce=50''] st)
      in case gpio_new 0 st of Some (ret, st) \<Rightarrow> st | None \<Rightarrow> st)"


end
