(* ===== verification/Hk_Serial.thy ===== *)
theory Hk_Serial
  imports Hk_Timers Hk_Io
begin

text \<open>
  \<^verbatim>\<open>os/linux/serial.c\<close> and the class \<^verbatim>\<open>classes/serial\<close>: a serial device with its modem signals, as an
  object. What the system answers about devices is part of the state. The thread that waits for the
  signals is a sequence of steps (\<open>tty_thread_step\<close>); it talks to the object through a queue of bytes, which \<open>tty_thread_recv\<close> reads.
  \<open>None\<close> is undefined. Whether \<open>char\<close> is signed depends on the machine and is an argument.
\<close>

unbundle bit_operations_syntax

section \<open>Devices\<close>

definition SERIAL_DSR :: int where "SERIAL_DSR = 0x01"
definition SERIAL_CTS :: int where "SERIAL_CTS = 0x02"
definition SERIAL_CD :: int where "SERIAL_CD = 0x04"
definition SERIAL_RI :: int where "SERIAL_RI = 0x08"
definition SERIAL_DTR :: int where "SERIAL_DTR = 0x10"
definition SERIAL_RTS :: int where "SERIAL_RTS = 0x20"

definition TIOCM_DTR :: int where "TIOCM_DTR = 0x002"
definition TIOCM_RTS :: int where "TIOCM_RTS = 0x004"
definition TIOCM_CTS :: int where "TIOCM_CTS = 0x020"
definition TIOCM_CD :: int where "TIOCM_CD = 0x040"
definition TIOCM_RI :: int where "TIOCM_RI = 0x080"
definition TIOCM_DSR :: int where "TIOCM_DSR = 0x100"

datatype tty_cflag = CS8 | CREAD | CLOCAL | CRTSCTS

record termios =
  \<comment> \<open>speeds by their number; other settings that are made 0 are modes that are left\<close>
  c_iflag :: int
  c_oflag :: int
  c_lflag :: int
  c_line :: int
  c_cflag :: "tty_cflag list"
  c_vmin :: int
  c_vtime :: int
  c_speed :: int

record serial_struct =
  sr_baud_base :: int
  sr_flags :: int
  sr_custom_divisor :: int

record tty_dev =
  \<comment> \<open>what a descriptor answers; \<open>None\<close> and \<open>False\<close>: the call fails\<close>
  td_isatty :: bool
  td_termios :: "termios option"
  td_settable :: bool
  td_serial :: "serial_struct option"
  td_serial_settable :: bool
  td_modem :: "int option"
  td_modem_settable :: bool

record serial_ctx =
  \<comment> \<open>the line buffer: the text at \<open>lbuf.base\<close>, and \<open>lbuf.len\<close>\<close>
  sl_connect :: nat
  sl_connected :: nat
  sl_txd :: nat
  sl_rxd :: nat
  sl_rts :: nat
  sl_dtr :: nat
  sl_dsr :: nat
  sl_cts :: nat
  sl_cd :: nat
  sl_ri :: nat
  sl_tty_name :: string
  sl_tty_speed :: int
  sl_chan :: "nat io_channel"
  sl_timeout_tag :: sys_tag
  sl_base :: "string option"
  sl_len :: nat
  sl_thr_ok :: bool
  sl_mq :: int
  sl_mq_tag :: sys_tag
  sl_io_only :: bool
  sl_debounce_delay :: int
  sl_debounce_flags :: int

record serial_state = "(serial_ctx hk_ctx) hk_state" +
  ss_glob :: "string \<Rightarrow> string list option"
  ss_open :: "string \<Rightarrow> int"
  ss_dev :: "int \<Rightarrow> tty_dev"
  ss_write :: "int \<Rightarrow> string \<Rightarrow> int"
  ss_written :: "(int \<times> string) list"
  ss_mq_open :: "string \<Rightarrow> int"
  ss_queue :: "int \<Rightarrow> int list"
  ss_thread :: int \<comment> \<open>what \<open>pthread_create\<close> returns\<close>

definition serial_of :: "nat \<Rightarrow> serial_state \<Rightarrow> serial_ctx option" where
  "serial_of obj st = (case ctx_of obj st of Some (Other_ctx c) \<Rightarrow> Some c | _ \<Rightarrow> None)"

definition set_serial :: "nat \<Rightarrow> serial_ctx \<Rightarrow> serial_state \<Rightarrow> serial_state" where
  "set_serial obj c st = set_ctx obj (Other_ctx c) st"

definition with_serial :: "nat \<Rightarrow> serial_state \<Rightarrow> (serial_ctx \<Rightarrow> 'r option) \<Rightarrow> 'r option" where
  "with_serial obj st f = Option.bind (serial_of obj st) f"

section \<open>The device driver\<close>

definition upd_dev :: "int \<Rightarrow> (tty_dev \<Rightarrow> tty_dev) \<Rightarrow> serial_state \<Rightarrow> serial_state" where
  "upd_dev fd g st = st\<lparr>ss_dev := (ss_dev st)(fd := g (ss_dev st fd))\<rparr>"

definition serial_set_custom_speed :: "int \<Rightarrow> int \<Rightarrow> serial_state \<Rightarrow> (int \<times> serial_state) option" where
  \<comment> \<open>a speed above the base gives the divisor 0, by which the result is divided\<close>
  "serial_set_custom_speed fd speed st =
     (case td_serial (ss_dev st fd) of
        None \<Rightarrow> Some (-1, st)
      | Some s \<Rightarrow>
          let s = s\<lparr>sr_flags := (sr_flags s AND NOT 0x1030) OR 0x0030,
                    sr_custom_divisor := to_int32 ((sr_baud_base s mod 2 ^ 32) div speed)\<rparr>
          in if \<not> td_serial_settable (ss_dev st fd) then Some (-1, st)
             else if sr_custom_divisor s = 0 then None
             else Some (sr_baud_base s sdiv sr_custom_divisor s, upd_dev fd (\<lambda>d. d\<lparr>td_serial := Some s\<rparr>) st))"

definition serial_get_tspeed :: "int \<Rightarrow> int" where
  "serial_get_tspeed speed =
     (if speed \<in> {50, 75, 110, 134, 150, 200, 300, 600, 1200, 1800, 2400, 4800, 9600, 19200, 38400, 57600, 115200, 230400}
      then speed else 0)"

definition serial_open :: "string \<Rightarrow> int \<Rightarrow> bool \<Rightarrow> serial_state \<Rightarrow> (int \<times> serial_state) option" where
  "serial_open devname speed rtscts st =
     (let fd = ss_open st devname
      in if fd = -1 then Some (-1, st)
         else if \<not> td_isatty (ss_dev st fd) then Some (-1, st)
         else if speed = 0 then Some (fd, st)
         else
           case td_termios (ss_dev st fd) of
             None \<Rightarrow> Some (-1, st)
           | Some termio \<Rightarrow>
               let tspeed = serial_get_tspeed speed; custom_speed = (tspeed = 0);
                   tspeed = (if custom_speed then 38400 else tspeed);
                   termio = \<lparr>c_iflag = 0, c_oflag = 0, c_lflag = 0, c_line = 0,
                     c_cflag = [CS8, CREAD, CLOCAL] @ (if rtscts then [CRTSCTS] else []),
                     c_vmin = 1, c_vtime = 0, c_speed = tspeed\<rparr>
               in if \<not> td_settable (ss_dev st fd) then Some (-1, st)
                  else
                    let st = upd_dev fd (\<lambda>d. d\<lparr>td_termios := Some termio\<rparr>) st
                    in if custom_speed
                       then map_option (\<lambda>(ret, st). (fd, st)) (serial_set_custom_speed fd (speed mod 2 ^ 32) st)
                       else Some (fd, st))"

definition serial_modem_get :: "int \<Rightarrow> serial_state \<Rightarrow> int" where
  "serial_modem_get fd st =
     (case td_modem (ss_dev st fd) of
        None \<Rightarrow> -1
      | Some status \<Rightarrow>
          let bit = (\<lambda>tiocm flag ret. if status AND tiocm \<noteq> 0 then ret OR flag else ret)
          in bit TIOCM_RTS SERIAL_RTS (bit TIOCM_DTR SERIAL_DTR (bit TIOCM_DSR SERIAL_DSR
               (bit TIOCM_RI SERIAL_RI (bit TIOCM_CD SERIAL_CD (bit TIOCM_CTS SERIAL_CTS 0))))))"

definition serial_modem_wait :: "bool \<Rightarrow> int \<Rightarrow> serial_state \<Rightarrow> int" where
  \<comment> \<open>\<open>waits\<close>: the call that waits for a change succeeds\<close>
  "serial_modem_wait waits fd st = (if waits then serial_modem_get fd st else -1)"

definition serial_modem_set :: "int \<Rightarrow> int \<Rightarrow> int \<Rightarrow> serial_state \<Rightarrow> int \<times> serial_state" where
  "serial_modem_set fd flags v st =
     (case td_modem (ss_dev st fd) of
        None \<Rightarrow> (-1, st)
      | Some status \<Rightarrow>
          let bit = (\<lambda>flag tiocm status.
                if flags AND flag \<noteq> 0 then (if v \<noteq> 0 then status OR tiocm else status AND NOT tiocm) else status);
              status = bit SERIAL_DTR TIOCM_DTR (bit SERIAL_RTS TIOCM_RTS status)
          in if td_modem_settable (ss_dev st fd) then (0, upd_dev fd (\<lambda>d. d\<lparr>td_modem := Some status\<rparr>) st)
             else (-1, st))"

definition io_channel_write :: "nat io_channel \<Rightarrow> string \<Rightarrow> serial_state \<Rightarrow> int \<times> serial_state" where
  \<comment> \<open>to a descriptor that blocks: \<open>write\<close> takes what it returns\<close>
  "io_channel_write chan buf st =
     (if ch_fd chan < 0 \<or> buf = [] then (0, st)
      else
        let ret = ss_write st (ch_fd chan) buf
        in (ret, if ret < 0 then st else st\<lparr>ss_written := ss_written st @ [(ch_fd chan, take (nat ret) buf)]\<rparr>))"

section \<open>The object\<close>

definition tty_timeout_clear :: "nat \<Rightarrow> serial_state \<Rightarrow> serial_state option" where
  "tty_timeout_clear obj st =
     with_serial obj st (\<lambda>c.
       Some (if sl_timeout_tag c \<noteq> 0
             then set_serial obj (c\<lparr>sl_timeout_tag := 0\<rparr>) (sys_remove (sl_timeout_tag c) st) else st))"

definition tty_timeout :: "int \<Rightarrow> string \<Rightarrow> nat \<Rightarrow> serial_state \<Rightarrow> serial_state option" where
  \<comment> \<open>\<open>ctx->timeout_tag = sys_timeout (delay, func, ctx)\<close>\<close>
  "tty_timeout delay func obj st =
     (case arm delay func obj st of (tag, st) \<Rightarrow>
        with_serial obj st (\<lambda>c. Some (set_serial obj (c\<lparr>sl_timeout_tag := tag\<rparr>) st)))"

definition RETRY_DELAY :: int where "RETRY_DELAY = 5000"

definition tty_update_outputs :: "serial_state updater \<Rightarrow> nat \<Rightarrow> int \<Rightarrow> serial_state \<Rightarrow> serial_state option" where
  "tty_update_outputs upd obj flags st =
     with_serial obj st (\<lambda>c.
       foldo (\<lambda>st (pad, flag). hk_pad_update_int upd pad (if flags AND flag \<noteq> 0 then 1 else 0) st) st
         [(sl_dsr c, SERIAL_DSR), (sl_cts c, SERIAL_CTS), (sl_cd c, SERIAL_CD), (sl_ri c, SERIAL_RI)])"

definition tty_debounce_cb :: "serial_state updater \<Rightarrow> nat \<Rightarrow> serial_state \<Rightarrow> (int \<times> serial_state) option" where
  "tty_debounce_cb upd obj st =
     with_serial obj st (\<lambda>c.
       map_option (Pair 0)
         (tty_update_outputs upd obj (sl_debounce_flags c) (set_serial obj (c\<lparr>sl_timeout_tag := 0\<rparr>) st)))"

section \<open>The thread and its queue\<close>

definition tty_thread_step :: "bool \<Rightarrow> nat \<Rightarrow> serial_state \<Rightarrow> (bool \<times> serial_state) option" where
  \<comment> \<open>one turn of the loop of \<open>tty_thread\<close>; the first result: it goes on. The queue holds 8 bytes.\<close>
  "tty_thread_step waits obj st =
     with_serial obj st (\<lambda>c.
       let flags = serial_modem_wait waits (ch_fd (sl_chan c)) st;
           q = ss_queue st (sl_mq c);
           sent = (length q < 8);
           st = (if sent then st\<lparr>ss_queue := (ss_queue st)(sl_mq c := q @ [flags AND 0xFF])\<rparr> else st);
           runs = (sent \<and> 0 \<le> flags)
       in Some (runs, if runs then st else set_serial obj (c\<lparr>sl_thr_ok := False\<rparr>) st))"

definition char_value :: "bool \<Rightarrow> int \<Rightarrow> int" where
  \<comment> \<open>a byte read as a \<open>char\<close>\<close>
  "char_value sg b = (if sg \<and> 128 \<le> b then b - 256 else b)"

definition tty_thread_init :: "nat \<Rightarrow> serial_state \<Rightarrow> (int \<times> serial_state) option" where
  "tty_thread_init obj st =
     with_serial obj st (\<lambda>c.
       if 0 < sl_mq_tag c then Some (0, st)
       else
         let mq = ss_mq_open st (take 63 (''/hakit-'' @ o_name (obj_at st obj)))
         in if mq = -1 then Some (-1, set_serial obj (c\<lparr>sl_mq := mq\<rparr>) st)
            else
              case sys_io_watch mq (Some ''tty_thread_recv'') (Some obj) (st\<lparr>ss_queue := (ss_queue st)(mq := [])\<rparr>) of
                (tag, st) \<Rightarrow> Some (0, set_serial obj (c\<lparr>sl_mq := mq, sl_mq_tag := tag\<rparr>) st))"

section \<open>Connection\<close>

definition tty_hook :: "int \<Rightarrow> nat \<Rightarrow> serial_ctx \<Rightarrow> serial_state \<Rightarrow> serial_state" where
  "tty_hook fd obj c st =
     (if sl_io_only c then set_serial obj (c\<lparr>sl_chan := (sl_chan c)\<lparr>ch_fd := fd\<rparr>\<rparr>) st
      else case io_channel_setup obj fd (Some ''tty_recv'') (Some obj) st of
             (chan, st) \<Rightarrow> set_serial obj (c\<lparr>sl_chan := chan\<rparr>) st)"

definition tty_watch :: "nat \<Rightarrow> serial_state \<Rightarrow> serial_state option" where
  \<comment> \<open>\<open>pthread_create\<close> reports an error by a positive number, which is not tested\<close>
  "tty_watch obj st =
     with_serial obj st (\<lambda>c.
       let st = set_serial obj (c\<lparr>sl_thr_ok := False\<rparr>) st
       in if hk_pad_is_connected (sl_dsr c) st \<or> hk_pad_is_connected (sl_cts c) st \<or>
             hk_pad_is_connected (sl_cd c) st \<or> hk_pad_is_connected (sl_ri c) st then
            Option.bind (tty_thread_init obj st) (\<lambda>(ret, st).
              if ret = 0 \<and> 0 \<le> ss_thread st
              then with_serial obj st (\<lambda>c. Some (set_serial obj (c\<lparr>sl_thr_ok := True\<rparr>) st)) else Some st)
          else Some st)"

definition tty_connect :: "serial_state updater \<Rightarrow> nat \<Rightarrow> serial_state \<Rightarrow> (int \<times> serial_state) option" where
  "tty_connect upd obj st =
     with_serial obj st (\<lambda>c.
       case ss_glob st (sl_tty_name c) of
         None \<Rightarrow> Some (-1, st)
       | Some [] \<Rightarrow> Some (-1, st)
       | Some (dev # _) \<Rightarrow>
           Option.bind (serial_open dev (sl_tty_speed c) False st) (\<lambda>(fd, st).
             if fd < 0 then Some (-1, st)
             else
               Option.bind (hk_pad_update_int upd (sl_connected c) 1 (tty_hook fd obj c st)) (\<lambda>st.
               with_serial obj st (\<lambda>c.
                 let flags = serial_modem_get (ch_fd (sl_chan c)) st
                 in Option.bind (if 0 \<le> flags then tty_update_outputs upd obj flags st else Some st) (\<lambda>st.
                    Option.bind (tty_watch obj st) (\<lambda>st.
                    with_serial obj st (\<lambda>c.
                      let set = (\<lambda>pad flag st.
                            if hk_pad_is_connected pad st
                            then snd (serial_modem_set (ch_fd (sl_chan c)) flag (p_state (pad_at st pad)) st) else st)
                      in Some (0, set (sl_dtr c) SERIAL_DTR (set (sl_rts c) SERIAL_RTS st)))))))))"

definition tty_retry_cb :: "serial_state updater \<Rightarrow> nat \<Rightarrow> serial_state \<Rightarrow> (int \<times> serial_state) option" where
  "tty_retry_cb upd obj st =
     Option.bind (tty_connect upd obj st) (\<lambda>(ret, st).
       if ret \<noteq> 0 then Some (1, st)
       else with_serial obj st (\<lambda>c. Some (0, set_serial obj (c\<lparr>sl_timeout_tag := 0\<rparr>) st)))"

definition tty_open :: "serial_state updater \<Rightarrow> nat \<Rightarrow> serial_state \<Rightarrow> serial_state option" where
  "tty_open upd obj st =
     Option.bind (tty_connect upd obj st) (\<lambda>(ret, st).
       if ret \<noteq> 0 then tty_timeout RETRY_DELAY ''serial:tty_retry_cb'' obj st else Some st)"

definition tty_close :: "serial_state updater \<Rightarrow> nat \<Rightarrow> serial_state \<Rightarrow> serial_state option" where
  \<comment> \<open>the thread is cancelled and joined\<close>
  "tty_close upd obj st =
     with_serial obj st (\<lambda>c.
       case io_channel_close (sl_chan c) st of (chan, st) \<Rightarrow>
         hk_pad_update_int upd (sl_connected c) 0 (set_serial obj (c\<lparr>sl_thr_ok := False, sl_chan := chan\<rparr>) st))"

definition tty_hangup :: "serial_state updater \<Rightarrow> nat \<Rightarrow> serial_state \<Rightarrow> serial_state option" where
  "tty_hangup upd obj st =
     Option.bind (tty_timeout_clear obj st) (\<lambda>st.
     Option.bind (tty_close upd obj st) (\<lambda>st. tty_timeout RETRY_DELAY ''serial:tty_retry_cb'' obj st))"

definition tty_thread_recv :: "bool \<Rightarrow> serial_state updater \<Rightarrow> nat \<Rightarrow> serial_state \<Rightarrow> (int \<times> serial_state) option" where
  \<comment> \<open>an empty queue, or one byte, the size of a message; 0 ends the watch of the queue\<close>
  "tty_thread_recv sg upd obj st =
     with_serial obj st (\<lambda>c.
       case ss_queue st (sl_mq c) of
         [] \<Rightarrow> Some (0, st)
       | b # q \<Rightarrow>
           let mbuf = char_value sg b; st = st\<lparr>ss_queue := (ss_queue st)(sl_mq c := q)\<rparr>
           in if mbuf = 0xFF then
                map_option (Pair 0) (if sl_io_only c then tty_hangup upd obj st else Some st)
              else
                map_option (Pair 1)
                  (if 0 < sl_debounce_delay c then
                     Option.bind (tty_timeout_clear obj st) (\<lambda>st.
                     Option.bind (with_serial obj st (\<lambda>c. Some (set_serial obj (c\<lparr>sl_debounce_flags := mbuf\<rparr>) st))) (\<lambda>st.
                       tty_timeout (sl_debounce_delay c) ''serial:tty_debounce_cb'' obj st))
                   else tty_update_outputs upd obj mbuf st))"

section \<open>Lines\<close>

definition tty_recv_line :: "serial_state updater \<Rightarrow> nat \<Rightarrow> string option \<Rightarrow> serial_state \<Rightarrow> serial_state option" where
  "tty_recv_line upd obj str st =
     (case str of None \<Rightarrow> Some st | Some s \<Rightarrow> with_serial obj st (\<lambda>c. upd (sl_rxd c) s st))"

definition char7 :: "char \<Rightarrow> char" where
  "char7 b = char_of (of_char b mod (128::nat))"

definition tty_recv_byte :: "serial_state updater \<Rightarrow> nat \<Rightarrow> serial_state \<Rightarrow> char \<Rightarrow> serial_state option" where
  "tty_recv_byte upd obj st b =
     (let ch = char7 b
      in if ch = LF then
           Option.bind (with_serial obj st (\<lambda>c. tty_recv_line upd obj (sl_base c) st)) (\<lambda>st.
             with_serial obj st (\<lambda>c. Some (set_serial obj (c\<lparr>sl_len := 0\<rparr>) st)))
         else if (of_char ch :: nat) \<ge> 32 then
           with_serial obj st (\<lambda>c.
             Some (set_serial obj (c\<lparr>sl_base := Some (take (sl_len c) (case sl_base c of None \<Rightarrow> [] | Some s \<Rightarrow> s) @ [ch]),
                                     sl_len := sl_len c + 1\<rparr>) st))
         else Some st)"

definition tty_recv :: "serial_state updater \<Rightarrow> nat \<Rightarrow> string option \<Rightarrow> serial_state \<Rightarrow> serial_state option" where
  "tty_recv upd obj buf st =
     (case buf of None \<Rightarrow> tty_hangup upd obj st | Some bs \<Rightarrow> foldo (tty_recv_byte upd obj) st bs)"

definition tty_send :: "nat \<Rightarrow> string \<Rightarrow> serial_state \<Rightarrow> (int \<times> serial_state) option" where
  "tty_send obj str st =
     with_serial obj st (\<lambda>c.
       case io_channel_write (sl_chan c) str st of (ret, st) \<Rightarrow>
         Some (ret, if 0 < ret then snd (io_channel_write (sl_chan c) [CHR 0x0D] st) else st))"

section \<open>The class\<close>

definition serial_new :: "serial_state updater \<Rightarrow> nat \<Rightarrow> serial_state \<Rightarrow> (int \<times> serial_state) option" where
  "serial_new upd obj st =
     (let name = (case prop_of obj ''tty'' st of None \<Rightarrow> ''/dev/ttyUSB0'' | Some s \<Rightarrow> s);
          speed = (if prop_int obj ''speed'' st \<le> 0 then 115200 else prop_int obj ''speed'' st);
          debounce = prop_int obj ''debounce'' st
      in case hk_pad_create obj HK_PAD_IN ''txd'' st of (txd, st) \<Rightarrow>
         case hk_pad_create obj HK_PAD_IN ''rts'' st of (rts, st) \<Rightarrow>
         case hk_pad_create obj HK_PAD_IN ''dtr'' st of (dtr, st) \<Rightarrow>
         case hk_pad_create obj HK_PAD_OUT ''rxd'' st of (rxd, st) \<Rightarrow>
         case hk_pad_create obj HK_PAD_OUT ''dsr'' st of (dsr, st) \<Rightarrow>
         case hk_pad_create obj HK_PAD_OUT ''cts'' st of (cts, st) \<Rightarrow>
         case hk_pad_create obj HK_PAD_OUT ''cd'' st of (cd, st) \<Rightarrow>
         case hk_pad_create obj HK_PAD_OUT ''ri'' st of (ri, st) \<Rightarrow>
         case hk_pad_create obj HK_PAD_OUT ''connected'' st of (connected, st) \<Rightarrow>
         Option.bind (hk_pad_update_int upd connected 0 st) (\<lambda>st.
           case hk_pad_create obj HK_PAD_IN ''connect'' st of (connect, st) \<Rightarrow>
             Some (0, set_serial obj
               \<lparr>sl_connect = connect, sl_connected = connected, sl_txd = txd, sl_rxd = rxd, sl_rts = rts, sl_dtr = dtr,
                sl_dsr = dsr, sl_cts = cts, sl_cd = cd, sl_ri = ri, sl_tty_name = name, sl_tty_speed = speed,
                sl_chan = io_channel_clear, sl_timeout_tag = 0, sl_base = None, sl_len = 0, sl_thr_ok = False, sl_mq = 0,
                sl_mq_tag = 0, sl_io_only = False, sl_debounce_delay = debounce, sl_debounce_flags = 0\<rparr> st)))"

definition serial_start :: "serial_state updater \<Rightarrow> nat \<Rightarrow> serial_state \<Rightarrow> serial_state option" where
  \<comment> \<open>\<open>connected\<close>, the output, is tested where \<open>connect\<close> is meant\<close>
  "serial_start upd obj st =
     with_serial obj st (\<lambda>c.
       let st = (if hk_pad_is_connected (sl_txd c) st \<or> hk_pad_is_connected (sl_rxd c) st then st
                 else set_serial obj (c\<lparr>sl_tty_speed := 0, sl_io_only := True\<rparr>) st)
       in if hk_pad_is_connected (sl_connect c) st
          then (if p_state (pad_at st (sl_connected c)) \<noteq> 0 then tty_open upd obj st else Some st)
          else tty_open upd obj st)"

definition serial_input :: "serial_state updater \<Rightarrow> nat \<Rightarrow> string \<Rightarrow> serial_state \<Rightarrow> serial_state option" where
  "serial_input upd pad v st =
     (let obj = p_obj (pad_at st pad)
      in with_serial obj st (\<lambda>c.
           if pad = sl_txd c then map_option snd (tty_send obj v st)
           else if pad = sl_rts c then Some (snd (serial_modem_set (ch_fd (sl_chan c)) SERIAL_RTS (atoi v) st))
           else if pad = sl_dtr c then Some (snd (serial_modem_set (ch_fd (sl_chan c)) SERIAL_DTR (atoi v) st))
           else if pad = sl_connect c then (if atoi v \<noteq> 0 then tty_open upd obj st else tty_close upd obj st)
           else Some st))"

definition serial_class :: "serial_state updater \<Rightarrow> serial_state hk_class" where
  "serial_class upd = \<lparr>m_new = Some (serial_new upd), m_start = Some (serial_start upd), m_input = Some (serial_input upd)\<rparr>"

section \<open>Lines received\<close>

fun repeat_last :: "string option \<Rightarrow> string list \<Rightarrow> string list" where
  \<comment> \<open>an empty line repeats the line before it\<close>
  "repeat_last p [] = []"
| "repeat_last p (l # ls) =
     (if l = [] then (case p of None \<Rightarrow> [] | Some s \<Rightarrow> [s]) @ repeat_last p ls else l # repeat_last (Some l) ls)"

definition kept_chars :: "string \<Rightarrow> string" where
  "kept_chars bs = filter (\<lambda>ch. ch = LF \<or> (of_char ch :: nat) \<ge> 32) (map char7 bs)"

definition ctx_blind :: "nat \<Rightarrow> serial_state updater \<Rightarrow> bool" where
  \<comment> \<open>it neither reads nor writes the context of the object, and makes no objects\<close>
  "ctx_blind obj f \<longleftrightarrow>
     (\<forall>pad v c st. f pad v (set_serial obj c st) = map_option (set_serial obj c) (f pad v st)) \<and>
     (\<forall>pad v st s. f pad v st = Some s \<longrightarrow> length (objs s) = length (objs st))"

definition inputs_blind :: "nat \<Rightarrow> serial_state class_table \<Rightarrow> bool" where
  "inputs_blind obj cls \<longleftrightarrow>
     (\<forall>upd cname f. ctx_blind obj upd \<longrightarrow> m_input (cls upd cname) = Some f \<longrightarrow> ctx_blind obj f)"

lemma set_serial_objs:
  "set_serial obj c st = st\<lparr>objs := (objs st)[obj := (obj_at st obj)\<lparr>o_ctx := Some (Other_ctx c)\<rparr>]\<rparr>"
  by (simp add: set_serial_def set_ctx_def upd_obj_def map_nth_def)

lemma set_serial_fields [simp]:
  "pads (set_serial obj c st) = pads st" "nets (set_serial obj c st) = nets st"
  "length (objs (set_serial obj c st)) = length (objs st)"
  by (simp_all add: set_serial_objs)

lemma set_serial_class [simp]: "o_class (obj_at (set_serial obj c st) j) = o_class (obj_at st j)"
  by (cases "obj < length (objs st)") (simp_all add: set_serial_objs nth_list_update list_update_beyond)

lemma set_serial_pad: "set_serial obj c (upd_pad p g st) = upd_pad p g (set_serial obj c st)"
  by (simp add: set_serial_objs upd_pad_def)

lemma set_serial_twice [simp]: "obj < length (objs st) \<Longrightarrow> set_serial obj c (set_serial obj c' st) = set_serial obj c st"
  by (simp add: set_serial_objs)

lemma serial_of_set [simp]: "obj < length (objs st) \<Longrightarrow> serial_of obj (set_serial obj c st) = Some c"
  by (simp add: set_serial_objs serial_of_def ctx_of_def)

lemma set_serial_same: "serial_of obj st = Some c \<Longrightarrow> obj < length (objs st) \<Longrightarrow> set_serial obj c st = st"
proof -
  assume a: "serial_of obj st = Some c" "obj < length (objs st)"
  then have "o_ctx (obj_at st obj) = Some (Other_ctx c)"
    by (auto simp: serial_of_def ctx_of_def split: option.splits hk_ctx.splits)
  then have "(obj_at st obj)\<lparr>o_ctx := Some (Other_ctx c)\<rparr> = obj_at st obj" by simp
  then show ?thesis
    by (simp add: set_serial_objs)
qed

lemma foldo_blind:
  assumes "\<And>x st. f (set_serial obj c st) x = map_option (set_serial obj c) (f st x)"
  shows "foldo f (set_serial obj c st) xs = map_option (set_serial obj c) (foldo f st xs)"
proof (induction xs arbitrary: st)
  case (Cons x xs)
  show ?case using Cons by (cases "f st x") (simp_all add: assms)
qed simp

lemma foldo_length:
  assumes "\<And>x st s. f st x = Some s \<Longrightarrow> length (objs s) = length (objs st)"
  shows "foldo f st xs = Some s \<Longrightarrow> length (objs s) = length (objs (st :: serial_state))"
proof (induction xs arbitrary: st)
  case (Cons x xs)
  then obtain s1 where "f st x = Some s1" "foldo f s1 xs = Some s" by (auto simp: bind_eq_Some_conv)
  then show ?case using Cons.IH assms by fastforce
qed simp

lemma ctx_blindD:
  assumes "ctx_blind obj f"
  shows "f pad v (set_serial obj c st) = map_option (set_serial obj c) (f pad v st)"
    "f pad v st = Some s \<Longrightarrow> length (objs s) = length (objs st)"
  using assms by (auto simp: ctx_blind_def)

lemma forward_blind:
  assumes cls: "inputs_blind obj cls" and upd: "ctx_blind obj upd"
  shows "hk_pad_forward cls upd pad v (set_serial obj c st) p = map_option (set_serial obj c) (hk_pad_forward cls upd pad v st p)"
    "hk_pad_forward cls upd pad v st p = Some s \<Longrightarrow> length (objs s) = length (objs st)"
proof -
  have f: "ctx_blind obj f" if "m_input (cls upd cname) = Some f" for cname f
    using cls upd that by (auto simp: inputs_blind_def)
  show "hk_pad_forward cls upd pad v (set_serial obj c st) p = map_option (set_serial obj c) (hk_pad_forward cls upd pad v st p)"
    by (auto simp: hk_pad_forward_def hk_pad_update_input_def option.map_comp comp_def set_serial_pad [symmetric] ctx_blindD(1) [OF f]
        split: option.split)
  show "length (objs s) = length (objs st)" if "hk_pad_forward cls upd pad v st p = Some s"
    using that by (auto simp: hk_pad_forward_def hk_pad_update_input_def split: if_splits option.splits dest: ctx_blindD(2) [OF f])
qed

lemma update_blind:
  assumes "inputs_blind obj cls"
  shows "ctx_blind obj (hk_pad_update_str cls n)"
proof (induction n)
  case 0
  show ?case by (simp add: ctx_blind_def)
next
  case (Suc n)
  note f = forward_blind [OF assms Suc]
  have "hk_pad_update_str cls (Suc n) pad v (set_serial obj c st) = map_option (set_serial obj c) (hk_pad_update_str cls (Suc n) pad v st)"
    for pad v c st
    by (simp add: Let_def option.map_comp comp_def set_serial_pad [symmetric] foldo_blind [where f = "hk_pad_forward cls (hk_pad_update_str cls n) pad v", OF f(1)] split: option.split)
  moreover have "length (objs s) = length (objs st)" if "hk_pad_update_str cls (Suc n) pad v st = Some s" for pad v st s
    using that foldo_length [where f = "hk_pad_forward cls (hk_pad_update_str cls n) pad v", OF f(2)] by (fastforce simp: Let_def split: option.splits)
  ultimately show ?case unfolding ctx_blind_def by blast
qed

lemma char7_idem [simp]: "char7 (char7 b) = char7 b"
  by (simp add: char7_def)

lemma char7_LF [simp]: "char7 LF = LF"
  by code_simp

lemma recv_kept: "foldo (tty_recv_byte upd obj) st bs = foldo (tty_recv_byte upd obj) st (kept_chars bs)"
proof (induction bs arbitrary: st)
  case (Cons b bs)
  have "tty_recv_byte upd obj st (char7 b) = tty_recv_byte upd obj st b" by (simp add: tty_recv_byte_def)
  then show ?case
    using Cons by (cases "tty_recv_byte upd obj st b") (auto simp: kept_chars_def tty_recv_byte_def)
qed (simp add: kept_chars_def)

lemma char7_kept: "ch \<in> set (kept_chars bs) \<Longrightarrow> char7 ch = ch \<and> (ch = LF \<or> (of_char ch :: nat) \<ge> 32)"
  by (auto simp: kept_chars_def)

definition pending :: "serial_ctx \<Rightarrow> string" where
  "pending c = take (sl_len c) (case sl_base c of None \<Rightarrow> [] | Some s \<Rightarrow> s)"

lemma serial_recv_chars:
  assumes "\<And>ch. ch \<in> set l \<Longrightarrow> char7 ch = ch \<and> ch \<noteq> LF \<and> (of_char ch :: nat) \<ge> 32" "obj < length (objs st)"
    and "length (pending c) = sl_len c"
  shows "foldo (tty_recv_byte upd obj) (set_serial obj c st) l =
    Some (set_serial obj (c\<lparr>sl_base := (if l = [] then sl_base c else Some (pending c @ l)), sl_len := sl_len c + length l\<rparr>) st)"
  using assms
proof (induction l arbitrary: c)
  case (Cons ch l)
  let ?c = "c\<lparr>sl_base := Some (pending c @ [ch]), sl_len := sl_len c + 1\<rparr>"
  have "tty_recv_byte upd obj (set_serial obj c st) ch = Some (set_serial obj ?c st)"
    using Cons.prems by (simp add: tty_recv_byte_def with_serial_def pending_def)
  moreover have "pending ?c = pending c @ [ch]" using Cons.prems(3) by (simp add: pending_def)
  ultimately show ?case using Cons.IH [of ?c] Cons.prems by (auto simp: add.assoc)
qed simp

lemma recv_end_of_line:
  assumes "ctx_blind obj upd" "obj < length (objs st)"
  shows "tty_recv_byte upd obj (set_serial obj c st) LF =
    map_option (set_serial obj (c\<lparr>sl_len := 0\<rparr>)) (case sl_base c of None \<Rightarrow> Some st | Some l \<Rightarrow> upd (sl_rxd c) l st)"
proof -
  have "with_serial obj (set_serial obj c s) (\<lambda>c. Some (set_serial obj (c\<lparr>sl_len := 0\<rparr>) (set_serial obj c s))) =
      Some (set_serial obj (c\<lparr>sl_len := 0\<rparr>) s)" if "length (objs s) = length (objs st)" for s
    using that assms(2) by (simp add: with_serial_def)
  then show ?thesis
    using assms ctx_blindD(1) [OF assms(1)] ctx_blindD(2) [OF assms(1)]
    by (cases "sl_base c"; cases "upd (sl_rxd c) (the (sl_base c)) st")
      (simp_all add: tty_recv_byte_def with_serial_def tty_recv_line_def)
qed

lemma serial_recv_lines:
  assumes upd: "ctx_blind obj upd" and "obj < length (objs st)" and "sl_len c = 0"
    and ch: "\<And>ch. ch \<in> set (concat ls @ rest) \<Longrightarrow> char7 ch = ch \<and> ch \<noteq> LF \<and> (of_char ch :: nat) \<ge> 32"
  shows "\<exists>base. foldo (tty_recv_byte upd obj) (set_serial obj c st) (concat (map (\<lambda>l. l @ [LF]) ls) @ rest) =
    map_option (set_serial obj (c\<lparr>sl_base := base, sl_len := length rest\<rparr>))
      (foldo (\<lambda>st l. upd (sl_rxd c) l st) st (repeat_last (sl_base c) ls))"
  using assms(2-4)
proof (induction ls arbitrary: st c)
  case Nil
  show ?case
  proof (cases "rest = []")
    case True
    with Nil have e: "c\<lparr>sl_base := sl_base c, sl_len := length rest\<rparr> = c" by (cases c) simp
    show ?thesis by (rule exI [of _ "sl_base c"], unfold e) (simp add: True)
  next
    case False
    with Nil serial_recv_chars [of rest obj st c upd] show ?thesis by (auto simp: pending_def)
  qed
next
  case (Cons l ls)
  let ?b = "if l = [] then sl_base c else Some l"
  let ?c = "c\<lparr>sl_base := ?b, sl_len := 0\<rparr>"
  let ?s = "case ?b of None \<Rightarrow> Some st | Some l \<Rightarrow> upd (sl_rxd c) l st"
  let ?d = "c\<lparr>sl_base := ?b, sl_len := length l\<rparr>"
  have p: "pending c = []" using Cons.prems by (simp add: pending_def)
  have "foldo (tty_recv_byte upd obj) (set_serial obj c st) l = Some (set_serial obj ?d st)"
    using serial_recv_chars [of l obj st c upd, unfolded p append_Nil] Cons.prems by (simp split del: if_split)
  moreover have r: "sl_rxd (c\<lparr>sl_base := b, sl_len := n\<rparr>) = sl_rxd c" for b n by simp
  moreover have "tty_recv_byte upd obj (set_serial obj ?d st) LF = map_option (set_serial obj ?c) ?s"
    using recv_end_of_line [OF upd Cons.prems(1), of ?d, unfolded r] by (simp split del: if_split)
  ultimately have one: "foldo (tty_recv_byte upd obj) (set_serial obj c st) (l @ [LF]) = map_option (set_serial obj ?c) ?s"
    by (simp add: foldo_append split del: if_split)
  have cut: "concat (map (\<lambda>l. l @ [LF]) (l # ls)) @ rest = (l @ [LF]) @ (concat (map (\<lambda>l. l @ [LF]) ls) @ rest)" by simp
  have first: "foldo (tty_recv_byte upd obj) (set_serial obj c st) (concat (map (\<lambda>l. l @ [LF]) (l # ls)) @ rest) =
      Option.bind ?s (\<lambda>s. foldo (tty_recv_byte upd obj) (set_serial obj ?c s) (concat (map (\<lambda>l. l @ [LF]) ls) @ rest))"
    unfolding cut foldo_append [where xs = "l @ [LF]"] one by (simp add: bind_map_option comp_def)
  have told: "foldo (\<lambda>st l. upd (sl_rxd c) l st) st (repeat_last (sl_base c) (l # ls)) =
      Option.bind ?s (\<lambda>s. foldo (\<lambda>st l. upd (sl_rxd c) l st) s (repeat_last ?b ls))"
    by (cases "sl_base c") simp_all
  show ?case
  proof (cases ?s)
    case None
    with first told show ?thesis by simp
  next
    case (Some s)
    have "length (objs s) = length (objs st)"
      using Some ctx_blindD(2) [OF upd] by (auto split: option.splits if_splits)
    with Cons.IH [of s ?c] Cons.prems obtain base where
      "foldo (tty_recv_byte upd obj) (set_serial obj ?c s) (concat (map (\<lambda>l. l @ [LF]) ls) @ rest) =
        map_option (set_serial obj (?c\<lparr>sl_base := base, sl_len := length rest\<rparr>))
          (foldo (\<lambda>st l. upd (sl_rxd c) l st) s (repeat_last ?b ls))"
      by auto
    with first told Some show ?thesis by (intro exI [of _ base]) simp
  qed
qed


definition tap_class :: "serial_state class_table" where
  \<comment> \<open>a class that records the values of its inputs\<close>
  "tap_class upd cname =
     \<lparr>m_new = None, m_start = None, m_input = Some (\<lambda>pad v st. Some (st\<lparr>ss_written := ss_written st @ [(int pad, v)]\<rparr>))\<rparr>"

lemma tap_blind: "inputs_blind obj tap_class"
  by (simp add: inputs_blind_def tap_class_def ctx_blind_def set_serial_objs)

definition tty_pad :: "nat \<Rightarrow> hk_pad_dir \<Rightarrow> string \<Rightarrow> nat option \<Rightarrow> hk_pad" where
  "tty_pad obj dir name net =
     \<lparr>p_obj = obj, p_dir = dir, p_name = name, p_value = None, p_net = net, p_lock = False, p_state = 0\<rparr>"

definition tty_board :: serial_state where
  \<comment> \<open>a serial line, as it is made, whose output \<open>rxd\<close> is connected to a recorder\<close>
  "tty_board = hk_state.extend ((hk_start 0)\<lparr>sources := replicate 4 sys_source_clear,
      tiles := [\<lparr>t_dir = ''/t'', t_name = ''t'', t_fname = ''t.hk'', t_objs = [0, 1], t_nets = [0]\<rparr>], tile_tab := [Some 0],
      nets := [\<lparr>n_id = 1, n_pads = [3, 10]\<rparr>],
      pads := [tty_pad 0 HK_PAD_IN ''txd'' None, tty_pad 0 HK_PAD_IN ''rts'' None, tty_pad 0 HK_PAD_IN ''dtr'' None,
        tty_pad 0 HK_PAD_OUT ''rxd'' (Some 0), tty_pad 0 HK_PAD_OUT ''dsr'' None, tty_pad 0 HK_PAD_OUT ''cts'' None,
        tty_pad 0 HK_PAD_OUT ''cd'' None, tty_pad 0 HK_PAD_OUT ''ri'' None, (tty_pad 0 HK_PAD_OUT ''connected'' None)\<lparr>p_value := Some ''0''\<rparr>,
        tty_pad 0 HK_PAD_IN ''connect'' None, tty_pad 1 HK_PAD_IN ''in'' (Some 0)],
      objs := [\<lparr>o_name = ''s'', o_tile = 0, o_class = ''serial'', o_props = [], o_pads = [0, 1, 2, 3, 4, 5, 6, 7, 8, 9],
          o_ctx = Some (Other_ctx
            \<lparr>sl_connect = 9, sl_connected = 8, sl_txd = 0, sl_rxd = 3, sl_rts = 1, sl_dtr = 2, sl_dsr = 4, sl_cts = 5, sl_cd = 6,
             sl_ri = 7, sl_tty_name = ''/dev/ttyUSB0'', sl_tty_speed = 115200, sl_chan = io_channel_clear, sl_timeout_tag = 0,
             sl_base = None, sl_len = 0, sl_thr_ok = False, sl_mq = 0, sl_mq_tag = 0, sl_io_only = False,
             sl_debounce_delay = 0, sl_debounce_flags = 0\<rparr>)\<rparr>,
        \<lparr>o_name = ''t'', o_tile = 0, o_class = ''tap'', o_props = [], o_pads = [10], o_ctx = None\<rparr>]\<rparr>)
    (serial_state.fields (\<lambda>n. Some [n]) (\<lambda>_. 3)
       (\<lambda>_. \<lparr>td_isatty = True, td_termios = None, td_settable = True, td_serial = None, td_serial_settable = True,
            td_modem = None, td_modem_settable = True\<rparr>)
       (\<lambda>fd buf. int (length buf)) [] (\<lambda>_. 4) (\<lambda>_. []) 0)"


end
