(* ===== verification/Hk_Netif.thy ===== *)
theory Hk_Netif
  imports Hk_Advertise
begin

text \<open>
  \<^verbatim>\<open>os/linux/netif.c\<close>, \<^verbatim>\<open>os/linux/netif_watch.c\<close>, \<^verbatim>\<open>os/linux/iputils.c\<close> and \<^verbatim>\<open>os/linux/udpio.c\<close>: the
  interfaces of the machine, the watch on their changes, and datagrams; \<open>advertise_net_init\<close> joins
  them to the discovery of \<open>Hk_Advertise\<close>. The list of interfaces, hardware addresses and the result
  of a send are what the system answers (\<open>net_io\<close>); datagrams sent are recorded. \<open>None\<close> is a null
  pointer that is read, or a read beyond a structure.
\<close>

section \<open>Addresses\<close>

datatype sockaddr = Sa_in "8 word list" | Sa_in6 "8 word list" | Sa_other

record ifaddrs =
  ifa_name :: string
  ifa_flags :: int
  ifa_addr :: "sockaddr option"
  ifa_broadaddr :: "sockaddr option"

record net_io =
  \<comment> \<open>\<open>ni_ntop\<close>: \<open>inet_ntop\<close>; \<open>ni_sendto\<close>: a send to an address and a port works\<close>
  ni_getifaddrs :: "ifaddrs list option"
  ni_hwaddr :: "string \<Rightarrow> 8 word list option"
  ni_ntop :: "sockaddr \<Rightarrow> string"
  ni_bcast_opt :: bool
  ni_sendto :: "8 word list \<Rightarrow> int \<Rightarrow> bool"
  ni_sent :: "(8 word list \<times> int \<times> 8 word list) list"

definition ip_addr :: "net_io \<Rightarrow> sockaddr \<Rightarrow> string \<Rightarrow> string" where
  \<comment> \<open>other families leave the buffer as it is\<close>
  "ip_addr io sa buf = (case sa of Sa_other \<Rightarrow> buf | _ \<Rightarrow> ni_ntop io sa)"

section \<open>Interfaces\<close>

definition hex_digit :: "nat \<Rightarrow> char" where
  "hex_digit n = char_of (if n < 10 then 48 + n else 87 + n)"

definition hwaddr_text :: "8 word list \<Rightarrow> string" where
  \<comment> \<open>\<open>%02x:\<close> for each byte, without the last colon\<close>
  "hwaddr_text bs = butlast (concat (map (\<lambda>b. [hex_digit (unat b div 16), hex_digit (unat b mod 16), CHR '':'']) bs))"

definition netif_get_hwaddr :: "net_io \<Rightarrow> string \<Rightarrow> string option" where
  "netif_get_hwaddr io name = map_option (\<lambda>bs. hwaddr_text (take 6 bs)) (ni_hwaddr io name)"

definition IFF_UP :: int where "IFF_UP = 0x1"
definition IFF_BROADCAST :: int where "IFF_BROADCAST = 0x2"
definition IFF_LOOPBACK :: int where "IFF_LOOPBACK = 0x8"

definition netif_used :: "ifaddrs \<Rightarrow> bool" where
  "netif_used cur \<longleftrightarrow> ifa_flags cur AND (IFF_UP OR IFF_BROADCAST) \<noteq> 0 \<and> ifa_flags cur AND IFF_LOOPBACK = 0 \<and>
     (case ifa_broadaddr cur of Some (Sa_in a) \<Rightarrow> True | _ \<Rightarrow> False)"

fun netif_loop :: "(ifaddrs \<Rightarrow> 's \<Rightarrow> (int \<times> 's) option) \<Rightarrow> ifaddrs list \<Rightarrow> 's \<Rightarrow> (int \<times> 's) option" where
  \<comment> \<open>a negative result ends the loop\<close>
  "netif_loop func [] s = Some (0, s)"
| "netif_loop func (cur # rest) s =
     (if netif_used cur then
        Option.bind (func cur s) (\<lambda>(ret, s). if ret < 0 then Some (-1, s) else netif_loop func rest s)
      else netif_loop func rest s)"

definition netif_foreach_interface ::
    "net_io \<Rightarrow> (ifaddrs \<Rightarrow> 's \<Rightarrow> (int \<times> 's) option) \<Rightarrow> 's \<Rightarrow> (int \<times> 's) option" where
  "netif_foreach_interface io func s =
     (case ni_getifaddrs io of
        None \<Rightarrow> Some (-1, s)
      | Some [] \<Rightarrow> Some (-1, s)
      | Some ifap \<Rightarrow> netif_loop func ifap s)"

record netif_iface_t =
  if_name :: string
  if_hwaddr :: string
  if_addr :: string
  if_bcast :: string

definition netif_get_interface ::
    "net_io \<Rightarrow> ifaddrs \<Rightarrow> netif_iface_t list \<Rightarrow> (int \<times> netif_iface_t list) option" where
  \<comment> \<open>a hardware address that cannot be read is a null pointer for \<open>strncpy\<close>\<close>
  "netif_get_interface io cur tab =
     (case (netif_get_hwaddr io (ifa_name cur), ifa_addr cur, ifa_broadaddr cur) of
        (Some hwaddr, Some addr, Some bcast) \<Rightarrow>
          Some (0, fst (hk_tab_push \<lparr>if_name = take 15 (ifa_name cur), if_hwaddr = take 23 hwaddr,
                                     if_addr = ip_addr io addr [], if_bcast = ip_addr io bcast []\<rparr> tab))
      | _ \<Rightarrow> None)"

definition netif_collect_interfaces :: "net_io \<Rightarrow> netif_iface_t list option" where
  "netif_collect_interfaces io = map_option snd (netif_foreach_interface io (netif_get_interface io) hk_tab_init)"

section \<open>Changes\<close>

record netif_watch_t =
  \<comment> \<open>\<open>nw_callback\<close>: it is set, to \<open>netif_check_interfaces\<close>\<close>
  nw_sock :: int
  nw_io_tag :: sys_tag
  nw_timeout_tag :: sys_tag
  nw_callback :: bool

record netif_env_t =
  ne_interfaces :: "netif_iface_t list"
  ne_watch :: netif_watch_t
  ne_callback :: bool

definition netif_check_interfaces ::
    "net_io \<Rightarrow> ('w \<Rightarrow> 'w) \<Rightarrow> netif_env_t \<times> 'w \<Rightarrow> (netif_env_t \<times> 'w) option" where
  \<comment> \<open>\<open>call\<close>: the function of the owner. The entries are compared byte by byte.\<close>
  "netif_check_interfaces io call s =
     (case s of (ifs, st) \<Rightarrow>
        map_option
          (\<lambda>tab.
             if (if length tab = length (ne_interfaces ifs)
                 then \<exists>i\<in>set [0..<length tab]. tab ! i \<noteq> ne_interfaces ifs ! i else True)
             then (ifs\<lparr>ne_interfaces := tab\<rparr>, if tab \<noteq> [] \<and> ne_callback ifs then call st else st)
             else (ifs, st))
          (netif_collect_interfaces io))"

definition NETIF_WATCH_LOWPASS_DELAY :: "64 word" where "NETIF_WATCH_LOWPASS_DELAY = 5000"

definition netif_watch_process ::
    "net_io \<Rightarrow> ('w \<Rightarrow> 'w) \<Rightarrow> netif_env_t \<times> 'w \<Rightarrow> (int \<times> netif_env_t \<times> 'w) option" where
  "netif_watch_process io call s =
     (case s of (ifs, st) \<Rightarrow>
        let ifs = ifs\<lparr>ne_watch := (ne_watch ifs)\<lparr>nw_timeout_tag := 0\<rparr>\<rparr>
        in map_option (Pair 0)
             (if nw_callback (ne_watch ifs) then netif_check_interfaces io call (ifs, st) else Some (ifs, st)))"

datatype netlink_answer = Nl_again | Nl_error | Nl_no_credentials | Nl_from int \<comment> \<open>the process that sent it\<close>

definition netif_watch_event ::
    "netlink_answer \<Rightarrow> netif_env_t \<times> ('c, 'h, 'z) hka \<Rightarrow> int \<times> netif_env_t \<times> ('c, 'h, 'z) hka" where
  "netif_watch_event recv s =
     (case recv of
        Nl_again \<Rightarrow> (1, s)
      | Nl_error \<Rightarrow> (0, s)
      | Nl_no_credentials \<Rightarrow> (1, s)
      | Nl_from pid \<Rightarrow>
          if pid \<noteq> 0 then (1, s)
          else
            case s of (ifs, st) \<Rightarrow>
              let st = (if nw_timeout_tag (ne_watch ifs) \<noteq> 0 then sys_remove (nw_timeout_tag (ne_watch ifs)) st else st)
              in case sys_timeout (hk_clock st) NETIF_WATCH_LOWPASS_DELAY (Some ''netif_watch_process'') None st of
                   (tag, st) \<Rightarrow> (1, ifs\<lparr>ne_watch := (ne_watch ifs)\<lparr>nw_timeout_tag := tag\<rparr>\<rparr>, st))"

definition netif_watch_init ::
    "int \<Rightarrow> bool \<Rightarrow> netif_watch_t \<times> ('c, 'h, 'z) hka \<Rightarrow> int \<times> netif_watch_t \<times> ('c, 'h, 'z) hka" where
  \<comment> \<open>the socket, and whether it can be bound and set up\<close>
  "netif_watch_init sock setup s =
     (case s of (w, st) \<Rightarrow>
        if sock < 0 then (-1, w\<lparr>nw_sock := sock\<rparr>, st)
        else if \<not> setup then (-1, w\<lparr>nw_sock := -1\<rparr>, st)
        else case sys_io_watch sock (Some ''netif_watch_event'') None st of
               (tag, st) \<Rightarrow> (0, w\<lparr>nw_sock := sock, nw_io_tag := tag, nw_callback := True\<rparr>, st))"

definition netif_watch_shutdown ::
    "netif_watch_t \<times> ('c, 'h, 'z) hka \<Rightarrow> netif_watch_t \<times> ('c, 'h, 'z) hka" where
  "netif_watch_shutdown s =
     (case s of (w, st) \<Rightarrow>
        (w\<lparr>nw_callback := False, nw_timeout_tag := 0, nw_io_tag := 0, nw_sock := (if 0 \<le> nw_sock w then -1 else nw_sock w)\<rparr>,
         (let st = (if nw_timeout_tag w \<noteq> 0 then sys_remove (nw_timeout_tag w) st else st)
          in if nw_io_tag w \<noteq> 0 then sys_remove (nw_io_tag w) st else st)))"

definition netif_init ::
    "net_io \<Rightarrow> int \<Rightarrow> bool \<Rightarrow> netif_env_t \<times> ('c, 'h, 'z) hka \<Rightarrow> (int \<times> netif_env_t \<times> ('c, 'h, 'z) hka) option" where
  "netif_init io sock setup s =
     (case s of (ifs, st) \<Rightarrow>
        map_option
          (\<lambda>tab. case netif_watch_init sock setup (ne_watch ifs, st) of
             (ret, w, st) \<Rightarrow> (0, ifs\<lparr>ne_interfaces := tab, ne_callback := True, ne_watch := w\<rparr>, st))
          (netif_collect_interfaces io))"

definition netif_shutdown :: "netif_env_t \<times> ('c, 'h, 'z) hka \<Rightarrow> netif_env_t \<times> ('c, 'h, 'z) hka" where
  "netif_shutdown s =
     (case s of (ifs, st) \<Rightarrow>
        case netif_watch_shutdown (ne_watch ifs, st) of (w, st) \<Rightarrow> (ifs\<lparr>ne_callback := False, ne_watch := w\<rparr>, st))"

section \<open>The signature of a socket\<close>

definition netif_socket_signature_scan ::
    "net_io \<Rightarrow> sockaddr \<Rightarrow> ifaddrs \<Rightarrow> string option \<Rightarrow> (int \<times> string option) option" where
  \<comment> \<open>\<open>str\<close> is what was found before; the address of the socket is kept in 16 bytes, which an address of
    the family \<open>AF_INET6\<close> exceeds\<close>
  "netif_socket_signature_scan io sa cur str =
     (case (ifa_addr cur, sa) of
        (None, _) \<Rightarrow> None
      | (Some (Sa_in a), Sa_in b) \<Rightarrow>
          if a \<noteq> b then Some (0, str)
          else Some (-1, if str = None then netif_get_hwaddr io (ifa_name cur) else str)
      | (Some (Sa_in6 a), Sa_in6 b) \<Rightarrow> None
      | _ \<Rightarrow> Some (0, str))"

definition netif_socket_signature :: "net_io \<Rightarrow> sockaddr option \<Rightarrow> string option option" where
  \<comment> \<open>\<open>sa\<close>: what \<open>getsockname\<close> gives\<close>
  "netif_socket_signature io sa =
     (case sa of
        None \<Rightarrow> Some None
      | Some sa \<Rightarrow>
          Option.bind (netif_foreach_interface io (netif_socket_signature_scan io sa) None) (\<lambda>(ret, str).
            let str = (case str of None \<Rightarrow> ''00:00:00:00:00:00'' | Some s \<Rightarrow> s)
            in case sa of Sa_in6 a \<Rightarrow> None | _ \<Rightarrow> Some (Some (str @ '' '' @ ip_addr io sa []))))"

section \<open>Datagrams\<close>

record udp_srv =
  us_chan :: "unit io_channel"
  us_port :: int
  us_iremote :: "8 word list \<times> int" \<comment> \<open>address and port of the last sender\<close>

definition sendto :: "8 word list \<Rightarrow> int \<Rightarrow> 8 word list \<Rightarrow> net_io \<Rightarrow> int \<times> net_io" where
  \<comment> \<open>a datagram is sent as a whole or not at all\<close>
  "sendto addr port buf io =
     (if ni_sendto io addr port then (int (length buf), io\<lparr>ni_sent := ni_sent io @ [(addr, port, buf)]\<rparr>) else (-1, io))"

definition udp_send :: "(string \<Rightarrow> 8 word list option) \<Rightarrow> string \<Rightarrow> int \<Rightarrow> 8 word list \<Rightarrow> net_io \<Rightarrow> int \<times> net_io" where
  \<comment> \<open>\<open>gethostbyname\<close>\<close>
  "udp_send gethost host port buf io = (case gethost host of None \<Rightarrow> (-1, io) | Some addr \<Rightarrow> sendto addr port buf io)"

definition udp_send_bcast_addr :: "int \<Rightarrow> 8 word list \<Rightarrow> ifaddrs \<Rightarrow> net_io \<Rightarrow> (int \<times> net_io) option" where
  "udp_send_bcast_addr port buf cur io =
     (case ifa_broadaddr cur of
        Some (Sa_in addr) \<Rightarrow> (case sendto addr port buf io of (ret, io) \<Rightarrow> Some (if ret < 0 then -1 else 0, io))
      | _ \<Rightarrow> None)"

definition udp_send_bcast :: "int \<Rightarrow> 8 word list \<Rightarrow> net_io \<Rightarrow> (int \<times> net_io) option" where
  \<comment> \<open>the option that allows broadcasts can be set and cleared, or neither\<close>
  "udp_send_bcast port buf io =
     (if \<not> ni_bcast_opt io then Some (-1, io)
      else netif_foreach_interface io (udp_send_bcast_addr port buf) io)"

definition udp_srv_local_addr :: "8 word list \<times> int \<Rightarrow> ifaddrs \<Rightarrow> unit \<Rightarrow> (int \<times> unit) option" where
  "udp_srv_local_addr iremote cur u =
     (case ifa_addr cur of
        None \<Rightarrow> None
      | Some (Sa_in a) \<Rightarrow> Some (if fst iremote = a then -1 else 0, u)
      | _ \<Rightarrow> Some (0, u))"

definition udp_srv_event ::
    "net_io \<Rightarrow> (udp_srv \<Rightarrow> 8 word list \<Rightarrow> 'w \<Rightarrow> 'w) option \<Rightarrow> ((8 word list \<times> int) \<times> 8 word list) option \<Rightarrow> udp_srv \<times> 'w
      \<Rightarrow> (int \<times> udp_srv \<times> 'w) option" where
  \<comment> \<open>what \<open>recvfrom\<close> gives, if anything; 0 ends the watch of the socket\<close>
  "udp_srv_event io func recv s =
     (case s of (srv, st) \<Rightarrow>
        case recv of
          None \<Rightarrow> Some (0, srv\<lparr>us_iremote := ([], 0)\<rparr>, st)
        | Some (remote, buf) \<Rightarrow>
            let srv = srv\<lparr>us_iremote := remote\<rparr>
            in map_option
                 (\<lambda>(own, _).
                    if own \<noteq> 0 then (1, srv, st)
                    else (1, srv, case func of None \<Rightarrow> st | Some f \<Rightarrow> f srv (take 1500 buf) st))
                 (netif_foreach_interface io (udp_srv_local_addr remote) ()))"

definition udp_srv_clear :: "udp_srv \<Rightarrow> udp_srv" where
  "udp_srv_clear srv = srv\<lparr>us_chan := io_channel_clear, us_iremote := ([], 0)\<rparr>"

definition udp_srv_init ::
    "int \<Rightarrow> int \<Rightarrow> bool \<Rightarrow> string option \<Rightarrow> udp_srv \<times> ('c, 'h, 'z) hka \<Rightarrow> int \<times> udp_srv \<times> ('c, 'h, 'z) hka" where
  \<comment> \<open>the socket, and whether it can be bound\<close>
  "udp_srv_init port fd bound func s =
     (case s of (srv, st) \<Rightarrow>
        let srv = udp_srv_clear srv
        in if fd < 0 \<or> \<not> bound then (-1, srv, st)
           else case sys_io_watch fd (Some ''udp_srv_event'') None st of
                  (tag, st) \<Rightarrow>
                    (0, srv\<lparr>us_chan := \<lparr>ch_fd = fd, ch_tag = tag, ch_func = func, ch_data = Some ()\<rparr>, us_port := port\<rparr>, st))"

definition udp_srv_send_reply :: "udp_srv \<Rightarrow> 8 word list \<Rightarrow> net_io \<Rightarrow> int \<times> net_io" where
  "udp_srv_send_reply srv buf io =
     (case sendto (fst (us_iremote srv)) (snd (us_iremote srv)) buf io of (ret, io) \<Rightarrow> (if ret < 0 then -1 else 0, io))"

definition udp_srv_send_to ::
    "(string \<Rightarrow> 8 word list option) \<Rightarrow> udp_srv \<Rightarrow> 8 word list \<Rightarrow> string \<Rightarrow> net_io \<Rightarrow> int \<times> net_io" where
  "udp_srv_send_to gethost srv buf addr io = udp_send gethost addr (us_port srv) buf io"

definition udp_srv_send_bcast :: "udp_srv \<Rightarrow> 8 word list \<Rightarrow> net_io \<Rightarrow> (int \<times> net_io) option" where
  "udp_srv_send_bcast srv buf io =
     map_option (\<lambda>(ret, io). (if ret < 0 then -1 else 0, io)) (udp_send_bcast (us_port srv) buf io)"

definition udp_srv_shutdown :: "udp_srv \<Rightarrow> udp_srv" where
  \<comment> \<open>the socket is closed; the event source is not removed\<close>
  "udp_srv_shutdown srv = udp_srv_clear srv"

section \<open>Discovery over datagrams\<close>

definition netif_env_zero :: netif_env_t where
  "netif_env_zero = \<lparr>ne_interfaces = [],
     ne_watch = \<lparr>nw_sock = 0, nw_io_tag = 0, nw_timeout_tag = 0, nw_callback = False\<rparr>, ne_callback = False\<rparr>"

definition udp_srv_zero :: udp_srv where
  "udp_srv_zero = \<lparr>us_chan = \<lparr>ch_fd = 0, ch_tag = 0, ch_func = None, ch_data = None\<rparr>, us_port = 0, us_iremote = ([], 0)\<rparr>"

definition advertise_net_init ::
    "net_io \<Rightarrow> int \<Rightarrow> int \<times> bool \<Rightarrow> int \<times> bool \<Rightarrow> ('c, 'h, 'z) hka \<Rightarrow> (int \<times> udp_srv \<times> netif_env_t \<times> ('c, 'h, 'z) hka) option" where
  \<comment> \<open>the two sockets, and whether they can be set up; the result of \<open>netif_init\<close> is not tested\<close>
  "advertise_net_init io port udp netlink st =
     (if 0 < port then
        case udp_srv_init port (fst udp) (snd udp) (Some ''hk_advertise_event'') (udp_srv_zero, st) of (ret, srv, st) \<Rightarrow>
          if ret \<noteq> 0 then Some (-1, srv, netif_env_zero, st)
          else map_option (\<lambda>(ret, ifs, st). (0, srv, ifs, st)) (netif_init io (fst netlink) (snd netlink) (netif_env_zero, st))
      else Some (0, udp_srv_zero, netif_env_zero, st))"

definition advertise_net_shutdown :: "udp_srv \<times> netif_env_t \<times> ('c, 'h, 'z) hka \<Rightarrow> udp_srv \<times> netif_env_t \<times> ('c, 'h, 'z) hka" where
  "advertise_net_shutdown s =
     (case s of (srv, ifs, st) \<Rightarrow>
        case netif_shutdown (ifs, st) of (ifs, st) \<Rightarrow>
          (if 0 < ch_fd (us_chan srv) then udp_srv_shutdown srv else srv, ifs, st))"

definition advertise_datagram ::
    "net_io \<Rightarrow> (adv_func \<Rightarrow> string \<Rightarrow> string option \<Rightarrow> ('c, 'h, 'z) hka \<Rightarrow> ('c, 'h, 'z) hka)
      \<Rightarrow> udp_srv \<Rightarrow> 8 word list \<Rightarrow> ('c, 'h, 'z) hka \<Rightarrow> ('c, 'h, 'z) hka" where
  \<comment> \<open>\<open>hk_advertise_event\<close> with the address of the sender as text\<close>
  "advertise_datagram io discover srv buf st = hk_advertise_event discover (ip_addr io (Sa_in (fst (us_iremote srv))) []) buf st"

definition own_addresses :: "ifaddrs list \<Rightarrow> sockaddr set" where
  "own_addresses ifap = {a. \<exists>cur\<in>set ifap. netif_used cur \<and> ifa_addr cur = Some a}"

definition bcast_addresses :: "ifaddrs list \<Rightarrow> 8 word list list" where
  "bcast_addresses ifap = concat (map (\<lambda>cur. case ifa_broadaddr cur of Some (Sa_in a) \<Rightarrow> [a] | _ \<Rightarrow> []) (filter netif_used ifap))"

lemma bcast_loop:
  assumes "\<forall>a\<in>set (bcast_addresses ifap). ni_sendto io a port"
  shows "netif_loop (udp_send_bcast_addr port buf) ifap io =
    Some (0, io\<lparr>ni_sent := ni_sent io @ map (\<lambda>a. (a, port, buf)) (bcast_addresses ifap)\<rparr>)"
  using assms
proof (induction ifap arbitrary: io)
  case (Cons cur ifap)
  show ?case
  proof (cases "netif_used cur")
    case True
    then obtain a where a: "ifa_broadaddr cur = Some (Sa_in a)"
      by (auto simp: netif_used_def split: option.splits sockaddr.splits)
    let ?io = "io\<lparr>ni_sent := ni_sent io @ [(a, port, buf)]\<rparr>"
    have "udp_send_bcast_addr port buf cur io = Some (0, ?io)"
      using a True Cons.prems by (simp add: udp_send_bcast_addr_def sendto_def bcast_addresses_def)
    moreover have "bcast_addresses (cur # ifap) = a # bcast_addresses ifap" using a True by (simp add: bcast_addresses_def)
    ultimately show ?thesis using True Cons.IH [of ?io] Cons.prems by simp
  next
    case False
    with Cons show ?thesis by (simp add: bcast_addresses_def)
  qed
qed (simp add: bcast_addresses_def)

lemma local_loop:
  assumes "\<forall>cur\<in>set ifap. netif_used cur \<longrightarrow> ifa_addr cur \<noteq> None"
  shows "netif_loop (udp_srv_local_addr (addr, port)) ifap () =
    Some (if Sa_in addr \<in> own_addresses ifap then -1 else 0, ())"
  using assms
proof (induction ifap)
  case (Cons cur ifap)
  show ?case
  proof (cases "netif_used cur")
    case True
    then obtain a where "ifa_addr cur = Some a" using Cons.prems by auto
    then show ?thesis
      using True Cons by (cases a) (auto simp: udp_srv_local_addr_def own_addresses_def)
  next
    case False
    with Cons show ?thesis by (auto simp: own_addresses_def)
  qed
qed (simp add: own_addresses_def)


definition two_interfaces :: "ifaddrs list" where
  "two_interfaces =
     [\<lparr>ifa_name = ''lo'', ifa_flags = 0x9, ifa_addr = Some (Sa_in [127, 0, 0, 1]), ifa_broadaddr = None\<rparr>,
      \<lparr>ifa_name = ''eth0'', ifa_flags = 0x3, ifa_addr = Some (Sa_in [10, 0, 0, 2]), ifa_broadaddr = Some (Sa_in [10, 0, 0, 255])\<rparr>,
      \<lparr>ifa_name = ''eth1'', ifa_flags = 0x3, ifa_addr = Some (Sa_in [10, 0, 1, 2]), ifa_broadaddr = Some (Sa_in [10, 0, 1, 255])\<rparr>]"

definition lan :: net_io where
  "lan = \<lparr>ni_getifaddrs = Some two_interfaces, ni_hwaddr = (\<lambda>_. Some [0, 1, 2, 3, 4, 0xFE]),
     ni_ntop = (\<lambda>sa. if sa = Sa_in [10, 0, 0, 9] then ''10.0.0.9'' else ''10.0.0.2''), ni_bcast_opt = True,
     ni_sendto = (\<lambda>_ _. True), ni_sent = []\<rparr>"

definition lan_node :: "(unit, unit) adv_state" where
  \<comment> \<open>a node that announces HKCP\<close>
  "lan_node = hkcp_state.extend hkcp_house (adv_state.fields 3 0 [] ADVERTISE_PROTO_HKCP None [])"

definition lan_server :: udp_srv where
  "lan_server = udp_srv_zero\<lparr>us_port := 5678\<rparr>"


section \<open>Changes of the interfaces\<close>

text \<open>
  When the timer of a change calls, the table of interfaces becomes the list the system gives, and
  the node announces itself again exactly when that list has changed and is not empty.
\<close>

theorem interface_changes:
  assumes "netif_collect_interfaces io = Some tab" "ne_callback ifs" "nw_callback (ne_watch ifs)"
  shows "\<exists>ifs'. netif_watch_process io hk_advertise (ifs, st) =
      Some (0, ifs', if tab \<noteq> ne_interfaces ifs \<and> tab \<noteq> [] then hk_advertise st else st) \<and>
    ne_interfaces ifs' = tab \<and> nw_timeout_tag (ne_watch ifs') = 0"
proof -
  have "(if length tab = length l then \<exists>i\<in>set [0..<length tab]. tab ! i \<noteq> l ! i else True) \<longleftrightarrow> tab \<noteq> l" for l
    by (cases "length tab = length l") (simp_all only: set_upt list_eq_iff_nth_eq if_True if_False simp_thms, fastforce+)
  then have "netif_check_interfaces io hk_advertise (ifs0, st) = Some (if tab \<noteq> ne_interfaces ifs0
      then (ifs0\<lparr>ne_interfaces := tab\<rparr>, if tab \<noteq> [] \<and> ne_callback ifs0 then hk_advertise st else st) else (ifs0, st))" for ifs0
    using assms(1) by (simp only: netif_check_interfaces_def prod.case option.map)
  with assms(2,3) show ?thesis by (simp add: netif_watch_process_def Let_def)
qed

theorem interface_changes_witness:
  "\<exists>ifs'. netif_watch_process lan hk_advertise
      (netif_env_zero\<lparr>ne_callback := True, ne_watch := \<lparr>nw_sock = 4, nw_io_tag = 1, nw_timeout_tag = 7, nw_callback = True\<rparr>\<rparr>, lan_node) =
      Some (0, ifs', hk_advertise lan_node) \<and> map if_hwaddr (ne_interfaces ifs') = replicate 2 ''00:01:02:03:04:fe''"
proof -
  have "case netif_collect_interfaces lan of None \<Rightarrow> False
      | Some tab \<Rightarrow> tab \<noteq> [] \<and> map if_hwaddr tab = replicate 2 ''00:01:02:03:04:fe''" by code_simp
  then obtain tab where tab: "netif_collect_interfaces lan = Some tab" "tab \<noteq> []" "map if_hwaddr tab = replicate 2 ''00:01:02:03:04:fe''"
    by (auto split: option.splits)
  let ?ifs = "netif_env_zero\<lparr>ne_callback := True, ne_watch := \<lparr>nw_sock = 4, nw_io_tag = 1, nw_timeout_tag = 7, nw_callback = True\<rparr>\<rparr>"
  have "ne_callback ?ifs" "nw_callback (ne_watch ?ifs)" "ne_interfaces ?ifs = []" by (simp_all add: netif_env_zero_def)
  with interface_changes [OF tab(1) this(1,2), of lan_node] tab(2,3) show ?thesis by auto
qed

end
