(* ===== verification/Hk_WsHttp.thy ===== *)
theory Hk_WsHttp
  imports Hk_Ws Hk_WsClient
begin

text \<open>
  \<^verbatim>\<open>core/ws_http.c\<close> as the library calls it: the reply to a request with its headers, the bodies, and
  the dispatch of the callbacks. The decision on a request and the sending of a file are in \<open>Hk_Ws\<close>.
  What the library is told is a list (\<open>http_told\<close>); its answers are arguments.
\<close>

section \<open>Replies\<close>

datatype http_told =
    Hdr_status nat
  | Hdr_authenticate string
  | Hdr_type string
  | Hdr_server string
  | Hdr_length nat
  | Hdr_end
  | Return_status nat

definition SERVER_NAME :: string where "SERVER_NAME = ''HAKit''"

record http_lib =
  \<comment> \<open>adding a header fails; the headers can be written; \<open>lws_http_transaction_completed\<close> ends the connection\<close>
  hl_refuses :: "http_told \<Rightarrow> bool"
  hl_writes :: bool
  hl_completed :: bool

fun http_add_headers :: "(http_told \<Rightarrow> bool) \<Rightarrow> http_told list \<Rightarrow> http_told list \<times> bool" where
  \<comment> \<open>up to the first that is refused\<close>
  "http_add_headers refuses [] = ([], True)"
| "http_add_headers refuses (h # hs) =
     (if refuses h then ([], False)
      else case http_add_headers refuses hs of (told, ok) \<Rightarrow> (h # told, ok))"

definition http_finalize :: "nat \<Rightarrow> http_told list" where
  "http_finalize content_length = [Hdr_server SERVER_NAME, Hdr_length content_length, Hdr_end]"

definition http_send_headers ::
    "http_lib \<Rightarrow> http_told list \<Rightarrow> http_session \<Rightarrow> int \<times> http_told list \<times> http_session" where
  \<comment> \<open>a refused header leaves the file open\<close>
  "http_send_headers lib hs s =
     (case http_add_headers (hl_refuses lib) hs of (told, ok) \<Rightarrow>
        if \<not> ok then (1, told, s)
        else if \<not> hl_writes lib then (-1, told, s\<lparr>hs_file := None\<rparr>)
        else (0, told, s\<lparr>hs_asked := True\<rparr>))"

definition http_reset :: "http_session \<Rightarrow> http_session" where
  \<comment> \<open>\<open>hs_sent\<close> is what is sent of the new reply\<close>
  "http_reset s = s\<lparr>hs_file := None, hs_rsp := [], hs_offset := 0, hs_sent := []\<rparr>"

definition http_respond :: "http_lib \<Rightarrow> http_reply \<Rightarrow> http_session \<Rightarrow> int \<times> http_told list \<times> http_session" where
  "http_respond lib reply s =
     (case reply of
        Http_bad_request \<Rightarrow> (if hl_completed lib then -1 else 0, [Return_status 400], s)
      | Http_unauthorized \<Rightarrow>
          http_send_headers lib
            ([Hdr_status 401, Hdr_authenticate (''Basic realm='' @ [CHR 0x22] @ ''HAKit HTTP Server'' @ [CHR 0x22])] @ http_finalize 0)
            (http_reset s)
      | Http_post \<Rightarrow> (0, [], http_reset s)
      | Http_not_found \<Rightarrow> (-1, [Return_status 404], http_reset s)
      | Http_unsupported \<Rightarrow> (-1, [Return_status 415], http_reset s)
      | Http_file mime content \<Rightarrow>
          http_send_headers lib ([Hdr_status 200, Hdr_type mime] @ http_finalize (length content))
            ((http_reset s)\<lparr>hs_file := Some (content, 0)\<rparr>))"

definition ws_http_body :: "string \<Rightarrow> int" where
  "ws_http_body buf = 0"

definition ws_http_body_completion :: "http_lib \<Rightarrow> int \<times> http_told list" where
  "ws_http_body_completion lib = (if hl_completed lib then -1 else 0, [Return_status 200])"

definition ws_http_file_completion :: "http_lib \<Rightarrow> int" where
  "ws_http_file_completion lib = (if hl_completed lib then -1 else 0)"

section \<open>Callbacks\<close>

record http_env =
  he_files :: http_files
  he_server :: ws_server
  he_auth :: ws_auth
  he_room :: nat \<comment> \<open>of \<open>tx_buffer\<close> after the padding of the library\<close>

datatype http_reason =
    Lws_http string "string option" bool \<comment> \<open>path, \<open>Authorization\<close>, and whether there is a \<open>POST\<close> header\<close>
  | Lws_http_body string
  | Lws_http_body_completion
  | Lws_http_file_completion
  | Lws_http_writeable bool "lws_answer list"
  | Lws_add_poll_fd lws_pollargs
  | Lws_del_poll_fd lws_pollargs
  | Lws_change_mode_poll_fd lws_pollargs
  | Lws_other

definition ws_http_callback ::
    "http_env \<Rightarrow> http_lib \<Rightarrow> 'a \<Rightarrow> http_reason \<Rightarrow> http_session \<Rightarrow> (string, 'a, 'z) world
      \<Rightarrow> (int \<times> http_told list \<times> http_session \<times> (string, 'a, 'z) world) option" where
  "ws_http_callback env lib context reason s st =
     (case reason of
        Lws_http uri hdr post \<Rightarrow>
          map_option (\<lambda>reply. case http_respond lib reply s of (ret, told, s) \<Rightarrow> (ret, told, s, st))
            (ws_http_request (he_files env) (he_server env) (he_auth env) hdr post uri)
      | Lws_http_body buf \<Rightarrow> Some (ws_http_body buf, [], s, st)
      | Lws_http_body_completion \<Rightarrow> (case ws_http_body_completion lib of (ret, told) \<Rightarrow> Some (ret, told, s, st))
      | Lws_http_file_completion \<Rightarrow> Some (ws_http_file_completion lib, [], s, st)
      | Lws_http_writeable pending as \<Rightarrow>
          map_option (\<lambda>(ret, s). (ret, [], s, st)) (ws_http_writeable (he_room env) pending (hl_completed lib) as s)
      | Lws_add_poll_fd pa \<Rightarrow> Some (0, [], s, ws_poll context pa st)
      | Lws_del_poll_fd pa \<Rightarrow> Some (0, [], s, ws_poll_remove pa st)
      | Lws_change_mode_poll_fd pa \<Rightarrow> Some (0, [], s, ws_poll context pa st)
      | Lws_other \<Rightarrow> Some (0, [], s, st))"

section \<open>A page from the request to its last byte\<close>

definition http_writes ::
    "http_env \<Rightarrow> http_lib \<Rightarrow> 'a \<Rightarrow> (bool \<times> lws_answer list) list \<Rightarrow> http_session \<times> (string, 'a, 'z) world
      \<Rightarrow> (http_session \<times> (string, 'a, 'z) world) option" where
  \<comment> \<open>a sequence of callbacks for writing\<close>
  "http_writes env lib context calls s =
     foldo (\<lambda>(s, st) (pending, as). map_option (snd \<circ> snd) (ws_http_callback env lib context (Lws_http_writeable pending as) s st))
       s calls"

lemma http_add_ok: "http_add_headers refuses hs = (told, True) \<Longrightarrow> told = hs"
  by (induction hs arbitrary: told) (auto split: if_splits prod.splits)

definition page_part :: "string \<Rightarrow> http_session \<Rightarrow> bool" where
  \<comment> \<open>a page is being sent, or all of it was\<close>
  "page_part content s \<longleftrightarrow>
     (if hs_file s = None then hs_rsp s = [] \<and> hs_sent s = content
      else hs_file s = Some (content, length (hs_sent s)) \<and> take (length (hs_sent s)) content = hs_sent s)"

lemma writeable_closes: "ws_http_writeable sz pending completed as s = Some (ret, s') \<Longrightarrow> hs_file s' = None \<Longrightarrow>
    hs_file s \<noteq> None \<Longrightarrow> hs_rsp s' = []"
proof (induction sz pending completed as s rule: ws_http_writeable.induct)
  case (2 sz pending completed a as s)
  show ?case
    using "2.prems" "2.IH"
    by (fastforce simp: Let_def http_close_def http_taken_def bind_eq_Some_conv split: if_splits option.splits)
qed simp

lemma writeable_done: "hs_file s = None \<Longrightarrow> hs_rsp s = [] \<Longrightarrow> ws_http_writeable sz pending completed as s = Some (ret, s') \<Longrightarrow>
    hs_file s' = None \<and> hs_rsp s' = [] \<and> hs_sent s' = hs_sent s"
  by (cases as) (auto simp: http_next_def http_close_def Let_def split: if_splits)

lemma writeable_page_part:
  assumes "page_part content s" "ws_http_writeable sz pending completed as s = Some (ret, s')" "0 < sz"
    and "\<forall>a\<in>set as. -1 \<le> wa_allow a \<and> 0 \<le> wa_write a"
  shows "page_part content s'"
proof (cases "hs_file s = None")
  case True
  with assms(1) writeable_done [OF True _ assms(2)] show ?thesis by (simp add: page_part_def)
next
  case False
  with assms(1) http_file_sent [OF assms(2) _ _ assms(3)] assms(4) writeable_closes [OF assms(2) _ False]
  show ?thesis by (auto simp: page_part_def)
qed

text \<open>
  C28: A request that is answered with status 200 gets the type of a page and a length; whatever parts
  the library then takes, what is sent is the beginning of that page, and when the page is closed
  exactly the announced number of bytes was sent, which are the page.
\<close>

theorem http_page_delivered:
  assumes "ws_http_callback env lib ctx (Lws_http uri hdr post) s st = Some (0, told, s1, st1)" "Hdr_status 200 \<in> set told"
    and "http_writes env lib ctx calls (s1, st1) = Some (s2, st2)"
    and "0 < he_room env" "\<forall>(pending, as)\<in>set calls. \<forall>a\<in>set as. -1 \<le> wa_allow a \<and> 0 \<le> wa_write a"
  shows "\<exists>path mime content. hf_read (he_files env) path = Some content \<and> get_mimetype path = Some mime \<and>
    told = [Hdr_status 200, Hdr_type mime, Hdr_server SERVER_NAME, Hdr_length (length content), Hdr_end] \<and>
    take (length (hs_sent s2)) content = hs_sent s2 \<and> (hs_file s2 = None \<longrightarrow> hs_sent s2 = content)"
proof -
  obtain reply where r: "ws_http_request (he_files env) (he_server env) (he_auth env) hdr post uri = Some reply"
    "http_respond lib reply s = (0, told, s1)" "st1 = st"
    using assms(1) by (auto simp: ws_http_callback_def case_prod_beta prod_eq_iff)
  have "told = hs \<and> s1 = s0\<lparr>hs_asked := True\<rparr>" if "http_send_headers lib hs s0 = (0, told, s1)" for hs s0
    using that http_add_ok [of "hl_refuses lib" hs told] by (auto simp: http_send_headers_def split: prod.splits if_splits)
  then obtain mime content where fl: "reply = Http_file mime content"
    "told = [Hdr_status 200, Hdr_type mime] @ http_finalize (length content)"
    "s1 = (http_reset s)\<lparr>hs_file := Some (content, 0), hs_asked := True\<rparr>"
    using r(2) assms(2) by (cases reply) (fastforce simp: http_respond_def http_finalize_def split: if_splits)+
  have "\<exists>path. hf_read (he_files env) path = Some content \<and> get_mimetype path = Some mime"
    using r(1) fl(1) by (auto simp: ws_http_request_def split: if_splits option.splits)
  moreover have "page_part content s2"
  proof -
    have "page_part content s2" if "page_part content s1" "http_writes env lib ctx calls (s1, st1) = Some (s2, st2)"
      "\<forall>(pending, as)\<in>set calls. \<forall>a\<in>set as. -1 \<le> wa_allow a \<and> 0 \<le> wa_write a" for calls s1 st1
      using that
    proof (induction calls arbitrary: s1 st1)
      case (Cons call calls)
      obtain pending as where call: "call = (pending, as)" by (cases call)
      obtain ret s' where s': "ws_http_writeable (he_room env) pending (hl_completed lib) as s1 = Some (ret, s')"
        "http_writes env lib ctx calls (s', st1) = Some (s2, st2)"
        using Cons.prems(2) by (auto simp: http_writes_def call ws_http_callback_def bind_eq_Some_conv)
      have "page_part content s'"
        using Cons.prems(3) by (intro writeable_page_part [OF Cons.prems(1) s'(1) assms(4)]) (simp add: call)
      with Cons.IH s'(2) Cons.prems(3) show ?case by simp
    qed (simp add: http_writes_def)
    from this [OF _ assms(3,5)] show ?thesis by (simp add: fl(3) page_part_def http_reset_def)
  qed
  ultimately show ?thesis
    using fl(2) by (auto simp: page_part_def http_finalize_def split: if_splits)
qed

theorem http_page_delivered_witness:
  "\<exists>s1 s2. ws_http_callback
       \<lparr>he_files = page, he_server = ws_add_document_root ''/t'' empty_server, he_auth = \<lparr>auth_required = False, users = []\<rparr>, he_room = 4080\<rparr>
       \<lparr>hl_refuses = (\<lambda>_. False), hl_writes = True, hl_completed = False\<rparr> () (Lws_http ''/'' None False)
       \<lparr>hs_file = None, hs_rsp = [], hs_offset = 0, hs_sent = [], hs_asked = False\<rparr> (sys_start :: (string, unit) sys_state) =
       Some (0, [Hdr_status 200, Hdr_type ''text/html'', Hdr_server ''HAKit'', Hdr_length 6, Hdr_end], s1, sys_start) \<and>
     http_writes
       \<lparr>he_files = page, he_server = ws_add_document_root ''/t'' empty_server, he_auth = \<lparr>auth_required = False, users = []\<rparr>, he_room = 4080\<rparr>
       \<lparr>hl_refuses = (\<lambda>_. False), hl_writes = True, hl_completed = False\<rparr> ()
       [(False, [\<lparr>wa_allow = 4, wa_write = 3, wa_partial = True, wa_choked = False\<rparr>]),
        (False, [\<lparr>wa_allow = -1, wa_write = 10, wa_partial = False, wa_choked = False\<rparr>,
                 \<lparr>wa_allow = -1, wa_write = 0, wa_partial = False, wa_choked = False\<rparr>])] (s1, sys_start) = Some (s2, sys_start) \<and>
     hs_sent s2 = ''<html>''"
proof -
  let ?env = "\<lparr>he_files = page, he_server = ws_add_document_root ''/t'' empty_server,
    he_auth = \<lparr>auth_required = False, users = []\<rparr>, he_room = 4080\<rparr>"
  let ?lib = "\<lparr>hl_refuses = (\<lambda>_. False), hl_writes = True, hl_completed = False\<rparr>"
  let ?calls = "[(False, [\<lparr>wa_allow = 4, wa_write = 3, wa_partial = True, wa_choked = False\<rparr>]),
        (False, [\<lparr>wa_allow = -1, wa_write = 10, wa_partial = False, wa_choked = False\<rparr>,
                 \<lparr>wa_allow = -1, wa_write = 0, wa_partial = False, wa_choked = False\<rparr>])]"
  let ?s = "\<lparr>hs_file = None, hs_rsp = [], hs_offset = 0, hs_sent = [], hs_asked = False\<rparr>"
  let ?told = "[Hdr_status 200, Hdr_type ''text/html'', Hdr_server ''HAKit'', Hdr_length 6, Hdr_end]"
  have q: "ws_http_request page (ws_add_document_root ''/t'' empty_server) \<lparr>auth_required = False, users = []\<rparr> None False ''/'' =
      Some (Http_file ''text/html'' ''<html>'')" by code_simp
  obtain s1 where s1: "ws_http_callback ?env ?lib () (Lws_http ''/'' None False) ?s (sys_start :: (string, unit) sys_state) =
      Some (0, ?told, s1, sys_start)" "s1 = ?s\<lparr>hs_file := Some (''<html>'', 0), hs_asked := True\<rparr>"
    by (simp add: ws_http_callback_def q http_respond_def http_send_headers_def http_finalize_def SERVER_NAME_def http_reset_def)
  obtain s2 where s2: "http_writes ?env ?lib () ?calls (s1, sys_start :: (string, unit) sys_state) = Some (s2, sys_start)" "hs_file s2 = None"
    by (simp add: http_writes_def ws_http_callback_def s1(2) http_next_def http_taken_def http_close_def)
  have "\<exists>path mime content. hf_read page path = Some content \<and> ?told =
      [Hdr_status 200, Hdr_type mime, Hdr_server SERVER_NAME, Hdr_length (length content), Hdr_end] \<and> hs_sent s2 = content"
    using http_page_delivered [OF s1(1) _ s2(1)] s2(2) by force
  then have "hs_sent s2 = ''<html>''" by (auto simp: page_def split: if_splits)
  with s1(1) s2(1) show ?thesis by blast
qed

end
